(* ===== verification/Peta_Prelude.thy ===== *)
theory Peta_Prelude
  imports Complex_Main "HOL-Library.AList" "HOL-Library.Sublist" "HOL-Library.List_Lexorder"
    "HOL-Library.Char_ord"
begin

text \<open>
  Shared ground of the development: the JavaScript values the gateway handles, the string
  operations of the standard library its code calls, JavaScript's insertion-ordered \<open>Map\<close>
  as an association list, and the lemmas and rule collections the component theories use.

  Conventions. A JavaScript string is a HOL \<^typ>\<open>string\<close> (one \<^typ>\<open>char\<close> per code unit; units
  above 255 are outside the model). A \<open>Date\<close> or \<open>Date.now()\<close> is an \<^typ>\<open>int\<close> of
  milliseconds and is passed as an argument wherever the code reads the clock. A nullable or
  optional field is an \<^typ>\<open>'a option\<close>. An exception is the \<open>Inl\<close> side of a sum.
\<close>

section \<open>Collections of rules\<close>

named_theorems js_map_simps \<open>laws of the insertion-ordered map\<close>
named_theorems sql_simps \<open>laws of row selection and row update\<close>

section \<open>JavaScript values\<close>

text \<open>
  A finite double is a rational; the two zeros are identified, as \<open>===\<close>, \<open><\<close> and
  \<open>String\<close> identify them.
\<close>

datatype jsnum = NaN | PosInf | NegInf | Fin rat

text \<open>
  Functions, arrays and objects carry a reference identity of type \<^typ>\<open>'r\<close>, which is what
  \<open>===\<close> compares. JSON data, where identity plays no part, is \<open>unit jsval\<close>. The field
  list of an object is its own enumerable string-keyed properties in enumeration order.
\<close>

datatype 'r jsval =
    JUndef
  | JNull
  | JBool bool
  | JNum jsnum
  | JStr string
  | JFun 'r
  | JArr 'r "'r jsval list"
  | JObj 'r "(string \<times> 'r jsval) list"

type_synonym json = "unit jsval"
type_synonym 'r fields = "(string \<times> 'r jsval) list"

fun num_less :: "jsnum \<Rightarrow> jsnum \<Rightarrow> bool" where
  "num_less NaN _ = False"
| "num_less _ NaN = False"
| "num_less (Fin a) (Fin b) = (a < b)"
| "num_less (Fin a) PosInf = True"
| "num_less (Fin a) NegInf = False"
| "num_less NegInf b = (b \<noteq> NegInf)"
| "num_less PosInf b = False"

fun num_le :: "jsnum \<Rightarrow> jsnum \<Rightarrow> bool" where
  "num_le NaN _ = False"
| "num_le _ NaN = False"
| "num_le a b = (a = b \<or> num_less a b)"

text \<open>The operators \<open>===\<close> (strict equality) and the same-value-zero of \<open>includes\<close>.\<close>

fun strict_eq :: "'r jsval \<Rightarrow> 'r jsval \<Rightarrow> bool" where
  "strict_eq (JNum a) (JNum b) = (a \<noteq> NaN \<and> a = b)"
| "strict_eq (JFun r) (JFun s) = (r = s)"
| "strict_eq (JArr r _) (JArr s _) = (r = s)"
| "strict_eq (JObj r _) (JObj s _) = (r = s)"
| "strict_eq JUndef JUndef = True"
| "strict_eq JNull JNull = True"
| "strict_eq (JBool a) (JBool b) = (a = b)"
| "strict_eq (JStr a) (JStr b) = (a = b)"
| "strict_eq _ _ = False"

definition same_value_zero :: "'r jsval \<Rightarrow> 'r jsval \<Rightarrow> bool" where
  "same_value_zero a b \<longleftrightarrow> strict_eq a b \<or> (a = JNum NaN \<and> b = JNum NaN)"

text \<open>\<open>Boolean(value)\<close>: the falsy values are undefined, null, false, 0, NaN and the empty string.\<close>

fun truthy :: "'r jsval \<Rightarrow> bool" where
  "truthy JUndef = False"
| "truthy JNull = False"
| "truthy (JBool b) = b"
| "truthy (JNum n) = (n \<noteq> NaN \<and> n \<noteq> Fin 0)"
| "truthy (JStr s) = (s \<noteq> [])"
| "truthy (JFun _) = True"
| "truthy (JArr _ _) = True"
| "truthy (JObj _ _) = True"

fun is_object :: "'r jsval \<Rightarrow> bool" where
  "is_object (JArr _ _) = True"
| "is_object (JObj _ _) = True"
| "is_object _ = False"

section \<open>Strings\<close>

definition js_includes :: "string \<Rightarrow> string \<Rightarrow> bool" where
  "js_includes s t = sublist t s"

definition js_startsWith :: "string \<Rightarrow> string \<Rightarrow> bool" where
  "js_startsWith s t = prefix t s"

definition js_endsWith :: "string \<Rightarrow> string \<Rightarrow> bool" where
  "js_endsWith s t = suffix t s"

text \<open>\<open>s.split(c)\<close> for a one-character separator: never empty, the separators removed.\<close>

fun js_split :: "char \<Rightarrow> string \<Rightarrow> string list" where
  "js_split c [] = [[]]"
| "js_split c (x # xs) =
     (if x = c then [] # js_split c xs
      else (case js_split c xs of [] \<Rightarrow> [[x]] | y # ys \<Rightarrow> (x # y) # ys))"

fun js_join :: "string \<Rightarrow> string list \<Rightarrow> string" where
  "js_join sep [] = []"
| "js_join sep [x] = x"
| "js_join sep (x # y # ys) = x @ sep @ js_join sep (y # ys)"

definition js_space :: "char \<Rightarrow> bool" where
  "js_space c \<longleftrightarrow> of_char c \<in> {9, 10, 11, 12, 13, 32, 160 :: nat}"

definition js_trimStart :: "string \<Rightarrow> string" where
  "js_trimStart s = dropWhile js_space s"

definition js_trim :: "string \<Rightarrow> string" where
  "js_trim s = rev (dropWhile js_space (rev (dropWhile js_space s)))"

definition js_lower_char :: "char \<Rightarrow> char" where
  "js_lower_char c = (let n = of_char c :: nat in
     if 65 \<le> n \<and> n \<le> 90 \<or> 192 \<le> n \<and> n \<le> 222 \<and> n \<noteq> 215 then char_of (n + 32) else c)"

definition js_toLowerCase :: "string \<Rightarrow> string" where
  "js_toLowerCase s = map js_lower_char s"

lemma js_split_nonempty [simp]: "js_split c s \<noteq> []"
  by (cases s) (auto split: list.splits)

lemma js_split_no_sep: "c \<notin> set s \<Longrightarrow> js_split c s = [s]"
  by (induction s) auto

lemma js_split_append_sep: "c \<notin> set s \<Longrightarrow> js_split c (s @ c # t) = s # js_split c t"
  by (induction s) auto

lemma js_join_split: "js_join [c] (js_split c s) = s"
proof (induction s)
  case Nil
  show ?case by simp
next
  case (Cons x xs)
  then show ?case by (cases "js_split c xs") (auto, cases "tl (js_split c xs)", auto)
qed

lemma js_split_join:
  "xs \<noteq> [] \<Longrightarrow> \<forall>x\<in>set xs. c \<notin> set x \<Longrightarrow> js_split c (js_join [c] xs) = xs"
  by (induction "[c]" xs rule: js_join.induct) (auto simp: js_split_no_sep js_split_append_sep)

text \<open>Two joined lists agree only if they agree piecewise, when no piece holds the separator.\<close>

lemma js_join_inject:
  assumes "js_join [c] xs = js_join [c] ys" "xs \<noteq> []" "ys \<noteq> []"
    and "\<forall>x\<in>set xs. c \<notin> set x" "\<forall>y\<in>set ys. c \<notin> set y"
  shows "xs = ys"
  using assms js_split_join by metis

section \<open>Decimal notation\<close>

definition digit_char :: "nat \<Rightarrow> char" where
  "digit_char d = char_of (48 + d)"

fun nat_str :: "nat \<Rightarrow> string" where
  "nat_str n = (if n < 10 then [digit_char n] else nat_str (n div 10) @ [digit_char (n mod 10)])"

declare nat_str.simps [simp del]

definition int_str :: "int \<Rightarrow> string" where
  "int_str i = (if i < 0 then ''-'' @ nat_str (nat (- i)) else nat_str (nat i))"

definition char_digit :: "char \<Rightarrow> nat option" where
  "char_digit c = (let n = of_char c :: nat in
     if 48 \<le> n \<and> n \<le> 57 then Some (n - 48)
     else if 97 \<le> n \<and> n \<le> 122 then Some (n - 87)
     else if 65 \<le> n \<and> n \<le> 90 then Some (n - 55)
     else None)"

definition digit_in :: "nat \<Rightarrow> char \<Rightarrow> bool" where
  "digit_in radix c = (case char_digit c of None \<Rightarrow> False | Some d \<Rightarrow> d < radix)"

definition digit_value :: "char \<Rightarrow> nat" where
  "digit_value c = (case char_digit c of None \<Rightarrow> 0 | Some d \<Rightarrow> d)"

definition digits_value :: "nat \<Rightarrow> string \<Rightarrow> nat" where
  "digits_value radix s = fold (\<lambda>c acc. radix * acc + digit_value c) s 0"

text \<open>
  \<open>parseInt(s)\<close> with no radix: leading white space, an optional sign, an optional
  \<open>0x\<close> prefix, then the longest run of digits; \<open>NaN\<close> (here \<open>None\<close>) if it is empty.
\<close>

definition js_parseInt :: "string \<Rightarrow> int option" where
  "js_parseInt s =
     (let t = js_trimStart s;
          neg = (case t of c # _ \<Rightarrow> c = CHR ''-'' | [] \<Rightarrow> False);
          u = (case t of c # r \<Rightarrow> if c = CHR ''-'' \<or> c = CHR ''+'' then r else t | [] \<Rightarrow> []);
          hex = (prefix ''0x'' u \<or> prefix ''0X'' u);
          radix = (if hex then 16 else 10);
          ds = takeWhile (digit_in radix) (if hex then drop 2 u else u)
      in if ds = [] then None
         else Some (if neg then - int (digits_value radix ds) else int (digits_value radix ds)))"

lemma of_char_digit_char: "d < 10 \<Longrightarrow> (of_char (digit_char d) :: nat) = 48 + d"
  by (simp add: digit_char_def)

lemma char_digit_digit_char [simp]: "d < 10 \<Longrightarrow> char_digit (digit_char d) = Some d"
  by (simp add: char_digit_def of_char_digit_char)

lemma nat_str_nonempty [simp]: "nat_str n \<noteq> []"
  by (subst nat_str.simps) simp

lemma digits_value_snoc: "digits_value r (s @ [c]) = r * digits_value r s + digit_value c"
  by (simp add: digits_value_def)

lemma digits_value_nat_str: "digits_value 10 (nat_str n) = n"
proof (induction n rule: nat_str.induct)
  case (1 n)
  show ?case
  proof (cases "n < 10")
    case True
    then show ?thesis by (subst nat_str.simps) (simp add: digits_value_def digit_value_def)
  next
    case False
    with "1" have "digits_value 10 (nat_str (n div 10)) = n div 10" by simp
    with False show ?thesis
      by (subst nat_str.simps) (simp add: digits_value_snoc digit_value_def)
  qed
qed

lemma nat_str_inject [simp]: "nat_str m = nat_str n \<longleftrightarrow> m = n"
  by (metis digits_value_nat_str)

lemma nat_str_digits: "c \<in> set (nat_str n) \<Longrightarrow> \<exists>d<10. c = digit_char d"
proof (induction n rule: nat_str.induct)
  case (1 n)
  show ?case
  proof (cases "n < 10")
    case True
    with "1.prems" show ?thesis by (subst (asm) nat_str.simps) auto
  next
    case False
    with "1.prems" have "c \<in> set (nat_str (n div 10)) \<or> c = digit_char (n mod 10)"
      by (subst (asm) nat_str.simps) auto
    with False "1.IH" show ?thesis by (metis mod_less_divisor zero_less_numeral)
  qed
qed

lemma digit_in_nat_str: "c \<in> set (nat_str n) \<Longrightarrow> digit_in 10 c"
  using nat_str_digits by (fastforce simp: digit_in_def)

lemma int_str_inject [simp]: "int_str i = int_str j \<longleftrightarrow> i = j"
proof
  have dash: "CHR ''-'' \<notin> set (nat_str n)" for n
    using digit_in_nat_str[of "CHR ''-''" n] by (auto simp: digit_in_def char_digit_def)
  have neq: "CHR ''-'' # x \<noteq> nat_str n" for x n using dash by (metis list.set_intros(1))
  assume "int_str i = int_str j"
  then show "i = j" using neq neq[symmetric] by (auto simp: int_str_def split: if_splits)
qed simp

lemma takeWhile_all_digits: "takeWhile (digit_in 10) (nat_str n) = nat_str n"
  using digit_in_nat_str by (simp add: takeWhile_eq_all_conv)

section \<open>The insertion-ordered map\<close>

text \<open>
  A JavaScript \<open>Map\<close> is an association list with distinct keys in insertion order:
  \<open>get\<close> is \<^const>\<open>map_of\<close>, \<open>set\<close> overwrites in place or appends
  (\<^const>\<open>AList.update\<close>), \<open>delete\<close> is \<^const>\<open>AList.delete\<close>, \<open>size\<close> is the length.
\<close>

type_synonym ('k, 'v) jsmap = "('k \<times> 'v) list"

definition jsmap_ok :: "('k, 'v) jsmap \<Rightarrow> bool" where
  "jsmap_ok m = distinct (map fst m)"

definition jsmap_keep :: "('k \<Rightarrow> 'v \<Rightarrow> bool) \<Rightarrow> ('k, 'v) jsmap \<Rightarrow> ('k, 'v) jsmap" where
  "jsmap_keep P m = filter (\<lambda>(k, v). P k v) m"

text \<open>What a client of a map relies on, whatever represents it.\<close>

locale map_interface =
  fixes empty :: "'m"
    and get :: "'m \<Rightarrow> 'k \<Rightarrow> 'v option"
    and put :: "'k \<Rightarrow> 'v \<Rightarrow> 'm \<Rightarrow> 'm"
    and del :: "'k \<Rightarrow> 'm \<Rightarrow> 'm"
    and ok :: "'m \<Rightarrow> bool"
  assumes get_empty: "get empty k = None"
    and get_put: "ok m \<Longrightarrow> get (put k v m) k' = (if k' = k then Some v else get m k')"
    and get_del: "ok m \<Longrightarrow> get (del k m) k' = (if k' = k then None else get m k')"
    and ok_empty: "ok empty"
    and ok_put: "ok m \<Longrightarrow> ok (put k v m)"
    and ok_del: "ok m \<Longrightarrow> ok (del k m)"
begin

lemma get_put_same: "ok m \<Longrightarrow> get (put k v m) k = Some v"
  by (simp add: get_put)

lemma put_put_get: "ok m \<Longrightarrow> get (put k w (put k v m)) k' = get (put k w m) k'"
  by (simp add: get_put ok_put)

lemma del_put_get: "ok m \<Longrightarrow> get (del k (put k v m)) k' = get (del k m) k'"
  by (simp add: get_put get_del ok_put)

lemma puts_ok: "ok m \<Longrightarrow> ok (fold (\<lambda>(k, v). put k v) kvs m)"
  by (induction kvs arbitrary: m) (auto simp: ok_put split: prod.splits)

end

interpretation jsmap: map_interface "[]" map_of AList.update AList.delete jsmap_ok
  by unfold_locales
    (auto simp: jsmap_ok_def update_conv' delete_conv' distinct_update distinct_delete)

lemma jsmap_ok_Nil [simp]: "jsmap_ok []"
  by (simp add: jsmap_ok_def)

lemma jsmap_ok_keep [simp]: "jsmap_ok m \<Longrightarrow> jsmap_ok (jsmap_keep P m)"
  unfolding jsmap_ok_def jsmap_keep_def by (rule distinct_map_filter)

lemma map_of_keep:
  "jsmap_ok m \<Longrightarrow> map_of (jsmap_keep P m) k =
     (case map_of m k of None \<Rightarrow> None | Some v \<Rightarrow> if P k v then Some v else None)"
proof (induction m)
  case Nil
  then show ?case by (simp add: jsmap_keep_def)
next
  case (Cons p m)
  obtain a b where p: "p = (a, b)" by (cases p)
  from Cons.prems p have ok: "jsmap_ok m" and a: "map_of m a = None"
    by (auto simp: jsmap_ok_def map_of_eq_None_iff)
  show ?case using Cons.IH[OF ok] a p by (auto simp: jsmap_keep_def)
qed

lemma length_update:
  "length (AList.update k v m) = (if map_of m k = None then Suc (length m) else length m)"
  by (induction m) auto

lemma length_delete_less: "map_of m k \<noteq> None \<Longrightarrow> length (AList.delete k m) < length m"
proof (induction m)
  case Nil
  then show ?case by simp
next
  case (Cons p m)
  show ?case
  proof (cases "fst p = k")
    case True
    then show ?thesis using AList.length_delete_le[of k m] by (simp add: le_imp_less_Suc)
  next
    case False
    with Cons show ?thesis by (cases p) simp
  qed
qed

lemma set_update_subset: "(k', v') \<in> set (AList.update k v m) \<Longrightarrow> (k', v') = (k, v) \<or> (k', v') \<in> set m"
  by (induction m) (auto split: if_splits)

lemmas [js_map_simps] = update_conv' delete_conv' map_of_keep

section \<open>Tables\<close>

text \<open>
  A table is the list of its rows. A conditional \<open>UPDATE ... WHERE ... RETURNING *\<close> changes
  every row that satisfies the condition and returns the changed rows.
\<close>

definition sql_update :: "('a \<Rightarrow> bool) \<Rightarrow> ('a \<Rightarrow> 'a) \<Rightarrow> 'a list \<Rightarrow> 'a list" where
  "sql_update P f rows = map (\<lambda>r. if P r then f r else r) rows"

definition sql_returning :: "('a \<Rightarrow> bool) \<Rightarrow> ('a \<Rightarrow> 'a) \<Rightarrow> 'a list \<Rightarrow> 'a list" where
  "sql_returning P f rows = map f (filter P rows)"

text \<open>
  \<open>findFirst ... orderBy k desc\<close> and \<open>findMany ... orderBy k desc\<close>: the rows that
  satisfy the condition, largest key first, rows with equal keys in table order.
\<close>

definition order_desc :: "('a \<Rightarrow> int) \<Rightarrow> 'a list \<Rightarrow> 'a list" where
  "order_desc k rows = sort_key (\<lambda>r. - k r) rows"

definition find_first_desc :: "('a \<Rightarrow> int) \<Rightarrow> ('a \<Rightarrow> bool) \<Rightarrow> 'a list \<Rightarrow> 'a option" where
  "find_first_desc k P rows = (case order_desc k (filter P rows) of [] \<Rightarrow> None | r # _ \<Rightarrow> Some r)"

lemma length_sql_update [simp]: "length (sql_update P f rows) = length rows"
  by (simp add: sql_update_def)

lemma set_sql_update: "set (sql_update P f rows) = (\<lambda>r. if P r then f r else r) ` set rows"
  by (simp add: sql_update_def)

lemma map_sql_update: "(\<And>r. g (f r) = g r) \<Longrightarrow> map g (sql_update P f rows) = map g rows"
  by (induction rows) (auto simp: sql_update_def)

lemma sql_update_none: "(\<And>r. r \<in> set rows \<Longrightarrow> \<not> P r) \<Longrightarrow> sql_update P f rows = rows"
  by (induction rows) (auto simp: sql_update_def)

lemma sql_returning_Nil_iff: "sql_returning P f rows = [] \<longleftrightarrow> (\<forall>r\<in>set rows. \<not> P r)"
  by (auto simp: sql_returning_def filter_empty_conv)

lemma set_order_desc [simp]: "set (order_desc k rows) = set rows"
  by (simp add: order_desc_def)

lemma order_desc_sorted: "sorted_wrt (\<lambda>a b. k b \<le> k a) (order_desc k rows)"
proof -
  have "sorted (map (\<lambda>r. - k r) (order_desc k rows))" by (simp add: order_desc_def)
  then show ?thesis by (simp add: sorted_wrt_map)
qed

lemma find_first_desc_None_iff: "find_first_desc k P rows = None \<longleftrightarrow> (\<forall>r\<in>set rows. \<not> P r)"
proof -
  have "order_desc k (filter P rows) = [] \<longleftrightarrow> filter P rows = []"
    by (metis set_empty set_order_desc)
  then show ?thesis by (auto simp: find_first_desc_def filter_empty_conv split: list.splits)
qed

lemma find_first_desc_Some:
  assumes "find_first_desc k P rows = Some r"
  shows "r \<in> set rows" "P r" "\<And>r'. r' \<in> set rows \<Longrightarrow> P r' \<Longrightarrow> k r' \<le> k r"
proof -
  obtain rs where rs: "order_desc k (filter P rows) = r # rs"
    using assms by (auto simp: find_first_desc_def split: list.splits)
  then have mem: "set (r # rs) = {x \<in> set rows. P x}" by (metis set_filter set_order_desc)
  then show "r \<in> set rows" "P r" by auto
  show "k r' \<le> k r" if "r' \<in> set rows" "P r'" for r'
    using order_desc_sorted[of k "filter P rows"] rs mem that by fastforce
qed

lemmas [sql_simps] = set_sql_update sql_returning_Nil_iff find_first_desc_None_iff

end
