(* ===== verification/Json_Text.thy ===== *)
theory Json_Text
  imports Peta_Prelude
begin

text \<open>
  JSON as text: \<open>JSON.stringify\<close> for the values of the prelude, the property order of
  objects built by \<open>Object.fromEntries\<close>, and the two facts the request hashes rest on:
  quoted strings are uniquely decodable, and sorting the keys of an object makes its text
  independent of the order its fields were given in. How a finite number is printed is a
  parameter (\<open>nstr\<close>).
\<close>

section \<open>Quoting\<close>

definition hex_char :: "nat \<Rightarrow> char" where
  "hex_char d = (if d < 10 then char_of (48 + d) else char_of (87 + d))"

definition json_escape :: "char \<Rightarrow> string" where
  "json_escape c =
     (if c = CHR 0x22 then [CHR 0x5C, CHR 0x22]
      else if c = CHR 0x5C then [CHR 0x5C, CHR 0x5C]
      else if c = CHR 0x08 then [CHR 0x5C, CHR ''b'']
      else if c = CHR 0x0C then [CHR 0x5C, CHR ''f'']
      else if c = CHR 0x0A then [CHR 0x5C, CHR ''n'']
      else if c = CHR 0x0D then [CHR 0x5C, CHR ''r'']
      else if c = CHR 0x09 then [CHR 0x5C, CHR ''t'']
      else let n = of_char c :: nat in
        if n < 32 then CHR 0x5C # ''u00'' @ [hex_char (n div 16), hex_char (n mod 16)]
        else [c])"

definition json_quote :: "string \<Rightarrow> string" where
  "json_quote s = CHR 0x22 # concat (map json_escape s) @ [CHR 0x22]"

text \<open>Reading one quoted string back, for the proof that quoting loses nothing.\<close>

definition unhex :: "char \<Rightarrow> nat" where
  "unhex c = (let n = of_char c in if n < 58 then n - 48 else n - 87)"

fun unquote_body :: "string \<Rightarrow> (string \<times> string) option" where
  "unquote_body [] = None"
| "unquote_body (c # cs) =
     (if c = CHR 0x22 then Some ([], cs)
      else if c = CHR 0x5C then
        (case cs of
           [] \<Rightarrow> None
         | e # es \<Rightarrow>
             if e = CHR ''u'' then
               (case es of
                  z # z' # h # l # r \<Rightarrow>
                    map_option (map_prod (Cons (char_of (16 * unhex h + unhex l))) id) (unquote_body r)
                | _ \<Rightarrow> None)
             else map_option (map_prod (Cons
                 (if e = CHR ''b'' then CHR 0x08 else if e = CHR ''f'' then CHR 0x0C
                  else if e = CHR ''n'' then CHR 0x0A else if e = CHR ''r'' then CHR 0x0D
                  else if e = CHR ''t'' then CHR 0x09 else e)) id) (unquote_body es))
      else map_option (map_prod (Cons c) id) (unquote_body cs))"

lemma unhex_hex_char: "d < 16 \<Longrightarrow> unhex (hex_char d) = d"
  by (simp add: unhex_def hex_char_def)

lemma unquote_escape:
  "unquote_body (json_escape c @ r) = map_option (map_prod (Cons c) id) (unquote_body r)"
proof -
  have ctl: "16 * unhex (hex_char (n div 16)) + unhex (hex_char (n mod 16)) = n" if "n < 32" for n
    using that by (simp add: unhex_hex_char)
  consider (dq) "c = CHR 0x22" | (bs) "c = CHR 0x5C" | (b) "c = CHR 0x08" | (f) "c = CHR 0x0C"
    | (n) "c = CHR 0x0A" | (r) "c = CHR 0x0D" | (t) "c = CHR 0x09"
    | (other) "c \<notin> {CHR 0x22, CHR 0x5C, CHR 0x08, CHR 0x0C, CHR 0x0A, CHR 0x0D, CHR 0x09}" by blast
  then show ?thesis
  proof cases
    case other
    then show ?thesis
      using ctl[of "of_char c"] by (simp add: json_escape_def Let_def)
  qed (simp_all add: json_escape_def)
qed

lemma unquote_quote: "unquote_body (concat (map json_escape s) @ CHR 0x22 # r) = Some (s, r)"
  by (induction s) (simp_all add: unquote_escape)

lemma json_quote_inject:
  "json_quote s @ r = json_quote s' @ r' \<longleftrightarrow> s = s' \<and> r = r'"
proof
  assume "json_quote s @ r = json_quote s' @ r'"
  then have "unquote_body (concat (map json_escape s) @ CHR 0x22 # r) =
             unquote_body (concat (map json_escape s') @ CHR 0x22 # r')"
    by (simp add: json_quote_def)
  then show "s = s' \<and> r = r'" by (simp add: unquote_quote)
qed simp

section \<open>Objects in property order\<close>

text \<open>
  Enumeration order: keys that are canonical array indices first, in numeric order, then the
  other keys in the order they were added.
\<close>

definition index_key :: "string \<Rightarrow> bool" where
  "index_key s \<longleftrightarrow> s \<noteq> [] \<and> list_all (digit_in 10) s \<and> nat_str (digits_value 10 s) = s \<and>
     digits_value 10 s < 2 ^ 32 - 1"

definition own_order :: "(string \<times> 'a) list \<Rightarrow> (string \<times> 'a) list" where
  "own_order es =
     sort_key (\<lambda>(k, _). digits_value 10 k) (filter (\<lambda>(k, _). index_key k) es) @
     filter (\<lambda>(k, _). \<not> index_key k) es"

definition fromEntries :: "(string \<times> 'a) list \<Rightarrow> (string \<times> 'a) list" where
  "fromEntries es = own_order (fold (\<lambda>(k, v). AList.update k v) es [])"

section \<open>Text of a value\<close>

fun json_num :: "(rat \<Rightarrow> string) \<Rightarrow> jsnum \<Rightarrow> string" where
  "json_num nstr (Fin q) = nstr q"
| "json_num nstr _ = ''null''"

text \<open>
  \<open>JSON.stringify\<close>: \<open>None\<close> for undefined and functions, which objects drop and arrays
  print as \<open>null\<close>.
\<close>

fun json_text :: "(rat \<Rightarrow> string) \<Rightarrow> 'r jsval \<Rightarrow> string option" where
  "json_text nstr JUndef = None"
| "json_text nstr (JFun _) = None"
| "json_text nstr JNull = Some ''null''"
| "json_text nstr (JBool b) = Some (if b then ''true'' else ''false'')"
| "json_text nstr (JNum n) = Some (json_num nstr n)"
| "json_text nstr (JStr s) = Some (json_quote s)"
| "json_text nstr (JArr _ vs) =
     Some (''['' @ js_join '','' (map (\<lambda>v. case json_text nstr v of Some t \<Rightarrow> t | None \<Rightarrow> ''null'') vs) @ '']'')"
| "json_text nstr (JObj _ fs) =
     Some (''{'' @ js_join '',''
        (concat (map (\<lambda>(k, v). case json_text nstr v of
           Some t \<Rightarrow> [json_quote k @ '':'' @ t] | None \<Rightarrow> []) fs)) @ ''}'')"

text \<open>\<open>JSON.parse(JSON.stringify(value))\<close>: what is left of a value in its text.\<close>

fun json_reparse :: "json \<Rightarrow> json" where
  "json_reparse (JFun _) = JUndef"
| "json_reparse (JNum n) = (case n of Fin _ \<Rightarrow> JNum n | _ \<Rightarrow> JNull)"
| "json_reparse (JArr r vs) =
     JArr r (map (\<lambda>v. if json_reparse v = JUndef then JNull else json_reparse v) vs)"
| "json_reparse (JObj r fs) =
     JObj r (filter (\<lambda>(k, v). v \<noteq> JUndef) (map (\<lambda>(k, v). (k, json_reparse v)) fs))"
| "json_reparse v = v"

section \<open>Sorted keys\<close>

text \<open>Values that differ only in the order in which their objects list their fields.\<close>

inductive same_json :: "json \<Rightarrow> json \<Rightarrow> bool" where
  sj_refl: "same_json v v"
| sj_arr: "list_all2 same_json vs ws \<Longrightarrow> same_json (JArr r vs) (JArr r ws)"
| sj_obj: "distinct (map fst fs) \<Longrightarrow> distinct (map fst gs) \<Longrightarrow> fst ` set fs = fst ` set gs \<Longrightarrow>
    (\<forall>k v w. (k, v) \<in> set fs \<longrightarrow> (k, w) \<in> set gs \<longrightarrow> same_json v w) \<Longrightarrow>
    same_json (JObj r fs) (JObj r gs)"

text \<open>Recursively sort the fields by key, rebuilding every object with \<open>Object.fromEntries\<close>.\<close>

fun sort_fields :: "json \<Rightarrow> json" where
  "sort_fields (JArr r vs) = JArr r (map sort_fields vs)"
| "sort_fields (JObj r fs) =
     JObj r (fromEntries (sort_key fst (map (\<lambda>(k, v). (k, sort_fields v)) fs)))"
| "sort_fields v = v"

lemma sort_key_fst_unique:
  fixes xs ys :: "(string \<times> 'a) list"
  assumes "distinct (map fst xs)" "distinct (map fst ys)" "set xs = set ys"
  shows "sort_key fst xs = sort_key fst ys"
proof (rule map_sorted_distinct_set_unique[of fst])
  show "inj_on fst (set (sort_key fst xs) \<union> set (sort_key fst ys))"
    using assms by (simp add: distinct_map)
qed (use assms in \<open>simp_all add: distinct_map\<close>)

lemma same_fields:
  assumes "distinct (map fst fs)" "distinct (map fst gs)" "fst ` set fs = fst ` set gs"
    and "\<forall>k v w. (k, v) \<in> set fs \<longrightarrow> (k, w) \<in> set gs \<longrightarrow> f v = g w"
  shows "set (map (\<lambda>(k, v). (k, f v)) fs) = set (map (\<lambda>(k, v). (k, g v)) gs)"
proof (rule set_eqI, rule iffI)
  fix x assume "x \<in> set (map (\<lambda>(k, v). (k, f v)) fs)"
  then obtain k v where kv: "(k, v) \<in> set fs" "x = (k, f v)" by auto
  then have "k \<in> fst ` set gs" using assms(3) by force
  then obtain w where kw: "(k, w) \<in> set gs" by auto
  with kv assms(4) have "x = (k, g w)" by blast
  with kw show "x \<in> set (map (\<lambda>(k, v). (k, g v)) gs)" by force
next
  fix x assume "x \<in> set (map (\<lambda>(k, v). (k, g v)) gs)"
  then obtain k w where kw: "(k, w) \<in> set gs" "x = (k, g w)" by auto
  then have "k \<in> fst ` set fs" using assms(3) by force
  then obtain v where kv: "(k, v) \<in> set fs" by auto
  with kw assms(4) have "x = (k, f v)" by metis
  with kv show "x \<in> set (map (\<lambda>(k, v). (k, f v)) fs)" by force
qed

lemma map_fst_fields: "map fst (map (\<lambda>(k, v). (k, f v)) fs) = map fst fs"
  by (induction fs) auto

lemma sort_fields_same: "same_json a b \<Longrightarrow> sort_fields a = sort_fields b"
proof (induction rule: same_json.induct)
  case (sj_arr vs ws r)
  then have "map sort_fields vs = map sort_fields ws"
    by (induction rule: list_all2_induct) auto
  then show ?case by simp
next
  case (sj_obj fs gs r)
  let ?f = "\<lambda>(k, v). (k, sort_fields v)"
  have "set (map ?f fs) = set (map ?f gs)"
    using sj_obj by (intro same_fields) auto
  then have "sort_key fst (map ?f fs) = sort_key fst (map ?f gs)"
    using sj_obj(1,2) by (intro sort_key_fst_unique) (simp_all only: map_fst_fields)
  then show ?case by simp
qed simp

end
