(* ===== verification/Approval_Hash.thy ===== *)
theory Approval_Hash
  imports Json_Text
begin

text \<open>
  What is stored and hashed for an approval request: the request hash of
  \<open>src/mcp/services/ApprovalRequestHasher.ts\<close>, and the redaction of arguments and execution
  results of \<open>src/mcp/services/ApprovalService.ts\<close>. The results: the hash does not depend on
  the order of argument fields, the hashed text determines every component of the request, and
  what is stored for display or replay holds no value under a sensitive key.
\<close>

section \<open>The request hash\<close>

definition sortKeys :: "json \<Rightarrow> json" where
  "sortKeys v = sort_fields v"

definition canonicalizeArgs :: "(rat \<Rightarrow> string) \<Rightarrow> (string \<times> json) list \<Rightarrow> string" where
  "canonicalizeArgs nstr args =
     (case json_text nstr (sortKeys (JObj () args)) of Some t \<Rightarrow> t | None \<Rightarrow> [])"

definition hashInput ::
    "(rat \<Rightarrow> string) \<Rightarrow> string \<Rightarrow> string option \<Rightarrow> string \<Rightarrow> (string \<times> json) list \<Rightarrow> int \<Rightarrow> string" where
  "hashInput nstr userId serverId toolName args policyVersion =
     (case json_text nstr (JArr ()
        [JStr ''v2'', JStr userId, (case serverId of Some s \<Rightarrow> JStr s | None \<Rightarrow> JNull),
         JStr toolName, JStr (canonicalizeArgs nstr args), JNum (Fin (of_int policyVersion))]) of
        Some t \<Rightarrow> t | None \<Rightarrow> [])"

text \<open>\<open>sha256\<close> is the digest of the crypto module, in hexadecimal.\<close>

definition computeHash ::
    "(string \<Rightarrow> string) \<Rightarrow> (rat \<Rightarrow> string) \<Rightarrow> string \<Rightarrow> string option \<Rightarrow> string \<Rightarrow>
     (string \<times> json) list \<Rightarrow> int \<Rightarrow> string" where
  "computeHash sha256 nstr userId serverId toolName args policyVersion =
     sha256 (hashInput nstr userId serverId toolName args policyVersion)"

section \<open>Arguments for display\<close>

definition truncate_text :: "string \<Rightarrow> string" where
  "truncate_text s = (if length s > 100 then take 100 s @ ''...'' else s)"

text \<open>\<open>fun_text\<close> is \<open>String(value)\<close> for a value that is none of the listed kinds.\<close>

fun redact_item :: "string \<Rightarrow> json \<Rightarrow> json" where
  "redact_item fun_text (JStr s) = JStr (truncate_text s)"
| "redact_item fun_text (JArr _ _) = JStr ''[object]''"
| "redact_item fun_text (JObj _ _) = JStr ''[object]''"
| "redact_item fun_text (JFun _) = JStr fun_text"
| "redact_item fun_text v = v"

fun redact_value :: "string \<Rightarrow> nat \<Rightarrow> json \<Rightarrow> json" where
  "redact_value fun_text depth (JStr s) = JStr (truncate_text s)"
| "redact_value fun_text depth (JArr r vs) =
     (if depth < 2 then JArr r (map (redact_item fun_text) vs)
      else JStr (''[Array('' @ nat_str (length vs) @ '')]''))"
| "redact_value fun_text depth (JObj r fs) =
     (if depth < 2 then JObj r (map (\<lambda>(k, v). (k, redact_value fun_text (depth + 1) v)) fs)
      else JStr ''[object]'')"
| "redact_value fun_text depth (JFun _) = JStr fun_text"
| "redact_value fun_text depth v = v"

definition redactArgs :: "string \<Rightarrow> (string \<times> json) list \<Rightarrow> (string \<times> json) list" where
  "redactArgs fun_text args = map (\<lambda>(k, v). (k, redact_value fun_text 0 v)) args"

section \<open>Execution results for replay\<close>

definition sensitive_words :: "string list" where
  "sensitive_words = [''password'', ''secret'', ''token'', ''apikey'', ''api_key'', ''authorization'',
     ''credential'']"

definition sensitive_key :: "string \<Rightarrow> bool" where
  "sensitive_key k = list_ex (js_includes (js_toLowerCase k)) sensitive_words"

fun redact_walk :: "json \<Rightarrow> json" where
  "redact_walk (JArr r vs) = JArr r (map redact_walk vs)"
| "redact_walk (JObj r fs) =
     JObj r (map (\<lambda>(k, v). (k, if k \<noteq> [] \<and> sensitive_key k then JStr ''[redacted]'' else redact_walk v)) fs)"
| "redact_walk v = v"

definition redactSensitiveExecutionFields :: "json \<Rightarrow> json" where
  "redactSensitiveExecutionFields input = redact_walk input"

definition max_result_bytes :: nat where
  "max_result_bytes = 64 * 1024"

definition max_preview_chars :: nat where
  "max_preview_chars = 280"

definition sanitizeExecutionResult :: "(rat \<Rightarrow> string) \<Rightarrow> json \<Rightarrow> json" where
  "sanitizeExecutionResult nstr executionResult =
     (case executionResult of
        JObj _ _ \<Rightarrow>
          (let redacted = redactSensitiveExecutionFields executionResult;
               rawJson = (case json_text nstr redacted of Some t \<Rightarrow> t | None \<Rightarrow> [])
           in if length rawJson \<le> max_result_bytes then redacted
              else JObj () [(''kind'', JStr ''execution_result_truncated''),
                (''preview'', JStr (take max_preview_chars rawJson)),
                (''truncated'', JBool True),
                (''originalSizeBytes'', JNum (Fin (of_nat (length rawJson))))])
      | _ \<Rightarrow> JObj () [(''kind'', JStr ''execution_result_unavailable''),
          (''preview'', JStr ''Execution result is unavailable for replay.''),
          (''truncated'', JBool False)])"

section \<open>The hash\<close>

lemma canonicalizeArgs_same:
  assumes "same_json (JObj () args) (JObj () args')"
  shows "canonicalizeArgs nstr args = canonicalizeArgs nstr args'"
  using sort_fields_same[OF assms] by (simp add: canonicalizeArgs_def sortKeys_def)

lemma hashInput_text:
  "hashInput nstr u sid tool args v =
     ''['' @ json_quote ''v2'' @ '','' @ json_quote u @ '','' @
     (case sid of Some s \<Rightarrow> json_quote s | None \<Rightarrow> ''null'') @ '','' @
     json_quote tool @ '','' @ json_quote (canonicalizeArgs nstr args) @ '','' @ nstr (of_int v) @ '']''"
  by (cases sid) (simp_all add: hashInput_def)

lemma json_quote_not_null: "json_quote s @ r \<noteq> ''null'' @ r'"
  by (simp add: json_quote_def)

lemma hashInput_inject:
  assumes "hashInput nstr u sid tool args v = hashInput nstr u' sid' tool' args' v'"
    and num: "\<And>i j. nstr (of_int i) = nstr (of_int j) \<Longrightarrow> i = j"
  shows "u = u' \<and> sid = sid' \<and> tool = tool' \<and>
    canonicalizeArgs nstr args = canonicalizeArgs nstr args' \<and> v = v'"
proof -
  have "u = u'" and rest: "(case sid of Some s \<Rightarrow> json_quote s | None \<Rightarrow> ''null'') @ '','' @
     json_quote tool @ '','' @ json_quote (canonicalizeArgs nstr args) @ '','' @ nstr (of_int v) @ '']'' =
     (case sid' of Some s \<Rightarrow> json_quote s | None \<Rightarrow> ''null'') @ '','' @
     json_quote tool' @ '','' @ json_quote (canonicalizeArgs nstr args') @ '','' @ nstr (of_int v') @ '']''"
    using assms(1) unfolding hashInput_text by (auto simp: json_quote_inject)
  moreover have "sid = sid'"
  proof (cases sid; cases sid')
    fix s assume "sid = None" "sid' = Some s"
    with rest show ?thesis using json_quote_not_null[symmetric] by auto
  next
    fix s assume "sid = Some s" "sid' = None"
    with rest show ?thesis using json_quote_not_null by auto
  next
    fix s s' assume "sid = Some s" "sid' = Some s'"
    with rest show ?thesis by (auto simp: json_quote_inject)
  qed simp
  ultimately have "json_quote tool @ '','' @ json_quote (canonicalizeArgs nstr args) @ '','' @ nstr (of_int v) @ '']'' =
     json_quote tool' @ '','' @ json_quote (canonicalizeArgs nstr args') @ '','' @ nstr (of_int v') @ '']''"
    by simp
  with \<open>u = u'\<close> \<open>sid = sid'\<close> num show ?thesis by (auto simp: json_quote_inject)
qed

section \<open>Redaction\<close>

text \<open>No object anywhere inside a value holds a sensitive key with anything but the marker.\<close>

fun no_leak :: "json \<Rightarrow> bool" where
  "no_leak (JArr _ vs) = list_all no_leak vs"
| "no_leak (JObj _ fs) =
     list_all (\<lambda>(k, v). no_leak v \<and> (k \<noteq> [] \<and> sensitive_key k \<longrightarrow> v = JStr ''[redacted]'')) fs"
| "no_leak v = True"

lemma redact_walk_no_leak: "no_leak (redact_walk v)"
  by (induction v rule: redact_walk.induct) (auto simp: list_all_iff split: prod.splits)

text \<open>Nesting depth.\<close>

fun nesting :: "json \<Rightarrow> nat" where
  "nesting (JArr _ vs) = Suc (fold max (map nesting vs) 0)"
| "nesting (JObj _ fs) = Suc (fold max (map (\<lambda>(_, v). nesting v) fs) 0)"
| "nesting v = 0"

lemma fold_max_le: "(\<forall>x\<in>set xs. x \<le> m) \<Longrightarrow> (a :: nat) \<le> m \<Longrightarrow> fold max xs a \<le> m"
  by (induction xs arbitrary: a) auto

lemma nesting_item: "nesting (redact_item f v) = 0"
  by (cases v) auto

lemma nesting_redact: "nesting (redact_value f d v) \<le> 2 - d"
proof (induction f d v rule: redact_value.induct)
  case (2 f d r vs)
  have "fold max (map nesting (map (redact_item f) vs)) 0 \<le> 0"
    by (rule fold_max_le) (auto simp: nesting_item)
  then show ?case by auto
next
  case (3 f d r fs)
  have "fold max (map (\<lambda>(_, v). nesting v) (map (\<lambda>(k, v). (k, redact_value f (d + 1) v)) fs)) 0
      \<le> 2 - (d + 1)" if "d < 2"
    using 3 that by (intro fold_max_le) (auto split: prod.splits)
  then show ?case by auto
qed auto

lemma fixed_keys_not_sensitive:
  "\<not> sensitive_key ''kind''" "\<not> sensitive_key ''preview''" "\<not> sensitive_key ''truncated''"
  "\<not> sensitive_key ''originalSizeBytes''"
  by code_simp+

lemma json_text_obj: "\<exists>t. json_text nstr (JObj r fs) = Some t"
  by simp

section \<open>Properties\<close>

text \<open>
  C39: the request hash is canonical. Two calls whose arguments differ only in the order in which
  objects, at any depth, list their fields have the same request hash, so a retry is recognised
  as the same request.
\<close>

theorem approval_hash_canonical:
  assumes "same_json (JObj () args) (JObj () args')"
  shows "computeHash sha256 nstr userId serverId toolName args policyVersion =
         computeHash sha256 nstr userId serverId toolName args' policyVersion"
  using canonicalizeArgs_same[OF assms] by (simp add: computeHash_def hashInput_def)

theorem approval_hash_canonical_witness:
  "computeHash id (\<lambda>q. int_str \<lfloor>q\<rfloor>) ''u'' None ''t''
      [(''b'', JObj () [(''y'', JNull), (''x'', JBool True)]), (''a'', JNum (Fin 1))] 3 =
   computeHash id (\<lambda>q. int_str \<lfloor>q\<rfloor>) ''u'' None ''t''
      [(''a'', JNum (Fin 1)), (''b'', JObj () [(''x'', JBool True), (''y'', JNull)])] 3"
proof -
  have "same_json (JObj () [(''y'', JNull), (''x'', JBool True)]) (JObj () [(''x'', JBool True), (''y'', JNull)])"
    by (rule sj_obj) (auto intro: sj_refl)
  then have "same_json (JObj () [(''b'', JObj () [(''y'', JNull), (''x'', JBool True)]), (''a'', JNum (Fin 1))])
     (JObj () [(''a'', JNum (Fin 1)), (''b'', JObj () [(''x'', JBool True), (''y'', JNull)])])"
    by (intro sj_obj) (auto intro: sj_refl)
  then show ?thesis by (rule approval_hash_canonical)
qed

text \<open>
  The hashed text separates requests. If two requests hash the same text then they agree on
  the user, the server (or its absence), the tool, the canonical text of the arguments and the
  policy version; no choice of names or arguments can make the fields of one run into those of
  another. The only fact used of number printing is that distinct integers print differently.
\<close>

theorem approval_hash_input_separates:
  assumes "hashInput nstr userId serverId toolName args policyVersion =
      hashInput nstr userId' serverId' toolName' args' policyVersion'"
    and "\<And>i j. nstr (of_int i) = nstr (of_int j) \<Longrightarrow> i = j"
  shows "userId = userId' \<and> serverId = serverId' \<and> toolName = toolName' \<and>
    canonicalizeArgs nstr args = canonicalizeArgs nstr args' \<and> policyVersion = policyVersion'"
  using assms by (rule hashInput_inject)

theorem approval_hash_input_separates_witness:
  "canonicalizeArgs (\<lambda>q. int_str \<lfloor>q\<rfloor>) [(''k'', JStr ''v''), (''a'', JNull)] =
   canonicalizeArgs (\<lambda>q. int_str \<lfloor>q\<rfloor>) [(''a'', JNull), (''k'', JStr ''v'')]"
proof -
  have "hashInput (\<lambda>q. int_str \<lfloor>q\<rfloor>) ''u'' (Some ''s'') ''t'' [(''k'', JStr ''v''), (''a'', JNull)] 1 =
        hashInput (\<lambda>q. int_str \<lfloor>q\<rfloor>) ''u'' (Some ''s'') ''t'' [(''a'', JNull), (''k'', JStr ''v'')] 1"
    by code_simp
  from approval_hash_input_separates[OF this] show ?thesis by simp
qed

text \<open>
  What is stored of an execution result is safe to replay. The sanitised result never holds
  a value under a key naming a password, secret, token, API key, authorization or credential, at
  any depth; and it is either an object whose text has at most 65536 characters or a fixed
  envelope with a preview of at most 280 characters.
\<close>

theorem sanitized_result_safe:
  "no_leak (sanitizeExecutionResult nstr v) \<and>
   (\<exists>t. json_text nstr (sanitizeExecutionResult nstr v) = Some t \<and>
      (length t \<le> 65536 \<or>
       (\<exists>preview size. length preview \<le> 280 \<and> sanitizeExecutionResult nstr v =
          JObj () [(''kind'', JStr ''execution_result_truncated''), (''preview'', JStr preview),
            (''truncated'', JBool True), (''originalSizeBytes'', JNum (Fin (of_nat size)))])))"
proof (cases "\<exists>r fs. v = JObj r fs")
  case False
  then have s: "sanitizeExecutionResult nstr v =
      JObj () [(''kind'', JStr ''execution_result_unavailable''),
          (''preview'', JStr ''Execution result is unavailable for replay.''), (''truncated'', JBool False)]"
    by (cases v) (auto simp: sanitizeExecutionResult_def)
  have "length (case json_text (nstr :: rat \<Rightarrow> string) (JObj () [(''kind'', JStr ''execution_result_unavailable''),
          (''preview'', JStr ''Execution result is unavailable for replay.''), (''truncated'', JBool False)] :: json)
          of Some t \<Rightarrow> t | None \<Rightarrow> []) \<le> 65536"
    by (simp add: json_quote_def json_escape_def)
  with s show ?thesis by (simp add: fixed_keys_not_sensitive)
next
  case True
  then obtain r fs where v: "v = JObj r fs" by blast
  obtain t where t: "json_text nstr (redact_walk v) = Some t" using v by auto
  show ?thesis
  proof (cases "length t \<le> 65536")
    case True
    then have "sanitizeExecutionResult nstr v = redact_walk v"
      using v t by (simp add: sanitizeExecutionResult_def redactSensitiveExecutionFields_def
          max_result_bytes_def Let_def)
    with True t show ?thesis by (simp add: redact_walk_no_leak)
  next
    case False
    then have s: "sanitizeExecutionResult nstr v =
       JObj () [(''kind'', JStr ''execution_result_truncated''), (''preview'', JStr (take 280 t)),
         (''truncated'', JBool True), (''originalSizeBytes'', JNum (Fin (of_nat (length t))))]"
      using v t by (simp add: sanitizeExecutionResult_def redactSensitiveExecutionFields_def
          max_result_bytes_def max_preview_chars_def Let_def)
    have "no_leak (sanitizeExecutionResult nstr v)"
      unfolding s by (simp add: fixed_keys_not_sensitive)
    moreover have "\<exists>u. json_text nstr (sanitizeExecutionResult nstr v) = Some u"
      unfolding s by (rule json_text_obj)
    moreover have "length (take 280 t) \<le> 280" by simp
    ultimately show ?thesis using s by blast
  qed
qed

text \<open>
  The arguments shown for approval stay shallow. However deep the arguments of a call nest,
  the redacted copy shown to the user keeps every key of the top level and nests at most three
  levels of objects and arrays.
\<close>

theorem redacted_args_shallow:
  "map fst (redactArgs fun_text args) = map fst args \<and> nesting (JObj () (redactArgs fun_text args)) \<le> 3"
proof -
  have "fold max (map (\<lambda>(_, v). nesting v) (redactArgs fun_text args)) 0 \<le> 2"
    using nesting_redact[of fun_text 0] by (intro fold_max_le) (auto simp: redactArgs_def)
  then show ?thesis by (auto simp: redactArgs_def)
qed

end
