(* ===== verification/Approval_Queue.thy ===== *)
theory Approval_Queue
  imports Approval_Hash
begin

text \<open>
  The durable approval queue: the table of approval requests with the queries of
  \<open>src/repositories/ApprovalRepository.ts\<close>, the service \<open>src/mcp/services/ApprovalService.ts\<close>
  that uses them, and the admin handlers of \<open>src/controllers/handlers/ApprovalHandler.ts\<close>.
  Every write is one conditional SQL statement; the step relation has one step per statement, so
  its runs cover every interleaving of concurrent requests. The main results: at most one active
  request per hash, a request runs at most once and only after an approval, finished requests
  never change, and the creation loop always ends with a request.
\<close>

section \<open>The table\<close>

datatype approval_status = Pending | Approved | Rejected | Expired | Executing | Executed | Failed

record approval_request =
  ar_id :: string
  ar_userId :: string
  ar_serverId :: "string option"
  ar_toolName :: string
  ar_canonicalArgs :: json
  ar_redactedArgs :: json
  ar_policyVersion :: int
  ar_requestHash :: string
  ar_status :: approval_status
  ar_expiresAt :: int
  ar_decidedAt :: "int option"
  ar_decisionReason :: "string option"
  ar_decidedByUserId :: "string option"
  ar_decidedByRole :: "nat option"
  ar_decisionChannel :: "string option"
  ar_executedAt :: "int option"
  ar_executionError :: "string option"
  ar_executionResult :: "json option"
  ar_uniformRequestId :: "string option"
  ar_createdAt :: int
  ar_updatedAt :: int

type_synonym approval_table = "approval_request list"

record decision_actor =
  actorUserId :: "string option"
  actorRole :: "nat option"
  channel :: string

record create_params =
  cp_userId :: string
  cp_serverId :: "string option"
  cp_toolName :: string
  cp_canonicalArgs :: json
  cp_redactedArgs :: json
  cp_policyVersion :: int
  cp_requestHash :: string
  cp_expiresAt :: int
  cp_uniformRequestId :: "string option"

definition active_status :: "approval_status \<Rightarrow> bool" where
  "active_status s \<longleftrightarrow> s = Pending \<or> s = Approved \<or> s = Executing"

definition open_status :: "approval_status \<Rightarrow> bool" where
  "open_status s \<longleftrightarrow> s = Pending \<or> s = Approved"

text \<open>The first row an \<open>UPDATE ... RETURNING *\<close> gives back, or null.\<close>

definition update_one ::
    "(approval_request \<Rightarrow> bool) \<Rightarrow> (approval_request \<Rightarrow> approval_request) \<Rightarrow> approval_table \<Rightarrow>
     approval_request option \<times> approval_table" where
  "update_one P f t =
     (case sql_returning P f t of [] \<Rightarrow> None | r # _ \<Rightarrow> Some r, sql_update P f t)"

section \<open>Queries\<close>

definition new_request :: "string \<Rightarrow> int \<Rightarrow> create_params \<Rightarrow> approval_request" where
  "new_request i now p =
     \<lparr>ar_id = i, ar_userId = cp_userId p, ar_serverId = cp_serverId p, ar_toolName = cp_toolName p,
      ar_canonicalArgs = cp_canonicalArgs p, ar_redactedArgs = cp_redactedArgs p,
      ar_policyVersion = cp_policyVersion p, ar_requestHash = cp_requestHash p,
      ar_status = Pending, ar_expiresAt = cp_expiresAt p, ar_decidedAt = None,
      ar_decisionReason = None, ar_decidedByUserId = None, ar_decidedByRole = None,
      ar_decisionChannel = None, ar_executedAt = None, ar_executionError = None,
      ar_executionResult = None, ar_uniformRequestId = cp_uniformRequestId p,
      ar_createdAt = now, ar_updatedAt = now\<rparr>"

text \<open>
  \<open>INSERT ... ON CONFLICT (request_hash) WHERE status IN (...) DO NOTHING RETURNING *\<close>.
  The identifier is a fresh UUID.
\<close>

definition insert_pending ::
    "string \<Rightarrow> int \<Rightarrow> create_params \<Rightarrow> approval_table \<Rightarrow> approval_request option \<times> approval_table" where
  "insert_pending i now p t =
     (if list_ex (\<lambda>r. ar_requestHash r = cp_requestHash p \<and> active_status (ar_status r)) t
      then (None, t)
      else (Some (new_request i now p), t @ [new_request i now p]))"

definition live_request :: "string \<Rightarrow> int \<Rightarrow> approval_request \<Rightarrow> bool" where
  "live_request h now r \<longleftrightarrow> ar_requestHash r = h \<and>
     (open_status (ar_status r) \<and> now < ar_expiresAt r \<or> ar_status r = Executing)"

definition findActiveByRequestHash :: "string \<Rightarrow> int \<Rightarrow> approval_table \<Rightarrow> approval_request option" where
  "findActiveByRequestHash h now t = find_first_desc ar_createdAt (live_request h now) t"

definition expire_guard :: "int \<Rightarrow> approval_request \<Rightarrow> bool" where
  "expire_guard dbnow r \<longleftrightarrow> open_status (ar_status r) \<and> ar_expiresAt r \<le> dbnow"

definition expire_set :: "int \<Rightarrow> approval_request \<Rightarrow> approval_request" where
  "expire_set dbnow r = r\<lparr>ar_status := Expired, ar_updatedAt := dbnow\<rparr>"

definition expire_hash :: "string \<Rightarrow> int \<Rightarrow> approval_table \<Rightarrow> approval_table" where
  "expire_hash h dbnow t =
     sql_update (\<lambda>r. ar_requestHash r = h \<and> expire_guard dbnow r) (expire_set dbnow) t"

datatype approval_error = CreateRetriesExhausted | ApprovalRateLimit string | AdminInvalid string

text \<open>
  \<open>createOrGetPending\<close>: insert; on conflict look for a live request; if there is none, expire
  the stale one and try again, three times at most. \<open>clock n\<close> and \<open>dbclock n\<close> are the process
  and database clocks of attempt \<open>n\<close>, \<open>uuid n\<close> its identifier, and \<open>env\<close> the writes of
  other clients after each of its queries.
\<close>

function createOrGetPending ::
    "(nat \<Rightarrow> approval_table \<Rightarrow> approval_table) \<Rightarrow> (nat \<Rightarrow> string) \<Rightarrow> (nat \<Rightarrow> int) \<Rightarrow> (nat \<Rightarrow> int) \<Rightarrow>
     create_params \<Rightarrow> nat \<Rightarrow> approval_table \<Rightarrow>
     (approval_error + bool \<times> approval_request) \<times> approval_table" where
  "createOrGetPending env uuid clock dbclock p retryCount t =
     (case insert_pending (uuid retryCount) (clock retryCount) p t of
        (Some request, t1) \<Rightarrow> (Inr (True, request), t1)
      | (None, t1) \<Rightarrow>
          (let t2 = env (3 * retryCount) t1 in
           case find_first_desc ar_createdAt (live_request (cp_requestHash p) (clock retryCount)) t2 of
             Some existing \<Rightarrow> (Inr (False, existing), t2)
           | None \<Rightarrow>
               if retryCount \<ge> 3 then (Inl CreateRetriesExhausted, t2)
               else (let t3 = env (3 * retryCount + 1) t2;
                         t4 = expire_hash (cp_requestHash p) (dbclock retryCount) t3;
                         t5 = env (3 * retryCount + 2) t4
                     in createOrGetPending env uuid clock dbclock p (retryCount + 1) t5)))"
  by pat_completeness auto
termination
  by (relation "measure (\<lambda>(env, uuid, clock, dbclock, p, retryCount, t). 4 - retryCount)") auto

declare createOrGetPending.simps [simp del]

definition decide_guard :: "string \<Rightarrow> int \<Rightarrow> approval_request \<Rightarrow> bool" where
  "decide_guard i now r \<longleftrightarrow> ar_id r = i \<and> ar_status r = Pending \<and> now < ar_expiresAt r"

definition decide_set ::
    "bool \<Rightarrow> decision_actor \<Rightarrow> string option \<Rightarrow> int \<Rightarrow> approval_request \<Rightarrow> approval_request" where
  "decide_set approve actor reason now r =
     r\<lparr>ar_status := (if approve then Approved else Rejected), ar_decidedAt := Some now,
       ar_decisionReason := reason, ar_decidedByUserId := actorUserId actor,
       ar_decidedByRole := actorRole actor, ar_decisionChannel := Some (channel actor),
       ar_updatedAt := now\<rparr>"

definition repo_decide ::
    "string \<Rightarrow> bool \<Rightarrow> decision_actor \<Rightarrow> string option \<Rightarrow> int \<Rightarrow> approval_table \<Rightarrow>
     approval_request option \<times> approval_table" where
  "repo_decide i approve actor reason now t =
     update_one (decide_guard i now) (decide_set approve actor reason now) t"

definition claim_set :: "int \<Rightarrow> approval_request \<Rightarrow> approval_request" where
  "claim_set dbnow r = r\<lparr>ar_status := Executing, ar_updatedAt := dbnow\<rparr>"

definition claim_guard :: "string \<Rightarrow> int \<Rightarrow> approval_request \<Rightarrow> bool" where
  "claim_guard h dbnow r \<longleftrightarrow> ar_requestHash r = h \<and> ar_status r = Approved \<and> dbnow < ar_expiresAt r"

definition claim_id_guard :: "string \<Rightarrow> int \<Rightarrow> approval_request \<Rightarrow> bool" where
  "claim_id_guard i dbnow r \<longleftrightarrow> ar_id r = i \<and> ar_status r = Approved \<and> dbnow < ar_expiresAt r"

definition claimApprovedForExecution ::
    "string \<Rightarrow> int \<Rightarrow> approval_table \<Rightarrow> approval_request option \<times> approval_table" where
  "claimApprovedForExecution h dbnow t = update_one (claim_guard h dbnow) (claim_set dbnow) t"

definition claimApprovedForExecutionById ::
    "string \<Rightarrow> int \<Rightarrow> approval_table \<Rightarrow> approval_request option \<times> approval_table" where
  "claimApprovedForExecutionById i dbnow t = update_one (claim_id_guard i dbnow) (claim_set dbnow) t"

definition executing_guard :: "string \<Rightarrow> approval_request \<Rightarrow> bool" where
  "executing_guard i r \<longleftrightarrow> ar_id r = i \<and> ar_status r = Executing"

definition executed_set :: "json \<Rightarrow> int \<Rightarrow> approval_request \<Rightarrow> approval_request" where
  "executed_set result now r =
     r\<lparr>ar_status := Executed, ar_executedAt := Some now, ar_executionResult := Some result,
       ar_updatedAt := now\<rparr>"

definition failed_set :: "string \<Rightarrow> int \<Rightarrow> approval_request \<Rightarrow> approval_request" where
  "failed_set err now r = r\<lparr>ar_status := Failed, ar_executionError := Some err, ar_updatedAt := now\<rparr>"

definition touch_set :: "int \<Rightarrow> approval_request \<Rightarrow> approval_request" where
  "touch_set dbnow r = r\<lparr>ar_updatedAt := dbnow\<rparr>"

definition repo_markExecuted ::
    "string \<Rightarrow> json \<Rightarrow> int \<Rightarrow> approval_table \<Rightarrow> approval_request option \<times> approval_table" where
  "repo_markExecuted i result now t = update_one (executing_guard i) (executed_set result now) t"

definition repo_markFailed ::
    "string \<Rightarrow> string \<Rightarrow> int \<Rightarrow> approval_table \<Rightarrow> approval_request option \<times> approval_table" where
  "repo_markFailed i err now t = update_one (executing_guard i) (failed_set err now) t"

definition repo_touchExecuting ::
    "string \<Rightarrow> int \<Rightarrow> approval_table \<Rightarrow> approval_request option \<times> approval_table" where
  "repo_touchExecuting i dbnow t = update_one (executing_guard i) (touch_set dbnow) t"

definition repo_expireStale :: "int \<Rightarrow> approval_table \<Rightarrow> approval_request list \<times> approval_table" where
  "repo_expireStale dbnow t =
     (sql_returning (expire_guard dbnow) (expire_set dbnow) t,
      sql_update (expire_guard dbnow) (expire_set dbnow) t)"

definition stale_guard :: "int \<Rightarrow> approval_request \<Rightarrow> bool" where
  "stale_guard staleBefore r \<longleftrightarrow> ar_status r = Executing \<and> ar_updatedAt r \<le> staleBefore"

definition stale_error :: string where
  "stale_error = ''Stale EXECUTING approval recovered by sweeper timeout''"

definition repo_recoverStaleExecuting ::
    "int \<Rightarrow> int \<Rightarrow> approval_table \<Rightarrow> approval_request list \<times> approval_table" where
  "repo_recoverStaleExecuting staleBefore dbnow t =
     (sql_returning (stale_guard staleBefore) (failed_set stale_error dbnow) t,
      sql_update (stale_guard staleBefore) (failed_set stale_error dbnow) t)"

definition force_guard :: "string \<Rightarrow> approval_request \<Rightarrow> bool" where
  "force_guard i r \<longleftrightarrow> ar_id r = i \<and> active_status (ar_status r)"

definition forceExpire :: "string \<Rightarrow> int \<Rightarrow> approval_table \<Rightarrow> approval_table" where
  "forceExpire i dbnow t = sql_update (force_guard i) (expire_set dbnow) t"

definition approval_findById :: "string \<Rightarrow> approval_table \<Rightarrow> approval_request option" where
  "approval_findById i t = find (\<lambda>r. ar_id r = i) t"

definition findByRequestHash :: "string \<Rightarrow> approval_table \<Rightarrow> approval_request option" where
  "findByRequestHash h t = find_first_desc ar_createdAt (\<lambda>r. ar_requestHash r = h) t"

definition countRecentCreationsByTool ::
    "string \<Rightarrow> string option \<Rightarrow> string \<Rightarrow> int \<Rightarrow> approval_table \<Rightarrow> nat" where
  "countRecentCreationsByTool userId serverId toolName since t =
     length (filter (\<lambda>r. ar_userId r = userId \<and> ar_toolName r = toolName \<and>
       (case serverId of
          None \<Rightarrow> ar_serverId r = None
        | Some s \<Rightarrow> ar_serverId r = Some s) \<and>
       since \<le> ar_createdAt r) t)"

definition countRecentCreationsByRequestHash ::
    "string \<Rightarrow> string \<Rightarrow> int \<Rightarrow> approval_table \<Rightarrow> nat" where
  "countRecentCreationsByRequestHash userId h since t =
     length (filter (\<lambda>r. ar_userId r = userId \<and> ar_requestHash r = h \<and> since \<le> ar_createdAt r) t)"

record list_params =
  lp_userId :: "string option"
  lp_status :: "approval_status option"
  lp_page :: int
  lp_pageSize :: int
  lp_serverId :: "string option"
  lp_toolName :: "string option"

record list_result =
  lr_requests :: "approval_request list"
  lr_page :: int
  lr_pageSize :: int
  lr_hasMore :: bool

text \<open>The optional filters; an empty string is falsy and filters nothing.\<close>

definition given :: "string option \<Rightarrow> string option" where
  "given x = (case x of Some s \<Rightarrow> if s = [] then None else Some s | None \<Rightarrow> None)"

definition list_where :: "list_params \<Rightarrow> int \<Rightarrow> approval_request \<Rightarrow> bool" where
  "list_where p now r \<longleftrightarrow>
     (case given (lp_userId p) of Some u \<Rightarrow> ar_userId r = u | None \<Rightarrow> True) \<and>
     (case lp_status p of
        Some s \<Rightarrow> ar_status r = s \<and> (s = Pending \<longrightarrow> now < ar_expiresAt r)
      | None \<Rightarrow> True) \<and>
     (case given (lp_serverId p) of Some s \<Rightarrow> ar_serverId r = Some s | None \<Rightarrow> True) \<and>
     (case given (lp_toolName p) of Some s \<Rightarrow> ar_toolName r = s | None \<Rightarrow> True)"

definition repo_list :: "list_params \<Rightarrow> int \<Rightarrow> approval_table \<Rightarrow> list_result" where
  "repo_list p now t =
     (let safePage = max 1 (lp_page p);
          safePageSize = max 1 (lp_pageSize p);
          requests = take (nat safePageSize + 1) (drop (nat ((safePage - 1) * safePageSize))
            (order_desc ar_createdAt (filter (list_where p now) t)))
      in \<lparr>lr_requests = take (nat safePageSize) requests, lr_page = safePage,
          lr_pageSize = safePageSize, lr_hasMore = nat safePageSize < length requests\<rparr>)"

definition repo_countPending :: "string option \<Rightarrow> int \<Rightarrow> approval_table \<Rightarrow> nat" where
  "repo_countPending userId now t =
     length (filter (\<lambda>r. ar_status r = Pending \<and> now < ar_expiresAt r \<and>
       (case given userId of Some u \<Rightarrow> ar_userId r = u | None \<Rightarrow> True)) t)"

section \<open>The service\<close>

definition default_expiry_ms :: int where "default_expiry_ms = 10 * 60 * 1000"
definition create_limit_count :: nat where "create_limit_count = 10"
definition create_limit_window_ms :: int where "create_limit_window_ms = 60 * 1000"
definition create_limit_per_hash :: nat where "create_limit_per_hash = 3"
definition executing_stale_timeout_ms :: int where "executing_stale_timeout_ms = 10 * 60 * 1000"

record approval_input =
  ai_userId :: string
  ai_serverId :: "string option"
  ai_toolName :: string
  ai_args :: "(string \<times> json) list"
  ai_policyVersion :: int
  ai_uniformRequestId :: "string option"
  ai_expiresInMs :: "int option"

record approval_check =
  needsApproval :: bool
  check_created :: bool
  check_request :: approval_request
  check_hash :: string

text \<open>The environment of a service call: the digest, number printing, function printing.\<close>

record approval_env =
  env_sha256 :: "string \<Rightarrow> string"
  env_nstr :: "rat \<Rightarrow> string"
  env_fun_text :: string

definition input_hash :: "approval_env \<Rightarrow> approval_input \<Rightarrow> string" where
  "input_hash e inp = computeHash (env_sha256 e) (env_nstr e) (ai_userId inp) (ai_serverId inp)
     (ai_toolName inp) (ai_args inp) (ai_policyVersion inp)"

definition input_params :: "approval_env \<Rightarrow> approval_input \<Rightarrow> int \<Rightarrow> create_params" where
  "input_params e inp now =
     \<lparr>cp_userId = ai_userId inp, cp_serverId = ai_serverId inp, cp_toolName = ai_toolName inp,
      cp_canonicalArgs = json_reparse (sortKeys (JObj () (ai_args inp))),
      cp_redactedArgs = JObj () (redactArgs (env_fun_text e) (ai_args inp)),
      cp_policyVersion = ai_policyVersion inp, cp_requestHash = input_hash e inp,
      cp_expiresAt = now + (case ai_expiresInMs inp of Some ms \<Rightarrow> ms | None \<Rightarrow> default_expiry_ms),
      cp_uniformRequestId = ai_uniformRequestId inp\<rparr>"

definition checkOrCreateApproval ::
    "approval_env \<Rightarrow> (nat \<Rightarrow> approval_table \<Rightarrow> approval_table) \<Rightarrow> (nat \<Rightarrow> string) \<Rightarrow>
     (nat \<Rightarrow> int) \<Rightarrow> (nat \<Rightarrow> int) \<Rightarrow> int \<Rightarrow> approval_input \<Rightarrow> approval_table \<Rightarrow>
     (approval_error + approval_check) \<times> approval_table" where
  "checkOrCreateApproval e env uuid clock dbclock now inp t =
     (let h = input_hash e inp in
      case findActiveByRequestHash h now t of
        Some existing \<Rightarrow>
          (Inr \<lparr>needsApproval = (ar_status existing \<noteq> Approved), check_created = False,
                check_request = existing, check_hash = h\<rparr>, t)
      | None \<Rightarrow>
          (let windowStart = now - create_limit_window_ms in
           if countRecentCreationsByRequestHash (ai_userId inp) h windowStart t \<ge> create_limit_per_hash
           then (Inl (ApprovalRateLimit
             ''Too many retries for this exact approval request. Please retry after 60 seconds.''), t)
           else if countRecentCreationsByTool (ai_userId inp) (ai_serverId inp) (ai_toolName inp)
                     windowStart t \<ge> create_limit_count
           then (Inl (ApprovalRateLimit
             (''Too many approval requests for '' @ ai_toolName inp @ ''. Please retry after 60 seconds.'')), t)
           else case createOrGetPending env uuid clock dbclock (input_params e inp now) 0 t of
                  (Inl err, t') \<Rightarrow> (Inl err, t')
                | (Inr (created, request), t') \<Rightarrow>
                    if \<not> created \<and> ar_status request = Approved
                    then (Inr \<lparr>needsApproval = False, check_created = False,
                               check_request = request, check_hash = h\<rparr>, t')
                    else (Inr \<lparr>needsApproval = True, check_created = created,
                               check_request = request, check_hash = h\<rparr>, t')))"

definition claimForExecution ::
    "string \<Rightarrow> int \<Rightarrow> approval_table \<Rightarrow> (bool \<times> approval_request option) \<times> approval_table" where
  "claimForExecution h dbnow t =
     (case claimApprovedForExecution h dbnow t of
        (None, t') \<Rightarrow> ((False, None), t')
      | (Some r, t') \<Rightarrow> ((True, Some r), t'))"

definition claimForExecutionById ::
    "string \<Rightarrow> int \<Rightarrow> approval_table \<Rightarrow> (bool \<times> approval_request option) \<times> approval_table" where
  "claimForExecutionById i dbnow t =
     (case claimApprovedForExecutionById i dbnow t of
        (None, t') \<Rightarrow> ((False, None), t')
      | (Some r, t') \<Rightarrow> ((True, Some r), t'))"

definition service_decide ::
    "string \<Rightarrow> bool \<Rightarrow> decision_actor \<Rightarrow> string option \<Rightarrow> int \<Rightarrow> approval_table \<Rightarrow>
     approval_request option \<times> approval_table" where
  "service_decide i approve actor reason now t = repo_decide i approve actor reason now t"

definition markExecuted ::
    "approval_env \<Rightarrow> string \<Rightarrow> json \<Rightarrow> int \<Rightarrow> approval_table \<Rightarrow>
     approval_request option \<times> approval_table" where
  "markExecuted e i result now t =
     repo_markExecuted i (sanitizeExecutionResult (env_nstr e) result) now t"

definition getResultById :: "string \<Rightarrow> approval_table \<Rightarrow> approval_request option" where
  "getResultById i t =
     (case approval_findById i t of
        None \<Rightarrow> None
      | Some r \<Rightarrow> if ar_status r \<noteq> Executed \<and> ar_status r \<noteq> Failed then None else Some r)"

definition listApprovals ::
    "list_params \<Rightarrow> int option \<Rightarrow> int option \<Rightarrow> int \<Rightarrow> approval_table \<Rightarrow> list_result" where
  "listApprovals p page pageSize now t =
     repo_list (p\<lparr>lp_page := max (case page of Some n \<Rightarrow> n | None \<Rightarrow> 1) 1,
        lp_pageSize := min (max (case pageSize of Some n \<Rightarrow> n | None \<Rightarrow> 20) 1) 100\<rparr>) now t"

definition recoverStaleExecuting ::
    "int \<Rightarrow> int \<Rightarrow> approval_table \<Rightarrow> approval_request list \<times> approval_table" where
  "recoverStaleExecuting now dbnow t =
     repo_recoverStaleExecuting (now - executing_stale_timeout_ms) dbnow t"

text \<open>One tick of the expiry sweeper: what it notifies, and the table after it.\<close>

datatype notice = NotifyExpired string string string | NotifyFailed string string string string
  | NotifyDecided string string string approval_status "string option"

definition sweeper_tick :: "bool \<Rightarrow> int \<Rightarrow> int \<Rightarrow> approval_table \<Rightarrow> notice list \<times> approval_table" where
  "sweeper_tick hasNotifyFailed now dbnow t =
     (let (expired, t1) = repo_expireStale dbnow t;
          (recovered, t2) = recoverStaleExecuting now dbnow t1
      in (map (\<lambda>r. NotifyExpired (ar_userId r) (ar_id r) (ar_toolName r)) expired @
          map (\<lambda>r. if hasNotifyFailed
             then NotifyFailed (ar_userId r) (ar_id r) (ar_toolName r)
               (case ar_executionError r of Some e \<Rightarrow> e | None \<Rightarrow> ''Stale executing request recovered'')
             else NotifyExpired (ar_userId r) (ar_id r) (ar_toolName r)) recovered, t2))"

section \<open>The admin handlers\<close>

definition serializeApprovalRequest :: "approval_request \<Rightarrow> string \<times> bool" where
  "serializeApprovalRequest r =
     (ar_id r, case ar_executionResult r of None \<Rightarrow> False | Some v \<Rightarrow> v \<noteq> JNull \<and> v \<noteq> JUndef)"

text \<open>The names of the enumeration \<open>ApprovalStatus\<close>.\<close>

definition parse_status :: "string \<Rightarrow> approval_status option" where
  "parse_status s = map_of [(''PENDING'', Pending), (''APPROVED'', Approved), (''REJECTED'', Rejected),
     (''EXPIRED'', Expired), (''EXECUTING'', Executing), (''EXECUTED'', Executed), (''FAILED'', Failed)] s"

record list_request =
  req_userId :: "string option"
  req_serverId :: "string option"
  req_toolName :: "string option"
  req_status :: "string option"
  req_page :: "int option"
  req_pageSize :: "int option"

definition list_filter :: "list_request \<Rightarrow> approval_status option \<Rightarrow> list_params" where
  "list_filter q st = \<lparr>lp_userId = given (req_userId q), lp_status = st, lp_page = 1, lp_pageSize = 20,
     lp_serverId = req_serverId q, lp_toolName = req_toolName q\<rparr>"

definition list_response ::
    "list_result \<Rightarrow> (approval_request \<times> string \<times> bool) list \<times> int \<times> int \<times> bool" where
  "list_response res = (map (\<lambda>r. (r, serializeApprovalRequest r)) (lr_requests res),
     lr_page res, lr_pageSize res, lr_hasMore res)"

definition handleListApprovalRequests ::
    "list_request \<Rightarrow> int \<Rightarrow> approval_table \<Rightarrow>
     approval_error + ((approval_request \<times> string \<times> bool) list \<times> int \<times> int \<times> bool)" where
  "handleListApprovalRequests q now t =
     (case given (req_status q) of
        Some s \<Rightarrow> (if parse_status s = None then Inl (AdminInvalid (''Invalid status filter: '' @ s))
          else Inr (list_response (listApprovals (list_filter q (parse_status s)) (req_page q) (req_pageSize q) now t)))
      | None \<Rightarrow> Inr (list_response (listApprovals (list_filter q None) (req_page q) (req_pageSize q) now t)))"

definition handleGetApprovalRequest ::
    "string \<Rightarrow> approval_table \<Rightarrow> approval_error + (approval_request \<times> string \<times> bool)" where
  "handleGetApprovalRequest i t =
     (if i = [] then Inl (AdminInvalid ''Missing required field: id'')
      else case approval_findById i t of
          None \<Rightarrow> Inl (AdminInvalid (''Approval request not found: '' @ i))
        | Some r \<Rightarrow> Inr (r, serializeApprovalRequest r))"

definition handleDecideApprovalRequest ::
    "string \<Rightarrow> string \<Rightarrow> string option \<Rightarrow> string option \<Rightarrow> nat option \<Rightarrow> int \<Rightarrow> approval_table \<Rightarrow>
     (approval_error + approval_request \<times> string \<times> bool) \<times> notice list \<times> approval_table" where
  "handleDecideApprovalRequest i decision reason userId role now t =
     (if i = [] then (Inl (AdminInvalid ''Missing required field: id''), [], t)
      else if decision \<noteq> ''APPROVED'' \<and> decision \<noteq> ''REJECTED''
      then (Inl (AdminInvalid ''Invalid decision: must be APPROVED or REJECTED''), [], t)
      else case service_decide i (decision = ''APPROVED'')
                  \<lparr>actorUserId = userId, actorRole = role, channel = ''admin_api''\<rparr> reason now t of
          (None, t') \<Rightarrow>
            (Inl (AdminInvalid ''Decision failed: request not found, not PENDING, or expired''), [], t')
        | (Some r, t') \<Rightarrow>
            (Inr (r, serializeApprovalRequest r),
             [NotifyDecided (ar_userId r) (ar_id r) (ar_toolName r) (ar_status r)
                (ar_decisionReason r)], t'))"

definition handleGetPendingApprovalsCount :: "string option \<Rightarrow> int \<Rightarrow> approval_table \<Rightarrow> nat" where
  "handleGetPendingApprovalsCount userId now t =
     repo_countPending (case userId of
        Some u \<Rightarrow> if js_trim u = [] then None else Some (js_trim u) | None \<Rightarrow> None) now t"

section \<open>Transitions\<close>

definition status_step :: "approval_status \<Rightarrow> approval_status \<Rightarrow> bool" where
  "status_step a b \<longleftrightarrow>
     (case a of
        Pending \<Rightarrow> b \<in> {Approved, Rejected, Expired}
      | Approved \<Rightarrow> b \<in> {Executing, Expired}
      | Executing \<Rightarrow> b \<in> {Executing, Executed, Failed, Expired}
      | _ \<Rightarrow> False)"

definition terminal_status :: "approval_status \<Rightarrow> bool" where
  "terminal_status s \<longleftrightarrow> \<not> active_status s"

text \<open>
  What a row records: a request that was decided carries the time of the decision, made before
  it expired; an executed one its result, a failed one its error.
\<close>

definition request_ok :: "approval_request \<Rightarrow> bool" where
  "request_ok r \<longleftrightarrow>
     (ar_status r \<in> {Approved, Rejected, Executing, Executed, Failed} \<longrightarrow>
        (\<exists>d. ar_decidedAt r = Some d \<and> d < ar_expiresAt r)) \<and>
     (ar_status r = Pending \<longrightarrow> ar_decidedAt r = None) \<and>
     (ar_status r = Executed \<longrightarrow> ar_executedAt r \<noteq> None \<and> ar_executionResult r \<noteq> None) \<and>
     (ar_status r = Failed \<longrightarrow> ar_executionError r \<noteq> None)"

definition approvals_ok :: "approval_table \<Rightarrow> bool" where
  "approvals_ok t \<longleftrightarrow> distinct (map ar_id t) \<and>
     distinct (map ar_requestHash (filter (\<lambda>r. active_status (ar_status r)) t)) \<and>
     (\<forall>r\<in>set t. request_ok r)"

named_theorems approval_defs \<open>guards and assignments of the conditional updates\<close>

lemmas [approval_defs] = decide_guard_def decide_set_def claim_guard_def claim_id_guard_def
  claim_set_def executing_guard_def executed_set_def failed_set_def touch_set_def expire_guard_def
  expire_set_def stale_guard_def force_guard_def

lemmas status_defs = status_step_def active_status_def open_status_def terminal_status_def

text \<open>The contract every conditional update of the table keeps.\<close>

locale approval_transition =
  fixes guard :: "approval_request \<Rightarrow> bool"
    and change :: "approval_request \<Rightarrow> approval_request"
  assumes keeps_id: "ar_id (change r) = ar_id r"
    and keeps_hash: "ar_requestHash (change r) = ar_requestHash r"
    and keeps_origin: "ar_userId (change r) = ar_userId r \<and> ar_createdAt (change r) = ar_createdAt r \<and>
      ar_serverId (change r) = ar_serverId r \<and> ar_toolName (change r) = ar_toolName r"
    and steps: "guard r \<Longrightarrow> status_step (ar_status r) (ar_status (change r))"
    and records: "guard r \<Longrightarrow> request_ok r \<Longrightarrow> request_ok (change r)"
begin

lemma update_ids: "map ar_id (sql_update guard change t) = map ar_id t"
  by (rule map_sql_update) (rule keeps_id)

lemma active_before: "active_status (ar_status (if guard r then change r else r)) \<Longrightarrow> active_status (ar_status r)"
  using steps[of r] by (auto simp: status_defs split: if_splits approval_status.splits)

lemma update_active_hashes:
  assumes "distinct (map ar_requestHash (filter (\<lambda>r. active_status (ar_status r)) t))"
  shows "distinct (map ar_requestHash
     (filter (\<lambda>r. active_status (ar_status r)) (sql_update guard change t)))"
proof -
  let ?u = "\<lambda>r. if guard r then change r else r" and ?a = "\<lambda>r. active_status (ar_status r)"
  have f: "filter (\<lambda>r. ?a (?u r)) t = filter (\<lambda>r. ?a (?u r)) (filter ?a t)"
    unfolding filter_filter by (rule filter_cong[OF refl]) (use active_before in blast)
  have h: "ar_requestHash (?u r) = ar_requestHash r" for r by (simp add: keeps_hash)
  have "map ar_requestHash (filter ?a (sql_update guard change t)) =
      map ar_requestHash (filter (\<lambda>r. ?a (?u r)) t)"
    unfolding sql_update_def filter_map map_map o_def h ..
  then show ?thesis unfolding f by (simp only: distinct_map_filter[OF assms])
qed

lemma update_ok: "approvals_ok t \<Longrightarrow> approvals_ok (sql_update guard change t)"
  using update_active_hashes records
  by (auto simp: approvals_ok_def update_ids set_sql_update)

lemma update_keeps_terminal:
  "r \<in> set t \<Longrightarrow> terminal_status (ar_status r) \<Longrightarrow> r \<in> set (sql_update guard change t)"
  using steps[of r] by (force simp: set_sql_update status_defs split: approval_status.splits)

lemma update_count:
  assumes "\<And>r. P (change r) = P r"
  shows "length (filter P (sql_update guard change t)) = length (filter P t)"
  using assms by (induction t) (auto simp: sql_update_def)

end

text \<open>A transition that leaves the open statuses: after it a row is neither pending nor approved.\<close>

locale closing_transition = approval_transition +
  assumes closes: "guard r \<Longrightarrow> \<not> open_status (ar_status (change r))"

interpretation decide_tr: approval_transition "decide_guard i now" "decide_set approve actor reason now"
  for i now approve actor reason
  by unfold_locales (auto simp: approval_defs status_defs request_ok_def)

interpretation claim_tr: closing_transition "claim_guard h now" "claim_set now" for h now
  by unfold_locales (auto simp: approval_defs status_defs request_ok_def)

interpretation claim_id_tr: closing_transition "claim_id_guard i now" "claim_set now" for i now
  by unfold_locales (auto simp: approval_defs status_defs request_ok_def)

interpretation executed_tr: closing_transition "executing_guard i" "executed_set result now" for i result now
  by unfold_locales (auto simp: approval_defs status_defs request_ok_def)

interpretation failed_tr: closing_transition "executing_guard i" "failed_set err now" for i err now
  by unfold_locales (auto simp: approval_defs status_defs request_ok_def)

interpretation touch_tr: closing_transition "executing_guard i" "touch_set now" for i now
  by unfold_locales (auto simp: approval_defs status_defs request_ok_def)

interpretation expire_tr: closing_transition "expire_guard now" "expire_set now" for now
  by unfold_locales (auto simp: approval_defs status_defs request_ok_def)

interpretation expire_hash_tr: closing_transition
    "\<lambda>r. ar_requestHash r = h \<and> expire_guard now r" "expire_set now" for h now
  by unfold_locales (auto simp: approval_defs status_defs request_ok_def)

interpretation stale_tr: closing_transition "stale_guard before" "failed_set stale_error now" for before now
  by unfold_locales (auto simp: approval_defs status_defs request_ok_def)

interpretation force_tr: closing_transition "force_guard i" "expire_set now" for i now
  by unfold_locales (auto simp: approval_defs status_defs request_ok_def split: approval_status.splits)

lemma insert_pending_ok:
  assumes "approvals_ok t" "i \<notin> set (map ar_id t)"
  shows "approvals_ok (snd (insert_pending i now p t))"
  using assms
  by (auto simp: insert_pending_def approvals_ok_def new_request_def active_status_def request_ok_def
      list_ex_iff)

section \<open>Runs\<close>

text \<open>The queue with a ghost log of its decisions and claims, newest first.\<close>

datatype approval_event = EvDecided string bool | EvClaimed string

record approval_queue =
  q_table :: approval_table
  q_log :: "approval_event list"

inductive approval_step :: "approval_queue \<Rightarrow> approval_queue \<Rightarrow> bool" where
  as_insert: "i \<notin> set (map ar_id (q_table q)) \<Longrightarrow>
    approval_step q (q\<lparr>q_table := snd (insert_pending i now p (q_table q))\<rparr>)"
| as_expire_hash: "approval_step q (q\<lparr>q_table := expire_hash h dbnow (q_table q)\<rparr>)"
| as_decide: "approval_step q
    \<lparr>q_table = snd (repo_decide i approve actor reason now (q_table q)),
     q_log = map (\<lambda>r. EvDecided (ar_id r) approve) (filter (decide_guard i now) (q_table q)) @ q_log q\<rparr>"
| as_claim: "approval_step q
    \<lparr>q_table = snd (claimApprovedForExecution h dbnow (q_table q)),
     q_log = map (\<lambda>r. EvClaimed (ar_id r)) (filter (claim_guard h dbnow) (q_table q)) @ q_log q\<rparr>"
| as_claim_id: "approval_step q
    \<lparr>q_table = snd (claimApprovedForExecutionById i dbnow (q_table q)),
     q_log = map (\<lambda>r. EvClaimed (ar_id r)) (filter (claim_id_guard i dbnow) (q_table q)) @ q_log q\<rparr>"
| as_executed: "approval_step q (q\<lparr>q_table := snd (repo_markExecuted i result now (q_table q))\<rparr>)"
| as_failed: "approval_step q (q\<lparr>q_table := snd (repo_markFailed i err now (q_table q))\<rparr>)"
| as_touch: "approval_step q (q\<lparr>q_table := snd (repo_touchExecuting i dbnow (q_table q))\<rparr>)"
| as_expire: "approval_step q (q\<lparr>q_table := snd (repo_expireStale dbnow (q_table q))\<rparr>)"
| as_recover: "approval_step q
    (q\<lparr>q_table := snd (repo_recoverStaleExecuting before dbnow (q_table q))\<rparr>)"
| as_force: "approval_step q (q\<lparr>q_table := forceExpire i dbnow (q_table q)\<rparr>)"

inductive approval_reach :: "approval_queue \<Rightarrow> bool" where
  ar_start: "approval_reach \<lparr>q_table = [], q_log = []\<rparr>"
| ar_next: "approval_reach q \<Longrightarrow> approval_step q q' \<Longrightarrow> approval_reach q'"

lemmas repo_writes = repo_decide_def claimApprovedForExecution_def claimApprovedForExecutionById_def
  repo_markExecuted_def repo_markFailed_def repo_touchExecuting_def repo_expireStale_def
  repo_recoverStaleExecuting_def forceExpire_def expire_hash_def update_one_def

fun log_ok :: "approval_event list \<Rightarrow> bool" where
  "log_ok [] = True"
| "log_ok (e # es) =
     (log_ok es \<and>
      (case e of EvClaimed i \<Rightarrow> EvDecided i True \<in> set es \<and> EvClaimed i \<notin> set es | _ \<Rightarrow> True))"

definition queue_base :: "approval_queue \<Rightarrow> bool" where
  "queue_base q \<longleftrightarrow> approvals_ok (q_table q) \<and> log_ok (q_log q) \<and>
     (\<forall>r\<in>set (q_table q). open_status (ar_status r) \<longrightarrow> EvClaimed (ar_id r) \<notin> set (q_log q)) \<and>
     (\<forall>r\<in>set (q_table q). ar_status r = Approved \<longrightarrow> EvDecided (ar_id r) True \<in> set (q_log q)) \<and>
     (\<forall>i. EvClaimed i \<in> set (q_log q) \<longrightarrow> i \<in> ar_id ` set (q_table q))"

text \<open>Every request that is or was executed has its claim in the log.\<close>

definition ran_status :: "approval_status \<Rightarrow> bool" where
  "ran_status s \<longleftrightarrow> s = Executing \<or> s = Executed \<or> s = Failed"

definition ran_logged :: "approval_queue \<Rightarrow> bool" where
  "ran_logged q \<longleftrightarrow> (\<forall>r\<in>set (q_table q). ran_status (ar_status r) \<longrightarrow> EvClaimed (ar_id r) \<in> set (q_log q))"

definition queue_inv :: "approval_queue \<Rightarrow> bool" where
  "queue_inv q \<longleftrightarrow> queue_base q \<and> ran_logged q"

context closing_transition
begin

lemma keeps_queue:
  assumes "queue_base q"
  shows "queue_base (q\<lparr>q_table := sql_update guard change (q_table q)\<rparr>)"
proof -
  have "ar_id ` set (sql_update guard change (q_table q)) = ar_id ` set (q_table q)"
    using update_ids[of "q_table q"] by (metis set_map)
  then show ?thesis
    using assms update_ok[of "q_table q"] closes
    by (auto simp: queue_base_def set_sql_update keeps_id open_status_def)
qed

end

lemma log_ok_claims:
  assumes "log_ok es" "distinct (map ar_id rs)"
    and "\<forall>r\<in>set rs. EvDecided (ar_id r) True \<in> set es \<and> EvClaimed (ar_id r) \<notin> set es"
  shows "log_ok (map (\<lambda>r. EvClaimed (ar_id r)) rs @ es)"
  using assms by (induction rs) auto

lemma log_ok_decisions: "log_ok es \<Longrightarrow> log_ok (map (\<lambda>r. EvDecided (ar_id r) a) rs @ es)"
  by (induction rs) auto

lemma claim_queue:
  assumes tr: "closing_transition guard (claim_set now)"
    and g: "\<And>r. guard r \<Longrightarrow> ar_status r = Approved" and inv: "queue_base q"
  shows "queue_base \<lparr>q_table = sql_update guard (claim_set now) (q_table q),
     q_log = map (\<lambda>r. EvClaimed (ar_id r)) (filter guard (q_table q)) @ q_log q\<rparr>"
proof -
  let ?t = "sql_update guard (claim_set now) (q_table q)"
  have base: "queue_base (q\<lparr>q_table := ?t\<rparr>)" using closing_transition.keeps_queue[OF tr inv] .
  have ids: "distinct (map ar_id (q_table q))" using inv by (simp add: queue_base_def approvals_ok_def)
  have log: "log_ok (map (\<lambda>r. EvClaimed (ar_id r)) (filter guard (q_table q)) @ q_log q)"
    using inv g ids by (intro log_ok_claims distinct_map_filter) (auto simp: queue_base_def open_status_def)
  have "EvClaimed (ar_id r) \<notin> set (map (\<lambda>r. EvClaimed (ar_id r)) (filter guard (q_table q)))"
    if r: "r \<in> set ?t" "open_status (ar_status r)" for r
  proof -
    obtain s where s: "s \<in> set (q_table q)" "r = (if guard s then claim_set now s else s)"
      using r(1) unfolding set_sql_update by blast
    with r(2) have "\<not> guard s" "r = s" by (auto simp: claim_set_def open_status_def split: if_splits)
    with s ids show ?thesis by (auto simp: distinct_map inj_on_def)
  qed
  moreover have "ar_id ` set ?t = ar_id ` set (q_table q)"
    using approval_transition.update_ids[OF closing_transition.axioms(1)[OF tr]] by (metis set_map)
  ultimately show ?thesis using base log by (auto simp: queue_base_def)
qed

lemma decide_queue:
  assumes inv: "queue_base q"
  shows "queue_base \<lparr>q_table = sql_update (decide_guard i now) (decide_set a actor reason now) (q_table q),
     q_log = map (\<lambda>r. EvDecided (ar_id r) a) (filter (decide_guard i now) (q_table q)) @ q_log q\<rparr>"
proof -
  let ?g = "decide_guard i now" and ?f = "decide_set a actor reason now"
  let ?t = "sql_update ?g ?f (q_table q)"
  let ?new = "map (\<lambda>r. EvDecided (ar_id r) a) (filter ?g (q_table q))"
  have row: "\<exists>s\<in>set (q_table q). r = (if ?g s then ?f s else s) \<and> ar_id r = ar_id s" if "r \<in> set ?t" for r
    using that unfolding set_sql_update by (auto simp: decide_tr.keeps_id)
  have ids: "ar_id ` set ?t = ar_id ` set (q_table q)" by (metis decide_tr.update_ids set_map)
  have "EvClaimed (ar_id r) \<notin> set (q_log q)" if r: "r \<in> set ?t" "open_status (ar_status r)" for r
  proof -
    obtain s where s: "s \<in> set (q_table q)" "r = (if ?g s then ?f s else s)" "ar_id r = ar_id s"
      using row[OF r(1)] by blast
    then have "open_status (ar_status s)" using r(2)
      by (auto simp: decide_guard_def open_status_def split: if_splits)
    with s inv show ?thesis by (simp add: queue_base_def)
  qed
  moreover have "EvDecided (ar_id r) True \<in> set (?new @ q_log q)"
    if r: "r \<in> set ?t" "ar_status r = Approved" for r
  proof -
    obtain s where s: "s \<in> set (q_table q)" "r = (if ?g s then ?f s else s)" "ar_id r = ar_id s"
      using row[OF r(1)] by blast
    show ?thesis
    proof (cases "?g s")
      case True
      with s r(2) have "a" by (simp add: decide_set_def split: if_splits)
      with True s show ?thesis by auto
    next
      case False
      with s r(2) inv show ?thesis by (simp add: queue_base_def)
    qed
  qed
  moreover have "approvals_ok ?t" using inv decide_tr.update_ok by (simp add: queue_base_def)
  moreover have "log_ok (?new @ q_log q)"
    by (rule log_ok_decisions) (use inv in \<open>simp add: queue_base_def\<close>)
  ultimately show ?thesis using inv ids by (auto simp: queue_base_def)
qed

lemma insert_queue:
  assumes "queue_base q" "i \<notin> set (map ar_id (q_table q))"
  shows "queue_base (q\<lparr>q_table := snd (insert_pending i now p (q_table q))\<rparr>)"
  using assms insert_pending_ok[of "q_table q" i now p]
  by (auto simp: queue_base_def insert_pending_def new_request_def)

text \<open>Transitions other than a claim start no execution.\<close>

locale quiet_transition = approval_transition +
  assumes quiet: "guard r \<Longrightarrow> ran_status (ar_status (change r)) \<Longrightarrow> ran_status (ar_status r)"
begin

lemma keeps_ran:
  assumes "ran_logged q" "set (q_log q) \<subseteq> L"
  shows "\<forall>r\<in>set (sql_update guard change (q_table q)). ran_status (ar_status r) \<longrightarrow> EvClaimed (ar_id r) \<in> L"
proof
  fix r assume "r \<in> set (sql_update guard change (q_table q))"
  then obtain s where s: "s \<in> set (q_table q)" "r = (if guard s then change s else s)"
    unfolding set_sql_update by blast
  then show "ran_status (ar_status r) \<longrightarrow> EvClaimed (ar_id r) \<in> L"
    using assms quiet[of s] by (auto simp: ran_logged_def keeps_id)
qed

end

interpretation decide_qt: quiet_transition "decide_guard i now" "decide_set approve actor reason now"
  for i now approve actor reason
  by unfold_locales (auto simp: decide_set_def ran_status_def split: if_splits)

interpretation executed_qt: quiet_transition "executing_guard i" "executed_set result now" for i result now
  by unfold_locales (auto simp: executing_guard_def ran_status_def)

interpretation failed_qt: quiet_transition "executing_guard i" "failed_set err now" for i err now
  by unfold_locales (auto simp: executing_guard_def ran_status_def)

interpretation touch_qt: quiet_transition "executing_guard i" "touch_set now" for i now
  by unfold_locales (auto simp: executing_guard_def ran_status_def)

interpretation expire_qt: quiet_transition "expire_guard now" "expire_set now" for now
  by unfold_locales (auto simp: expire_set_def ran_status_def)

interpretation expire_hash_qt: quiet_transition
    "\<lambda>r. ar_requestHash r = h \<and> expire_guard now r" "expire_set now" for h now
  by unfold_locales (auto simp: expire_set_def ran_status_def)

interpretation stale_qt: quiet_transition "stale_guard before" "failed_set stale_error now" for before now
  by unfold_locales (auto simp: stale_guard_def ran_status_def)

interpretation force_qt: quiet_transition "force_guard i" "expire_set now" for i now
  by unfold_locales (auto simp: expire_set_def ran_status_def)

lemma claim_ran:
  assumes "ran_logged q"
  shows "\<forall>r\<in>set (sql_update guard (claim_set now) (q_table q)). ran_status (ar_status r) \<longrightarrow>
     EvClaimed (ar_id r) \<in> set (map (\<lambda>r. EvClaimed (ar_id r)) (filter guard (q_table q)) @ q_log q)"
proof
  fix r assume "r \<in> set (sql_update guard (claim_set now) (q_table q))"
  then obtain s where s: "s \<in> set (q_table q)" "r = (if guard s then claim_set now s else s)"
    unfolding set_sql_update by blast
  then show "ran_status (ar_status r) \<longrightarrow>
     EvClaimed (ar_id r) \<in> set (map (\<lambda>r. EvClaimed (ar_id r)) (filter guard (q_table q)) @ q_log q)"
    using assms by (cases "guard s") (auto simp: ran_logged_def claim_set_def)
qed

lemma approval_step_base: "approval_step q q' \<Longrightarrow> queue_base q \<Longrightarrow> queue_base q'"
proof (induction rule: approval_step.induct)
  case (as_insert i q now p)
  then show ?case using insert_queue by blast
next
  case (as_decide q i approve actor reason now)
  then show ?case using decide_queue by (simp add: repo_writes)
next
  case (as_claim q h dbnow)
  then show ?case
    using claim_queue[OF claim_tr.closing_transition_axioms] by (simp add: repo_writes claim_guard_def)
next
  case (as_claim_id q i dbnow)
  then show ?case
    using claim_queue[OF claim_id_tr.closing_transition_axioms] by (simp add: repo_writes claim_id_guard_def)
qed (simp_all add: repo_writes expire_hash_tr.keeps_queue executed_tr.keeps_queue failed_tr.keeps_queue
    touch_tr.keeps_queue expire_tr.keeps_queue stale_tr.keeps_queue force_tr.keeps_queue)

lemma approval_step_ran: "approval_step q q' \<Longrightarrow> ran_logged q \<Longrightarrow> ran_logged q'"
proof (induction rule: approval_step.induct)
  case (as_insert i q now p)
  then show ?case by (auto simp: ran_logged_def insert_pending_def new_request_def ran_status_def)
next
  case (as_decide q i approve actor reason now)
  show ?case using decide_qt.keeps_ran[OF as_decide] by (simp add: ran_logged_def repo_writes)
next
  case (as_claim q h dbnow)
  show ?case using claim_ran[OF as_claim] by (simp add: ran_logged_def repo_writes)
next
  case (as_claim_id q i dbnow)
  show ?case using claim_ran[OF as_claim_id] by (simp add: ran_logged_def repo_writes)
qed (simp_all add: repo_writes ran_logged_def[of "_\<lparr>q_table := _\<rparr>"] expire_hash_qt.keeps_ran
    executed_qt.keeps_ran failed_qt.keeps_ran touch_qt.keeps_ran expire_qt.keeps_ran stale_qt.keeps_ran
    force_qt.keeps_ran)

lemma approval_reach_inv: "approval_reach q \<Longrightarrow> queue_inv q"
proof (induction rule: approval_reach.induct)
  case ar_start
  show ?case by (simp add: queue_inv_def queue_base_def ran_logged_def approvals_ok_def)
next
  case (ar_next q q')
  then show ?case using approval_step_base approval_step_ran unfolding queue_inv_def by blast
qed

section \<open>Creating a request\<close>

lemma expire_hash_frees:
  assumes "\<forall>r\<in>set t. \<not> live_request h now r" "now \<le> dbnow"
  shows "\<forall>r\<in>set (expire_hash h dbnow t). \<not> (ar_requestHash r = h \<and> active_status (ar_status r))"
proof
  fix r assume "r \<in> set (expire_hash h dbnow t)"
  then obtain s where s: "s \<in> set t"
      "r = (if ar_requestHash s = h \<and> expire_guard dbnow s then expire_set dbnow s else s)"
    unfolding expire_hash_def set_sql_update by blast
  then show "\<not> (ar_requestHash r = h \<and> active_status (ar_status r))"
    using assms by (auto simp: live_request_def approval_defs status_defs)
qed

lemma insert_pending_free:
  assumes "\<forall>r\<in>set t. \<not> (ar_requestHash r = cp_requestHash p \<and> active_status (ar_status r))"
  shows "insert_pending i now p t = (Some (new_request i now p), t @ [new_request i now p])"
  using assms by (auto simp: insert_pending_def list_ex_iff)

text \<open>Without interference one retry is enough, if the database clock is not behind.\<close>

lemma createOrGetPending_result:
  assumes "\<And>n. clock n \<le> dbclock n"
  shows "(\<exists>existing. findActiveByRequestHash (cp_requestHash p) (clock 0) t = Some existing \<and>
      createOrGetPending (\<lambda>_ u. u) uuid clock dbclock p 0 t = (Inr (False, existing), t)) \<or>
    (findActiveByRequestHash (cp_requestHash p) (clock 0) t = None \<and>
     (\<exists>n t'. n \<le> 1 \<and> t' = (if n = 0 then t else expire_hash (cp_requestHash p) (dbclock 0) t) \<and>
       createOrGetPending (\<lambda>_ u. u) uuid clock dbclock p 0 t =
         (Inr (True, new_request (uuid n) (clock n) p), t' @ [new_request (uuid n) (clock n) p])))"
proof (cases "list_ex (\<lambda>r. ar_requestHash r = cp_requestHash p \<and> active_status (ar_status r)) t")
  case False
  then have free: "\<forall>r\<in>set t. \<not> (ar_requestHash r = cp_requestHash p \<and> active_status (ar_status r))"
    by (simp add: list_ex_iff)
  then have "findActiveByRequestHash (cp_requestHash p) (clock 0) t = None"
    by (auto simp: findActiveByRequestHash_def find_first_desc_None_iff live_request_def status_defs)
  moreover have "createOrGetPending (\<lambda>_ u. u) uuid clock dbclock p 0 t =
      (Inr (True, new_request (uuid 0) (clock 0) p), t @ [new_request (uuid 0) (clock 0) p])"
    by (subst createOrGetPending.simps) (simp add: insert_pending_free[OF free])
  ultimately show ?thesis by (intro disjI2 conjI exI[of _ 0] exI[of _ t]) simp_all
next
  case True
  then have ins: "insert_pending i now p t = (None, t)" for i now by (simp add: insert_pending_def)
  show ?thesis
  proof (cases "findActiveByRequestHash (cp_requestHash p) (clock 0) t")
    case (Some existing)
    then have "createOrGetPending (\<lambda>_ u. u) uuid clock dbclock p 0 t = (Inr (False, existing), t)"
      by (subst createOrGetPending.simps) (simp add: ins findActiveByRequestHash_def)
    with Some show ?thesis by simp
  next
    case None
    let ?t = "expire_hash (cp_requestHash p) (dbclock 0) t"
    have "\<forall>r\<in>set t. \<not> live_request (cp_requestHash p) (clock 0) r"
      using None by (simp add: findActiveByRequestHash_def find_first_desc_None_iff)
    note free = insert_pending_free[OF expire_hash_frees[OF this assms]]
    have "createOrGetPending (\<lambda>_ u. u) uuid clock dbclock p 0 t =
        createOrGetPending (\<lambda>_ u. u) uuid clock dbclock p 1 ?t"
      using None by (subst createOrGetPending.simps) (simp add: ins findActiveByRequestHash_def Let_def)
    also have "\<dots> = (Inr (True, new_request (uuid 1) (clock 1) p), ?t @ [new_request (uuid 1) (clock 1) p])"
      by (subst createOrGetPending.simps) (simp add: free)
    finally show ?thesis using None by (intro disjI2 conjI exI[of _ 1] exI[of _ ?t]) simp_all
  qed
qed

lemma claim_moves:
  assumes "update_one (claim_guard h now) (claim_set now) t = (Some r, t')"
  shows "\<exists>s\<in>set t. claim_guard h now s \<and> r = claim_set now s \<and> r \<in> set t'"
proof -
  have "sql_returning (claim_guard h now) (claim_set now) t \<noteq> [] \<and>
      r = hd (sql_returning (claim_guard h now) (claim_set now) t)"
    using assms by (auto simp: update_one_def split: list.splits)
  then have "r \<in> set (sql_returning (claim_guard h now) (claim_set now) t)" by (metis hd_in_set)
  then obtain s where "s \<in> set t" "claim_guard h now s" "r = claim_set now s"
    by (auto simp: sql_returning_def)
  moreover from this have "r \<in> set t'" using assms by (force simp: update_one_def set_sql_update)
  ultimately show ?thesis by blast
qed

lemma approvals_ok_active_eq:
  assumes "approvals_ok t" "r \<in> set t" "s \<in> set t" "active_status (ar_status r)"
    "active_status (ar_status s)" "ar_requestHash r = ar_requestHash s"
  shows "r = s"
  using assms by (auto simp: approvals_ok_def distinct_map inj_on_def)

lemma log_ok_claim:
  assumes "log_ok (later @ EvClaimed i # earlier)"
  shows "EvDecided i True \<in> set earlier \<and> EvClaimed i \<notin> set earlier \<and> EvClaimed i \<notin> set later"
  using assms by (induction later) (auto split: approval_event.splits)

section \<open>A concrete queue\<close>

definition demo_create :: create_params where
  "demo_create =
     \<lparr>cp_userId = ''u'', cp_serverId = None, cp_toolName = ''pay'', cp_canonicalArgs = JNull,
      cp_redactedArgs = JNull, cp_policyVersion = 1, cp_requestHash = ''h'', cp_expiresAt = 1000,
      cp_uniformRequestId = None\<rparr>"

definition demo_pending :: approval_queue where
  "demo_pending = \<lparr>q_table = snd (insert_pending ''r1'' 10 demo_create []), q_log = []\<rparr>"

definition demo_approved :: approval_queue where
  "demo_approved =
     \<lparr>q_table = snd (repo_decide ''r1'' True \<lparr>actorUserId = None, actorRole = None, channel = ''socket''\<rparr>
        None 20 (q_table demo_pending)),
      q_log = map (\<lambda>r. EvDecided (ar_id r) True) (filter (decide_guard ''r1'' 20) (q_table demo_pending)) @
        q_log demo_pending\<rparr>"

definition demo_claimed :: approval_queue where
  "demo_claimed =
     \<lparr>q_table = snd (claimApprovedForExecution ''h'' 30 (q_table demo_approved)),
      q_log = map (\<lambda>r. EvClaimed (ar_id r)) (filter (claim_guard ''h'' 30) (q_table demo_approved)) @
        q_log demo_approved\<rparr>"

lemma demo_pending_reach: "approval_reach demo_pending"
  using ar_next[OF ar_start as_insert[of "''r1''" "\<lparr>q_table = [], q_log = []\<rparr>" 10 demo_create]]
  by (simp add: demo_pending_def)

lemma demo_approved_reach: "approval_reach demo_approved"
  unfolding demo_approved_def by (rule ar_next[OF demo_pending_reach as_decide])

lemma demo_claimed_reach: "approval_reach demo_claimed"
  unfolding demo_claimed_def by (rule ar_next[OF demo_approved_reach as_claim])

lemma demo_claimed_log: "q_log demo_claimed = [EvClaimed ''r1'', EvDecided ''r1'' True]"
  by code_simp

section \<open>Properties\<close>

text \<open>
  C18: at most one active request per hash. In every state the queue can reach, by any
  interleaving of its SQL statements, two rows that are pending, approved or executing never
  share a request hash, and every row records its decision (made before it expired), result or
  error as its status demands.
\<close>

theorem approval_active_unique:
  assumes "approval_reach q" and "r \<in> set (q_table q)" and "s \<in> set (q_table q)"
    and "active_status (ar_status r)" and "active_status (ar_status s)"
    and "ar_requestHash r = ar_requestHash s"
  shows "r = s \<and> request_ok r"
proof -
  have ok: "approvals_ok (q_table q)"
    using approval_reach_inv[OF assms(1)] by (simp add: queue_inv_def queue_base_def)
  with approvals_ok_active_eq[OF ok assms(2-6)] assms(2) show ?thesis by (simp add: approvals_ok_def)
qed

theorem approval_active_unique_witness:
  "\<exists>r \<in> set (q_table demo_claimed). ar_status r = Executing \<and> request_ok r"
proof -
  have "\<exists>r \<in> set (q_table demo_claimed). ar_status r = Executing" by code_simp
  then obtain r where r: "r \<in> set (q_table demo_claimed)" "ar_status r = Executing" by blast
  then have "active_status (ar_status r)" by (simp add: active_status_def)
  with approval_active_unique[OF demo_claimed_reach r(1) r(1)] r show ?thesis by auto
qed

text \<open>
  C7: a request runs at most once, and only after it was approved. In every reachable state a
  request that is executing, was executed or failed was claimed for execution exactly once, and
  the log shows an approval of that request before its claim.
\<close>

theorem approval_runs_once:
  assumes "approval_reach q" and "r \<in> set (q_table q)"
    and "ar_status r \<in> {Executing, Executed, Failed}"
  shows "\<exists>later earlier. q_log q = later @ EvClaimed (ar_id r) # earlier \<and>
    EvClaimed (ar_id r) \<notin> set later \<and> EvClaimed (ar_id r) \<notin> set earlier \<and>
    EvDecided (ar_id r) True \<in> set earlier"
proof -
  have inv: "queue_base q" "ran_logged q" using approval_reach_inv[OF assms(1)] by (auto simp: queue_inv_def)
  then have "EvClaimed (ar_id r) \<in> set (q_log q)"
    using assms(2,3) by (auto simp: ran_logged_def ran_status_def)
  then obtain later earlier where "q_log q = later @ EvClaimed (ar_id r) # earlier"
    by (auto simp: in_set_conv_decomp)
  with inv(1) log_ok_claim[of later "ar_id r" earlier] show ?thesis by (auto simp: queue_base_def)
qed

theorem approval_runs_once_witness:
  "\<exists>later earlier. q_log demo_claimed = later @ EvClaimed ''r1'' # earlier \<and>
     EvDecided ''r1'' True \<in> set earlier"
proof -
  have "\<exists>r \<in> set (q_table demo_claimed). ar_status r = Executing \<and> ar_id r = ''r1''" by code_simp
  then obtain r where "r \<in> set (q_table demo_claimed)" "ar_status r = Executing" "ar_id r = ''r1''" by blast
  with approval_runs_once[OF demo_claimed_reach, of r] show ?thesis by auto
qed

text \<open>
  Finished requests never change. No statement of the repository alters a row that is
  rejected, expired, executed or failed.
\<close>

theorem approval_terminal_final:
  assumes "approval_step q q'" and "r \<in> set (q_table q)"
    and "ar_status r \<in> {Rejected, Expired, Executed, Failed}"
  shows "r \<in> set (q_table q')"
proof -
  have "terminal_status (ar_status r)" using assms(3) by (auto simp: terminal_status_def active_status_def)
  with assms(1,2) show ?thesis
  proof (induction rule: approval_step.induct)
    case (as_insert i q now p)
    then show ?case by (simp add: insert_pending_def)
  qed (simp_all add: repo_writes decide_tr.update_keeps_terminal claim_tr.update_keeps_terminal
      claim_id_tr.update_keeps_terminal executed_tr.update_keeps_terminal
      failed_tr.update_keeps_terminal touch_tr.update_keeps_terminal expire_tr.update_keeps_terminal
      expire_hash_tr.update_keeps_terminal stale_tr.update_keeps_terminal force_tr.update_keeps_terminal)
qed

theorem approval_terminal_final_witness:
  "\<exists>r \<in> set (snd (repo_markFailed ''r1'' ''boom'' 40 (q_table demo_claimed))).
     ar_status r = Failed \<and> r \<in> set (forceExpire ''r1'' 50 (snd (repo_markFailed ''r1'' ''boom'' 40 (q_table demo_claimed))))"
proof -
  let ?q = "demo_claimed\<lparr>q_table := snd (repo_markFailed ''r1'' ''boom'' 40 (q_table demo_claimed))\<rparr>"
  have "\<exists>r \<in> set (q_table ?q). ar_status r = Failed" by code_simp
  then obtain r where r: "r \<in> set (q_table ?q)" "ar_status r = Failed" by blast
  have "r \<in> set (q_table (?q\<lparr>q_table := forceExpire ''r1'' 50 (q_table ?q)\<rparr>))"
    using r by (intro approval_terminal_final[OF as_force]) auto
  with r show ?thesis by auto
qed

text \<open>
  C26: claiming is exclusive. If claiming a hash for execution succeeds, the claimed row was
  approved and not yet expired, it is executing afterwards, and every further claim of the same
  hash on the resulting table fails, whenever it is made.
\<close>

theorem claim_exclusive:
  assumes "approval_reach q" and "claimForExecution h now (q_table q) = ((True, Some r), t')"
  shows "(\<exists>s \<in> set (q_table q). ar_id s = ar_id r \<and> ar_status s = Approved \<and> now < ar_expiresAt s) \<and>
    ar_status r = Executing \<and> r \<in> set t' \<and> fst (claimForExecution h later t') = (False, None)"
proof -
  have up: "update_one (claim_guard h now) (claim_set now) (q_table q) = (Some r, t')"
    using assms(2) by (auto simp: claimForExecution_def claimApprovedForExecution_def split: prod.splits option.splits)
  obtain s where s: "s \<in> set (q_table q)" "claim_guard h now s" "r = claim_set now s" "r \<in> set t'"
    using claim_moves[OF up] by blast
  have ok: "approvals_ok t'"
    using approval_reach_inv[OF assms(1)] claim_tr.update_ok[of "q_table q" h now] up
    by (auto simp: queue_inv_def queue_base_def update_one_def)
  have r: "ar_status r = Executing" "ar_requestHash r = h" using s by (auto simp: approval_defs)
  have "\<not> claim_guard h later x" if x: "x \<in> set t'" for x
  proof
    assume g: "claim_guard h later x"
    then have "r = x"
      using r by (intro approvals_ok_active_eq[OF ok s(4) x]) (auto simp: claim_guard_def active_status_def)
    with g r(1) show False by (simp add: claim_guard_def)
  qed
  then have "sql_returning (claim_guard h later) (claim_set later) t' = []" by (simp add: sql_returning_Nil_iff)
  then have "fst (claimForExecution h later t') = (False, None)"
    by (simp add: claimForExecution_def claimApprovedForExecution_def update_one_def)
  with s r show ?thesis by (auto simp: approval_defs)
qed

theorem claim_exclusive_witness:
  "\<exists>r t'. claimForExecution ''h'' 30 (q_table demo_approved) = ((True, Some r), t') \<and>
     fst (claimForExecution ''h'' 31 t') = (False, None)"
proof -
  obtain b r t' where brt: "claimForExecution ''h'' 30 (q_table demo_approved) = ((b, r), t')"
    by (metis prod.collapse)
  have "fst (fst (claimForExecution ''h'' 30 (q_table demo_approved)))" by code_simp
  moreover have "snd (fst (claimForExecution ''h'' 30 (q_table demo_approved))) \<noteq> None" by code_simp
  ultimately obtain x where "claimForExecution ''h'' 30 (q_table demo_approved) = ((True, Some x), t')"
    using brt by auto
  with claim_exclusive[OF demo_approved_reach this, of 31] show ?thesis by auto
qed

text \<open>
  C38: creation ends with a request. Run without interference, and with a database clock that is
  not behind the process clock, \<open>createOrGetPending\<close> returns an active request of the given
  hash that is in the table; it creates one exactly when no live request of that hash exists,
  after at most one retry, and never raises its retry error.
\<close>

theorem approval_create_total:
  assumes "\<And>n. clock n \<le> dbclock n"
  shows "\<exists>created r t'. createOrGetPending (\<lambda>_ u. u) uuid clock dbclock p 0 t = (Inr (created, r), t') \<and>
    r \<in> set t' \<and> ar_requestHash r = cp_requestHash p \<and> active_status (ar_status r) \<and>
    (created \<longleftrightarrow> findActiveByRequestHash (cp_requestHash p) (clock 0) t = None)"
proof -
  have new: "ar_requestHash (new_request i now p) = cp_requestHash p \<and>
      active_status (ar_status (new_request i now p))" for i now
    by (simp add: new_request_def active_status_def)
  from createOrGetPending_result[where clock = clock and dbclock = dbclock and p = p and t = t and uuid = uuid,
      OF assms]
  show ?thesis
  proof (elim disjE exE conjE)
    fix existing
    assume f: "findActiveByRequestHash (cp_requestHash p) (clock 0) t = Some existing"
      and c: "createOrGetPending (\<lambda>_ u. u) uuid clock dbclock p 0 t = (Inr (False, existing), t)"
    have "existing \<in> set t" "live_request (cp_requestHash p) (clock 0) existing"
      using f unfolding findActiveByRequestHash_def by (auto dest: find_first_desc_Some)
    with f c show ?thesis by (auto simp: live_request_def active_status_def open_status_def)
  next
    fix n t'
    assume f: "findActiveByRequestHash (cp_requestHash p) (clock 0) t = None"
      and c: "createOrGetPending (\<lambda>_ u. u) uuid clock dbclock p 0 t =
         (Inr (True, new_request (uuid n) (clock n) p), t' @ [new_request (uuid n) (clock n) p])"
    show ?thesis unfolding c using f new[of "uuid n" "clock n"] by auto
  qed
qed

theorem approval_create_total_witness:
  "\<exists>r t'. createOrGetPending (\<lambda>_ u. u) (\<lambda>_. ''r2'') (\<lambda>_. 2000) (\<lambda>_. 2000) demo_create 0 (q_table demo_pending) =
     (Inr (True, r), t')"
proof -
  have f: "findActiveByRequestHash (cp_requestHash demo_create) 2000 (q_table demo_pending) = None" by code_simp
  show ?thesis
    using approval_create_total[where clock = "\<lambda>_. 2000" and dbclock = "\<lambda>_. 2000"
      and uuid = "\<lambda>_. ''r2''" and p = demo_create and t = "q_table demo_pending"] f
    by auto
qed

text \<open>
  A lagging database clock makes creation fail. If the only request of a hash is pending,
  already expired by the process clock but not yet by the database clock, then all attempts
  conflict with it, none finds or expires it, and \<open>createOrGetPending\<close> raises its retry error
  although no live request exists.
\<close>

theorem approval_create_clock_skew:
  assumes "ar_requestHash r = cp_requestHash p" and "ar_status r = Pending"
    and "\<And>n. dbclock n < ar_expiresAt r" and "\<And>n. ar_expiresAt r \<le> clock n"
  shows "createOrGetPending (\<lambda>_ u. u) uuid clock dbclock p 0 [r] = (Inl CreateRetriesExhausted, [r])"
proof -
  have ins: "insert_pending i now p [r] = (None, [r])" for i now
    using assms(1,2) by (simp add: insert_pending_def active_status_def)
  have dead: "\<not> live_request (cp_requestHash p) (clock n) r" for n
    using assms(2) assms(4)[of n] by (auto simp: live_request_def)
  have none: "find_first_desc ar_createdAt (live_request (cp_requestHash p) (clock n)) [r] = None" for n
    using dead by (simp add: find_first_desc_None_iff)
  have "expire_hash (cp_requestHash p) (dbclock n) [r] = [r]" for n
    using assms(3)[of n] by (simp add: expire_hash_def sql_update_def expire_guard_def)
  then have step: "createOrGetPending (\<lambda>_ u. u) uuid clock dbclock p n [r] =
      (if n \<ge> 3 then (Inl CreateRetriesExhausted, [r])
       else createOrGetPending (\<lambda>_ u. u) uuid clock dbclock p (n + 1) [r])" for n
    by (subst createOrGetPending.simps) (simp add: ins none Let_def)
  show ?thesis using step[of 0] step[of 1] step[of 2] step[of 3] by (simp add: eval_nat_numeral)
qed

theorem approval_create_clock_skew_witness:
  "fst (createOrGetPending (\<lambda>_ u. u) (\<lambda>_. ''r2'') (\<lambda>_. 1000) (\<lambda>_. 999) demo_create 0
     [new_request ''r1'' 10 demo_create]) = Inl CreateRetriesExhausted"
  using approval_create_clock_skew[where r = "new_request ''r1'' 10 demo_create" and p = demo_create
      and dbclock = "\<lambda>_. 999" and clock = "\<lambda>_. 1000" and uuid = "\<lambda>_. ''r2''"]
  by (simp add: new_request_def demo_create_def)

text \<open>
  Checking a call against the queue. A live request of the same hash is returned as it is,
  and needs no further approval exactly when it is approved; otherwise a user over one of the
  two creation limits gets the rate-limit error; in both cases the table is unchanged.
  Otherwise a new pending request with the call's hash and expiry is created and reported.
\<close>

theorem approval_check_outcome:
  assumes "now \<le> dbnow"
  shows "case findActiveByRequestHash (input_hash e inp) now t of
    Some r \<Rightarrow>
      checkOrCreateApproval e (\<lambda>_ u. u) uuid (\<lambda>_. now) (\<lambda>_. dbnow) now inp t =
        (Inr \<lparr>needsApproval = (ar_status r \<noteq> Approved), check_created = False,
              check_request = r, check_hash = input_hash e inp\<rparr>, t)
  | None \<Rightarrow>
      (if 3 \<le> countRecentCreationsByRequestHash (ai_userId inp) (input_hash e inp) (now - 60000) t \<or>
          10 \<le> countRecentCreationsByTool (ai_userId inp) (ai_serverId inp) (ai_toolName inp) (now - 60000) t
       then \<exists>msg. checkOrCreateApproval e (\<lambda>_ u. u) uuid (\<lambda>_. now) (\<lambda>_. dbnow) now inp t =
              (Inl (ApprovalRateLimit msg), t)
       else \<exists>r t'. checkOrCreateApproval e (\<lambda>_ u. u) uuid (\<lambda>_. now) (\<lambda>_. dbnow) now inp t =
              (Inr \<lparr>needsApproval = True, check_created = True, check_request = r,
                    check_hash = input_hash e inp\<rparr>, t') \<and>
            r \<in> set t' \<and> ar_status r = Pending \<and> ar_requestHash r = input_hash e inp \<and>
            ar_expiresAt r = now + (case ai_expiresInMs inp of Some ms \<Rightarrow> ms | None \<Rightarrow> 600000))"
proof (cases "findActiveByRequestHash (input_hash e inp) now t")
  case (Some r)
  then show ?thesis by (simp add: checkOrCreateApproval_def Let_def)
next
  case None
  let ?p = "input_params e inp now"
  have h: "cp_requestHash ?p = input_hash e inp" by (simp add: input_params_def)
  obtain n t' where c: "createOrGetPending (\<lambda>_ u. u) uuid (\<lambda>_. now) (\<lambda>_. dbnow) ?p 0 t =
      (Inr (True, new_request (uuid n) now ?p), t' @ [new_request (uuid n) now ?p])"
    using createOrGetPending_result[where clock = "\<lambda>_. now" and dbclock = "\<lambda>_. dbnow"
        and p = ?p and t = t and uuid = uuid] assms None h by auto
  have r: "ar_status (new_request (uuid n) now ?p) = Pending"
      "ar_requestHash (new_request (uuid n) now ?p) = input_hash e inp"
      "ar_expiresAt (new_request (uuid n) now ?p) =
         now + (case ai_expiresInMs inp of Some ms \<Rightarrow> ms | None \<Rightarrow> 600000)"
    by (simp_all add: new_request_def input_params_def default_expiry_ms_def split: option.split)
  show ?thesis
    using None c r
    by (auto simp: checkOrCreateApproval_def Let_def create_limit_window_ms_def
        create_limit_per_hash_def create_limit_count_def)
qed

definition demo_env :: approval_env where
  "demo_env = \<lparr>env_sha256 = id, env_nstr = (\<lambda>q. int_str \<lfloor>q\<rfloor>), env_fun_text = []\<rparr>"

definition demo_input :: approval_input where
  "demo_input = \<lparr>ai_userId = ''u'', ai_serverId = None, ai_toolName = ''pay'',
     ai_args = [(''amount'', JNum (Fin 5))], ai_policyVersion = 1, ai_uniformRequestId = None,
     ai_expiresInMs = None\<rparr>"

theorem approval_check_outcome_witness:
  "\<exists>r t'. checkOrCreateApproval demo_env (\<lambda>_ u. u) (\<lambda>_. ''r9'') (\<lambda>_. 50) (\<lambda>_. 50) 50 demo_input [] =
     (Inr \<lparr>needsApproval = True, check_created = True, check_request = r,
           check_hash = input_hash demo_env demo_input\<rparr>, t') \<and> ar_expiresAt r = 600050"
  using approval_check_outcome[where now = 50 and dbnow = 50 and e = demo_env and inp = demo_input
      and t = "[]" and uuid = "\<lambda>_. ''r9''"]
  by (auto simp: findActiveByRequestHash_def find_first_desc_def order_desc_def
      countRecentCreationsByRequestHash_def countRecentCreationsByTool_def demo_input_def)

end
