(* ===== verification/Approval_Limits.thy ===== *)
theory Approval_Limits
  imports Approval_Queue
begin

text \<open>
  Two quantitative properties of the approval queue of \<open>Approval_Queue\<close>: the creation limits of
  \<open>checkOrCreateApproval\<close> hold over every sliding window of sixty seconds, and the pages of
  \<open>listApprovals\<close> cut the ordered result into consecutive pieces.
\<close>

section \<open>Creation limits\<close>

text \<open>
  A run in real time: the clock never goes back, calls are checked one at a time at the current
  time, and every other statement of the repository may run in between.
\<close>

inductive approval_timeline :: "approval_env \<Rightarrow> int \<Rightarrow> approval_table \<Rightarrow> bool" for e where
  tl_start: "approval_timeline e now []"
| tl_tick: "approval_timeline e now t \<Longrightarrow> now \<le> now' \<Longrightarrow> approval_timeline e now' t"
| tl_check: "approval_timeline e now t \<Longrightarrow>
    checkOrCreateApproval e (\<lambda>_ u. u) uuid (\<lambda>_. now) (\<lambda>_. now) now inp t = (res, t') \<Longrightarrow>
    approval_timeline e now t'"
| tl_decide: "approval_timeline e now t \<Longrightarrow>
    approval_timeline e now (snd (repo_decide i approve actor reason now t))"
| tl_claim: "approval_timeline e now t \<Longrightarrow>
    approval_timeline e now (snd (claimApprovedForExecution h now t))"
| tl_claim_id: "approval_timeline e now t \<Longrightarrow>
    approval_timeline e now (snd (claimApprovedForExecutionById i now t))"
| tl_executed: "approval_timeline e now t \<Longrightarrow>
    approval_timeline e now (snd (markExecuted e i result now t))"
| tl_failed: "approval_timeline e now t \<Longrightarrow>
    approval_timeline e now (snd (repo_markFailed i err now t))"
| tl_touch: "approval_timeline e now t \<Longrightarrow>
    approval_timeline e now (snd (repo_touchExecuting i now t))"
| tl_expire: "approval_timeline e now t \<Longrightarrow>
    approval_timeline e now (snd (repo_expireStale now t))"
| tl_recover: "approval_timeline e now t \<Longrightarrow>
    approval_timeline e now (snd (recoverStaleExecuting now now t))"
| tl_force: "approval_timeline e now t \<Longrightarrow> approval_timeline e now (forceExpire i now t)"

text \<open>Who created a request for what; the conditional updates leave all of it unchanged.\<close>

type_synonym origin = "string \<times> string option \<times> string \<times> string \<times> int"

definition origin_of :: "approval_request \<Rightarrow> origin" where
  "origin_of r = (ar_userId r, ar_serverId r, ar_toolName r, ar_requestHash r, ar_createdAt r)"

definition origin_count :: "(origin \<Rightarrow> bool) \<Rightarrow> approval_table \<Rightarrow> nat" where
  "origin_count P t = length (filter (\<lambda>r. P (origin_of r)) t)"

context approval_transition
begin

lemma origin_kept: "origin_of (change r) = origin_of r"
  using keeps_origin keeps_hash by (simp add: origin_of_def)

lemma count_kept: "origin_count P (sql_update guard change t) = origin_count P t"
  unfolding origin_count_def by (rule update_count) (simp add: origin_kept)

end

text \<open>
  A limit on a family of selections: at most \<open>mx\<close> rows whose origin satisfies \<open>Q k\<close> were
  created within any window of the given length.
\<close>

definition created_within :: "int \<Rightarrow> int \<Rightarrow> origin \<Rightarrow> bool" where
  "created_within a b x = (case x of (_, _, _, _, c) \<Rightarrow> a \<le> c \<and> c \<le> b)"

definition window_limit :: "nat \<Rightarrow> ('k \<Rightarrow> origin \<Rightarrow> bool) \<Rightarrow> approval_table \<Rightarrow> bool" where
  "window_limit mx Q t \<longleftrightarrow>
     (\<forall>k s. origin_count (\<lambda>x. Q k x \<and> created_within s (s + 60000) x) t \<le> mx)"

definition by_hash :: "string \<times> string \<Rightarrow> origin \<Rightarrow> bool" where
  "by_hash k x = (case (k, x) of ((u, h), (u', _, _, h', _)) \<Rightarrow> u' = u \<and> h' = h)"

definition by_tool :: "string \<times> string option \<times> string \<Rightarrow> origin \<Rightarrow> bool" where
  "by_tool k x = (case (k, x) of ((u, s, tool), (u', s', tool', _, _)) \<Rightarrow> u' = u \<and> s' = s \<and> tool' = tool)"

definition created_by :: "int \<Rightarrow> approval_table \<Rightarrow> bool" where
  "created_by now t \<longleftrightarrow> (\<forall>r\<in>set t. ar_createdAt r \<le> now)"

definition limits_ok :: "int \<Rightarrow> approval_table \<Rightarrow> bool" where
  "limits_ok now t \<longleftrightarrow> created_by now t \<and> window_limit 3 by_hash t \<and> window_limit 10 by_tool t"

lemma origin_count_append: "origin_count P (t @ [r]) = origin_count P t + (if P (origin_of r) then 1 else 0)"
  by (simp add: origin_count_def)

lemma origin_count_mono:
  "(\<And>r. r \<in> set t \<Longrightarrow> P (origin_of r) \<Longrightarrow> Q (origin_of r)) \<Longrightarrow> origin_count P t \<le> origin_count Q t"
  unfolding origin_count_def by (induction t) auto

text \<open>Appending one row created now keeps a limit, if the last minute was below it.\<close>

lemma window_limit_append:
  assumes "window_limit (Suc mx) Q t" "created_by now t" "ar_createdAt r = now"
    and "\<And>k. Q k (origin_of r) \<Longrightarrow>
      origin_count (\<lambda>x. Q k x \<and> created_within (now - 60000) now x) t \<le> mx"
  shows "window_limit (Suc mx) Q (t @ [r])"
  unfolding window_limit_def
proof (intro allI)
  fix k s
  let ?P = "\<lambda>x. Q k x \<and> created_within s (s + 60000) x"
  show "origin_count ?P (t @ [r]) \<le> Suc mx"
  proof (cases "?P (origin_of r)")
    case False
    then show ?thesis using assms(1) unfolding origin_count_append window_limit_def by auto
  next
    case True
    then have s: "now - 60000 \<le> s" using assms(3) by (auto simp: created_within_def origin_of_def)
    have "origin_count ?P t \<le> origin_count (\<lambda>x. Q k x \<and> created_within (now - 60000) now x) t"
      using assms(2) s by (intro origin_count_mono) (auto simp: created_within_def origin_of_def created_by_def)
    also have "\<dots> \<le> mx" using True assms(4) by simp
    finally show ?thesis using True by (simp add: origin_count_append)
  qed
qed

context approval_transition
begin

lemma limits_kept: "limits_ok now t \<Longrightarrow> limits_ok now (sql_update guard change t)"
  using keeps_origin
  by (auto simp: limits_ok_def window_limit_def count_kept created_by_def set_sql_update)

end

lemma count_hash: "created_by now t \<Longrightarrow>
   origin_count (\<lambda>x. by_hash (u, h) x \<and> created_within since now x) t =
   countRecentCreationsByRequestHash u h since t"
  unfolding origin_count_def countRecentCreationsByRequestHash_def
  by (intro arg_cong[where f = length] filter_cong)
    (auto simp: by_hash_def created_within_def origin_of_def created_by_def)

lemma count_tool: "created_by now t \<Longrightarrow>
   origin_count (\<lambda>x. by_tool (u, s, tool) x \<and> created_within since now x) t =
   countRecentCreationsByTool u s tool since t"
  unfolding origin_count_def countRecentCreationsByTool_def
  by (intro arg_cong[where f = length] filter_cong)
    (auto simp: by_tool_def created_within_def origin_of_def created_by_def split: option.splits)

lemma check_limits:
  assumes "limits_ok now t"
    and "checkOrCreateApproval e (\<lambda>_ u. u) uuid (\<lambda>_. now) (\<lambda>_. now) now inp t = (res, t')"
  shows "limits_ok now t'"
proof -
  let ?p = "input_params e inp now" and ?h = "input_hash e inp"
  let ?r = "\<lambda>n. new_request (uuid n) now ?p"
  consider (same) "t' = t"
    | (new) n t1 where "t1 = (if n = 0 then t else expire_hash ?h now t)" "t' = t1 @ [?r n]"
        "countRecentCreationsByRequestHash (ai_userId inp) ?h (now - 60000) t < 3"
        "countRecentCreationsByTool (ai_userId inp) (ai_serverId inp) (ai_toolName inp) (now - 60000) t < 10"
  proof (cases "findActiveByRequestHash ?h now t")
    case (Some r)
    then show ?thesis using assms(2) same by (simp add: checkOrCreateApproval_def Let_def)
  next
    case None
    have h: "cp_requestHash ?p = ?h" by (simp add: input_params_def)
    obtain n t1 where "t1 = (if n = 0 then t else expire_hash ?h now t)"
       "createOrGetPending (\<lambda>_ u. u) uuid (\<lambda>_. now) (\<lambda>_. now) ?p 0 t = (Inr (True, ?r n), t1 @ [?r n])"
      using createOrGetPending_result[where clock = "\<lambda>_. now" and dbclock = "\<lambda>_. now" and p = ?p
          and t = t and uuid = uuid, unfolded h] None by auto
    then show ?thesis using assms(2) None same new[of t1 n]
      by (auto simp: checkOrCreateApproval_def Let_def create_limit_window_ms_def
          create_limit_per_hash_def create_limit_count_def split: if_splits)
  qed
  then show ?thesis
  proof cases
    case new
    have ok1: "limits_ok now t1"
      using assms(1) new(1) expire_hash_tr.limits_kept[of now t ?h now] by (simp add: expire_hash_def)
    have cnt: "origin_count P t1 = origin_count P t" for P
      using new(1) expire_hash_tr.count_kept[of P ?h now t] by (simp add: expire_hash_def)
    have now: "ar_createdAt (?r n) = now" by (simp add: new_request_def)
    have origin: "origin_of (?r n) = (ai_userId inp, ai_serverId inp, ai_toolName inp, ?h, now)"
      by (simp add: origin_of_def new_request_def input_params_def)
    have cb: "created_by now t" "created_by now t1" using assms(1) ok1 by (simp_all add: limits_ok_def)
    have "window_limit 3 by_hash (t1 @ [?r n])"
      using window_limit_append[of 2 by_hash t1 now "?r n"] ok1 now cb new(3) cnt
      by (auto simp: limits_ok_def origin by_hash_def[of "(_, _)" "(_, _, _, _, _)"]
          count_hash[OF cb(1), symmetric] eval_nat_numeral less_Suc_eq_le)
    moreover have "window_limit 10 by_tool (t1 @ [?r n])"
      using window_limit_append[of 9 by_tool t1 now "?r n"] ok1 now cb new(4) cnt
      by (auto simp: limits_ok_def origin by_tool_def[of "(_, _, _)" "(_, _, _, _, _)"]
          count_tool[OF cb(1), symmetric] eval_nat_numeral less_Suc_eq_le)
    ultimately show ?thesis using new(2) ok1 now by (auto simp: limits_ok_def created_by_def)
  qed (use assms(1) in simp)
qed

lemma timeline_limits: "approval_timeline e now t \<Longrightarrow> limits_ok now t"
proof (induction rule: approval_timeline.induct)
  case (tl_start now)
  then show ?case by (simp add: limits_ok_def created_by_def window_limit_def origin_count_def)
next
  case (tl_tick now t now')
  then show ?case by (force simp: limits_ok_def created_by_def)
next
  case (tl_check now t uuid inp res t')
  then show ?case by (metis check_limits)
qed (simp_all add: repo_writes markExecuted_def recoverStaleExecuting_def decide_tr.limits_kept
    claim_tr.limits_kept claim_id_tr.limits_kept executed_tr.limits_kept failed_tr.limits_kept
    touch_tr.limits_kept expire_tr.limits_kept stale_tr.limits_kept force_tr.limits_kept)

text \<open>
  The creation limits hold over every sliding minute. In a run that checks calls one at a
  time, whatever is decided, claimed, finished, expired or recovered in between, no user ever
  creates more than three approval requests with one hash, nor more than ten for one tool of one
  server, in any period of sixty seconds.
\<close>

theorem approval_creation_limits:
  assumes "approval_timeline e now t"
  shows "length (filter (\<lambda>r. ar_userId r = u \<and> ar_requestHash r = h \<and>
           start \<le> ar_createdAt r \<and> ar_createdAt r \<le> start + 60000) t) \<le> 3 \<and>
         length (filter (\<lambda>r. ar_userId r = u \<and> ar_serverId r = sv \<and> ar_toolName r = tool \<and>
           start \<le> ar_createdAt r \<and> ar_createdAt r \<le> start + 60000) t) \<le> 10"
proof -
  have ok: "window_limit 3 by_hash t" "window_limit 10 by_tool t"
    using timeline_limits[OF assms] by (simp_all add: limits_ok_def)
  show ?thesis
    using ok(1)[unfolded window_limit_def, rule_format, of "(u, h)" start]
      ok(2)[unfolded window_limit_def, rule_format, of "(u, sv, tool)" start]
    by (simp add: origin_count_def by_hash_def by_tool_def created_within_def origin_of_def conj_assoc)
qed

definition demo_checked :: approval_table where
  "demo_checked =
     snd (checkOrCreateApproval demo_env (\<lambda>_ u. u) (\<lambda>_. ''r9'') (\<lambda>_. 50) (\<lambda>_. 50) 50 demo_input [])"

theorem approval_creation_limits_witness:
  "approval_timeline demo_env 50 demo_checked \<and>
   length (filter (\<lambda>r. ar_userId r = ''u'' \<and> ar_serverId r = None \<and> ar_toolName r = ''pay'' \<and>
           0 \<le> ar_createdAt r \<and> ar_createdAt r \<le> 0 + 60000) demo_checked) \<le> 10"
proof -
  have "approval_timeline demo_env 50 demo_checked"
    unfolding demo_checked_def by (rule tl_check[OF tl_start prod.collapse[symmetric]])
  with approval_creation_limits[OF this, of "''u''" _ 0 None "''pay''"] show ?thesis by blast
qed

section \<open>Pages\<close>

lemma take_drop_pages:
  "concat (map (\<lambda>k. take n (drop (k * n) xs)) [0..<m]) = take (m * n) xs"
proof (induction m)
  case (Suc m)
  have "Suc m * n = m * n + n" by simp
  then show ?case using Suc by (simp only: take_add) simp
qed simp

lemma given_given [simp]: "given (given x) = given x"
  by (auto simp: given_def split: option.splits)

lemma listApprovals_page:
  assumes "1 \<le> page" and "1 \<le> n" and "n \<le> 100"
  shows "lr_requests (listApprovals p (Some page) (Some n) now t) =
      take (nat n) (drop (nat (page - 1) * nat n) (order_desc ar_createdAt (filter (list_where p now) t)))"
    and "lr_hasMore (listApprovals p (Some page) (Some n) now t) \<longleftrightarrow>
      nat page * nat n < length (filter (list_where p now) t)"
proof -
  have w: "list_where (p\<lparr>lp_page := a, lp_pageSize := b\<rparr>) now = list_where p now" for a b
    by (simp add: list_where_def fun_eq_iff)
  have mx: "max page 1 = page" "max n 1 = n" "min n 100 = n" "max 1 page = page" "max 1 n = n"
    using assms by auto
  have sk: "nat ((page - 1) * n) = nat (page - 1) * nat n" using assms by (simp add: nat_mult_distrib)
  have len: "length (order_desc ar_createdAt xs) = length xs" for xs by (simp add: order_desc_def)
  have pg: "nat page * nat n = nat (page - 1) * nat n + nat n"
    using assms by (metis add.commute mult_Suc Suc_nat_eq_nat_zadd1 diff_add_cancel add.commute diff_ge_0_iff_ge)
  show "lr_requests (listApprovals p (Some page) (Some n) now t) =
      take (nat n) (drop (nat (page - 1) * nat n) (order_desc ar_createdAt (filter (list_where p now) t)))"
    by (simp add: listApprovals_def repo_list_def Let_def w mx sk)
  show "lr_hasMore (listApprovals p (Some page) (Some n) now t) \<longleftrightarrow>
      nat page * nat n < length (filter (list_where p now) t)"
    unfolding pg by (simp add: listApprovals_def repo_list_def Let_def w mx sk len) linarith
qed

text \<open>
  Listing pages through the whole selection. For every legal page size, the first \<open>m\<close>
  pages concatenated are the first \<open>m * n\<close> rows of the selection in order of creation, newest
  first, and page \<open>m\<close> reports that there is more exactly when rows remain after it.
\<close>

theorem approval_pages:
  assumes "1 \<le> n" and "n \<le> 100"
  shows "concat (map (\<lambda>k. lr_requests (listApprovals p (Some (int k + 1)) (Some n) now t)) [0..<m]) =
      take (m * nat n) (order_desc ar_createdAt (filter (list_where p now) t)) \<and>
    (0 < m \<longrightarrow> (lr_hasMore (listApprovals p (Some (int m)) (Some n) now t) \<longleftrightarrow>
      m * nat n < length (filter (list_where p now) t)))"
proof -
  have "lr_requests (listApprovals p (Some (int k + 1)) (Some n) now t) =
      take (nat n) (drop (k * nat n) (order_desc ar_createdAt (filter (list_where p now) t)))" for k
    using listApprovals_page(1)[of "int k + 1" n p now t] assms by simp
  then show ?thesis
    using listApprovals_page(2)[of "int m" n p now t] assms
    by (auto simp only: take_drop_pages nat_int of_nat_0_less_iff int_one_le_iff_zero_less)
qed

definition demo_list :: list_params where
  "demo_list = \<lparr>lp_userId = None, lp_status = Some Pending, lp_page = 1, lp_pageSize = 20,
     lp_serverId = None, lp_toolName = None\<rparr>"

theorem approval_pages_witness:
  "lr_hasMore (listApprovals demo_list (Some 1) (Some 1) 20
     [new_request ''r1'' 10 demo_create, new_request ''r2'' 11 demo_create])"
proof -
  have "length (filter (list_where demo_list 20)
      [new_request ''r1'' 10 demo_create, new_request ''r2'' 11 demo_create]) = 2" by code_simp
  with approval_pages[where n = 1 and m = 1 and p = demo_list and now = 20
      and t = "[new_request ''r1'' 10 demo_create, new_request ''r2'' 11 demo_create]"]
  show ?thesis by simp
qed

end
