(* ===== verification/Rate_Limit.thy ===== *)
theory Rate_Limit
  imports Peta_Prelude
begin

text \<open>
  Per-user request limits: \<open>src/security/RateLimitService.ts\<close> and the middleware
  \<open>src/middleware/RateLimitMiddleware.ts\<close>. The service counts requests in windows of one
  minute that start at the first request after the previous window. The results: the exact number
  of requests a user can have admitted within any minute, that this number is reached, and that
  a rejected client that waits as told is admitted.
\<close>

section \<open>The service\<close>

record request_count =
  rc_count :: int
  windowStart :: int
  lastRequestTime :: int

record rate_result =
  allowed :: bool
  remaining :: int
  resetTime :: int
  retryAfter :: "int option"

type_synonym rate_state = "(string, request_count) jsmap"

definition WINDOW_SIZE :: int where
  "WINDOW_SIZE = 60 * 1000"

definition checkRateLimit :: "string \<Rightarrow> int \<Rightarrow> int \<Rightarrow> rate_state \<Rightarrow> rate_result \<times> rate_state" where
  "checkRateLimit userId rateLimit now st =
     (let fresh = \<lparr>rc_count = 1, windowStart = now, lastRequestTime = now\<rparr>;
          admitted = \<lparr>allowed = True, remaining = rateLimit - 1, resetTime = now + WINDOW_SIZE,
                      retryAfter = None\<rparr>
      in case map_of st userId of
           None \<Rightarrow> (admitted, AList.update userId fresh st)
         | Some userCount \<Rightarrow>
             if now - windowStart userCount \<ge> WINDOW_SIZE
             then (admitted, AList.update userId fresh st)
             else if rc_count userCount \<ge> rateLimit
             then (let reset = windowStart userCount + WINDOW_SIZE
                   in (\<lparr>allowed = False, remaining = 0, resetTime = reset,
                        retryAfter = Some \<lceil>of_int (reset - now) / (1000 :: rat)\<rceil>\<rparr>, st))
             else (let userCount' = userCount\<lparr>rc_count := rc_count userCount + 1, lastRequestTime := now\<rparr>
                   in (\<lparr>allowed = True, remaining = rateLimit - rc_count userCount',
                        resetTime = windowStart userCount + WINDOW_SIZE, retryAfter = None\<rparr>,
                       AList.update userId userCount' st)))"

definition cleanupExpiredCounts :: "int \<Rightarrow> rate_state \<Rightarrow> rate_state" where
  "cleanupExpiredCounts now st =
     jsmap_keep (\<lambda>_ count. \<not> now - lastRequestTime count > WINDOW_SIZE * 2) st"

section \<open>The middleware\<close>

text \<open>\<open>iso_text\<close> prints a point in time (\<open>toISOString\<close>).\<close>

record rate_response =
  rr_status :: "nat option"
  rr_headers :: "(string \<times> string) list"
  rr_next :: bool
  rr_retryAfter :: "int option"

definition rate_headers :: "(int \<Rightarrow> string) \<Rightarrow> int \<Rightarrow> rate_result \<Rightarrow> (string \<times> string) list" where
  "rate_headers iso_text rateLimit result =
     [(''X-RateLimit-Limit'', int_str rateLimit),
      (''X-RateLimit-Remaining'', int_str (remaining result)),
      (''X-RateLimit-Reset'', iso_text (resetTime result))]"

definition rate_middleware ::
    "(int \<Rightarrow> string) \<Rightarrow> (string \<times> int) option \<Rightarrow> int \<Rightarrow> rate_state \<Rightarrow> rate_response \<times> rate_state" where
  "rate_middleware iso_text authContext now st =
     (case authContext of
        None \<Rightarrow> (\<lparr>rr_status = None, rr_headers = [], rr_next = True, rr_retryAfter = None\<rparr>, st)
      | Some (userId, rateLimit) \<Rightarrow>
          (let (result, st') = checkRateLimit userId rateLimit now st in
           if \<not> allowed result
           then (\<lparr>rr_status = Some 429,
                  rr_headers = rate_headers iso_text rateLimit result @
                    [(''Retry-After'', case retryAfter result of Some n \<Rightarrow> int_str n | None \<Rightarrow> ''60'')],
                  rr_next = False, rr_retryAfter = retryAfter result\<rparr>, st')
           else (\<lparr>rr_status = None, rr_headers = rate_headers iso_text rateLimit result,
                  rr_next = True, rr_retryAfter = None\<rparr>, st')))"

section \<open>Runs\<close>

text \<open>
  A run of the service with the log of admitted requests. Time does not go back; \<open>limit u\<close> is
  the request limit of user \<open>u\<close>.
\<close>

inductive rate_run ::
    "(string \<Rightarrow> int) \<Rightarrow> int \<Rightarrow> rate_state \<Rightarrow> (string \<times> int) list \<Rightarrow> bool" for limit where
  rate_start: "rate_run limit now [] []"
| rate_wait: "rate_run limit now st lg \<Longrightarrow> now \<le> now' \<Longrightarrow> rate_run limit now' st lg"
| rate_check: "rate_run limit now st lg \<Longrightarrow> checkRateLimit u (limit u) now st = (res, st') \<Longrightarrow>
    rate_run limit now st' (if allowed res then (u, now) # lg else lg)"
| rate_cleanup: "rate_run limit now st lg \<Longrightarrow> rate_run limit now (cleanupExpiredCounts now st) lg"

definition admitted_in :: "string \<Rightarrow> (int \<Rightarrow> bool) \<Rightarrow> (string \<times> int) list \<Rightarrow> nat" where
  "admitted_in u P lg = length (filter (\<lambda>(v, t). v = u \<and> P t) lg)"

lemma admitted_in_Cons:
  "admitted_in u P ((v, t) # lg) = admitted_in u P lg + (if v = u \<and> P t then 1 else 0)"
  by (simp add: admitted_in_def)

lemma admitted_in_mono:
  "(\<And>t. (u, t) \<in> set lg \<Longrightarrow> P t \<Longrightarrow> Q t) \<Longrightarrow> admitted_in u P lg \<le> admitted_in u Q lg"
  unfolding admitted_in_def by (induction lg) (auto split: prod.splits)

lemma admitted_in_split:
  "admitted_in u P lg = admitted_in u (\<lambda>t. P t \<and> t < w) lg + admitted_in u (\<lambda>t. P t \<and> w \<le> t) lg"
  unfolding admitted_in_def by (induction lg) auto

text \<open>
  What the counter of a user records of the log: the requests of the current window, its first one
  at the start of the window, and at most one less than the limit in the minute before the window.
\<close>

definition counter_ok :: "int \<Rightarrow> int \<Rightarrow> string \<Rightarrow> (string \<times> int) list \<Rightarrow> request_count \<Rightarrow> bool" where
  "counter_ok L now u lg c \<longleftrightarrow>
     windowStart c \<le> lastRequestTime c \<and> lastRequestTime c \<le> now \<and>
     lastRequestTime c < windowStart c + WINDOW_SIZE \<and>
     1 \<le> rc_count c \<and> rc_count c \<le> L \<and>
     (\<forall>t. (u, t) \<in> set lg \<longrightarrow> t \<le> lastRequestTime c) \<and>
     int (admitted_in u (\<lambda>t. windowStart c \<le> t) lg) \<le> rc_count c \<and>
     int (admitted_in u (\<lambda>t. windowStart c < t) lg) \<le> rc_count c - 1 \<and>
     int (admitted_in u (\<lambda>t. windowStart c - WINDOW_SIZE < t \<and> t < windowStart c) lg) \<le> L - 1"

definition user_ok :: "int \<Rightarrow> int \<Rightarrow> rate_state \<Rightarrow> (string \<times> int) list \<Rightarrow> string \<Rightarrow> bool" where
  "user_ok L now st lg u \<longleftrightarrow>
     (\<forall>s. int (admitted_in u (\<lambda>t. s \<le> t \<and> t < s + WINDOW_SIZE) lg) \<le> 2 * L - 1) \<and>
     (case map_of st u of
        None \<Rightarrow> (\<forall>t. (u, t) \<in> set lg \<longrightarrow> t \<le> now - WINDOW_SIZE)
      | Some c \<Rightarrow> counter_ok L now u lg c)"

lemma admitted_in_zero: "(\<And>t. (u, t) \<in> set lg \<Longrightarrow> \<not> P t) \<Longrightarrow> admitted_in u P lg = 0"
  by (auto simp: admitted_in_def filter_empty_conv)

text \<open>Opening a window: what was admitted in the minute before it is at most one below the limit.\<close>

lemma fresh_counter_ok:
  assumes "1 \<le> L" and "\<And>t. (u, t) \<in> set lg \<Longrightarrow> t < now"
    and "int (admitted_in u (\<lambda>t. now - WINDOW_SIZE < t) lg) \<le> L - 1"
  shows "counter_ok L now u ((u, now) # lg) \<lparr>rc_count = 1, windowStart = now, lastRequestTime = now\<rparr>"
proof -
  have "admitted_in u (\<lambda>t. now \<le> t) lg = 0" "admitted_in u (\<lambda>t. now < t) lg = 0"
    using assms(2) by (fastforce intro!: admitted_in_zero)+
  moreover have "admitted_in u (\<lambda>t. now - WINDOW_SIZE < t \<and> t < now) lg \<le>
      admitted_in u (\<lambda>t. now - WINDOW_SIZE < t) lg"
    by (rule admitted_in_mono) simp
  ultimately show ?thesis
    using assms by (auto simp: counter_ok_def admitted_in_Cons WINDOW_SIZE_def intro: less_imp_le)
qed

text \<open>Counting one more request in the current window.\<close>

lemma counter_ok_count:
  assumes "counter_ok L now u lg c" "rc_count c < L" "now - windowStart c < WINDOW_SIZE"
  shows "counter_ok L now u ((u, now) # lg) (c\<lparr>rc_count := rc_count c + 1, lastRequestTime := now\<rparr>)"
  using assms by (fastforce simp: counter_ok_def admitted_in_Cons)

text \<open>The bound on a minute, from what the counter knows once the request is in the log.\<close>

lemma minute_bound:
  assumes "counter_ok L now u ((u, now) # lg) c"
    and "\<And>s. int (admitted_in u (\<lambda>t. s \<le> t \<and> t < s + WINDOW_SIZE) lg) \<le> 2 * L - 1"
  shows "int (admitted_in u (\<lambda>t. s \<le> t \<and> t < s + WINDOW_SIZE) ((u, now) # lg)) \<le> 2 * L - 1"
proof (cases "s \<le> now \<and> now < s + WINDOW_SIZE")
  case False
  then show ?thesis using assms(2)[of s] by (auto simp: admitted_in_Cons)
next
  case True
  let ?l = "(u, now) # lg" and ?w = "windowStart c"
  have "?w \<le> now" using assms(1) by (simp add: counter_ok_def)
  then have "admitted_in u (\<lambda>t. (s \<le> t \<and> t < s + WINDOW_SIZE) \<and> t < ?w) ?l \<le>
      admitted_in u (\<lambda>t. ?w - WINDOW_SIZE < t \<and> t < ?w) ?l"
    using True by (intro admitted_in_mono) auto
  moreover have "admitted_in u (\<lambda>t. (s \<le> t \<and> t < s + WINDOW_SIZE) \<and> ?w \<le> t) ?l \<le>
      admitted_in u (\<lambda>t. ?w \<le> t) ?l"
    by (intro admitted_in_mono) auto
  ultimately show ?thesis
    using assms(1) admitted_in_split[of u "\<lambda>t. s \<le> t \<and> t < s + WINDOW_SIZE" ?l ?w]
    by (simp add: counter_ok_def)
qed

lemma user_ok_admit:
  assumes "user_ok L now st lg u" "counter_ok L now u ((u, now) # lg) c"
  shows "user_ok L now (AList.update u c st) ((u, now) # lg) u"
  using assms minute_bound[OF assms(2)] by (simp add: user_ok_def update_conv')

lemma user_ok_other:
  assumes "user_ok L now st lg v" "u \<noteq> v"
  shows "user_ok L now (AList.update u c st) ((u, t) # lg) v"
  using assms by (simp add: user_ok_def counter_ok_def admitted_in_Cons update_conv' split: option.splits)

lemma check_user_ok:
  assumes "\<And>v. user_ok (limit v) now st lg v" "1 \<le> limit u"
    and "checkRateLimit u (limit u) now st = (res, st')"
  shows "user_ok (limit v) now st' (if allowed res then (u, now) # lg else lg) v"
proof -
  let ?fresh = "\<lparr>rc_count = 1, windowStart = now, lastRequestTime = now\<rparr>"
  consider (open_window) "allowed res"
        "st' = AList.update u ?fresh st" "\<And>t. (u, t) \<in> set lg \<Longrightarrow> t < now"
        "int (admitted_in u (\<lambda>t. now - WINDOW_SIZE < t) lg) \<le> limit u - 1"
    | (reject) "\<not> allowed res" "st' = st"
    | (more) c where "map_of st u = Some c" "allowed res" "rc_count c < limit u"
        "now - windowStart c < WINDOW_SIZE"
        "st' = AList.update u (c\<lparr>rc_count := rc_count c + 1, lastRequestTime := now\<rparr>) st"
  proof (cases "map_of st u")
    case None
    have "\<And>t. (u, t) \<in> set lg \<Longrightarrow> t \<le> now - WINDOW_SIZE"
      using assms(1)[of u] None by (simp add: user_ok_def)
    then have "\<And>t. (u, t) \<in> set lg \<Longrightarrow> t < now" "admitted_in u (\<lambda>t. now - WINDOW_SIZE < t) lg = 0"
      by (fastforce simp: WINDOW_SIZE_def intro!: admitted_in_zero)+
    then show ?thesis
      using None assms(2,3) by (intro open_window) (auto simp: checkRateLimit_def Let_def)
  next
    case (Some c)
    then have ok: "counter_ok (limit u) now u lg c" using assms(1)[of u] by (simp add: user_ok_def)
    show ?thesis
    proof (cases "now - windowStart c \<ge> WINDOW_SIZE")
      case True
      have "admitted_in u (\<lambda>t. now - WINDOW_SIZE < t) lg \<le> admitted_in u (\<lambda>t. windowStart c < t) lg"
        using True by (intro admitted_in_mono) simp
      moreover have "\<And>t. (u, t) \<in> set lg \<Longrightarrow> t < now"
        using ok True by (fastforce simp: counter_ok_def)
      ultimately show ?thesis
        using Some True ok assms(3)
        by (intro open_window) (auto simp: checkRateLimit_def Let_def counter_ok_def)
    next
      case within: False
      show ?thesis
      proof (cases "rc_count c \<ge> limit u")
        case True
        then show ?thesis
          using Some within assms(3) by (intro reject) (auto simp: checkRateLimit_def Let_def)
      next
        case False
        then show ?thesis
          using Some within assms(3) by (intro more[of c]) (auto simp: checkRateLimit_def Let_def)
      qed
    qed
  qed
  then show ?thesis
  proof cases
    case open_window
    then show ?thesis
      using assms(1) fresh_counter_ok[OF assms(2) open_window(3,4)]
      by (cases "v = u") (auto intro: user_ok_admit user_ok_other)
  next
    case reject
    then show ?thesis using assms(1) by simp
  next
    case more
    then have "counter_ok (limit u) now u lg c" using assms(1)[of u] by (simp add: user_ok_def)
    then show ?thesis
      using more assms(1) counter_ok_count[OF _ more(3,4)]
      by (cases "v = u") (auto intro: user_ok_admit user_ok_other)
  qed
qed

lemma jsmap_rate_run: "rate_run limit now st lg \<Longrightarrow> jsmap_ok st"
  by (induction rule: rate_run.induct)
    (auto simp: checkRateLimit_def cleanupExpiredCounts_def Let_def jsmap.ok_put
      split: option.splits if_splits)

lemma rate_run_ok:
  assumes "rate_run limit now st lg" and "\<And>v. 1 \<le> limit v"
  shows "user_ok (limit v) now st lg v"
  using assms(1)
proof (induction arbitrary: v rule: rate_run.induct)
  case (rate_start now)
  then show ?case using assms(2)[of v] by (simp add: user_ok_def admitted_in_def)
next
  case (rate_wait now st lg now')
  then show ?case by (fastforce simp: user_ok_def counter_ok_def split: option.splits)
next
  case (rate_check now st lg u res st')
  then show ?case using check_user_ok[where limit = limit, OF rate_check.IH assms(2) rate_check.hyps(2)] by simp
next
  case (rate_cleanup now st lg)
  then show ?case
    using rate_cleanup.IH[of v] jsmap_rate_run[OF rate_cleanup.hyps]
    by (fastforce simp: user_ok_def counter_ok_def cleanupExpiredCounts_def map_of_keep WINDOW_SIZE_def
        split: option.splits)
qed

text \<open>
  C30: the rate of admitted requests. In every run of the service, with its periodic cleanup, a
  user with a limit of \<open>L\<close> requests per minute has at most \<open>2 * L - 1\<close> requests admitted
  within any period of one minute, wherever it starts.
\<close>

theorem rate_limit_bound:
  assumes "rate_run limit now st lg" and "\<And>v. 1 \<le> limit v"
  shows "int (length (filter (\<lambda>(v, t). v = u \<and> s \<le> t \<and> t < s + 60000) lg)) \<le> 2 * limit u - 1"
  using rate_run_ok[OF assms, of u] by (simp add: user_ok_def admitted_in_def WINDOW_SIZE_def)

text \<open>A user who asks again within the window is counted until the limit is reached.\<close>

lemma rate_run_repeat:
  assumes "rate_run (\<lambda>_. L) now [(u, c)] lg" "now - windowStart c < WINDOW_SIZE"
    and "rc_count c + int n \<le> L"
  shows "\<exists>c'. rate_run (\<lambda>_. L) now [(u, c')] (replicate n (u, now) @ lg) \<and>
    windowStart c' = windowStart c \<and> rc_count c' = rc_count c + int n"
  using assms(3)
proof (induction n)
  case 0
  then show ?case using assms(1) by auto
next
  case (Suc n)
  then obtain c' where run: "rate_run (\<lambda>_. L) now [(u, c')] (replicate n (u, now) @ lg)"
    and c': "windowStart c' = windowStart c" "rc_count c' = rc_count c + int n" by auto
  let ?c = "c'\<lparr>rc_count := rc_count c' + 1, lastRequestTime := now\<rparr>"
  obtain res where "checkRateLimit u L now [(u, c')] = (res, [(u, ?c)])" "allowed res"
    using c' assms(2) Suc.prems by (auto simp: checkRateLimit_def Let_def)
  with rate_check[OF run, of u res "[(u, ?c)]"] show ?case using c' by auto
qed

text \<open>
  The bound is reached. For every limit \<open>L\<close> there is a run in which \<open>2 * L - 1\<close> requests
  of one user are admitted within one minute, almost twice the limit: the window is fixed by its
  first request and does not slide.
\<close>

theorem rate_limit_burst:
  assumes "1 \<le> L"
  shows "\<exists>now st lg s. rate_run (\<lambda>_. int L) now st lg \<and>
    length (filter (\<lambda>(v, t). v = u \<and> s \<le> t \<and> t < s + 60000) lg) = 2 * L - 1"
proof -
  let ?f = "\<lambda>t. \<lparr>rc_count = 1, windowStart = t, lastRequestTime = t\<rparr>" and ?R = "rate_run (\<lambda>_. int L)"
  have open_: "?R now [(u, ?f now)] ((u, now) # lg)"
    if run: "?R now st lg" and st: "st = [] \<or> (\<exists>c. st = [(u, c)] \<and> now - windowStart c \<ge> WINDOW_SIZE)"
    for now st lg
  proof -
    obtain res where "checkRateLimit u (int L) now st = (res, [(u, ?f now)])" "allowed res"
      using st by (auto simp: checkRateLimit_def Let_def)
    with rate_check[OF run, of u res "[(u, ?f now)]"] show ?thesis by simp
  qed
  have "?R 59999 [(u, ?f 0)] [(u, 0)]"
    by (rule rate_wait[OF open_[OF rate_start]]) simp_all
  then obtain c where c: "?R 59999 [(u, c)] (replicate (L - 1) (u, 59999) @ [(u, 0)])" "windowStart c = 0"
    using rate_run_repeat[of "int L" 59999 u "?f 0" "[(u, 0)]" "L - 1"] assms
    by (auto simp: WINDOW_SIZE_def)
  have "?R 60000 [(u, ?f 60000)] ((u, 60000) # replicate (L - 1) (u, 59999) @ [(u, 0)])"
    using c(2) by (intro open_[OF rate_wait[OF c(1)]]) (auto simp: WINDOW_SIZE_def)
  then obtain c' where "?R 60000 [(u, c')]
      (replicate (L - 1) (u, 60000) @ (u, 60000) # replicate (L - 1) (u, 59999) @ [(u, 0)])"
    using rate_run_repeat[of "int L" 60000 u "?f 60000" _ "L - 1"] assms
    by (auto simp: WINDOW_SIZE_def)
  moreover have "length (filter (\<lambda>(v, t). v = u \<and> 59999 \<le> t \<and> t < 59999 + (60000 :: int))
      (replicate (L - 1) (u, 60000) @ (u, 60000) # replicate (L - 1) (u, 59999) @ [(u, 0)])) = 2 * L - 1"
    using assms by simp
  ultimately show ?thesis by blast
qed

theorem rate_limit_burst_witness:
  "\<exists>now st lg s. rate_run (\<lambda>_. 10) now st lg \<and>
    length (filter (\<lambda>(v, t). v = ''alice'' \<and> s \<le> t \<and> t < s + 60000) lg) = 19"
  using rate_limit_burst[of 10 "''alice''"] by simp

theorem rate_limit_bound_witness:
  "\<exists>now st lg. rate_run (\<lambda>_. 2) now st lg \<and> lg = [(''alice'', 5)] \<and>
     int (length (filter (\<lambda>(v, t). v = ''alice'' \<and> 0 \<le> t \<and> t < 0 + 60000) lg)) \<le> 2 * 2 - 1"
proof -
  obtain res st where c: "checkRateLimit ''alice'' 2 5 [] = (res, st)" "allowed res"
    by (simp add: checkRateLimit_def Let_def)
  have run: "rate_run (\<lambda>_. 2) 5 st [(''alice'', 5)]"
    using rate_check[OF rate_start, where u = "''alice''" and limit = "\<lambda>_. 2" and now = 5] c by auto
  with rate_limit_bound[OF run, of "''alice''" 0] show ?thesis by auto
qed

text \<open>
  A rejection tells when to come back. A rejected check leaves the counters unchanged and
  reports a wait of 1 to 60 seconds; until the reported reset time the user stays rejected, and
  a client that waits the reported number of seconds, or longer, is admitted.
\<close>

theorem rate_limit_retry:
  assumes "rate_run limit now st lg" and "\<And>v. 1 \<le> limit v"
    and "checkRateLimit u (limit u) now st = (res, st')" and "\<not> allowed res"
  shows "st' = st \<and> (\<exists>n. retryAfter res = Some n \<and> 1 \<le> n \<and> n \<le> 60 \<and>
    (\<forall>t. now \<le> t \<and> t < resetTime res \<longrightarrow> \<not> allowed (fst (checkRateLimit u (limit u) t st'))) \<and>
    (\<forall>t. now + n * 1000 \<le> t \<longrightarrow> allowed (fst (checkRateLimit u (limit u) t st'))))"
proof -
  obtain c where c: "map_of st u = Some c" "now - windowStart c < WINDOW_SIZE" "limit u \<le> rc_count c"
    "st' = st" "resetTime res = windowStart c + WINDOW_SIZE"
    "retryAfter res = Some \<lceil>of_int (windowStart c + WINDOW_SIZE - now) / (1000 :: rat)\<rceil>"
    using assms(3,4) by (auto simp: checkRateLimit_def Let_def split: option.splits if_splits)
  have w: "windowStart c \<le> now"
    using rate_run_ok[OF assms(1,2), of u] c(1) by (simp add: user_ok_def counter_ok_def)
  let ?n = "\<lceil>of_int (windowStart c + WINDOW_SIZE - now) / (1000 :: rat)\<rceil>"
  have n: "1 \<le> ?n" "?n \<le> 60"
    using c(2) w by (simp_all add: ceiling_le_iff less_ceiling_iff one_le_ceiling WINDOW_SIZE_def)
  have wait: "x \<le> \<lceil>of_int x / (1000 :: rat)\<rceil> * 1000" for x :: int
  proof -
    have "of_int x \<le> (of_int \<lceil>of_int x / (1000 :: rat)\<rceil> * 1000 :: rat)"
      using le_of_int_ceiling[of "of_int x / (1000 :: rat)"] by linarith
    then have "of_int x \<le> (of_int (\<lceil>of_int x / (1000 :: rat)\<rceil> * 1000) :: rat)" by simp
    then show ?thesis by (simp only: of_int_le_iff)
  qed
  have "allowed (fst (checkRateLimit u (limit u) t st)) \<longleftrightarrow> t \<ge> windowStart c + WINDOW_SIZE" for t
    using c(1,3) by (auto simp: checkRateLimit_def Let_def)
  then show ?thesis using c n wait[of "windowStart c + WINDOW_SIZE - now"] by auto
qed

theorem rate_limit_retry_witness:
  "\<exists>st res. checkRateLimit ''alice'' 1 5 st = (res, st) \<and> \<not> allowed res \<and> retryAfter res = Some 60 \<and>
     allowed (fst (checkRateLimit ''alice'' 1 60005 st))"
proof -
  obtain r1 st where c: "checkRateLimit ''alice'' 1 5 [] = (r1, st)" "allowed r1"
    "st = [(''alice'', \<lparr>rc_count = 1, windowStart = 5, lastRequestTime = 5\<rparr>)]"
    by (simp add: checkRateLimit_def Let_def)
  have run: "rate_run (\<lambda>_. 1) 5 st [(''alice'', 5)]"
    using rate_check[OF rate_start, where u = "''alice''" and limit = "\<lambda>_. 1" and now = 5] c by auto
  obtain res st' where d: "checkRateLimit ''alice'' 1 5 st = (res, st')" by fastforce
  then have "\<not> allowed res" "retryAfter res = Some 60"
    using c by (auto simp: checkRateLimit_def Let_def WINDOW_SIZE_def)
  with rate_limit_retry[OF run _ d] d show ?thesis by auto
qed

end
