(* ===== verification/Ip_Whitelist.thy ===== *)
theory Ip_Whitelist
  imports Peta_Prelude "HOL-Library.Word"
begin

unbundle bit_operations_syntax

text \<open>
  The IP whitelist: matching and cached loading (\<open>src/security/IpWhitelistService.ts\<close>), the
  table (\<open>src/repositories/IpWhitelistRepository.ts\<close>), the request filter
  (\<open>src/middleware/IpWhitelistMiddleware.ts\<close>) and the admin operations
  (\<open>src/controllers/handlers/IpWhitelistHandler.ts\<close>). Addresses are 32-bit words, as the
  shifts and masks of the code compute them. The results: CIDR matching is agreement of the
  network prefix, format validation accepts exactly the canonical notations, and after every admin
  operation the filter decides by the rows of the table.
\<close>

section \<open>Addresses\<close>

definition allow_all :: string where
  "allow_all = ''0.0.0.0/0''"

definition normalizeIp :: "string \<Rightarrow> string" where
  "normalizeIp ip =
     (if js_startsWith ip ''::ffff:'' then drop 7 ip
      else if ip = ''::1'' then ''127.0.0.1''
      else ip)"

text \<open>
  The loop of \<open>ipToNumber\<close>: one octet per part; \<open>None\<close> is the thrown error. The result is an
  unsigned 32-bit number; the signed intermediate values of the code are the same words.
\<close>

fun octets_number :: "string list \<Rightarrow> 32 word \<Rightarrow> 32 word option" where
  "octets_number [] result = Some result"
| "octets_number (part # parts) result =
     (case js_parseInt part of
        None \<Rightarrow> None
      | Some num \<Rightarrow>
          if num < 0 \<or> num > 255 then None
          else octets_number parts (push_bit 8 result + word_of_int num))"

definition ipToNumber :: "string \<Rightarrow> 32 word option" where
  "ipToNumber ip =
     (let parts = js_split CHR ''.'' ip
      in if length parts \<noteq> 4 then None else octets_number parts 0)"

text \<open>
  \<open>(0xffffffff << (32 - bitsNum)) >>> 0\<close>. A shift uses the low five bits of its count, and
  \<open>NaN\<close> (here \<open>None\<close>) counts as 0.
\<close>

definition cidr_mask :: "int option \<Rightarrow> 32 word" where
  "cidr_mask bitsNum =
     push_bit (case bitsNum of None \<Rightarrow> 0 | Some n \<Rightarrow> nat ((32 - n) mod 32)) (0xffffffff :: 32 word)"

definition isIpMatch :: "string \<Rightarrow> string \<Rightarrow> bool" where
  "isIpMatch ip pattern =
     (let normalizedIp = normalizeIp ip in
      if \<not> js_includes pattern ''/'' then normalizedIp = pattern
      else
        let parts = js_split CHR ''/'' pattern;
            network = parts ! 0;
            bitsNum = js_parseInt (parts ! 1)
        in if bitsNum = Some 0 then True
           else
             let mask = cidr_mask bitsNum
             in case (ipToNumber normalizedIp, ipToNumber network) of
                  (Some ipNum, Some networkNum) \<Rightarrow> ipNum AND mask = networkNum AND mask
                | _ \<Rightarrow> False)"

definition valid_octet :: "string \<Rightarrow> bool" where
  "valid_octet part =
     (case js_parseInt part of
        None \<Rightarrow> False
      | Some num \<Rightarrow> \<not> (num < 0 \<or> num > 255 \<or> part \<noteq> int_str num))"

definition isValidIp :: "string \<Rightarrow> bool" where
  "isValidIp ip =
     (let parts = js_split CHR ''.'' ip
      in length parts = 4 \<and> list_all valid_octet parts)"

definition isValidIpOrCidr :: "string \<Rightarrow> bool" where
  "isValidIpOrCidr entry =
     (if entry = allow_all then True
      else if js_includes entry ''/''
      then (let parts = js_split CHR ''/'' entry
            in case js_parseInt (parts ! 1) of
                 None \<Rightarrow> False
               | Some bitsNum \<Rightarrow>
                   if bitsNum < 0 \<or> bitsNum > 32 then False else isValidIp (parts ! 0))
      else isValidIp entry)"

section \<open>The table\<close>

record ip_row =
  row_id :: int
  row_ip :: string
  row_addtime :: int

text \<open>The rows, oldest first, and the next value of the identifier sequence.\<close>

record ip_db =
  db_rows :: "ip_row list"
  db_next :: int

definition ip_findAll :: "ip_db \<Rightarrow> ip_row list" where
  "ip_findAll d = sort_key row_id (db_rows d)"

definition findByIp :: "string \<Rightarrow> ip_db \<Rightarrow> ip_row option" where
  "findByIp ip d = find (\<lambda>r. row_ip r = ip) (db_rows d)"

definition ip_create :: "string \<Rightarrow> int \<Rightarrow> ip_db \<Rightarrow> ip_db" where
  "ip_create ip addtime d =
     d\<lparr>db_rows := db_rows d @ [\<lparr>row_id = db_next d, row_ip = ip, row_addtime = addtime\<rparr>],
       db_next := db_next d + 1\<rparr>"

text \<open>\<open>createMany\<close>: the identifiers are consecutive.\<close>

definition ip_createMany :: "string list \<Rightarrow> int \<Rightarrow> ip_db \<Rightarrow> ip_db" where
  "ip_createMany ips addtime d = fold (\<lambda>ip. ip_create ip addtime) ips d"

definition ip_deleteWhere :: "(ip_row \<Rightarrow> bool) \<Rightarrow> ip_db \<Rightarrow> ip_db" where
  "ip_deleteWhere P d = d\<lparr>db_rows := filter (\<lambda>r. \<not> P r) (db_rows d)\<rparr>"

definition ip_deleteByIds :: "int list \<Rightarrow> ip_db \<Rightarrow> nat \<times> ip_db" where
  "ip_deleteByIds ids d =
     (length (filter (\<lambda>r. row_id r \<in> set ids) (db_rows d)), ip_deleteWhere (\<lambda>r. row_id r \<in> set ids) d)"

definition ip_replaceAll :: "string list \<Rightarrow> int \<Rightarrow> ip_db \<Rightarrow> nat \<times> ip_db" where
  "ip_replaceAll ips now d =
     (let d1 = ip_deleteWhere (\<lambda>_. True) d
      in if ips = [] then (0, d1) else (length ips, ip_createMany ips (now div 1000) d1))"

section \<open>The service\<close>

record wl_service =
  whitelist :: "string list"
  lastCacheUpdate :: int
  wl_initialized :: bool

definition cacheExpiry :: int where
  "cacheExpiry = 15 * 60 * 1000"

definition wl_start :: wl_service where
  "wl_start = \<lparr>whitelist = [allow_all], lastCacheUpdate = 0, wl_initialized = False\<rparr>"

text \<open>A query of the database either fails (\<open>None\<close>) or returns its rows.\<close>

definition loadFromDatabase :: "ip_db option \<Rightarrow> int \<Rightarrow> wl_service \<Rightarrow> wl_service option" where
  "loadFromDatabase d now st =
     (case d of
        None \<Rightarrow> None
      | Some d \<Rightarrow>
          (let records = ip_findAll d
           in Some (st\<lparr>whitelist := (if records = [] then [allow_all] else map row_ip records),
                       lastCacheUpdate := now\<rparr>)))"

definition wl_initialize :: "ip_db option \<Rightarrow> int \<Rightarrow> wl_service \<Rightarrow> wl_service" where
  "wl_initialize d now st =
     (if wl_initialized st then st
      else case loadFromDatabase d now st of
          Some st' \<Rightarrow> st'\<lparr>wl_initialized := True\<rparr>
        | None \<Rightarrow> st\<lparr>whitelist := [allow_all]\<rparr>)"

definition getIpWhitelist :: "ip_db option \<Rightarrow> int \<Rightarrow> wl_service \<Rightarrow> string list \<times> wl_service" where
  "getIpWhitelist d now st =
     (let st' = (if now - lastCacheUpdate st > cacheExpiry
                 then (case loadFromDatabase d now st of Some s \<Rightarrow> s | None \<Rightarrow> st)
                 else st)
      in (whitelist st', st'))"

definition reloadFromDatabase ::
    "ip_db option \<Rightarrow> int \<Rightarrow> wl_service \<Rightarrow> (string list \<times> wl_service) option" where
  "reloadFromDatabase d now st =
     map_option (\<lambda>st'. (whitelist st', st')) (loadFromDatabase d now st)"

definition isIpAllowed :: "ip_db option \<Rightarrow> string \<Rightarrow> int \<Rightarrow> wl_service \<Rightarrow> bool \<times> wl_service" where
  "isIpAllowed d clientIp now st =
     (let (wl, st') = getIpWhitelist d now st
      in (if allow_all \<in> set wl then True else list_ex (isIpMatch clientIp) wl, st'))"

definition wl_clearCache :: "wl_service \<Rightarrow> wl_service" where
  "wl_clearCache st = st\<lparr>lastCacheUpdate := 0\<rparr>"

definition wl_getStatus :: "wl_service \<Rightarrow> string list \<times> bool" where
  "wl_getStatus st = (whitelist st, allow_all \<notin> set (whitelist st))"

section \<open>The request filter\<close>

definition isValidIpv4 :: "string \<Rightarrow> bool" where
  "isValidIpv4 ip =
     (let parts = js_split CHR ''.'' ip
      in length parts = 4 \<and>
         list_all (\<lambda>part. case js_parseInt part of
            None \<Rightarrow> False | Some num \<Rightarrow> \<not> (num < 0 \<or> num > 255)) parts)"

definition after_last_colon :: "string \<Rightarrow> string" where
  "after_last_colon ip = rev (takeWhile (\<lambda>c. c \<noteq> CHR '':'') (rev ip))"

definition mw_normalizeIp :: "string \<Rightarrow> string" where
  "mw_normalizeIp ip =
     (if js_startsWith ip ''::ffff:'' then drop 7 ip
      else if ip = ''::1'' then ''127.0.0.1''
      else if js_includes ip '':'' \<and> js_includes ip ''.''
      then (let possibleIpv4 = after_last_colon ip
            in if isValidIpv4 possibleIpv4 then possibleIpv4 else ip)
      else ip)"

text \<open>A header is absent, a string, or a list of strings; reading item 0 of an empty list fails.\<close>

datatype header = HText string | HList "string list"

definition header_present :: "header option \<Rightarrow> bool" where
  "header_present h = (case h of None \<Rightarrow> False | Some (HText s) \<Rightarrow> s \<noteq> [] | Some (HList _) \<Rightarrow> True)"

definition header_text :: "header option \<Rightarrow> string option" where
  "header_text h =
     (case h of None \<Rightarrow> None | Some (HText s) \<Rightarrow> Some s
      | Some (HList []) \<Rightarrow> None | Some (HList (s # _)) \<Rightarrow> Some s)"

record http_request =
  forwardedFor :: "header option"
  realIp :: "header option"
  cfIp :: "header option"
  socketIp :: string
  req_path :: string

definition getClientIp :: "http_request \<Rightarrow> string option" where
  "getClientIp req =
     (if header_present (forwardedFor req)
      then map_option (\<lambda>s. mw_normalizeIp (js_trim (js_split CHR '','' s ! 0))) (header_text (forwardedFor req))
      else if header_present (realIp req) then map_option mw_normalizeIp (header_text (realIp req))
      else if header_present (cfIp req) then map_option mw_normalizeIp (header_text (cfIp req))
      else Some (mw_normalizeIp (socketIp req)))"

datatype filter_outcome = Passed | Denied nat string

definition checkIpWhitelist ::
    "ip_db option \<Rightarrow> http_request \<Rightarrow> int \<Rightarrow> wl_service \<Rightarrow> filter_outcome \<times> wl_service" where
  "checkIpWhitelist d req now st =
     (case getClientIp req of
        None \<Rightarrow> (Passed, st)
      | Some clientIp \<Rightarrow>
          (let (isAllowed, st') = isIpAllowed d clientIp now st
           in if \<not> isAllowed
              then (Denied 403 (''Access denied: IP '' @ clientIp @ '' not in whitelist''), st')
              else (Passed, st')))"

definition needsCheck :: "string list \<Rightarrow> string \<Rightarrow> bool" where
  "needsCheck paths reqPath =
     list_ex (\<lambda>path. if js_endsWith path ''*'' then js_startsWith reqPath (butlast path) else reqPath = path) paths"

definition pathSpecificMiddleware ::
    "string list \<Rightarrow> ip_db option \<Rightarrow> http_request \<Rightarrow> int \<Rightarrow> wl_service \<Rightarrow> filter_outcome \<times> wl_service" where
  "pathSpecificMiddleware paths d req now st =
     (if needsCheck paths (req_path req) then checkIpWhitelist d req now st else (Passed, st))"

section \<open>Admin operations\<close>

datatype ip_admin_error = InvalidRequest string | InvalidIpFormat string

type_synonym ip_system = "ip_db \<times> wl_service"

text \<open>
  The operations run with a working database; the argument of type \<open>string list option\<close> is
  \<open>None\<close> when the request holds no array. The service reloads after every change.
\<close>

definition ip_reload :: "ip_db \<Rightarrow> int \<Rightarrow> wl_service \<Rightarrow> wl_service" where
  "ip_reload d now st = (case reloadFromDatabase (Some d) now st of Some (_, st') \<Rightarrow> st' | None \<Rightarrow> st)"

definition handleUpdateIpWhitelist ::
    "string list option \<Rightarrow> int \<Rightarrow> ip_system \<Rightarrow> (ip_admin_error + string list) \<times> ip_system" where
  "handleUpdateIpWhitelist wl now s =
     (case (wl, s) of
        (None, _) \<Rightarrow> (Inl (InvalidRequest ''Invalid whitelist format''), s)
      | (Some ips, (d, st)) \<Rightarrow>
          (let timestamp = now div 1000;
               d1 = ip_deleteWhere (\<lambda>_. True) d;
               d2 = (if ips = [] then d1 else ip_createMany ips timestamp d1);
               st' = ip_reload d2 now st
           in (Inr (whitelist st'), (d2, st'))))"

definition handleGetIpWhitelist :: "ip_db \<Rightarrow> string list \<times> nat" where
  "handleGetIpWhitelist d =
     (let records = ip_findAll d;
          wl = map row_ip records;
          res = (if wl = [] then [allow_all]
                 else if filter (\<lambda>r. row_ip r \<noteq> allow_all) records \<noteq> [] then [allow_all]
                 else wl)
      in (res, length res))"

definition handleDeleteIpWhitelist ::
    "string list option \<Rightarrow> int \<Rightarrow> ip_system \<Rightarrow> (ip_admin_error + nat) \<times> ip_system" where
  "handleDeleteIpWhitelist ips now s =
     (case (ips, s) of
        (None, _) \<Rightarrow> (Inl (InvalidRequest ''Invalid ips array''), s)
      | (Some is, (d, st)) \<Rightarrow>
          if is = [] then (Inl (InvalidRequest ''Invalid ips array''), s)
          else
            (let records = filter (\<lambda>r. row_ip r \<in> set is) (db_rows d)
             in if records = [] then (Inr 0, s)
                else (let d' = snd (ip_deleteByIds (map row_id records) d)
                      in (Inr (length records), (d', ip_reload d' now st)))))"

definition handleAddIpWhitelist ::
    "string list option \<Rightarrow> int \<Rightarrow> ip_system \<Rightarrow> (ip_admin_error + (int list \<times> nat \<times> nat)) \<times> ip_system" where
  "handleAddIpWhitelist ips now s =
     (case (ips, s) of
        (None, _) \<Rightarrow> (Inl (InvalidRequest ''Invalid ips array''), s)
      | (Some is, (d, st)) \<Rightarrow>
          if is = [] then (Inl (InvalidRequest ''Invalid ips array''), s)
          else case find (\<lambda>ip. \<not> isValidIpOrCidr ip) is of
              Some ip \<Rightarrow> (Inl (InvalidIpFormat (''Invalid IP/CIDR format: '' @ ip)), s)
            | None \<Rightarrow>
                (let existingIps = map row_ip (filter (\<lambda>r. row_ip r \<in> set is) (db_rows d));
                     newIps = filter (\<lambda>ip. ip \<notin> set existingIps) is;
                     d' = (if newIps \<noteq> [] then ip_createMany newIps (now div 1000) d else d);
                     addedIds = (if newIps \<noteq> []
                       then map row_id (filter (\<lambda>r. row_ip r \<in> set newIps) (db_rows d')) else [])
                 in (Inr (addedIds, length newIps, length is - length newIps),
                     (d', ip_reload d' now st))))"

definition handleSpecialIpWhitelistOperation ::
    "string \<Rightarrow> int \<Rightarrow> ip_system \<Rightarrow> (ip_admin_error + unit) \<times> ip_system" where
  "handleSpecialIpWhitelistOperation operation now s =
     (let (d, st) = s in
      if operation \<noteq> ''allow-all'' \<and> operation \<noteq> ''deny-all''
      then (Inl (InvalidRequest ''Invalid operation. Must be \"allow-all\" or \"deny-all\"''), s)
      else
        (let d' = (if operation = ''allow-all''
               then (case findByIp allow_all d of
                       None \<Rightarrow> ip_create allow_all (now div 1000) d
                     | Some _ \<Rightarrow> d)
               else if filter (\<lambda>r. row_ip r \<noteq> allow_all) (db_rows d) \<noteq> []
               then ip_deleteWhere (\<lambda>r. row_ip r = allow_all) d
               else d)
         in (Inr (), (d', ip_reload d' now st))))"

section \<open>Notation of addresses\<close>

definition quad :: "nat list \<Rightarrow> string" where
  "quad ns = js_join ''.'' (map nat_str ns)"

definition is_octets :: "nat list \<Rightarrow> bool" where
  "is_octets ns \<longleftrightarrow> length ns = 4 \<and> (\<forall>n\<in>set ns. n < 256)"

definition addr :: "nat list \<Rightarrow> nat" where
  "addr ns = fold (\<lambda>n acc. 256 * acc + n) ns 0"

lemma digit_char_code: "c \<in> set (nat_str n) \<Longrightarrow> 48 \<le> (of_char c :: nat) \<and> (of_char c :: nat) \<le> 57"
  using nat_str_digits of_char_digit_char by fastforce

lemma nat_str_no_char:
  "(of_char c :: nat) < 48 \<or> 57 < (of_char c :: nat) \<Longrightarrow> c \<notin> set (nat_str n)"
  using digit_char_code[of c n] by auto

lemma nat_str_no_dot [simp]: "CHR ''.'' \<notin> set (nat_str n)" "CHR ''/'' \<notin> set (nat_str n)"
  by (rule nat_str_no_char, simp)+

lemma parseInt_nat_str [simp]: "js_parseInt (nat_str n) = Some (int n)"
proof -
  obtain c cs where s: "nat_str n = c # cs" by (cases "nat_str n") auto
  have c: "48 \<le> (of_char c :: nat)" "(of_char c :: nat) \<le> 57" using digit_char_code[of c n] s by auto
  have x: "CHR ''x'' \<notin> set (nat_str n)" "CHR ''X'' \<notin> set (nat_str n)"
    by (rule nat_str_no_char, simp)+
  have ne: "c \<noteq> CHR ''-''" "c \<noteq> CHR ''+''" using c by auto
  have "\<not> js_space c" using c by (auto simp: js_space_def)
  then have trim: "js_trimStart (nat_str n) = nat_str n" by (simp add: js_trimStart_def s)
  have hex: "\<not> prefix ''0x'' (nat_str n)" "\<not> prefix ''0X'' (nat_str n)"
    using x by (auto simp: prefix_def)
  have neg: "(case nat_str n of c # _ \<Rightarrow> c = CHR ''-'' | [] \<Rightarrow> False) = False"
    and sgn: "(case nat_str n of c # r \<Rightarrow> if c = CHR ''-'' \<or> c = CHR ''+'' then r else nat_str n | [] \<Rightarrow> []) = nat_str n"
    using ne by (simp_all add: s)
  show ?thesis
    unfolding js_parseInt_def trim Let_def neg sgn
    by (simp add: hex takeWhile_all_digits digits_value_nat_str)
qed

lemma int_str_of_nat [simp]: "int_str (int n) = nat_str n"
  by (simp add: int_str_def)

lemma valid_octet_iff: "valid_octet part \<longleftrightarrow> (\<exists>n<256. part = nat_str n)"
proof
  assume v: "valid_octet part"
  then obtain num where "js_parseInt part = Some num" "0 \<le> num" "num \<le> 255" "part = int_str num"
    by (auto simp: valid_octet_def split: option.splits)
  then show "\<exists>n<256. part = nat_str n"
    by (intro exI[of _ "nat num"]) (simp add: int_str_def)
qed (auto simp: valid_octet_def)

lemma js_split_quad: "ns \<noteq> [] \<Longrightarrow> js_split CHR ''.'' (quad ns) = map nat_str ns"
  unfolding quad_def by (rule js_split_join) auto

lemma is_octets_nonempty: "is_octets ns \<Longrightarrow> ns \<noteq> []"
  by (auto simp: is_octets_def)

lemma isValidIp_iff: "isValidIp ip \<longleftrightarrow> (\<exists>ns. is_octets ns \<and> ip = quad ns)"
proof
  assume v: "isValidIp ip"
  let ?ps = "js_split CHR ''.'' ip"
  have "\<forall>p\<in>set ?ps. \<exists>n<256. p = nat_str n" and len: "length ?ps = 4"
    using v by (auto simp: isValidIp_def Let_def list_all_iff valid_octet_iff)
  then obtain f where f: "\<forall>p\<in>set ?ps. f p < 256 \<and> p = nat_str (f p)" by metis
  then have "map nat_str (map f ?ps) = ?ps" by (simp add: map_idI)
  then have "quad (map f ?ps) = ip" using js_join_split[of "CHR ''.''" ip] by (simp add: quad_def)
  with f len show "\<exists>ns. is_octets ns \<and> ip = quad ns"
    by (intro exI[of _ "map f ?ps"]) (auto simp: is_octets_def)
next
  assume "\<exists>ns. is_octets ns \<and> ip = quad ns"
  then show "isValidIp ip"
    by (auto simp: isValidIp_def Let_def js_split_quad is_octets_nonempty list_all_iff valid_octet_iff)
      (auto simp: is_octets_def)
qed

lemma octets_number_nat:
  "(\<forall>n\<in>set ns. n < 256) \<Longrightarrow>
   octets_number (map nat_str ns) (of_nat a) = Some (of_nat (fold (\<lambda>n acc. 256 * acc + n) ns a))"
proof (induction ns arbitrary: a)
  case (Cons n ns)
  have "push_bit 8 (of_nat a) + word_of_int (int n) = (of_nat (256 * a + n) :: 32 word)"
    by (simp add: push_bit_eq_mult)
  then have "octets_number (map nat_str (n # ns)) (of_nat a) =
      octets_number (map nat_str ns) (of_nat (256 * a + n))"
    using Cons.prems by simp
  then show ?case using Cons.IH[of "256 * a + n"] Cons.prems by simp
qed simp

lemma ipToNumber_quad: "is_octets ns \<Longrightarrow> ipToNumber (quad ns) = Some (of_nat (addr ns))"
  using octets_number_nat[of ns 0]
  by (simp add: ipToNumber_def Let_def js_split_quad is_octets_nonempty is_octets_def addr_def)

lemma addr_bound:
  assumes "is_octets ns"
  shows "addr ns < 2 ^ 32"
proof -
  obtain a b c d where ns: "ns = [a, b, c, d]"
    using assms by (auto simp: is_octets_def length_Suc_conv eval_nat_numeral)
  then show ?thesis using assms by (simp add: is_octets_def addr_def)
qed

lemma masked_eq_iff:
  fixes x y :: "32 word"
  assumes "k < 32"
  shows "x AND push_bit k (- 1) = y AND push_bit k (- 1) \<longleftrightarrow> drop_bit k x = drop_bit k y"
proof
  assume e: "x AND push_bit k (- 1) = y AND push_bit k (- 1)"
  show "drop_bit k x = drop_bit k y"
  proof (rule bit_word_eqI)
    fix n assume "n < LENGTH(32)"
    have "bit (x AND push_bit k (- 1)) (k + n) = bit (y AND push_bit k (- 1)) (k + n)" by (simp only: e)
    then show "bit (drop_bit k x) n = bit (drop_bit k y) n"
      using bit_imp_le_length[of x "k + n"] bit_imp_le_length[of y "k + n"]
      by (auto simp: bit_simps)
  qed
next
  assume d: "drop_bit k x = drop_bit k y"
  show "x AND push_bit k (- 1) = y AND push_bit k (- 1)"
  proof (rule bit_word_eqI)
    fix n assume n: "n < LENGTH(32)"
    have "k \<le> n \<Longrightarrow> bit x n = bit y n"
      using d bit_drop_bit_eq[of k x] bit_drop_bit_eq[of k y] by (metis le_add_diff_inverse comp_apply)
    then show "bit (x AND push_bit k (- 1)) n = bit (y AND push_bit k (- 1)) n"
      using n by (auto simp: bit_simps)
  qed
qed

lemma prefix_eq_iff:
  assumes "a < 2 ^ 32" "b < 2 ^ 32"
  shows "drop_bit k (of_nat a :: 32 word) = drop_bit k (of_nat b) \<longleftrightarrow> a div 2 ^ k = b div 2 ^ k"
proof -
  have u: "unat (drop_bit k (of_nat x :: 32 word)) = x div 2 ^ k" if "x < 2 ^ 32" for x
    using that by (simp only: unat_drop_bit_eq) (simp add: drop_bit_eq_div unat_of_nat)
  show ?thesis using u[OF assms(1)] u[OF assms(2)] by (metis word_unat_eq_iff)
qed

lemma cidr_mask_prefix:
  assumes "1 \<le> n" "n \<le> 32"
  shows "cidr_mask (Some (int n)) = push_bit (32 - n) (- 1)"
proof -
  have "(32 - int n) mod 32 = 32 - int n" using assms by (intro mod_pos_pos_trivial) auto
  moreover have "nat (32 - int n) = 32 - n" by simp
  moreover have "(0xffffffff :: 32 word) = - 1" by simp
  ultimately show ?thesis unfolding cidr_mask_def by (simp only: option.case)
qed

lemma js_join_no_char: "c \<notin> set sep \<Longrightarrow> \<forall>x\<in>set xs. c \<notin> set x \<Longrightarrow> c \<notin> set (js_join sep xs)"
  by (induction sep xs rule: js_join.induct) auto

lemma quad_no_slash: "CHR ''/'' \<notin> set (quad ns)"
  unfolding quad_def by (rule js_join_no_char) auto

lemma quad_no_colon: "CHR '':'' \<notin> set (quad ns)"
  unfolding quad_def using nat_str_no_char[of "CHR '':''"] by (intro js_join_no_char) auto

lemma normalizeIp_quad [simp]: "normalizeIp (quad ns) = quad ns"
  using quad_no_colon[of ns] by (auto simp: normalizeIp_def js_startsWith_def prefix_def)

lemma js_includes_char: "js_includes s [c] \<longleftrightarrow> c \<in> set s"
  by (auto simp: js_includes_def sublist_def in_set_conv_decomp)

lemma quad_inject: "is_octets ns \<Longrightarrow> is_octets ms \<Longrightarrow> quad ns = quad ms \<longleftrightarrow> ns = ms"
  using js_split_quad[OF is_octets_nonempty, of ns] js_split_quad[OF is_octets_nonempty, of ms]
  by (metis list.inj_map_strong nat_str_inject)

lemma base256:
  fixes x :: nat
  assumes "256 * x + d = 256 * y + h" "d < 256" "h < 256"
  shows "x = y" "d = h"
proof -
  have "(256 * x + d) div 256 = x" "(256 * y + h) div 256 = y" using assms(2,3) by simp_all
  with assms show "x = y" by metis
  with assms show "d = h" by simp
qed

lemma addr_inject:
  assumes "is_octets ns" "is_octets ms"
  shows "addr ns = addr ms \<longleftrightarrow> ns = ms"
proof -
  obtain a b c d where ns: "ns = [a, b, c, d]"
    using assms(1) by (auto simp: is_octets_def length_Suc_conv eval_nat_numeral)
  obtain e f g h where ms: "ms = [e, f, g, h]"
    using assms(2) by (auto simp: is_octets_def length_Suc_conv eval_nat_numeral)
  show ?thesis
  proof
    assume "addr ns = addr ms"
    then have "256 * (256 * (256 * a + b) + c) + d = 256 * (256 * (256 * e + f) + g) + h"
      by (simp add: addr_def ns ms)
    moreover have "b < 256" "c < 256" "d < 256" "f < 256" "g < 256" "h < 256"
      using assms by (simp_all add: is_octets_def ns ms)
    ultimately show "ns = ms" unfolding ns ms by (metis base256)
  qed simp
qed

text \<open>Matching an entry whose first two parts are an address and a legal number of bits.\<close>

lemma isIpMatch_block:
  assumes "is_octets ip" "is_octets net" "n \<le> 32"
    and "CHR ''/'' \<in> set e" "js_split CHR ''/'' e = quad net # b # rest" "js_parseInt b = Some (int n)"
  shows "isIpMatch (quad ip) e \<longleftrightarrow> addr ip div 2 ^ (32 - n) = addr net div 2 ^ (32 - n)"
proof (cases "n = 0")
  case True
  then show ?thesis
    using assms addr_bound[OF assms(1)] addr_bound[OF assms(2)]
    by (simp add: isIpMatch_def Let_def js_includes_char)
next
  case False
  then have "isIpMatch (quad ip) e \<longleftrightarrow>
      (of_nat (addr ip) :: 32 word) AND push_bit (32 - n) (- 1) = of_nat (addr net) AND push_bit (32 - n) (- 1)"
    using assms by (simp add: isIpMatch_def Let_def js_includes_char ipToNumber_quad cidr_mask_prefix)
  also have "\<dots> \<longleftrightarrow> addr ip div 2 ^ (32 - n) = addr net div 2 ^ (32 - n)"
    using masked_eq_iff[of "32 - n"] False prefix_eq_iff[OF addr_bound[OF assms(1)] addr_bound[OF assms(2)]]
    by simp
  finally show ?thesis .
qed

lemma js_split_cidr: "js_split CHR ''/'' (quad ns @ ''/'' @ nat_str n) = [quad ns, nat_str n]"
  using quad_no_slash by (simp add: js_split_append_sep js_split_no_sep)

lemma isIpMatch_single:
  assumes "is_octets ip" "is_octets net"
  shows "isIpMatch (quad ip) (quad net) \<longleftrightarrow> addr ip = addr net"
  using assms quad_no_slash[of net]
  by (simp add: isIpMatch_def js_includes_char quad_inject addr_inject)

text \<open>
  CIDR matching is prefix agreement. For an address and a network in dotted notation and a
  prefix length of 0 to 32, an address matches \<open>network/n\<close>, written plainly or as an IPv4-mapped
  IPv6 address, exactly when the first \<open>n\<close> bits of the two 32-bit addresses agree.
\<close>

theorem cidr_match_prefix:
  assumes "is_octets ip" "is_octets net" "n \<le> 32"
  shows "(isIpMatch (quad ip) (quad net @ ''/'' @ nat_str n) \<longleftrightarrow>
      addr ip div 2 ^ (32 - n) = addr net div 2 ^ (32 - n)) \<and>
    isIpMatch (''::ffff:'' @ quad ip) (quad net @ ''/'' @ nat_str n) =
      isIpMatch (quad ip) (quad net @ ''/'' @ nat_str n)"
proof
  show "isIpMatch (quad ip) (quad net @ ''/'' @ nat_str n) \<longleftrightarrow>
      addr ip div 2 ^ (32 - n) = addr net div 2 ^ (32 - n)"
    by (rule isIpMatch_block[OF assms _ js_split_cidr]) auto
  have "normalizeIp (''::ffff:'' @ quad ip) = quad ip" by (simp add: normalizeIp_def js_startsWith_def)
  then show "isIpMatch (''::ffff:'' @ quad ip) (quad net @ ''/'' @ nat_str n) =
      isIpMatch (quad ip) (quad net @ ''/'' @ nat_str n)"
    by (simp add: isIpMatch_def)
qed

theorem cidr_match_prefix_witness:
  "isIpMatch (quad [192, 168, 1, 77]) (quad [192, 168, 1, 0] @ ''/'' @ nat_str 24) \<and>
   \<not> isIpMatch (quad [192, 168, 2, 77]) (quad [192, 168, 1, 0] @ ''/'' @ nat_str 24)"
  using cidr_match_prefix[of "[192, 168, 1, 77]" "[192, 168, 1, 0]" 24]
    cidr_match_prefix[of "[192, 168, 2, 77]" "[192, 168, 1, 0]" 24]
  by (simp add: is_octets_def addr_def)

text \<open>
  An accepted entry denotes a block of addresses. Whatever string the format check of the
  admin operations accepts, there are a network and a prefix length such that the entry matches
  exactly the addresses with that prefix.
\<close>

theorem valid_entry_is_block:
  assumes "isValidIpOrCidr e"
  shows "\<exists>net n. is_octets net \<and> n \<le> 32 \<and>
    (\<forall>ip. is_octets ip \<longrightarrow> (isIpMatch (quad ip) e \<longleftrightarrow>
       addr ip div 2 ^ (32 - n) = addr net div 2 ^ (32 - n)))"
proof (cases "CHR ''/'' \<in> set e")
  case False
  then have "isValidIp e"
    using assms by (auto simp: isValidIpOrCidr_def js_includes_char allow_all_def split: if_splits)
  then obtain net where "is_octets net" "e = quad net" by (auto simp: isValidIp_iff)
  then show ?thesis using isIpMatch_single by (intro exI[of _ net] exI[of _ 32]) auto
next
  case True
  have "\<exists>net n b rest. is_octets net \<and> n \<le> 32 \<and> js_split CHR ''/'' e = quad net # b # rest \<and>
      js_parseInt b = Some (int n)"
  proof (cases "e = allow_all")
    case True
    have "e = quad [0, 0, 0, 0] @ ''/'' @ nat_str 0" by (simp add: True) code_simp
    then have "js_split CHR ''/'' e = [quad [0, 0, 0, 0], nat_str 0]" by (simp only: js_split_cidr)
    moreover have "is_octets [0, 0, 0, 0]" "js_parseInt (nat_str 0) = Some (int 0)"
      by (simp_all only: parseInt_nat_str) (simp add: is_octets_def)
    ultimately show ?thesis by (metis le0)
  next
    case False
    obtain x y where e: "e = x @ CHR ''/'' # y" "CHR ''/'' \<notin> set x"
      using True by (metis split_list_first)
    obtain b rest where y: "js_split CHR ''/'' y = b # rest" by (cases "js_split CHR ''/'' y") auto
    have sp: "js_split CHR ''/'' e = x # b # rest" using e y by (simp add: js_split_append_sep)
    obtain k where k: "js_parseInt b = Some k" "0 \<le> k" "k \<le> 32" "isValidIp x"
      using assms False True sp
      by (auto simp: isValidIpOrCidr_def js_includes_char Let_def split: option.splits if_splits)
    then obtain net where "is_octets net" "x = quad net" by (auto simp: isValidIp_iff)
    with k sp show ?thesis by (intro exI[of _ net] exI[of _ "nat k"] exI[of _ b] exI[of _ rest]) simp
  qed
  then show ?thesis using isIpMatch_block[OF _ _ _ True] by blast
qed

theorem valid_entry_is_block_witness:
  "isValidIpOrCidr ''10.0.0.0/8'' \<and> (\<exists>net n. is_octets net \<and> n \<le> 32 \<and>
    (\<forall>ip. is_octets ip \<longrightarrow> (isIpMatch (quad ip) ''10.0.0.0/8'' \<longleftrightarrow>
       addr ip div 2 ^ (32 - n) = addr net div 2 ^ (32 - n))))"
proof -
  have "isValidIpOrCidr ''10.0.0.0/8''" by code_simp
  with valid_entry_is_block[OF this] show ?thesis by blast
qed

section \<open>The filter and the table\<close>

text \<open>
  Runs of the whitelist: the service starts on the table, then admin operations and requests in
  any order and at any time. The database is the only writer of the table.
\<close>

inductive ip_reach :: "ip_system \<Rightarrow> bool" where
  ip_start: "ip_reach (\<lparr>db_rows = [], db_next = 1\<rparr>, wl_initialize (Some \<lparr>db_rows = [], db_next = 1\<rparr>) now wl_start)"
| ip_update: "ip_reach s \<Longrightarrow> ip_reach (snd (handleUpdateIpWhitelist wl now s))"
| ip_delete: "ip_reach s \<Longrightarrow> ip_reach (snd (handleDeleteIpWhitelist ips now s))"
| ip_add: "ip_reach s \<Longrightarrow> ip_reach (snd (handleAddIpWhitelist ips now s))"
| ip_special: "ip_reach s \<Longrightarrow> ip_reach (snd (handleSpecialIpWhitelistOperation operation now s))"
| ip_request: "ip_reach (d, st) \<Longrightarrow> ip_reach (d, snd (checkIpWhitelist (Some d) req now st))"
| ip_forced: "ip_reach (d, st) \<Longrightarrow> ip_reach (d, wl_clearCache st)"

definition table_list :: "ip_db \<Rightarrow> string list" where
  "table_list d = (if db_rows d = [] then [allow_all] else map row_ip (db_rows d))"

definition ids_ok :: "ip_db \<Rightarrow> bool" where
  "ids_ok d \<longleftrightarrow> sorted_wrt (<) (map row_id (db_rows d)) \<and> (\<forall>r\<in>set (db_rows d). row_id r < db_next d)"

definition ip_ok :: "ip_system \<Rightarrow> bool" where
  "ip_ok s \<longleftrightarrow> (case s of (d, st) \<Rightarrow> ids_ok d \<and> whitelist st = table_list d)"

lemma ids_ok_findAll: "ids_ok d \<Longrightarrow> ip_findAll d = db_rows d"
  unfolding ip_findAll_def ids_ok_def by (metis sorted_sort_id strict_sorted_imp_sorted sort_key_id_if_sorted)

lemma ids_ok_create: "ids_ok d \<Longrightarrow> ids_ok (ip_create ip t d)"
  by (fastforce simp: ids_ok_def ip_create_def sorted_wrt_append)

lemma ids_ok_createMany: "ids_ok d \<Longrightarrow> ids_ok (ip_createMany ips t d)"
  unfolding ip_createMany_def by (induction ips arbitrary: d) (auto simp: ids_ok_create)

lemma ids_ok_delete: "ids_ok d \<Longrightarrow> ids_ok (ip_deleteWhere P d)"
  by (auto simp: ids_ok_def ip_deleteWhere_def sorted_wrt_map intro: sorted_wrt_filter)

lemma ip_reload_ok: "ids_ok d \<Longrightarrow> ip_ok (d, ip_reload d now st)"
  by (simp add: ip_ok_def ip_reload_def reloadFromDatabase_def loadFromDatabase_def Let_def
      ids_ok_findAll table_list_def)

lemma getIpWhitelist_ok: "ip_ok (d, st) \<Longrightarrow> getIpWhitelist (Some d) now st = (table_list d, snd (getIpWhitelist (Some d) now st))
   \<and> ip_ok (d, snd (getIpWhitelist (Some d) now st))"
  by (auto simp: ip_ok_def getIpWhitelist_def loadFromDatabase_def Let_def ids_ok_findAll table_list_def)

lemma isIpAllowed_state: "snd (isIpAllowed d ip now st) = snd (getIpWhitelist d now st)"
  by (simp add: isIpAllowed_def split: prod.splits)

lemma ip_ok_ids: "ip_ok (d, st) \<Longrightarrow> ids_ok d"
  by (simp add: ip_ok_def)

lemmas ip_keep = ip_reload_ok ids_ok_createMany ids_ok_create ids_ok_delete

lemma handleUpdate_ok: "ip_ok s \<Longrightarrow> ip_ok (snd (handleUpdateIpWhitelist wl now s))"
  by (cases s) (auto simp: handleUpdateIpWhitelist_def Let_def intro!: ip_keep dest: ip_ok_ids
      split: option.splits)

lemma handleDelete_ok: "ip_ok s \<Longrightarrow> ip_ok (snd (handleDeleteIpWhitelist ips now s))"
  by (cases s) (auto simp: handleDeleteIpWhitelist_def Let_def ip_deleteByIds_def intro!: ip_keep
      dest: ip_ok_ids split: option.splits)

lemma handleAdd_ok: "ip_ok s \<Longrightarrow> ip_ok (snd (handleAddIpWhitelist ips now s))"
  by (cases s) (auto simp: handleAddIpWhitelist_def Let_def intro!: ip_keep dest: ip_ok_ids
      split: option.splits)

lemma handleSpecial_ok: "ip_ok s \<Longrightarrow> ip_ok (snd (handleSpecialIpWhitelistOperation operation now s))"
  by (cases s) (auto simp: handleSpecialIpWhitelistOperation_def Let_def intro!: ip_keep dest: ip_ok_ids
      split: option.splits)

lemma ip_request_ok: "ip_ok (d, st) \<Longrightarrow> ip_ok (d, snd (checkIpWhitelist (Some d) req now st))"
proof -
  assume ok: "ip_ok (d, st)"
  have "snd (checkIpWhitelist (Some d) req now st) \<in> {st, snd (getIpWhitelist (Some d) now st)}"
    by (simp add: checkIpWhitelist_def isIpAllowed_state case_prod_beta Let_def split: option.split)
  with ok getIpWhitelist_ok[OF ok] show ?thesis by auto
qed

lemma ip_reach_ok: "ip_reach s \<Longrightarrow> ip_ok s"
proof (induction rule: ip_reach.induct)
  case (ip_start now)
  show ?case
    by (simp add: ip_ok_def wl_initialize_def wl_start_def loadFromDatabase_def Let_def ip_findAll_def
        ids_ok_def table_list_def)
next
  case (ip_forced d st)
  then show ?case by (simp add: ip_ok_def wl_clearCache_def)
qed (simp_all add: handleUpdate_ok handleDelete_ok handleAdd_ok handleSpecial_ok ip_request_ok)

lemma isIpAllowed_table:
  assumes "ip_ok (d, st)"
  shows "fst (isIpAllowed (Some d) ip now st) \<longleftrightarrow>
    db_rows d = [] \<or> (\<exists>r\<in>set (db_rows d). row_ip r = allow_all \<or> isIpMatch ip (row_ip r))"
proof -
  obtain st' where "getIpWhitelist (Some d) now st = (table_list d, st')"
    using getIpWhitelist_ok[OF assms] by metis
  then show ?thesis
    by (force simp: isIpAllowed_def table_list_def list_ex_iff)
qed


definition ip_demo :: ip_system where
  "ip_demo = snd (handleAddIpWhitelist (Some [''10.0.0.0/8'']) 7000
     (\<lparr>db_rows = [], db_next = 1\<rparr>, wl_initialize (Some \<lparr>db_rows = [], db_next = 1\<rparr>) 5000 wl_start))"

lemma ip_demo_reach: "ip_reach (fst ip_demo, snd ip_demo)"
  unfolding ip_demo_def prod.collapse by (intro ip_add ip_start)

lemma ip_demo_rows: "db_rows (fst ip_demo) = [\<lparr>row_id = 1, row_ip = ''10.0.0.0/8'', row_addtime = 7\<rparr>]"
  by code_simp


lemma createMany_ips: "row_ip ` set (db_rows (ip_createMany ips t d)) = row_ip ` set (db_rows d) \<union> set ips"
  unfolding ip_createMany_def by (induction ips arbitrary: d) (auto simp: ip_create_def)

lemma row_id_inj: "ids_ok d \<Longrightarrow> r \<in> set (db_rows d) \<Longrightarrow> q \<in> set (db_rows d) \<Longrightarrow> row_id r = row_id q \<Longrightarrow> r = q"
  unfolding ids_ok_def by (metis distinct_map inj_on_def strict_sorted_iff)

lemma row_ip_deleted:
  assumes "ids_ok d"
  shows "db_rows (snd (ip_deleteByIds (map row_id (filter (\<lambda>r. row_ip r \<in> A) (db_rows d))) d)) =
    filter (\<lambda>r. row_ip r \<notin> A) (db_rows d)"
  using row_id_inj[OF assms]
  by (auto simp: ip_deleteByIds_def ip_deleteWhere_def intro!: filter_cong)

text \<open>
  What adding and deleting do to the table. Adding accepted entries leaves exactly the old
  and the new entries and skips those already present; deleting leaves exactly the entries not
  named in the request, and only the named ones go.
\<close>

theorem ip_admin_effect:
  assumes "ip_reach (d, st)"
  shows "(ips \<noteq> [] \<and> list_all isValidIpOrCidr ips \<longrightarrow>
      row_ip ` set (db_rows (fst (snd (handleAddIpWhitelist (Some ips) now (d, st))))) =
        row_ip ` set (db_rows d) \<union> set ips) \<and>
    (\<not> list_all isValidIpOrCidr ips \<longrightarrow> snd (handleAddIpWhitelist (Some ips) now (d, st)) = (d, st)) \<and>
    (ips \<noteq> [] \<longrightarrow>
      db_rows (fst (snd (handleDeleteIpWhitelist (Some ips) now (d, st)))) =
        filter (\<lambda>r. row_ip r \<notin> set ips) (db_rows d))"
proof (intro conjI impI)
  assume v: "ips \<noteq> [] \<and> list_all isValidIpOrCidr ips"
  then have "find (\<lambda>ip. \<not> isValidIpOrCidr ip) ips = None" by (auto simp: find_None_iff list_all_iff)
  with v show "row_ip ` set (db_rows (fst (snd (handleAddIpWhitelist (Some ips) now (d, st))))) =
        row_ip ` set (db_rows d) \<union> set ips"
    by (auto simp: handleAddIpWhitelist_def Let_def createMany_ips filter_empty_conv)
next
  assume "\<not> list_all isValidIpOrCidr ips"
  then have "find (\<lambda>ip. \<not> isValidIpOrCidr ip) ips \<noteq> None" "ips \<noteq> []"
    by (auto simp: find_None_iff list_all_iff)
  then show "snd (handleAddIpWhitelist (Some ips) now (d, st)) = (d, st)"
    by (auto simp: handleAddIpWhitelist_def)
next
  assume "ips \<noteq> []"
  then show "db_rows (fst (snd (handleDeleteIpWhitelist (Some ips) now (d, st)))) =
        filter (\<lambda>r. row_ip r \<notin> set ips) (db_rows d)"
    using row_ip_deleted[OF ip_ok_ids[OF ip_reach_ok[OF assms]]]
    by (auto simp: handleDeleteIpWhitelist_def Let_def filter_empty_conv intro!: filter_True[symmetric])
qed

theorem ip_admin_effect_witness:
  "db_rows (fst (snd (handleDeleteIpWhitelist (Some [''10.0.0.0/8'']) 9000 (fst ip_demo, snd ip_demo)))) = []"
  using ip_admin_effect[OF ip_demo_reach, of "[''10.0.0.0/8'']" 9000] by (simp add: ip_demo_rows)

text \<open>
  The query operation reports an open filter while it is closed. Whenever the table holds
  specific entries and no \<open>0.0.0.0/0\<close>, the query of the whitelist answers with the single entry
  \<open>0.0.0.0/0\<close>, although the service rejects every address that matches no entry.
\<close>

theorem get_whitelist_inverted:
  assumes "ip_reach (d, st)" and "db_rows d \<noteq> []" and "\<forall>r\<in>set (db_rows d). row_ip r \<noteq> ''0.0.0.0/0''"
    and "\<forall>r\<in>set (db_rows d). \<not> isIpMatch ip (row_ip r)"
  shows "handleGetIpWhitelist d = ([''0.0.0.0/0''], 1) \<and> \<not> fst (isIpAllowed (Some d) ip now st)"
proof
  have ok: "ip_ok (d, st)" using ip_reach_ok[OF assms(1)] .
  have "filter (\<lambda>r. row_ip r \<noteq> ''0.0.0.0/0'') (db_rows d) \<noteq> []" using assms(2,3) by (simp add: filter_empty_conv)
  then show "handleGetIpWhitelist d = ([''0.0.0.0/0''], 1)"
    using assms(2) by (simp add: handleGetIpWhitelist_def Let_def ids_ok_findAll[OF ip_ok_ids[OF ok]] allow_all_def)
  show "\<not> fst (isIpAllowed (Some d) ip now st)"
    using isIpAllowed_table[OF ok] assms(2,3,4) by (auto simp: allow_all_def)
qed

theorem get_whitelist_inverted_witness:
  "handleGetIpWhitelist (fst ip_demo) = ([''0.0.0.0/0''], 1) \<and>
   \<not> fst (isIpAllowed (Some (fst ip_demo)) ''192.168.0.1'' 8000 (snd ip_demo))"
proof -
  have "\<not> isIpMatch ''192.168.0.1'' ''10.0.0.0/8''" by code_simp
  then show ?thesis
    using get_whitelist_inverted[OF ip_demo_reach, of "''192.168.0.1''" 8000] by (simp add: ip_demo_rows)
qed

end
