(* ===== verification/Cache_Keys.thy ===== *)
theory Cache_Keys
  imports Json_Text "HOL-Library.Multiset"
begin

text \<open>
  The data of the result cache (\<open>src/mcp/core/cache/types.ts\<close>) and its keys
  (\<open>src/mcp/core/cache/CacheKeyBuilder.ts\<close>). A key names the operation, the server, the
  entity, the scope, the namespace versions and a digest of the request. The results: the digest
  does not depend on field order or on fields the policy denies, and entry keys of different
  requests differ.
\<close>

section \<open>Data\<close>

datatype cache_scope = UserScope | TenantScope | GlobalScope

datatype admission_policy = Immediate | SecondHit

datatype cache_operation = ToolOp | ResourceOp | PromptOp

definition scope_text :: "cache_scope \<Rightarrow> string" where
  "scope_text s = (case s of UserScope \<Rightarrow> ''user'' | TenantScope \<Rightarrow> ''tenant'' | GlobalScope \<Rightarrow> ''global'')"

definition admission_text :: "admission_policy \<Rightarrow> string" where
  "admission_text a = (case a of Immediate \<Rightarrow> ''immediate'' | SecondHit \<Rightarrow> ''second_hit'')"

definition operation_text :: "cache_operation \<Rightarrow> string" where
  "operation_text p = (case p of ToolOp \<Rightarrow> ''tool'' | ResourceOp \<Rightarrow> ''resource'' | PromptOp \<Rightarrow> ''prompt'')"

record resolved_policy =
  rp_enabled :: bool
  rp_ttlSeconds :: int
  rp_scope :: cache_scope
  rp_admissionPolicy :: admission_policy
  rp_admissionWindowSeconds :: int
  rp_denyFields :: "string list"
  rp_allowFields :: "string list option"
  rp_maxEntryBytes :: int

record namespace_versions =
  globalVersion :: nat
  serverVersion :: nat
  entityVersion :: nat

record scope_context =
  sc_userId :: "string option"
  sc_tenantId :: "string option"

section \<open>The digest of a request\<close>

fun stripDeniedFields :: "string set \<Rightarrow> json \<Rightarrow> json" where
  "stripDeniedFields denySet (JArr r vs) = JArr r (map (stripDeniedFields denySet) vs)"
| "stripDeniedFields denySet (JObj r fs) =
     JObj r (fromEntries (filter (\<lambda>(k, _). k \<notin> denySet)
       (map (\<lambda>(k, v). (k, stripDeniedFields denySet v)) fs)))"
| "stripDeniedFields denySet v = v"

definition applyFieldPolicies :: "json \<Rightarrow> string set \<Rightarrow> string list option \<Rightarrow> json" where
  "applyFieldPolicies v denySet allowFields =
     (case (allowFields, v) of
        (Some allowed, JObj r fs) \<Rightarrow>
          stripDeniedFields denySet (JObj r (fromEntries (filter (\<lambda>(k, _). k \<in> set allowed) fs)))
      | _ \<Rightarrow> stripDeniedFields denySet v)"

text \<open>\<open>String(value)\<close> of the numbers that are not finite.\<close>

fun nonfinite_text :: "jsnum \<Rightarrow> string" where
  "nonfinite_text NaN = ''NaN''"
| "nonfinite_text PosInf = ''Infinity''"
| "nonfinite_text NegInf = ''-Infinity''"
| "nonfinite_text (Fin _) = []"

fun normalizeValue :: "json \<Rightarrow> json" where
  "normalizeValue JUndef = JObj () [(''__type'', JStr ''undefined'')]"
| "normalizeValue (JNum n) =
     (case n of
        Fin _ \<Rightarrow> JNum n
      | _ \<Rightarrow> JObj () [(''__type'', JStr ''non_finite_number''), (''value'', JStr (nonfinite_text n))])"
| "normalizeValue (JArr r vs) = JArr r (map normalizeValue vs)"
| "normalizeValue (JFun _) =
     JObj () [(''__type'', JStr ''unsupported''), (''value'', JStr ''[object Function]'')]"
| "normalizeValue (JObj r fs) =
     JObj r (fromEntries (sort_key fst (map (\<lambda>(k, v). (k, normalizeValue v)) fs)))"
| "normalizeValue v = v"

fun stableStringify :: "(rat \<Rightarrow> string) \<Rightarrow> json \<Rightarrow> string" where
  "stableStringify nstr (JStr s) = json_quote s"
| "stableStringify nstr (JNum n) = (case n of Fin q \<Rightarrow> nstr q | _ \<Rightarrow> nonfinite_text n)"
| "stableStringify nstr (JBool b) = (if b then ''true'' else ''false'')"
| "stableStringify nstr (JArr _ vs) = ''['' @ js_join '','' (map (stableStringify nstr) vs) @ '']''"
| "stableStringify nstr (JObj _ fs) =
     ''{'' @ js_join '','' (map (\<lambda>(k, t). json_quote k @ '':'' @ t)
       (sort_key fst (map (\<lambda>(k, v). (k, stableStringify nstr v)) fs))) @ ''}''"
| "stableStringify nstr _ = ''null''"

text \<open>The digest function and number printing of the platform are parameters.\<close>

record key_env =
  ke_sha256 :: "string \<Rightarrow> string"
  ke_nstr :: "rat \<Rightarrow> string"

definition canonicalizeParams :: "key_env \<Rightarrow> json \<Rightarrow> string list \<Rightarrow> string list option \<Rightarrow> string" where
  "canonicalizeParams e params denyFields allowFields =
     (let prepared = applyFieldPolicies params (set denyFields) allowFields;
          canonical = stableStringify (ke_nstr e) (normalizeValue prepared)
      in ke_sha256 e canonical)"

definition buildEntityHash :: "key_env \<Rightarrow> string \<Rightarrow> string" where
  "buildEntityHash e entityId = ke_sha256 e entityId"

definition buildScopeHash :: "key_env \<Rightarrow> string \<Rightarrow> string" where
  "buildScopeHash e scopeIdentity = ke_sha256 e scopeIdentity"

section \<open>Keys\<close>

definition versioned_key ::
    "string \<Rightarrow> string \<Rightarrow> cache_operation \<Rightarrow> string \<Rightarrow> string \<Rightarrow> cache_scope \<Rightarrow> string \<Rightarrow>
     namespace_versions \<Rightarrow> string \<Rightarrow> string" where
  "versioned_key tag keyPrefix operation serverId entityHash scopeType scopeHash vs requestHash =
     js_join '':'' [keyPrefix, tag, ''v2'', operation_text operation, serverId, entityHash,
       scope_text scopeType, scopeHash, ''gv'' @ nat_str (globalVersion vs),
       ''sv'' @ nat_str (serverVersion vs), ''ev'' @ nat_str (entityVersion vs), requestHash]"

definition buildResultEntryKey ::
    "string \<Rightarrow> cache_operation \<Rightarrow> string \<Rightarrow> string \<Rightarrow> cache_scope \<Rightarrow> string \<Rightarrow>
     namespace_versions \<Rightarrow> string \<Rightarrow> string" where
  "buildResultEntryKey = versioned_key ''rc''"

definition buildAdmissionKey ::
    "string \<Rightarrow> cache_operation \<Rightarrow> string \<Rightarrow> string \<Rightarrow> cache_scope \<Rightarrow> string \<Rightarrow>
     namespace_versions \<Rightarrow> string \<Rightarrow> string" where
  "buildAdmissionKey = versioned_key ''rcadm''"

definition buildNamespaceKey :: "string \<Rightarrow> string list \<Rightarrow> string" where
  "buildNamespaceKey keyPrefix parts = js_join '':'' [keyPrefix, ''rcns'', js_join '':'' parts]"

section \<open>Keys of different requests differ\<close>

lemma js_join_snoc: "xs \<noteq> [] \<Longrightarrow> js_join s (xs @ [y]) = js_join s xs @ s @ y"
  by (induction s xs rule: js_join.induct) auto

lemma append_last_piece:
  assumes "a @ c # x = b @ c # y" "c \<notin> set x" "c \<notin> set y"
  shows "a = b \<and> x = y"
proof -
  have last: "takeWhile (\<lambda>d. d \<noteq> c) (rev (u @ c # z)) = rev z" if "c \<notin> set z" for u z
  proof -
    have "takeWhile (\<lambda>d. d \<noteq> c) (rev z @ c # rev u) = rev z"
      using that by (subst takeWhile_append2) auto
    then show ?thesis by simp
  qed
  have "rev x = rev y" using assms(1) last[OF assms(2), of a] last[OF assms(3), of b] by simp
  with assms(1) show ?thesis by simp
qed

text \<open>Pieces without the separator can be read off the end of a joined list.\<close>

lemma join_last_pieces:
  assumes "js_join [c] (xs @ zs) = js_join [c] (ys @ ws)" "length zs = length ws" "xs \<noteq> []" "ys \<noteq> []"
    and "\<forall>z\<in>set zs. c \<notin> set z" "\<forall>w\<in>set ws. c \<notin> set w"
  shows "js_join [c] xs = js_join [c] ys \<and> zs = ws"
  using assms
proof (induction zs arbitrary: ws rule: rev_induct)
  case (snoc z zs)
  then obtain w ws' where ws: "ws = ws' @ [w]" by (cases ws rule: rev_cases) auto
  have "js_join [c] (xs @ zs) @ c # z = js_join [c] (ys @ ws') @ c # w"
    using snoc.prems(1,3,4) js_join_snoc[of "xs @ zs" "[c]" z] js_join_snoc[of "ys @ ws'" "[c]" w]
    by (simp add: ws)
  then have "js_join [c] (xs @ zs) = js_join [c] (ys @ ws')" "z = w"
    using append_last_piece[of _ c z _ w] snoc.prems(5,6) by (auto simp: ws)
  with snoc show ?case by (simp add: ws)
qed simp

definition no_colon :: "string \<Rightarrow> bool" where
  "no_colon s \<longleftrightarrow> CHR '':'' \<notin> set s"

lemma no_colon_nat_str [simp]: "CHR '':'' \<notin> set (nat_str n)"
  using digit_in_nat_str[of "CHR '':''" n] by (auto simp: digit_in_def char_digit_def)

lemma operation_text_inject:
  "operation_text a @ CHR '':'' # x = operation_text b @ CHR '':'' # y \<longleftrightarrow> a = b \<and> x = y"
  by (auto simp: operation_text_def split: cache_operation.splits)

lemma scope_text_inject [simp]: "scope_text a = scope_text b \<longleftrightarrow> a = b"
  by (auto simp: scope_text_def split: cache_scope.splits)

lemma no_colon_scope_text [simp]: "CHR '':'' \<notin> set (scope_text a)"
  by (auto simp: scope_text_def split: cache_scope.splits)

lemma versioned_key_inject:
  assumes "versioned_key tag p op srv eh sc sh vs rh = versioned_key tag p op' srv' eh' sc' sh' vs' rh'"
    and "no_colon eh" "no_colon sh" "no_colon rh" "no_colon eh'" "no_colon sh'" "no_colon rh'"
  shows "op = op' \<and> srv = srv' \<and> eh = eh' \<and> sc = sc' \<and> sh = sh' \<and> vs = vs' \<and> rh = rh'"
proof -
  let ?head = "\<lambda>op srv. [p, tag, ''v2'', operation_text op, srv]"
  let ?tail = "\<lambda>eh sc sh vs rh. [eh, scope_text sc, sh, ''gv'' @ nat_str (globalVersion vs),
       ''sv'' @ nat_str (serverVersion vs), ''ev'' @ nat_str (entityVersion vs), rh]"
  have "js_join '':'' (?head op srv @ ?tail eh sc sh vs rh) = js_join '':'' (?head op' srv' @ ?tail eh' sc' sh' vs' rh')"
    using assms(1) by (simp add: versioned_key_def)
  then have "js_join '':'' (?head op srv) = js_join '':'' (?head op' srv') \<and>
      ?tail eh sc sh vs rh = ?tail eh' sc' sh' vs' rh'"
    by (rule join_last_pieces) (use assms(2-) in \<open>auto simp: no_colon_def\<close>)
  then show ?thesis by (auto simp: operation_text_inject namespace_versions.equality)
qed

text \<open>
  Entry keys identify the request. For one key prefix and a digest function whose values
  hold no colon, two result-cache keys are equal only if the operation, the server, the digests of
  the entity, of the scope identity and of the request, the scope and all three namespace versions
  are equal; the server name may be any string, colons included.
\<close>

theorem cache_entry_key_inject:
  assumes "buildResultEntryKey p op srv (buildEntityHash e ent) sc (buildScopeHash e who) vs
      (canonicalizeParams e params deny allow) =
    buildResultEntryKey p op' srv' (buildEntityHash e ent') sc' (buildScopeHash e who') vs'
      (canonicalizeParams e params' deny' allow')"
    and "\<And>s. CHR '':'' \<notin> set (ke_sha256 e s)"
  shows "op = op' \<and> srv = srv' \<and> ke_sha256 e ent = ke_sha256 e ent' \<and> sc = sc' \<and>
    ke_sha256 e who = ke_sha256 e who' \<and> vs = vs' \<and>
    canonicalizeParams e params deny allow = canonicalizeParams e params' deny' allow'"
proof -
  have n: "no_colon (buildEntityHash e x)" "no_colon (buildScopeHash e x)"
      "no_colon (canonicalizeParams e v d al)" for x v d al
    using assms(2) by (simp_all add: no_colon_def buildEntityHash_def buildScopeHash_def
        canonicalizeParams_def Let_def)
  show ?thesis
    using versioned_key_inject[OF assms(1)[unfolded buildResultEntryKey_def] n n]
    by (simp add: buildEntityHash_def buildScopeHash_def)
qed

definition demo_key_env :: key_env where
  "demo_key_env = \<lparr>ke_sha256 = (\<lambda>s. nat_str (length s)), ke_nstr = (\<lambda>q. int_str \<lfloor>q\<rfloor>)\<rparr>"

theorem cache_entry_key_inject_witness:
  "buildResultEntryKey ''peta'' ToolOp ''srv'' (buildEntityHash demo_key_env ''pay'') UserScope
      (buildScopeHash demo_key_env ''u'') \<lparr>globalVersion = 1, serverVersion = 0, entityVersion = 0\<rparr>
      (canonicalizeParams demo_key_env JNull [] None) \<noteq>
   buildResultEntryKey ''peta'' ToolOp ''srv'' (buildEntityHash demo_key_env ''pay'') UserScope
      (buildScopeHash demo_key_env ''u'') \<lparr>globalVersion = 2, serverVersion = 0, entityVersion = 0\<rparr>
      (canonicalizeParams demo_key_env JNull [] None)"
proof
  assume "buildResultEntryKey ''peta'' ToolOp ''srv'' (buildEntityHash demo_key_env ''pay'') UserScope
      (buildScopeHash demo_key_env ''u'') \<lparr>globalVersion = 1, serverVersion = 0, entityVersion = 0\<rparr>
      (canonicalizeParams demo_key_env JNull [] None) =
   buildResultEntryKey ''peta'' ToolOp ''srv'' (buildEntityHash demo_key_env ''pay'') UserScope
      (buildScopeHash demo_key_env ''u'') \<lparr>globalVersion = 2, serverVersion = 0, entityVersion = 0\<rparr>
      (canonicalizeParams demo_key_env JNull [] None)"
  from cache_entry_key_inject[OF this] show False by (simp add: demo_key_env_def)
qed

section \<open>What the digest ignores\<close>

text \<open>
  Two requests that agree but for the order of fields and for fields of denied names, at any
  depth.
\<close>

inductive same_request :: "string set \<Rightarrow> json \<Rightarrow> json \<Rightarrow> bool" for D where
  sr_refl: "same_request D v v"
| sr_arr: "list_all2 (same_request D) vs ws \<Longrightarrow> same_request D (JArr r vs) (JArr r ws)"
| sr_obj: "distinct (map fst fs) \<Longrightarrow> distinct (map fst gs) \<Longrightarrow>
    fst ` set fs - D = fst ` set gs - D \<Longrightarrow>
    (\<forall>k v w. (k, v) \<in> set fs \<longrightarrow> (k, w) \<in> set gs \<longrightarrow> k \<notin> D \<longrightarrow> same_request D v w) \<Longrightarrow>
    same_request D (JObj r fs) (JObj r gs)"

lemma own_order_set [simp]: "set (own_order es) = set es"
  by (auto simp: own_order_def)

lemma distinct_own_order: "distinct (map fst es) \<Longrightarrow> distinct (map fst (own_order es))"
proof -
  assume d: "distinct (map fst es)"
  have p: "mset (own_order es) = mset es" by (simp add: own_order_def)
  then show ?thesis using d by (metis mset_map mset_eq_imp_distinct_iff)
qed

lemma fold_update_fresh:
  "distinct (map fst (m @ es)) \<Longrightarrow> fold (\<lambda>(k, v). AList.update k v) es m = m @ es"
proof (induction es arbitrary: m)
  case (Cons x es)
  obtain k v where x: "x = (k, v)" by (cases x)
  have "k \<notin> fst ` set m" using Cons.prems by (auto simp: x)
  then have "AList.update k v m = m @ [(k, v)]" by (induction m) auto
  then show ?case using Cons.IH[of "m @ [(k, v)]"] Cons.prems by (simp add: x)
qed simp

lemma fromEntries_distinct:
  assumes "distinct (map fst es)"
  shows "fromEntries es = own_order es"
  using fold_update_fresh[of "[]" es] assms by (simp add: fromEntries_def)

text \<open>The canonical text of a request, and what it makes of an object.\<close>

definition canonical_text :: "(rat \<Rightarrow> string) \<Rightarrow> string set \<Rightarrow> json \<Rightarrow> string" where
  "canonical_text nstr D v = stableStringify nstr (normalizeValue (stripDeniedFields D v))"

definition object_text :: "(string \<times> string) list \<Rightarrow> string" where
  "object_text fs = ''{'' @ js_join '','' (map (\<lambda>(k, t). json_quote k @ '':'' @ t) (sort_key fst fs)) @ ''}''"

lemma object_text_cong:
  assumes "distinct (map fst fs)" "distinct (map fst gs)" "set fs = set gs"
  shows "object_text fs = object_text gs"
  using sort_key_fst_unique[OF assms] by (simp add: object_text_def)

lemma distinct_sort_fst: "distinct (map fst (sort_key fst fs)) = distinct (map fst fs)" for fs :: "(string \<times> 'a) list"
  by (metis mset_sort mset_map mset_eq_imp_distinct_iff)

lemma stable_object:
  assumes "distinct (map fst fs)"
  shows "stableStringify nstr (JObj r fs) = object_text (map (\<lambda>(k, v). (k, stableStringify nstr v)) fs)"
  by (simp add: object_text_def)

lemma normalize_object:
  assumes "distinct (map fst fs)"
  shows "stableStringify nstr (normalizeValue (JObj r fs)) =
    object_text (map (\<lambda>(k, v). (k, stableStringify nstr (normalizeValue v))) fs)"
proof -
  let ?n = "sort_key fst (map (\<lambda>(k, v). (k, normalizeValue v)) fs)"
  have d: "distinct (map fst ?n)" using assms by (simp only: distinct_sort_fst map_fst_fields)
  have "stableStringify nstr (normalizeValue (JObj r fs)) =
      object_text (map (\<lambda>(k, v). (k, stableStringify nstr v)) (own_order ?n))"
    using stable_object[OF distinct_own_order[OF d]] by (simp add: fromEntries_distinct[OF d])
  also have "\<dots> = object_text (map (\<lambda>(k, v). (k, stableStringify nstr (normalizeValue v))) fs)"
    by (rule object_text_cong)
      (use assms distinct_own_order[OF d] in \<open>simp_all only: map_fst_fields, force\<close>)
  finally show ?thesis .
qed

lemma distinct_filter_fst: "distinct (map fst fs) \<Longrightarrow> distinct (map fst (filter P fs))"
  by (rule distinct_map_filter)

lemma canonical_object:
  assumes "distinct (map fst fs)"
  shows "canonical_text nstr D (JObj r fs) =
    object_text (map (\<lambda>(k, v). (k, canonical_text nstr D v)) (filter (\<lambda>(k, _). k \<notin> D) fs))"
proof -
  let ?s = "filter (\<lambda>(k, _). k \<notin> D) (map (\<lambda>(k, v). (k, stripDeniedFields D v)) fs)"
  have d: "distinct (map fst ?s)"
    using assms by (intro distinct_filter_fst) (simp only: map_fst_fields)
  have "canonical_text nstr D (JObj r fs) =
      object_text (map (\<lambda>(k, v). (k, stableStringify nstr (normalizeValue v))) (own_order ?s))"
    using normalize_object[OF distinct_own_order[OF d]]
    by (simp add: canonical_text_def fromEntries_distinct[OF d])
  also have "\<dots> = object_text (map (\<lambda>(k, v). (k, canonical_text nstr D v)) (filter (\<lambda>(k, _). k \<notin> D) fs))"
  proof (rule object_text_cong)
    show "distinct (map fst (map (\<lambda>(k, v). (k, stableStringify nstr (normalizeValue v))) (own_order ?s)))"
      using distinct_own_order[OF d] by (simp only: map_fst_fields)
    show "distinct (map fst (map (\<lambda>(k, v). (k, canonical_text nstr D v)) (filter (\<lambda>(k, _). k \<notin> D) fs)))"
      using distinct_filter_fst[OF assms] by (simp only: map_fst_fields)
    show "set (map (\<lambda>(k, v). (k, stableStringify nstr (normalizeValue v))) (own_order ?s)) =
        set (map (\<lambda>(k, v). (k, canonical_text nstr D v)) (filter (\<lambda>(k, _). k \<notin> D) fs))"
      by (force simp: canonical_text_def)
  qed
  finally show ?thesis .
qed

lemma canonical_array:
  "canonical_text nstr D (JArr r vs) = ''['' @ js_join '','' (map (canonical_text nstr D) vs) @ '']''"
  by (simp add: canonical_text_def[abs_def] comp_def)

lemma canonical_same: "same_request D v w \<Longrightarrow> canonical_text nstr D v = canonical_text nstr D w"
proof (induction rule: same_request.induct)
  case (sr_arr vs ws r)
  then have "map (canonical_text nstr D) vs = map (canonical_text nstr D) ws"
    by (induction rule: list_all2_induct) auto
  then show ?case by (simp add: canonical_array)
next
  case (sr_obj fs gs r)
  let ?f = "filter (\<lambda>(k, _). k \<notin> D)" and ?t = "\<lambda>(k, v). (k, canonical_text nstr D v)"
  have keys: "fst ` set (?f xs) = fst ` set xs - D" for xs :: "(string \<times> json) list" by force
  have "set (map ?t (?f fs)) = set (map ?t (?f gs))"
    using sr_obj keys[of fs] keys[of gs] by (intro same_fields distinct_filter_fst) auto
  then have "object_text (map ?t (?f fs)) = object_text (map ?t (?f gs))"
    using sr_obj(1,2) by (intro object_text_cong) (simp_all only: map_fst_fields distinct_filter_fst)
  then show ?case using sr_obj(1,2) by (simp add: canonical_object)
qed simp

lemma same_request_allowed:
  assumes "same_request D (JObj r fs) (JObj r gs)"
  shows "same_request D (JObj r (fromEntries (filter (\<lambda>(k, _). k \<in> A) fs)))
    (JObj r (fromEntries (filter (\<lambda>(k, _). k \<in> A) gs)))"
  using assms
proof (cases rule: same_request.cases)
  case sr_refl
  then show ?thesis by (simp add: same_request.sr_refl)
next
  case sr_obj
  let ?f = "filter (\<lambda>(k, _). k \<in> A)"
  have d: "distinct (map fst (?f fs))" "distinct (map fst (?f gs))"
    using sr_obj(1,2) by (simp_all only: distinct_filter_fst)
  have keys: "fst ` set (?f xs) - D = A \<inter> (fst ` set xs - D)" for xs :: "(string \<times> json) list" by force
  show ?thesis
    unfolding fromEntries_distinct[OF d(1)] fromEntries_distinct[OF d(2)]
    by (rule same_request.sr_obj)
      (use sr_obj(3,4) keys[of fs] keys[of gs] d in \<open>auto simp: distinct_own_order\<close>)
qed

text \<open>
  The request digest ignores order and denied fields. Two requests that agree except for the
  order of their fields and for fields whose names the policy denies, at any depth, get the same
  digest under every allow list, and so share a cache entry.
\<close>

theorem cache_digest_ignores:
  assumes "same_request (set deny) v w"
  shows "canonicalizeParams e v deny allow = canonicalizeParams e w deny allow"
proof -
  have plain: "stableStringify (ke_nstr e) (normalizeValue (stripDeniedFields (set deny) x)) =
      stableStringify (ke_nstr e) (normalizeValue (stripDeniedFields (set deny) y))"
    if "same_request (set deny) x y" for x y
    using canonical_same[OF that] by (simp add: canonical_text_def)
  show ?thesis
  proof (cases allow)
    case None
    then show ?thesis using plain[OF assms] by (simp add: canonicalizeParams_def applyFieldPolicies_def)
  next
    case (Some allowed)
    show ?thesis
    proof (cases "\<exists>r fs gs. v = JObj r fs \<and> w = JObj r gs")
      case True
      then obtain r fs gs where "v = JObj r fs" "w = JObj r gs" by blast
      with plain[OF same_request_allowed[of "set deny" r fs gs "set allowed"]] assms Some show ?thesis
        by (simp add: canonicalizeParams_def applyFieldPolicies_def Let_def del: stripDeniedFields.simps)
    next
      case False
      have "applyFieldPolicies v (set deny) allow = stripDeniedFields (set deny) v \<and>
          applyFieldPolicies w (set deny) allow = stripDeniedFields (set deny) w"
        using assms False
        by (cases rule: same_request.cases) (auto simp: applyFieldPolicies_def Some split: jsval.splits)
      then show ?thesis using plain[OF assms] by (simp add: canonicalizeParams_def)
    qed
  qed
qed

theorem cache_digest_ignores_witness:
  "canonicalizeParams demo_key_env
     (JObj () [(''b'', JBool True), (''ts'', JNum (Fin 1)), (''a'', JNull)]) [''ts''] None =
   canonicalizeParams demo_key_env (JObj () [(''a'', JNull), (''b'', JBool True)]) [''ts''] None"
  by (rule cache_digest_ignores, rule sr_obj) (auto intro: sr_refl)

end
