(* ===== verification/Policy_Dsl.thy ===== *)
theory Policy_Dsl
  imports Peta_Prelude
begin

text \<open>
  The policy language of \<open>src/mcp/services/PolicyDslEvaluator.ts\<close>: rules, the conversions and
  operators of their conditions, glob matching through a generated regular expression, and the
  evaluator that returns the first matching rule in priority order. The main results: the
  evaluator is exactly ``first match in stable priority order'', and glob matching through the
  regular expression agrees with a direct definition of wildcards.
\<close>

section \<open>Rules and contexts\<close>

datatype extract_kind = Ex_string | Ex_number | Ex_boolean | Ex_url_host | Ex_bytes_length | Ex_other

datatype cond_op = Op_eq | Op_neq | Op_gt | Op_gte | Op_lt | Op_lte | Op_in | Op_not_in
  | Op_matches | Op_other

record 'r condition =
  left :: "'r jsval"
  op :: cond_op
  right :: "'r jsval"

record extractor =
  path :: string
  ex_type :: extract_kind

record 'r policy_rule =
  rule_id :: string
  priority :: "rat option"
  match_tool :: "string option"
  match_serverId :: "string option"
  extracts :: "(string \<times> extractor) list option"
  when_conds :: "'r condition list option"
  effect_decision :: string
  effect_reason :: "string option"

record 'r eval_context =
  ctx_serverId :: "string option"
  ctx_toolName :: string
  ctx_args :: "'r jsval"

record evaluation_result =
  res_decision :: string
  matchedRuleId :: "string option"
  res_reason :: "string option"

text \<open>
  The parts of the JavaScript platform whose text-level algorithms the evaluator only calls:
  number printing and parsing, the URL parser, the regular expression engine of the
  \<open>matches\<close> operator (\<open>None\<close> when the pattern is not valid), the source text of a
  function, and what the prototype chain of objects and arrays adds to a property lookup.
\<close>

record 'r platform =
  number_str :: "rat \<Rightarrow> string"
  string_number :: "string \<Rightarrow> jsnum"
  parse_float :: "string \<Rightarrow> jsnum"
  url_hostname :: "string \<Rightarrow> string option"
  regexp_test :: "string \<Rightarrow> string \<Rightarrow> bool option"
  function_str :: "'r \<Rightarrow> string"
  object_proto :: "string \<Rightarrow> 'r jsval option"
  array_proto :: "string \<Rightarrow> 'r jsval option"

section \<open>Conversions\<close>

fun num_string :: "'r platform \<Rightarrow> jsnum \<Rightarrow> string" where
  "num_string pf NaN = ''NaN''"
| "num_string pf PosInf = ''Infinity''"
| "num_string pf NegInf = ''-Infinity''"
| "num_string pf (Fin q) = number_str pf q"

text \<open>\<open>String(value)\<close>; an array joins its elements, with the empty string for null and undefined.\<close>

fun js_String :: "'r platform \<Rightarrow> 'r jsval \<Rightarrow> string" where
  "js_String pf JUndef = ''undefined''"
| "js_String pf JNull = ''null''"
| "js_String pf (JBool b) = (if b then ''true'' else ''false'')"
| "js_String pf (JNum n) = num_string pf n"
| "js_String pf (JStr s) = s"
| "js_String pf (JFun r) = function_str pf r"
| "js_String pf (JArr _ vs) =
     js_join '','' (map (\<lambda>v. if v = JUndef \<or> v = JNull then [] else js_String pf v) vs)"
| "js_String pf (JObj _ _) = ''[object Object]''"

text \<open>\<open>Number(value)\<close>.\<close>

fun js_Number :: "'r platform \<Rightarrow> 'r jsval \<Rightarrow> jsnum" where
  "js_Number pf JUndef = NaN"
| "js_Number pf JNull = Fin 0"
| "js_Number pf (JBool b) = (if b then Fin 1 else Fin 0)"
| "js_Number pf (JNum n) = n"
| "js_Number pf v = string_number pf (js_String pf v)"

text \<open>\<open>Buffer.byteLength\<close>: the length of the UTF-8 encoding.\<close>

definition byteLength :: "string \<Rightarrow> nat" where
  "byteLength s = sum_list (map (\<lambda>c. if (of_char c :: nat) < 128 then 1 else 2) s)"

definition coerceType :: "'r platform \<Rightarrow> 'r jsval \<Rightarrow> extract_kind \<Rightarrow> 'r jsval" where
  "coerceType pf v ty =
     (case ty of
        Ex_string \<Rightarrow> JStr (js_String pf v)
      | Ex_number \<Rightarrow>
          (let parsed = parse_float pf (js_String pf v)
           in if parsed = NaN then JUndef else JNum parsed)
      | Ex_boolean \<Rightarrow>
          (case v of
             JBool b \<Rightarrow> JBool b
           | JStr s \<Rightarrow>
               if js_toLowerCase s = ''true'' then JBool True
               else if js_toLowerCase s = ''false'' then JBool False
               else JBool (truthy v)
           | JNum n \<Rightarrow> JBool (n \<noteq> Fin 0)
           | _ \<Rightarrow> JBool (truthy v))
      | Ex_url_host \<Rightarrow>
          (case url_hostname pf (js_String pf v) of Some h \<Rightarrow> JStr h | None \<Rightarrow> JUndef)
      | Ex_bytes_length \<Rightarrow> JNum (Fin (of_nat (byteLength (js_String pf v))))
      | Ex_other \<Rightarrow> JUndef)"

section \<open>Paths\<close>

text \<open>
  \<open>segment in current\<close> and \<open>current[segment]\<close> in one: \<open>None\<close> when the property is
  absent. Arrays have their indices and \<open>length\<close>.
\<close>

fun array_index :: "string \<Rightarrow> nat \<Rightarrow> nat option" where
  "array_index seg 0 = None"
| "array_index seg (Suc n) = (if seg = nat_str n then Some n else array_index seg n)"

fun get_property :: "'r platform \<Rightarrow> 'r jsval \<Rightarrow> string \<Rightarrow> 'r jsval option" where
  "get_property pf (JObj _ fs) seg =
     (case map_of fs seg of Some v \<Rightarrow> Some v | None \<Rightarrow> object_proto pf seg)"
| "get_property pf (JArr _ vs) seg =
     (if seg = ''length'' then Some (JNum (Fin (of_nat (length vs))))
      else case array_index seg (length vs) of
          Some i \<Rightarrow> Some (vs ! i)
        | None \<Rightarrow> array_proto pf seg)"
| "get_property pf _ seg = None"

definition path_step :: "'r platform \<Rightarrow> 'r jsval \<Rightarrow> string \<Rightarrow> 'r jsval" where
  "path_step pf current seg =
     (if truthy current \<and> is_object current
      then (case get_property pf current seg of Some v \<Rightarrow> v | None \<Rightarrow> JUndef)
      else JUndef)"

definition extractByPath :: "'r platform \<Rightarrow> 'r jsval \<Rightarrow> string \<Rightarrow> 'r jsval" where
  "extractByPath pf obj p =
     (if p = [] then obj else foldl (path_step pf) obj (js_split CHR ''.'' p))"

definition extractVariables ::
    "'r platform \<Rightarrow> (string \<times> extractor) list \<Rightarrow> 'r jsval \<Rightarrow> 'r fields" where
  "extractVariables pf extractors args =
     fold (\<lambda>(name, ex) vars.
        let raw = extractByPath pf args (path ex)
        in if raw = JUndef then vars
           else let coerced = coerceType pf raw (ex_type ex)
                in if coerced \<noteq> JUndef then AList.update name coerced vars else vars)
       extractors []"

definition resolveOperand :: "'r platform \<Rightarrow> 'r jsval \<Rightarrow> 'r jsval \<Rightarrow> 'r jsval" where
  "resolveOperand pf operand scope =
     (case operand of
        JStr s \<Rightarrow>
          if js_startsWith s ''$'' then extractByPath pf scope (drop 1 s) else operand
      | _ \<Rightarrow> operand)"

section \<open>Conditions\<close>

definition evaluateCondition ::
    "'r platform \<Rightarrow> 'r jsval \<Rightarrow> cond_op \<Rightarrow> 'r jsval \<Rightarrow> bool" where
  "evaluateCondition pf l oper r =
     (case oper of
        Op_eq \<Rightarrow> strict_eq l r
      | Op_neq \<Rightarrow> \<not> strict_eq l r
      | Op_gt \<Rightarrow> num_less (js_Number pf r) (js_Number pf l)
      | Op_gte \<Rightarrow> num_le (js_Number pf r) (js_Number pf l)
      | Op_lt \<Rightarrow> num_less (js_Number pf l) (js_Number pf r)
      | Op_lte \<Rightarrow> num_le (js_Number pf l) (js_Number pf r)
      | Op_in \<Rightarrow> (case r of JArr _ vs \<Rightarrow> list_ex (same_value_zero l) vs | _ \<Rightarrow> False)
      | Op_not_in \<Rightarrow> (case r of JArr _ vs \<Rightarrow> \<not> list_ex (same_value_zero l) vs | _ \<Rightarrow> False)
      | Op_matches \<Rightarrow>
          (let pattern = js_String pf r in
           if length pattern > 512 then False
           else let subject = js_String pf l in
             if length subject > 4096 then False
             else (case regexp_test pf pattern subject of Some b \<Rightarrow> b | None \<Rightarrow> False))
      | Op_other \<Rightarrow> False)"

section \<open>Globs\<close>

text \<open>
  The regular expression text \<open>matchGlob\<close> builds, and the meaning ECMAScript gives to the
  fragment such texts lie in: an anchored sequence of literals (possibly escaped), \<open>.\<close> and
  \<open>.*\<close>, where \<open>.\<close> stands for any character that is not a line terminator.
\<close>

definition glob_special :: "char \<Rightarrow> bool" where
  "glob_special c \<longleftrightarrow> c \<in> set (CHR 0x5C # ''^$+?.()|{}[]'')"

definition glob_piece :: "char \<Rightarrow> string" where
  "glob_piece c =
     (if c = CHR ''*'' then ''.*''
      else if c = CHR ''?'' then ''.''
      else if glob_special c then [CHR 0x5C, c]
      else [c])"

definition glob_regex :: "string \<Rightarrow> string" where
  "glob_regex pattern = ''^'' @ concat (map glob_piece pattern) @ ''$''"

datatype re_token = ReLit char | ReAny | ReAnyStar

definition line_terminator :: "char \<Rightarrow> bool" where
  "line_terminator c \<longleftrightarrow> c = CHR 0x0A \<or> c = CHR 0x0D"

definition re_syntax_char :: "char \<Rightarrow> bool" where
  "re_syntax_char c \<longleftrightarrow> c \<in> set (CHR 0x5C # ''^$.*+?()[]{}|'')"

fun re_body :: "string \<Rightarrow> re_token list option" where
  "re_body [] = None"
| "re_body [c] = (if c = CHR ''$'' then Some [] else None)"
| "re_body (c # d # cs) =
     (if c = CHR 0x5C then
        (if re_syntax_char d then map_option (Cons (ReLit d)) (re_body cs) else None)
      else if c = CHR ''.'' then
        (if d = CHR ''*'' then map_option (Cons ReAnyStar) (re_body cs)
         else map_option (Cons ReAny) (re_body (d # cs)))
      else if re_syntax_char c then None
      else if d = CHR ''*'' \<or> d = CHR ''+'' \<or> d = CHR ''?'' \<or> d = CHR ''{'' then None
      else map_option (Cons (ReLit c)) (re_body (d # cs)))"

definition re_parse :: "string \<Rightarrow> re_token list option" where
  "re_parse s = (case s of c # cs \<Rightarrow> if c = CHR ''^'' then re_body cs else None | [] \<Rightarrow> None)"

fun re_match :: "re_token list \<Rightarrow> string \<Rightarrow> bool" where
  "re_match [] s = (s = [])"
| "re_match (ReLit c # ts) s = (case s of [] \<Rightarrow> False | x # xs \<Rightarrow> x = c \<and> re_match ts xs)"
| "re_match (ReAny # ts) s =
     (case s of [] \<Rightarrow> False | x # xs \<Rightarrow> \<not> line_terminator x \<and> re_match ts xs)"
| "re_match (ReAnyStar # ts) s =
     (re_match ts s \<or>
      (case s of [] \<Rightarrow> False
       | x # xs \<Rightarrow> \<not> line_terminator x \<and> re_match (ReAnyStar # ts) xs))"

definition matchGlob :: "string \<Rightarrow> string \<Rightarrow> bool" where
  "matchGlob pattern v =
     (if length pattern > 512 then False
      else (case re_parse (glob_regex pattern) of Some ts \<Rightarrow> re_match ts v | None \<Rightarrow> False))"

section \<open>The evaluator\<close>

definition matchesRule :: "'r policy_rule \<Rightarrow> 'r eval_context \<Rightarrow> bool" where
  "matchesRule rule ctx \<longleftrightarrow>
     (case match_serverId rule of
        Some g \<Rightarrow>
          (case ctx_serverId ctx of None \<Rightarrow> False | Some sid \<Rightarrow> matchGlob g sid)
      | None \<Rightarrow> True) \<and>
     (case match_tool rule of Some g \<Rightarrow> matchGlob g (ctx_toolName ctx) | None \<Rightarrow> True)"

fun own_fields :: "'r jsval \<Rightarrow> 'r fields" where
  "own_fields (JObj _ fs) = fs"
| "own_fields _ = []"

text \<open>
  The object literal \<open>{...args, ...vars, args}\<close>; \<open>fresh\<close> is the identity of the new object.
\<close>

definition conditionScope :: "'r \<Rightarrow> 'r jsval \<Rightarrow> 'r fields \<Rightarrow> 'r jsval" where
  "conditionScope fresh args vars =
     JObj fresh (AList.update ''args'' args
       (fold (\<lambda>(k, v). AList.update k v) vars (own_fields args)))"

definition allConditionsPass ::
    "'r platform \<Rightarrow> 'r \<Rightarrow> 'r policy_rule \<Rightarrow> 'r eval_context \<Rightarrow> bool" where
  "allConditionsPass pf fresh rule ctx =
     (let vars = extractVariables pf (case extracts rule of Some e \<Rightarrow> e | None \<Rightarrow> []) (ctx_args ctx);
          scope = conditionScope fresh (ctx_args ctx) vars
      in list_all
           (\<lambda>c. evaluateCondition pf (resolveOperand pf (left c) scope) (op c)
                  (resolveOperand pf (right c) scope))
           (case when_conds rule of Some cs \<Rightarrow> cs | None \<Rightarrow> []))"

definition rule_result :: "'r policy_rule \<Rightarrow> evaluation_result" where
  "rule_result rule =
     \<lparr>res_decision = effect_decision rule, matchedRuleId = Some (rule_id rule),
      res_reason = effect_reason rule\<rparr>"

definition no_match_result :: evaluation_result where
  "no_match_result = \<lparr>res_decision = ''ALLOW'', matchedRuleId = None, res_reason = None\<rparr>"

fun eval_rules ::
    "'r platform \<Rightarrow> 'r \<Rightarrow> 'r eval_context \<Rightarrow> 'r policy_rule list \<Rightarrow> evaluation_result" where
  "eval_rules pf fresh ctx [] = no_match_result"
| "eval_rules pf fresh ctx (rule # rules) =
     (if \<not> matchesRule rule ctx then eval_rules pf fresh ctx rules
      else if \<not> allConditionsPass pf fresh rule ctx then eval_rules pf fresh ctx rules
      else rule_result rule)"

definition rule_priority :: "'r policy_rule \<Rightarrow> rat" where
  "rule_priority rule = (case priority rule of Some p \<Rightarrow> p | None \<Rightarrow> 1000)"

definition dsl_evaluate ::
    "'r platform \<Rightarrow> 'r \<Rightarrow> 'r policy_rule list \<Rightarrow> 'r eval_context \<Rightarrow> evaluation_result" where
  "dsl_evaluate pf fresh rules ctx = eval_rules pf fresh ctx (sort_key rule_priority rules)"

section \<open>Glob matching is wildcard matching\<close>

text \<open>Wildcards, directly: \<open>*\<close> is any run and \<open>?\<close> any one of the non-terminators.\<close>

inductive wildcard :: "string \<Rightarrow> string \<Rightarrow> bool" where
  wc_nil: "wildcard [] []"
| wc_star: "\<forall>c\<in>set run. \<not> line_terminator c \<Longrightarrow> wildcard ps s \<Longrightarrow> wildcard (CHR ''*'' # ps) (run @ s)"
| wc_one: "\<not> line_terminator c \<Longrightarrow> wildcard ps s \<Longrightarrow> wildcard (CHR ''?'' # ps) (c # s)"
| wc_lit: "p \<noteq> CHR ''*'' \<Longrightarrow> p \<noteq> CHR ''?'' \<Longrightarrow> wildcard ps s \<Longrightarrow> wildcard (p # ps) (p # s)"

inductive_simps wildcard_Nil [simp]: "wildcard [] s"
inductive_simps wildcard_star: "wildcard (CHR ''*'' # ps) s"
inductive_simps wildcard_one: "wildcard (CHR ''?'' # ps) s"
inductive_simps wildcard_Cons: "wildcard (p # ps) s"

definition glob_token :: "char \<Rightarrow> re_token" where
  "glob_token c = (if c = CHR ''*'' then ReAnyStar else if c = CHR ''?'' then ReAny else ReLit c)"

lemma glob_token_simps [simp]:
  "glob_token CHR ''*'' = ReAnyStar" "glob_token CHR ''?'' = ReAny"
  "c \<noteq> CHR ''*'' \<Longrightarrow> c \<noteq> CHR ''?'' \<Longrightarrow> glob_token c = ReLit c"
  by (simp_all add: glob_token_def)

lemma re_body_piece:
  assumes "re_body rest = Some ts"
    and "case rest of [] \<Rightarrow> False | d # _ \<Rightarrow> d \<notin> set ''*+?{''"
  shows "re_body (glob_piece c @ rest) = Some (glob_token c # ts)"
proof -
  obtain d ds where rest: "rest = d # ds" using assms(2) by (cases rest) auto
  show ?thesis
    using assms unfolding rest
    by (auto simp: glob_piece_def glob_token_def glob_special_def re_syntax_char_def)
qed

lemma glob_piece_head: "\<exists>d ds. glob_piece c = d # ds \<and> d \<notin> set ''*+?{''"
  by (auto simp: glob_piece_def glob_special_def)

lemma glob_pieces_head:
  "case concat (map glob_piece ps) @ ''$'' of [] \<Rightarrow> False | d # _ \<Rightarrow> d \<notin> set ''*+?{''"
proof (cases ps)
  case Nil
  then show ?thesis by simp
next
  case (Cons p ps')
  then show ?thesis using glob_piece_head[of p] by auto
qed

lemma re_body_glob: "re_body (concat (map glob_piece ps) @ ''$'') = Some (map glob_token ps)"
proof (induction ps)
  case Nil
  show ?case by simp
next
  case (Cons p ps)
  show ?case using re_body_piece[OF Cons.IH glob_pieces_head] by simp
qed

lemma re_parse_glob: "re_parse (glob_regex ps) = Some (map glob_token ps)"
  by (simp add: re_parse_def glob_regex_def re_body_glob)

lemma re_match_star_iff:
  "re_match (ReAnyStar # ts) s \<longleftrightarrow>
     (\<exists>run rest. s = run @ rest \<and> (\<forall>c\<in>set run. \<not> line_terminator c) \<and> re_match ts rest)"
proof (induction s)
  case Nil
  show ?case by simp
next
  case (Cons x xs)
  show ?case
  proof
    assume "re_match (ReAnyStar # ts) (x # xs)"
    then consider "re_match ts (x # xs)" | "\<not> line_terminator x" "re_match (ReAnyStar # ts) xs" by auto
    then show "\<exists>run rest. x # xs = run @ rest \<and> (\<forall>c\<in>set run. \<not> line_terminator c) \<and> re_match ts rest"
    proof cases
      case 1
      then show ?thesis by (intro exI[of _ "[]"] exI[of _ "x # xs"]) simp
    next
      case 2
      then obtain run rest where "xs = run @ rest" "\<forall>c\<in>set run. \<not> line_terminator c" "re_match ts rest"
        using Cons.IH by blast
      with 2 show ?thesis by (intro exI[of _ "x # run"] exI[of _ rest]) simp
    qed
  next
    assume "\<exists>run rest. x # xs = run @ rest \<and> (\<forall>c\<in>set run. \<not> line_terminator c) \<and> re_match ts rest"
    then obtain run rest where *: "x # xs = run @ rest" "\<forall>c\<in>set run. \<not> line_terminator c" "re_match ts rest"
      by blast
    then show "re_match (ReAnyStar # ts) (x # xs)"
      using Cons.IH by (cases run) auto
  qed
qed

lemma re_match_glob: "re_match (map glob_token ps) s \<longleftrightarrow> wildcard ps s"
proof (induction ps arbitrary: s)
  case Nil
  show ?case by simp
next
  case (Cons p ps)
  consider (star) "p = CHR ''*''" | (one) "p = CHR ''?''" | (lit) "p \<noteq> CHR ''*''" "p \<noteq> CHR ''?''" by blast
  then show ?case
  proof cases
    case star
    then have "map glob_token (p # ps) = ReAnyStar # map glob_token ps" by simp
    then have "re_match (map glob_token (p # ps)) s \<longleftrightarrow>
        (\<exists>run rest. s = run @ rest \<and> (\<forall>c\<in>set run. \<not> line_terminator c) \<and> wildcard ps rest)"
      by (simp only: re_match_star_iff Cons.IH)
    with star show ?thesis by (simp add: wildcard_star)
  next
    case one
    then show ?thesis
      by (auto simp: Cons.IH wildcard_one split: list.splits)
  next
    case lit
    then show ?thesis
      by (auto simp: Cons.IH wildcard_Cons split: list.splits)
  qed
qed

lemma matchGlob_wildcard: "matchGlob p s \<longleftrightarrow> length p \<le> 512 \<and> wildcard p s"
  by (auto simp: matchGlob_def re_parse_glob re_match_glob)

section \<open>First match in priority order\<close>

definition rule_applies :: "'r platform \<Rightarrow> 'r \<Rightarrow> 'r eval_context \<Rightarrow> 'r policy_rule \<Rightarrow> bool" where
  "rule_applies pf fresh ctx rule \<longleftrightarrow> matchesRule rule ctx \<and> allConditionsPass pf fresh rule ctx"

lemma eval_rules_find:
  "eval_rules pf fresh ctx rules =
     (case find (rule_applies pf fresh ctx) rules of
        Some rule \<Rightarrow> rule_result rule | None \<Rightarrow> no_match_result)"
  by (induction rules) (auto simp: rule_applies_def)

text \<open>The first element of a stable sort that satisfies a predicate, told by keys and positions.\<close>

lemma find_Some_filter: "find P xs = Some x \<longleftrightarrow> (\<exists>ys. filter P xs = x # ys)"
  by (induction xs) auto

lemma find_sort_key_least:
  assumes "find P (sort_key f xs) = Some x"
  shows "\<forall>y\<in>set xs. P y \<longrightarrow> f x \<le> f y"
proof -
  obtain ys where ys: "filter P (sort_key f xs) = x # ys" using assms by (auto simp: find_Some_filter)
  have "sorted (map f (filter P (sort_key f xs)))" by (rule sorted_filter) simp
  then have "\<forall>y\<in>set (x # ys). f x \<le> f y" unfolding ys by auto
  moreover have "set (x # ys) = {y \<in> set xs. P y}" by (metis set_filter set_sort ys)
  ultimately show ?thesis by auto
qed

lemma find_sort_key_stable:
  assumes "find P (sort_key f xs) = Some x"
  shows "find (\<lambda>y. P y \<and> f y = f x) xs = Some x"
proof -
  obtain ys where ys: "filter P (sort_key f xs) = x # ys" using assms by (auto simp: find_Some_filter)
  have "filter (\<lambda>y. P y \<and> f y = f x) xs = filter P (filter (\<lambda>y. f y = f x) xs)"
    by (simp add: conj_commute)
  also have "\<dots> = filter P (filter (\<lambda>y. f y = f x) (sort_key f xs))" by (simp add: sort_key_stable)
  also have "\<dots> = filter (\<lambda>y. f y = f x) (filter P (sort_key f xs))" by (simp add: conj_commute)
  also have "\<dots> = x # filter (\<lambda>y. f y = f x) ys" by (simp add: ys)
  finally show ?thesis by (auto simp: find_Some_filter)
qed

lemma find_sort_key_first:
  assumes "find P (sort_key f xs) = Some x"
  shows "\<exists>i<length xs. xs ! i = x \<and> P x \<and>
     (\<forall>j<length xs. P (xs ! j) \<longrightarrow> f x < f (xs ! j) \<or> (f x = f (xs ! j) \<and> i \<le> j))"
proof -
  obtain i where i: "i < length xs" "xs ! i = x" "P x"
      "\<forall>j<i. \<not> (P (xs ! j) \<and> f (xs ! j) = f x)"
    using find_sort_key_stable[OF assms] by (auto simp: find_Some_iff)
  have "f x < f (xs ! j) \<or> (f x = f (xs ! j) \<and> i \<le> j)" if "j < length xs" "P (xs ! j)" for j
    using find_sort_key_least[OF assms] i that
    by (metis linorder_not_less nth_mem order_le_less)
  with i show ?thesis by blast
qed

lemma find_sort_key_None: "find P (sort_key f xs) = None \<longleftrightarrow> (\<forall>x\<in>set xs. \<not> P x)"
  by (auto simp: find_None_iff)

text \<open>
  Adding a rule that does not apply changes nothing, wherever it is put: the evaluator depends
  on the applicable rules only.
\<close>

lemma dsl_evaluate_cases:
  "dsl_evaluate pf fresh rules ctx =
     (case find (rule_applies pf fresh ctx) (sort_key rule_priority rules) of
        Some rule \<Rightarrow> rule_result rule | None \<Rightarrow> no_match_result)"
  by (simp add: dsl_evaluate_def eval_rules_find)

section \<open>A small platform and a rule, for concrete runs\<close>

definition demo_platform :: "nat platform" where
  "demo_platform =
     \<lparr>number_str = (\<lambda>q. int_str \<lfloor>q\<rfloor>),
      string_number = (\<lambda>s. case js_parseInt s of Some i \<Rightarrow> Fin (of_int i) | None \<Rightarrow> NaN),
      parse_float = (\<lambda>s. case js_parseInt s of Some i \<Rightarrow> Fin (of_int i) | None \<Rightarrow> NaN),
      url_hostname = (\<lambda>s. None),
      regexp_test = (\<lambda>p s. Some (js_includes s p)),
      function_str = (\<lambda>_. ''function () { [native code] }''),
      object_proto = (\<lambda>_. None),
      array_proto = (\<lambda>_. None)\<rparr>"

definition demo_rule :: "string \<Rightarrow> rat option \<Rightarrow> string \<Rightarrow> string \<Rightarrow> nat policy_rule" where
  "demo_rule i prio tool decision =
     \<lparr>rule_id = i, priority = prio, match_tool = Some tool, match_serverId = None,
      extracts = None,
      when_conds = Some [\<lparr>left = JStr ''$amount'', op = Op_gt, right = JNum (Fin 100)\<rparr>],
      effect_decision = decision, effect_reason = None\<rparr>"

definition demo_context :: "nat eval_context" where
  "demo_context =
     \<lparr>ctx_serverId = Some ''s1'', ctx_toolName = ''pay_now'',
      ctx_args = JObj 1 [(''amount'', JNum (Fin 250))]\<rparr>"

section \<open>Properties\<close>

text \<open>
  Glob matching through the generated regular expression is wildcard matching: a pattern of
  at most 512 characters matches a name exactly when \<open>*\<close> can be filled with a run, and each
  \<open>?\<close> with one, of characters that are not line terminators, and every other character of the
  pattern stands for itself. In particular the generated expression is always well formed.
\<close>

theorem matchGlob_iff_wildcard: "matchGlob p s \<longleftrightarrow> length p \<le> 512 \<and> wildcard p s"
  by (rule matchGlob_wildcard)

text \<open>
  C29: the evaluator returns the effect of the first applicable rule in priority order, rules of
  equal priority (1000 when none is given) in the order they are written, and the
  \<open>ALLOW\<close> result without a rule exactly when no rule applies.
\<close>

theorem dsl_first_match:
  "(dsl_evaluate pf fresh rules ctx = no_match_result \<and>
    (\<forall>i<length rules. \<not> rule_applies pf fresh ctx (rules ! i))) \<or>
   (\<exists>i<length rules. rule_applies pf fresh ctx (rules ! i) \<and>
      dsl_evaluate pf fresh rules ctx = rule_result (rules ! i) \<and>
      (\<forall>j<length rules. rule_applies pf fresh ctx (rules ! j) \<longrightarrow>
         rule_priority (rules ! i) < rule_priority (rules ! j) \<or>
         (rule_priority (rules ! i) = rule_priority (rules ! j) \<and> i \<le> j)))"
proof (cases "find (rule_applies pf fresh ctx) (sort_key rule_priority rules)")
  case None
  then have "\<forall>r\<in>set rules. \<not> rule_applies pf fresh ctx r" by (simp only: find_sort_key_None)
  with None show ?thesis by (simp add: dsl_evaluate_cases)
next
  case (Some r)
  show ?thesis using find_sort_key_first[OF Some] Some by (auto simp: dsl_evaluate_cases)
qed

theorem dsl_first_match_witness:
  "let rules = [demo_rule ''late'' None ''*'' ''ALLOW'', demo_rule ''early'' (Some 5) ''pay_*'' ''DENY'']
   in dsl_evaluate demo_platform 0 rules demo_context = rule_result (rules ! 1)"
proof -
  let ?rules = "[demo_rule ''late'' None ''*'' ''ALLOW'', demo_rule ''early'' (Some 5) ''pay_*'' ''DENY'']"
  have a: "rule_applies demo_platform 0 demo_context (?rules ! 1)" by code_simp
  have b: "rule_priority (?rules ! 1) < rule_priority (?rules ! 0)" by code_simp
  show ?thesis
    using dsl_first_match[of demo_platform 0 ?rules demo_context] a b
    by (auto simp: less_Suc_eq numeral_2_eq_2)
qed

end
