(* ===== verification/Policy_Engine.thy ===== *)
theory Policy_Engine
  imports Policy_Dsl
begin

text \<open>
  Tool policies: the table of policy sets (\<open>src/repositories/PolicyRepository.ts\<close>), the engine
  that evaluates a tool call against the effective policy sets behind a thirty-second cache
  (\<open>src/mcp/services/PolicyEngine.ts\<close>), and the admin handlers that change the table and clear
  the cache (\<open>src/controllers/handlers/PolicyHandler.ts\<close>). The main result is that caching is
  invisible: in every reachable state a decision is the one the current table gives.
\<close>

section \<open>The table of policy sets\<close>

text \<open>
  A stored DSL document as the engine's cast to \<open>PolicyDsl\<close> sees it: not an object at all
  (falsy, or a primitive), or an object whose \<open>rules\<close> may be missing.
\<close>

datatype 'r dsl_doc = DslPrimitive | DslObject "'r policy_rule list option"

record 'r tool_policy_set =
  ps_id :: string
  ps_serverId :: "string option"
  ps_version :: int
  ps_status :: string
  ps_dsl :: "'r dsl_doc"
  ps_createdAt :: int
  ps_updatedAt :: int

type_synonym 'r policy_table = "'r tool_policy_set list"

datatype policy_error = UniqueViolation | RecordNotFound | VersionAllocationFailed | InvalidRequest

definition policy_findById :: "'r policy_table \<Rightarrow> string \<Rightarrow> 'r tool_policy_set option" where
  "policy_findById t i = find (\<lambda>p. ps_id p = i) t"

definition findActiveByServerId ::
    "'r policy_table \<Rightarrow> string option \<Rightarrow> 'r tool_policy_set option" where
  "findActiveByServerId t sid =
     find_first_desc ps_version (\<lambda>p. ps_serverId p = sid \<and> ps_status p = ''active'') t"

definition findAllActive :: "'r policy_table \<Rightarrow> 'r policy_table" where
  "findAllActive t = filter (\<lambda>p. ps_status p = ''active'') t"

definition policy_findByServerId :: "'r policy_table \<Rightarrow> string option \<Rightarrow> 'r policy_table" where
  "policy_findByServerId t sid = order_desc ps_version (filter (\<lambda>p. ps_serverId p = sid) t)"

definition latest_version :: "'r policy_table \<Rightarrow> string option \<Rightarrow> int" where
  "latest_version t sid =
     (case find_first_desc ps_version (\<lambda>p. ps_serverId p = sid) t of
        Some p \<Rightarrow> ps_version p | None \<Rightarrow> 0)"

text \<open>The insert, with the primary key and the two partial unique indexes on the version.\<close>

definition policy_insert ::
    "'r tool_policy_set \<Rightarrow> 'r policy_table \<Rightarrow> policy_error + 'r policy_table" where
  "policy_insert p t =
     (if list_ex (\<lambda>q. ps_id q = ps_id p \<or>
            (ps_serverId q = ps_serverId p \<and> ps_version q = ps_version p)) t
      then Inl UniqueViolation else Inr (t @ [p]))"

text \<open>
  The allocation loop of \<open>create\<close>. Between the read of the latest version and the insert
  other clients may change the table: \<open>env n\<close> is what they do during attempt \<open>n\<close>. The
  generated identifier is \<open>new_id n\<close>.
\<close>

function create_attempt ::
    "(nat \<Rightarrow> 'r policy_table \<Rightarrow> 'r policy_table) \<Rightarrow> (nat \<Rightarrow> string) \<Rightarrow> int \<Rightarrow> string option \<Rightarrow>
     'r dsl_doc \<Rightarrow> nat \<Rightarrow> 'r policy_table \<Rightarrow>
     (policy_error + 'r tool_policy_set) \<times> 'r policy_table" where
  "create_attempt env new_id now sid dsl attempt t =
     (if attempt < 3 then
        (let nextVersion = latest_version t sid + 1;
             t' = env attempt t;
             p = \<lparr>ps_id = new_id attempt, ps_serverId = sid, ps_version = nextVersion,
                  ps_status = ''active'', ps_dsl = dsl, ps_createdAt = now, ps_updatedAt = now\<rparr>
         in case policy_insert p t' of
              Inr t'' \<Rightarrow> (Inr p, t'')
            | Inl e \<Rightarrow>
                if e = UniqueViolation \<and> attempt < 2
                then create_attempt env new_id now sid dsl (attempt + 1) t'
                else (Inl e, t'))
      else (Inl VersionAllocationFailed, t))"
  by pat_completeness auto
termination
  by (relation "measure (\<lambda>(env, new_id, now, sid, dsl, attempt, t). 3 - attempt)") auto

declare create_attempt.simps [simp del]

definition policy_create ::
    "(nat \<Rightarrow> 'r policy_table \<Rightarrow> 'r policy_table) \<Rightarrow> (nat \<Rightarrow> string) \<Rightarrow> int \<Rightarrow> string option \<Rightarrow>
     'r dsl_doc \<Rightarrow> 'r policy_table \<Rightarrow> (policy_error + 'r tool_policy_set) \<times> 'r policy_table" where
  "policy_create env new_id now sid dsl t = create_attempt env new_id now sid dsl 0 t"

text \<open>\<open>toolPolicySet.update\<close>: fails on an unknown identifier or a taken version.\<close>

definition policy_row_update ::
    "string \<Rightarrow> int \<Rightarrow> 'r dsl_doc option \<Rightarrow> string option \<Rightarrow> int option \<Rightarrow> 'r policy_table \<Rightarrow>
     policy_error + ('r tool_policy_set \<times> 'r policy_table)" where
  "policy_row_update i now dsl status version t =
     (case policy_findById t i of
        None \<Rightarrow> Inl RecordNotFound
      | Some p \<Rightarrow>
          let p' = p\<lparr>ps_dsl := (case dsl of Some d \<Rightarrow> d | None \<Rightarrow> ps_dsl p),
                     ps_status := (case status of Some s \<Rightarrow> s | None \<Rightarrow> ps_status p),
                     ps_version := (case version of Some v \<Rightarrow> v | None \<Rightarrow> ps_version p),
                     ps_updatedAt := now\<rparr>
          in if list_ex (\<lambda>q. ps_id q \<noteq> i \<and> ps_serverId q = ps_serverId p' \<and>
                   ps_version q = ps_version p') t
             then Inl UniqueViolation
             else Inr (p', map (\<lambda>q. if ps_id q = i then p' else q) t))"

function update_attempt ::
    "(nat \<Rightarrow> 'r policy_table \<Rightarrow> 'r policy_table) \<Rightarrow> string \<Rightarrow> int \<Rightarrow> 'r dsl_doc option \<Rightarrow>
     string option \<Rightarrow> string option \<Rightarrow> nat \<Rightarrow> 'r policy_table \<Rightarrow>
     (policy_error + 'r tool_policy_set) \<times> 'r policy_table" where
  "update_attempt env i now dsl status sid attempt t =
     (if attempt < 3 then
        (let nextVersion = latest_version t sid + 1; t' = env attempt t
         in case policy_row_update i now dsl status (Some nextVersion) t' of
              Inr (p, t'') \<Rightarrow> (Inr p, t'')
            | Inl e \<Rightarrow>
                if e = UniqueViolation \<and> attempt < 2
                then update_attempt env i now dsl status sid (attempt + 1) t'
                else (Inl e, t'))
      else (Inl VersionAllocationFailed, t))"
  by pat_completeness auto
termination
  by (relation "measure (\<lambda>(env, i, now, dsl, status, sid, attempt, t). 3 - attempt)") auto

declare update_attempt.simps [simp del]

definition policy_update ::
    "(nat \<Rightarrow> 'r policy_table \<Rightarrow> 'r policy_table) \<Rightarrow> string \<Rightarrow> int \<Rightarrow> 'r dsl_doc option \<Rightarrow>
     string option \<Rightarrow> string option \<Rightarrow> 'r policy_table \<Rightarrow>
     (policy_error + 'r tool_policy_set) \<times> 'r policy_table" where
  "policy_update env i now dsl status existingServerId t =
     (case dsl of
        Some _ \<Rightarrow> update_attempt env i now dsl status existingServerId 0 t
      | None \<Rightarrow>
          (case policy_row_update i now None status None t of
             Inr (p, t') \<Rightarrow> (Inr p, t') | Inl e \<Rightarrow> (Inl e, t)))"

definition policy_delete ::
    "string \<Rightarrow> 'r policy_table \<Rightarrow> (policy_error + 'r tool_policy_set) \<times> 'r policy_table" where
  "policy_delete i t =
     (case policy_findById t i of
        None \<Rightarrow> (Inl RecordNotFound, t)
      | Some p \<Rightarrow> (Inr p, filter (\<lambda>q. ps_id q \<noteq> i) t))"

definition getEffectivePolicy :: "'r policy_table \<Rightarrow> string option \<Rightarrow> 'r policy_table" where
  "getEffectivePolicy t sid =
     (case sid of
        Some s \<Rightarrow> order_desc ps_version
          (filter (\<lambda>p. ps_status p = ''active'' \<and> ps_serverId p = Some s) t)
      | None \<Rightarrow> []) @
     order_desc ps_version (filter (\<lambda>p. ps_status p = ''active'' \<and> ps_serverId p = None) t)"

definition archiveByServerId :: "string option \<Rightarrow> 'r policy_table \<Rightarrow> nat \<times> 'r policy_table" where
  "archiveByServerId sid t =
     (let P = (\<lambda>p. ps_serverId p = sid \<and> ps_status p = ''active'')
      in (length (filter P t), sql_update P (\<lambda>p. p\<lparr>ps_status := ''archived''\<rparr>) t))"

section \<open>The engine\<close>

datatype danger_level = Silent | Notification | Approval
datatype policy_decision = Allow | RequireApproval | Deny

record 'r evaluate_params =
  ep_userId :: string
  ep_serverId :: "string option"
  ep_toolName :: string
  ep_args :: "'r jsval"
  ep_dangerLevel :: danger_level

record policy_result =
  pr_decision :: policy_decision
  pr_policyVersion :: int
  pr_matchedRuleId :: "string option"
  pr_reason :: "string option"

record 'r cached_policies =
  cp_policies :: "'r policy_table"
  cp_fetchedAt :: int

type_synonym 'r policy_cache = "(string, 'r cached_policies) jsmap"

definition policy_ttl :: int where
  "policy_ttl = 30000"

definition mapDecision :: "string \<Rightarrow> policy_decision" where
  "mapDecision d =
     (if d = ''ALLOW'' then Allow
      else if d = ''REQUIRE_APPROVAL'' then RequireApproval
      else if d = ''DENY'' then Deny
      else Allow)"

definition fallbackToDangerLevel :: "danger_level \<Rightarrow> policy_result" where
  "fallbackToDangerLevel dl =
     \<lparr>pr_decision = (case dl of Approval \<Rightarrow> RequireApproval | _ \<Rightarrow> Allow),
      pr_policyVersion = 0, pr_matchedRuleId = None, pr_reason = None\<rparr>"

definition params_context :: "'r evaluate_params \<Rightarrow> 'r eval_context" where
  "params_context ps =
     \<lparr>ctx_serverId = ep_serverId ps, ctx_toolName = ep_toolName ps, ctx_args = ep_args ps\<rparr>"

text \<open>The loop over the policy sets; sets without rules are skipped.\<close>

fun evaluate_policies ::
    "'r platform \<Rightarrow> 'r \<Rightarrow> 'r evaluate_params \<Rightarrow> 'r policy_table \<Rightarrow> policy_result" where
  "evaluate_policies pf fresh ps [] = fallbackToDangerLevel (ep_dangerLevel ps)"
| "evaluate_policies pf fresh ps (p # policies) =
     (case ps_dsl p of
        DslObject (Some (r # rs)) \<Rightarrow>
          (let result = dsl_evaluate pf fresh (r # rs) (params_context ps)
           in case matchedRuleId result of
                Some rid \<Rightarrow>
                  \<lparr>pr_decision = mapDecision (res_decision result),
                   pr_policyVersion = ps_version p, pr_matchedRuleId = Some rid,
                   pr_reason = res_reason result\<rparr>
              | None \<Rightarrow> evaluate_policies pf fresh ps policies)
      | _ \<Rightarrow> evaluate_policies pf fresh ps policies)"

definition cacheKey :: "string option \<Rightarrow> string" where
  "cacheKey sid = (case sid of Some s \<Rightarrow> s | None \<Rightarrow> ''__global__'')"

definition engine_policies ::
    "int \<Rightarrow> 'r policy_table \<Rightarrow> string option \<Rightarrow> 'r policy_cache \<Rightarrow> 'r policy_table \<times> 'r policy_cache" where
  "engine_policies now t sid cache =
     (let fetch = (let policies = getEffectivePolicy t sid
                   in (policies, AList.update (cacheKey sid)
                         \<lparr>cp_policies = policies, cp_fetchedAt = now\<rparr> cache))
      in case map_of cache (cacheKey sid) of
           Some c \<Rightarrow> if now - cp_fetchedAt c < policy_ttl then (cp_policies c, cache) else fetch
         | None \<Rightarrow> fetch)"

definition engine_evaluate ::
    "'r platform \<Rightarrow> 'r \<Rightarrow> int \<Rightarrow> 'r policy_table \<Rightarrow> 'r evaluate_params \<Rightarrow> 'r policy_cache \<Rightarrow>
     policy_result \<times> 'r policy_cache" where
  "engine_evaluate pf fresh now t ps cache =
     (case engine_policies now t (ep_serverId ps) cache of
        (policies, cache') \<Rightarrow>
          (if policies = [] then fallbackToDangerLevel (ep_dangerLevel ps)
           else evaluate_policies pf fresh ps policies, cache'))"

definition policy_clearCache :: "string option \<Rightarrow> 'r policy_cache \<Rightarrow> 'r policy_cache" where
  "policy_clearCache sid cache =
     (case sid of
        Some s \<Rightarrow> AList.delete ''__global__'' (AList.delete s cache)
      | None \<Rightarrow> [])"

section \<open>The admin handlers\<close>

record 'r policy_world =
  pw_table :: "'r policy_table"
  pw_cache :: "'r policy_cache"

definition normalizeServerId :: "string option \<Rightarrow> string option" where
  "normalizeServerId sid =
     (case sid of Some s \<Rightarrow> if js_trim s = [] then None else Some s | None \<Rightarrow> None)"

definition handleCreatePolicySet ::
    "(nat \<Rightarrow> 'r policy_table \<Rightarrow> 'r policy_table) \<Rightarrow> (nat \<Rightarrow> string) \<Rightarrow> int \<Rightarrow> string option \<Rightarrow>
     'r dsl_doc \<Rightarrow> 'r policy_world \<Rightarrow> (policy_error + 'r tool_policy_set) \<times> 'r policy_world" where
  "handleCreatePolicySet env new_id now serverId dsl w =
     (let sid = normalizeServerId serverId in
      if dsl = DslPrimitive then (Inl InvalidRequest, w)
      else case policy_create env new_id now sid dsl (pw_table w) of
          (Inl e, t) \<Rightarrow> (Inl e, w\<lparr>pw_table := t\<rparr>)
        | (Inr p, t) \<Rightarrow>
            (Inr p, w\<lparr>pw_table := t, pw_cache := policy_clearCache sid (pw_cache w)\<rparr>))"

definition handleGetPolicySets ::
    "string option \<Rightarrow> string option option \<Rightarrow> 'r policy_world \<Rightarrow> policy_error + 'r policy_table" where
  "handleGetPolicySets i serverId w =
     (case i of
        Some k \<Rightarrow>
          if js_trim k = [] then Inl InvalidRequest
          else (case policy_findById (pw_table w) (js_trim k) of
                  None \<Rightarrow> Inl InvalidRequest | Some p \<Rightarrow> Inr [p])
      | None \<Rightarrow>
          (case serverId of
             Some sid \<Rightarrow> Inr (policy_findByServerId (pw_table w) (normalizeServerId sid))
           | None \<Rightarrow> Inr (pw_table w)))"

definition handleUpdatePolicySet ::
    "(nat \<Rightarrow> 'r policy_table \<Rightarrow> 'r policy_table) \<Rightarrow> int \<Rightarrow> string \<Rightarrow> 'r dsl_doc option \<Rightarrow>
     string option \<Rightarrow> 'r policy_world \<Rightarrow> (policy_error + 'r tool_policy_set) \<times> 'r policy_world" where
  "handleUpdatePolicySet env now i dsl status w =
     (if i = [] then (Inl InvalidRequest, w)
      else case policy_findById (pw_table w) i of
          None \<Rightarrow> (Inl InvalidRequest, w)
        | Some existing \<Rightarrow>
            (case policy_update env i now dsl status (ps_serverId existing) (pw_table w) of
               (Inl e, t) \<Rightarrow> (Inl e, w\<lparr>pw_table := t\<rparr>)
             | (Inr p, t) \<Rightarrow>
                 (Inr p, w\<lparr>pw_table := t,
                   pw_cache := policy_clearCache (ps_serverId existing) (pw_cache w)\<rparr>)))"

definition handleDeletePolicySet ::
    "string \<Rightarrow> 'r policy_world \<Rightarrow> (policy_error + 'r tool_policy_set) \<times> 'r policy_world" where
  "handleDeletePolicySet i w =
     (if i = [] then (Inl InvalidRequest, w)
      else let existing = policy_findById (pw_table w) i in
        case policy_delete i (pw_table w) of
          (Inl e, t) \<Rightarrow> (Inl e, w\<lparr>pw_table := t\<rparr>)
        | (Inr p, t) \<Rightarrow>
            (Inr p, w\<lparr>pw_table := t,
              pw_cache := policy_clearCache
                (case existing of Some e \<Rightarrow> ps_serverId e | None \<Rightarrow> None) (pw_cache w)\<rparr>))"

definition handleGetEffectivePolicy ::
    "string option \<Rightarrow> 'r policy_world \<Rightarrow> 'r policy_table" where
  "handleGetEffectivePolicy serverId w = getEffectivePolicy (pw_table w) (normalizeServerId serverId)"

definition world_evaluate ::
    "'r platform \<Rightarrow> 'r \<Rightarrow> int \<Rightarrow> 'r evaluate_params \<Rightarrow> 'r policy_world \<Rightarrow>
     policy_result \<times> 'r policy_world" where
  "world_evaluate pf fresh now ps w =
     (case engine_evaluate pf fresh now (pw_table w) ps (pw_cache w) of
        (res, cache) \<Rightarrow> (res, w\<lparr>pw_cache := cache\<rparr>))"

section \<open>Which policy set decides\<close>

definition policy_applies :: "'r platform \<Rightarrow> 'r \<Rightarrow> 'r evaluate_params \<Rightarrow> 'r tool_policy_set \<Rightarrow> bool" where
  "policy_applies pf fresh ps p =
     (case ps_dsl p of
        DslObject (Some (r # rs)) \<Rightarrow>
          matchedRuleId (dsl_evaluate pf fresh (r # rs) (params_context ps)) \<noteq> None
      | _ \<Rightarrow> False)"

definition policy_verdict :: "'r platform \<Rightarrow> 'r \<Rightarrow> 'r evaluate_params \<Rightarrow> 'r tool_policy_set \<Rightarrow> policy_result" where
  "policy_verdict pf fresh ps p =
     (case ps_dsl p of
        DslObject (Some rules) \<Rightarrow>
          (let result = dsl_evaluate pf fresh rules (params_context ps)
           in \<lparr>pr_decision = mapDecision (res_decision result), pr_policyVersion = ps_version p,
               pr_matchedRuleId = matchedRuleId result, pr_reason = res_reason result\<rparr>)
      | _ \<Rightarrow> fallbackToDangerLevel (ep_dangerLevel ps))"

lemma evaluate_policies_Cons:
  "evaluate_policies pf fresh ps (p # policies) =
     (if policy_applies pf fresh ps p then policy_verdict pf fresh ps p
      else evaluate_policies pf fresh ps policies)"
proof (cases "ps_dsl p")
  case DslPrimitive
  then show ?thesis by (simp add: policy_applies_def)
next
  case (DslObject rules)
  show ?thesis
  proof (cases rules)
    case None
    with DslObject show ?thesis by (simp add: policy_applies_def)
  next
    case (Some rs)
    with DslObject show ?thesis
      by (cases rs) (auto simp: policy_applies_def policy_verdict_def Let_def split: option.split)
  qed
qed

lemma evaluate_policies_find:
  "evaluate_policies pf fresh ps policies =
     (case find (policy_applies pf fresh ps) policies of
        Some p \<Rightarrow> policy_verdict pf fresh ps p
      | None \<Rightarrow> fallbackToDangerLevel (ep_dangerLevel ps))"
  by (induction policies) (simp_all add: evaluate_policies_Cons del: evaluate_policies.simps(2))

lemma sorted_wrt_find:
  assumes "sorted_wrt R xs" "find P xs = Some x" "y \<in> set xs" "P y"
  shows "x = y \<or> R x y"
  using assms by (induction xs) (auto split: if_splits)

text \<open>
  What the engine relies on from a source of policy sets: only active sets of the server or
  global ones, the server's own before the global ones, and each group newest first.
\<close>

locale policy_source =
  fixes effective :: "'t \<Rightarrow> string option \<Rightarrow> 'r policy_table"
  assumes effective_active:
      "p \<in> set (effective t sid) \<Longrightarrow>
       ps_status p = ''active'' \<and> (ps_serverId p = sid \<or> ps_serverId p = None)"
    and server_first:
      "sorted_wrt (\<lambda>p q. ps_serverId p = None \<longrightarrow> ps_serverId q = None) (effective t sid)"
    and newest_first:
      "sorted_wrt (\<lambda>p q. ps_serverId p = ps_serverId q \<longrightarrow> ps_version q \<le> ps_version p)
         (effective t sid)"
begin

lemma deciding_set:
  assumes "find P (effective t sid) = Some p" "q \<in> set (effective t sid)" "P q"
  shows "(ps_serverId p = None \<longrightarrow> ps_serverId q = None) \<and>
         (ps_serverId q = ps_serverId p \<longrightarrow> ps_version q \<le> ps_version p)"
  using sorted_wrt_find[OF server_first assms] sorted_wrt_find[OF newest_first assms] by auto

lemma deciding_set_active:
  assumes "find P (effective t sid) = Some p"
  shows "ps_status p = ''active'' \<and> (ps_serverId p = sid \<or> ps_serverId p = None)"
proof -
  have "p \<in> set (effective t sid)" using assms by (auto simp: find_Some_iff)
  then show ?thesis by (rule effective_active)
qed

end

lemma sorted_wrt_weaken: "sorted_wrt R xs \<Longrightarrow> (\<And>x y. R x y \<Longrightarrow> Q x y) \<Longrightarrow> sorted_wrt Q xs"
  by (rule sorted_wrt_mono_rel) auto

lemma sorted_wrt_all:
  "(\<And>x y. x \<in> set xs \<Longrightarrow> y \<in> set xs \<Longrightarrow> Q x y) \<Longrightarrow> sorted_wrt Q xs"
  by (induction xs) auto

lemma newest_first_order_desc: "sorted_wrt (\<lambda>p q. A p q \<longrightarrow> k q \<le> k p) (order_desc k xs)"
  by (rule sorted_wrt_weaken[OF order_desc_sorted]) simp

interpretation repo: policy_source getEffectivePolicy
proof (unfold_locales, goal_cases)
  case (1 p t sid)
  then show ?case by (auto simp: getEffectivePolicy_def split: option.splits)
next
  case (2 t sid)
  then show ?case
    by (auto simp: getEffectivePolicy_def sorted_wrt_append intro!: sorted_wrt_all
        split: option.splits)
next
  case (3 t sid)
  then show ?case
    by (auto simp: getEffectivePolicy_def sorted_wrt_append intro: newest_first_order_desc
        split: option.splits)
qed

section \<open>Inserting and updating\<close>

lemma latest_version_ge: "p \<in> set t \<Longrightarrow> ps_serverId p = sid \<Longrightarrow> ps_version p \<le> latest_version t sid"
  unfolding latest_version_def
  by (cases "find_first_desc ps_version (\<lambda>p. ps_serverId p = sid) t")
    (auto simp: find_first_desc_None_iff dest: find_first_desc_Some)

definition version_key :: "'r tool_policy_set \<Rightarrow> string option \<times> int" where
  "version_key p = (ps_serverId p, ps_version p)"

definition table_ok :: "'r policy_table \<Rightarrow> bool" where
  "table_ok t \<longleftrightarrow> distinct (map ps_id t) \<and> distinct (map version_key t)"

lemma policy_insert_ok: "policy_insert p t = Inr t' \<Longrightarrow> table_ok t \<Longrightarrow> table_ok t' \<and> t' = t @ [p]"
  by (auto simp: policy_insert_def table_ok_def version_key_def list_ex_iff split: if_splits) blast+

lemma policy_insert_error: "policy_insert p t = Inl e \<Longrightarrow> e = UniqueViolation"
  by (auto simp: policy_insert_def split: if_splits)

text \<open>Whatever other clients do meanwhile, allocation ends with a fresh version or a conflict.\<close>

lemma create_attempt_result:
  assumes "create_attempt env new_id now sid dsl attempt t = (res, t')" "attempt < 3"
    and "\<And>n u. table_ok u \<Longrightarrow> table_ok (env n u)" "table_ok t"
  shows "table_ok t' \<and>
    (case res of
       Inl e \<Rightarrow> e = UniqueViolation
     | Inr p \<Rightarrow> p \<in> set t' \<and> ps_serverId p = sid \<and> ps_status p = ''active'' \<and> ps_dsl p = dsl)"
  using assms
proof (induction env new_id now sid dsl attempt t rule: create_attempt.induct)
  case (1 env new_id now sid dsl attempt t)
  let ?p = "\<lparr>ps_id = new_id attempt, ps_serverId = sid, ps_version = latest_version t sid + 1,
     ps_status = ''active'', ps_dsl = dsl, ps_createdAt = now, ps_updatedAt = now\<rparr>"
  have ok: "table_ok (env attempt t)" using "1.prems" by blast
  show ?case
  proof (cases "policy_insert ?p (env attempt t)")
    case (Inr u)
    then have "res = Inr ?p" "t' = u"
      using "1.prems" by (simp_all add: create_attempt.simps[of env new_id now sid dsl attempt t] Let_def)
    with policy_insert_ok[OF Inr ok] show ?thesis by auto
  next
    case (Inl e)
    have e: "e = UniqueViolation" using policy_insert_error[OF Inl] .
    show ?thesis
    proof (cases "attempt < 2")
      case True
      with "1.prems" Inl e
      have "create_attempt env new_id now sid dsl (attempt + 1) (env attempt t) = (res, t')"
        by (simp add: create_attempt.simps[of env new_id now sid dsl attempt t] Let_def)
      with "1.IH"[OF "1.prems"(2) refl refl refl Inl] e True "1.prems" ok show ?thesis by simp
    next
      case False
      then show ?thesis using "1.prems" Inl e ok
        by (auto simp: create_attempt.simps[of env new_id now sid dsl attempt t] Let_def)
    qed
  qed
qed

lemma create_quiet:
  fixes t :: "'r policy_table"
  assumes "create_attempt (\<lambda>_ u. u) new_id now sid dsl attempt t = (res, t')"
  shows "(\<exists>p. res = Inr p \<and> policy_insert p t = Inr t' \<and> ps_serverId p = sid \<and>
        ps_version p = latest_version t sid + 1) \<or> (\<exists>e. res = Inl e \<and> t' = t)"
  using assms
proof (induction "3 - attempt" arbitrary: attempt)
  case 0
  then show ?case by (subst (asm) create_attempt.simps) auto
next
  case (Suc n)
  from Suc.hyps(2) have lt: "attempt < 3" and n: "n = 3 - Suc attempt" by auto
  from Suc.prems lt show ?case
    by (subst (asm) create_attempt.simps)
      (auto simp: Let_def dest: Suc.hyps(1)[OF n] split: if_splits sum.splits)
qed

lemma policy_row_update_Inr:
  assumes "policy_row_update i now dsl status version t = Inr (p', t')" "table_ok t"
  shows "\<exists>p. policy_findById t i = Some p \<and> ps_id p' = i \<and> ps_serverId p' = ps_serverId p \<and>
     t' = map (\<lambda>q. if ps_id q = i then p' else q) t \<and> table_ok t'"
proof -
  obtain p where p: "policy_findById t i = Some p"
    using assms(1) by (auto simp: policy_row_update_def split: option.splits)
  then have pi: "ps_id p = i" "p \<in> set t" by (auto simp: policy_findById_def find_Some_iff)
  let ?f = "\<lambda>q. if ps_id q = i then p' else q"
  have p': "ps_id p' = i" "ps_serverId p' = ps_serverId p" and t': "t' = map ?f t"
    and free: "\<forall>q\<in>set t. ps_id q \<noteq> i \<longrightarrow> version_key q \<noteq> version_key p'"
    using assms(1) p pi
    by (auto simp: policy_row_update_def Let_def list_ex_iff version_key_def split: if_splits)
  have "map ps_id t' = map ps_id t" unfolding t' using p' by (induction t) auto
  moreover have "distinct (map version_key (map ?f t))"
  proof -
    have ids: "distinct (map ps_id t)" "distinct (map version_key t)"
      using assms(2) by (auto simp: table_ok_def)
    have "inj_on (\<lambda>q. version_key (?f q)) (set t)"
    proof (rule inj_onI)
      fix x y assume xy: "x \<in> set t" "y \<in> set t" "version_key (?f x) = version_key (?f y)"
      have inj: "\<And>u v. u \<in> set t \<Longrightarrow> v \<in> set t \<Longrightarrow> ps_id u = ps_id v \<Longrightarrow> u = v"
        "\<And>u v. u \<in> set t \<Longrightarrow> v \<in> set t \<Longrightarrow> version_key u = version_key v \<Longrightarrow> u = v"
        using ids by (auto simp: distinct_map inj_on_def)
      show "x = y" using xy inj free by (metis (full_types))
    qed
    with ids(1) show ?thesis by (auto simp: distinct_map o_def)
  qed
  ultimately have "table_ok t'" using assms(2) unfolding table_ok_def t' by metis
  with p p' t' show ?thesis by blast
qed

lemma update_quiet:
  fixes t :: "'r policy_table"
  assumes "update_attempt (\<lambda>_ u. u) i now dsl status sid attempt t = (res, t')"
  shows "(\<exists>p v. res = Inr p \<and> policy_row_update i now dsl status v t = Inr (p, t')) \<or>
         (\<exists>e. res = Inl e \<and> t' = t)"
  using assms
proof (induction "3 - attempt" arbitrary: attempt)
  case 0
  then show ?case by (subst (asm) update_attempt.simps) auto
next
  case (Suc n)
  from Suc.hyps(2) have lt: "attempt < 3" and n: "n = 3 - Suc attempt" by auto
  from Suc.prems lt show ?case
    by (subst (asm) update_attempt.simps)
      (auto simp: Let_def dest: Suc.hyps(1)[OF n] split: if_splits sum.splits)
qed

lemma policy_update_quiet:
  assumes "policy_update (\<lambda>_ u. u) i now dsl status sid t = (res, t')"
  shows "(\<exists>p v. res = Inr p \<and> policy_row_update i now dsl status v t = Inr (p, t')) \<or>
         (\<exists>e. res = Inl e \<and> t' = t)"
  using assms update_quiet
  by (auto simp: policy_update_def split: option.splits sum.splits) blast+

section \<open>The cache agrees with the table\<close>

text \<open>
  Two tables that differ only in rows of one server have the same effective policy for every
  other server.
\<close>

definition same_off :: "string option \<Rightarrow> 'r policy_table \<Rightarrow> 'r policy_table \<Rightarrow> bool" where
  "same_off sid t t' \<longleftrightarrow>
     filter (\<lambda>p. ps_serverId p \<noteq> sid) t' = filter (\<lambda>p. ps_serverId p \<noteq> sid) t"

lemma same_off_filter:
  assumes "same_off sid t t'" "\<And>p. P p \<Longrightarrow> ps_serverId p \<noteq> sid"
  shows "filter P t' = filter P t"
proof -
  have "filter P u = filter P (filter (\<lambda>p. ps_serverId p \<noteq> sid) u)" for u
    using assms(2) by (auto intro: filter_cong)
  then show ?thesis using assms(1) by (metis same_off_def)
qed

lemma effective_same_off:
  assumes "same_off (Some s) t t'" "sid \<noteq> Some s"
  shows "getEffectivePolicy t' sid = getEffectivePolicy t sid"
proof -
  have "filter (\<lambda>p. ps_status p = ''active'' \<and> ps_serverId p = x) t' =
        filter (\<lambda>p. ps_status p = ''active'' \<and> ps_serverId p = x) t" if "x \<noteq> Some s" for x
    using that by (intro same_off_filter[OF assms(1)]) auto
  with assms(2) show ?thesis by (cases sid) (simp_all add: getEffectivePolicy_def)
qed

definition policy_coherent :: "'r policy_world \<Rightarrow> bool" where
  "policy_coherent w \<longleftrightarrow>
     jsmap_ok (pw_cache w) \<and>
     (\<forall>sid c. sid \<noteq> Some ''__global__'' \<longrightarrow> map_of (pw_cache w) (cacheKey sid) = Some c \<longrightarrow>
        cp_policies c = getEffectivePolicy (pw_table w) sid)"

definition policy_inv :: "'r policy_world \<Rightarrow> bool" where
  "policy_inv w \<longleftrightarrow> policy_coherent w \<and> table_ok (pw_table w)"

lemma coherent_change:
  assumes "policy_coherent w" "same_off sid (pw_table w) t"
  shows "policy_coherent (w\<lparr>pw_table := t, pw_cache := policy_clearCache sid (pw_cache w)\<rparr>)"
proof (cases sid)
  case None
  then show ?thesis by (simp add: policy_coherent_def policy_clearCache_def)
next
  case (Some s)
  have ok: "jsmap_ok (pw_cache w)" using assms(1) by (simp add: policy_coherent_def)
  have "cp_policies c = getEffectivePolicy t k"
    if "k \<noteq> Some ''__global__''"
      "map_of (policy_clearCache sid (pw_cache w)) (cacheKey k) = Some c" for k c
  proof -
    have "k \<noteq> Some s" "map_of (pw_cache w) (cacheKey k) = Some c"
      using that Some ok
      by (auto simp: policy_clearCache_def delete_conv' cacheKey_def split: if_splits option.splits)
    with that assms Some show ?thesis
      by (simp add: policy_coherent_def effective_same_off)
  qed
  moreover have "jsmap_ok (policy_clearCache sid (pw_cache w))"
    using ok Some by (simp add: policy_clearCache_def jsmap.ok_del)
  ultimately show ?thesis by (simp add: policy_coherent_def)
qed

lemma cacheKey_inject:
  "x \<noteq> Some ''__global__'' \<Longrightarrow> y \<noteq> Some ''__global__'' \<Longrightarrow> cacheKey x = cacheKey y \<longleftrightarrow> x = y"
  by (auto simp: cacheKey_def split: option.splits)

lemma engine_policies_coherent:
  assumes "policy_coherent w" "sid \<noteq> Some ''__global__''"
    and "engine_policies now (pw_table w) sid (pw_cache w) = (policies, cache)"
  shows "policies = getEffectivePolicy (pw_table w) sid \<and> policy_coherent (w\<lparr>pw_cache := cache\<rparr>)"
proof -
  let ?c = "\<lparr>cp_policies = getEffectivePolicy (pw_table w) sid, cp_fetchedAt = now\<rparr>"
  have fetch: "policy_coherent (w\<lparr>pw_cache := AList.update (cacheKey sid) ?c (pw_cache w)\<rparr>)"
    using assms(1,2)
    by (auto simp: policy_coherent_def jsmap.ok_put update_conv' cacheKey_inject)
  show ?thesis
    using assms fetch
    by (auto simp: engine_policies_def Let_def policy_coherent_def split: option.splits if_splits)
qed

section \<open>Every reachable state\<close>

text \<open>
  The steps of a running gateway on its policies: the three handlers that write, run without
  foreign writes between their queries, and a tool call's evaluation at any time. No server is
  named \<open>__global__\<close>, the key the cache keeps for calls without a server.
\<close>

inductive policy_step :: "'r policy_world \<Rightarrow> 'r policy_world \<Rightarrow> bool" where
  ps_create: "handleCreatePolicySet (\<lambda>_ u. u) new_id now sid dsl w = (res, w') \<Longrightarrow> policy_step w w'"
| ps_update: "handleUpdatePolicySet (\<lambda>_ u. u) now i dsl status w = (res, w') \<Longrightarrow> policy_step w w'"
| ps_delete: "handleDeletePolicySet i w = (res, w') \<Longrightarrow> policy_step w w'"
| ps_evaluate: "ep_serverId ps \<noteq> Some ''__global__'' \<Longrightarrow>
    world_evaluate pf fresh now ps w = (verdict, w') \<Longrightarrow> policy_step w w'"

inductive policy_reach :: "'r policy_world \<Rightarrow> bool" where
  pr_start: "policy_reach \<lparr>pw_table = [], pw_cache = []\<rparr>"
| pr_step: "policy_reach w \<Longrightarrow> policy_step w w' \<Longrightarrow> policy_reach w'"

lemma same_off_append: "ps_serverId p = sid \<Longrightarrow> same_off sid t (t @ [p])"
  by (simp add: same_off_def)

lemma same_off_map:
  assumes "\<And>q. q \<in> set t \<Longrightarrow> ps_id q = i \<Longrightarrow> ps_serverId q = sid" "ps_serverId p' = sid"
  shows "same_off sid t (map (\<lambda>q. if ps_id q = i then p' else q) t)"
  using assms by (induction t) (auto simp: same_off_def)

lemma same_off_delete:
  assumes "\<And>q. q \<in> set t \<Longrightarrow> ps_id q = i \<Longrightarrow> ps_serverId q = sid"
  shows "same_off sid t (filter (\<lambda>q. ps_id q \<noteq> i) t)"
  using assms by (auto simp: same_off_def intro: filter_cong)

lemma found_server:
  assumes "table_ok t" "policy_findById t i = Some p" "q \<in> set t" "ps_id q = i"
  shows "ps_serverId q = ps_serverId p"
proof -
  have "p \<in> set t" "ps_id p = i" using assms(2) by (auto simp: policy_findById_def find_Some_iff)
  then have "q = p" using assms by (auto simp: table_ok_def distinct_map inj_on_def)
  then show ?thesis by simp
qed

lemma table_ok_filter: "table_ok t \<Longrightarrow> table_ok (filter P t)"
  by (auto simp: table_ok_def distinct_map_filter)

lemma create_inv:
  assumes "policy_inv w" "handleCreatePolicySet (\<lambda>_ u. u) new_id now serverId dsl w = (res, w')"
  shows "policy_inv w'"
proof (cases "dsl = DslPrimitive")
  case True
  then show ?thesis using assms by (simp add: handleCreatePolicySet_def)
next
  case False
  let ?sid = "normalizeServerId serverId"
  obtain r t where rt: "policy_create (\<lambda>_ u. u) new_id now ?sid dsl (pw_table w) = (r, t)" by force
  from create_quiet[OF rt[unfolded policy_create_def]]
  consider (new) p where "r = Inr p" "policy_insert p (pw_table w) = Inr t" "ps_serverId p = ?sid"
    | (err) e where "r = Inl e" "t = pw_table w" by blast
  then show ?thesis
  proof cases
    case new
    then have "table_ok t" "t = pw_table w @ [p]"
      using assms(1) policy_insert_ok unfolding policy_inv_def by blast+
    moreover have "w' = w\<lparr>pw_table := t, pw_cache := policy_clearCache ?sid (pw_cache w)\<rparr>"
      using assms(2) False rt new(1) by (simp add: handleCreatePolicySet_def Let_def)
    ultimately show ?thesis
      using coherent_change[of w ?sid t] same_off_append[of p ?sid "pw_table w"] assms(1) new(3)
      by (simp add: policy_inv_def)
  next
    case err
    then show ?thesis using assms False rt by (simp add: handleCreatePolicySet_def Let_def)
  qed
qed

lemma update_inv:
  assumes "policy_inv w" "handleUpdatePolicySet (\<lambda>_ u. u) now i dsl status w = (res, w')"
  shows "policy_inv w'"
proof (cases "i = [] \<or> policy_findById (pw_table w) i = None")
  case True
  then show ?thesis using assms by (auto simp: handleUpdatePolicySet_def split: if_splits)
next
  case False
  then obtain e where e: "policy_findById (pw_table w) i = Some e" by blast
  obtain r t where rt: "policy_update (\<lambda>_ u. u) i now dsl status (ps_serverId e) (pw_table w) = (r, t)"
    by force
  from policy_update_quiet[OF rt]
  consider (new) p v where "r = Inr p" "policy_row_update i now dsl status v (pw_table w) = Inr (p, t)"
    | (err) x where "r = Inl x" "t = pw_table w" by blast
  then show ?thesis
  proof cases
    case new
    have ok: "table_ok (pw_table w)" using assms(1) by (simp add: policy_inv_def)
    obtain tk: "table_ok t" and "ps_serverId p = ps_serverId e"
        "t = map (\<lambda>q. if ps_id q = i then p else q) (pw_table w)"
      using policy_row_update_Inr[OF new(2) ok] e by auto
    then have "same_off (ps_serverId e) (pw_table w) t"
      using same_off_map[of "pw_table w" i "ps_serverId e" p] found_server[OF ok e] by blast
    moreover have "w' = w\<lparr>pw_table := t, pw_cache := policy_clearCache (ps_serverId e) (pw_cache w)\<rparr>"
      using assms(2) False e rt new(1) by (simp add: handleUpdatePolicySet_def)
    ultimately show ?thesis
      using coherent_change[of w "ps_serverId e" t] assms(1) tk by (simp add: policy_inv_def)
  next
    case err
    then show ?thesis using assms False e rt by (simp add: handleUpdatePolicySet_def)
  qed
qed

lemma delete_inv:
  assumes "policy_inv w" "handleDeletePolicySet i w = (res, w')"
  shows "policy_inv w'"
proof (cases "i = [] \<or> policy_findById (pw_table w) i = None")
  case True
  then show ?thesis using assms
    by (auto simp: handleDeletePolicySet_def policy_delete_def split: if_splits)
next
  case False
  then obtain e where e: "policy_findById (pw_table w) i = Some e" by blast
  let ?t = "filter (\<lambda>q. ps_id q \<noteq> i) (pw_table w)"
  have ok: "table_ok (pw_table w)" using assms(1) by (simp add: policy_inv_def)
  have w': "w' = w\<lparr>pw_table := ?t, pw_cache := policy_clearCache (ps_serverId e) (pw_cache w)\<rparr>"
    using assms(2) False e by (auto simp: handleDeletePolicySet_def policy_delete_def)
  have "same_off (ps_serverId e) (pw_table w) ?t"
    using same_off_delete found_server[OF ok e] by blast
  with coherent_change[of w "ps_serverId e" ?t] assms(1) w' table_ok_filter[OF ok]
  show ?thesis by (simp add: policy_inv_def)
qed

lemma evaluate_inv:
  assumes "policy_inv w" "ep_serverId ps \<noteq> Some ''__global__''"
    and "world_evaluate pf fresh now ps w = (verdict, w')"
  shows "policy_inv w' \<and>
     verdict = evaluate_policies pf fresh ps (getEffectivePolicy (pw_table w) (ep_serverId ps))"
proof -
  obtain policies cache where
      pc: "engine_policies now (pw_table w) (ep_serverId ps) (pw_cache w) = (policies, cache)" by force
  have co: "policy_coherent w" using assms(1) by (simp add: policy_inv_def)
  have "policies = getEffectivePolicy (pw_table w) (ep_serverId ps)"
      "policy_coherent (w\<lparr>pw_cache := cache\<rparr>)"
    using engine_policies_coherent[OF co assms(2) pc] by simp_all
  with assms(1,3) pc show ?thesis
    by (auto simp: world_evaluate_def engine_evaluate_def policy_inv_def)
qed

lemma policy_step_inv: "policy_step w w' \<Longrightarrow> policy_inv w \<Longrightarrow> policy_inv w'"
  by (induction rule: policy_step.induct) (auto dest: create_inv update_inv delete_inv evaluate_inv)

lemma policy_reach_inv: "policy_reach w \<Longrightarrow> policy_inv w"
proof (induction rule: policy_reach.induct)
  case pr_start
  show ?case by (simp add: policy_inv_def policy_coherent_def table_ok_def)
next
  case (pr_step w w')
  then show ?case using policy_step_inv by blast
qed

section \<open>A concrete policy world\<close>

definition demo_params :: "nat evaluate_params" where
  "demo_params =
     \<lparr>ep_userId = ''u1'', ep_serverId = Some ''s1'', ep_toolName = ''pay_now'',
      ep_args = JObj 1 [(''amount'', JNum (Fin 250))], ep_dangerLevel = Silent\<rparr>"

definition demo_world :: "nat policy_world" where
  "demo_world =
     snd (handleCreatePolicySet (\<lambda>_ u. u) (\<lambda>_. ''p2'') 20 None
       (DslObject (Some [demo_rule ''global'' None ''*'' ''ALLOW'']))
     (snd (handleCreatePolicySet (\<lambda>_ u. u) (\<lambda>_. ''p1'') 10 (Some ''s1'')
       (DslObject (Some [demo_rule ''own'' None ''pay_*'' ''DENY'']))
       \<lparr>pw_table = [], pw_cache = []\<rparr>)))"

lemma demo_world_reach: "policy_reach demo_world"
  unfolding demo_world_def
  by (rule pr_step[OF pr_step[OF pr_start]]; rule ps_create[OF prod.collapse[symmetric]])

section \<open>Properties\<close>



text \<open>
  A server's own policies outrank the global ones. When some active policy set has an
  applicable rule for a call, the verdict comes from a set \<open>p\<close> that is active, belongs to the
  call's server or is global, is global only if no set of the server applies, and is the newest
  version among the applicable sets of its group.
\<close>

theorem policy_precedence:
  assumes "q \<in> set (getEffectivePolicy t (ep_serverId ps))" and "policy_applies pf fresh ps q"
  shows "\<exists>p \<in> set (getEffectivePolicy t (ep_serverId ps)).
    evaluate_policies pf fresh ps (getEffectivePolicy t (ep_serverId ps)) = policy_verdict pf fresh ps p \<and>
    ps_status p = ''active'' \<and> (ps_serverId p = ep_serverId ps \<or> ps_serverId p = None) \<and>
    (ps_serverId p = None \<longrightarrow> ps_serverId q = None) \<and>
    (ps_serverId q = ps_serverId p \<longrightarrow> ps_version q \<le> ps_version p)"
proof -
  let ?ps = "getEffectivePolicy t (ep_serverId ps)"
  obtain p where p: "find (policy_applies pf fresh ps) ?ps = Some p"
    using assms by (cases "find (policy_applies pf fresh ps) ?ps") (auto simp: find_None_iff)
  then have mem: "p \<in> set ?ps" by (auto simp: find_Some_iff)
  have "evaluate_policies pf fresh ps ?ps = policy_verdict pf fresh ps p"
    by (simp add: evaluate_policies_find p)
  with repo.deciding_set[OF p assms] repo.deciding_set_active[OF p] show ?thesis
    by (intro bexI[OF _ mem]) simp
qed

theorem policy_precedence_witness:
  "\<exists>p \<in> set (getEffectivePolicy (pw_table demo_world) (Some ''s1'')). ps_serverId p = Some ''s1'' \<and>
     evaluate_policies demo_platform 0 demo_params (getEffectivePolicy (pw_table demo_world) (Some ''s1'')) =
     policy_verdict demo_platform 0 demo_params p"
proof -
  let ?e = "getEffectivePolicy (pw_table demo_world) (ep_serverId demo_params)"
  have e: "?e = getEffectivePolicy (pw_table demo_world) (Some ''s1'')" by (simp add: demo_params_def)
  have "\<exists>q \<in> set ?e. policy_applies demo_platform 0 demo_params q \<and> ps_serverId q = Some ''s1''"
    by code_simp
  then obtain q where "q \<in> set ?e" "policy_applies demo_platform 0 demo_params q"
      "ps_serverId q = Some ''s1''" by blast
  then show ?thesis
    using policy_precedence[of q "pw_table demo_world" demo_params demo_platform 0] e
    by (auto simp: demo_params_def)
qed

text \<open>
  Identifiers and versions stay unique. In every reachable state no two policy sets share an
  identifier, and no two sets of the same server (or two global ones) share a version.
\<close>

theorem policy_versions_unique:
  assumes "policy_reach w"
  shows "distinct (map ps_id (pw_table w)) \<and>
    distinct (map (\<lambda>p. (ps_serverId p, ps_version p)) (pw_table w))"
  using policy_reach_inv[OF assms] by (simp add: policy_inv_def table_ok_def version_key_def[abs_def])

theorem policy_versions_unique_witness:
  "length (pw_table demo_world) = 2 \<and> distinct (map ps_id (pw_table demo_world))"
  using policy_versions_unique[OF demo_world_reach] by (simp, code_simp)

text \<open>
  Creating a policy set under interference. Whatever other clients do between the read of
  the latest version and the insert, as long as the table keeps its unique indexes, the retry
  loop ends within three attempts: with a row in the table that carries the document and is
  active, or with the unique-constraint error of the last attempt; the fall-through error after
  the loop is never raised, and the indexes still hold.
\<close>

theorem policy_create_outcome:
  assumes "policy_create env new_id now sid dsl t = (res, t')"
    and "\<And>n u. table_ok u \<Longrightarrow> table_ok (env n u)" and "table_ok t"
  shows "table_ok t' \<and>
    (case res of
       Inl e \<Rightarrow> e = UniqueViolation
     | Inr p \<Rightarrow> p \<in> set t' \<and> ps_serverId p = sid \<and> ps_status p = ''active'' \<and> ps_dsl p = dsl)"
  using create_attempt_result[OF assms(1)[unfolded policy_create_def] _ assms(2,3)] by simp

text \<open>An adversary that always takes the version just read loses the race for the third time.\<close>

definition demo_rival :: "nat \<Rightarrow> nat policy_table \<Rightarrow> nat policy_table" where
  "demo_rival n u = (if n = 0 then
     (let p = \<lparr>ps_id = ''rival'', ps_serverId = None, ps_version = latest_version u None + 1,
        ps_status = ''active'', ps_dsl = DslPrimitive, ps_createdAt = 0, ps_updatedAt = 0\<rparr>
      in case policy_insert p u of Inr u' \<Rightarrow> u' | Inl _ \<Rightarrow> u) else u)"

lemma demo_rival_ok: "table_ok u \<Longrightarrow> table_ok (demo_rival n u)"
  using policy_insert_ok by (auto simp: demo_rival_def Let_def split: sum.splits)

theorem policy_create_outcome_witness:
  "case policy_create demo_rival (\<lambda>_. ''mine'') 5 None (DslObject None) [] of (res, t) \<Rightarrow>
     table_ok t \<and> map ps_version t = [1, 2]"
proof -
  obtain res t where rt: "policy_create demo_rival (\<lambda>_. ''mine'') 5 None (DslObject None) [] = (res, t)"
    by force
  have "map ps_version (snd (policy_create demo_rival (\<lambda>_. ''mine'') 5 None (DslObject None) [])) = [1, 2]"
    by code_simp
  then show ?thesis
    using policy_create_outcome[OF rt demo_rival_ok] rt by (simp add: table_ok_def)
qed

text \<open>
  An update may disable a policy set silently. Creating a policy set from a document that is
  not an object is refused, but updating an existing set to such a document (and to nothing
  else) succeeds, and the engine then skips that set.
\<close>

theorem update_accepts_primitive_dsl:
  assumes "table_ok (pw_table w)" and "policy_findById (pw_table w) i = Some p" and "i \<noteq> []"
  shows "fst (handleCreatePolicySet env new_id now (ps_serverId p) DslPrimitive w) = Inl InvalidRequest \<and>
    (\<exists>p'. fst (handleUpdatePolicySet (\<lambda>_ u. u) now i (Some DslPrimitive) None w) = Inr p' \<and>
      ps_id p' = i \<and> (\<forall>pf fresh ps. \<not> policy_applies pf fresh ps p'))"
proof -
  let ?v = "latest_version (pw_table w) (ps_serverId p) + 1"
  have p: "ps_id p = i" "p \<in> set (pw_table w)"
    using assms(2) by (auto simp: policy_findById_def find_Some_iff)
  let ?p' = "p\<lparr>ps_dsl := DslPrimitive, ps_version := ?v, ps_updatedAt := now\<rparr>"
  have free: "\<not> list_ex (\<lambda>q. ps_id q \<noteq> i \<and> ps_serverId q = ps_serverId p \<and> ps_version q = ?v) (pw_table w)"
    using latest_version_ge[of _ "pw_table w" "ps_serverId p"] by (fastforce simp: list_ex_iff)
  have "policy_row_update i now (Some DslPrimitive) None (Some ?v) (pw_table w) =
      Inr (?p', map (\<lambda>q. if ps_id q = i then ?p' else q) (pw_table w))"
    using assms(2) free by (simp add: policy_row_update_def Let_def)
  then have "fst (handleUpdatePolicySet (\<lambda>_ u. u) now i (Some DslPrimitive) None w) = Inr ?p'"
    using assms(2,3) by (simp add: handleUpdatePolicySet_def policy_update_def update_attempt.simps Let_def)
  moreover have "\<forall>pf fresh ps. \<not> policy_applies pf fresh ps ?p'" by (simp add: policy_applies_def)
  moreover have "ps_id ?p' = i" using p by simp
  ultimately show ?thesis by (auto simp: handleCreatePolicySet_def)
qed

theorem update_accepts_primitive_dsl_witness:
  "\<exists>p'. fst (handleUpdatePolicySet (\<lambda>_ u. u) 50 ''p1'' (Some DslPrimitive) None demo_world) = Inr p'"
proof -
  have ok: "table_ok (pw_table demo_world)"
    using policy_reach_inv[OF demo_world_reach] by (simp add: policy_inv_def)
  have "policy_findById (pw_table demo_world) ''p1'' \<noteq> None" by code_simp
  then obtain p where "policy_findById (pw_table demo_world) ''p1'' = Some p" by blast
  then show ?thesis using update_accepts_primitive_dsl[OF ok, of "''p1''" p] by blast
qed

end
