(* ===== verification/Cache_Policy.thy ===== *)
theory Cache_Policy
  imports Cache_Keys Policy_Engine
begin

text \<open>
  Which results may be cached, and how: \<open>src/mcp/core/cache/CachePolicyResolver.ts\<close>, with the
  environment readers of \<open>src/config/resultCacheConfig.ts\<close>. The results: a tool that needs
  approval is never cached, every resolved policy is within the limits of the code, and resource
  policies follow exact overrides first, then the most specific pattern.
\<close>

section \<open>Configuration\<close>

record cache_config =
  cfg_enabled :: bool
  cfg_backend :: string
  cfg_defaultTtlSeconds :: int
  cfg_defaultAdmissionPolicy :: string
  cfg_defaultAdmissionWindowSeconds :: int
  cfg_maxEntryBytes :: int
  cfg_keyPrefix :: string
  cfg_compress :: string
  cfg_compressionMinBytes :: int
  cfg_memoryMaxEntries :: int

record capability_policy =
  cc_enabled :: bool
  cc_ttlSeconds :: "int option"
  cc_scope :: "cache_scope option"
  cc_admissionPolicy :: "admission_policy option"
  cc_admissionWindowSeconds :: "int option"
  cc_denyFields :: "string list option"
  cc_allowFields :: "string list option"
  cc_maxEntryBytes :: "int option"

text \<open>In an override the field \<open>enabled\<close> of the policy itself may be missing too.\<close>

record override_policy =
  ov_enabled :: "bool option"
  ov_cache :: "(bool option \<times> capability_policy) option"

record tool_capability =
  tc_dangerLevel :: "danger_level option"
  tc_cache :: "capability_policy option"

record capabilities =
  cap_tools :: "(string \<times> tool_capability) list"
  cap_resources :: "(string \<times> capability_policy option) list"
  cap_prompts :: "(string \<times> capability_policy option) list"
  cap_exact :: "(string \<times> override_policy) list"
  cap_patterns :: "(string \<times> override_policy) list"

section \<open>Reading the environment\<close>

definition parseBooleanEnv :: "string option \<Rightarrow> bool \<Rightarrow> bool" where
  "parseBooleanEnv raw fallback =
     (case raw of
        None \<Rightarrow> fallback
      | Some r \<Rightarrow>
          (let normalized = js_toLowerCase (js_trim r) in
           if normalized \<in> {''true'', ''1'', ''yes'', ''on''} then True
           else if normalized \<in> {''false'', ''0'', ''no'', ''off''} then False
           else fallback))"

text \<open>\<open>parse10\<close> is \<open>Number.parseInt(raw, 10)\<close>, \<open>None\<close> when it is not a number.\<close>

definition clampIntEnv :: "(string \<Rightarrow> int option) \<Rightarrow> string option \<Rightarrow> int \<Rightarrow> int \<Rightarrow> int \<Rightarrow> int" where
  "clampIntEnv parse10 raw fallback mn mx =
     (case raw of
        None \<Rightarrow> fallback
      | Some r \<Rightarrow>
          (case parse10 r of
             None \<Rightarrow> fallback
           | Some parsed \<Rightarrow>
               if parsed < mn \<or> parsed > mx then max mn (min mx parsed) else parsed))"

definition parseEnumEnv :: "string option \<Rightarrow> string \<Rightarrow> string list \<Rightarrow> string" where
  "parseEnumEnv raw fallback allowed =
     (case raw of
        None \<Rightarrow> fallback
      | Some r \<Rightarrow>
          (let normalized = js_toLowerCase (js_trim r)
           in if normalized \<in> set allowed then normalized else fallback))"

section \<open>Resolving a policy\<close>

definition MIN_TTL_SECONDS :: int where "MIN_TTL_SECONDS = 1"
definition MAX_TTL_SECONDS :: int where "MAX_TTL_SECONDS = 86400"
definition MIN_ENTRY_BYTES :: int where "MIN_ENTRY_BYTES = 1024"
definition MAX_ENTRY_BYTES :: int where "MAX_ENTRY_BYTES = 5242880"

definition clamp :: "int \<Rightarrow> int \<Rightarrow> int \<Rightarrow> int" where
  "clamp v mn mx = max mn (min mx v)"

definition toAdmissionPolicy :: "string \<Rightarrow> admission_policy" where
  "toAdmissionPolicy v = (if v = admission_text SecondHit then SecondHit else Immediate)"

definition or_else :: "'a option \<Rightarrow> 'a \<Rightarrow> 'a" where
  "or_else x d = (case x of Some v \<Rightarrow> v | None \<Rightarrow> d)"

text \<open>\<open>Array.from(new Set(xs))\<close>: first occurrences, in order.\<close>

definition js_unique :: "'a list \<Rightarrow> 'a list" where
  "js_unique xs = rev (remdups (rev xs))"

definition resolvePolicy :: "cache_config \<Rightarrow> capability_policy option \<Rightarrow> resolved_policy option" where
  "resolvePolicy g capabilityPolicy =
     (case capabilityPolicy of
        None \<Rightarrow> None
      | Some c \<Rightarrow>
          if \<not> cc_enabled c then None
          else Some
            \<lparr>rp_enabled = True,
             rp_ttlSeconds = clamp (or_else (cc_ttlSeconds c) (cfg_defaultTtlSeconds g)) MIN_TTL_SECONDS MAX_TTL_SECONDS,
             rp_scope = or_else (cc_scope c) UserScope,
             rp_admissionPolicy =
               or_else (cc_admissionPolicy c) (toAdmissionPolicy (cfg_defaultAdmissionPolicy g)),
             rp_admissionWindowSeconds =
               clamp (or_else (cc_admissionWindowSeconds c) (cfg_defaultAdmissionWindowSeconds g))
                 MIN_TTL_SECONDS MAX_TTL_SECONDS,
             rp_denyFields = js_unique (or_else (cc_denyFields c) []),
             rp_allowFields = (case cc_allowFields c of
                 Some fs \<Rightarrow> if fs = [] then None else Some fs | None \<Rightarrow> None),
             rp_maxEntryBytes =
               clamp (or_else (cc_maxEntryBytes c) (cfg_maxEntryBytes g)) MIN_ENTRY_BYTES MAX_ENTRY_BYTES\<rparr>)"

definition isToolCacheSafe :: "danger_level option \<Rightarrow> bool" where
  "isToolCacheSafe d = (case d of None \<Rightarrow> True | Some l \<Rightarrow> l \<noteq> Approval)"

definition resolveToolPolicy :: "capabilities \<Rightarrow> string \<Rightarrow> cache_config \<Rightarrow> resolved_policy option" where
  "resolveToolPolicy caps toolName g =
     (if \<not> cfg_enabled g then None
      else case map_of (cap_tools caps) toolName of
          None \<Rightarrow> None
        | Some toolConfig \<Rightarrow>
            if \<not> isToolCacheSafe (tc_dangerLevel toolConfig) then None
            else resolvePolicy g (tc_cache toolConfig))"

definition resolvePromptPolicy :: "capabilities \<Rightarrow> string \<Rightarrow> cache_config \<Rightarrow> resolved_policy option" where
  "resolvePromptPolicy caps promptName g =
     (if \<not> cfg_enabled g then None
      else case map_of (cap_prompts caps) promptName of
          None \<Rightarrow> None
        | Some promptCache \<Rightarrow> resolvePolicy g promptCache)"

definition literalPrefix :: "string \<Rightarrow> string" where
  "literalPrefix pattern = takeWhile (\<lambda>c. c \<noteq> CHR ''*'') pattern"

definition pattern_matches :: "string \<Rightarrow> string \<Rightarrow> bool" where
  "pattern_matches pattern v =
     (if \<not> js_includes pattern ''*'' then v = pattern
      else if js_endsWith pattern ''*'' then js_startsWith v (butlast pattern)
      else v = pattern)"

definition matchResourcePattern ::
    "(string \<times> override_policy) list \<Rightarrow> string \<Rightarrow> (string \<times> override_policy) option" where
  "matchResourcePattern patterns uri =
     find (\<lambda>(p, _). pattern_matches p uri)
       (order_desc (\<lambda>(p, _). int (length (literalPrefix p))) patterns)"

text \<open>The policy of an override: its fields, with \<open>enabled\<close> from the policy, the override, or true.\<close>

definition empty_policy :: capability_policy where
  "empty_policy = \<lparr>cc_enabled = True, cc_ttlSeconds = None, cc_scope = None, cc_admissionPolicy = None,
     cc_admissionWindowSeconds = None, cc_denyFields = None, cc_allowFields = None, cc_maxEntryBytes = None\<rparr>"

definition override_capability :: "override_policy \<Rightarrow> capability_policy" where
  "override_capability ov =
     (case ov_cache ov of
        Some (en, c) \<Rightarrow> c\<lparr>cc_enabled := or_else en (or_else (ov_enabled ov) True)\<rparr>
      | None \<Rightarrow> empty_policy\<lparr>cc_enabled := or_else (ov_enabled ov) True\<rparr>)"

definition resolve_override :: "cache_config \<Rightarrow> override_policy \<Rightarrow> resolved_policy option" where
  "resolve_override g ov =
     (if ov_enabled ov = Some False then None else resolvePolicy g (Some (override_capability ov)))"

definition resolveResourcePolicy ::
    "capabilities \<Rightarrow> string \<Rightarrow> string option \<Rightarrow> cache_config \<Rightarrow> resolved_policy option" where
  "resolveResourcePolicy caps uri resourceName g =
     (if \<not> cfg_enabled g then None
      else case map_of (cap_exact caps) uri of
          Some exactOverride \<Rightarrow> resolve_override g exactOverride
        | None \<Rightarrow>
            (case matchResourcePattern (cap_patterns caps) uri of
               Some (_, matchedPattern) \<Rightarrow> resolve_override g matchedPattern
             | None \<Rightarrow>
                 (let byName = (case resourceName of
                      Some n \<Rightarrow> if n = [] then None else map_of (cap_resources caps) n | None \<Rightarrow> None)
                  in case (case map_of (cap_resources caps) uri of Some c \<Rightarrow> Some c | None \<Rightarrow> byName) of
                       None \<Rightarrow> None
                     | Some resourceCache \<Rightarrow> resolvePolicy g resourceCache)))"

section \<open>Limits\<close>

lemma clamp_bounds: "mn \<le> mx \<Longrightarrow> mn \<le> clamp v mn mx \<and> clamp v mn mx \<le> mx"
  by (simp add: clamp_def)

definition policy_within :: "resolved_policy \<Rightarrow> bool" where
  "policy_within p \<longleftrightarrow> rp_enabled p \<and>
     1 \<le> rp_ttlSeconds p \<and> rp_ttlSeconds p \<le> 86400 \<and>
     1 \<le> rp_admissionWindowSeconds p \<and> rp_admissionWindowSeconds p \<le> 86400 \<and>
     1024 \<le> rp_maxEntryBytes p \<and> rp_maxEntryBytes p \<le> 5242880 \<and>
     distinct (rp_denyFields p) \<and> rp_allowFields p \<noteq> Some []"

lemma resolvePolicy_within: "resolvePolicy g c = Some p \<Longrightarrow> policy_within p"
  using clamp_bounds[of MIN_TTL_SECONDS MAX_TTL_SECONDS] clamp_bounds[of MIN_ENTRY_BYTES MAX_ENTRY_BYTES]
  by (auto simp: resolvePolicy_def policy_within_def js_unique_def MIN_TTL_SECONDS_def MAX_TTL_SECONDS_def
      MIN_ENTRY_BYTES_def MAX_ENTRY_BYTES_def split: option.splits if_splits)

lemmas resolver_defs = resolveToolPolicy_def resolvePromptPolicy_def resolveResourcePolicy_def
  resolve_override_def

text \<open>
  Resolved policies are within limits. Whatever the configuration says, a policy the resolver
  returns for a tool, a prompt or a resource has a lifetime and an admission window of 1 to 86400
  seconds and an entry limit of 1 KiB to 5 MiB, names each denied field once, and never has an
  empty allow list; and none is returned while the cache is disabled.
\<close>

theorem cache_policy_within:
  assumes "resolveToolPolicy caps n g = Some p \<or> resolvePromptPolicy caps n g = Some p \<or>
    resolveResourcePolicy caps n rn g = Some p"
  shows "cfg_enabled g \<and> rp_enabled p \<and>
    1 \<le> rp_ttlSeconds p \<and> rp_ttlSeconds p \<le> 86400 \<and>
    1 \<le> rp_admissionWindowSeconds p \<and> rp_admissionWindowSeconds p \<le> 86400 \<and>
    1024 \<le> rp_maxEntryBytes p \<and> rp_maxEntryBytes p \<le> 5242880 \<and>
    distinct (rp_denyFields p) \<and> rp_allowFields p \<noteq> Some []"
proof -
  have "cfg_enabled g \<and> (\<exists>c. resolvePolicy g c = Some p)"
    using assms by (auto simp: resolver_defs Let_def split: if_splits option.splits)
  with resolvePolicy_within show ?thesis by (auto simp: policy_within_def)
qed

definition demo_config :: cache_config where
  "demo_config = \<lparr>cfg_enabled = True, cfg_backend = ''memory'', cfg_defaultTtlSeconds = 30,
     cfg_defaultAdmissionPolicy = ''immediate'', cfg_defaultAdmissionWindowSeconds = 300,
     cfg_maxEntryBytes = 262144, cfg_keyPrefix = ''peta:dev'', cfg_compress = ''auto'',
     cfg_compressionMinBytes = 4096, cfg_memoryMaxEntries = 1000\<rparr>"

definition demo_caps :: "danger_level option \<Rightarrow> capabilities" where
  "demo_caps d = \<lparr>cap_tools = [(''search'', \<lparr>tc_dangerLevel = d,
       tc_cache = Some (empty_policy\<lparr>cc_ttlSeconds := Some 999999\<rparr>)\<rparr>)],
     cap_resources = [], cap_prompts = [], cap_exact = [],
     cap_patterns = [(''file://*'', \<lparr>ov_enabled = None, ov_cache = None\<rparr>),
       (''file:///etc/*'', \<lparr>ov_enabled = Some False, ov_cache = None\<rparr>)]\<rparr>"

theorem cache_policy_within_witness:
  "\<exists>p. resolveToolPolicy (demo_caps None) ''search'' demo_config = Some p \<and> rp_ttlSeconds p \<le> 86400"
proof -
  have "resolveToolPolicy (demo_caps None) ''search'' demo_config \<noteq> None" by code_simp
  then obtain p where p: "resolveToolPolicy (demo_caps None) ''search'' demo_config = Some p" by blast
  with cache_policy_within[OF disjI1[OF p]] show ?thesis by simp
qed

text \<open>
  Results of dangerous tools are never cached. The resolver returns a policy for a tool
  exactly when the cache is on, the tool is configured with an enabled cache policy, and its danger
  level, if it has one, does not demand manual approval.
\<close>

theorem cache_tool_safe:
  "resolveToolPolicy caps t g \<noteq> None \<longleftrightarrow>
     cfg_enabled g \<and> (\<exists>tc c. map_of (cap_tools caps) t = Some tc \<and> tc_dangerLevel tc \<noteq> Some Approval \<and>
       tc_cache tc = Some c \<and> cc_enabled c)"
  by (auto simp: resolveToolPolicy_def resolvePolicy_def isToolCacheSafe_def split: option.splits)

text \<open>Searching a list that is sorted by falling keys finds a largest match.\<close>

lemma find_order_desc:
  assumes "find P (order_desc k xs) = Some x"
  shows "x \<in> set xs" "P x" "\<And>y. y \<in> set xs \<Longrightarrow> P y \<Longrightarrow> k y \<le> k x"
proof -
  obtain i where i: "i < length (order_desc k xs)" "P (order_desc k xs ! i)" "x = order_desc k xs ! i"
    "\<forall>j<i. \<not> P (order_desc k xs ! j)"
    using assms by (auto simp: find_Some_iff)
  then show "x \<in> set xs" "P x" by (metis nth_mem set_order_desc, simp)
  fix y assume y: "y \<in> set xs" "P y"
  then obtain j where j: "j < length (order_desc k xs)" "y = order_desc k xs ! j"
    by (metis in_set_conv_nth set_order_desc)
  with i y have "i \<le> j" by (metis linorder_not_le)
  with order_desc_sorted[of k xs] i j show "k y \<le> k x"
    by (cases "i = j") (auto simp: sorted_wrt_iff_nth_less)
qed

text \<open>
  The most specific pattern decides. If any pattern matches a resource address, the resolver
  picks a matching one with the longest literal prefix; a pattern that ends in \<open>*\<close> matches exactly
  the addresses that begin with the rest of it, and one without \<open>*\<close> only itself.
\<close>

theorem cache_pattern_specific:
  "(case matchResourcePattern ps uri of
      None \<Rightarrow> (\<forall>(q, ov)\<in>set ps. \<not> pattern_matches q uri)
    | Some (p, ov) \<Rightarrow> (p, ov) \<in> set ps \<and> pattern_matches p uri \<and>
        (\<forall>(q, ov')\<in>set ps. pattern_matches q uri \<longrightarrow> length (literalPrefix q) \<le> length (literalPrefix p))) \<and>
   (pattern_matches (lit @ ''*'') uri \<longleftrightarrow> (\<exists>rest. uri = lit @ rest)) \<and>
   (CHR ''*'' \<notin> set lit \<longrightarrow> (pattern_matches lit uri \<longleftrightarrow> uri = lit))"
proof (intro conjI impI)
  show "case matchResourcePattern ps uri of
      None \<Rightarrow> (\<forall>(q, ov)\<in>set ps. \<not> pattern_matches q uri)
    | Some (p, ov) \<Rightarrow> (p, ov) \<in> set ps \<and> pattern_matches p uri \<and>
        (\<forall>(q, ov')\<in>set ps. pattern_matches q uri \<longrightarrow> length (literalPrefix q) \<le> length (literalPrefix p))"
  proof (cases "matchResourcePattern ps uri")
    case None
    then have "\<forall>(q, ov)\<in>set ps. \<not> pattern_matches q uri"
      by (auto simp: matchResourcePattern_def find_None_iff)
    with None show ?thesis by simp
  next
    case (Some x)
    obtain p ov where x: "x = (p, ov)" by (cases x)
    note f = find_order_desc[OF Some[unfolded matchResourcePattern_def]]
    have "length (literalPrefix q) \<le> length (literalPrefix p)" if "(q, ov') \<in> set ps" "pattern_matches q uri" for q ov'
      using f(3)[of "(q, ov')"] that x by simp
    then show ?thesis using f(1,2) Some x by auto
  qed
  show "pattern_matches (lit @ ''*'') uri \<longleftrightarrow> (\<exists>rest. uri = lit @ rest)"
    by (auto simp: pattern_matches_def js_includes_def js_endsWith_def js_startsWith_def prefix_def
        suffix_def sublist_def)
  assume "CHR ''*'' \<notin> set lit"
  then show "pattern_matches lit uri \<longleftrightarrow> uri = lit"
    by (auto simp: pattern_matches_def js_includes_def sublist_def)
qed

theorem cache_pattern_specific_witness:
  "map_option fst (matchResourcePattern (cap_patterns (demo_caps None)) ''file:///etc/passwd'') = Some ''file:///etc/*'' \<and>
   (pattern_matches ''ab'' ''ab'' \<longleftrightarrow> ''ab'' = ''ab'')"
proof
  show "map_option fst (matchResourcePattern (cap_patterns (demo_caps None)) ''file:///etc/passwd'') = Some ''file:///etc/*''"
    by code_simp
  show "pattern_matches ''ab'' ''ab'' \<longleftrightarrow> ''ab'' = ''ab''"
    using cache_pattern_specific[of "[]" "''ab''" "''ab''"] by simp
qed

end
