(* ===== verification/Cache_Serializer.thy ===== *)
theory Cache_Serializer
  imports Cache_Keys
begin

text \<open>
  Entries of the result cache and their bytes: \<open>src/mcp/core/cache/CacheSerializer.ts\<close> and the
  envelope type of \<open>src/mcp/core/cache/types.ts\<close>. A \<open>Buffer\<close> is a string of its bytes. The
  result: deserializing a serialized entry gives it back, whether or not it was compressed.
\<close>

section \<open>Envelopes\<close>

datatype payload_encoding = JsonEncoding | GzipEncoding

definition encoding_text :: "payload_encoding \<Rightarrow> string" where
  "encoding_text x = (case x of JsonEncoding \<Rightarrow> ''json'' | GzipEncoding \<Rightarrow> ''gzip-json'')"

record envelope =
  schemaVersion :: jsnum
  env_operation :: cache_operation
  env_serverId :: string
  env_entityId :: string
  env_scopeType :: cache_scope
  env_scopeHash :: string
  env_createdAt :: string
  env_ttlSeconds :: jsnum
  env_admissionPolicy :: admission_policy
  env_observations :: jsnum
  env_payloadEncoding :: payload_encoding
  env_payloadBytes :: jsnum
  env_requestHash :: string
  env_payload :: json

text \<open>
  What the platform provides: UTF-8 encoding and decoding, gzip compression, \<open>JSON.parse\<close>,
  number printing.
\<close>

record codec =
  co_utf8 :: "string \<Rightarrow> string"
  co_unutf8 :: "string \<Rightarrow> string"
  co_gzip :: "string \<Rightarrow> string"
  co_gunzip :: "string \<Rightarrow> string option"
  co_parse :: "string \<Rightarrow> json option"
  co_nstr :: "rat \<Rightarrow> string"

definition createEnvelope ::
    "cache_operation \<Rightarrow> string \<Rightarrow> string \<Rightarrow> cache_scope \<Rightarrow> string \<Rightarrow> int \<Rightarrow> admission_policy \<Rightarrow> nat \<Rightarrow>
     string \<Rightarrow> json \<Rightarrow> nat \<Rightarrow> string \<Rightarrow> envelope" where
  "createEnvelope operation serverId entityId scopeType scopeHash ttlSeconds admissionPolicy
       admittedAfterObservations requestHash payload payloadBytes createdAt =
     \<lparr>schemaVersion = Fin 1, env_operation = operation, env_serverId = serverId, env_entityId = entityId,
      env_scopeType = scopeType, env_scopeHash = scopeHash, env_createdAt = createdAt,
      env_ttlSeconds = Fin (of_int ttlSeconds), env_admissionPolicy = admissionPolicy,
      env_observations = Fin (of_nat admittedAfterObservations), env_payloadEncoding = JsonEncoding,
      env_payloadBytes = Fin (of_nat payloadBytes), env_requestHash = requestHash, env_payload = payload\<rparr>"

text \<open>The object an envelope is in the code, with its fields in order.\<close>

definition envelope_json :: "envelope \<Rightarrow> json" where
  "envelope_json x = JObj ()
     [(''schemaVersion'', JNum (schemaVersion x)), (''operation'', JStr (operation_text (env_operation x))),
      (''serverId'', JStr (env_serverId x)), (''entityId'', JStr (env_entityId x)),
      (''scopeType'', JStr (scope_text (env_scopeType x))), (''scopeHash'', JStr (env_scopeHash x)),
      (''createdAt'', JStr (env_createdAt x)), (''ttlSeconds'', JNum (env_ttlSeconds x)),
      (''admissionPolicy'', JStr (admission_text (env_admissionPolicy x))),
      (''admittedAfterObservations'', JNum (env_observations x)),
      (''payloadEncoding'', JStr (encoding_text (env_payloadEncoding x))),
      (''payloadBytes'', JNum (env_payloadBytes x)), (''requestHash'', JStr (env_requestHash x)),
      (''payload'', env_payload x)]"

definition envelope_text :: "codec \<Rightarrow> envelope \<Rightarrow> string" where
  "envelope_text c x = (case json_text (co_nstr c) (envelope_json x) of Some t \<Rightarrow> t | None \<Rightarrow> [])"

definition at_least :: "jsnum \<Rightarrow> int \<Rightarrow> bool" where
  "at_least n m = num_le (Fin (of_int m)) n"

definition cache_serialize :: "codec \<Rightarrow> envelope \<Rightarrow> bool \<Rightarrow> int \<Rightarrow> string" where
  "cache_serialize c x compress compressionMinBytes =
     (let useCompression = (compress \<and> at_least (env_payloadBytes x) compressionMinBytes);
          encoding = (if useCompression then GzipEncoding else JsonEncoding);
          jsonBuffer = co_utf8 c (envelope_text c (x\<lparr>env_payloadEncoding := encoding\<rparr>))
      in if useCompression then co_gzip c jsonBuffer else jsonBuffer)"

section \<open>Reading an envelope back\<close>

definition isGzipBuffer :: "string \<Rightarrow> bool" where
  "isGzipBuffer b = (case b of x # y # _ \<Rightarrow> x = CHR 0x1F \<and> y = CHR 0x8B | _ \<Rightarrow> False)"

definition field :: "(string \<times> json) list \<Rightarrow> string \<Rightarrow> json" where
  "field fs k = (case map_of fs k of Some v \<Rightarrow> v | None \<Rightarrow> JUndef)"

fun json_number :: "json \<Rightarrow> jsnum option" where
  "json_number (JNum n) = Some n"
| "json_number _ = None"

fun json_string :: "json \<Rightarrow> string option" where
  "json_string (JStr s) = Some s"
| "json_string _ = None"

text \<open>The members of an enumeration by their text.\<close>

definition member_of :: "('a \<times> string) list \<Rightarrow> json \<Rightarrow> 'a option" where
  "member_of xs v = (case json_string v of
     None \<Rightarrow> None | Some s \<Rightarrow> map_option fst (find (\<lambda>(_, t). t = s) xs))"

definition operation_of :: "json \<Rightarrow> cache_operation option" where
  "operation_of = member_of [(ToolOp, ''tool''), (ResourceOp, ''resource''), (PromptOp, ''prompt'')]"

definition scope_of :: "json \<Rightarrow> cache_scope option" where
  "scope_of = member_of [(UserScope, ''user''), (TenantScope, ''tenant''), (GlobalScope, ''global'')]"

definition admission_of :: "json \<Rightarrow> admission_policy option" where
  "admission_of = member_of [(Immediate, ''immediate''), (SecondHit, ''second_hit'')]"

definition encoding_of :: "json \<Rightarrow> payload_encoding option" where
  "encoding_of = member_of [(JsonEncoding, ''json''), (GzipEncoding, ''gzip-json'')]"

definition isValidEnvelope :: "json \<Rightarrow> bool" where
  "isValidEnvelope v =
     (case v of
        JObj _ fs \<Rightarrow>
          json_number (field fs ''schemaVersion'') \<noteq> None \<and>
          operation_of (field fs ''operation'') \<noteq> None \<and>
          json_string (field fs ''serverId'') \<noteq> None \<and>
          json_string (field fs ''entityId'') \<noteq> None \<and>
          scope_of (field fs ''scopeType'') \<noteq> None \<and>
          json_string (field fs ''scopeHash'') \<noteq> None \<and>
          json_string (field fs ''createdAt'') \<noteq> None \<and>
          json_number (field fs ''ttlSeconds'') \<noteq> None \<and>
          admission_of (field fs ''admissionPolicy'') \<noteq> None \<and>
          json_number (field fs ''admittedAfterObservations'') \<noteq> None \<and>
          encoding_of (field fs ''payloadEncoding'') \<noteq> None \<and>
          json_number (field fs ''payloadBytes'') \<noteq> None \<and>
          json_string (field fs ''requestHash'') \<noteq> None \<and>
          map_of fs ''payload'' \<noteq> None
      | _ \<Rightarrow> False)"

text \<open>A valid envelope object as a record.\<close>

definition envelope_of :: "json \<Rightarrow> envelope" where
  "envelope_of v =
     (let fs = (case v of JObj _ fs \<Rightarrow> fs | _ \<Rightarrow> []) in
      \<lparr>schemaVersion = the (json_number (field fs ''schemaVersion'')),
       env_operation = the (operation_of (field fs ''operation'')),
       env_serverId = the (json_string (field fs ''serverId'')),
       env_entityId = the (json_string (field fs ''entityId'')),
       env_scopeType = the (scope_of (field fs ''scopeType'')),
       env_scopeHash = the (json_string (field fs ''scopeHash'')),
       env_createdAt = the (json_string (field fs ''createdAt'')),
       env_ttlSeconds = the (json_number (field fs ''ttlSeconds'')),
       env_admissionPolicy = the (admission_of (field fs ''admissionPolicy'')),
       env_observations = the (json_number (field fs ''admittedAfterObservations'')),
       env_payloadEncoding = the (encoding_of (field fs ''payloadEncoding'')),
       env_payloadBytes = the (json_number (field fs ''payloadBytes'')),
       env_requestHash = the (json_string (field fs ''requestHash'')),
       env_payload = field fs ''payload''\<rparr>)"

definition cache_deserialize :: "codec \<Rightarrow> string \<Rightarrow> envelope option" where
  "cache_deserialize c buffer =
     (if buffer = [] then None
      else
        let gzipped = isGzipBuffer buffer
        in case (if gzipped then co_gunzip c buffer else Some buffer) of
             None \<Rightarrow> None
           | Some payloadBuffer \<Rightarrow>
               (case co_parse c (co_unutf8 c payloadBuffer) of
                  None \<Rightarrow> None
                | Some parsed \<Rightarrow>
                    if \<not> isValidEnvelope parsed then None
                    else
                      let entry = envelope_of parsed
                      in if schemaVersion entry \<noteq> Fin 1 then None
                         else if gzipped \<and> env_payloadEncoding entry \<noteq> GzipEncoding
                         then Some (entry\<lparr>env_payloadEncoding := GzipEncoding\<rparr>)
                         else Some entry))"

section \<open>Round trip\<close>

text \<open>
  The documented behaviour of the platform that the round trip of one entry relies on: text
  survives UTF-8, the first byte of an object's text is its brace, data survives gzip, whose
  output starts with the two magic bytes, and parsing the printed object gives the object.
\<close>

definition codec_reads :: "codec \<Rightarrow> envelope \<Rightarrow> bool" where
  "codec_reads c x \<longleftrightarrow>
     (let t = envelope_text c x in
      co_unutf8 c (co_utf8 c t) = t \<and> take 1 (co_utf8 c t) = ''{'' \<and>
      co_gunzip c (co_gzip c (co_utf8 c t)) = Some (co_utf8 c t) \<and>
      isGzipBuffer (co_gzip c (co_utf8 c t)) \<and>
      co_parse c t = Some (json_reparse (envelope_json x)))"

definition storable :: "envelope \<Rightarrow> bool" where
  "storable x \<longleftrightarrow> schemaVersion x = Fin 1 \<and> (\<exists>a b d. env_ttlSeconds x = Fin a \<and>
     env_observations x = Fin b \<and> env_payloadBytes x = Fin d) \<and> json_reparse (env_payload x) \<noteq> JUndef"

lemma operation_of_text [simp]: "operation_of (JStr (operation_text p)) = Some p"
  by (cases p) (simp_all add: operation_of_def member_of_def operation_text_def)

lemma scope_of_text [simp]: "scope_of (JStr (scope_text p)) = Some p"
  by (cases p) (simp_all add: scope_of_def member_of_def scope_text_def)

lemma admission_of_text [simp]: "admission_of (JStr (admission_text p)) = Some p"
  by (cases p) (simp_all add: admission_of_def member_of_def admission_text_def)

lemma encoding_of_text [simp]: "encoding_of (JStr (encoding_text p)) = Some p"
  by (cases p) (simp_all add: encoding_of_def member_of_def encoding_text_def)

lemma json_reparse_envelope:
  assumes "storable x"
  shows "json_reparse (envelope_json x) = envelope_json (x\<lparr>env_payload := json_reparse (env_payload x)\<rparr>)"
  using assms by (auto simp: storable_def envelope_json_def)

lemma envelope_fields:
  assumes "envelope_json x = JObj r fs"
  shows "field fs ''schemaVersion'' = JNum (schemaVersion x)"
    "field fs ''operation'' = JStr (operation_text (env_operation x))"
    "field fs ''serverId'' = JStr (env_serverId x)" "field fs ''entityId'' = JStr (env_entityId x)"
    "field fs ''scopeType'' = JStr (scope_text (env_scopeType x))"
    "field fs ''scopeHash'' = JStr (env_scopeHash x)" "field fs ''createdAt'' = JStr (env_createdAt x)"
    "field fs ''ttlSeconds'' = JNum (env_ttlSeconds x)"
    "field fs ''admissionPolicy'' = JStr (admission_text (env_admissionPolicy x))"
    "field fs ''admittedAfterObservations'' = JNum (env_observations x)"
    "field fs ''payloadEncoding'' = JStr (encoding_text (env_payloadEncoding x))"
    "field fs ''payloadBytes'' = JNum (env_payloadBytes x)"
    "field fs ''requestHash'' = JStr (env_requestHash x)"
    "field fs ''payload'' = env_payload x" "map_of fs ''payload'' = Some (env_payload x)"
  using assms unfolding envelope_json_def field_def by auto

lemma envelope_json_valid: "isValidEnvelope (envelope_json x)" "envelope_of (envelope_json x) = x"
proof -
  obtain r fs where fs: "envelope_json x = JObj r fs" by (simp add: envelope_json_def)
  show "isValidEnvelope (envelope_json x)" "envelope_of (envelope_json x) = x"
    unfolding isValidEnvelope_def envelope_of_def fs Let_def jsval.case envelope_fields[OF fs] by simp_all
qed

text \<open>
  What is stored is what is read. An entry of the current schema whose payload has a JSON
  text, serialized with or without compression, deserializes to the same entry, with the encoding
  actually used and the payload as its JSON text defines it.
\<close>

theorem cache_serializer_roundtrip:
  assumes "storable x"
    and "codec_reads c (x\<lparr>env_payloadEncoding := JsonEncoding\<rparr>)"
    and "codec_reads c (x\<lparr>env_payloadEncoding := GzipEncoding\<rparr>)"
  shows "cache_deserialize c (cache_serialize c x compress mn) =
    Some (x\<lparr>env_payloadEncoding := (if compress \<and> at_least (env_payloadBytes x) mn then GzipEncoding else JsonEncoding),
            env_payload := json_reparse (env_payload x)\<rparr>)"
proof -
  have st: "storable (x\<lparr>env_payloadEncoding := n\<rparr>)" for n using assms(1) by (simp add: storable_def)
  have brace: "b \<noteq> [] \<and> \<not> isGzipBuffer b" if "take 1 b = ''{''" for b
    using that by (auto simp: isGzipBuffer_def split: list.splits)
  show ?thesis
    using assms(1) assms(2,3)[unfolded codec_reads_def Let_def] json_reparse_envelope[OF st] envelope_json_valid
    by (auto simp: cache_serialize_def cache_deserialize_def Let_def brace storable_def isGzipBuffer_def[of "[]"])
qed

text \<open>A codec that knows two texts: those of one entry in its two encodings.\<close>

definition demo_envelope :: "payload_encoding \<Rightarrow> envelope" where
  "demo_envelope enc = (createEnvelope ToolOp ''srv'' ''pay'' UserScope ''h'' 30 Immediate 0 ''q''
     (JObj () [(''ok'', JBool True)]) 11 ''2026-01-01'')\<lparr>env_payloadEncoding := enc\<rparr>"

definition plain_codec :: codec where
  "plain_codec = \<lparr>co_utf8 = (\<lambda>s. s), co_unutf8 = (\<lambda>s. s), co_gzip = (\<lambda>s. CHR 0x1F # CHR 0x8B # s),
     co_gunzip = (\<lambda>b. Some (drop 2 b)), co_parse = (\<lambda>_. None), co_nstr = (\<lambda>q. int_str \<lfloor>q\<rfloor>)\<rparr>"

definition demo_codec :: codec where
  "demo_codec = plain_codec\<lparr>co_parse := (\<lambda>t.
     if t = envelope_text plain_codec (demo_envelope JsonEncoding)
     then Some (json_reparse (envelope_json (demo_envelope JsonEncoding)))
     else if t = envelope_text plain_codec (demo_envelope GzipEncoding)
     then Some (json_reparse (envelope_json (demo_envelope GzipEncoding)))
     else None)\<rparr>"

lemma demo_codec_reads: "codec_reads demo_codec (demo_envelope enc)"
proof -
  have t: "envelope_text demo_codec x = envelope_text plain_codec x" for x
    by (simp add: envelope_text_def demo_codec_def plain_codec_def)
  have brace: "take 1 (envelope_text plain_codec x) = ''{''" for x
    by (simp add: envelope_text_def envelope_json_def)
  have neq: "envelope_text plain_codec (demo_envelope GzipEncoding) \<noteq>
      envelope_text plain_codec (demo_envelope JsonEncoding)" by code_simp
  show ?thesis
    unfolding codec_reads_def Let_def t using brace neq
    by (cases enc) (simp_all add: demo_codec_def plain_codec_def isGzipBuffer_def)
qed

theorem cache_serializer_roundtrip_witness:
  "cache_deserialize demo_codec (cache_serialize demo_codec (demo_envelope JsonEncoding) True 10) =
     Some (demo_envelope GzipEncoding)"
proof -
  have e: "demo_envelope JsonEncoding\<lparr>env_payloadEncoding := enc\<rparr> = demo_envelope enc" for enc
    by (simp add: demo_envelope_def)
  have s: "storable (demo_envelope JsonEncoding)" by (simp add: storable_def demo_envelope_def createEnvelope_def)
  have p: "json_reparse (env_payload (demo_envelope enc)) = env_payload (demo_envelope enc)"
    "at_least (env_payloadBytes (demo_envelope enc)) 10" for enc
    by (simp_all add: demo_envelope_def createEnvelope_def at_least_def)
  from cache_serializer_roundtrip[OF s, of demo_codec True 10] show ?thesis
    using demo_codec_reads e p by (simp add: demo_envelope_def)
qed

end
