(* ===== verification/Cache_Store.thy ===== *)
theory Cache_Store
  imports Cache_Serializer
begin

text \<open>
  The backends of the result cache: the interface \<open>ResultCacheStore\<close> as a record of operations,
  its contract as a locale, and the in-memory, database and no-op stores
  (\<open>src/mcp/core/cache/stores\<close>, with the repositories of the database store) as
  interpretations of it. A store keeps entries with an expiry time, admission counters and
  namespace versions. The contract is what the cache manager relies on: a read returns only a
  value that was written under that key and has not expired, and a version only changes by a bump
  of its own namespace.
\<close>

section \<open>The interface\<close>

text \<open>\<open>put\<close> is \<open>set\<close>; its result \<open>None\<close> is a thrown error. Every operation that reads the
  clock has the time as argument. \<open>sweep\<close> is what a store's own timer runs.\<close>

record 's store_ops =
  so_get :: "string \<Rightarrow> int \<Rightarrow> 's \<Rightarrow> string option \<times> 's"
  so_put :: "string \<Rightarrow> string \<Rightarrow> int \<Rightarrow> int \<Rightarrow> 's \<Rightarrow> 's option"
  so_delete :: "string \<Rightarrow> 's \<Rightarrow> 's"
  so_recordAdmission :: "string \<Rightarrow> int \<Rightarrow> int \<Rightarrow> 's \<Rightarrow> nat \<times> 's"
  so_admissionCount :: "string \<Rightarrow> int \<Rightarrow> 's \<Rightarrow> nat"
  so_clearAdmission :: "string \<Rightarrow> 's \<Rightarrow> 's"
  so_version :: "string \<Rightarrow> 's \<Rightarrow> nat"
  so_bump :: "string \<Rightarrow> 's \<Rightarrow> nat \<times> 's"
  so_sweep :: "int \<Rightarrow> 's \<Rightarrow> 's"

locale result_store =
  fixes ops :: "'s store_ops"
    and entry :: "'s \<Rightarrow> string \<Rightarrow> (string \<times> int) option"
    and ok :: "'s \<Rightarrow> bool"
  assumes get_entry: "ok s \<Longrightarrow> so_get ops k now s = (Some v, s') \<Longrightarrow> \<exists>e. entry s k = Some (v, e) \<and> now < e"
    and get_keeps: "ok s \<Longrightarrow> ok (snd (so_get ops k now s)) \<and>
      (\<forall>n. so_version ops n (snd (so_get ops k now s)) = so_version ops n s) \<and>
      (\<forall>k' x. entry (snd (so_get ops k now s)) k' = Some x \<longrightarrow> entry s k' = Some x)"
    and put_keeps: "ok s \<Longrightarrow> so_put ops k v ttl now s = Some s' \<Longrightarrow> ok s' \<and>
      (\<forall>n. so_version ops n s' = so_version ops n s) \<and>
      (\<forall>k' x. entry s' k' = Some x \<longrightarrow>
         entry s k' = Some x \<or> k' = k \<and> x = (v, now + ttl * 1000))"
    and delete_keeps: "ok s \<Longrightarrow> ok (so_delete ops k s) \<and>
      (\<forall>n. so_version ops n (so_delete ops k s) = so_version ops n s) \<and>
      entry (so_delete ops k s) k = None \<and>
      (\<forall>k' x. entry (so_delete ops k s) k' = Some x \<longrightarrow> entry s k' = Some x)"
    and record_keeps: "ok s \<Longrightarrow> ok (snd (so_recordAdmission ops a w now s)) \<and>
      (\<forall>n. so_version ops n (snd (so_recordAdmission ops a w now s)) = so_version ops n s) \<and>
      (\<forall>k. entry (snd (so_recordAdmission ops a w now s)) k = entry s k)"
    and clear_keeps: "ok s \<Longrightarrow> ok (so_clearAdmission ops a s) \<and>
      (\<forall>n. so_version ops n (so_clearAdmission ops a s) = so_version ops n s) \<and>
      (\<forall>k. entry (so_clearAdmission ops a s) k = entry s k)"
    and bump_keeps: "ok s \<Longrightarrow> ok (snd (so_bump ops m s)) \<and>
      (\<forall>n. n \<noteq> m \<longrightarrow> so_version ops n (snd (so_bump ops m s)) = so_version ops n s) \<and>
      so_version ops m s \<le> so_version ops m (snd (so_bump ops m s)) \<and>
      (\<forall>k. entry (snd (so_bump ops m s)) k = entry s k)"
    and sweep_keeps: "ok s \<Longrightarrow> ok (so_sweep ops now s) \<and>
      (\<forall>n. so_version ops n (so_sweep ops now s) = so_version ops n s) \<and>
      (\<forall>k x. entry (so_sweep ops now s) k = Some x \<longrightarrow> entry s k = Some x)"

text \<open>A store that really counts versions.\<close>

locale versioned_store = result_store +
  assumes bump_counts: "ok s \<Longrightarrow> so_version ops m (snd (so_bump ops m s)) = Suc (so_version ops m s)"

section \<open>The in-memory store\<close>

record memory_entry =
  me_value :: string
  me_expiresAt :: int

record admission_entry =
  ae_count :: nat
  ae_expiresAt :: int

record memory_store =
  ms_entries :: "(string, memory_entry) jsmap"
  ms_admissions :: "(string, admission_entry) jsmap"
  ms_namespaces :: "(string, nat) jsmap"
  ms_maxEntries :: int

definition memory_store_new :: "int \<Rightarrow> memory_store" where
  "memory_store_new maxEntries =
     \<lparr>ms_entries = [], ms_admissions = [], ms_namespaces = [], ms_maxEntries = maxEntries\<rparr>"

definition memory_get :: "string \<Rightarrow> int \<Rightarrow> memory_store \<Rightarrow> string option \<times> memory_store" where
  "memory_get entryKey now s =
     (case map_of (ms_entries s) entryKey of
        None \<Rightarrow> (None, s)
      | Some e \<Rightarrow>
          if now \<ge> me_expiresAt e
          then (None, s\<lparr>ms_entries := AList.delete entryKey (ms_entries s)\<rparr>)
          else (Some (me_value e), s))"

definition drop_expired :: "int \<Rightarrow> (string, memory_entry) jsmap \<Rightarrow> (string, memory_entry) jsmap" where
  "drop_expired now es = jsmap_keep (\<lambda>_ e. \<not> now \<ge> me_expiresAt e) es"

text \<open>The scan for the entry that expires first; of several the first in insertion order.\<close>

definition oldest_entry :: "(string, memory_entry) jsmap \<Rightarrow> (string \<times> int) option" where
  "oldest_entry es =
     fold (\<lambda>(k, e) best. case best of
         None \<Rightarrow> Some (k, me_expiresAt e)
       | Some (_, oldestExpiry) \<Rightarrow> if me_expiresAt e < oldestExpiry then Some (k, me_expiresAt e) else best) es None"

definition evictOldest :: "int \<Rightarrow> int \<Rightarrow> (string, memory_entry) jsmap \<Rightarrow> (string, memory_entry) jsmap" where
  "evictOldest maxEntries now es =
     (let es1 = drop_expired now es
      in if int (length es1) \<ge> maxEntries
         then (case oldest_entry es1 of
                 Some (oldestKey, _) \<Rightarrow> if oldestKey = [] then es1 else AList.delete oldestKey es1
               | None \<Rightarrow> es1)
         else es1)"

definition memory_put :: "string \<Rightarrow> string \<Rightarrow> int \<Rightarrow> int \<Rightarrow> memory_store \<Rightarrow> memory_store" where
  "memory_put entryKey v ttlSeconds now s =
     (let es = (if int (length (ms_entries s)) \<ge> ms_maxEntries s \<and> map_of (ms_entries s) entryKey = None
                then evictOldest (ms_maxEntries s) now (ms_entries s) else ms_entries s)
      in s\<lparr>ms_entries := AList.update entryKey
             \<lparr>me_value = v, me_expiresAt = now + ttlSeconds * 1000\<rparr> es\<rparr>)"

definition memory_delete :: "string \<Rightarrow> memory_store \<Rightarrow> memory_store" where
  "memory_delete entryKey s = s\<lparr>ms_entries := AList.delete entryKey (ms_entries s)\<rparr>"

definition memory_recordAdmission :: "string \<Rightarrow> int \<Rightarrow> int \<Rightarrow> memory_store \<Rightarrow> nat \<times> memory_store" where
  "memory_recordAdmission admissionKey windowSeconds now s =
     (let fresh = (1, s\<lparr>ms_admissions := AList.update admissionKey
            \<lparr>ae_count = 1, ae_expiresAt = now + windowSeconds * 1000\<rparr> (ms_admissions s)\<rparr>)
      in case map_of (ms_admissions s) admissionKey of
           Some existing \<Rightarrow>
             if now < ae_expiresAt existing
             then (ae_count existing + 1, s\<lparr>ms_admissions := AList.update admissionKey
               (existing\<lparr>ae_count := ae_count existing + 1\<rparr>) (ms_admissions s)\<rparr>)
             else fresh
         | None \<Rightarrow> fresh)"

definition memory_admissionCount :: "string \<Rightarrow> int \<Rightarrow> memory_store \<Rightarrow> nat" where
  "memory_admissionCount admissionKey now s =
     (case map_of (ms_admissions s) admissionKey of
        None \<Rightarrow> 0
      | Some existing \<Rightarrow> if now \<ge> ae_expiresAt existing then 0 else ae_count existing)"

definition memory_clearAdmission :: "string \<Rightarrow> memory_store \<Rightarrow> memory_store" where
  "memory_clearAdmission admissionKey s = s\<lparr>ms_admissions := AList.delete admissionKey (ms_admissions s)\<rparr>"

definition memory_version :: "string \<Rightarrow> memory_store \<Rightarrow> nat" where
  "memory_version namespaceKey s = (case map_of (ms_namespaces s) namespaceKey of Some v \<Rightarrow> v | None \<Rightarrow> 0)"

definition memory_bump :: "string \<Rightarrow> memory_store \<Rightarrow> nat \<times> memory_store" where
  "memory_bump namespaceKey s =
     (let next = memory_version namespaceKey s + 1
      in (next, s\<lparr>ms_namespaces := AList.update namespaceKey next (ms_namespaces s)\<rparr>))"

definition memory_sweep :: "int \<Rightarrow> memory_store \<Rightarrow> memory_store" where
  "memory_sweep now s = s\<lparr>ms_entries := drop_expired now (ms_entries s),
     ms_admissions := jsmap_keep (\<lambda>_ a. \<not> now \<ge> ae_expiresAt a) (ms_admissions s)\<rparr>"

definition memory_close :: "memory_store \<Rightarrow> memory_store" where
  "memory_close s = s\<lparr>ms_entries := [], ms_admissions := [], ms_namespaces := []\<rparr>"

definition memory_ops :: "memory_store store_ops" where
  "memory_ops = \<lparr>so_get = memory_get, so_put = (\<lambda>k v ttl now s. Some (memory_put k v ttl now s)),
     so_delete = memory_delete, so_recordAdmission = memory_recordAdmission,
     so_admissionCount = memory_admissionCount, so_clearAdmission = memory_clearAdmission,
     so_version = memory_version, so_bump = memory_bump, so_sweep = memory_sweep\<rparr>"

section \<open>The no-op store\<close>

definition noop_ops :: "unit store_ops" where
  "noop_ops = \<lparr>so_get = (\<lambda>_ _ s. (None, s)), so_put = (\<lambda>_ _ _ _ s. Some s), so_delete = (\<lambda>_ s. s),
     so_recordAdmission = (\<lambda>_ _ _ s. (0, s)), so_admissionCount = (\<lambda>_ _ _. 0),
     so_clearAdmission = (\<lambda>_ s. s), so_version = (\<lambda>_ _. 0), so_bump = (\<lambda>_ s. (0, s)),
     so_sweep = (\<lambda>_ s. s)\<rparr>"

section \<open>The database store\<close>

record cache_row =
  cr_operation :: cache_operation
  cr_serverId :: string
  cr_entityId :: string
  cr_scopeType :: cache_scope
  cr_scopeHash :: string
  cr_requestHash :: string
  cr_payloadEncoding :: payload_encoding
  cr_payloadBytes :: jsnum
  cr_payloadBlob :: string
  cr_createdAt :: int
  cr_expiresAt :: int

text \<open>The three tables, each with its key column unique.\<close>

record db_store =
  db_entries :: "(string, cache_row) jsmap"
  db_admissions :: "(string, admission_entry) jsmap"
  db_versions :: "(string, nat) jsmap"

definition getEntry :: "string \<Rightarrow> int \<Rightarrow> db_store \<Rightarrow> cache_row option" where
  "getEntry cacheKey dbnow s =
     (case map_of (db_entries s) cacheKey of
        None \<Rightarrow> None
      | Some r \<Rightarrow> if cr_expiresAt r > dbnow then Some r else None)"

definition upsertEntry :: "string \<Rightarrow> cache_row \<Rightarrow> db_store \<Rightarrow> db_store" where
  "upsertEntry cacheKey r s = s\<lparr>db_entries := AList.update cacheKey r (db_entries s)\<rparr>"

definition deleteEntry :: "string \<Rightarrow> db_store \<Rightarrow> db_store" where
  "deleteEntry cacheKey s = s\<lparr>db_entries := AList.delete cacheKey (db_entries s)\<rparr>"

text \<open>Delete up to \<open>batchSize\<close> rows that have expired, those that expired first.\<close>

definition cleanup_rows :: "('v \<Rightarrow> int) \<Rightarrow> nat \<Rightarrow> int \<Rightarrow> (string, 'v) jsmap \<Rightarrow> nat \<times> (string, 'v) jsmap" where
  "cleanup_rows expires batchSize dbnow t =
     (let doomed = map fst (take batchSize (sort_key (\<lambda>(_, r). expires r) (filter (\<lambda>(_, r). expires r < dbnow) t)))
      in (length doomed, filter (\<lambda>(k, _). k \<notin> set doomed) t))"

definition cleanupExpired :: "nat \<Rightarrow> int \<Rightarrow> db_store \<Rightarrow> nat \<times> db_store" where
  "cleanupExpired batchSize dbnow s =
     (let (n, t) = cleanup_rows cr_expiresAt batchSize dbnow (db_entries s) in (n, s\<lparr>db_entries := t\<rparr>))"

definition cleanupExpiredAdmissions :: "nat \<Rightarrow> int \<Rightarrow> db_store \<Rightarrow> nat \<times> db_store" where
  "cleanupExpiredAdmissions batchSize dbnow s =
     (let (n, t) = cleanup_rows ae_expiresAt batchSize dbnow (db_admissions s) in (n, s\<lparr>db_admissions := t\<rparr>))"

definition recordAttempt :: "string \<Rightarrow> int \<Rightarrow> int \<Rightarrow> db_store \<Rightarrow> nat \<times> db_store" where
  "recordAttempt admissionKey windowSeconds dbnow s =
     (let n = (case map_of (db_admissions s) admissionKey of
                 None \<Rightarrow> 1
               | Some a \<Rightarrow> if ae_expiresAt a < dbnow then 1 else ae_count a + 1)
      in (n, s\<lparr>db_admissions := AList.update admissionKey
            \<lparr>ae_count = n, ae_expiresAt = dbnow + windowSeconds * 1000\<rparr> (db_admissions s)\<rparr>))"

definition getCount :: "string \<Rightarrow> int \<Rightarrow> db_store \<Rightarrow> nat" where
  "getCount admissionKey dbnow s =
     (case map_of (db_admissions s) admissionKey of
        None \<Rightarrow> 0
      | Some a \<Rightarrow> if ae_expiresAt a > dbnow then ae_count a else 0)"

definition db_clearAdmission :: "string \<Rightarrow> db_store \<Rightarrow> db_store" where
  "db_clearAdmission admissionKey s = s\<lparr>db_admissions := AList.delete admissionKey (db_admissions s)\<rparr>"

definition getVersion :: "string \<Rightarrow> db_store \<Rightarrow> nat" where
  "getVersion namespaceKey s = (case map_of (db_versions s) namespaceKey of Some v \<Rightarrow> v | None \<Rightarrow> 0)"

definition bumpVersion :: "string \<Rightarrow> db_store \<Rightarrow> nat \<times> db_store" where
  "bumpVersion namespaceKey s =
     (let v = (case map_of (db_versions s) namespaceKey of None \<Rightarrow> 1 | Some v \<Rightarrow> v + 1)
      in (v, s\<lparr>db_versions := AList.update namespaceKey v (db_versions s)\<rparr>))"

definition db_get :: "string \<Rightarrow> int \<Rightarrow> db_store \<Rightarrow> string option \<times> db_store" where
  "db_get entryKey now s = (map_option cr_payloadBlob (getEntry entryKey now s), s)"

definition db_put :: "codec \<Rightarrow> string \<Rightarrow> string \<Rightarrow> int \<Rightarrow> int \<Rightarrow> db_store \<Rightarrow> db_store option" where
  "db_put c entryKey v ttlSeconds now s =
     (case cache_deserialize c v of
        None \<Rightarrow> None
      | Some x \<Rightarrow> Some (upsertEntry entryKey
          \<lparr>cr_operation = env_operation x, cr_serverId = env_serverId x, cr_entityId = env_entityId x,
           cr_scopeType = env_scopeType x, cr_scopeHash = env_scopeHash x, cr_requestHash = env_requestHash x,
           cr_payloadEncoding = env_payloadEncoding x, cr_payloadBytes = env_payloadBytes x,
           cr_payloadBlob = v, cr_createdAt = now, cr_expiresAt = now + ttlSeconds * 1000\<rparr> s))"

definition db_runSweep :: "nat \<Rightarrow> int \<Rightarrow> db_store \<Rightarrow> (nat \<times> nat) \<times> db_store" where
  "db_runSweep batchSize dbnow s =
     (let (entriesDeleted, s1) = cleanupExpired batchSize dbnow s;
          (admissionsDeleted, s2) = cleanupExpiredAdmissions batchSize dbnow s1
      in ((entriesDeleted, admissionsDeleted), s2))"

definition db_ops :: "codec \<Rightarrow> nat \<Rightarrow> db_store store_ops" where
  "db_ops c batchSize = \<lparr>so_get = db_get, so_put = db_put c, so_delete = deleteEntry,
     so_recordAdmission = recordAttempt, so_admissionCount = getCount,
     so_clearAdmission = db_clearAdmission, so_version = getVersion, so_bump = bumpVersion,
     so_sweep = (\<lambda>now s. snd (db_runSweep batchSize now s))\<rparr>"

section \<open>The contract holds\<close>

definition memory_content :: "memory_store \<Rightarrow> string \<Rightarrow> (string \<times> int) option" where
  "memory_content s k = map_option (\<lambda>e. (me_value e, me_expiresAt e)) (map_of (ms_entries s) k)"

definition memory_ok :: "memory_store \<Rightarrow> bool" where
  "memory_ok s \<longleftrightarrow> jsmap_ok (ms_entries s) \<and> jsmap_ok (ms_admissions s) \<and> jsmap_ok (ms_namespaces s)"

lemma evictOldest_sub: "jsmap_ok es \<Longrightarrow> map_of (evictOldest mx now es) k = Some x \<Longrightarrow> map_of es k = Some x"
  by (auto simp: evictOldest_def drop_expired_def Let_def js_map_simps split: if_splits option.splits)

lemma evictOldest_ok: "jsmap_ok es \<Longrightarrow> jsmap_ok (evictOldest mx now es)"
  by (auto simp: evictOldest_def drop_expired_def Let_def jsmap.ok_del split: option.splits)

lemmas memory_defs = memory_ops_def memory_get_def memory_put_def memory_delete_def
  memory_recordAdmission_def memory_clearAdmission_def memory_version_def memory_bump_def
  memory_content_def memory_ok_def memory_sweep_def drop_expired_def Let_def

interpretation mem: versioned_store memory_ops memory_content memory_ok
  by unfold_locales
    (auto simp: memory_defs js_map_simps jsmap.ok_put jsmap.ok_del evictOldest_ok dest!: evictOldest_sub[rotated]
      split: option.splits if_splits)

interpretation noop: result_store noop_ops "\<lambda>_ _. None" "\<lambda>_. True"
  by unfold_locales (auto simp: noop_ops_def)

definition db_content :: "db_store \<Rightarrow> string \<Rightarrow> (string \<times> int) option" where
  "db_content s k = map_option (\<lambda>r. (cr_payloadBlob r, cr_expiresAt r)) (map_of (db_entries s) k)"

definition db_ok :: "db_store \<Rightarrow> bool" where
  "db_ok s \<longleftrightarrow> jsmap_ok (db_entries s) \<and> jsmap_ok (db_admissions s) \<and> jsmap_ok (db_versions s)"

lemma cleanup_rows_sub: "snd (cleanup_rows f n now t) = jsmap_keep (\<lambda>k _. k \<notin> set (map fst (take n
    (sort_key (\<lambda>(_, r). f r) (filter (\<lambda>(_, r). f r < now) t))))) t"
  by (simp add: cleanup_rows_def Let_def jsmap_keep_def)

lemma db_runSweep_tables:
  "db_entries (snd (db_runSweep n now s)) = snd (cleanup_rows cr_expiresAt n now (db_entries s))"
  "db_admissions (snd (db_runSweep n now s)) = snd (cleanup_rows ae_expiresAt n now (db_admissions s))"
  "db_versions (snd (db_runSweep n now s)) = db_versions s"
  by (simp_all add: db_runSweep_def cleanupExpired_def cleanupExpiredAdmissions_def Let_def split: prod.splits)

lemmas db_defs = db_runSweep_tables cleanup_rows_sub db_ops_def db_get_def db_put_def getEntry_def upsertEntry_def deleteEntry_def
  recordAttempt_def db_clearAdmission_def getVersion_def bumpVersion_def db_content_def db_ok_def Let_def

interpretation db: versioned_store "db_ops c batchSize" db_content db_ok for c batchSize
  by unfold_locales
    (auto simp: db_defs js_map_simps jsmap.ok_put jsmap.ok_del split: option.splits if_splits)

section \<open>Capacity and eviction of the in-memory store\<close>

lemma oldest_entry_step:
  "fold (\<lambda>(k, e) best. case best of
       None \<Rightarrow> Some (k, me_expiresAt e)
     | Some (_, oldestExpiry) \<Rightarrow> if me_expiresAt e < oldestExpiry then Some (k, me_expiresAt e) else best)
     es (Some (k0, x0)) = Some (k, x) \<Longrightarrow>
   x \<le> x0 \<and> (\<forall>(_, e)\<in>set es. x \<le> me_expiresAt e) \<and>
   ((k, x) = (k0, x0) \<or> (\<exists>e. (k, e) \<in> set es \<and> me_expiresAt e = x))"
proof (induction es arbitrary: k0 x0)
  case (Cons p es)
  obtain k1 e1 where p: "p = (k1, e1)" by (cases p)
  show ?case
  proof (cases "me_expiresAt e1 < x0")
    case True
    with Cons.prems Cons.IH[of k1 "me_expiresAt e1"] show ?thesis by (auto simp: p)
  next
    case False
    with Cons.prems Cons.IH[of k0 x0] show ?thesis by (auto simp: p)
  qed
qed simp

lemma oldest_entry_min:
  assumes "es \<noteq> []"
  shows "\<exists>k e. oldest_entry es = Some (k, me_expiresAt e) \<and> (k, e) \<in> set es \<and>
    (\<forall>(_, e')\<in>set es. me_expiresAt e \<le> me_expiresAt e')"
proof -
  obtain k0 e0 es' where es: "es = (k0, e0) # es'" using assms by (cases es) auto
  have "oldest_entry es \<noteq> None"
  proof -
    have "fold (\<lambda>(k, e) best. case best of
       None \<Rightarrow> Some (k, me_expiresAt e)
     | Some (_, oldestExpiry) \<Rightarrow> if me_expiresAt e < oldestExpiry then Some (k, me_expiresAt e) else best)
     xs (Some b) \<noteq> None" for xs b by (induction xs arbitrary: b) (auto split: prod.splits)
    then show ?thesis by (simp add: oldest_entry_def es)
  qed
  then obtain k x where kx: "oldest_entry es = Some (k, x)" by auto
  with oldest_entry_step[of es' k0 "me_expiresAt e0" k x]
  have "(\<forall>(_, e)\<in>set es. x \<le> me_expiresAt e) \<and> (\<exists>e. (k, e) \<in> set es \<and> me_expiresAt e = x)"
    by (auto simp: oldest_entry_def es)
  with kx show ?thesis by auto
qed

definition keys_named :: "(string, 'v) jsmap \<Rightarrow> bool" where
  "keys_named es \<longleftrightarrow> [] \<notin> fst ` set es"

definition unexpired :: "int \<Rightarrow> (string, memory_entry) jsmap \<Rightarrow> string \<Rightarrow> memory_entry \<Rightarrow> bool" where
  "unexpired now es k e \<longleftrightarrow> map_of es k = Some e \<and> now < me_expiresAt e"

lemma jsmap_in_set: "jsmap_ok m \<Longrightarrow> (k, v) \<in> set m \<longleftrightarrow> map_of m k = Some v"
  by (simp add: jsmap_ok_def)

text \<open>What eviction keeps: every unexpired entry but, if the map is full of them, one that expires first.\<close>

lemma evictOldest_result:
  assumes "jsmap_ok es" "keys_named es" "1 \<le> mx" "int (length es) \<le> mx"
  shows "int (length (evictOldest mx now es)) < mx"
    and "(\<forall>k e. unexpired now es k e \<longrightarrow> map_of (evictOldest mx now es) k = Some e) \<or>
      (\<exists>k0 e0. unexpired now es k0 e0 \<and> int (length (drop_expired now es)) = mx \<and>
         (\<forall>k e. unexpired now es k e \<longrightarrow> me_expiresAt e0 \<le> me_expiresAt e \<and>
            (k \<noteq> k0 \<longrightarrow> map_of (evictOldest mx now es) k = Some e)))"
proof -
  let ?d = "drop_expired now es"
  have d: "map_of ?d k = Some e \<longleftrightarrow> unexpired now es k e" for k e
    using assms(1) by (auto simp: drop_expired_def map_of_keep unexpired_def split: option.splits)
  have dok: "jsmap_ok ?d" and dn: "keys_named ?d"
    using assms(1,2) by (auto simp: drop_expired_def jsmap_keep_def keys_named_def jsmap_ok_def distinct_map_filter)
  have "length ?d \<le> length es" by (simp add: drop_expired_def jsmap_keep_def)
  then have dl: "int (length ?d) \<le> mx" using assms(4) by linarith
  have "int (length (evictOldest mx now es)) < mx \<and>
     ((\<forall>k e. unexpired now es k e \<longrightarrow> map_of (evictOldest mx now es) k = Some e) \<or>
      (\<exists>k0 e0. unexpired now es k0 e0 \<and> int (length ?d) = mx \<and>
         (\<forall>k e. unexpired now es k e \<longrightarrow> me_expiresAt e0 \<le> me_expiresAt e \<and>
            (k \<noteq> k0 \<longrightarrow> map_of (evictOldest mx now es) k = Some e))))"
  proof (cases "int (length ?d) \<ge> mx")
    case False
    then show ?thesis using d by (auto simp: evictOldest_def)
  next
    case True
    then have "?d \<noteq> []" using assms(3) by auto
    from oldest_entry_min[OF this] obtain k0 e0 where o: "oldest_entry ?d = Some (k0, me_expiresAt e0)"
      "(k0, e0) \<in> set ?d" "\<forall>(_, e')\<in>set ?d. me_expiresAt e0 \<le> me_expiresAt e'" by blast
    have "k0 \<noteq> []" using o(2) dn by (force simp: keys_named_def)
    then have ev: "evictOldest mx now es = AList.delete k0 ?d" using True o(1) by (simp add: evictOldest_def Let_def)
    have k0: "map_of ?d k0 = Some e0" using o(2) dok by (simp add: jsmap_in_set)
    have min: "me_expiresAt e0 \<le> me_expiresAt e" if "unexpired now es k e" for k e
      using that o(3) dok d[of k e] by (auto simp: jsmap_in_set[symmetric])
    have "length (AList.delete k0 ?d) < length ?d" using k0 by (intro length_delete_less) simp
    then have "int (length (evictOldest mx now es)) < mx" using dl ev by simp
    moreover have "map_of (evictOldest mx now es) k = Some e" if "unexpired now es k e" "k \<noteq> k0" for k e
      using that d[of k e] by (simp add: ev delete_conv')
    moreover have "unexpired now es k0 e0" using k0 d by blast
    ultimately show ?thesis using True dl min by (metis antisym)
  qed
  then show "int (length (evictOldest mx now es)) < mx"
    and "(\<forall>k e. unexpired now es k e \<longrightarrow> map_of (evictOldest mx now es) k = Some e) \<or>
      (\<exists>k0 e0. unexpired now es k0 e0 \<and> int (length (drop_expired now es)) = mx \<and>
         (\<forall>k e. unexpired now es k e \<longrightarrow> me_expiresAt e0 \<le> me_expiresAt e \<and>
            (k \<noteq> k0 \<longrightarrow> map_of (evictOldest mx now es) k = Some e)))"
    by blast+
qed

text \<open>Runs of the in-memory store, with the operations in any order and at any times.\<close>

inductive memory_run :: "int \<Rightarrow> memory_store \<Rightarrow> bool" for mx where
  mr_new: "memory_run mx (memory_store_new mx)"
| mr_get: "memory_run mx s \<Longrightarrow> memory_run mx (snd (memory_get k now s))"
| mr_put: "memory_run mx s \<Longrightarrow> k \<noteq> [] \<Longrightarrow> memory_run mx (memory_put k v ttl now s)"
| mr_delete: "memory_run mx s \<Longrightarrow> memory_run mx (memory_delete k s)"
| mr_admission: "memory_run mx s \<Longrightarrow> memory_run mx (snd (memory_recordAdmission a w now s))"
| mr_clear: "memory_run mx s \<Longrightarrow> memory_run mx (memory_clearAdmission a s)"
| mr_bump: "memory_run mx s \<Longrightarrow> memory_run mx (snd (memory_bump n s))"
| mr_sweep: "memory_run mx s \<Longrightarrow> memory_run mx (memory_sweep now s)"
| mr_close: "memory_run mx s \<Longrightarrow> memory_run mx (memory_close s)"

definition memory_inv :: "int \<Rightarrow> memory_store \<Rightarrow> bool" where
  "memory_inv mx s \<longleftrightarrow> memory_ok s \<and> ms_maxEntries s = mx \<and> keys_named (ms_entries s) \<and>
     int (length (ms_entries s)) \<le> mx"

definition entries_sub :: "(string, memory_entry) jsmap \<Rightarrow> (string, memory_entry) jsmap \<Rightarrow> bool" where
  "entries_sub es es' \<longleftrightarrow> length es \<le> length es' \<and> set es \<subseteq> set es'"

lemma entries_sub_delete: "entries_sub (AList.delete k es) es"
  by (auto simp: entries_sub_def AList.length_delete_le AList.delete_eq)

lemma entries_sub_keep: "entries_sub (jsmap_keep P es) es"
  by (auto simp: entries_sub_def jsmap_keep_def)

lemma entries_sub_trans: "entries_sub a b \<Longrightarrow> entries_sub b c \<Longrightarrow> entries_sub a c"
  by (auto simp: entries_sub_def)

lemma entries_sub_evict: "entries_sub (evictOldest mx now es) es"
proof -
  have d: "entries_sub (drop_expired now es) es" by (simp add: drop_expired_def entries_sub_keep)
  have "evictOldest mx now es = drop_expired now es \<or> (\<exists>k. evictOldest mx now es = AList.delete k (drop_expired now es))"
    by (auto simp: evictOldest_def Let_def split: option.splits)
  with d entries_sub_trans[OF entries_sub_delete d] show ?thesis by metis
qed

lemma memory_inv_shrink:
  assumes "memory_inv mx s" "entries_sub (ms_entries s') (ms_entries s)" "ms_maxEntries s' = mx" "memory_ok s'"
  shows "memory_inv mx s'"
  using assms by (auto simp: memory_inv_def entries_sub_def keys_named_def)

lemma memory_put_inv:
  assumes "memory_inv mx s" "k \<noteq> []" "1 \<le> mx"
  shows "memory_inv mx (memory_put k v ttl now s)"
proof -
  let ?new = "\<lparr>me_value = v, me_expiresAt = now + ttl * 1000\<rparr>"
  let ?es = "if int (length (ms_entries s)) \<ge> ms_maxEntries s \<and> map_of (ms_entries s) k = None
                then evictOldest (ms_maxEntries s) now (ms_entries s) else ms_entries s"
  have inv: "jsmap_ok (ms_entries s)" "keys_named (ms_entries s)" "ms_maxEntries s = mx"
      "int (length (ms_entries s)) \<le> mx" "memory_ok s"
    using assms(1) by (auto simp: memory_inv_def memory_ok_def)
  have len: "int (length (AList.update k ?new ?es)) \<le> mx"
    using evictOldest_result(1)[OF inv(1,2) assms(3) inv(4), of now] inv by (auto simp: length_update)
  have "keys_named ?es" using inv(2) entries_sub_evict[of mx now "ms_entries s"] inv(3)
    by (auto simp: keys_named_def entries_sub_def)
  then have "keys_named (AList.update k ?new ?es)"
    using assms(2) by (fastforce simp: keys_named_def dest: set_update_subset)
  moreover have "memory_ok (memory_put k v ttl now s)"
    using mem.put_keeps[OF inv(5)] by (simp add: memory_ops_def)
  ultimately show ?thesis using len inv(3) by (simp add: memory_inv_def memory_put_def Let_def)
qed

lemma memory_delete_inv: "memory_inv mx s \<Longrightarrow> memory_inv mx (memory_delete k s)"
  by (rule memory_inv_shrink[of mx s])
    (auto simp: memory_delete_def memory_inv_def memory_ok_def entries_sub_delete jsmap.ok_del)

lemma memory_sweep_inv: "memory_inv mx s \<Longrightarrow> memory_inv mx (memory_sweep now s)"
  by (rule memory_inv_shrink[of mx s])
    (simp_all add: memory_sweep_def drop_expired_def memory_inv_def memory_ok_def entries_sub_keep)

lemma memory_run_inv: "memory_run mx s \<Longrightarrow> 1 \<le> mx \<Longrightarrow> memory_inv mx s"
proof (induction rule: memory_run.induct)
  case mr_new
  then show ?case by (simp add: memory_inv_def memory_ok_def memory_store_new_def keys_named_def)
next
  case (mr_put s k v ttl now)
  then show ?case by (simp add: memory_put_inv)
next
  case (mr_close s)
  then show ?case by (simp add: memory_inv_def memory_ok_def memory_close_def keys_named_def)
next
  case (mr_get s k now)
  have "snd (memory_get k now s) = s \<or> snd (memory_get k now s) = memory_delete k s"
    by (simp add: memory_get_def memory_delete_def split: option.splits)
  with mr_get show ?case using memory_delete_inv by auto
next
  case (mr_delete s k)
  then show ?case using memory_delete_inv by simp
next
  case (mr_sweep s now)
  then show ?case using memory_sweep_inv by simp
qed (auto simp: memory_inv_def memory_defs jsmap.ok_put jsmap.ok_del split: option.splits)

text \<open>
  The in-memory cache is bounded. With a capacity of at least one entry, no sequence of
  operations makes the store hold more entries than its capacity.
\<close>

theorem memory_store_bounded:
  assumes "memory_run mx s" and "1 \<le> mx"
  shows "int (length (ms_entries s)) \<le> mx"
  using memory_run_inv[OF assms] by (simp add: memory_inv_def)

text \<open>
  Writing to the in-memory cache. A written value is read back until its lifetime ends and
  not after it. Every other unexpired entry survives the write, except that a store full of
  unexpired entries gives up one, of those the one that expires first, for a new key.
\<close>

theorem memory_store_write:
  assumes "memory_run mx s" and "1 \<le> mx" and "k \<noteq> []"
  shows "fst (memory_get k later (memory_put k v ttl now s)) = (if later < now + ttl * 1000 then Some v else None) \<and>
    ((\<forall>k' e. k' \<noteq> k \<and> unexpired now (ms_entries s) k' e \<longrightarrow>
        map_of (ms_entries (memory_put k v ttl now s)) k' = Some e) \<or>
     map_of (ms_entries s) k = None \<and>
     (\<exists>k0 e0. unexpired now (ms_entries s) k0 e0 \<and>
       int (length (filter (\<lambda>(_, e). now < me_expiresAt e) (ms_entries s))) = mx \<and>
       (\<forall>k' e. unexpired now (ms_entries s) k' e \<longrightarrow> me_expiresAt e0 \<le> me_expiresAt e \<and>
          (k' \<noteq> k \<and> k' \<noteq> k0 \<longrightarrow> map_of (ms_entries (memory_put k v ttl now s)) k' = Some e))))"
proof
  have inv: "jsmap_ok (ms_entries s)" "keys_named (ms_entries s)" "ms_maxEntries s = mx"
      "int (length (ms_entries s)) \<le> mx"
    using memory_run_inv[OF assms(1,2)] by (auto simp: memory_inv_def memory_ok_def)
  show "fst (memory_get k later (memory_put k v ttl now s)) = (if later < now + ttl * 1000 then Some v else None)"
    by (simp add: memory_get_def memory_put_def Let_def update_conv')
  have live: "drop_expired now es = filter (\<lambda>(_, e). now < me_expiresAt e) es" for es
    by (simp add: drop_expired_def jsmap_keep_def not_le)
  let ?full = "int (length (ms_entries s)) \<ge> mx \<and> map_of (ms_entries s) k = None"
  have ent: "ms_entries (memory_put k v ttl now s) = AList.update k \<lparr>me_value = v, me_expiresAt = now + ttl * 1000\<rparr>
      (if ?full then evictOldest mx now (ms_entries s) else ms_entries s)"
    using inv(3) by (simp add: memory_put_def Let_def)
  show "(\<forall>k' e. k' \<noteq> k \<and> unexpired now (ms_entries s) k' e \<longrightarrow>
        map_of (ms_entries (memory_put k v ttl now s)) k' = Some e) \<or>
     map_of (ms_entries s) k = None \<and>
     (\<exists>k0 e0. unexpired now (ms_entries s) k0 e0 \<and>
       int (length (filter (\<lambda>(_, e). now < me_expiresAt e) (ms_entries s))) = mx \<and>
       (\<forall>k' e. unexpired now (ms_entries s) k' e \<longrightarrow> me_expiresAt e0 \<le> me_expiresAt e \<and>
          (k' \<noteq> k \<and> k' \<noteq> k0 \<longrightarrow> map_of (ms_entries (memory_put k v ttl now s)) k' = Some e)))"
  proof (cases ?full)
    case False
    then show ?thesis by (auto simp: ent update_conv' unexpired_def)
  next
    case True
    then show ?thesis
      using evictOldest_result(2)[OF inv(1,2) assms(2) inv(4), of now] unfolding live ent
      by (simp add: update_conv') metis
  qed
qed

definition demo_memory :: memory_store where
  "demo_memory = memory_put ''b'' ''2'' 60 2000 (memory_put ''a'' ''1'' 30 1000 (memory_store_new 2))"

lemma demo_memory_run: "memory_run 2 demo_memory"
  unfolding demo_memory_def by (intro mr_put mr_new) simp_all

theorem memory_store_bounded_witness:
  "length (ms_entries demo_memory) = 2 \<and>
   int (length (ms_entries (memory_put ''c'' ''3'' 30 3000 demo_memory))) \<le> 2"
proof -
  have "memory_run 2 (memory_put ''c'' ''3'' 30 3000 demo_memory)" by (intro mr_put demo_memory_run) simp
  from memory_store_bounded[OF this] show ?thesis by (simp add: demo_memory_def) code_simp
qed

theorem memory_store_write_witness:
  "fst (memory_get ''c'' 4000 (memory_put ''c'' ''3'' 30 3000 demo_memory)) = Some ''3'' \<and>
   fst (memory_get ''c'' 33000 (memory_put ''c'' ''3'' 30 3000 demo_memory)) = None"
  using memory_store_write[OF demo_memory_run, of "''c''" 4000 "''3''" 30 3000]
    memory_store_write[OF demo_memory_run, of "''c''" 33000 "''3''" 30 3000] by simp

end
