(* ===== verification/Cache_Manager.thy ===== *)
theory Cache_Manager
  imports Cache_Policy Cache_Store
begin

text \<open>
  The result cache on top of its store: \<open>src/mcp/core/cache/ResultCacheManager.ts\<close> and
  \<open>src/mcp/core/cache/ResultCacheService.ts\<close>. Lookups and writes use keys that carry the
  current namespace versions; a purge bumps a version. The main result, for every backend that
  counts versions: a hit returns what was stored for the same operation, server, entity, scope,
  identity and request, within its lifetime, by a call that saw every purge so far.
\<close>

section \<open>State\<close>

record cache_metrics =
  m_hits :: nat
  m_misses :: nat
  m_bypasses :: nat
  m_sets :: nat
  m_errors :: nat
  m_purges :: nat
  m_invalidations :: nat
  m_observations :: nat
  m_deferred :: nat
  m_promoted :: nat

record 's cache_manager =
  cm_store :: 's
  cm_metrics :: cache_metrics

datatype bypass_reason = DisabledGlobally | DisabledByPolicy | MissingUserIdentity | MissingTenantIdentity
  | MissingScopeIdentity | DeserializationFailed | BackendUnavailable

text \<open>The arguments the operations share.\<close>

record cache_request =
  rq_operation :: cache_operation
  rq_serverId :: string
  rq_entityId :: string
  rq_scopeContext :: scope_context
  rq_policy :: resolved_policy
  rq_params :: json

record lookup_result =
  lk_entry :: "envelope option"
  lk_bypass :: "bypass_reason option"
  lk_versions :: "namespace_versions option"

text \<open>The environment: digests, codec, configuration, printing of dates.\<close>

record cache_env =
  ce_key :: key_env
  ce_codec :: codec
  ce_config :: cache_config
  ce_iso :: "int \<Rightarrow> string"

text \<open>Which calls of the store fail with an exception.\<close>

datatype store_call = CallGet | CallPut | CallDelete | CallVersion | CallRecord | CallClear | CallBump

type_synonym outage = "store_call \<Rightarrow> bool"

abbreviation count_metric :: "(cache_metrics \<Rightarrow> cache_metrics) \<Rightarrow> 's cache_manager \<Rightarrow> 's cache_manager" where
  "count_metric f m \<equiv> m\<lparr>cm_metrics := f (cm_metrics m)\<rparr>"

definition inc_hits where "inc_hits x = x\<lparr>m_hits := m_hits x + 1\<rparr>"
definition inc_misses where "inc_misses x = x\<lparr>m_misses := m_misses x + 1\<rparr>"
definition inc_bypasses where "inc_bypasses x = x\<lparr>m_bypasses := m_bypasses x + 1\<rparr>"
definition inc_sets where "inc_sets x = x\<lparr>m_sets := m_sets x + 1\<rparr>"
definition inc_errors where "inc_errors x = x\<lparr>m_errors := m_errors x + 1\<rparr>"
definition inc_purges where "inc_purges x = x\<lparr>m_purges := m_purges x + 1\<rparr>"
definition inc_invalidations where "inc_invalidations x = x\<lparr>m_invalidations := m_invalidations x + 1\<rparr>"
definition inc_observations where "inc_observations x = x\<lparr>m_observations := m_observations x + 1\<rparr>"
definition inc_deferred where "inc_deferred x = x\<lparr>m_deferred := m_deferred x + 1\<rparr>"
definition inc_promoted where "inc_promoted x = x\<lparr>m_promoted := m_promoted x + 1\<rparr>"

section \<open>Resolving a request\<close>

definition resolveScopeIdentity :: "scope_context \<Rightarrow> cache_scope \<Rightarrow> string option" where
  "resolveScopeIdentity ctx scopeType =
     (case scopeType of
        GlobalScope \<Rightarrow> Some ''global''
      | UserScope \<Rightarrow> sc_userId ctx
      | TenantScope \<Rightarrow> sc_tenantId ctx)"

definition global_namespace :: "cache_env \<Rightarrow> string" where
  "global_namespace e = buildNamespaceKey (cfg_keyPrefix (ce_config e)) [''global'']"

definition server_namespace :: "cache_env \<Rightarrow> string \<Rightarrow> string" where
  "server_namespace e serverId = buildNamespaceKey (cfg_keyPrefix (ce_config e)) [''server'', serverId]"

definition entity_namespace :: "cache_env \<Rightarrow> cache_operation \<Rightarrow> string \<Rightarrow> string \<Rightarrow> string" where
  "entity_namespace e operation serverId entityId =
     buildNamespaceKey (cfg_keyPrefix (ce_config e))
       (case operation of
          ToolOp \<Rightarrow> [''tool'', serverId, entityId]
        | PromptOp \<Rightarrow> [''prompt'', serverId, entityId]
        | ResourceOp \<Rightarrow> [''resource'', serverId, buildEntityHash (ce_key e) entityId])"

record runtime_context =
  rt_scopeIdentity :: string
  rt_scopeHash :: string
  rt_requestHash :: string
  rt_entityHash :: string
  rt_versions :: namespace_versions

definition request_digest :: "cache_env \<Rightarrow> cache_request \<Rightarrow> string" where
  "request_digest e rq = canonicalizeParams (ce_key e) (rq_params rq)
     (rp_denyFields (rq_policy rq)) (rp_allowFields (rq_policy rq))"

definition current_versions :: "cache_env \<Rightarrow> 's store_ops \<Rightarrow> cache_request \<Rightarrow> 's \<Rightarrow> namespace_versions" where
  "current_versions e ops rq s =
     \<lparr>globalVersion = so_version ops (global_namespace e) s,
      serverVersion = so_version ops (server_namespace e (rq_serverId rq)) s,
      entityVersion = so_version ops (entity_namespace e (rq_operation rq) (rq_serverId rq) (rq_entityId rq)) s\<rparr>"

definition resolveRuntimeContext ::
    "cache_env \<Rightarrow> 's store_ops \<Rightarrow> outage \<Rightarrow> cache_request \<Rightarrow> namespace_versions option \<Rightarrow>
     's cache_manager \<Rightarrow> (bypass_reason + runtime_context) \<times> 's cache_manager" where
  "resolveRuntimeContext e ops down rq capturedVersions m =
     (case resolveScopeIdentity (rq_scopeContext rq) (rp_scope (rq_policy rq)) of
        Some scopeIdentity \<Rightarrow>
          if scopeIdentity = []
          then (Inl (case rp_scope (rq_policy rq) of UserScope \<Rightarrow> MissingUserIdentity
                 | TenantScope \<Rightarrow> MissingTenantIdentity | GlobalScope \<Rightarrow> MissingScopeIdentity), m)
          else
            (let context = (\<lambda>vs. \<lparr>rt_scopeIdentity = scopeIdentity,
                   rt_scopeHash = buildScopeHash (ce_key e) scopeIdentity,
                   rt_requestHash = request_digest e rq,
                   rt_entityHash = buildEntityHash (ce_key e) (rq_entityId rq), rt_versions = vs\<rparr>)
             in case capturedVersions of
                  Some vs \<Rightarrow> (Inr (context vs), m)
                | None \<Rightarrow>
                    if down CallVersion then (Inl BackendUnavailable, count_metric inc_errors m)
                    else (Inr (context (current_versions e ops rq (cm_store m))), m))
      | None \<Rightarrow>
          (Inl (case rp_scope (rq_policy rq) of UserScope \<Rightarrow> MissingUserIdentity
             | TenantScope \<Rightarrow> MissingTenantIdentity | GlobalScope \<Rightarrow> MissingScopeIdentity), m))"

definition entry_key :: "cache_env \<Rightarrow> cache_request \<Rightarrow> runtime_context \<Rightarrow> string" where
  "entry_key e rq rt = buildResultEntryKey (cfg_keyPrefix (ce_config e)) (rq_operation rq) (rq_serverId rq)
     (rt_entityHash rt) (rp_scope (rq_policy rq)) (rt_scopeHash rt) (rt_versions rt) (rt_requestHash rt)"

definition admission_key :: "cache_env \<Rightarrow> cache_request \<Rightarrow> runtime_context \<Rightarrow> string" where
  "admission_key e rq rt = buildAdmissionKey (cfg_keyPrefix (ce_config e)) (rq_operation rq) (rq_serverId rq)
     (rt_entityHash rt) (rp_scope (rq_policy rq)) (rt_scopeHash rt) (rt_versions rt) (rt_requestHash rt)"

section \<open>Lookup and store\<close>

definition cache_bypass ::
    "bypass_reason \<Rightarrow> namespace_versions option \<Rightarrow> 's cache_manager \<Rightarrow> lookup_result \<times> 's cache_manager" where
  "cache_bypass reason vs m =
     (\<lparr>lk_entry = None, lk_bypass = Some reason, lk_versions = vs\<rparr>, count_metric inc_bypasses m)"

definition manager_lookup ::
    "cache_env \<Rightarrow> 's store_ops \<Rightarrow> outage \<Rightarrow> cache_request \<Rightarrow> int \<Rightarrow> 's cache_manager \<Rightarrow>
     lookup_result \<times> 's cache_manager" where
  "manager_lookup e ops down rq now m =
     (if \<not> cfg_enabled (ce_config e) then cache_bypass DisabledGlobally None m
      else if \<not> rp_enabled (rq_policy rq) then cache_bypass DisabledByPolicy None m
      else case resolveRuntimeContext e ops down rq None m of
          (Inl reason, m1) \<Rightarrow> cache_bypass reason None m1
        | (Inr rt, m1) \<Rightarrow>
            (let entryKey = entry_key e rq rt in
             if down CallGet
             then cache_bypass BackendUnavailable (Some (rt_versions rt)) (count_metric inc_errors m1)
             else
               (let (buffer, s2) = so_get ops entryKey now (cm_store m1);
                    m2 = m1\<lparr>cm_store := s2\<rparr>
                in case buffer of
                     None \<Rightarrow>
                       (\<lparr>lk_entry = None, lk_bypass = None, lk_versions = Some (rt_versions rt)\<rparr>,
                        count_metric inc_misses m2)
                   | Some b \<Rightarrow>
                       (case cache_deserialize (ce_codec e) b of
                          None \<Rightarrow>
                            (\<lparr>lk_entry = None, lk_bypass = Some DeserializationFailed,
                              lk_versions = Some (rt_versions rt)\<rparr>,
                             count_metric inc_bypasses (count_metric inc_errors
                               (if down CallDelete then m2
                                else m2\<lparr>cm_store := so_delete ops entryKey (cm_store m2)\<rparr>)))
                        | Some en \<Rightarrow>
                            (\<lparr>lk_entry = Some en, lk_bypass = None, lk_versions = None\<rparr>,
                             count_metric inc_hits m2)))))"

definition estimatePayloadBytes :: "cache_env \<Rightarrow> json \<Rightarrow> nat option" where
  "estimatePayloadBytes e v =
     (case json_text (co_nstr (ce_codec e)) v of
        None \<Rightarrow> None
      | Some t \<Rightarrow> Some (length (co_utf8 (ce_codec e) t)))"

definition shouldCompress :: "cache_config \<Rightarrow> bool" where
  "shouldCompress g \<longleftrightarrow> cfg_compress g = ''true'' \<or> cfg_compress g = ''auto'' \<and> cfg_backend g = ''redis''"

definition request_envelope ::
    "cache_env \<Rightarrow> cache_request \<Rightarrow> runtime_context \<Rightarrow> json \<Rightarrow> nat \<Rightarrow> nat \<Rightarrow> int \<Rightarrow> envelope" where
  "request_envelope e rq rt result payloadBytes observations now =
     createEnvelope (rq_operation rq) (rq_serverId rq) (rq_entityId rq) (rp_scope (rq_policy rq))
       (rt_scopeHash rt) (rp_ttlSeconds (rq_policy rq)) (rp_admissionPolicy (rq_policy rq)) observations
       (rt_requestHash rt) result payloadBytes (ce_iso e now)"

definition manager_store ::
    "cache_env \<Rightarrow> 's store_ops \<Rightarrow> outage \<Rightarrow> cache_request \<Rightarrow> json \<Rightarrow> nat \<Rightarrow> namespace_versions option \<Rightarrow>
     bool \<Rightarrow> int \<Rightarrow> 's cache_manager \<Rightarrow> bool \<times> 's cache_manager" where
  "manager_store e ops down rq result observations capturedVersions countAsPromotion now m =
     (if \<not> cfg_enabled (ce_config e) \<or> \<not> rp_enabled (rq_policy rq) then (False, count_metric inc_bypasses m)
      else case resolveRuntimeContext e ops down rq capturedVersions m of
          (Inl reason, m1) \<Rightarrow> (False, count_metric inc_bypasses m1)
        | (Inr rt, m1) \<Rightarrow>
            (case estimatePayloadBytes e result of
               None \<Rightarrow> (False, count_metric inc_errors (count_metric inc_bypasses m1))
             | Some payloadBytes \<Rightarrow>
                 if int payloadBytes > rp_maxEntryBytes (rq_policy rq) then (False, count_metric inc_bypasses m1)
                 else
                   (let entryKey = entry_key e rq rt;
                        en = request_envelope e rq rt result payloadBytes observations now;
                        serialized = cache_serialize (ce_codec e) en (shouldCompress (ce_config e))
                          (cfg_compressionMinBytes (ce_config e))
                    in if int (length serialized) > rp_maxEntryBytes (rq_policy rq)
                       then (False, count_metric inc_bypasses m1)
                       else case (if down CallPut then None
                            else so_put ops entryKey serialized (rp_ttlSeconds (rq_policy rq)) now (cm_store m1)) of
                           None \<Rightarrow> (False, count_metric inc_bypasses (count_metric inc_errors m1))
                         | Some s2 \<Rightarrow>
                             (True, (if countAsPromotion then count_metric inc_promoted else id)
                                (count_metric inc_sets (m1\<lparr>cm_store := s2\<rparr>))))))"

section \<open>Admission\<close>

definition manager_recordAdmission ::
    "cache_env \<Rightarrow> 's store_ops \<Rightarrow> outage \<Rightarrow> cache_request \<Rightarrow> namespace_versions option \<Rightarrow> int \<Rightarrow>
     's cache_manager \<Rightarrow> nat \<times> 's cache_manager" where
  "manager_recordAdmission e ops down rq capturedVersions now m =
     (if \<not> cfg_enabled (ce_config e) \<or> \<not> rp_enabled (rq_policy rq) then (0, m)
      else case resolveRuntimeContext e ops down rq capturedVersions m of
          (Inl reason, m1) \<Rightarrow> (0, m1)
        | (Inr rt, m1) \<Rightarrow>
            if down CallRecord then (0, count_metric inc_bypasses (count_metric inc_errors m1))
            else (let (count, s2) = so_recordAdmission ops (admission_key e rq rt)
                        (rp_admissionWindowSeconds (rq_policy rq)) now (cm_store m1)
                  in (count, count_metric inc_observations (m1\<lparr>cm_store := s2\<rparr>))))"

definition manager_clearAdmission ::
    "cache_env \<Rightarrow> 's store_ops \<Rightarrow> outage \<Rightarrow> cache_request \<Rightarrow> 's cache_manager \<Rightarrow> 's cache_manager" where
  "manager_clearAdmission e ops down rq m =
     (if \<not> cfg_enabled (ce_config e) \<or> \<not> rp_enabled (rq_policy rq) then m
      else case resolveRuntimeContext e ops down rq None m of
          (Inl reason, m1) \<Rightarrow> m1
        | (Inr rt, m1) \<Rightarrow>
            if down CallClear then count_metric inc_errors m1
            else m1\<lparr>cm_store := so_clearAdmission ops (admission_key e rq rt) (cm_store m1)\<rparr>)"

definition shouldPromote :: "nat \<Rightarrow> resolved_policy \<Rightarrow> 's cache_manager \<Rightarrow> bool \<times> 's cache_manager" where
  "shouldPromote admissionCount policy m =
     (if rp_admissionPolicy policy = Immediate then (True, m)
      else if admissionCount \<ge> 2 then (True, m) else (False, count_metric inc_deferred m))"

section \<open>Purging\<close>

definition bumpNamespace :: "'s store_ops \<Rightarrow> outage \<Rightarrow> string \<Rightarrow> 's cache_manager \<Rightarrow> 's cache_manager" where
  "bumpNamespace ops down namespaceKey m =
     (if down CallBump then count_metric inc_errors m
      else count_metric inc_purges (m\<lparr>cm_store := snd (so_bump ops namespaceKey (cm_store m))\<rparr>))"

definition purgeGlobal :: "cache_env \<Rightarrow> 's store_ops \<Rightarrow> outage \<Rightarrow> 's cache_manager \<Rightarrow> 's cache_manager" where
  "purgeGlobal e ops down m = bumpNamespace ops down (global_namespace e) m"

definition purgeServer ::
    "cache_env \<Rightarrow> 's store_ops \<Rightarrow> outage \<Rightarrow> string \<Rightarrow> 's cache_manager \<Rightarrow> 's cache_manager" where
  "purgeServer e ops down serverId m = bumpNamespace ops down (server_namespace e serverId) m"

definition purgeTool ::
    "cache_env \<Rightarrow> 's store_ops \<Rightarrow> outage \<Rightarrow> string \<Rightarrow> string \<Rightarrow> 's cache_manager \<Rightarrow> 's cache_manager" where
  "purgeTool e ops down serverId toolName m =
     bumpNamespace ops down
       (buildNamespaceKey (cfg_keyPrefix (ce_config e)) [''tool'', serverId, toolName]) m"

definition purgePrompt ::
    "cache_env \<Rightarrow> 's store_ops \<Rightarrow> outage \<Rightarrow> string \<Rightarrow> string \<Rightarrow> 's cache_manager \<Rightarrow> 's cache_manager" where
  "purgePrompt e ops down serverId promptName m =
     bumpNamespace ops down
       (buildNamespaceKey (cfg_keyPrefix (ce_config e)) [''prompt'', serverId, promptName]) m"

definition purgeResource ::
    "cache_env \<Rightarrow> 's store_ops \<Rightarrow> outage \<Rightarrow> string \<Rightarrow> string \<Rightarrow> 's cache_manager \<Rightarrow> 's cache_manager" where
  "purgeResource e ops down serverId uri m =
     bumpNamespace ops down
       (buildNamespaceKey (cfg_keyPrefix (ce_config e)) [''resource'', serverId, buildEntityHash (ce_key e) uri]) m"

definition invalidateResource ::
    "cache_env \<Rightarrow> 's store_ops \<Rightarrow> outage \<Rightarrow> string \<Rightarrow> string \<Rightarrow> 's cache_manager \<Rightarrow> 's cache_manager" where
  "invalidateResource e ops down serverId uri m =
     count_metric inc_invalidations (purgeResource e ops down serverId uri m)"

text \<open>The two deletions are awaited together; \<open>None\<close> is the error of either, which is not caught.\<close>

definition purgeExact ::
    "cache_env \<Rightarrow> 's store_ops \<Rightarrow> outage \<Rightarrow> cache_request \<Rightarrow> 's cache_manager \<Rightarrow> unit option \<times> 's cache_manager" where
  "purgeExact e ops down rq m =
     (case resolveRuntimeContext e ops down rq None m of
        (Inl reason, m1) \<Rightarrow> (Some (), m1)
      | (Inr rt, m1) \<Rightarrow>
          (let s1 = (if down CallDelete then cm_store m1 else so_delete ops (entry_key e rq rt) (cm_store m1));
               s2 = (if down CallClear then s1 else so_clearAdmission ops (admission_key e rq rt) s1);
               m2 = m1\<lparr>cm_store := s2\<rparr>
           in if down CallDelete \<or> down CallClear then (None, m2) else (Some (), count_metric inc_purges m2)))"

section \<open>The service\<close>

definition isToolResultCacheable :: "json \<Rightarrow> bool" where
  "isToolResultCacheable result =
     (case result of
        JObj _ fs \<Rightarrow> map_of fs ''isError'' \<noteq> Some (JBool True)
      | _ \<Rightarrow> True)"

fun record_observations ::
    "cache_env \<Rightarrow> 's store_ops \<Rightarrow> outage \<Rightarrow> cache_request \<Rightarrow> namespace_versions option \<Rightarrow> int \<Rightarrow>
     nat \<Rightarrow> nat \<Rightarrow> 's cache_manager \<Rightarrow> nat \<times> 's cache_manager" where
  "record_observations e ops down rq vs now 0 admissionCount m = (admissionCount, m)"
| "record_observations e ops down rq vs now (Suc n) admissionCount m =
     (let (count, m1) = manager_recordAdmission e ops down rq vs now m
      in record_observations e ops down rq vs now n count m1)"

definition storeResult ::
    "cache_env \<Rightarrow> 's store_ops \<Rightarrow> outage \<Rightarrow> cache_request \<Rightarrow> json \<Rightarrow> nat \<Rightarrow> namespace_versions option \<Rightarrow>
     int \<Rightarrow> 's cache_manager \<Rightarrow> bool \<times> 's cache_manager" where
  "storeResult e ops down rq result observationIncrement capturedVersions now m =
     (if rq_operation rq = ToolOp \<and> \<not> isToolResultCacheable result then (False, count_metric inc_bypasses m)
      else if rp_admissionPolicy (rq_policy rq) = Immediate
      then manager_store e ops down rq result 0 capturedVersions False now m
      else
        (let (admissionCount, m1) = record_observations e ops down rq capturedVersions now
               (max 1 observationIncrement) 0 m;
             (promote, m2) = shouldPromote admissionCount (rq_policy rq) m1
         in if \<not> promote then (False, m2)
            else
              (let (stored, m3) = manager_store e ops down rq result admissionCount capturedVersions True now m2
               in (stored, if stored then manager_clearAdmission e ops down rq m3 else m3))))"

definition identityMissing :: "cache_request \<Rightarrow> bool" where
  "identityMissing rq \<longleftrightarrow>
     rp_scope (rq_policy rq) = TenantScope \<and> (sc_tenantId (rq_scopeContext rq) = None \<or> sc_tenantId (rq_scopeContext rq) = Some []) \<or>
     rp_scope (rq_policy rq) = UserScope \<and> (sc_userId (rq_scopeContext rq) = None \<or> sc_userId (rq_scopeContext rq) = Some [])"

definition singleflight_key :: "cache_env \<Rightarrow> cache_request \<Rightarrow> namespace_versions option \<Rightarrow> string" where
  "singleflight_key e rq lookupVersions =
     (let scopeIdentity = (case rp_scope (rq_policy rq) of
            GlobalScope \<Rightarrow> ''global''
          | TenantScope \<Rightarrow> the (sc_tenantId (rq_scopeContext rq))
          | UserScope \<Rightarrow> the (sc_userId (rq_scopeContext rq)));
          versionSuffix = (case lookupVersions of
            Some vs \<Rightarrow> '':'' @ nat_str (globalVersion vs) @ '':'' @ nat_str (serverVersion vs) @ '':'' @ nat_str (entityVersion vs)
          | None \<Rightarrow> [])
      in js_join '':'' [''sf'', operation_text (rq_operation rq), rq_serverId rq, rq_entityId rq,
           scopeIdentity, request_digest e rq] @ versionSuffix)"

text \<open>
  \<open>executeWithCache\<close>, with the call that does the work (\<open>factory\<close>), and \<open>flight key\<close> what the
  registry of flights in progress answers for a key: the result, whether this call led the flight,
  and the number of calls it served. \<open>Inl\<close> is the error of the call. The write of the leader
  happens in the background, at time \<open>later\<close>.
\<close>

definition executeWithCache ::
    "cache_env \<Rightarrow> 's store_ops \<Rightarrow> outage \<Rightarrow> cache_request \<Rightarrow> (string + json) \<Rightarrow>
     (string \<Rightarrow> string + json \<times> bool \<times> nat) \<Rightarrow> int \<Rightarrow> int \<Rightarrow> 's cache_manager \<Rightarrow>
     (string + json \<times> bool) \<times> 's cache_manager" where
  "executeWithCache e ops down rq factory flight now later m =
     (let (lookupResult, m1) = manager_lookup e ops down rq now m in
      case lk_entry lookupResult of
        Some en \<Rightarrow> (Inr (env_payload en, True), m1)
      | None \<Rightarrow>
          if identityMissing rq
          then (case factory of Inl err \<Rightarrow> (Inl err, m1) | Inr result \<Rightarrow> (Inr (result, False), m1))
          else
            (case flight (singleflight_key e rq (lk_versions lookupResult)) of
               Inl err \<Rightarrow> (Inl err, m1)
             | Inr (result, isLeader, requestCount) \<Rightarrow>
                 (Inr (result, False),
                  if isLeader
                  then snd (storeResult e ops down rq result
                    (if rp_admissionPolicy (rq_policy rq) = SecondHit then max 1 requestCount else 1)
                    (lk_versions lookupResult) later m1)
                  else m1)))"

section \<open>Runs\<close>

text \<open>
  A run of the cache with ghost records: the versions lookups handed out, the entries written, the
  namespaces purged, each with the number of the step. The operations of concurrent requests
  interleave freely; a write uses versions that an earlier lookup of the same entity handed out, or
  none, and then reads the current ones.
\<close>

record capture =
  cap_request :: cache_request
  cap_versions :: namespace_versions
  cap_stamp :: nat

record write_event =
  we_request :: cache_request
  we_versions :: namespace_versions
  we_stamp :: nat
  we_payload :: json
  we_observations :: nat
  we_now :: int

record 's cache_trace =
  ct_manager :: "'s cache_manager"
  ct_step :: nat
  ct_captures :: "capture list"
  ct_writes :: "write_event list"
  ct_purges :: "(string \<times> nat) list"

text \<open>The capture of a write: the versions given, or the current ones.\<close>

definition write_versions ::
    "cache_env \<Rightarrow> 's store_ops \<Rightarrow> cache_request \<Rightarrow> namespace_versions option \<Rightarrow> 's \<Rightarrow> namespace_versions" where
  "write_versions e ops rq vs s = (case vs of Some v \<Rightarrow> v | None \<Rightarrow> current_versions e ops rq s)"

definition same_entity :: "cache_request \<Rightarrow> cache_request \<Rightarrow> bool" where
  "same_entity a b \<longleftrightarrow> rq_operation a = rq_operation b \<and> rq_serverId a = rq_serverId b \<and>
     rq_entityId a = rq_entityId b"

definition captured_before :: "'s cache_trace \<Rightarrow> cache_request \<Rightarrow> namespace_versions option \<Rightarrow> nat \<Rightarrow> bool" where
  "captured_before t rq vs stamp \<longleftrightarrow>
     (case vs of
        None \<Rightarrow> stamp = ct_step t
      | Some v \<Rightarrow> \<exists>c\<in>set (ct_captures t). same_entity (cap_request c) rq \<and> cap_versions c = v \<and> cap_stamp c = stamp)"

inductive cache_run :: "cache_env \<Rightarrow> 's store_ops \<Rightarrow> 's \<Rightarrow> 's cache_trace \<Rightarrow> bool" for e ops s0 where
  cr_start: "cache_run e ops s0
    \<lparr>ct_manager = \<lparr>cm_store = s0, cm_metrics = ms\<rparr>, ct_step = 0, ct_captures = [], ct_writes = [], ct_purges = []\<rparr>"
| cr_lookup: "cache_run e ops s0 t \<Longrightarrow> manager_lookup e ops down rq now (ct_manager t) = (r, m') \<Longrightarrow>
    cache_run e ops s0 (t\<lparr>ct_manager := m', ct_step := Suc (ct_step t),
      ct_captures := (case lk_versions r of
          Some vs \<Rightarrow> \<lparr>cap_request = rq, cap_versions = vs, cap_stamp = ct_step t\<rparr> # ct_captures t
        | None \<Rightarrow> ct_captures t)\<rparr>)"
| cr_write: "cache_run e ops s0 t \<Longrightarrow> captured_before t rq vs stamp \<Longrightarrow>
    manager_store e ops down rq result obs vs promo now (ct_manager t) = (stored, m') \<Longrightarrow>
    cache_run e ops s0 (t\<lparr>ct_manager := m', ct_step := Suc (ct_step t),
      ct_writes := (if stored then
          \<lparr>we_request = rq, we_versions = write_versions e ops rq vs (cm_store (ct_manager t)), we_stamp = stamp,
            we_payload = result, we_observations = obs, we_now = now\<rparr> # ct_writes t
        else ct_writes t)\<rparr>)"
| cr_purge: "cache_run e ops s0 t \<Longrightarrow>
    cache_run e ops s0 (t\<lparr>ct_manager := bumpNamespace ops down ns (ct_manager t), ct_step := Suc (ct_step t),
      ct_purges := (if down CallBump then ct_purges t else (ns, ct_step t) # ct_purges t)\<rparr>)"
| cr_exact: "cache_run e ops s0 t \<Longrightarrow>
    cache_run e ops s0 (t\<lparr>ct_manager := snd (purgeExact e ops down rq (ct_manager t)), ct_step := Suc (ct_step t)\<rparr>)"
| cr_record: "cache_run e ops s0 t \<Longrightarrow>
    cache_run e ops s0 (t\<lparr>ct_manager := snd (manager_recordAdmission e ops down rq vs now (ct_manager t)),
      ct_step := Suc (ct_step t)\<rparr>)"
| cr_clear: "cache_run e ops s0 t \<Longrightarrow>
    cache_run e ops s0 (t\<lparr>ct_manager := manager_clearAdmission e ops down rq (ct_manager t), ct_step := Suc (ct_step t)\<rparr>)"
| cr_sweep: "cache_run e ops s0 t \<Longrightarrow>
    cache_run e ops s0 (t\<lparr>ct_manager := (ct_manager t)\<lparr>cm_store := so_sweep ops now (cm_store (ct_manager t))\<rparr>,
      ct_step := Suc (ct_step t)\<rparr>)"

text \<open>The key and the bytes of a write.\<close>

definition write_runtime :: "cache_env \<Rightarrow> write_event \<Rightarrow> runtime_context" where
  "write_runtime e w =
     (let who = the (resolveScopeIdentity (rq_scopeContext (we_request w)) (rp_scope (rq_policy (we_request w))))
      in \<lparr>rt_scopeIdentity = who, rt_scopeHash = buildScopeHash (ce_key e) who,
          rt_requestHash = request_digest e (we_request w),
          rt_entityHash = buildEntityHash (ce_key e) (rq_entityId (we_request w)),
          rt_versions = we_versions w\<rparr>)"

definition write_envelope :: "cache_env \<Rightarrow> write_event \<Rightarrow> envelope" where
  "write_envelope e w = request_envelope e (we_request w) (write_runtime e w) (we_payload w)
     (the (estimatePayloadBytes e (we_payload w))) (we_observations w) (we_now w)"

definition write_bytes :: "cache_env \<Rightarrow> write_event \<Rightarrow> string" where
  "write_bytes e w = cache_serialize (ce_codec e) (write_envelope e w) (shouldCompress (ce_config e))
     (cfg_compressionMinBytes (ce_config e))"

section \<open>What a run keeps\<close>

text \<open>A change of the store that adds nothing: no new entry, no new version.\<close>

definition store_quiet ::
    "'s store_ops \<Rightarrow> ('s \<Rightarrow> string \<Rightarrow> (string \<times> int) option) \<Rightarrow> ('s \<Rightarrow> bool) \<Rightarrow> 's \<Rightarrow> 's \<Rightarrow> bool" where
  "store_quiet ops entry ok s s' \<longleftrightarrow> ok s' \<and> (\<forall>n. so_version ops n s' = so_version ops n s) \<and>
     (\<forall>k x. entry s' k = Some x \<longrightarrow> entry s k = Some x)"

text \<open>The three namespaces of a request with its versions of them.\<close>

definition versioned_namespaces :: "cache_env \<Rightarrow> cache_request \<Rightarrow> namespace_versions \<Rightarrow> (string \<times> nat) list" where
  "versioned_namespaces e rq vs =
     [(global_namespace e, globalVersion vs), (server_namespace e (rq_serverId rq), serverVersion vs),
      (entity_namespace e (rq_operation rq) (rq_serverId rq) (rq_entityId rq), entityVersion vs)]"

text \<open>Versions are not ahead of the store, and behind it in every namespace purged after the stamp.\<close>

definition versions_fair ::
    "cache_env \<Rightarrow> 's store_ops \<Rightarrow> 's \<Rightarrow> (string \<times> nat) list \<Rightarrow> cache_request \<Rightarrow> namespace_versions \<Rightarrow> nat \<Rightarrow> bool" where
  "versions_fair e ops s purges rq vs stamp \<longleftrightarrow>
     (\<forall>(ns, v)\<in>set (versioned_namespaces e rq vs).
        v \<le> so_version ops ns s \<and> (\<forall>n. (ns, n) \<in> set purges \<and> stamp < n \<longrightarrow> v < so_version ops ns s))"

definition write_of :: "cache_env \<Rightarrow> write_event \<Rightarrow> string \<Rightarrow> string \<times> int \<Rightarrow> bool" where
  "write_of e w k x \<longleftrightarrow> k = entry_key e (we_request w) (write_runtime e w) \<and>
     x = (write_bytes e w, we_now w + rp_ttlSeconds (rq_policy (we_request w)) * 1000)"

definition trace_inv ::
    "cache_env \<Rightarrow> 's store_ops \<Rightarrow> ('s \<Rightarrow> string \<Rightarrow> (string \<times> int) option) \<Rightarrow> ('s \<Rightarrow> bool) \<Rightarrow> 's cache_trace \<Rightarrow> bool" where
  "trace_inv e ops entry ok t \<longleftrightarrow>
     (let s = cm_store (ct_manager t) in
      ok s \<and>
      (\<forall>p\<in>set (ct_purges t). snd p < ct_step t) \<and>
      (\<forall>c\<in>set (ct_captures t). cap_stamp c < ct_step t \<and>
         versions_fair e ops s (ct_purges t) (cap_request c) (cap_versions c) (cap_stamp c)) \<and>
      (\<forall>w\<in>set (ct_writes t). we_stamp w < ct_step t \<and>
         resolveScopeIdentity (rq_scopeContext (we_request w)) (rp_scope (rq_policy (we_request w))) \<noteq> None \<and>
         versions_fair e ops s (ct_purges t) (we_request w) (we_versions w) (we_stamp w)) \<and>
      (\<forall>k x. entry s k = Some x \<longrightarrow> (\<exists>w\<in>set (ct_writes t). write_of e w k x)))"

lemma trace_invD:
  assumes "trace_inv e ops entry ok t"
  shows "ok (cm_store (ct_manager t))" "\<And>p. p \<in> set (ct_purges t) \<Longrightarrow> snd p < ct_step t"
    "\<And>c. c \<in> set (ct_captures t) \<Longrightarrow> cap_stamp c < ct_step t"
    "\<And>c. c \<in> set (ct_captures t) \<Longrightarrow> versions_fair e ops (cm_store (ct_manager t)) (ct_purges t)
       (cap_request c) (cap_versions c) (cap_stamp c)"
    "\<And>w. w \<in> set (ct_writes t) \<Longrightarrow> we_stamp w < ct_step t"
    "\<And>w. w \<in> set (ct_writes t) \<Longrightarrow> versions_fair e ops (cm_store (ct_manager t)) (ct_purges t)
       (we_request w) (we_versions w) (we_stamp w)"
    "\<And>w. w \<in> set (ct_writes t) \<Longrightarrow>
       resolveScopeIdentity (rq_scopeContext (we_request w)) (rp_scope (rq_policy (we_request w))) \<noteq> None"
    "\<And>k x. entry (cm_store (ct_manager t)) k = Some x \<Longrightarrow> \<exists>w\<in>set (ct_writes t). write_of e w k x"
  using assms unfolding trace_inv_def Let_def by blast+

lemma resolve_store [simp]: "cm_store (snd (resolveRuntimeContext e ops down rq vs m)) = cm_store m"
  by (auto simp: resolveRuntimeContext_def Let_def split: option.splits)

lemma resolve_Inr:
  assumes "resolveRuntimeContext e ops down rq vs m = (Inr rt, m1)"
  shows "m1 = m" "rt_versions rt = write_versions e ops rq vs (cm_store m)"
    "\<exists>who. resolveScopeIdentity (rq_scopeContext rq) (rp_scope (rq_policy rq)) = Some who \<and> who \<noteq> [] \<and>
      rt = \<lparr>rt_scopeIdentity = who, rt_scopeHash = buildScopeHash (ce_key e) who,
        rt_requestHash = request_digest e rq, rt_entityHash = buildEntityHash (ce_key e) (rq_entityId rq),
        rt_versions = rt_versions rt\<rparr>"
  using assms by (auto simp: resolveRuntimeContext_def write_versions_def Let_def split: option.splits if_splits)

lemma versions_fair_now: "\<forall>p\<in>set purges. snd p < stamp \<Longrightarrow>
   versions_fair e ops s purges rq (current_versions e ops rq s) stamp"
  by (fastforce simp: versions_fair_def versioned_namespaces_def current_versions_def)

lemma versions_fair_same: "\<forall>n. so_version ops n s' = so_version ops n s \<Longrightarrow>
   versions_fair e ops s' purges rq vs stamp = versions_fair e ops s purges rq vs stamp"
  by (simp add: versions_fair_def)

lemma versions_fair_entity: "same_entity a b \<Longrightarrow>
   versions_fair e ops s purges a vs stamp = versions_fair e ops s purges b vs stamp"
  by (simp add: versions_fair_def versioned_namespaces_def same_entity_def)

lemma resolve_cases:
  obtains (refused) reason m1 where "resolveRuntimeContext e ops down rq vs m = (Inl reason, m1)" "cm_store m1 = cm_store m"
    | (resolved) rt where "resolveRuntimeContext e ops down rq vs m = (Inr rt, m)"
proof -
  obtain r m1 where r: "resolveRuntimeContext e ops down rq vs m = (r, m1)" by fastforce
  have "cm_store m1 = cm_store m" using resolve_store[of e ops down rq vs m] r by simp
  with r show thesis
    by (cases r) (use refused resolved resolve_Inr(1)[of e ops down rq vs m] in auto)
qed

lemma trace_inv_quiet:
  assumes "trace_inv e ops entry ok t" "store_quiet ops entry ok (cm_store (ct_manager t)) (cm_store m')"
  shows "trace_inv e ops entry ok (t\<lparr>ct_manager := m', ct_step := Suc (ct_step t)\<rparr>)"
proof -
  have v: "versions_fair e ops (cm_store m') p rq vs st = versions_fair e ops (cm_store (ct_manager t)) p rq vs st"
    for p rq vs st
    using assms(2) by (intro versions_fair_same) (simp add: store_quiet_def)
  show ?thesis
    using assms unfolding trace_inv_def Let_def store_quiet_def by (simp add: v less_SucI)
qed

context result_store
begin

abbreviation quiet where "quiet \<equiv> store_quiet ops entry ok"

lemma quiet_refl: "ok s \<Longrightarrow> quiet s s"
  by (simp add: store_quiet_def)

lemma quiet_trans: "quiet a b \<Longrightarrow> quiet b c \<Longrightarrow> quiet a c"
  by (simp add: store_quiet_def)

lemma quiet_ok: "quiet s s' \<Longrightarrow> ok s'"
  by (simp add: store_quiet_def)

lemma quiet_ops:
  assumes "ok s"
  shows "quiet s (snd (so_get ops k now s))" "quiet s (so_delete ops k s)"
    "quiet s (snd (so_recordAdmission ops a w now s))" "quiet s (so_clearAdmission ops a s)"
    "quiet s (so_sweep ops now s)"
  using get_keeps[OF assms, of k now] delete_keeps[OF assms, of k] record_keeps[OF assms, of a w now]
    clear_keeps[OF assms, of a] sweep_keeps[OF assms, of now]
  by (simp_all add: store_quiet_def)

lemma lookup_quiet:
  assumes "ok (cm_store m)"
  shows "quiet (cm_store m) (cm_store (snd (manager_lookup e ops down rq now m)))"
proof (cases "cfg_enabled (ce_config e) \<and> rp_enabled (rq_policy rq)")
  case True
  show ?thesis
  proof (cases rule: resolve_cases[of e ops down rq None m])
    case (refused reason m1)
    then show ?thesis using True assms by (simp add: manager_lookup_def cache_bypass_def quiet_refl)
  next
    case (resolved rt)
    obtain b s2 where g: "so_get ops (entry_key e rq rt) now (cm_store m) = (b, s2)" by fastforce
    then have q: "quiet (cm_store m) s2" using quiet_ops(1)[OF assms, of "entry_key e rq rt" now] by simp
    then have q2: "quiet (cm_store m) (so_delete ops (entry_key e rq rt) s2)"
      using quiet_trans quiet_ops(2)[OF quiet_ok] by blast
    show ?thesis
      using True resolved g q q2 assms
      by (simp add: manager_lookup_def cache_bypass_def quiet_refl Let_def split: option.splits)
  qed
qed (use assms in \<open>auto simp: manager_lookup_def cache_bypass_def quiet_refl\<close>)

lemma record_quiet:
  assumes "ok (cm_store m)"
  shows "quiet (cm_store m) (cm_store (snd (manager_recordAdmission e ops down rq vs now m)))"
proof (cases rule: resolve_cases[of e ops down rq vs m])
  case (refused reason m1)
  then show ?thesis using assms by (simp add: manager_recordAdmission_def quiet_refl)
next
  case (resolved rt)
  then show ?thesis
    using assms quiet_ops(3)[OF assms] by (simp add: manager_recordAdmission_def quiet_refl case_prod_beta Let_def)
qed

lemma clear_quiet:
  assumes "ok (cm_store m)"
  shows "quiet (cm_store m) (cm_store (manager_clearAdmission e ops down rq m))"
proof (cases rule: resolve_cases[of e ops down rq None m])
  case (refused reason m1)
  then show ?thesis using assms by (simp add: manager_clearAdmission_def quiet_refl)
next
  case (resolved rt)
  then show ?thesis
    using assms quiet_ops(4)[OF assms] by (simp add: manager_clearAdmission_def quiet_refl)
qed

lemma exact_quiet:
  assumes "ok (cm_store m)"
  shows "quiet (cm_store m) (cm_store (snd (purgeExact e ops down rq m)))"
proof (cases rule: resolve_cases[of e ops down rq None m])
  case (refused reason m1)
  then show ?thesis using assms by (simp add: purgeExact_def quiet_refl)
next
  case (resolved rt)
  let ?s1 = "if down CallDelete then cm_store m else so_delete ops (entry_key e rq rt) (cm_store m)"
  have q1: "quiet (cm_store m) ?s1" using assms quiet_ops(2)[OF assms] quiet_refl by simp
  have "quiet (cm_store m) (if down CallClear then ?s1 else so_clearAdmission ops (admission_key e rq rt) ?s1)"
    using q1 quiet_trans[OF q1 quiet_ops(4)[OF quiet_ok[OF q1]]] by simp
  with resolved show ?thesis
    by (cases "down CallDelete"; cases "down CallClear") (simp_all add: purgeExact_def Let_def)
qed

lemma write_cases:
  assumes "ok (cm_store m)" "manager_store e ops down rq result obs vs promo now m = (stored, m')"
  obtains (skipped) "\<not> stored" "cm_store m' = cm_store m"
    | (written) w rt n where "stored" "resolveRuntimeContext e ops down rq vs m = (Inr rt, m)"
        "so_put ops (entry_key e rq rt) w (rp_ttlSeconds (rq_policy rq)) now (cm_store m) = Some (cm_store m')"
        "estimatePayloadBytes e result = Some n"
        "w = cache_serialize (ce_codec e) (request_envelope e rq rt result n obs now)
           (shouldCompress (ce_config e)) (cfg_compressionMinBytes (ce_config e))"
proof (cases rule: resolve_cases[of e ops down rq vs m])
  case (refused reason m1)
  then show thesis using assms(2) skipped by (auto simp: manager_store_def split: if_splits)
next
  case (resolved rt)
  then show thesis using assms(2) skipped written[OF _ resolved]
    by (auto simp: manager_store_def Let_def split: if_splits option.splits)
qed

end

lemma lookup_versions:
  assumes "manager_lookup e ops down rq now m = (r, m')" "lk_versions r = Some vs"
  shows "vs = current_versions e ops rq (cm_store m)"
proof (cases rule: resolve_cases[of e ops down rq None m])
  case (refused reason m1)
  then show ?thesis using assms by (auto simp: manager_lookup_def cache_bypass_def split: if_splits)
next
  case (resolved rt)
  have "rt_versions rt = current_versions e ops rq (cm_store m)"
    using resolve_Inr(2)[OF resolved] by (simp add: write_versions_def)
  then show ?thesis using assms resolved
    by (auto simp: manager_lookup_def cache_bypass_def Let_def split: if_splits option.splits prod.splits)
qed

text \<open>The ghost record of a write describes the key and the bytes it wrote.\<close>

lemma write_event_of:
  assumes "resolveRuntimeContext e ops down rq vs m = (Inr rt, m)" "estimatePayloadBytes e result = Some n"
    and "w = \<lparr>we_request = rq, we_versions = write_versions e ops rq vs (cm_store m), we_stamp = stamp,
            we_payload = result, we_observations = obs, we_now = now\<rparr>"
  shows "write_runtime e w = rt" "write_envelope e w = request_envelope e rq rt result n obs now"
proof -
  show rt: "write_runtime e w = rt"
    using resolve_Inr(2,3)[OF assms(1)] by (auto simp: write_runtime_def assms(3) Let_def)
  show "write_envelope e w = request_envelope e rq rt result n obs now"
    using assms(2) unfolding write_envelope_def rt by (simp add: assms(3))
qed

lemma trace_inv_captured:
  assumes "trace_inv e ops entry ok t" "captured_before t rq vs stamp"
  shows "stamp < Suc (ct_step t)"
    "versions_fair e ops (cm_store (ct_manager t)) (ct_purges t) rq
       (write_versions e ops rq vs (cm_store (ct_manager t))) stamp"
proof -
  have "stamp < Suc (ct_step t) \<and> versions_fair e ops (cm_store (ct_manager t)) (ct_purges t) rq
       (write_versions e ops rq vs (cm_store (ct_manager t))) stamp"
  proof (cases vs)
    case None
    then show ?thesis
      using assms versions_fair_now[of "ct_purges t" stamp]
      by (auto simp: captured_before_def write_versions_def trace_inv_def Let_def)
  next
    case (Some v)
    then obtain c where c: "c \<in> set (ct_captures t)" "same_entity (cap_request c) rq" "cap_versions c = v" "cap_stamp c = stamp"
      using assms(2) by (auto simp: captured_before_def)
    have "versions_fair e ops (cm_store (ct_manager t)) (ct_purges t) rq v stamp"
      using trace_invD(4)[OF assms(1) c(1)] unfolding versions_fair_entity[OF c(2)] by (simp add: c)
    then show ?thesis using trace_invD(3)[OF assms(1) c(1)] c Some by (simp add: write_versions_def)
  qed
  then show "stamp < Suc (ct_step t)" "versions_fair e ops (cm_store (ct_manager t)) (ct_purges t) rq
       (write_versions e ops rq vs (cm_store (ct_manager t))) stamp" by simp_all
qed

context result_store
begin

lemma trace_inv_write:
  assumes inv: "trace_inv e ops entry ok t" and cap: "captured_before t rq vs stamp"
    and st: "manager_store e ops down rq result obs vs promo now (ct_manager t) = (stored, m')"
  shows "trace_inv e ops entry ok (t\<lparr>ct_manager := m', ct_step := Suc (ct_step t),
      ct_writes := (if stored then
          \<lparr>we_request = rq, we_versions = write_versions e ops rq vs (cm_store (ct_manager t)), we_stamp = stamp,
            we_payload = result, we_observations = obs, we_now = now\<rparr> # ct_writes t
        else ct_writes t)\<rparr>)"
proof -
  have ok: "ok (cm_store (ct_manager t))" using inv by (simp add: trace_inv_def Let_def)
  from ok st show ?thesis
  proof (cases rule: write_cases)
    case skipped
    then have "quiet (cm_store (ct_manager t)) (cm_store m')" using ok quiet_refl by simp
    from trace_inv_quiet[OF inv this] skipped show ?thesis by simp
  next
    case (written b rt n)
    define w where "w = \<lparr>we_request = rq, we_versions = write_versions e ops rq vs (cm_store (ct_manager t)), we_stamp = stamp,
            we_payload = result, we_observations = obs, we_now = now\<rparr>"
    note we = write_event_of[OF written(2,4) w_def]
    have keep: "ok (cm_store m')" "\<forall>n. so_version ops n (cm_store m') = so_version ops n (cm_store (ct_manager t))"
      "\<forall>k' x. entry (cm_store m') k' = Some x \<longrightarrow> entry (cm_store (ct_manager t)) k' = Some x \<or>
         k' = entry_key e rq rt \<and> x = (b, now + rp_ttlSeconds (rq_policy rq) * 1000)"
      using put_keeps[OF ok written(3)] by auto
    have wo: "write_of e w (entry_key e rq rt) (b, now + rp_ttlSeconds (rq_policy rq) * 1000)"
      using written(5) we by (simp add: write_of_def write_bytes_def w_def)
    note c = trace_inv_captured[OF inv cap]
    have wf: "we_stamp w < Suc (ct_step t)"
      "versions_fair e ops (cm_store m') (ct_purges t) (we_request w) (we_versions w) (we_stamp w)"
      "resolveScopeIdentity (rq_scopeContext (we_request w)) (rp_scope (rq_policy (we_request w))) \<noteq> None"
      using c versions_fair_same[OF keep(2)] resolve_Inr(3)[OF written(2)] by (auto simp: w_def)
    have "trace_inv e ops entry ok (t\<lparr>ct_manager := m', ct_step := Suc (ct_step t), ct_writes := w # ct_writes t\<rparr>)"
      using keep(1) wf trace_invD(2-7)[OF inv] versions_fair_same[OF keep(2)]
      unfolding trace_inv_def Let_def
      by (intro conjI) (auto simp: less_SucI dest!: keep(3)[rule_format] trace_invD(8)[OF inv] intro: wo)
    then show ?thesis using written(1) by (simp add: w_def)
  qed
qed

end

context versioned_store
begin

lemma trace_inv_purge:
  assumes inv: "trace_inv e ops entry ok t"
  shows "trace_inv e ops entry ok (t\<lparr>ct_manager := bumpNamespace ops down ns (ct_manager t), ct_step := Suc (ct_step t),
      ct_purges := (if down CallBump then ct_purges t else (ns, ct_step t) # ct_purges t)\<rparr>)"
proof (cases "down CallBump")
  case True
  have "quiet (cm_store (ct_manager t)) (cm_store (ct_manager t))"
    using inv quiet_refl by (simp add: trace_inv_def Let_def)
  with trace_inv_quiet[OF inv, of "bumpNamespace ops down ns (ct_manager t)"] True show ?thesis
    by (simp add: bumpNamespace_def)
next
  case False
  let ?s = "cm_store (ct_manager t)"
  let ?s' = "snd (so_bump ops ns ?s)"
  have ok: "ok ?s" and old: "\<forall>p\<in>set (ct_purges t). snd p < ct_step t" using inv by (simp_all add: trace_inv_def Let_def)
  have v: "so_version ops n ?s' = (if n = ns then Suc (so_version ops ns ?s) else so_version ops n ?s)" for n
    using bump_keeps[OF ok, of ns] bump_counts[OF ok, of ns] by auto
  have fair: "versions_fair e ops ?s' ((ns, ct_step t) # ct_purges t) rq vs stamp"
    if "versions_fair e ops ?s (ct_purges t) rq vs stamp" for rq vs stamp
    using that unfolding versions_fair_def by (fastforce simp: v)
  show ?thesis
    using inv False bump_keeps[OF ok, of ns] fair
    unfolding trace_inv_def Let_def bumpNamespace_def by (auto simp: less_SucI)
qed

lemma run_inv:
  assumes "cache_run e ops s0 t" "ok s0" "\<And>k. entry s0 k = None"
  shows "trace_inv e ops entry ok t"
  using assms(1)
proof (induction rule: cache_run.induct)
  case (cr_start ms)
  then show ?case using assms(2,3) by (simp add: trace_inv_def)
next
  case (cr_lookup t down rq now r m')
  have ok: "ok (cm_store (ct_manager t))" using cr_lookup.IH by (simp add: trace_inv_def Let_def)
  have q: "quiet (cm_store (ct_manager t)) (cm_store m')"
    using lookup_quiet[OF ok, of e down rq now] cr_lookup.hyps(2) by simp
  have inv: "trace_inv e ops entry ok (t\<lparr>ct_manager := m', ct_step := Suc (ct_step t)\<rparr>)"
    using trace_inv_quiet[OF cr_lookup.IH q] .
  show ?case
  proof (cases "lk_versions r")
    case None
    then show ?thesis using inv by simp
  next
    case (Some vs)
    then have vs: "vs = current_versions e ops rq (cm_store (ct_manager t))"
      using lookup_versions[OF cr_lookup.hyps(2)] by simp
    have "versions_fair e ops (cm_store m') (ct_purges t) rq vs (ct_step t)"
      using versions_fair_now[of "ct_purges t" "ct_step t"] cr_lookup.IH q vs
      by (subst versions_fair_same) (auto simp: trace_inv_def Let_def store_quiet_def)
    then show ?thesis using inv Some by (simp add: trace_inv_def Let_def)
  qed
next
  case (cr_write t rq vs stamp down result obs promo now stored m')
  then show ?case using trace_inv_write by blast
next
  case (cr_purge t down ns)
  then show ?case using trace_inv_purge by blast
next
  case (cr_exact t down rq)
  then show ?case
    by (intro trace_inv_quiet exact_quiet) (auto simp: trace_inv_def Let_def)
next
  case (cr_record t down rq vs now)
  then show ?case
    by (intro trace_inv_quiet record_quiet) (auto simp: trace_inv_def Let_def)
next
  case (cr_clear t down rq)
  then show ?case
    by (intro trace_inv_quiet clear_quiet) (auto simp: trace_inv_def Let_def)
next
  case (cr_sweep t now)
  then have "quiet (cm_store (ct_manager t)) (so_sweep ops now (cm_store (ct_manager t)))"
    by (intro quiet_ops(5)) (simp add: trace_inv_def Let_def)
  with cr_sweep show ?case by (intro trace_inv_quiet) simp_all
qed

end

section \<open>Hits\<close>

lemma lookup_hit:
  assumes "manager_lookup e ops down rq now m = (r, m')" "lk_entry r = Some en"
  obtains rt b s2 where "resolveRuntimeContext e ops down rq None m = (Inr rt, m)"
    "so_get ops (entry_key e rq rt) now (cm_store m) = (Some b, s2)" "cache_deserialize (ce_codec e) b = Some en"
proof (cases rule: resolve_cases[of e ops down rq None m])
  case (refused reason m1)
  then show thesis using assms by (auto simp: manager_lookup_def cache_bypass_def split: if_splits)
next
  case (resolved rt)
  obtain b s2 where g: "so_get ops (entry_key e rq rt) now (cm_store m) = (b, s2)" by fastforce
  have "\<exists>x. b = Some x \<and> cache_deserialize (ce_codec e) x = Some en"
    using assms resolved g
    by (auto simp: manager_lookup_def cache_bypass_def Let_def split: if_splits option.splits)
  then obtain x where x: "b = Some x" "cache_deserialize (ce_codec e) x = Some en" by blast
  show thesis by (rule that[OF resolved]) (use g x in simp_all)
qed

text \<open>The digest is idealized: no two strings share one, and it holds no colon.\<close>

definition ideal_digest :: "key_env \<Rightarrow> bool" where
  "ideal_digest k \<longleftrightarrow> inj (ke_sha256 k) \<and> (\<forall>s. CHR '':'' \<notin> set (ke_sha256 k s))"

lemma entry_key_inject:
  assumes "ideal_digest (ce_key e)" "entry_key e rq rt = entry_key e (we_request w) (write_runtime e w)"
    and "resolveRuntimeContext e ops down rq None m = (Inr rt, m)"
  shows "same_entity (we_request w) rq" "rp_scope (rq_policy (we_request w)) = rp_scope (rq_policy rq)"
    "Some (the (resolveScopeIdentity (rq_scopeContext (we_request w)) (rp_scope (rq_policy rq)))) =
       resolveScopeIdentity (rq_scopeContext rq) (rp_scope (rq_policy rq))"
    "request_digest e (we_request w) = request_digest e rq"
    "we_versions w = current_versions e ops rq (cm_store m)"
proof -
  obtain who where who: "resolveScopeIdentity (rq_scopeContext rq) (rp_scope (rq_policy rq)) = Some who"
    "rt_scopeHash rt = buildScopeHash (ce_key e) who" "rt_requestHash rt = request_digest e rq"
    "rt_entityHash rt = buildEntityHash (ce_key e) (rq_entityId rq)"
    using resolve_Inr(3)[OF assms(3)] by (metis runtime_context.select_convs(2,3,4))
  have nc: "no_colon (buildScopeHash (ce_key e) x)" "no_colon (buildEntityHash (ce_key e) x)"
    "no_colon (request_digest e q)" for x q
    using assms(1) by (simp_all add: ideal_digest_def no_colon_def buildScopeHash_def buildEntityHash_def
        request_digest_def canonicalizeParams_def Let_def)
  have inj: "ke_sha256 (ce_key e) x = ke_sha256 (ce_key e) y \<longleftrightarrow> x = y" for x y
    using assms(1) by (auto simp: ideal_digest_def inj_eq)
  have "rq_operation rq = rq_operation (we_request w) \<and> rq_serverId rq = rq_serverId (we_request w) \<and>
      rt_entityHash rt = rt_entityHash (write_runtime e w) \<and>
      rp_scope (rq_policy rq) = rp_scope (rq_policy (we_request w)) \<and>
      rt_scopeHash rt = rt_scopeHash (write_runtime e w) \<and> rt_versions rt = rt_versions (write_runtime e w) \<and>
      rt_requestHash rt = rt_requestHash (write_runtime e w)"
    using assms(2) unfolding entry_key_def buildResultEntryKey_def
    by (rule versioned_key_inject) (use nc who in \<open>simp_all add: write_runtime_def Let_def\<close>)
  then show "same_entity (we_request w) rq" "rp_scope (rq_policy (we_request w)) = rp_scope (rq_policy rq)"
    "Some (the (resolveScopeIdentity (rq_scopeContext (we_request w)) (rp_scope (rq_policy rq)))) =
       resolveScopeIdentity (rq_scopeContext rq) (rp_scope (rq_policy rq))"
    "request_digest e (we_request w) = request_digest e rq"
    "we_versions w = current_versions e ops rq (cm_store m)"
    using who inj resolve_Inr(2)[OF assms(3)]
    by (simp_all add: write_runtime_def Let_def same_entity_def buildEntityHash_def buildScopeHash_def write_versions_def)
qed

text \<open>What a hit guarantees, of one write.\<close>

definition hit_from ::
    "cache_env \<Rightarrow> (string \<times> nat) list \<Rightarrow> cache_request \<Rightarrow> int \<Rightarrow> envelope \<Rightarrow> write_event \<Rightarrow> bool" where
  "hit_from e purges rq now en w \<longleftrightarrow>
     rq_operation (we_request w) = rq_operation rq \<and> rq_serverId (we_request w) = rq_serverId rq \<and>
     rq_entityId (we_request w) = rq_entityId rq \<and>
     rp_scope (rq_policy (we_request w)) = rp_scope (rq_policy rq) \<and>
     resolveScopeIdentity (rq_scopeContext (we_request w)) (rp_scope (rq_policy rq)) =
       resolveScopeIdentity (rq_scopeContext rq) (rp_scope (rq_policy rq)) \<and>
     request_digest e (we_request w) = request_digest e rq \<and>
     cache_deserialize (ce_codec e) (write_bytes e w) = Some en \<and>
     now < we_now w + rp_ttlSeconds (rq_policy (we_request w)) * 1000 \<and>
     (\<forall>ns n. (ns, n) \<in> set purges \<and> ns \<in> {global_namespace e, server_namespace e (rq_serverId rq),
          entity_namespace e (rq_operation rq) (rq_serverId rq) (rq_entityId rq)} \<longrightarrow> n \<le> we_stamp w)"

context versioned_store
begin

lemma hit_sound:
  assumes "cache_run e ops s0 t" "ok s0" "\<And>k. entry s0 k = None" "ideal_digest (ce_key e)"
    and "manager_lookup e ops down rq now (ct_manager t) = (r, m')" "lk_entry r = Some en"
  shows "\<exists>w\<in>set (ct_writes t). hit_from e (ct_purges t) rq now en w"
proof -
  let ?s = "cm_store (ct_manager t)"
  note inv = run_inv[OF assms(1-3)]
  obtain rt b s2 where rt: "resolveRuntimeContext e ops down rq None (ct_manager t) = (Inr rt, ct_manager t)"
    "so_get ops (entry_key e rq rt) now ?s = (Some b, s2)" "cache_deserialize (ce_codec e) b = Some en"
    using lookup_hit[OF assms(5,6)] by metis
  obtain x where x: "entry ?s (entry_key e rq rt) = Some (b, x)" "now < x"
    using get_entry[OF trace_invD(1)[OF inv] rt(2)] by blast
  obtain w where w: "w \<in> set (ct_writes t)" "write_of e w (entry_key e rq rt) (b, x)"
    using trace_invD(8)[OF inv x(1)] by blast
  have key: "entry_key e rq rt = entry_key e (we_request w) (write_runtime e w)" using w(2) by (simp add: write_of_def)
  note same = entry_key_inject[OF assms(4) key rt(1)]
  have fair: "versions_fair e ops ?s (ct_purges t) rq (current_versions e ops rq ?s) (we_stamp w)"
    using trace_invD(6)[OF inv w(1)] unfolding same(5) versions_fair_entity[OF same(1)] .
  have purged: "n \<le> we_stamp w" if "(ns, n) \<in> set (ct_purges t)" "ns \<in> {global_namespace e,
      server_namespace e (rq_serverId rq), entity_namespace e (rq_operation rq) (rq_serverId rq) (rq_entityId rq)}" for ns n
    using fair that unfolding versions_fair_def versioned_namespaces_def current_versions_def
    by (auto simp: not_less[symmetric])
  have ident: "resolveScopeIdentity (rq_scopeContext (we_request w)) (rp_scope (rq_policy rq)) =
       resolveScopeIdentity (rq_scopeContext rq) (rp_scope (rq_policy rq))"
    using trace_invD(7)[OF inv w(1)] same(2,3) by auto
  show ?thesis
    using w x rt(3) same purged ident by (intro bexI[of _ w]) (auto simp: hit_from_def same_entity_def write_of_def)
qed

end

lemma memory_start: "memory_ok (memory_store_new mx)" "memory_content (memory_store_new mx) k = None"
  by (simp_all add: memory_ok_def memory_content_def memory_store_new_def)

definition db_empty :: db_store where
  "db_empty = \<lparr>db_entries = [], db_admissions = [], db_versions = []\<rparr>"

lemma db_start: "db_ok db_empty" "db_content db_empty k = None"
  by (simp_all add: db_ok_def db_content_def db_empty_def)

text \<open>
  C8: a cache hit is sound, with the in-memory and with the database backend. In every
  interleaving of lookups, writes, purges, admissions and sweeps, and whichever calls of the
  backend fail, a hit returns an entry that was written for the same operation, server, entity,
  scope, scope identity (so never another user's result) and request digest, whose lifetime has
  not ended, and whose writer took its versions after every purge of the cache, of that server or
  of that entity that has succeeded so far.
\<close>

theorem cache_hit_sound:
  assumes "ideal_digest (ce_key e)"
  shows "(cache_run e memory_ops (memory_store_new mx) t \<and>
      manager_lookup e memory_ops down rq now (ct_manager t) = (r, m') \<and> lk_entry r = Some en \<longrightarrow>
      (\<exists>w\<in>set (ct_writes t). hit_from e (ct_purges t) rq now en w)) \<and>
    (cache_run e (db_ops c batch) db_empty t' \<and>
      manager_lookup e (db_ops c batch) down rq now (ct_manager t') = (r', m'') \<and> lk_entry r' = Some en \<longrightarrow>
      (\<exists>w\<in>set (ct_writes t'). hit_from e (ct_purges t') rq now en w))"
  using mem.hit_sound[where e = e, OF _ memory_start assms] db.hit_sound[where e = e, OF _ db_start assms] by blast

text \<open>An injective function to strings without a colon, in place of the digest.\<close>

definition escape_digest :: "string \<Rightarrow> string" where
  "escape_digest s = concat (map (\<lambda>ch. if ch = CHR '':'' then ''xb'' else [CHR ''a'', ch]) s)"

lemma escape_digest_Cons:
  "escape_digest (a # x) = (if a = CHR '':'' then CHR ''x'' # CHR ''b'' # escape_digest x else CHR ''a'' # a # escape_digest x)"
  by (simp add: escape_digest_def)

lemma escape_digest_inj: "escape_digest x = escape_digest y \<Longrightarrow> x = y"
proof (induction x arbitrary: y)
  case Nil
  then show ?case by (cases y) (simp_all add: escape_digest_Cons escape_digest_def split: if_splits)
next
  case (Cons a x)
  obtain b y' where y: "y = b # y'"
    using Cons.prems by (cases y) (auto simp: escape_digest_Cons escape_digest_def[of "[]"] split: if_splits)
  then show ?case using Cons by (auto simp: escape_digest_Cons split: if_splits)
qed

lemma escape_digest_no_colon: "CHR '':'' \<notin> set (escape_digest s)"
  by (induction s) (simp_all add: escape_digest_Cons, simp add: escape_digest_def)

lemma escape_digest_ideal: "ideal_digest \<lparr>ke_sha256 = escape_digest, ke_nstr = f\<rparr>"
  unfolding ideal_digest_def using escape_digest_no_colon by (simp add: injI[OF escape_digest_inj])

definition demo_request :: cache_request where
  "demo_request = \<lparr>rq_operation = ToolOp, rq_serverId = ''srv'', rq_entityId = ''pay'',
     rq_scopeContext = \<lparr>sc_userId = Some ''u'', sc_tenantId = None\<rparr>,
     rq_policy = \<lparr>rp_enabled = True, rp_ttlSeconds = 30, rp_scope = UserScope, rp_admissionPolicy = Immediate,
       rp_admissionWindowSeconds = 300, rp_denyFields = [], rp_allowFields = None, rp_maxEntryBytes = 5000\<rparr>,
     rq_params = JNull\<rparr>"

definition demo_cache :: cache_env where
  "demo_cache = \<lparr>ce_key = \<lparr>ke_sha256 = escape_digest, ke_nstr = (\<lambda>q. int_str \<lfloor>q\<rfloor>)\<rparr>,
     ce_codec = plain_codec\<lparr>co_parse := (\<lambda>_. Some (envelope_json (demo_envelope JsonEncoding)))\<rparr>,
     ce_config = demo_config, ce_iso = int_str\<rparr>"

definition zero_metrics :: cache_metrics where
  "zero_metrics = \<lparr>m_hits = 0, m_misses = 0, m_bypasses = 0, m_sets = 0, m_errors = 0, m_purges = 0,
     m_invalidations = 0, m_observations = 0, m_deferred = 0, m_promoted = 0\<rparr>"

definition demo_written :: "bool \<times> memory_store cache_manager" where
  "demo_written = manager_store demo_cache memory_ops (\<lambda>_. False) demo_request (JBool True) 0 None False 1000
     \<lparr>cm_store = memory_store_new 10, cm_metrics = zero_metrics\<rparr>"

theorem cache_hit_sound_witness:
  "\<exists>t r m' en. cache_run demo_cache memory_ops (memory_store_new 10) t \<and>
     manager_lookup demo_cache memory_ops (\<lambda>_. False) demo_request 2000 (ct_manager t) = (r, m') \<and>
     lk_entry r = Some en \<and> (\<exists>w\<in>set (ct_writes t). hit_from demo_cache (ct_purges t) demo_request 2000 en w)"
proof -
  obtain stored m1 where st: "demo_written = (stored, m1)" by fastforce
  obtain t where t: "cache_run demo_cache memory_ops (memory_store_new 10) t" "ct_manager t = m1"
    using cr_write[OF cr_start[of demo_cache memory_ops "memory_store_new 10" zero_metrics],
        of demo_request None 0 "\<lambda>_. False" "JBool True" 0 False 1000 stored m1] st
    by (auto simp: demo_written_def captured_before_def)
  obtain r m' where l: "manager_lookup demo_cache memory_ops (\<lambda>_. False) demo_request 2000 m1 = (r, m')" by fastforce
  have "lk_entry (fst (manager_lookup demo_cache memory_ops (\<lambda>_. False) demo_request 2000 (snd demo_written))) \<noteq> None"
    by code_simp
  then have "lk_entry r \<noteq> None" unfolding st snd_conv l fst_conv .
  then obtain en where en: "lk_entry r = Some en" by blast
  have "ideal_digest (ce_key demo_cache)" by (simp add: demo_cache_def escape_digest_ideal)
  from cache_hit_sound[OF this, of 10 t "\<lambda>_. False" demo_request 2000 r m' en] t l en show ?thesis by blast
qed

section \<open>Purges\<close>

text \<open>The purge of the entity a request is about.\<close>

definition purge_entity ::
    "cache_env \<Rightarrow> 's store_ops \<Rightarrow> outage \<Rightarrow> cache_request \<Rightarrow> 's cache_manager \<Rightarrow> 's cache_manager" where
  "purge_entity e ops down rq m =
     (case rq_operation rq of
        ToolOp \<Rightarrow> purgeTool e ops down (rq_serverId rq) (rq_entityId rq) m
      | PromptOp \<Rightarrow> purgePrompt e ops down (rq_serverId rq) (rq_entityId rq) m
      | ResourceOp \<Rightarrow> purgeResource e ops down (rq_serverId rq) (rq_entityId rq) m)"

lemma purge_entity_bump: "purge_entity e ops down rq m =
   bumpNamespace ops down (entity_namespace e (rq_operation rq) (rq_serverId rq) (rq_entityId rq)) m"
  by (cases "rq_operation rq")
    (simp_all add: purge_entity_def purgeTool_def purgePrompt_def purgeResource_def entity_namespace_def)

context versioned_store
begin

lemma purge_misses:
  assumes run: "cache_run e ops s0 t" and start: "ok s0" "\<And>k. entry s0 k = None"
    and dig: "ideal_digest (ce_key e)" and up: "\<not> down CallBump"
    and ns: "ns \<in> {global_namespace e, server_namespace e (rq_serverId rq),
          entity_namespace e (rq_operation rq) (rq_serverId rq) (rq_entityId rq)}"
  shows "lk_entry (fst (manager_lookup e ops down' rq now (bumpNamespace ops down ns (ct_manager t)))) = None"
proof (rule ccontr)
  let ?m = "bumpNamespace ops down ns (ct_manager t)"
  let ?t = "t\<lparr>ct_manager := ?m, ct_step := Suc (ct_step t), ct_purges := (ns, ct_step t) # ct_purges t\<rparr>"
  assume "lk_entry (fst (manager_lookup e ops down' rq now ?m)) \<noteq> None"
  then obtain r m' en where l: "manager_lookup e ops down' rq now ?m = (r, m')" "lk_entry r = Some en"
    by (metis not_Some_eq prod.collapse)
  have run': "cache_run e ops s0 ?t" using cr_purge[OF run, of down ns] up by simp
  have "\<exists>w\<in>set (ct_writes ?t). hit_from e (ct_purges ?t) rq now en w"
    by (rule hit_sound[OF run' start dig _ l(2)]) (use l(1) in simp)
  then obtain w where w: "w \<in> set (ct_writes t)" "hit_from e ((ns, ct_step t) # ct_purges t) rq now en w" by auto
  then have "ct_step t \<le> we_stamp w" using ns by (auto simp: hit_from_def)
  moreover have "we_stamp w < ct_step t" using trace_invD(5)[OF run_inv[OF run start] w(1)] .
  ultimately show False by simp
qed

end



section \<open>Admission and identity\<close>

lemma memory_record_count:
  "fst (memory_recordAdmission a w now s) = memory_admissionCount a now s + 1"
  by (simp add: memory_recordAdmission_def memory_admissionCount_def Let_def split: option.splits)

text \<open>
  Second-hit admission. Under the second-hit policy a result observed once is written to the
  in-memory cache only if the same request was already observed within the admission window; and
  an error result of a tool is never written.
\<close>

theorem cache_second_hit:
  assumes "storeResult e memory_ops down rq result obs vs now m = (True, m')"
  shows "(rq_operation rq = ToolOp \<longrightarrow> isToolResultCacheable result) \<and>
    (rp_admissionPolicy (rq_policy rq) = SecondHit \<and> obs \<le> 1 \<longrightarrow>
      (\<exists>rt. resolveRuntimeContext e memory_ops down rq vs m = (Inr rt, m) \<and>
        1 \<le> memory_admissionCount (admission_key e rq rt) now (cm_store m)))"
proof (intro conjI impI)
  show "isToolResultCacheable result" if "rq_operation rq = ToolOp"
    using assms that by (auto simp: storeResult_def split: if_splits)
  assume p: "rp_admissionPolicy (rq_policy rq) = SecondHit \<and> obs \<le> 1"
  obtain n m1 where ro: "manager_recordAdmission e memory_ops down rq vs now m = (n, m1)" by fastforce
  have mx: "max (Suc 0) obs = Suc 0" "max 1 obs = Suc 0" using p by simp_all
  have n: "2 \<le> n"
    using assms p ro
    by (auto simp: storeResult_def mx shouldPromote_def Let_def split: if_splits prod.splits)
  show "\<exists>rt. resolveRuntimeContext e memory_ops down rq vs m = (Inr rt, m) \<and>
        1 \<le> memory_admissionCount (admission_key e rq rt) now (cm_store m)"
  proof (cases rule: resolve_cases[of e memory_ops down rq vs m])
    case (refused reason m1')
    then show ?thesis using ro n by (auto simp: manager_recordAdmission_def split: if_splits)
  next
    case (resolved rt)
    have "n = memory_admissionCount (admission_key e rq rt) now (cm_store m) + 1"
      using ro n resolved
      by (auto simp: manager_recordAdmission_def memory_ops_def memory_record_count case_prod_beta
          Let_def split: if_splits)
    then show ?thesis using n resolved by auto
  qed
qed

definition demo_second :: cache_request where
  "demo_second = demo_request\<lparr>rq_policy := (rq_policy demo_request)\<lparr>rp_admissionPolicy := SecondHit\<rparr>\<rparr>"

definition demo_observed :: "bool \<times> memory_store cache_manager" where
  "demo_observed = storeResult demo_cache memory_ops (\<lambda>_. False) demo_second (JBool True) 1 None 1000
     \<lparr>cm_store = memory_store_new 10, cm_metrics = zero_metrics\<rparr>"

theorem cache_second_hit_witness:
  "\<not> fst demo_observed \<and>
   (\<exists>rt. 1 \<le> memory_admissionCount (admission_key demo_cache demo_second rt) 2000 (cm_store (snd demo_observed)))"
proof
  show "\<not> fst demo_observed" by code_simp
  have "fst (storeResult demo_cache memory_ops (\<lambda>_. False) demo_second (JBool True) 1 None 2000 (snd demo_observed))"
    by code_simp
  then obtain m' where "storeResult demo_cache memory_ops (\<lambda>_. False) demo_second (JBool True) 1 None 2000 (snd demo_observed) = (True, m')"
    by (metis (full_types) prod.collapse)
  from cache_second_hit[OF this] show "\<exists>rt. 1 \<le> memory_admissionCount (admission_key demo_cache demo_second rt) 2000 (cm_store (snd demo_observed))"
    by (auto simp: demo_second_def)
qed

text \<open>
  No identity, no sharing. A request whose policy scopes results by user or tenant but which
  carries no such identity gets the result of its own call, whatever calls are in flight and
  whatever the cache holds, and leaves the store of the cache unchanged.
\<close>

theorem cache_missing_identity:
  assumes "identityMissing rq"
  shows "\<exists>m'. executeWithCache e ops down rq factory flight now later m =
      (case factory of Inl err \<Rightarrow> Inl err | Inr result \<Rightarrow> Inr (result, False), m') \<and> cm_store m' = cm_store m"
proof -
  have "\<exists>r m1. manager_lookup e ops down rq now m = (r, m1) \<and> lk_entry r = None \<and> cm_store m1 = cm_store m"
    using assms
    by (auto simp: manager_lookup_def cache_bypass_def resolveRuntimeContext_def identityMissing_def
        resolveScopeIdentity_def)
  then show ?thesis using assms by (auto simp: executeWithCache_def split: sum.split)
qed

theorem cache_missing_identity_witness:
  "\<exists>m'. executeWithCache demo_cache memory_ops (\<lambda>_. False)
     (demo_request\<lparr>rq_scopeContext := \<lparr>sc_userId = None, sc_tenantId = Some ''t''\<rparr>\<rparr>) (Inr JNull)
     (\<lambda>_. Inr (JBool True, False, 2)) 1 2 (snd demo_written) = (Inr (JNull, False), m')"
  using cache_missing_identity[where rq = "demo_request\<lparr>rq_scopeContext := \<lparr>sc_userId = None, sc_tenantId = Some ''t''\<rparr>\<rparr>"
      and factory = "Inr JNull" and e = demo_cache and ops = memory_ops and down = "\<lambda>_. False" and now = 1 and later = 2
      and m = "snd demo_written" and flight = "\<lambda>_. Inr (JBool True, False, 2)"]
  by (auto simp: identityMissing_def demo_request_def)

end
