(* ===== verification/Singleflight.thy ===== *)
theory Singleflight
  imports Peta_Prelude
begin

text \<open>
  Sharing of calls in flight: \<open>src/mcp/core/cache/SingleflightRegistry.ts\<close>. A call for a key
  leads a new flight, or follows the one in progress; an asynchronous call is split into its
  beginning and its end, which other calls may run between. The result: at most one flight per key
  is in progress, every call for its key joins it, and the leader learns how many it served.
\<close>

section \<open>The registry\<close>

text \<open>A flight is an object with an identity, here a number; it outlives its entry in the map.\<close>

record sf_registry =
  inflight :: "(string, nat) jsmap"
  observers :: "nat \<Rightarrow> nat"
  sf_next :: nat

datatype sf_role = Leads nat | Follows nat

definition sf_new :: sf_registry where
  "sf_new = \<lparr>inflight = [], observers = (\<lambda>_. 0), sf_next = 0\<rparr>"

definition sf_begin :: "string \<Rightarrow> sf_registry \<Rightarrow> sf_role \<times> sf_registry" where
  "sf_begin key st =
     (case map_of (inflight st) key of
        Some existing \<Rightarrow>
          (Follows existing, st\<lparr>observers := (observers st)(existing := observers st existing + 1)\<rparr>)
      | None \<Rightarrow>
          (Leads (sf_next st), st\<lparr>inflight := AList.update key (sf_next st) (inflight st),
             observers := (observers st)(sf_next st := 0), sf_next := sf_next st + 1\<rparr>))"

text \<open>The leader's end: its counts when the call succeeded, and the clean-up in any case.\<close>

definition sf_leader_counts :: "string \<Rightarrow> sf_registry \<Rightarrow> nat \<times> nat" where
  "sf_leader_counts key st =
     (let observerCount = (case map_of (inflight st) key of Some f \<Rightarrow> observers st f | None \<Rightarrow> 0)
      in (observerCount, observerCount + 1))"

definition sf_finally :: "string \<Rightarrow> nat \<Rightarrow> sf_registry \<Rightarrow> sf_registry" where
  "sf_finally key f st =
     (if map_of (inflight st) key = Some f then st\<lparr>inflight := AList.delete key (inflight st)\<rparr> else st)"

definition sf_follower_counts :: "nat \<Rightarrow> sf_registry \<Rightarrow> nat \<times> nat" where
  "sf_follower_counts f st = (observers st f, observers st f + 1)"

definition recordObserver :: "string \<Rightarrow> sf_registry \<Rightarrow> sf_registry" where
  "recordObserver key st =
     (case map_of (inflight st) key of
        None \<Rightarrow> st
      | Some f \<Rightarrow> st\<lparr>observers := (observers st)(f := observers st f + 1)\<rparr>)"

definition getObserverCount :: "string \<Rightarrow> sf_registry \<Rightarrow> nat" where
  "getObserverCount key st = (case map_of (inflight st) key of Some f \<Rightarrow> observers st f | None \<Rightarrow> 0)"

section \<open>Runs\<close>

text \<open>
  The flights whose leader has begun and not ended, and one mark per call or recorded observer
  that joined a flight. Flights end in any order.
\<close>

inductive sf_run :: "sf_registry \<Rightarrow> (string \<times> nat) list \<Rightarrow> nat list \<Rightarrow> bool" where
  sf_start: "sf_run sf_new [] []"
| sf_call: "sf_run st act joined \<Longrightarrow> sf_begin key st = (role, st') \<Longrightarrow>
    sf_run st' (case role of Leads f \<Rightarrow> (key, f) # act | Follows _ \<Rightarrow> act)
      (case role of Leads _ \<Rightarrow> joined | Follows f \<Rightarrow> f # joined)"
| sf_end: "sf_run st act joined \<Longrightarrow> (key, f) \<in> set act \<Longrightarrow>
    sf_run (sf_finally key f st) (filter (\<lambda>x. x \<noteq> (key, f)) act) joined"
| sf_observe: "sf_run st act joined \<Longrightarrow>
    sf_run (recordObserver key st) act
      (case map_of (inflight st) key of Some f \<Rightarrow> f # joined | None \<Rightarrow> joined)"

definition sf_ok :: "sf_registry \<Rightarrow> (string \<times> nat) list \<Rightarrow> nat list \<Rightarrow> bool" where
  "sf_ok st act joined \<longleftrightarrow> jsmap_ok (inflight st) \<and>
     (\<forall>key f. (key, f) \<in> set act \<longleftrightarrow> map_of (inflight st) key = Some f) \<and>
     (\<forall>key f. (key, f) \<in> set act \<longrightarrow> f < sf_next st) \<and> (\<forall>f\<in>set joined. f < sf_next st) \<and>
     (\<forall>f. observers st f = length (filter (\<lambda>g. g = f) joined))"

lemma sf_run_ok: "sf_run st act joined \<Longrightarrow> sf_ok st act joined"
proof (induction rule: sf_run.induct)
  case sf_start
  then show ?case by (simp add: sf_ok_def sf_new_def)
next
  case (sf_call st act joined key role st')
  show ?case
  proof (cases "map_of (inflight st) key")
    case None
    have fresh: "length (filter (\<lambda>g. g = sf_next st) joined) = 0"
      using sf_call.IH by (auto simp: sf_ok_def filter_empty_conv)
    from None sf_call.hyps(2) have role: "role = Leads (sf_next st)"
      and st': "st' = st\<lparr>inflight := AList.update key (sf_next st) (inflight st),
             observers := (observers st)(sf_next st := 0), sf_next := sf_next st + 1\<rparr>"
      by (auto simp: sf_begin_def)
    have "(\<forall>f\<in>set joined. f < Suc (sf_next st)) \<and> (\<forall>k f. (k, f) \<in> set act \<longrightarrow> f < Suc (sf_next st))"
      using sf_call.IH by (auto simp: sf_ok_def intro: less_SucI)
    then show ?thesis
      using sf_call.IH None fresh unfolding role st'
      by (auto simp: sf_ok_def jsmap.ok_put update_conv')
  next
    case (Some f)
    then show ?thesis
      using sf_call.IH sf_call.hyps(2) by (auto simp: sf_begin_def sf_ok_def)
  qed
next
  case (sf_end st act joined key f)
  then show ?case by (auto simp: sf_ok_def sf_finally_def jsmap.ok_del delete_conv')
next
  case (sf_observe st act joined key)
  then show ?case by (auto simp: sf_ok_def recordObserver_def split: option.splits)
qed

text \<open>
  C37: one flight per key. However calls and their ends interleave, at most one flight of a key is
  in progress; a call for that key while it is in progress follows it and starts nothing; a call
  with no flight in progress leads a new one; and a leader that ends is told one more than the
  number of calls and observers that joined its flight.
\<close>

theorem singleflight_once:
  assumes "sf_run st act joined"
  shows "((key, f) \<in> set act \<and> (key, g) \<in> set act \<longrightarrow> f = g) \<and>
    ((key, f) \<in> set act \<longrightarrow> fst (sf_begin key st) = Follows f \<and>
       sf_leader_counts key st = (length (filter (\<lambda>g. g = f) joined), length (filter (\<lambda>g. g = f) joined) + 1)) \<and>
    ((\<forall>f. (key, f) \<notin> set act) \<longrightarrow> (\<exists>n. fst (sf_begin key st) = Leads n \<and> n \<notin> snd ` set act))"
  using sf_run_ok[OF assms]
  by (auto simp: sf_ok_def sf_begin_def sf_leader_counts_def Let_def split: option.splits) (metis less_irrefl)

definition sf_demo :: sf_registry where
  "sf_demo = snd (sf_begin ''k'' (snd (sf_begin ''k'' sf_new)))"

theorem singleflight_once_witness:
  "sf_run sf_demo [(''k'', 0)] [0] \<and> fst (sf_begin ''k'' sf_demo) = Follows 0 \<and> sf_leader_counts ''k'' sf_demo = (1, 2)"
proof -
  have a: "sf_begin ''k'' sf_new = (Leads 0, snd (sf_begin ''k'' sf_new))"
    by (simp add: sf_begin_def sf_new_def)
  have r1: "sf_run (snd (sf_begin ''k'' sf_new)) [(''k'', 0)] []" using sf_call[OF sf_start a] by simp
  have b: "sf_begin ''k'' (snd (sf_begin ''k'' sf_new)) = (Follows 0, sf_demo)"
    by (simp add: sf_begin_def sf_new_def sf_demo_def)
  have r2: "sf_run sf_demo [(''k'', 0)] [0]" using sf_call[OF r1 b] by simp
  with singleflight_once[OF r2, of "''k''" 0] show ?thesis by simp
qed

end
