(* ===== verification/Request_Ids.thy ===== *)
theory Request_Ids
  imports Peta_Prelude
begin

text \<open>
  Request identifiers and progress tokens across the proxy (\<open>mcp/core/RequestIdMapper.ts\<close>, the
  progress and cancellation handlers of \<open>mcp/core/ProxySession.ts\<close>, and the request tracking and
  progress routing of \<open>mcp/core/ServerManager.ts\<close>).

  The clients of different sessions use the same request identifiers, and all sessions share
  one connection to a server. The mapper of a session replaces the identifier of a client by a
  proxy identifier that names the session; a progress notification of a server carries the proxy
  identifier and is routed back by it. The first part of the theory translates the code. The
  second part shows that the four tables of a mapper stay consistent in every run, and that
  progress and cancellations reach the request they belong to.

  An identifier of the protocol is an integer or a string. A connection object is a number.
\<close>

section \<open>The mapper of a session\<close>

datatype request_id = IdNum int | IdStr string

fun id_text :: "request_id \<Rightarrow> string" where
  "id_text (IdNum i) = int_str i"
| "id_text (IdStr s) = s"

record mapping_entry =
  me_originalRequestId :: request_id
  me_proxyRequestId :: string
  me_downstreamRequestId :: "request_id option"
  me_originalProgressToken :: "json option"
  me_serverId :: "string option"
  me_client :: "nat option"
  me_timestamp :: int
  me_method :: "string option"

record id_mapper =
  rm_sessionId :: string
  clientToProxy :: "(request_id, string) jsmap"
  proxyToClient :: "(string, request_id) jsmap"
  proxyToDownstream :: "(string, mapping_entry) jsmap"
  downstreamToProxy :: "(string, string) jsmap"

definition rm_TTL_MS :: int where
  "rm_TTL_MS = 5 * 60 * 1000"

definition new_mapper :: "string \<Rightarrow> id_mapper" where
  "new_mapper sid = \<lparr>rm_sessionId = sid, clientToProxy = [], proxyToClient = [],
     proxyToDownstream = [], downstreamToProxy = []\<rparr>"

definition generateProxyRequestId :: "id_mapper \<Rightarrow> request_id \<Rightarrow> int \<Rightarrow> string" where
  "generateProxyRequestId m originalRequestId timestamp =
     rm_sessionId m @ '':'' @ id_text originalRequestId @ '':'' @ int_str timestamp"

text \<open>
  The clock is read twice, for the identifier (\<open>now1\<close>) and for the entry (\<open>now2\<close>). A stored
  proxy identifier is never the empty string, so the truth test on it asks whether it is there.
\<close>

definition registerClientRequest ::
    "request_id \<Rightarrow> string option \<Rightarrow> string option \<Rightarrow> int \<Rightarrow> int \<Rightarrow> id_mapper \<Rightarrow> string \<times> id_mapper" where
  "registerClientRequest originalRequestId method serverId now1 now2 m =
     (case map_of (clientToProxy m) originalRequestId of
        Some p \<Rightarrow> (p, m)
      | None \<Rightarrow>
          (let p = generateProxyRequestId m originalRequestId now1;
               entry = \<lparr>me_originalRequestId = originalRequestId, me_proxyRequestId = p,
                 me_downstreamRequestId = None, me_originalProgressToken = None,
                 me_serverId = serverId, me_client = None, me_timestamp = now2, me_method = method\<rparr>
           in (p, m\<lparr>clientToProxy := AList.update originalRequestId p (clientToProxy m),
                   proxyToClient := AList.update p originalRequestId (proxyToClient m),
                   proxyToDownstream := AList.update p entry (proxyToDownstream m)\<rparr>)))"

definition downstreamKey :: "request_id \<Rightarrow> string \<Rightarrow> string" where
  "downstreamKey downstreamRequestId serverId = id_text downstreamRequestId @ '':'' @ serverId"

text \<open>The reverse key an entry stands under, when it has a downstream identifier and a non-empty server.\<close>

definition entry_downstream_key :: "mapping_entry \<Rightarrow> string option" where
  "entry_downstream_key e =
     (case (me_downstreamRequestId e, me_serverId e) of
        (Some d, Some s) \<Rightarrow> if s = [] then None else Some (downstreamKey d s)
      | _ \<Rightarrow> None)"

definition drop_key :: "'k option \<Rightarrow> ('k, 'v) jsmap \<Rightarrow> ('k, 'v) jsmap" where
  "drop_key k m = (case k of None \<Rightarrow> m | Some k \<Rightarrow> AList.delete k m)"

definition registerDownstreamMapping ::
    "string \<Rightarrow> request_id \<Rightarrow> string \<Rightarrow> nat option \<Rightarrow> id_mapper \<Rightarrow> id_mapper" where
  "registerDownstreamMapping p downstreamRequestId serverId client m =
     (case map_of (proxyToDownstream m) p of
        None \<Rightarrow> m
      | Some entry \<Rightarrow>
          m\<lparr>proxyToDownstream := AList.update p
              (entry\<lparr>me_downstreamRequestId := Some downstreamRequestId, me_serverId := Some serverId,
                     me_client := client\<rparr>) (proxyToDownstream m),
            downstreamToProxy := AList.update (downstreamKey downstreamRequestId serverId) p
              (drop_key (entry_downstream_key entry) (downstreamToProxy m))\<rparr>)"

definition setOriginalProgressToken :: "string \<Rightarrow> json \<Rightarrow> id_mapper \<Rightarrow> id_mapper" where
  "setOriginalProgressToken p progressToken m =
     (case map_of (proxyToDownstream m) p of
        None \<Rightarrow> m
      | Some entry \<Rightarrow>
          m\<lparr>proxyToDownstream := AList.update p
              (entry\<lparr>me_originalProgressToken := Some progressToken\<rparr>) (proxyToDownstream m)\<rparr>)"

definition getMappingEntry :: "string \<Rightarrow> id_mapper \<Rightarrow> mapping_entry option" where
  "getMappingEntry p m = map_of (proxyToDownstream m) p"

definition getOriginalProgressToken :: "string \<Rightarrow> id_mapper \<Rightarrow> json option" where
  "getOriginalProgressToken p m =
     (case map_of (proxyToDownstream m) p of None \<Rightarrow> None | Some e \<Rightarrow> me_originalProgressToken e)"

definition getDownstreamRequestId :: "string \<Rightarrow> id_mapper \<Rightarrow> request_id option" where
  "getDownstreamRequestId p m =
     (case map_of (proxyToDownstream m) p of None \<Rightarrow> None | Some e \<Rightarrow> me_downstreamRequestId e)"

definition getProxyRequestId :: "request_id \<Rightarrow> id_mapper \<Rightarrow> string option" where
  "getProxyRequestId originalRequestId m = map_of (clientToProxy m) originalRequestId"

definition getOriginalRequestId :: "string \<Rightarrow> id_mapper \<Rightarrow> request_id option" where
  "getOriginalRequestId p m = map_of (proxyToClient m) p"

definition getProxyRequestIdFromDownstream :: "request_id \<Rightarrow> string \<Rightarrow> id_mapper \<Rightarrow> string option" where
  "getProxyRequestIdFromDownstream d serverId m = map_of (downstreamToProxy m) (downstreamKey d serverId)"

definition getOriginalRequestIdFromDownstream ::
    "request_id \<Rightarrow> string \<Rightarrow> id_mapper \<Rightarrow> request_id option" where
  "getOriginalRequestIdFromDownstream d serverId m =
     (case getProxyRequestIdFromDownstream d serverId m of
        None \<Rightarrow> None | Some p \<Rightarrow> if p = [] then None else getOriginalRequestId p m)"

definition removeMapping :: "string \<Rightarrow> id_mapper \<Rightarrow> id_mapper" where
  "removeMapping p m =
     (case map_of (proxyToDownstream m) p of
        None \<Rightarrow> m
      | Some entry \<Rightarrow>
          m\<lparr>clientToProxy := AList.delete (me_originalRequestId entry) (clientToProxy m),
            proxyToClient := AList.delete p (proxyToClient m),
            proxyToDownstream := AList.delete p (proxyToDownstream m),
            downstreamToProxy := drop_key (entry_downstream_key entry) (downstreamToProxy m)\<rparr>)"

text \<open>
  The sweep iterates over the live table and removes only the entry it visits, so it visits
  every entry once.
\<close>

definition mapping_expired :: "int \<Rightarrow> mapping_entry \<Rightarrow> bool" where
  "mapping_expired now e \<longleftrightarrow> now - me_timestamp e > rm_TTL_MS"

definition rm_cleanupExpired :: "int \<Rightarrow> id_mapper \<Rightarrow> nat \<times> id_mapper" where
  "rm_cleanupExpired now m =
     (let gone = map fst (filter (\<lambda>(p, e). mapping_expired now e) (proxyToDownstream m))
      in (length gone, fold removeMapping gone m))"

definition rm_clear :: "id_mapper \<Rightarrow> id_mapper" where
  "rm_clear m = m\<lparr>clientToProxy := [], proxyToClient := [], proxyToDownstream := [],
                  downstreamToProxy := []\<rparr>"

definition oldest_mapping :: "int \<Rightarrow> (string, mapping_entry) jsmap \<Rightarrow> (string \<times> int) option" where
  "oldest_mapping now es =
     fold (\<lambda>(p, e) oldest. let age = now - me_timestamp e in
        case oldest of None \<Rightarrow> Some (p, age)
        | Some (q, a) \<Rightarrow> if age > a then Some (p, age) else oldest) es None"

definition rm_getStats :: "int \<Rightarrow> id_mapper \<Rightarrow> nat \<times> nat \<times> nat \<times> nat \<times> (string \<times> int) option" where
  "rm_getStats now m =
     (length (proxyToDownstream m), length (clientToProxy m), length (proxyToDownstream m),
      length (downstreamToProxy m), oldest_mapping now (proxyToDownstream m))"

section \<open>Progress and cancellation\<close>

text \<open>
  \<open>rewriteProgressTokenForDownstream\<close>: parameters that hold a progress token are sent on with
  the proxy identifier in its place; the token is remembered.
\<close>

definition progress_token :: "json \<Rightarrow> json option" where
  "progress_token params =
     (case params of
        JObj _ fs \<Rightarrow>
          (case map_of fs ''_meta'' of
             Some (JObj _ ms) \<Rightarrow>
               (case map_of ms ''progressToken'' of None \<Rightarrow> None | Some v \<Rightarrow> if v = JUndef then None else Some v)
           | _ \<Rightarrow> None)
      | _ \<Rightarrow> None)"

definition meta_fields :: "json \<Rightarrow> unit fields" where
  "meta_fields params =
     (case params of
        JObj _ fs \<Rightarrow> (case map_of fs ''_meta'' of Some (JObj _ ms) \<Rightarrow> ms | _ \<Rightarrow> [])
      | _ \<Rightarrow> [])"

definition own_fields :: "json \<Rightarrow> unit fields" where
  "own_fields params = (case params of JObj _ fs \<Rightarrow> fs | _ \<Rightarrow> [])"

definition rewriteProgressTokenForDownstream :: "json \<Rightarrow> string \<Rightarrow> id_mapper \<Rightarrow> json \<times> id_mapper" where
  "rewriteProgressTokenForDownstream params p m =
     (case progress_token params of
        None \<Rightarrow> (params, m)
      | Some token \<Rightarrow>
          (JObj () (AList.update ''_meta''
             (JObj () (AList.update ''progressToken'' (JStr p) (meta_fields params))) (own_fields params)),
           setOriginalProgressToken p token m))"

definition hasTrackedProgressToken :: "string \<Rightarrow> id_mapper \<Rightarrow> bool" where
  "hasTrackedProgressToken p m \<longleftrightarrow> getOriginalProgressToken p m \<noteq> None"

text \<open>
  What \<open>forwardProgressToClient\<close> sends: the token of the client and the request the notification
  is related to. The remaining fields of the notification are passed on as they are.
\<close>

definition forwardProgressToClient :: "string \<Rightarrow> id_mapper \<Rightarrow> (json \<times> request_id) option" where
  "forwardProgressToClient p m =
     (case (getOriginalProgressToken p m, getOriginalRequestId p m) of
        (Some token, Some originalRequestId) \<Rightarrow> Some (token, originalRequestId)
      | _ \<Rightarrow> None)"

text \<open>
  The sessions of the gateway, by session identifier, with the mapper of their proxy session.
\<close>

type_synonym mapper_store = "(string, id_mapper) jsmap"

definition extractSessionIdFromProxyRequestId :: "string \<Rightarrow> string option" where
  "extractSessionIdFromProxyRequestId p =
     (if CHR '':'' \<in> set p \<and> takeWhile (\<lambda>c. c \<noteq> CHR '':'') p \<noteq> []
      then Some (takeWhile (\<lambda>c. c \<noteq> CHR '':'') p) else None)"

text \<open>
  The handler of downstream progress notifications: the session that gets a notification, and
  what its client is sent.
\<close>

definition route_progress :: "json \<Rightarrow> mapper_store \<Rightarrow> (string \<times> json \<times> request_id) option" where
  "route_progress token store =
     (case token of
        JStr p \<Rightarrow>
          (case extractSessionIdFromProxyRequestId p of
             None \<Rightarrow> None
           | Some sid \<Rightarrow>
               (case map_of store sid of
                  None \<Rightarrow> None
                | Some m \<Rightarrow>
                    if \<not> hasTrackedProgressToken p m then None
                    else map_option (\<lambda>r. (sid, r)) (forwardProgressToClient p m)))
      | _ \<Rightarrow> None)"

text \<open>
  The wrapped transport: a request sent for a proxy request is recorded in the mapper of its
  session before it goes out.
\<close>

definition track_send ::
    "request_id \<Rightarrow> string option \<Rightarrow> string \<Rightarrow> nat \<Rightarrow> mapper_store \<Rightarrow> mapper_store" where
  "track_send message_id relatedRequestId serverId client store =
     (case relatedRequestId of
        None \<Rightarrow> store
      | Some p \<Rightarrow>
          (case extractSessionIdFromProxyRequestId p of
             None \<Rightarrow> store
           | Some sid \<Rightarrow>
               (case map_of store sid of
                  None \<Rightarrow> store
                | Some m \<Rightarrow>
                    AList.update sid (registerDownstreamMapping p message_id serverId (Some client) m) store)))"

text \<open>
  \<open>handleCancelledNotification\<close>: the connection that is told, the downstream identifier it is told
  to cancel, and the proxy request this is related to. The connection of a server is a parameter.
\<close>

definition handleCancelledNotification ::
    "(string \<Rightarrow> nat option) \<Rightarrow> request_id option \<Rightarrow> id_mapper \<Rightarrow> (nat \<times> request_id \<times> string) option" where
  "handleCancelledNotification connection requestId m =
     (case requestId of
        None \<Rightarrow> None
      | Some r \<Rightarrow>
          (case getProxyRequestId r m of
             None \<Rightarrow> None
           | Some p \<Rightarrow>
               if p = [] then None
               else (case getMappingEntry p m of
                  None \<Rightarrow> None
                | Some entry \<Rightarrow>
                    (case me_serverId entry of
                       None \<Rightarrow> None
                     | Some serverId \<Rightarrow>
                         if serverId = [] then None
                         else (case getDownstreamRequestId p m of
                            None \<Rightarrow> None
                          | Some d \<Rightarrow> map_option (\<lambda>c. (c, d, p)) (connection serverId))))))"

section \<open>Proxy identifiers are unambiguous\<close>

lemma split_at_last:
  assumes "s @ c # t = s' @ c # t'" "c \<notin> set t" "c \<notin> set t'"
  shows "s = s' \<and> t = t'"
proof -
  have "takeWhile (\<lambda>x. x \<noteq> c) (rev (s @ c # t)) = rev t"
    "takeWhile (\<lambda>x. x \<noteq> c) (rev (s' @ c # t')) = rev t'"
    using assms(2,3) by (auto simp: takeWhile_append takeWhile_eq_all_conv)
  with assms(1) have "rev t = rev t'" by simp
  then have "t = t'" by simp
  with assms(1) show ?thesis by simp
qed

lemma nat_str_char: "c \<in> set (nat_str n) \<Longrightarrow> c \<noteq> CHR '':'' \<and> c \<noteq> CHR ''-''"
proof -
  assume "c \<in> set (nat_str n)"
  then obtain d where "d < 10" "c = digit_char d" using nat_str_digits by blast
  then have "(of_char c :: nat) = 48 + d" "d < 10" by (simp_all add: of_char_digit_char)
  then show ?thesis by auto
qed

lemma int_str_no_colon: "CHR '':'' \<notin> set (int_str i)"
  using nat_str_char by (fastforce simp: int_str_def split: if_splits)

lemma inj_id_text_numbers: "inj_on id_text (range IdNum)"
  by (auto simp: inj_on_def)

lemma generate_inject:
  assumes "generateProxyRequestId m r n = generateProxyRequestId m r' n'"
  shows "id_text r = id_text r' \<and> n = n'"
proof -
  let ?pre = "\<lambda>r. rm_sessionId m @ '':'' @ id_text r"
  have "?pre r @ CHR '':'' # int_str n = ?pre r' @ CHR '':'' # int_str n'"
    using assms by (simp add: generateProxyRequestId_def)
  from split_at_last[OF this int_str_no_colon int_str_no_colon] show ?thesis
    by simp
qed

lemma generate_session:
  assumes "CHR '':'' \<notin> set (rm_sessionId m)" "rm_sessionId m \<noteq> []"
  shows "extractSessionIdFromProxyRequestId (generateProxyRequestId m r n) = Some (rm_sessionId m)"
proof -
  have "takeWhile (\<lambda>c. c \<noteq> CHR '':'') (generateProxyRequestId m r n) = rm_sessionId m"
    using assms(1) by (auto simp: generateProxyRequestId_def takeWhile_append takeWhile_eq_all_conv)
  then show ?thesis using assms(2)
    by (simp add: extractSessionIdFromProxyRequestId_def generateProxyRequestId_def)
qed

section \<open>The tables stay consistent\<close>

text \<open>
  The identifiers and the two tables of proxy requests are inverse to each other; every proxy
  identifier was generated for its request; a reverse key leads to the entry that stands under it.
\<close>

definition generated_for :: "string \<Rightarrow> string \<Rightarrow> request_id \<Rightarrow> bool" where
  "generated_for sid p r \<longleftrightarrow> (\<exists>n. p = sid @ '':'' @ id_text r @ '':'' @ int_str n)"

definition mapper_ok :: "request_id set \<Rightarrow> id_mapper \<Rightarrow> bool" where
  "mapper_ok U m \<longleftrightarrow>
     jsmap_ok (clientToProxy m) \<and> jsmap_ok (proxyToClient m) \<and> jsmap_ok (proxyToDownstream m) \<and>
     jsmap_ok (downstreamToProxy m) \<and>
     (\<forall>p e. map_of (proxyToDownstream m) p = Some e \<longrightarrow> me_proxyRequestId e = p \<and>
        me_originalRequestId e \<in> U \<and> generated_for (rm_sessionId m) p (me_originalRequestId e)) \<and>
     (\<forall>p r. map_of (proxyToClient m) p = Some r \<longleftrightarrow>
        (\<exists>e. map_of (proxyToDownstream m) p = Some e \<and> me_originalRequestId e = r)) \<and>
     (\<forall>p r. map_of (clientToProxy m) r = Some p \<longleftrightarrow>
        (\<exists>e. map_of (proxyToDownstream m) p = Some e \<and> me_originalRequestId e = r)) \<and>
     (\<forall>k p. map_of (downstreamToProxy m) k = Some p \<longrightarrow>
        (\<exists>e. map_of (proxyToDownstream m) p = Some e \<and> entry_downstream_key e = Some k))"

lemma mapper_ok_new [simp]: "mapper_ok U (new_mapper sid)"
  by (simp add: mapper_ok_def new_mapper_def)

lemma mapper_ok_clear: "mapper_ok U m \<Longrightarrow> mapper_ok U (rm_clear m)"
  by (simp add: mapper_ok_def rm_clear_def)

lemma generated_for_iff: "generated_for (rm_sessionId m) p r \<longleftrightarrow> (\<exists>n. p = generateProxyRequestId m r n)"
  by (simp add: generated_for_def generateProxyRequestId_def)

lemma jsmap_ok_drop_key [simp]: "jsmap_ok m \<Longrightarrow> jsmap_ok (drop_key k m)"
  by (simp add: drop_key_def jsmap.ok_del split: option.splits)

lemma map_of_drop_key: "map_of (drop_key k m) x = (if k = Some x then None else map_of m x)"
  by (auto simp: drop_key_def delete_conv' split: option.splits)

lemma mapper_okI:
  assumes "jsmap_ok (clientToProxy m)" "jsmap_ok (proxyToClient m)" "jsmap_ok (proxyToDownstream m)"
    "jsmap_ok (downstreamToProxy m)"
    "\<And>p e. map_of (proxyToDownstream m) p = Some e \<Longrightarrow> me_proxyRequestId e = p \<and>
       me_originalRequestId e \<in> U \<and> generated_for (rm_sessionId m) p (me_originalRequestId e)"
    "\<And>p r. map_of (proxyToClient m) p = Some r \<longleftrightarrow>
       (\<exists>e. map_of (proxyToDownstream m) p = Some e \<and> me_originalRequestId e = r)"
    "\<And>p r. map_of (clientToProxy m) r = Some p \<longleftrightarrow>
       (\<exists>e. map_of (proxyToDownstream m) p = Some e \<and> me_originalRequestId e = r)"
    "\<And>k p. map_of (downstreamToProxy m) k = Some p \<Longrightarrow>
       \<exists>e. map_of (proxyToDownstream m) p = Some e \<and> entry_downstream_key e = Some k"
  shows "mapper_ok U m"
  using assms unfolding mapper_ok_def by blast

lemma mapper_okD:
  assumes "mapper_ok U m"
  shows "jsmap_ok (clientToProxy m)" "jsmap_ok (proxyToClient m)" "jsmap_ok (proxyToDownstream m)"
    "jsmap_ok (downstreamToProxy m)"
    "map_of (proxyToDownstream m) p = Some e \<Longrightarrow> me_proxyRequestId e = p \<and>
       me_originalRequestId e \<in> U \<and> generated_for (rm_sessionId m) p (me_originalRequestId e)"
    "map_of (proxyToClient m) p = Some r \<longleftrightarrow>
       (\<exists>e. map_of (proxyToDownstream m) p = Some e \<and> me_originalRequestId e = r)"
    "map_of (clientToProxy m) r = Some p \<longleftrightarrow>
       (\<exists>e. map_of (proxyToDownstream m) p = Some e \<and> me_originalRequestId e = r)"
    "map_of (downstreamToProxy m) k = Some p \<Longrightarrow>
       \<exists>e. map_of (proxyToDownstream m) p = Some e \<and> entry_downstream_key e = Some k"
  using assms unfolding mapper_ok_def by blast+

lemma mapper_ok_entry:
  assumes "mapper_ok U m" "map_of (proxyToDownstream m) p = Some e"
  shows "map_of (clientToProxy m) (me_originalRequestId e) = Some p"
    "map_of (proxyToClient m) p = Some (me_originalRequestId e)"
  using mapper_okD(6,7)[OF assms(1)] assms(2) by blast+

lemma mapper_ok_back:
  assumes "mapper_ok U m" "map_of (downstreamToProxy m) k = Some p" "map_of (proxyToDownstream m) p = Some e"
  shows "entry_downstream_key e = Some k"
  using mapper_okD(8)[OF assms(1,2)] assms(3) by simp

text \<open>A fresh request gets a proxy identifier no outstanding request has.\<close>

lemma generate_fresh:
  assumes "mapper_ok U m" "inj_on id_text U" "r \<in> U" "map_of (clientToProxy m) r = None"
  shows "map_of (proxyToDownstream m) (generateProxyRequestId m r n) = None"
proof (rule ccontr)
  let ?p = "generateProxyRequestId m r n"
  assume "map_of (proxyToDownstream m) ?p \<noteq> None"
  then obtain e where e: "map_of (proxyToDownstream m) ?p = Some e" by blast
  then obtain n' where "me_originalRequestId e \<in> U" "?p = generateProxyRequestId m (me_originalRequestId e) n'"
    using mapper_okD(5)[OF assms(1)] by (auto simp: generated_for_iff)
  with assms(2,3) have "me_originalRequestId e = r"
    using generate_inject by (metis inj_on_def)
  with mapper_ok_entry[OF assms(1) e] assms(4) show False by simp
qed

lemma mapper_ok_register:
  assumes ok: "mapper_ok U m" and "inj_on id_text U" "r \<in> U"
  shows "mapper_ok U (snd (registerClientRequest r meth srv n1 n2 m))"
proof (cases "map_of (clientToProxy m) r")
  case (Some p)
  then show ?thesis using ok by (simp add: registerClientRequest_def)
next
  case None
  note D = mapper_okD[OF ok]
  let ?p = "generateProxyRequestId m r n1"
  have fresh: "map_of (proxyToDownstream m) ?p = None" using generate_fresh assms None by blast
  have gen: "generated_for (rm_sessionId m) ?p r" by (auto simp: generated_for_iff)
  have other: "me_originalRequestId e \<noteq> r" if "map_of (proxyToDownstream m) p = Some e" for p e
    using mapper_ok_entry[OF ok that] None by auto
  have nokey: "map_of (downstreamToProxy m) k \<noteq> Some ?p" for k using D(8) fresh by fastforce
  show ?thesis
    using None D fresh gen other nokey \<open>r \<in> U\<close>
    by (intro mapper_okI)
      (auto simp: registerClientRequest_def Let_def jsmap.ok_put update_conv' split: if_splits)
qed

lemma mapper_ok_downstream:
  assumes ok: "mapper_ok U m" and "srv \<noteq> []"
  shows "mapper_ok U (registerDownstreamMapping p d srv c m)"
proof (cases "map_of (proxyToDownstream m) p")
  case None
  then show ?thesis using ok by (simp add: registerDownstreamMapping_def)
next
  case (Some e)
  note D = mapper_okD[OF ok]
  have key: "entry_downstream_key
      (e\<lparr>me_downstreamRequestId := Some d, me_serverId := Some srv, me_client := c\<rparr>) =
      Some (downstreamKey d srv)" using \<open>srv \<noteq> []\<close> by (simp add: entry_downstream_key_def)
  have stay: "q \<noteq> p" if "map_of (downstreamToProxy m) k = Some q" "entry_downstream_key e \<noteq> Some k" for k q
    using D(8)[OF that(1)] that(2) Some by auto
  show ?thesis
    using Some D key stay
    by (intro mapper_okI)
      (auto simp: registerDownstreamMapping_def jsmap.ok_put update_conv' map_of_drop_key split: if_splits)
qed

lemma mapper_ok_token:
  assumes ok: "mapper_ok U m"
  shows "mapper_ok U (setOriginalProgressToken p t m)"
proof (cases "map_of (proxyToDownstream m) p")
  case None
  then show ?thesis using ok by (simp add: setOriginalProgressToken_def)
next
  case (Some e)
  note D = mapper_okD[OF ok]
  let ?m = "setOriginalProgressToken p t m"
  have key: "entry_downstream_key (e\<lparr>me_originalProgressToken := Some t\<rparr>) = entry_downstream_key e"
    by (simp add: entry_downstream_key_def)
  have same: "clientToProxy ?m = clientToProxy m" "proxyToClient ?m = proxyToClient m"
    "downstreamToProxy ?m = downstreamToProxy m" "rm_sessionId ?m = rm_sessionId m"
    "map_of (proxyToDownstream ?m) q =
       (if q = p then Some (e\<lparr>me_originalProgressToken := Some t\<rparr>) else map_of (proxyToDownstream m) q)" for q
    by (simp_all add: setOriginalProgressToken_def Some update_conv')
  have "jsmap_ok (proxyToDownstream ?m)"
    using D(3) by (simp add: setOriginalProgressToken_def Some jsmap.ok_put)
  then show ?thesis
    using D mapper_ok_back[OF ok _ Some] Some key unfolding mapper_ok_def same by auto
qed

lemma mapper_ok_remove:
  assumes ok: "mapper_ok U m"
  shows "mapper_ok U (removeMapping p m)"
proof (cases "map_of (proxyToDownstream m) p")
  case None
  then show ?thesis using ok by (simp add: removeMapping_def)
next
  case (Some e)
  note D = mapper_okD[OF ok]
  have other: "me_originalRequestId f \<noteq> me_originalRequestId e"
    if "map_of (proxyToDownstream m) q = Some f" "q \<noteq> p" for q f
    using mapper_ok_entry[OF ok that(1)] mapper_ok_entry[OF ok Some] that(2) by auto
  have stay: "q \<noteq> p" if "map_of (downstreamToProxy m) k = Some q" "entry_downstream_key e \<noteq> Some k" for k q
    using D(8)[OF that(1)] that(2) Some by auto
  show ?thesis
    using Some D other stay
    by (intro mapper_okI)
      (auto simp: removeMapping_def jsmap.ok_del delete_conv' map_of_drop_key split: if_splits)
qed

lemma mapper_ok_removes: "mapper_ok U m \<Longrightarrow> mapper_ok U (fold removeMapping ps m)"
  by (induction ps arbitrary: m) (simp_all add: mapper_ok_remove)

section \<open>Runs of the gateway\<close>

text \<open>
  A mapper is changed by the requests of its client (with identifiers from \<open>U\<close>), by the
  identifiers downstream connections assign, by progress tokens, and by the removal of finished
  and overdue requests. Sessions are opened under identifiers without a colon (they are UUIDs).
\<close>

inductive mapper_step :: "request_id set \<Rightarrow> id_mapper \<Rightarrow> id_mapper \<Rightarrow> bool" for U where
  mp_register: "r \<in> U \<Longrightarrow> mapper_step U m (snd (registerClientRequest r meth srv n1 n2 m))"
| mp_downstream: "srv \<noteq> [] \<Longrightarrow> mapper_step U m (registerDownstreamMapping p d srv c m)"
| mp_rewrite: "mapper_step U m (snd (rewriteProgressTokenForDownstream params p m))"
| mp_remove: "mapper_step U m (removeMapping p m)"
| mp_sweep: "mapper_step U m (snd (rm_cleanupExpired now m))"
| mp_clear: "mapper_step U m (rm_clear m)"

inductive gateway_ids :: "request_id set \<Rightarrow> mapper_store \<Rightarrow> bool" for U where
  gi_start: "gateway_ids U []"
| gi_open: "gateway_ids U store \<Longrightarrow> sid \<noteq> [] \<Longrightarrow> CHR '':'' \<notin> set sid \<Longrightarrow>
    gateway_ids U (AList.update sid (new_mapper sid) store)"
| gi_close: "gateway_ids U store \<Longrightarrow> gateway_ids U (AList.delete sid store)"
| gi_work: "gateway_ids U store \<Longrightarrow> map_of store sid = Some m \<Longrightarrow> mapper_step U m m' \<Longrightarrow>
    gateway_ids U (AList.update sid m' store)"
| gi_send: "gateway_ids U store \<Longrightarrow> srv \<noteq> [] \<Longrightarrow> gateway_ids U (track_send d related srv c store)"

lemma removes_session: "rm_sessionId (fold removeMapping ps m) = rm_sessionId m"
proof -
  have "rm_sessionId (removeMapping p m) = rm_sessionId m" for p m
    by (simp add: removeMapping_def split: option.splits)
  then show ?thesis by (induction ps arbitrary: m) simp_all
qed

lemma mapper_step_ok:
  assumes "mapper_step U m m'" "mapper_ok U m" "inj_on id_text U"
  shows "mapper_ok U m' \<and> rm_sessionId m' = rm_sessionId m"
  using assms
proof (induction rule: mapper_step.induct)
  case (mp_register r m meth srv n1 n2)
  then have "mapper_ok U (snd (registerClientRequest r meth srv n1 n2 m))" by (simp add: mapper_ok_register)
  then show ?case by (simp add: registerClientRequest_def Let_def split: option.splits)
next
  case (mp_downstream srv m p d c)
  then have "mapper_ok U (registerDownstreamMapping p d srv c m)" by (simp add: mapper_ok_downstream)
  then show ?case by (simp add: registerDownstreamMapping_def split: option.splits)
next
  case (mp_rewrite m params p)
  then have "mapper_ok U (setOriginalProgressToken p t m)" for t by (simp add: mapper_ok_token)
  moreover have "rm_sessionId (setOriginalProgressToken p t m) = rm_sessionId m" for t
    by (simp add: setOriginalProgressToken_def split: option.splits)
  ultimately show ?case using mp_rewrite.prems(1)
    by (simp add: rewriteProgressTokenForDownstream_def split: option.splits)
next
  case (mp_remove m p)
  then show ?case using mapper_ok_removes[of U m "[p]"] removes_session[of "[p]" m] by simp
next
  case (mp_sweep m now)
  then show ?case by (simp add: rm_cleanupExpired_def Let_def mapper_ok_removes removes_session)
next
  case (mp_clear m)
  then show ?case by (simp add: mapper_ok_clear) (simp add: rm_clear_def)
qed

definition gateway_inv :: "request_id set \<Rightarrow> mapper_store \<Rightarrow> bool" where
  "gateway_inv U store \<longleftrightarrow> jsmap_ok store \<and>
     (\<forall>sid m. map_of store sid = Some m \<longrightarrow>
        mapper_ok U m \<and> rm_sessionId m = sid \<and> sid \<noteq> [] \<and> CHR '':'' \<notin> set sid)"

lemma gateway_inv_update:
  assumes "gateway_inv U store" "mapper_ok U m" "rm_sessionId m = sid" "sid \<noteq> []" "CHR '':'' \<notin> set sid"
  shows "gateway_inv U (AList.update sid m store)"
  using assms by (auto simp: gateway_inv_def jsmap.ok_put update_conv' split: if_splits)

lemma gateway_inv_work:
  assumes "gateway_inv U store" "map_of store sid = Some m" "mapper_step U m m'" "inj_on id_text U"
  shows "gateway_inv U (AList.update sid m' store)"
proof -
  have "mapper_ok U m" "rm_sessionId m = sid" "sid \<noteq> []" "CHR '':'' \<notin> set sid"
    using assms(1,2) by (auto simp: gateway_inv_def)
  with mapper_step_ok[OF assms(3) _ assms(4)] show ?thesis
    by (intro gateway_inv_update[OF assms(1)]) simp_all
qed

lemma gateway_ids_inv:
  assumes "gateway_ids U store" "inj_on id_text U"
  shows "gateway_inv U store"
  using assms(1)
proof (induction rule: gateway_ids.induct)
  case gi_start
  show ?case by (simp add: gateway_inv_def)
next
  case (gi_open store sid)
  then show ?case by (intro gateway_inv_update) (simp_all, simp add: new_mapper_def)
next
  case (gi_close store sid)
  then show ?case by (auto simp: gateway_inv_def jsmap.ok_del delete_conv' split: if_splits)
next
  case (gi_work store sid m m')
  then show ?case using gateway_inv_work assms(2) by blast
next
  case (gi_send store srv d related c)
  then have step: "gateway_inv U (AList.update sid (registerDownstreamMapping p d srv (Some c) m) store)"
    if "map_of store sid = Some m" for p sid m
    using gateway_inv_work[OF _ that mp_downstream assms(2)] by blast
  show ?case using gi_send.IH step by (auto simp: track_send_def split: option.splits)
qed

text \<open>The entry behind a proxy identifier, as every session of a run keeps it.\<close>

lemma gateway_entry:
  assumes "gateway_ids U store" "inj_on id_text U" "map_of store sid = Some m"
    "map_of (clientToProxy m) r = Some p"
  obtains e where "map_of (proxyToDownstream m) p = Some e" "me_originalRequestId e = r"
    "map_of (proxyToClient m) p = Some r" "extractSessionIdFromProxyRequestId p = Some sid"
    "p \<noteq> []" "mapper_ok U m"
proof -
  from gateway_ids_inv[OF assms(1,2)] assms(3) have m: "mapper_ok U m" "rm_sessionId m = sid"
    "sid \<noteq> []" "CHR '':'' \<notin> set sid"
    by (auto simp: gateway_inv_def)
  from mapper_okD(7)[OF m(1)] assms(4) obtain e where e: "map_of (proxyToDownstream m) p = Some e"
    "me_originalRequestId e = r" by blast
  from mapper_okD(5)[OF m(1) e(1)] obtain n where n: "p = generateProxyRequestId m r n"
    using e(2) by (auto simp: generated_for_iff)
  then have "p \<noteq> []" by (simp add: generateProxyRequestId_def)
  with that e mapper_ok_entry[OF m(1) e(1)] generate_session[of m r n] m n show thesis by simp
qed

section \<open>Requests, progress and cancellations find their way back\<close>

text \<open>A run with two sessions whose clients both use the identifier 1.\<close>

definition demo_ids :: mapper_store where
  "demo_ids =
     (let m1 = snd (registerClientRequest (IdNum 1) None (Some ''srv'') 50 50 (new_mapper ''s1''));
          m2 = snd (registerClientRequest (IdNum 1) None (Some ''srv'') 50 51 (new_mapper ''s2''))
      in AList.update ''s2'' m2 (AList.update ''s2'' (new_mapper ''s2'')
           (AList.update ''s1'' m1 (AList.update ''s1'' (new_mapper ''s1'') []))))"

lemma demo_ids_run: "gateway_ids (range IdNum) demo_ids"
proof -
  have one: "mapper_step (range IdNum) m (snd (registerClientRequest (IdNum 1) None srv n1 n2 m))"
    for m srv n1 n2 by (rule mp_register) simp
  show ?thesis unfolding demo_ids_def Let_def
    by (intro gi_work[OF _ _ one] gi_open gi_start) (simp_all add: update_conv')
qed



text \<open>
  Progress goes to the request it reports on. When the parameters of an outstanding request
  carry a progress token, they are sent on with the proxy identifier as token, and a notification
  with that token is delivered to the session of the request, with the client's own token and
  related to its own request. A notification that is delivered at all carries the proxy
  identifier of an outstanding request of the session it is delivered to.
\<close>

theorem progress_routed:
  assumes "gateway_ids U store" "inj_on id_text U"
  shows "(map_of store sid = Some m \<and> getProxyRequestId r m = Some p \<and>
      progress_token params = Some token \<and>
      rewriteProgressTokenForDownstream params p m = (params', m') \<longrightarrow>
      progress_token params' = Some (JStr p) \<and>
      route_progress (JStr p) (AList.update sid m' store) = Some (sid, token, r)) \<and>
    (route_progress t store = Some (sid, token, r) \<longrightarrow>
      (\<exists>p m. t = JStr p \<and> map_of store sid = Some m \<and> getProxyRequestId r m = Some p \<and>
        getOriginalProgressToken p m = Some token))"
proof (rule conjI; rule impI)
  assume "map_of store sid = Some m \<and> getProxyRequestId r m = Some p \<and> progress_token params = Some token \<and>
    rewriteProgressTokenForDownstream params p m = (params', m')"
  then have m: "map_of store sid = Some m" and p: "getProxyRequestId r m = Some p"
    and token: "progress_token params = Some token"
    and rw: "rewriteProgressTokenForDownstream params p m = (params', m')" by blast+
  from p gateway_entry[OF assms m] obtain e where e: "map_of (proxyToDownstream m) p = Some e"
    "map_of (proxyToClient m) p = Some r" "extractSessionIdFromProxyRequestId p = Some sid"
    by (metis getProxyRequestId_def)
  from rw token have "m' = setOriginalProgressToken p token m" and
    "params' = JObj () (AList.update ''_meta''
       (JObj () (AList.update ''progressToken'' (JStr p) (meta_fields params))) (own_fields params))"
    by (auto simp: rewriteProgressTokenForDownstream_def)
  with e show "progress_token params' = Some (JStr p) \<and>
      route_progress (JStr p) (AList.update sid m' store) = Some (sid, token, r)"
    by (simp add: progress_token_def update_conv' route_progress_def hasTrackedProgressToken_def
        getOriginalProgressToken_def setOriginalProgressToken_def forwardProgressToClient_def
        getOriginalRequestId_def)
next
  assume "route_progress t store = Some (sid, token, r)"
  then obtain p m where t: "t = JStr p" "map_of store sid = Some m"
    and f: "forwardProgressToClient p m = Some (token, r)"
    by (auto simp: route_progress_def split: jsval.splits option.splits if_splits)
  from f have p: "getOriginalProgressToken p m = Some token" "map_of (proxyToClient m) p = Some r"
    by (auto simp: forwardProgressToClient_def getOriginalRequestId_def split: option.splits)
  have ok: "mapper_ok U m" using gateway_ids_inv[OF assms] t(2) by (simp add: gateway_inv_def)
  from p(2) mapper_okD(6,7)[OF ok] have "getProxyRequestId r m = Some p"
    by (simp add: getProxyRequestId_def)
  with t p(1) show "\<exists>p m. t = JStr p \<and> map_of store sid = Some m \<and> getProxyRequestId r m = Some p \<and>
      getOriginalProgressToken p m = Some token" by blast
qed

theorem progress_routed_witness:
  "\<exists>m. map_of demo_ids ''s2'' = Some m \<and>
     route_progress (JStr ''s2:1:50'') (AList.update ''s2''
       (snd (rewriteProgressTokenForDownstream
          (JObj () [(''_meta'', JObj () [(''progressToken'', JNum (Fin 7))])]) ''s2:1:50'' m)) demo_ids) =
     Some (''s2'', JNum (Fin 7), IdNum 1)"
proof -
  let ?params = "JObj () [(''_meta'', JObj () [(''progressToken'', JNum (Fin 7))])]"
  have "map_of demo_ids ''s2'' \<noteq> None" by code_simp
  then obtain m where m: "map_of demo_ids ''s2'' = Some m" by blast
  have "map_option (getProxyRequestId (IdNum 1)) (map_of demo_ids ''s2'') = Some (Some ''s2:1:50'')"
    by code_simp
  with m have p: "getProxyRequestId (IdNum 1) m = Some ''s2:1:50''" by simp
  have token: "progress_token ?params = Some (JNum (Fin 7))" by (simp add: progress_token_def)
  obtain params' m' where rw: "rewriteProgressTokenForDownstream ?params ''s2:1:50'' m = (params', m')"
    by (rule prod.exhaust)
  from progress_routed[OF demo_ids_run inj_id_text_numbers, of "''s2''" m "IdNum 1" "''s2:1:50''"
      ?params "JNum (Fin 7)" params' m'] m p token rw
  have "route_progress (JStr ''s2:1:50'') (AList.update ''s2'' m' demo_ids) =
    Some (''s2'', JNum (Fin 7), IdNum 1)" by blast
  with m rw show ?thesis by simp
qed

text \<open>
  A cancellation reaches the right request. After a request of the client was sent to a
  server, a cancellation of it by the client is forwarded to the connection of that server with
  the identifier that server was given, and to nobody else; once the request has been removed, a
  cancellation is dropped.
\<close>

theorem cancellation_forwarded:
  assumes "gateway_ids U store" "inj_on id_text U" "map_of store sid = Some m"
    and "getProxyRequestId r m = Some p" and "srv \<noteq> []"
  shows "(\<exists>m'. map_of (track_send d (Some p) srv c store) sid = Some m' \<and>
           handleCancelledNotification connection (Some r) m' =
             map_option (\<lambda>c. (c, d, p)) (connection srv)) \<and>
         handleCancelledNotification connection (Some r) (removeMapping p m) = None"
proof
  from assms(4) gateway_entry[OF assms(1-3)] obtain e where e: "map_of (proxyToDownstream m) p = Some e"
    "extractSessionIdFromProxyRequestId p = Some sid" "p \<noteq> []" "me_originalRequestId e = r"
    by (metis getProxyRequestId_def)
  have p: "map_of (clientToProxy m) r = Some p" using assms(4) by (simp add: getProxyRequestId_def)
  show "\<exists>m'. map_of (track_send d (Some p) srv c store) sid = Some m' \<and>
      handleCancelledNotification connection (Some r) m' = map_option (\<lambda>c. (c, d, p)) (connection srv)"
    using e p assms(3,5)
    by (simp add: track_send_def handleCancelledNotification_def registerDownstreamMapping_def
        update_conv' getProxyRequestId_def getMappingEntry_def getDownstreamRequestId_def)
  show "handleCancelledNotification connection (Some r) (removeMapping p m) = None"
    using e by (simp add: handleCancelledNotification_def removeMapping_def getProxyRequestId_def delete_conv')
qed

theorem cancellation_forwarded_witness:
  "\<exists>m'. map_of (track_send (IdNum 9) (Some ''s1:1:50'') ''srv'' 3 demo_ids) ''s1'' = Some m' \<and>
     handleCancelledNotification (\<lambda>_. Some 3) (Some (IdNum 1)) m' = Some (3, IdNum 9, ''s1:1:50'')"
proof -
  have "map_of demo_ids ''s1'' \<noteq> None" by code_simp
  then obtain m where m: "map_of demo_ids ''s1'' = Some m" by blast
  have "map_option (getProxyRequestId (IdNum 1)) (map_of demo_ids ''s1'') = Some (Some ''s1:1:50'')"
    by code_simp
  with m have p: "getProxyRequestId (IdNum 1) m = Some ''s1:1:50''" by simp
  from cancellation_forwarded[OF demo_ids_run inj_id_text_numbers m p, of "''srv''" "IdNum 9" 3 "\<lambda>_. Some 3"]
  show ?thesis by simp
qed

text \<open>
  A number and a string with the same text collide. The protocol has the identifiers
  \<open>1\<close> and \<open>"1"\<close> as two different ones. If a client uses both within one millisecond, both
  get the same proxy identifier: progress on the first request is related to the second one, and
  the end of the second request removes the only entry, so the first can no longer be cancelled.
\<close>

theorem request_id_collision:
  "let m1 = snd (registerClientRequest (IdNum 1) None (Some srv) now now (new_mapper sid));
       m2 = snd (registerClientRequest (IdStr ''1'') None (Some srv) now now m1);
       p = generateProxyRequestId m1 (IdNum 1) now
   in getProxyRequestId (IdNum 1) m2 = Some p \<and> getProxyRequestId (IdStr ''1'') m2 = Some p \<and>
      getOriginalRequestId p m2 = Some (IdStr ''1'') \<and>
      handleCancelledNotification connection (Some (IdNum 1)) (removeMapping p m2) = None"
proof -
  have "id_text (IdNum 1) = ''1''" by code_simp
  then show ?thesis
    by (simp add: registerClientRequest_def new_mapper_def Let_def getProxyRequestId_def
        getOriginalRequestId_def generateProxyRequestId_def handleCancelledNotification_def
        removeMapping_def getMappingEntry_def delete_conv' update_conv')
qed

end
