(* ===== verification/Event_Store.thy ===== *)
theory Event_Store
  imports Json_Text
begin

text \<open>
  Resumable streams: the table of events (\<open>repositories/EventRepository.ts\<close>), the event store of
  a session with its cache (\<open>mcp/core/PersistentEventStore.ts\<close>) and the cleanup service
  (\<open>mcp/core/EventCleanupService.ts\<close>).

  A message sent to a client is stored under an event identifier before it is sent; a client that
  lost its connection names the last event it saw and gets the later messages of that stream
  again. The locale \<open>event_log\<close> says what resumption needs of a log; the table and the store are
  shown to provide it, and what a client is sent on resumption follows in the locale.

  The table is the list of its rows in insertion order together with its sequence. An insert is
  atomic and may fail, because the database is down or a constraint of the schema is violated.
\<close>

section \<open>The table of events\<close>

record event_row =
  ev_id :: nat
  ev_eventId :: string
  ev_streamId :: string
  ev_sessionId :: string
  ev_messageType :: string
  ev_messageData :: string
  ev_createdAt :: int
  ev_expiresAt :: int

record event_db =
  edb_rows :: "event_row list"
  edb_next :: nat

datatype event_error = EventDbError | InvalidEventId string

text \<open>
  The columns have the lengths 255, 255, 255 and 50; event identifiers are unique. A failed insert
  still uses up a number of the sequence. An absent expiry is 24 hours after the insert.
\<close>

definition row_admitted :: "event_row \<Rightarrow> event_db \<Rightarrow> bool" where
  "row_admitted r db \<longleftrightarrow> length (ev_eventId r) \<le> 255 \<and> length (ev_streamId r) \<le> 255 \<and>
     length (ev_sessionId r) \<le> 255 \<and> length (ev_messageType r) \<le> 50 \<and>
     ev_eventId r \<notin> ev_eventId ` set (edb_rows db)"

definition event_create ::
    "bool \<Rightarrow> string \<Rightarrow> string \<Rightarrow> string \<Rightarrow> string \<Rightarrow> string \<Rightarrow> int option \<Rightarrow> int \<Rightarrow> event_db \<Rightarrow>
     event_row option \<times> event_db" where
  "event_create up eventId streamId sessionId messageType messageData expiresAt now db =
     (let row = \<lparr>ev_id = edb_next db, ev_eventId = eventId, ev_streamId = streamId,
            ev_sessionId = sessionId, ev_messageType = messageType, ev_messageData = messageData,
            ev_createdAt = now,
            ev_expiresAt = (case expiresAt of Some x \<Rightarrow> x | None \<Rightarrow> now + 24 * 60 * 60 * 1000)\<rparr>
      in if \<not> up then (None, db)
         else if row_admitted row db
         then (Some row, db\<lparr>edb_rows := edb_rows db @ [row], edb_next := Suc (edb_next db)\<rparr>)
         else (None, db\<lparr>edb_next := Suc (edb_next db)\<rparr>))"

definition findByEventId :: "string \<Rightarrow> event_db \<Rightarrow> event_row option" where
  "findByEventId eventId db = find (\<lambda>r. ev_eventId r = eventId) (edb_rows db)"

definition findByEventIdForSession :: "string \<Rightarrow> string \<Rightarrow> event_db \<Rightarrow> event_row option" where
  "findByEventIdForSession eventId sessionId db =
     find (\<lambda>r. ev_eventId r = eventId \<and> ev_sessionId r = sessionId) (edb_rows db)"

definition findByStreamId :: "string \<Rightarrow> string option \<Rightarrow> event_db \<Rightarrow> event_row list" where
  "findByStreamId streamId afterEventId db =
     (let all = sort_key ev_createdAt (filter (\<lambda>r. ev_streamId r = streamId) (edb_rows db)) in
      case afterEventId of
        None \<Rightarrow> all
      | Some i \<Rightarrow>
          if i = [] then all
          else (case findByEventId i db of
             None \<Rightarrow> all
           | Some afterEvent \<Rightarrow>
               sort_key ev_createdAt (filter (\<lambda>r. ev_streamId r = streamId \<and>
                  ev_createdAt r > ev_createdAt afterEvent) (edb_rows db))))"

definition findByStreamIdForSessionAfterId :: "string \<Rightarrow> string \<Rightarrow> nat \<Rightarrow> event_db \<Rightarrow> event_row list" where
  "findByStreamIdForSessionAfterId sessionId streamId afterId db =
     sort_key ev_id (filter (\<lambda>r. ev_sessionId r = sessionId \<and> ev_streamId r = streamId \<and> ev_id r > afterId)
       (edb_rows db))"

definition findBySessionId :: "string \<Rightarrow> event_db \<Rightarrow> event_row list" where
  "findBySessionId sessionId db =
     sort_key ev_createdAt (filter (\<lambda>r. ev_sessionId r = sessionId) (edb_rows db))"

definition event_deleteWhere :: "(event_row \<Rightarrow> bool) \<Rightarrow> event_db \<Rightarrow> nat \<times> event_db" where
  "event_deleteWhere P db =
     (length (filter P (edb_rows db)), db\<lparr>edb_rows := filter (\<lambda>r. \<not> P r) (edb_rows db)\<rparr>)"

definition deleteByStreamId :: "string \<Rightarrow> event_db \<Rightarrow> nat \<times> event_db" where
  "deleteByStreamId streamId = event_deleteWhere (\<lambda>r. ev_streamId r = streamId)"

definition event_deleteExpired :: "int \<Rightarrow> event_db \<Rightarrow> nat \<times> event_db" where
  "event_deleteExpired now = event_deleteWhere (\<lambda>r. ev_expiresAt r < now)"

definition deleteBefore :: "int \<Rightarrow> event_db \<Rightarrow> nat \<times> event_db" where
  "deleteBefore date = event_deleteWhere (\<lambda>r. ev_createdAt r < date)"

definition event_deleteAll :: "event_db \<Rightarrow> event_db" where
  "event_deleteAll db = snd (event_deleteWhere (\<lambda>_. True) db)"

section \<open>The cache of a session\<close>

record cached_event =
  ce_eventId :: string
  ce_message :: json
  ce_timestamp :: int
  ce_streamId :: string

type_synonym stream_cache = "(string, cached_event) jsmap"
type_synonym event_cache = "(string, stream_cache) jsmap"

definition stream_cacheSize :: nat where
  "stream_cacheSize = 1000"

definition event_maxCacheSize :: nat where
  "event_maxCacheSize = 10000"

definition stream_events :: "event_cache \<Rightarrow> string \<Rightarrow> stream_cache" where
  "stream_events cache streamId = (case map_of cache streamId of Some sc \<Rightarrow> sc | None \<Rightarrow> [])"

definition total_events :: "event_cache \<Rightarrow> nat" where
  "total_events cache = (\<Sum>(s, sc) \<leftarrow> cache. length sc)"

definition drop_cached :: "string \<Rightarrow> string \<Rightarrow> event_cache \<Rightarrow> event_cache" where
  "drop_cached streamId eventId cache =
     (case map_of cache streamId of
        None \<Rightarrow> cache
      | Some sc \<Rightarrow>
          (let sc' = AList.delete eventId sc
           in if sc' = [] then AList.delete streamId cache else AList.update streamId sc' cache))"

definition all_cached :: "event_cache \<Rightarrow> (string \<times> string \<times> int) list" where
  "all_cached cache = concat (map (\<lambda>(s, sc). map (\<lambda>(i, e). (s, i, ce_timestamp e)) sc) cache)"

definition event_enforceTotalCacheLimit :: "event_cache \<Rightarrow> event_cache" where
  "event_enforceTotalCacheLimit cache =
     (if total_events cache > event_maxCacheSize
      then fold (\<lambda>(s, i, _). drop_cached s i)
             (take (total_events cache - event_maxCacheSize) (sort_key (\<lambda>(_, _, t). t) (all_cached cache)))
             cache
      else cache)"

definition storeEventInCache :: "string \<Rightarrow> string \<Rightarrow> json \<Rightarrow> int \<Rightarrow> event_cache \<Rightarrow> event_cache" where
  "storeEventInCache streamId eventId message now cache =
     (let sc = stream_events cache streamId;
          sc1 = (if length sc \<ge> stream_cacheSize
                 then AList.delete (hd (sort (map fst sc))) sc else sc);
          e = \<lparr>ce_eventId = eventId, ce_message = message, ce_timestamp = now, ce_streamId = streamId\<rparr>
      in event_enforceTotalCacheLimit (AList.update streamId (AList.update eventId e sc1) cache))"

definition getEventFromCache :: "string \<Rightarrow> string \<Rightarrow> event_cache \<Rightarrow> cached_event option" where
  "getEventFromCache streamId eventId cache = map_of (stream_events cache streamId) eventId"

text \<open>
  \<open>localeCompare\<close> orders by the collation keys of the locale, which are a parameter.
\<close>

definition getEventsAfterFromCache ::
    "(string \<Rightarrow> string) \<Rightarrow> string \<Rightarrow> string \<Rightarrow> event_cache \<Rightarrow> cached_event list" where
  "getEventsAfterFromCache collation streamId afterEventId cache =
     filter (\<lambda>e. ce_eventId e \<noteq> afterEventId)
       (dropWhile (\<lambda>e. ce_eventId e \<noteq> afterEventId)
         (sort_key (\<lambda>e. collation (ce_eventId e)) (map snd (stream_events cache streamId))))"

definition event_cleanupStream :: "string \<Rightarrow> event_cache \<Rightarrow> event_cache" where
  "event_cleanupStream streamId cache = AList.delete streamId cache"

definition cleanupExpiredCache :: "int \<Rightarrow> event_cache \<Rightarrow> event_cache" where
  "cleanupExpiredCache now cache =
     filter (\<lambda>(s, sc). sc \<noteq> [])
       (map (\<lambda>(s, sc). (s, jsmap_keep (\<lambda>_ e. \<not> ce_timestamp e < now) sc)) cache)"

section \<open>The event store of a session\<close>

definition event_retention_ms :: int where
  "event_retention_ms = 7 * 24 * 60 * 60 * 1000"

definition generateEventId :: "string \<Rightarrow> int \<Rightarrow> string \<Rightarrow> string" where
  "generateEventId streamId timestamp randomStr = streamId @ ''_'' @ int_str timestamp @ ''_'' @ randomStr"

definition message_type :: "json \<Rightarrow> string" where
  "message_type message =
     (case message of
        JObj _ fs \<Rightarrow> (case map_of fs ''method'' of Some (JStr s) \<Rightarrow> if s = [] then ''response'' else s
                       | _ \<Rightarrow> ''response'')
      | _ \<Rightarrow> ''response'')"

text \<open>
  \<open>clock\<close> gives the four readings of the clock, \<open>nstr\<close> prints numbers. The cache is written only
  after the insert has succeeded; a failed insert is an error and changes no cache.
\<close>

definition storeEvent ::
    "(rat \<Rightarrow> string) \<Rightarrow> bool \<Rightarrow> (nat \<Rightarrow> int) \<Rightarrow> string \<Rightarrow> string \<Rightarrow> string \<Rightarrow> json \<Rightarrow> event_db \<times> event_cache \<Rightarrow>
     (event_error + string) \<times> event_db \<times> event_cache" where
  "storeEvent nstr up clock randomStr sessionId streamId message st =
     (let eventId = generateEventId streamId (clock 0) randomStr;
          messageData = (case json_text nstr message of Some t \<Rightarrow> t | None \<Rightarrow> [])
      in case event_create up eventId streamId sessionId (message_type message) messageData
                (Some (clock 1 + event_retention_ms)) (clock 2) (fst st) of
           (None, db) \<Rightarrow> (Inl EventDbError, db, snd st)
         | (Some _, db) \<Rightarrow> (Inr eventId, db, storeEventInCache streamId eventId message (clock 3) (snd st)))"

definition getStreamIdForEventId :: "string \<Rightarrow> string \<Rightarrow> event_db \<Rightarrow> string option" where
  "getStreamIdForEventId eventId sessionId db =
     map_option ev_streamId (findByEventIdForSession eventId sessionId db)"

text \<open>
  The messages \<open>replayEventsAfter\<close> sends, in order, and the stream it returns. \<open>parse\<close> is
  \<open>JSON.parse\<close>; a row that does not parse is skipped, and so is one whose sending fails.
\<close>

definition replayed :: "(string \<Rightarrow> json option) \<Rightarrow> event_row list \<Rightarrow> (string \<times> json) list" where
  "replayed parse rows =
     List.map_filter (\<lambda>r. map_option (\<lambda>v. (ev_eventId r, v)) (parse (ev_messageData r))) rows"

definition replayEventsAfter ::
    "(string \<Rightarrow> json option) \<Rightarrow> string \<Rightarrow> string \<Rightarrow> event_db \<Rightarrow>
     event_error + string \<times> (string \<times> json) list" where
  "replayEventsAfter parse sessionId lastEventId db =
     (case findByEventIdForSession lastEventId sessionId db of
        None \<Rightarrow> Inl (InvalidEventId lastEventId)
      | Some anchorEvent \<Rightarrow>
          Inr (ev_streamId anchorEvent,
               replayed parse (findByStreamIdForSessionAfterId sessionId (ev_streamId anchorEvent)
                 (ev_id anchorEvent) db)))"

section \<open>The cleanup service\<close>

record cleanup_service =
  cs_lastCleanupTime :: "int option"
  cs_totalCleanedEvents :: nat

definition cleanupExpiredEvents :: "int \<Rightarrow> event_db \<times> cleanup_service \<Rightarrow> event_db \<times> cleanup_service" where
  "cleanupExpiredEvents now st =
     (let (n, db) = event_deleteExpired now (fst st)
      in (db, (snd st)\<lparr>cs_totalCleanedEvents := cs_totalCleanedEvents (snd st) + n,
                       cs_lastCleanupTime := Some now\<rparr>))"

definition cleanupEventsBefore :: "int \<Rightarrow> event_db \<times> cleanup_service \<Rightarrow> nat \<times> event_db \<times> cleanup_service" where
  "cleanupEventsBefore date st =
     (let (n, db) = deleteBefore date (fst st)
      in (n, db, (snd st)\<lparr>cs_totalCleanedEvents := cs_totalCleanedEvents (snd st) + n\<rparr>))"

definition cleanupStreamEvents :: "string \<Rightarrow> event_db \<times> cleanup_service \<Rightarrow> nat \<times> event_db \<times> cleanup_service" where
  "cleanupStreamEvents streamId st =
     (let (n, db) = deleteByStreamId streamId (fst st)
      in (n, db, (snd st)\<lparr>cs_totalCleanedEvents := cs_totalCleanedEvents (snd st) + n\<rparr>))"

section \<open>A log that can be resumed\<close>

text \<open>
  What resumption needs of a log: entries are added at its end and are never there twice, and
  the entries after a given one can be read.
\<close>

locale event_log =
  fixes ok :: "'s \<Rightarrow> bool"
    and entries :: "'s \<Rightarrow> 'e list"
    and put :: "'e \<Rightarrow> 's \<Rightarrow> 's"
    and fits :: "'e \<Rightarrow> 's \<Rightarrow> bool"
    and later :: "'e \<Rightarrow> 's \<Rightarrow> 'e list"
    and forget :: "('e \<Rightarrow> bool) \<Rightarrow> 's \<Rightarrow> 's"
  assumes ok_put: "ok s \<Longrightarrow> fits e s \<Longrightarrow> ok (put e s)"
    and ok_forget: "ok s \<Longrightarrow> ok (forget P s)"
    and entries_put: "ok s \<Longrightarrow> fits e s \<Longrightarrow> entries (put e s) = entries s @ [e]"
    and entries_forget: "ok s \<Longrightarrow> entries (forget P s) = filter (\<lambda>e. \<not> P e) (entries s)"
    and later_entries: "ok s \<Longrightarrow> entries s = xs @ e # ys \<Longrightarrow> later e s = ys"
begin

text \<open>What was added after an entry is what is read after it.\<close>

lemma later_put:
  assumes "ok s" "e \<in> set (entries s)" "fits e' s"
  shows "later e (put e' s) = later e s @ [e']"
proof -
  obtain xs ys where xs: "entries s = xs @ e # ys" using assms(2) by (meson split_list)
  then have "entries (put e' s) = xs @ e # (ys @ [e'])" using assms by (simp add: entries_put)
  with xs show ?thesis using later_entries assms ok_put by metis
qed

lemma later_put_self: "ok s \<Longrightarrow> fits e s \<Longrightarrow> later e (put e s) = []"
  using later_entries[OF ok_put, of s e "entries s" e "[]"] by (simp add: entries_put)

lemma later_forget:
  assumes "ok s" "e \<in> set (entries s)" "\<not> P e"
  shows "later e (forget P s) = filter (\<lambda>e. \<not> P e) (later e s)"
proof -
  obtain xs ys where xs: "entries s = xs @ e # ys" using assms(2) by (meson split_list)
  then have "entries (forget P s) = filter (\<lambda>e. \<not> P e) xs @ e # filter (\<lambda>e. \<not> P e) ys"
    using assms by (simp add: entries_forget)
  with xs show ?thesis using later_entries assms ok_forget by metis
qed

end

definition event_db_ok :: "event_db \<Rightarrow> bool" where
  "event_db_ok db \<longleftrightarrow> sorted_wrt (<) (map ev_id (edb_rows db)) \<and>
     (\<forall>r\<in>set (edb_rows db). ev_id r < edb_next db) \<and> distinct (map ev_eventId (edb_rows db))"

definition row_put :: "event_row \<Rightarrow> event_db \<Rightarrow> event_db" where
  "row_put r db = db\<lparr>edb_rows := edb_rows db @ [r], edb_next := Suc (edb_next db)\<rparr>"

definition row_fits :: "event_row \<Rightarrow> event_db \<Rightarrow> bool" where
  "row_fits r db \<longleftrightarrow> ev_id r = edb_next db \<and> row_admitted r db"

definition rows_later :: "event_row \<Rightarrow> event_db \<Rightarrow> event_row list" where
  "rows_later e db = sort_key ev_id (filter (\<lambda>r. ev_id r > ev_id e) (edb_rows db))"

definition rows_forget :: "(event_row \<Rightarrow> bool) \<Rightarrow> event_db \<Rightarrow> event_db" where
  "rows_forget P db = snd (event_deleteWhere P db)"

lemma sorted_wrt_filter_map: "sorted_wrt (<) (map f xs) \<Longrightarrow> sorted_wrt (<) (map f (filter P xs))"
  by (simp add: sorted_wrt_map sorted_wrt_filter)

lemma sort_key_ids: "sorted_wrt (<) (map ev_id rows) \<Longrightarrow> sort_key ev_id (filter P rows) = filter P rows"
proof (rule sort_key_id_if_sorted)
  assume "sorted_wrt (<) (map ev_id rows)"
  then have "sorted_wrt (<) (map ev_id (filter P rows))" by (rule sorted_wrt_filter_map)
  then show "sorted (map ev_id (filter P rows))" by (simp add: strict_sorted_iff)
qed

interpretation events: event_log event_db_ok edb_rows row_put row_fits rows_later rows_forget
proof
  fix db e assume "event_db_ok db" "row_fits e db"
  then show "event_db_ok (row_put e db)"
    by (auto simp: event_db_ok_def row_put_def row_fits_def row_admitted_def sorted_wrt_append less_Suc_eq)
next
  fix db P assume "event_db_ok db"
  then show "event_db_ok (rows_forget P db)"
    by (auto simp: event_db_ok_def rows_forget_def event_deleteWhere_def sorted_wrt_filter_map distinct_map_filter)
next
  fix db xs e ys assume ok: "event_db_ok db" and db: "edb_rows db = xs @ e # ys"
  have "filter (\<lambda>r. ev_id r > ev_id e) (edb_rows db) = ys"
    using ok unfolding event_db_ok_def db
    by (auto simp: sorted_wrt_append filter_empty_conv filter_id_conv)
  moreover have "sorted_wrt (<) (map ev_id (edb_rows db))" using ok by (simp add: event_db_ok_def)
  ultimately show "rows_later e db = ys" unfolding rows_later_def by (metis sort_key_ids)
qed (simp_all add: row_put_def rows_forget_def event_deleteWhere_def)

text \<open>Creating a row adds it to the log or only uses up a number.\<close>

lemma event_create_cases:
  assumes "event_create up i st sid mt md ex now db = (res, db')"
  shows "(\<exists>r. res = Some r \<and> up \<and> row_fits r db \<and> db' = row_put r db \<and> ev_eventId r = i \<and>
            ev_streamId r = st \<and> ev_sessionId r = sid \<and> ev_messageData r = md \<and>
            (ex = Some x \<longrightarrow> ev_expiresAt r = x)) \<or>
         (res = None \<and> edb_rows db' = edb_rows db \<and> edb_next db \<le> edb_next db')"
  using assms by (auto simp: event_create_def Let_def row_put_def row_fits_def split: if_splits)

lemma event_db_ok_skip:
  "event_db_ok db \<Longrightarrow> edb_rows db' = edb_rows db \<Longrightarrow> edb_next db \<le> edb_next db' \<Longrightarrow> event_db_ok db'"
  by (fastforce simp: event_db_ok_def)

lemma later_rows: "edb_rows db' = edb_rows db \<Longrightarrow> rows_later e db' = rows_later e db"
  by (simp add: rows_later_def)

lemma after_is_later:
  assumes "event_db_ok db"
  shows "findByStreamIdForSessionAfterId sid st (ev_id a) db =
    filter (\<lambda>r. ev_sessionId r = sid \<and> ev_streamId r = st) (rows_later a db)"
proof -
  have s: "sorted_wrt (<) (map ev_id (edb_rows db))" using assms by (simp add: event_db_ok_def)
  show ?thesis
    unfolding findByStreamIdForSessionAfterId_def rows_later_def sort_key_ids[OF s] filter_filter
    by (rule filter_cong) auto
qed

lemma find_event:
  assumes "event_db_ok db" "a \<in> set (edb_rows db)" "ev_sessionId a = sid"
  shows "findByEventIdForSession (ev_eventId a) sid db = Some a"
proof -
  obtain xs ys where rows: "edb_rows db = xs @ a # ys" using assms(2) by (meson split_list)
  have "distinct (map ev_eventId (xs @ a # ys))" using assms(1) rows by (simp add: event_db_ok_def)
  then have "ev_eventId a \<notin> ev_eventId ` set xs" by simp
  then have "find (\<lambda>r. ev_eventId r = ev_eventId a \<and> ev_sessionId r = sid) (xs @ a # ys) = Some a"
    using assms(3) by (induction xs) auto
  then show ?thesis by (simp add: findByEventIdForSession_def rows)
qed

lemma replay_from:
  assumes "event_db_ok db" "a \<in> set (edb_rows db)" "ev_sessionId a = sid"
  shows "replayEventsAfter parse sid (ev_eventId a) db = Inr (ev_streamId a, replayed parse
    (filter (\<lambda>r. ev_sessionId r = sid \<and> ev_streamId r = ev_streamId a) (rows_later a db)))"
  by (simp add: replayEventsAfter_def find_event[OF assms] after_is_later[OF assms(1)])

section \<open>Resumption\<close>

definition message_data :: "(rat \<Rightarrow> string) \<Rightarrow> json \<Rightarrow> string" where
  "message_data nstr message = (case json_text nstr message of Some t \<Rightarrow> t | None \<Rightarrow> [])"

lemma storeEvent_cases:
  assumes "storeEvent nstr up clock rnd sid stream msg st = (res, st')"
  shows "(\<exists>r. res = Inr (ev_eventId r) \<and> row_fits r (fst st) \<and> fst st' = row_put r (fst st) \<and>
            ev_streamId r = stream \<and> ev_sessionId r = sid \<and> ev_messageData r = message_data nstr msg \<and>
            ev_expiresAt r = clock 1 + event_retention_ms) \<or>
         (res = Inl EventDbError \<and> edb_rows (fst st') = edb_rows (fst st) \<and>
            edb_next (fst st) \<le> edb_next (fst st') \<and> snd st' = snd st)"
proof -
  let ?c = "event_create up (generateEventId stream (clock 0) rnd) stream sid (message_type msg)
    (message_data nstr msg) (Some (clock 1 + event_retention_ms)) (clock 2) (fst st)"
  obtain o' db' where c: "?c = (o', db')" by (rule prod.exhaust)
  from event_create_cases[OF c, of "clock 1 + event_retention_ms"] show ?thesis
    using assms c by (auto simp: storeEvent_def message_data_def Let_def)
qed

inductive event_reach :: "event_db \<Rightarrow> bool" where
  er_start: "event_reach \<lparr>edb_rows = [], edb_next = 1\<rparr>"
| er_store: "event_reach db \<Longrightarrow> storeEvent nstr up clock rnd sid stream msg (db, cache) = (res, db', cache') \<Longrightarrow>
    event_reach db'"
| er_expired: "event_reach db \<Longrightarrow> event_reach (snd (event_deleteExpired now db))"
| er_before: "event_reach db \<Longrightarrow> event_reach (snd (deleteBefore date db))"
| er_stream: "event_reach db \<Longrightarrow> event_reach (snd (deleteByStreamId stream db))"
| er_all: "event_reach db \<Longrightarrow> event_reach (event_deleteAll db)"

lemma event_delete_forget:
  "snd (event_deleteExpired now db) = rows_forget (\<lambda>r. ev_expiresAt r < now) db"
  "snd (deleteBefore date db) = rows_forget (\<lambda>r. ev_createdAt r < date) db"
  "snd (deleteByStreamId stream db) = rows_forget (\<lambda>r. ev_streamId r = stream) db"
  "event_deleteAll db = rows_forget (\<lambda>_. True) db"
  by (simp_all add: event_deleteExpired_def deleteBefore_def deleteByStreamId_def event_deleteAll_def
      rows_forget_def)

lemma store_ok:
  assumes "storeEvent nstr up clock rnd sid stream msg st = (res, st')" "event_db_ok (fst st)"
  shows "event_db_ok (fst st')"
  using storeEvent_cases[OF assms(1)]
proof (elim disjE exE conjE)
  fix r assume "row_fits r (fst st)" "fst st' = row_put r (fst st)"
  then show ?thesis using events.ok_put assms(2) by simp
next
  assume "edb_rows (fst st') = edb_rows (fst st)" "edb_next (fst st) \<le> edb_next (fst st')"
  then show ?thesis using event_db_ok_skip assms(2) by blast
qed

lemma event_reach_ok: "event_reach db \<Longrightarrow> event_db_ok db"
proof (induction rule: event_reach.induct)
  case er_start
  show ?case by (simp add: event_db_ok_def)
next
  case (er_store db nstr up clock rnd sid stream msg cache res db' cache')
  then show ?case using store_ok by fastforce
qed (simp_all add: event_delete_forget events.ok_forget)

text \<open>Messages that are stored one after the other, by any sessions on any streams.\<close>

record event_job =
  ej_up :: bool
  ej_clock :: "nat \<Rightarrow> int"
  ej_random :: string
  ej_session :: string
  ej_stream :: string
  ej_message :: json

fun store_all ::
    "(rat \<Rightarrow> string) \<Rightarrow> event_job list \<Rightarrow> event_db \<times> event_cache \<Rightarrow>
     (event_error + string) list \<times> event_db \<times> event_cache" where
  "store_all nstr [] st = ([], st)"
| "store_all nstr (j # js) st =
     (let (r, st1) = storeEvent nstr (ej_up j) (ej_clock j) (ej_random j) (ej_session j) (ej_stream j)
                       (ej_message j) st;
          (rs, st2) = store_all nstr js st1
      in (r # rs, st2))"

text \<open>The events of one session and stream that were stored, with the messages they carry.\<close>

fun stored_for :: "string \<Rightarrow> string \<Rightarrow> event_job list \<Rightarrow> (event_error + string) list \<Rightarrow> (string \<times> json) list" where
  "stored_for sid stream (j # js) (Inr i # rs) =
     (if ej_session j = sid \<and> ej_stream j = stream
      then (i, json_reparse (ej_message j)) # stored_for sid stream js rs
      else stored_for sid stream js rs)"
| "stored_for sid stream (j # js) (Inl _ # rs) = stored_for sid stream js rs"
| "stored_for sid stream _ _ = []"

lemma replayed_append: "replayed parse (xs @ ys) = replayed parse xs @ replayed parse ys"
  by (simp add: replayed_def List.map_filter_def)

lemma replayed_in:
  "(i, v) \<in> set (replayed parse rows) \<Longrightarrow> \<exists>r\<in>set rows. ev_eventId r = i \<and> parse (ev_messageData r) = Some v"
  by (auto simp: replayed_def List.map_filter_def)

lemma store_all_later:
  assumes "store_all nstr jobs st = (rs, st')" "event_db_ok (fst st)" "a \<in> set (edb_rows (fst st))"
    and "\<forall>j\<in>set jobs. parse (message_data nstr (ej_message j)) = Some (json_reparse (ej_message j))"
    and "\<forall>j\<in>set jobs. now \<le> ej_clock j 1 + event_retention_ms"
  shows "event_db_ok (fst st') \<and> a \<in> set (edb_rows (fst st')) \<and>
    (\<exists>new. rows_later a (fst st') = rows_later a (fst st) @ new \<and> (\<forall>r\<in>set new. \<not> ev_expiresAt r < now) \<and>
       replayed parse (filter (\<lambda>r. ev_sessionId r = sid \<and> ev_streamId r = stream) new) =
       stored_for sid stream jobs rs)"
  using assms
proof (induction jobs arbitrary: st rs)
  case Nil
  then show ?case by (simp add: replayed_def)
next
  case (Cons j js)
  obtain r1 st1 where s1: "storeEvent nstr (ej_up j) (ej_clock j) (ej_random j) (ej_session j)
      (ej_stream j) (ej_message j) st = (r1, st1)" by (rule prod.exhaust)
  obtain rs1 where s2: "store_all nstr js st1 = (rs1, st')" and rs: "rs = r1 # rs1"
    using Cons.prems(1) s1 by (auto split: prod.splits)
  have ok1: "event_db_ok (fst st1)" using store_ok[OF s1 Cons.prems(2)] .
  note IH = Cons.IH[OF s2 ok1]
  have tl: "\<forall>j\<in>set js. parse (message_data nstr (ej_message j)) = Some (json_reparse (ej_message j))"
    "\<forall>j\<in>set js. now \<le> ej_clock j 1 + event_retention_ms" using Cons.prems(4,5) by simp_all
  from storeEvent_cases[OF s1] show ?case
  proof (elim disjE exE conjE)
    fix r assume r: "r1 = Inr (ev_eventId r)" "row_fits r (fst st)" "fst st1 = row_put r (fst st)"
      "ev_streamId r = ej_stream j" "ev_sessionId r = ej_session j"
      "ev_messageData r = message_data nstr (ej_message j)"
      "ev_expiresAt r = ej_clock j 1 + event_retention_ms"
    have a1: "a \<in> set (edb_rows (fst st1))" using Cons.prems(3) r(3) by (simp add: row_put_def)
    from IH[OF a1 tl] obtain new where new: "event_db_ok (fst st')" "a \<in> set (edb_rows (fst st'))"
      "rows_later a (fst st') = rows_later a (fst st1) @ new" "\<forall>r\<in>set new. \<not> ev_expiresAt r < now"
      "replayed parse (filter (\<lambda>r. ev_sessionId r = sid \<and> ev_streamId r = stream) new) =
       stored_for sid stream js rs1" by blast
    have l1: "rows_later a (fst st1) = rows_later a (fst st) @ [r]"
      using events.later_put[OF Cons.prems(2,3) r(2)] r(3) by simp
    have "replayed parse (filter (\<lambda>r. ev_sessionId r = sid \<and> ev_streamId r = stream) (r # new)) =
      stored_for sid stream (j # js) rs"
      using new(5) r rs Cons.prems(4) by (simp add: replayed_def List.map_filter_def)
    moreover have "\<forall>r\<in>set (r # new). \<not> ev_expiresAt r < now"
      using new(4) r(7) Cons.prems(5) by simp
    moreover have "rows_later a (fst st') = rows_later a (fst st) @ r # new" using new(3) l1 by simp
    ultimately show ?thesis using new(1,2) by blast
  next
    assume f: "r1 = Inl EventDbError" "edb_rows (fst st1) = edb_rows (fst st)"
    then have a1: "a \<in> set (edb_rows (fst st1))" using Cons.prems(3) by simp
    from IH[OF a1 tl] show ?thesis by (simp only: rs f(1) stored_for.simps later_rows[OF f(2)])
  qed
qed

text \<open>
  C15: resumption loses nothing and repeats nothing. In any state of the table, let a message be
  stored for a session, then any further messages be stored by any sessions on any streams (some
  of these inserts may fail), and then the expired events be removed, within seven days. A client
  of that session that resumes after the first event is sent exactly the later messages of its
  session and stream whose insert succeeded, in the order they were stored, as JSON carries them.
\<close>

theorem event_resumption:
  assumes "event_reach db"
    and "storeEvent nstr up clock rnd sid stream msg (db, cache) = (Inr seen, st0)"
    and "store_all nstr jobs st0 = (rs, db1, cache1)"
    and "\<forall>j\<in>set jobs. parse (message_data nstr (ej_message j)) = Some (json_reparse (ej_message j))"
    and "now \<le> clock 1 + event_retention_ms"
    and "\<forall>j\<in>set jobs. now \<le> ej_clock j 1 + event_retention_ms"
  shows "replayEventsAfter parse sid seen (fst (cleanupExpiredEvents now (db1, service))) =
    Inr (stream, stored_for sid stream jobs rs)"
proof -
  have ok: "event_db_ok (fst (db, cache))" using event_reach_ok[OF assms(1)] by simp
  from storeEvent_cases[OF assms(2)] obtain r where r: "seen = ev_eventId r" "row_fits r db"
    "fst st0 = row_put r db" "ev_streamId r = stream" "ev_sessionId r = sid"
    "ev_expiresAt r = clock 1 + event_retention_ms" by auto
  have ok0: "event_db_ok (fst st0)" and r0: "r \<in> set (edb_rows (fst st0))"
    and l0: "rows_later r (fst st0) = []"
    using store_ok[OF assms(2) ok] r events.later_put_self[of db r] ok by (auto simp: row_put_def)
  from store_all_later[OF assms(3) ok0 r0 assms(4,6), of sid stream] l0
  obtain new where new: "event_db_ok db1" "r \<in> set (edb_rows db1)" "rows_later r db1 = new"
    "\<forall>r\<in>set new. \<not> ev_expiresAt r < now"
    "replayed parse (filter (\<lambda>r. ev_sessionId r = sid \<and> ev_streamId r = stream) new) =
     stored_for sid stream jobs rs" by auto
  let ?db = "rows_forget (\<lambda>r. ev_expiresAt r < now) db1"
  have clean: "fst (cleanupExpiredEvents now (db1, service)) = ?db"
    by (simp add: cleanupExpiredEvents_def event_delete_forget[symmetric] split: prod.splits)
  have keep: "\<not> ev_expiresAt r < now" using r(6) assms(5) by simp
  have "rows_later r ?db = filter (\<lambda>r. \<not> ev_expiresAt r < now) new"
    using events.later_forget[OF new(1,2), of "\<lambda>r. ev_expiresAt r < now"] keep new(3) by simp
  also have "\<dots> = new" using new(4) by (simp add: filter_id_conv)
  finally have later: "rows_later r ?db = new" .
  have "r \<in> set (edb_rows ?db)" using new(2) keep by (simp add: rows_forget_def event_deleteWhere_def)
  from replay_from[OF events.ok_forget[OF new(1)] this r(5), of parse] show ?thesis
    using later new(5) r(1,4) clean by simp
qed

definition demo_message :: "nat \<Rightarrow> json" where
  "demo_message n = JObj () [(''jsonrpc'', JStr ''2.0''), (''id'', JStr (nat_str n))]"

definition demo_job :: "string \<Rightarrow> nat \<Rightarrow> event_job" where
  "demo_job sid n = \<lparr>ej_up = True, ej_clock = (\<lambda>_. 100), ej_random = nat_str n, ej_session = sid,
     ej_stream = ''st'', ej_message = demo_message n\<rparr>"

definition demo_parse :: "string \<Rightarrow> json option" where
  "demo_parse t = find (\<lambda>m. message_data (\<lambda>_. ''0'') m = t) (map demo_message [2, 3])"

theorem event_resumption_witness:
  "\<exists>st0 rs db1 cache1.
     storeEvent (\<lambda>_. ''0'') True (\<lambda>_. 50) ''1'' ''s1'' ''st'' (demo_message 1)
       (\<lparr>edb_rows = [], edb_next = 1\<rparr>, []) = (Inr ''st_50_1'', st0) \<and>
     store_all (\<lambda>_. ''0'') [demo_job ''s1'' 2, demo_job ''s2'' 3] st0 = (rs, db1, cache1) \<and>
     replayEventsAfter demo_parse ''s1'' ''st_50_1''
       (fst (cleanupExpiredEvents 200 (db1, \<lparr>cs_lastCleanupTime = None, cs_totalCleanedEvents = 0\<rparr>))) =
     Inr (''st'', [(''st_100_2'', demo_message 2)])"
proof -
  let ?n = "\<lambda>_ :: rat. ''0''"
  let ?jobs = "[demo_job ''s1'' 2, demo_job ''s2'' 3]"
  obtain r st0 where s: "storeEvent ?n True (\<lambda>_. 50) ''1'' ''s1'' ''st'' (demo_message 1)
    (\<lparr>edb_rows = [], edb_next = 1\<rparr>, []) = (r, st0)" by (rule prod.exhaust)
  have "fst (storeEvent ?n True (\<lambda>_. 50) ''1'' ''s1'' ''st'' (demo_message 1)
    (\<lparr>edb_rows = [], edb_next = 1\<rparr>, [])) = Inr ''st_50_1''" by code_simp
  with s have r: "r = Inr ''st_50_1''" by simp
  obtain rs db1 cache1 where a: "store_all ?n ?jobs st0 = (rs, db1, cache1)" by (metis prod.exhaust)
  have "stored_for ''s1'' ''st'' ?jobs (fst (store_all ?n ?jobs (snd (storeEvent ?n True (\<lambda>_. 50) ''1'' ''s1''
    ''st'' (demo_message 1) (\<lparr>edb_rows = [], edb_next = 1\<rparr>, []))))) = [(''st_100_2'', demo_message 2)]"
    by code_simp
  then have f: "stored_for ''s1'' ''st'' ?jobs rs = [(''st_100_2'', demo_message 2)]" using s a by simp
  have p: "\<forall>j\<in>set ?jobs. demo_parse (message_data ?n (ej_message j)) = Some (json_reparse (ej_message j))"
    by code_simp
  have now: "200 \<le> (50 :: int) + event_retention_ms" "\<forall>j\<in>set ?jobs. 200 \<le> ej_clock j 1 + event_retention_ms"
    by (simp_all add: event_retention_ms_def demo_job_def)
  from event_resumption[OF er_start s[unfolded r] a p now] f s r a show ?thesis by auto
qed

text \<open>
  C35: nobody resumes a stream of somebody else. Resuming after an event that is not an event of
  the session is an error and sends nothing; otherwise everything that is sent was stored for
  that session, on the stream of the event it resumes after, and later than that event.
\<close>

theorem event_replay_private:
  assumes "event_reach db"
  shows "case replayEventsAfter parse sid seen db of
      Inl e \<Rightarrow> e = InvalidEventId seen \<and>
        (\<forall>r\<in>set (edb_rows db). ev_eventId r = seen \<longrightarrow> ev_sessionId r \<noteq> sid)
    | Inr (stream, sent) \<Rightarrow>
        \<exists>a\<in>set (edb_rows db). ev_eventId a = seen \<and> ev_sessionId a = sid \<and> ev_streamId a = stream \<and>
          (\<forall>(i, v)\<in>set sent. \<exists>r\<in>set (edb_rows db). ev_eventId r = i \<and> parse (ev_messageData r) = Some v \<and>
             ev_sessionId r = sid \<and> ev_streamId r = stream \<and> ev_id a < ev_id r)"
proof (cases "findByEventIdForSession seen sid db")
  case None
  then have "replayEventsAfter parse sid seen db = Inl (InvalidEventId seen)"
    by (simp add: replayEventsAfter_def)
  moreover have "\<forall>r\<in>set (edb_rows db). ev_eventId r = seen \<longrightarrow> ev_sessionId r \<noteq> sid"
    using None by (auto simp: findByEventIdForSession_def find_None_iff)
  ultimately show ?thesis by simp
next
  case (Some a)
  then have "a \<in> set (edb_rows db)" "ev_eventId a = seen" "ev_sessionId a = sid"
    by (auto simp: findByEventIdForSession_def find_Some_iff)
  moreover from this have "replayEventsAfter parse sid seen db = Inr (ev_streamId a, replayed parse
      (filter (\<lambda>r. ev_sessionId r = sid \<and> ev_streamId r = ev_streamId a) (rows_later a db)))"
    using replay_from[OF event_reach_ok[OF assms]] by blast
  moreover have "\<exists>r\<in>set (edb_rows db). ev_eventId r = i \<and> parse (ev_messageData r) = Some v \<and>
      ev_sessionId r = sid \<and> ev_streamId r = ev_streamId a \<and> ev_id a < ev_id r"
    if "(i, v) \<in> set (replayed parse
      (filter (\<lambda>r. ev_sessionId r = sid \<and> ev_streamId r = ev_streamId a) (rows_later a db)))" for i v
    using replayed_in[OF that] by (auto simp: rows_later_def)
  ultimately show ?thesis by (auto simp only: sum.case prod.case)
qed

theorem event_replay_private_witness:
  "\<exists>db. event_reach db \<and> edb_rows db \<noteq> [] \<and>
     (case replayEventsAfter demo_parse ''s2'' ''st_50_1'' db of
        Inl e \<Rightarrow> e = InvalidEventId ''st_50_1'' | Inr _ \<Rightarrow> False)"
proof -
  obtain r db cache where s: "storeEvent (\<lambda>_. ''0'') True (\<lambda>_. 50) ''1'' ''s1'' ''st'' (demo_message 1)
    (\<lparr>edb_rows = [], edb_next = 1\<rparr>, []) = (r, db, cache)" by (metis prod.exhaust)
  have reach: "event_reach db" by (rule er_store[OF er_start s])
  have "map ev_sessionId (edb_rows (fst (snd (storeEvent (\<lambda>_. ''0'') True (\<lambda>_. 50) ''1'' ''s1'' ''st''
    (demo_message 1) (\<lparr>edb_rows = [], edb_next = 1\<rparr>, []))))) = [''s1'']" by code_simp
  then have "map ev_sessionId (edb_rows db) = [''s1'']" using s by simp
  then have rows: "edb_rows db \<noteq> []" "\<forall>r\<in>set (edb_rows db). ev_sessionId r \<noteq> ''s2''" by auto
  from event_replay_private[OF reach, where parse = demo_parse and sid = "''s2''" and seen = "''st_50_1''"] rows
  have "case replayEventsAfter demo_parse ''s2'' ''st_50_1'' db of
      Inl e \<Rightarrow> e = InvalidEventId ''st_50_1'' | Inr _ \<Rightarrow> False"
    by (auto split: sum.splits)
  with reach rows show ?thesis by blast
qed

section \<open>The cache stays within its limits\<close>

lemma total_update:
  "jsmap_ok m \<Longrightarrow> total_events (AList.update s sc m) + length (stream_events m s) = total_events m + length sc"
proof (induction m)
  case Nil
  show ?case by (simp add: total_events_def stream_events_def)
next
  case (Cons p m)
  obtain k v where p: "p = (k, v)" by (rule prod.exhaust)
  from Cons.prems p have ok: "jsmap_ok m" by (simp add: jsmap_ok_def)
  show ?case using Cons.IH[OF ok] p by (auto simp: total_events_def stream_events_def)
qed

lemma total_delete: "jsmap_ok m \<Longrightarrow> total_events (AList.delete s m) + length (stream_events m s) = total_events m"
proof (induction m)
  case Nil
  show ?case by (simp add: total_events_def stream_events_def)
next
  case (Cons p m)
  obtain k v where p: "p = (k, v)" by (rule prod.exhaust)
  from Cons.prems p have ok: "jsmap_ok m" and k: "k \<notin> fst ` set m" by (auto simp: jsmap_ok_def)
  show ?case using Cons.IH[OF ok] p k by (auto simp: total_events_def stream_events_def AList.delete_id)
qed

definition event_cache_ok :: "event_cache \<Rightarrow> bool" where
  "event_cache_ok cache \<longleftrightarrow> jsmap_ok cache \<and>
     (\<forall>(s, sc)\<in>set cache. jsmap_ok sc \<and> length sc \<le> stream_cacheSize)"

lemma stream_events_ok:
  "event_cache_ok cache \<Longrightarrow> jsmap_ok (stream_events cache s) \<and> length (stream_events cache s) \<le> stream_cacheSize"
  by (auto simp: event_cache_ok_def stream_events_def split: option.splits dest: map_of_SomeD)

lemma event_cache_ok_update:
  "event_cache_ok cache \<Longrightarrow> jsmap_ok sc \<Longrightarrow> length sc \<le> stream_cacheSize \<Longrightarrow>
   event_cache_ok (AList.update s sc cache)"
  by (auto simp: event_cache_ok_def jsmap.ok_put dest!: set_update_subset)

lemma event_cache_ok_delete: "event_cache_ok cache \<Longrightarrow> event_cache_ok (AList.delete s cache)"
  by (simp add: event_cache_ok_def jsmap.ok_del) (auto simp: AList.delete_eq)

lemma drop_cached_ok:
  assumes "event_cache_ok cache"
  shows "event_cache_ok (drop_cached s i cache)" "total_events (drop_cached s i cache) \<le> total_events cache"
    "map_of (stream_events cache s) i \<noteq> None \<Longrightarrow> total_events (drop_cached s i cache) < total_events cache"
proof -
  let ?sc = "stream_events cache s"
  have ok: "jsmap_ok cache" using assms by (simp add: event_cache_ok_def)
  have sc: "jsmap_ok ?sc" "length ?sc \<le> stream_cacheSize" using stream_events_ok[OF assms] by auto
  have le: "length (AList.delete i ?sc) \<le> length ?sc" by (simp add: AList.length_delete_le)
  have d: "drop_cached s i cache = (if map_of cache s = None then cache
      else if AList.delete i ?sc = [] then AList.delete s cache
      else AList.update s (AList.delete i ?sc) cache)"
    by (auto simp: drop_cached_def stream_events_def Let_def)
  show "event_cache_ok (drop_cached s i cache)"
    unfolding d using assms sc le
    by (auto intro!: event_cache_ok_update event_cache_ok_delete jsmap.ok_del)
  show "total_events (drop_cached s i cache) \<le> total_events cache"
    unfolding d using total_update[OF ok, of s "AList.delete i ?sc"] total_delete[OF ok, of s] le by auto
  assume i: "map_of ?sc i \<noteq> None"
  then have lt: "length (AList.delete i ?sc) < length ?sc" by (rule length_delete_less)
  have "map_of cache s \<noteq> None" using i by (auto simp: stream_events_def split: option.splits)
  with lt show "total_events (drop_cached s i cache) < total_events cache"
    unfolding d using total_update[OF ok, of s "AList.delete i ?sc"] total_delete[OF ok, of s]
    by (auto simp: stream_events_def)
qed

lemma all_cached_in:
  assumes "event_cache_ok cache" "(s, i, t) \<in> set (all_cached cache)"
  shows "map_of (stream_events cache s) i \<noteq> None"
proof -
  from assms(2) obtain sc e where sc: "(s, sc) \<in> set cache" "(i, e) \<in> set sc"
    by (auto simp: all_cached_def)
  then have "map_of cache s = Some sc" using assms(1) by (simp add: event_cache_ok_def jsmap_ok_def)
  moreover have "i \<in> fst ` set sc" using sc(2) by (rule image_eqI[rotated]) simp
  ultimately show ?thesis by (simp add: stream_events_def map_of_eq_None_iff)
qed

lemma length_all_cached: "length (all_cached cache) = total_events cache"
  by (induction cache) (auto simp: all_cached_def total_events_def)

text \<open>One event too many: exactly one is dropped.\<close>

lemma enforce_limit:
  assumes "event_cache_ok cache" "total_events cache \<le> Suc event_maxCacheSize"
  shows "event_cache_ok (event_enforceTotalCacheLimit cache) \<and>
    total_events (event_enforceTotalCacheLimit cache) \<le> event_maxCacheSize"
proof (cases "total_events cache > event_maxCacheSize")
  case False
  then show ?thesis using assms by (simp add: event_enforceTotalCacheLimit_def)
next
  case True
  let ?sorted = "sort_key (\<lambda>(_, _, t). t) (all_cached cache)"
  from True assms(2) have one: "total_events cache - event_maxCacheSize = 1" by simp
  have "length ?sorted \<noteq> 0" using True length_all_cached[of cache] by simp
  then obtain s i t where hd: "take 1 ?sorted = [(s, i, t)]" "(s, i, t) \<in> set ?sorted"
    by (cases ?sorted) auto
  from all_cached_in[OF assms(1)] hd(2) have "map_of (stream_events cache s) i \<noteq> None" by simp
  note drop = drop_cached_ok(1)[OF assms(1)] drop_cached_ok(3)[OF assms(1) this]
  have "event_enforceTotalCacheLimit cache = drop_cached s i cache"
    using True one hd(1) by (simp add: event_enforceTotalCacheLimit_def)
  with drop assms(2) show ?thesis by auto
qed

lemma store_cached_ok:
  assumes "event_cache_ok cache" "total_events cache \<le> event_maxCacheSize"
  shows "event_cache_ok (storeEventInCache s i v now cache) \<and>
    total_events (storeEventInCache s i v now cache) \<le> event_maxCacheSize"
proof -
  let ?sc = "stream_events cache s"
  let ?e = "\<lparr>ce_eventId = i, ce_message = v, ce_timestamp = now, ce_streamId = s\<rparr>"
  define sc1 where "sc1 = (if length ?sc \<ge> stream_cacheSize then AList.delete (hd (sort (map fst ?sc))) ?sc else ?sc)"
  have sc: "jsmap_ok ?sc" "length ?sc \<le> stream_cacheSize" using stream_events_ok[OF assms(1)] by auto
  have "map_of ?sc (hd (sort (map fst ?sc))) \<noteq> None" if "length ?sc \<ge> stream_cacheSize"
  proof -
    from that have "sort (map fst ?sc) \<noteq> []" by (auto simp: stream_cacheSize_def dest: arg_cong[of _ _ length])
    then have "hd (sort (map fst ?sc)) \<in> set (map fst ?sc)" using hd_in_set by fastforce
    then show ?thesis by (auto simp: map_of_eq_None_iff)
  qed
  then have sc1: "jsmap_ok sc1" "length sc1 < stream_cacheSize" "length sc1 \<le> length ?sc"
    using sc length_delete_less[of ?sc] AList.length_delete_le[of _ ?sc]
    by (auto simp: sc1_def jsmap.ok_del intro: order_less_le_trans)
  have len: "length (AList.update i ?e sc1) \<le> Suc (length sc1)" by (simp add: length_update)
  have ok: "event_cache_ok (AList.update s (AList.update i ?e sc1) cache)"
    using event_cache_ok_update[OF assms(1)] sc1 len by (simp add: jsmap.ok_put)
  have "total_events (AList.update s (AList.update i ?e sc1) cache) \<le> Suc event_maxCacheSize"
    using total_update[of cache s "AList.update i ?e sc1"] assms len sc1(3) by (simp add: event_cache_ok_def)
  from enforce_limit[OF ok this] show ?thesis by (simp add: storeEventInCache_def Let_def sc1_def)
qed

inductive event_cache_reach :: "event_cache \<Rightarrow> bool" where
  ec_start: "event_cache_reach []"
| ec_store: "event_cache_reach cache \<Longrightarrow> event_cache_reach (storeEventInCache s i v now cache)"
| ec_stream: "event_cache_reach cache \<Longrightarrow> event_cache_reach (event_cleanupStream s cache)"
| ec_expired: "event_cache_reach cache \<Longrightarrow> event_cache_reach (cleanupExpiredCache now cache)"

lemma cleanup_total: "total_events (cleanupExpiredCache now cache) \<le> total_events cache"
proof (induction cache)
  case (Cons p cache)
  obtain s sc where p: "p = (s, sc)" by (rule prod.exhaust)
  have "length (jsmap_keep (\<lambda>_ e. \<not> ce_timestamp e < now) sc) \<le> length sc" by (simp add: jsmap_keep_def)
  with Cons p show ?case by (auto simp: total_events_def cleanupExpiredCache_def)
qed (simp add: total_events_def cleanupExpiredCache_def)

lemma cleanup_cache_ok:
  assumes "event_cache_ok cache"
  shows "event_cache_ok (cleanupExpiredCache now cache)"
proof -
  let ?keep = "jsmap_keep (\<lambda>_ e. \<not> ce_timestamp e < now)"
  have "map fst (map (\<lambda>(s, sc). (s, ?keep sc)) cache) = map fst cache" by auto
  then have "distinct (map fst (map (\<lambda>(s, sc). (s, ?keep sc)) cache))"
    using assms by (simp only: event_cache_ok_def jsmap_ok_def)
  then have "jsmap_ok (cleanupExpiredCache now cache)"
    unfolding cleanupExpiredCache_def jsmap_ok_def by (rule distinct_map_filter)
  moreover have "jsmap_ok sc \<and> length sc \<le> stream_cacheSize" if "(s, sc) \<in> set (cleanupExpiredCache now cache)" for s sc
  proof -
    from that obtain sc0 where sc0: "(s, sc0) \<in> set cache" "sc = ?keep sc0"
      by (auto simp: cleanupExpiredCache_def)
    with assms have "jsmap_ok sc0" "length sc0 \<le> stream_cacheSize" by (auto simp: event_cache_ok_def)
    moreover have "length sc \<le> length sc0" by (simp add: sc0(2) jsmap_keep_def)
    ultimately show ?thesis using sc0(2) by simp
  qed
  ultimately show ?thesis by (auto simp: event_cache_ok_def)
qed

text \<open>
  The event cache of a session is bounded. Whatever is stored and cleaned up, it never holds
  more than 1000 events of one stream nor more than 10000 events in all.
\<close>

theorem event_cache_bounded:
  assumes "event_cache_reach cache"
  shows "total_events cache \<le> 10000 \<and> length (stream_events cache s) \<le> 1000"
proof -
  from assms have "event_cache_ok cache \<and> total_events cache \<le> event_maxCacheSize"
  proof (induction rule: event_cache_reach.induct)
    case ec_start
    show ?case by (simp add: event_cache_ok_def total_events_def)
  next
    case (ec_store cache s i v now)
    then show ?case using store_cached_ok by blast
  next
    case (ec_stream cache s)
    then have "event_cache_ok (AList.delete s cache)" "jsmap_ok cache"
      by (simp_all add: event_cache_ok_delete) (simp add: event_cache_ok_def)
    with ec_stream.IH total_delete[of cache s] show ?case by (simp add: event_cleanupStream_def)
  next
    case (ec_expired cache now)
    then show ?case using cleanup_cache_ok[of cache now] cleanup_total[of now cache] by simp
  qed
  then show ?thesis using stream_events_ok[of cache s] by (simp add: event_maxCacheSize_def stream_cacheSize_def)
qed

theorem event_cache_bounded_witness:
  "total_events (storeEventInCache ''st'' ''e'' JNull 5 []) \<le> 10000 \<and>
   length (stream_events (storeEventInCache ''st'' ''e'' JNull 5 []) ''st'') \<le> 1000"
  by (rule event_cache_bounded[OF ec_store[OF ec_start]])

text \<open>
  The cleanup of the cache compares the time an event was stored with the present, not with an
  expiry: it empties the cache of everything older than the current millisecond.
\<close>

lemma cleanup_empties_cache:
  assumes "\<forall>(s, sc)\<in>set cache. \<forall>(i, e)\<in>set sc. ce_timestamp e < now"
  shows "cleanupExpiredCache now cache = []"
proof -
  have "jsmap_keep (\<lambda>_ e. \<not> ce_timestamp e < now) sc = []" if "(s, sc) \<in> set cache" for s sc
    using assms that by (fastforce simp: jsmap_keep_def filter_empty_conv)
  then show ?thesis by (auto simp: cleanupExpiredCache_def filter_empty_conv)
qed

end
