(* ===== verification/Access_Control.thy ===== *)
theory Access_Control
  imports Policy_Engine Cache_Policy
begin

text \<open>
  Who may use what: the registry of downstream servers (\<open>mcp/core/ServerManager.ts\<close>,
  \<open>mcp/core/ServerContext.ts\<close>), the permission checks, listings and names of a client session
  (\<open>mcp/core/ClientSession.ts\<close>).

  A managed server has one context for everybody; a server that takes user input is a template
  of which every user has a temporary context of their own. Clients see the tools, resources and
  prompts of all servers under names that carry the number of the server context.

  A lookup in an absent table of capabilities throws a \<open>TypeError\<close>; the checks return \<open>None\<close> then.
\<close>

section \<open>Data\<close>

datatype server_status = Online | Offline | Connecting | ErrorStatus | Sleeping

record cap_config =
  cx_enabled :: "bool option"
  cx_dangerLevel :: "danger_level option"
  cx_cache :: "capability_policy option"

type_synonym cap_table = "(string, cap_config) jsmap"

text \<open>
  The capability tables of a server: its own configuration, or what an administrator or a user
  sets for it. A table may be missing in a record that was written by hand.
\<close>

record capability_tables =
  ct_tools :: "cap_table option"
  ct_resources :: "cap_table option"
  ct_prompts :: "cap_table option"

record server_perms = capability_tables +
  sp_enabled :: "bool option"

type_synonym permissions = "(string, server_perms) jsmap"

datatype capability_type = ToolCap | ResourceCap | PromptCap

definition cap_table :: "capability_type \<Rightarrow> 'z capability_tables_scheme \<Rightarrow> cap_table option" where
  "cap_table t c = (case t of ToolCap \<Rightarrow> ct_tools c | ResourceCap \<Rightarrow> ct_resources c | PromptCap \<Rightarrow> ct_prompts c)"

record server_entity =
  se_serverId :: string
  se_serverName :: string
  se_enabled :: bool
  se_allowUserInput :: bool
  se_publicAccess :: bool
  se_anonymousAccess :: bool
  se_lazyStartEnabled :: bool
  se_transportType :: string
  se_launchConfig :: string

record tool =
  tl_name :: string
  tl_readOnlyHint :: bool
  tl_destructiveHint :: bool
  tl_meta :: "unit fields option"

record resource =
  rs_name :: string
  rs_uri :: string

record prompt =
  pm_name :: string

record server_context =
  sx_id :: string
  sx_serverID :: string
  sx_entity :: server_entity
  sx_status :: server_status
  sx_config :: capability_tables
  sx_tools :: "tool list option"
  sx_cachedTools :: "tool list option"
  sx_resources :: "resource list option"
  sx_cachedResources :: "resource list option"
  sx_templates :: "resource list option"
  sx_cachedTemplates :: "resource list option"
  sx_prompts :: "prompt list option"
  sx_cachedPrompts :: "prompt list option"
  sx_userId :: "string option"
  sx_userToken :: "string option"
  sx_connection :: "nat option"
  sx_lastActive :: int
  sx_timeoutCount :: nat
  sx_lastError :: "string option"
  sx_exactPolicies :: "(string \<times> override_policy) list"
  sx_patternPolicies :: "(string \<times> override_policy) list"

text \<open>The configuration of a server as the resolver of cache policies reads it.\<close>

definition config_capabilities :: "server_context \<Rightarrow> capabilities" where
  "config_capabilities c =
     (let table = (\<lambda>t. case t of Some xs \<Rightarrow> xs | None \<Rightarrow> []) in
      \<lparr>cap_tools = map (\<lambda>(n, cc). (n, \<lparr>tc_dangerLevel = cx_dangerLevel cc, tc_cache = cx_cache cc\<rparr>))
         (table (ct_tools (sx_config c))),
       cap_resources = map (\<lambda>(n, cc). (n, cx_cache cc)) (table (ct_resources (sx_config c))),
       cap_prompts = map (\<lambda>(n, cc). (n, cx_cache cc)) (table (ct_prompts (sx_config c))),
       cap_exact = sx_exactPolicies c, cap_patterns = sx_patternPolicies c\<rparr>)"

section \<open>The registry of servers\<close>

text \<open>
  \<open>sm_nextId\<close> is the static counter of \<open>ServerContext\<close>. Temporary servers are kept under
  \<open>serverId:userId\<close>.
\<close>

record server_registry =
  serverContexts :: "(string, server_context) jsmap"
  temporaryServers :: "(string, server_context) jsmap"
  sm_nextId :: nat

definition internalKey :: "string \<Rightarrow> string \<Rightarrow> string" where
  "internalKey serverId userId = serverId @ '':'' @ userId"

text \<open>
  The constructor, with the configuration and the cached listings that the database row holds
  (\<open>row\<close>), already parsed.
\<close>

definition new_context :: "server_context \<Rightarrow> server_entity \<Rightarrow> int \<Rightarrow> nat \<Rightarrow> server_context" where
  "new_context row e now n =
     row\<lparr>sx_id := nat_str n, sx_serverID := se_serverId e, sx_entity := e, sx_status := Offline,
         sx_tools := None, sx_resources := None, sx_templates := None, sx_prompts := None,
         sx_userId := None, sx_userToken := None, sx_connection := None, sx_lastActive := now,
         sx_timeoutCount := 0, sx_lastError := None\<rparr>"

definition initial_status :: "server_status option \<Rightarrow> server_context \<Rightarrow> server_context" where
  "initial_status status c =
     (case status of
        None \<Rightarrow> c
      | Some s \<Rightarrow> if sx_connection c = None then c\<lparr>sx_status := s\<rparr> else c)"

definition initializeManagedServerContext ::
    "server_context \<Rightarrow> server_entity \<Rightarrow> server_status option \<Rightarrow> int \<Rightarrow> server_registry \<Rightarrow>
     server_context \<times> server_registry" where
  "initializeManagedServerContext row e status now sm =
     (case map_of (serverContexts sm) (se_serverId e) of
        None \<Rightarrow>
          (let c = initial_status status (new_context row e now (sm_nextId sm))
           in (c, sm\<lparr>serverContexts := AList.update (se_serverId e) c (serverContexts sm),
                     sm_nextId := Suc (sm_nextId sm)\<rparr>))
      | Some c0 \<Rightarrow>
          (let c = initial_status status (c0\<lparr>sx_entity := e\<rparr>)
           in (c, sm\<lparr>serverContexts := AList.update (se_serverId e) c (serverContexts sm)\<rparr>)))"

definition own_by :: "string \<Rightarrow> string option \<Rightarrow> server_context \<Rightarrow> server_context" where
  "own_by userId token c =
     (let c' = c\<lparr>sx_userId := Some userId\<rparr>
      in case token of None \<Rightarrow> c' | Some t \<Rightarrow> if t = [] then c' else c'\<lparr>sx_userToken := Some t\<rparr>)"

definition initializeTemporaryServerContext ::
    "server_context \<Rightarrow> server_entity \<Rightarrow> string \<Rightarrow> string option \<Rightarrow> server_status option \<Rightarrow> int \<Rightarrow>
     server_registry \<Rightarrow> server_context \<times> server_registry" where
  "initializeTemporaryServerContext row e userId token status now sm =
     (let key = internalKey (se_serverId e) userId in
      case map_of (temporaryServers sm) key of
        None \<Rightarrow>
          (let c = initial_status status (own_by userId token (new_context row e now (sm_nextId sm)))
           in (c, sm\<lparr>temporaryServers := AList.update key c (temporaryServers sm),
                     sm_nextId := Suc (sm_nextId sm)\<rparr>))
      | Some c0 \<Rightarrow>
          (let c = initial_status status (own_by userId token (c0\<lparr>sx_entity := e\<rparr>))
           in (c, sm\<lparr>temporaryServers := AList.update key c (temporaryServers sm)\<rparr>)))"

definition getTemporaryServer :: "string \<Rightarrow> string \<Rightarrow> server_registry \<Rightarrow> server_context option" where
  "getTemporaryServer serverId userId sm = map_of (temporaryServers sm) (internalKey serverId userId)"

definition getServerContext :: "string \<Rightarrow> string option \<Rightarrow> server_registry \<Rightarrow> server_context option" where
  "getServerContext serverID userId sm =
     (case map_of (serverContexts sm) serverID of
        Some c \<Rightarrow> Some c
      | None \<Rightarrow>
          (case userId of
             Some u \<Rightarrow> if u = [] then None else getTemporaryServer serverID u sm
           | None \<Rightarrow> None))"

definition getServerContextByID :: "string \<Rightarrow> server_registry \<Rightarrow> server_context option" where
  "getServerContextByID i sm = find (\<lambda>c. sx_id c = i) (map snd (serverContexts sm))"

definition getTemporaryServerContextByID :: "string \<Rightarrow> string \<Rightarrow> server_registry \<Rightarrow> server_context option" where
  "getTemporaryServerContextByID i userId sm =
     find (\<lambda>c. sx_id c = i \<and> sx_userId c = Some userId) (map snd (temporaryServers sm))"

definition is_available :: "server_context \<Rightarrow> bool" where
  "is_available c \<longleftrightarrow> sx_status c = Online \<or> sx_status c = Sleeping"

definition getAvailableServersFromServerContexts :: "server_registry \<Rightarrow> server_context list" where
  "getAvailableServersFromServerContexts sm = filter is_available (map snd (serverContexts sm))"

definition getAvailableServersFromTemporaryServers :: "server_registry \<Rightarrow> server_context list" where
  "getAvailableServersFromTemporaryServers sm = filter is_available (map snd (temporaryServers sm))"

definition sm_getAvailableServers :: "server_registry \<Rightarrow> server_context list" where
  "sm_getAvailableServers sm =
     getAvailableServersFromServerContexts sm @ getAvailableServersFromTemporaryServers sm"

definition getTemporaryServers :: "string \<Rightarrow> server_registry \<Rightarrow> server_context list" where
  "getTemporaryServers serverId sm =
     filter (\<lambda>c. se_serverId (sx_entity c) = serverId) (map snd (temporaryServers sm))"

text \<open>
  Removal of contexts. Their connections are closed first, which the contexts do not outlive.
\<close>

definition removeServer :: "string \<Rightarrow> server_registry \<Rightarrow> server_context option \<times> server_registry" where
  "removeServer serverID sm =
     (map_of (serverContexts sm) serverID,
      sm\<lparr>serverContexts := AList.delete serverID (serverContexts sm)\<rparr>)"

definition closeTemporaryServer ::
    "string \<Rightarrow> string \<Rightarrow> server_registry \<Rightarrow> server_context option \<times> server_registry" where
  "closeTemporaryServer serverId userId sm =
     (map_of (temporaryServers sm) (internalKey serverId userId),
      sm\<lparr>temporaryServers := AList.delete (internalKey serverId userId) (temporaryServers sm)\<rparr>)"

definition closeUserTemporaryServers :: "string \<Rightarrow> server_registry \<Rightarrow> server_registry" where
  "closeUserTemporaryServers userId sm =
     sm\<lparr>temporaryServers := jsmap_keep (\<lambda>k _. \<not> js_endsWith k ('':'' @ userId)) (temporaryServers sm)\<rparr>"

definition closeAllTemporaryServersByTemplate :: "string \<Rightarrow> server_registry \<Rightarrow> server_registry" where
  "closeAllTemporaryServersByTemplate serverId sm =
     sm\<lparr>temporaryServers := jsmap_keep (\<lambda>k _. \<not> js_startsWith k (serverId @ '':'')) (temporaryServers sm)\<rparr>"

definition sm_shutdown :: "server_registry \<Rightarrow> server_registry" where
  "sm_shutdown sm = sm\<lparr>serverContexts := [], temporaryServers := []\<rparr>"

text \<open>Lazy start and idle servers; \<open>lazy\<close> is the switch \<open>LAZY_START_ENABLED\<close> of the environment.\<close>

definition isLazyStartApplicable :: "bool \<Rightarrow> server_entity \<Rightarrow> bool" where
  "isLazyStartApplicable lazy e \<longleftrightarrow> lazy \<and> se_lazyStartEnabled e"

definition addSleepingServer ::
    "bool \<Rightarrow> server_context \<Rightarrow> server_entity \<Rightarrow> int \<Rightarrow> server_registry \<Rightarrow> server_context option \<times> server_registry" where
  "addSleepingServer lazy row e now sm =
     (if se_allowUserInput e then (None, sm)
      else if \<not> isLazyStartApplicable lazy e then (None, sm)
      else case map_of (serverContexts sm) (se_serverId e) of
          Some c \<Rightarrow> (Some c, sm)
        | None \<Rightarrow> map_prod Some id (initializeManagedServerContext row e (Some Sleeping) now sm))"

definition sm_IDLE_TIMEOUT :: int where
  "sm_IDLE_TIMEOUT = 5 * 60 * 1000"

definition shouldSleep :: "bool \<Rightarrow> server_context \<Rightarrow> int \<Rightarrow> bool" where
  "shouldSleep lazy c now \<longleftrightarrow> sx_status c = Online \<and> isLazyStartApplicable lazy (sx_entity c) \<and>
     se_transportType (sx_entity c) = ''stdio'' \<and> now - sx_lastActive c \<ge> sm_IDLE_TIMEOUT"

definition sleepServer :: "server_context \<Rightarrow> server_context" where
  "sleepServer c = c\<lparr>sx_status := Sleeping, sx_connection := None\<rparr>"

definition checkIdleServers :: "bool \<Rightarrow> int \<Rightarrow> server_registry \<Rightarrow> server_registry" where
  "checkIdleServers lazy now sm =
     (let rest = (\<lambda>(k, c). (k, if shouldSleep lazy c now then sleepServer c else c))
      in sm\<lparr>serverContexts := map rest (serverContexts sm), temporaryServers := map rest (temporaryServers sm)\<rparr>)"

section \<open>The checks of a client session\<close>

record auth_context =
  ac_anonymous :: bool
  ac_userId :: string
  ac_permissions :: permissions
  ac_userPreferences :: permissions

definition enabled_or :: "bool \<Rightarrow> bool option \<Rightarrow> bool" where
  "enabled_or d b = (case b of Some x \<Rightarrow> x | None \<Rightarrow> d)"

definition access_default :: "'z auth_context_scheme \<Rightarrow> server_context \<Rightarrow> bool" where
  "access_default a c =
     (if ac_anonymous a then se_anonymousAccess (sx_entity c) else se_publicAccess (sx_entity c))"

definition canAccessServer :: "server_registry \<Rightarrow> 'z auth_context_scheme \<Rightarrow> string \<Rightarrow> bool" where
  "canAccessServer sm a serverID =
     (case getServerContext serverID (Some (ac_userId a)) sm of
        None \<Rightarrow> False
      | Some c \<Rightarrow>
          if \<not> se_enabled (sx_entity c) then False
          else if \<not> is_available c then False
          else if ac_anonymous a \<and> \<not> se_anonymousAccess (sx_entity c) then False
          else
            (let serverPermsEnabled =
                   enabled_or (access_default a c) (Option.bind (map_of (ac_permissions a) serverID) sp_enabled);
                 userPreferencesEnabled =
                   enabled_or True (Option.bind (map_of (ac_userPreferences a) serverID) sp_enabled)
             in if se_allowUserInput (sx_entity c)
                then \<not> ac_anonymous a \<and> sx_userId c = Some (ac_userId a) \<and>
                     serverPermsEnabled \<and> userPreferencesEnabled
                else serverPermsEnabled \<and> userPreferencesEnabled))"

text \<open>\<open>serverPerms.tools[name]?.enabled ?? true\<close>; \<open>None\<close> when the table is missing.\<close>

definition cap_enabled :: "cap_table option \<Rightarrow> string \<Rightarrow> bool option" where
  "cap_enabled table name = map_option (\<lambda>t. enabled_or True (Option.bind (map_of t name) cx_enabled)) table"

definition canAccessServerCapabilities ::
    "server_registry \<Rightarrow> 'z auth_context_scheme \<Rightarrow> string \<Rightarrow> capability_type \<Rightarrow> string \<Rightarrow> server_context option" where
  "canAccessServerCapabilities sm a serverID type name =
     (if \<not> canAccessServer sm a serverID then None
      else case getServerContext serverID (Some (ac_userId a)) sm of
          None \<Rightarrow> None
        | Some c \<Rightarrow>
            if \<not> se_enabled (sx_entity c) \<or> \<not> is_available c then None
            else if cap_enabled (cap_table type (sx_config c)) name = Some True then Some c else None)"

text \<open>
  \<open>canUseToolByServerContext\<close> and its two siblings differ only in the table they read. A record of
  permissions or preferences without the table throws.
\<close>

definition perms_enabled :: "capability_type \<Rightarrow> server_perms option \<Rightarrow> string \<Rightarrow> bool option" where
  "perms_enabled type p name =
     (case p of None \<Rightarrow> Some True | Some sp \<Rightarrow> cap_enabled (cap_table type sp) name)"

definition canUseByServerContext ::
    "capability_type \<Rightarrow> 'z auth_context_scheme \<Rightarrow> server_context \<Rightarrow> string \<Rightarrow> bool option" where
  "canUseByServerContext type a c name =
     (let pref = perms_enabled type (map_of (ac_userPreferences a) (sx_serverID c)) name
      in if se_allowUserInput (sx_entity c)
         then (if sx_userId c \<noteq> Some (ac_userId a) then Some False else pref)
         else (case perms_enabled type (map_of (ac_permissions a) (sx_serverID c)) name of
                 None \<Rightarrow> None
               | Some False \<Rightarrow> Some False
               | Some True \<Rightarrow> pref))"

definition can_use ::
    "capability_type \<Rightarrow> server_registry \<Rightarrow> 'z auth_context_scheme \<Rightarrow> string \<Rightarrow> string \<Rightarrow> bool option" where
  "can_use type sm a serverID name =
     (case canAccessServerCapabilities sm a serverID type name of
        None \<Rightarrow> Some False
      | Some c \<Rightarrow> canUseByServerContext type a c name)"

definition canUseTool :: "server_registry \<Rightarrow> 'z auth_context_scheme \<Rightarrow> string \<Rightarrow> string \<Rightarrow> bool option" where
  "canUseTool = can_use ToolCap"

definition canAccessResource :: "server_registry \<Rightarrow> 'z auth_context_scheme \<Rightarrow> string \<Rightarrow> string \<Rightarrow> bool option" where
  "canAccessResource = can_use ResourceCap"

definition canUsePrompt :: "server_registry \<Rightarrow> 'z auth_context_scheme \<Rightarrow> string \<Rightarrow> string \<Rightarrow> bool option" where
  "canUsePrompt = can_use PromptCap"

definition cl_getAvailableServers :: "server_registry \<Rightarrow> 'z auth_context_scheme \<Rightarrow> server_context list" where
  "cl_getAvailableServers sm a =
     filter (\<lambda>c. canAccessServer sm a (sx_serverID c)) (sm_getAvailableServers sm)"

definition getDangerLevel :: "'z auth_context_scheme \<Rightarrow> string \<Rightarrow> string \<Rightarrow> danger_level option option" where
  "getDangerLevel a serverID toolName =
     (case map_of (ac_userPreferences a) serverID of
        None \<Rightarrow> Some None
      | Some sp \<Rightarrow> map_option (\<lambda>t. Option.bind (map_of t toolName) cx_dangerLevel) (ct_tools sp))"

definition sx_getDangerLevel :: "server_context \<Rightarrow> string \<Rightarrow> danger_level option option" where
  "sx_getDangerLevel c toolName =
     map_option (\<lambda>t. Option.bind (map_of t toolName) cx_dangerLevel) (ct_tools (sx_config c))"

section \<open>Names\<close>

definition generateNewName :: "string \<Rightarrow> string \<Rightarrow> string" where
  "generateNewName serverID name = name @ ''_-_'' @ serverID"

text \<open>\<open>name.lastIndexOf(sep)\<close>.\<close>

definition js_lastIndexOf :: "string \<Rightarrow> string \<Rightarrow> nat option" where
  "js_lastIndexOf s sep =
     (case filter (\<lambda>i. prefix sep (drop i s)) (rev [0..<Suc (length s)]) of [] \<Rightarrow> None | i # _ \<Rightarrow> Some i)"

definition parseName :: "server_registry \<Rightarrow> 'z auth_context_scheme \<Rightarrow> string \<Rightarrow> (string \<times> string) option" where
  "parseName sm a name =
     (case js_lastIndexOf name ''_-_'' of
        None \<Rightarrow> None
      | Some index \<Rightarrow>
          (let serverID = drop (index + 3) name;
               serverContext = (case getServerContextByID serverID sm of
                  Some c \<Rightarrow> Some c
                | None \<Rightarrow> getTemporaryServerContextByID serverID (ac_userId a) sm)
           in map_option (\<lambda>c. (sx_serverID c, take index name)) serverContext))"

text \<open>The tools of a server as they are now, or else as they were cached.\<close>

definition live_or_cached :: "'a option \<Rightarrow> 'a option \<Rightarrow> 'a option" where
  "live_or_cached live cached = (case live of Some x \<Rightarrow> Some x | None \<Rightarrow> cached)"

text \<open>
  The search for an unprefixed name: the one server that offers it, \<open>None\<close> when there are none or
  several. The outer option is the exception.
\<close>

fun resolve_in ::
    "('i \<Rightarrow> bool) \<Rightarrow> ('i \<Rightarrow> string) \<Rightarrow> (server_context \<Rightarrow> 'i list option) \<Rightarrow>
     (server_context \<Rightarrow> 'i \<Rightarrow> bool option) \<Rightarrow> (string \<times> string) option \<Rightarrow> server_context list \<Rightarrow>
     (string \<times> string) option option" where
  "resolve_in wanted original offers allowed match [] = Some match"
| "resolve_in wanted original offers allowed match (c # cs) =
     (case offers c of
        None \<Rightarrow> resolve_in wanted original offers allowed match cs
      | Some xs \<Rightarrow>
          (case find wanted xs of
             None \<Rightarrow> resolve_in wanted original offers allowed match cs
           | Some x \<Rightarrow>
               (case allowed c x of
                  None \<Rightarrow> None
                | Some False \<Rightarrow> resolve_in wanted original offers allowed match cs
                | Some True \<Rightarrow>
                    if match \<noteq> None then Some None
                    else resolve_in wanted original offers allowed (Some (sx_serverID c, original x)) cs)))"

definition resolveToolName ::
    "server_registry \<Rightarrow> 'z auth_context_scheme \<Rightarrow> string \<Rightarrow> (string \<times> string) option option" where
  "resolveToolName sm a name =
     (case parseName sm a name of
        Some r \<Rightarrow> Some (Some r)
      | None \<Rightarrow> resolve_in (\<lambda>t. tl_name t = name) tl_name (\<lambda>c. live_or_cached (sx_tools c) (sx_cachedTools c))
                  (\<lambda>c t. canUseByServerContext ToolCap a c (tl_name t)) None (cl_getAvailableServers sm a))"

definition resolveResourceUri ::
    "server_registry \<Rightarrow> 'z auth_context_scheme \<Rightarrow> string \<Rightarrow> (string \<times> string) option option" where
  "resolveResourceUri sm a uri =
     (case parseName sm a uri of
        Some r \<Rightarrow> Some (Some r)
      | None \<Rightarrow> resolve_in (\<lambda>r. rs_uri r = uri) rs_uri
                  (\<lambda>c. live_or_cached (sx_resources c) (sx_cachedResources c))
                  (\<lambda>c r. canUseByServerContext ResourceCap a c (rs_name r)) None (cl_getAvailableServers sm a))"

section \<open>Listings\<close>

fun filter_throw :: "('a \<Rightarrow> bool option) \<Rightarrow> 'a list \<Rightarrow> 'a list option" where
  "filter_throw P [] = Some []"
| "filter_throw P (x # xs) =
     (case P x of
        None \<Rightarrow> None
      | Some b \<Rightarrow> map_option (\<lambda>ys. if b then x # ys else ys) (filter_throw P xs))"

fun map_throw :: "('a \<Rightarrow> 'b option) \<Rightarrow> 'a list \<Rightarrow> 'b list option" where
  "map_throw f [] = Some []"
| "map_throw f (x # xs) =
     (case f x of None \<Rightarrow> None | Some y \<Rightarrow> map_option (Cons y) (map_throw f xs))"

text \<open>
  The view URI of an MCP app in the metadata of a tool, and the metadata with that URI replaced.
  The fields of an array are its indices.
\<close>

definition ui_fields :: "json \<Rightarrow> unit fields option" where
  "ui_fields v =
     (case v of
        JObj _ fs \<Rightarrow> Some fs
      | JArr _ vs \<Rightarrow> Some (map (\<lambda>(i, x). (nat_str i, x)) (enumerate 0 vs))
      | _ \<Rightarrow> None)"

definition meta_field :: "tool \<Rightarrow> string \<Rightarrow> json" where
  "meta_field t k = (case tl_meta t of None \<Rightarrow> JUndef
     | Some fs \<Rightarrow> (case map_of fs k of None \<Rightarrow> JUndef | Some v \<Rightarrow> v))"

definition getToolUiResourceUri :: "tool \<Rightarrow> string option" where
  "getToolUiResourceUri t =
     (let flat = (case meta_field t ''ui/resourceUri'' of JStr s \<Rightarrow> Some s | _ \<Rightarrow> None)
      in case ui_fields (meta_field t ''ui'') of
           Some fs \<Rightarrow> (case map_of fs ''resourceUri'' of Some (JStr s) \<Rightarrow> Some s | _ \<Rightarrow> flat)
         | None \<Rightarrow> flat)"

definition buildToolMetaWithProxiedResourceUri :: "tool \<Rightarrow> string option \<Rightarrow> unit fields option" where
  "buildToolMetaWithProxiedResourceUri t proxied =
     (case proxied of
        None \<Rightarrow> tl_meta t
      | Some uri \<Rightarrow>
          if uri = [] then tl_meta t
          else
            (let fs = (case tl_meta t of None \<Rightarrow> [] | Some fs \<Rightarrow> fs);
                 ui = (case ui_fields (meta_field t ''ui'') of None \<Rightarrow> [] | Some us \<Rightarrow> us)
             in Some (AList.update ''ui'' (JObj () (AList.update ''resourceUri'' (JStr uri) ui))
                  (AList.update ''ui/resourceUri'' (JStr uri) fs))))"

record listed_tool =
  lt_name :: string
  lt_meta :: "unit fields option"
  lt_readonly :: bool
  lt_destructiveHint :: bool

definition present_tool :: "'z auth_context_scheme \<Rightarrow> server_context \<Rightarrow> tool \<Rightarrow> listed_tool option" where
  "present_tool a c t =
     (case getDangerLevel a (sx_serverID c) (tl_name t) of
        None \<Rightarrow> None
      | Some userDangerLevel \<Rightarrow>
          (case (case userDangerLevel of Some d \<Rightarrow> Some (Some d) | None \<Rightarrow> sx_getDangerLevel c (tl_name t)) of
             None \<Rightarrow> None
           | Some dangerLevel \<Rightarrow>
               (let raised = (\<not> tl_destructiveHint t \<and> dangerLevel = Some Notification);
                    silent = (\<not> raised \<and> dangerLevel = Some Silent);
                    uri = (case getToolUiResourceUri t of None \<Rightarrow> None
                           | Some u \<Rightarrow> if u = [] then None else Some (generateNewName (sx_id c) u))
                in Some \<lparr>lt_name = generateNewName (sx_id c) (tl_name t),
                         lt_meta = buildToolMetaWithProxiedResourceUri t uri,
                         lt_readonly = (if raised then False else if silent then True else tl_readOnlyHint t),
                         lt_destructiveHint =
                           (if raised then True else if silent then False else tl_destructiveHint t)\<rparr>)))"

text \<open>The part of a listing that comes from one server.\<close>

definition list_server ::
    "(server_context \<Rightarrow> 'i list option) \<Rightarrow> (server_context \<Rightarrow> 'i \<Rightarrow> bool option) \<Rightarrow>
     (server_context \<Rightarrow> 'i \<Rightarrow> 'o option) \<Rightarrow> server_context \<Rightarrow> 'o list option" where
  "list_server offers allowed present c =
     (case offers c of
        None \<Rightarrow> Some []
      | Some xs \<Rightarrow> Option.bind (filter_throw (allowed c) xs) (map_throw (present c)))"

definition listTools :: "server_registry \<Rightarrow> 'z auth_context_scheme \<Rightarrow> listed_tool list option" where
  "listTools sm a =
     map_option concat (map_throw
       (list_server (\<lambda>c. live_or_cached (sx_tools c) (sx_cachedTools c))
          (\<lambda>c t. canUseByServerContext ToolCap a c (tl_name t)) (present_tool a))
       (cl_getAvailableServers sm a))"

definition listResources :: "server_registry \<Rightarrow> 'z auth_context_scheme \<Rightarrow> resource list option" where
  "listResources sm a =
     map_option concat (map_throw
       (list_server (\<lambda>c. live_or_cached (sx_resources c) (sx_cachedResources c))
          (\<lambda>c r. canUseByServerContext ResourceCap a c (rs_name r))
          (\<lambda>c r. Some (r\<lparr>rs_uri := generateNewName (sx_id c) (rs_uri r)\<rparr>)))
       (cl_getAvailableServers sm a))"

definition listResourceTemplates :: "server_registry \<Rightarrow> 'z auth_context_scheme \<Rightarrow> resource list option" where
  "listResourceTemplates sm a =
     map_option concat (map_throw
       (list_server (\<lambda>c. live_or_cached (sx_templates c) (sx_cachedTemplates c))
          (\<lambda>c r. canUseByServerContext ResourceCap a c (rs_name r))
          (\<lambda>c r. Some (r\<lparr>rs_uri := generateNewName (sx_id c) (rs_uri r)\<rparr>)))
       (cl_getAvailableServers sm a))"

definition listPrompts :: "server_registry \<Rightarrow> 'z auth_context_scheme \<Rightarrow> prompt list option" where
  "listPrompts sm a =
     map_option concat (map_throw
       (list_server (\<lambda>c. live_or_cached (sx_prompts c) (sx_cachedPrompts c))
          (\<lambda>c p. canUseByServerContext PromptCap a c (pm_name p))
          (\<lambda>c p. Some (p\<lparr>pm_name := generateNewName (sx_id c) (pm_name p)\<rparr>)))
       (cl_getAvailableServers sm a))"

section \<open>Runs of the registry\<close>

text \<open>
  A context is changed by its connection in many ways, none of which touches its number, its
  server identifier or its owner. Temporary contexts are made only for servers that take user
  input, as all callers check.
\<close>

definition same_identity :: "server_context \<Rightarrow> server_context \<Rightarrow> bool" where
  "same_identity c c' \<longleftrightarrow> sx_id c' = sx_id c \<and> sx_serverID c' = sx_serverID c \<and> sx_userId c' = sx_userId c"

definition same_context :: "server_context \<Rightarrow> server_context \<Rightarrow> bool" where
  "same_context c c' \<longleftrightarrow> same_identity c c' \<and>
     (se_allowUserInput (sx_entity c) \<longrightarrow> se_allowUserInput (sx_entity c'))"

inductive registry_reach :: "server_registry \<Rightarrow> bool" where
  rr_start: "registry_reach \<lparr>serverContexts = [], temporaryServers = [], sm_nextId = 1\<rparr>"
| rr_managed: "registry_reach sm \<Longrightarrow>
    registry_reach (snd (initializeManagedServerContext row e status now sm))"
| rr_temporary: "registry_reach sm \<Longrightarrow> CHR '':'' \<notin> set u \<Longrightarrow> se_allowUserInput e \<Longrightarrow>
    registry_reach (snd (initializeTemporaryServerContext row e u token status now sm))"
| rr_work_managed: "registry_reach sm \<Longrightarrow> map_of (serverContexts sm) k = Some c \<Longrightarrow> same_context c c' \<Longrightarrow>
    registry_reach (sm\<lparr>serverContexts := AList.update k c' (serverContexts sm)\<rparr>)"
| rr_work_temporary: "registry_reach sm \<Longrightarrow> map_of (temporaryServers sm) k = Some c \<Longrightarrow> same_context c c' \<Longrightarrow>
    registry_reach (sm\<lparr>temporaryServers := AList.update k c' (temporaryServers sm)\<rparr>)"
| rr_remove: "registry_reach sm \<Longrightarrow> registry_reach (snd (removeServer k sm))"
| rr_close: "registry_reach sm \<Longrightarrow> registry_reach (snd (closeTemporaryServer k u sm))"
| rr_close_user: "registry_reach sm \<Longrightarrow> registry_reach (closeUserTemporaryServers u sm)"
| rr_close_template: "registry_reach sm \<Longrightarrow> registry_reach (closeAllTemporaryServersByTemplate k sm)"
| rr_idle: "registry_reach sm \<Longrightarrow> registry_reach (checkIdleServers lazy now sm)"
| rr_shutdown: "registry_reach sm \<Longrightarrow> registry_reach (sm_shutdown sm)"

text \<open>
  The numbers of all contexts, managed and temporary, are different decimal numerals below the
  counter; a context stands under its own identifier, a temporary one with its owner.
\<close>

definition all_contexts :: "server_registry \<Rightarrow> server_context list" where
  "all_contexts sm = map snd (serverContexts sm) @ map snd (temporaryServers sm)"

definition numbered :: "nat \<Rightarrow> server_context \<Rightarrow> bool" where
  "numbered n c \<longleftrightarrow> (\<exists>i<n. sx_id c = nat_str i)"

definition managed_ok :: "nat \<Rightarrow> string \<Rightarrow> server_context \<Rightarrow> bool" where
  "managed_ok n k c \<longleftrightarrow> sx_serverID c = k \<and> sx_userId c = None \<and> numbered n c"

definition temporary_ok :: "nat \<Rightarrow> string \<Rightarrow> server_context \<Rightarrow> bool" where
  "temporary_ok n k c \<longleftrightarrow> numbered n c \<and> se_allowUserInput (sx_entity c) \<and>
     (\<exists>u. sx_userId c = Some u \<and> CHR '':'' \<notin> set u \<and> k = internalKey (sx_serverID c) u)"

definition registry_ok :: "server_registry \<Rightarrow> bool" where
  "registry_ok sm \<longleftrightarrow>
     jsmap_ok (serverContexts sm) \<and> jsmap_ok (temporaryServers sm) \<and>
     distinct (map sx_id (all_contexts sm)) \<and>
     (\<forall>k c. (k, c) \<in> set (serverContexts sm) \<longrightarrow> managed_ok (sm_nextId sm) k c) \<and>
     (\<forall>k c. (k, c) \<in> set (temporaryServers sm) \<longrightarrow> temporary_ok (sm_nextId sm) k c)"

lemma update_absent: "map_of m k = None \<Longrightarrow> AList.update k v m = m @ [(k, v)]"
  by (induction m) (auto split: if_splits)

lemma update_present_map:
  "jsmap_ok m \<Longrightarrow> map_of m k = Some c \<Longrightarrow> f c' = f c \<Longrightarrow> map f (map snd (AList.update k c' m)) = map f (map snd m)"
proof (induction m)
  case (Cons p m)
  obtain a b where p: "p = (a, b)" by (rule prod.exhaust)
  show ?case using Cons p by (auto simp: jsmap_ok_def)
qed simp

lemma internalKey_inject:
  assumes "internalKey s u = internalKey s' u'" "CHR '':'' \<notin> set u" "CHR '':'' \<notin> set u'"
  shows "s = s' \<and> u = u'"
proof -
  have "js_split CHR '':'' (s @ CHR '':'' # u) = js_split CHR '':'' s @ [u]"
    if "CHR '':'' \<notin> set u" for s u
    using that by (induction s) (auto simp: js_split_no_sep split: list.splits)
  from this[OF assms(2), of s] this[OF assms(3), of s'] assms(1)
  have "js_split CHR '':'' s @ [u] = js_split CHR '':'' s' @ [u']" by (simp add: internalKey_def)
  then have "u = u'" by simp
  with assms(1) show ?thesis by (simp add: internalKey_def)
qed

lemma registry_ok_filter:
  assumes "registry_ok sm"
  shows "registry_ok (sm\<lparr>serverContexts := filter P (serverContexts sm), temporaryServers := filter Q (temporaryServers sm)\<rparr>)"
proof -
  have "distinct (map sx_id (map snd (filter P (serverContexts sm)) @ map snd (filter Q (temporaryServers sm))))"
    using assms distinct_map_filter[of "sx_id \<circ> snd" "serverContexts sm" P]
      distinct_map_filter[of "sx_id \<circ> snd" "temporaryServers sm" Q]
    by (auto simp: registry_ok_def all_contexts_def comp_def)
  with assms show ?thesis
    unfolding registry_ok_def all_contexts_def jsmap_ok_def by (auto simp: distinct_map_filter)
qed

lemma same_context_ok:
  "same_identity c c' \<Longrightarrow> managed_ok n k c \<Longrightarrow> managed_ok n k c'"
  "same_context c c' \<Longrightarrow> temporary_ok n k c \<Longrightarrow> temporary_ok n k c'"
  by (simp_all add: same_context_def same_identity_def managed_ok_def temporary_ok_def numbered_def)

lemma registry_ok_same_ids:
  assumes ok: "registry_ok sm" and "map sx_id (all_contexts sm') = map sx_id (all_contexts sm)"
    and "jsmap_ok (serverContexts sm')" "jsmap_ok (temporaryServers sm')" "sm_nextId sm' = sm_nextId sm"
    and "\<And>k c. (k, c) \<in> set (serverContexts sm') \<Longrightarrow> managed_ok (sm_nextId sm) k c"
    and "\<And>k c. (k, c) \<in> set (temporaryServers sm') \<Longrightarrow> temporary_ok (sm_nextId sm) k c"
  shows "registry_ok sm'"
  using assms unfolding registry_ok_def by metis

lemma same_context_identity: "same_context c c' \<Longrightarrow> same_identity c c'"
  by (simp add: same_context_def)

lemma registry_ok_map:
  assumes ok: "registry_ok sm" and f: "\<And>c. same_context c (f c)"
  shows "registry_ok (sm\<lparr>serverContexts := map (\<lambda>(k, c). (k, f c)) (serverContexts sm),
                         temporaryServers := map (\<lambda>(k, c). (k, f c)) (temporaryServers sm)\<rparr>)"
proof (rule registry_ok_same_ids[OF ok])
  have k: "map fst (map (\<lambda>(k, c). (k, f c)) m) = map fst m"
    and i: "map sx_id (map snd (map (\<lambda>(k, c). (k, f c)) m)) = map sx_id (map snd m)" for m
    using f by (auto simp: same_context_def same_identity_def)
  let ?sm = "sm\<lparr>serverContexts := map (\<lambda>(k, c). (k, f c)) (serverContexts sm),
    temporaryServers := map (\<lambda>(k, c). (k, f c)) (temporaryServers sm)\<rparr>"
  have sel: "serverContexts ?sm = map (\<lambda>(k, c). (k, f c)) (serverContexts sm)"
    "temporaryServers ?sm = map (\<lambda>(k, c). (k, f c)) (temporaryServers sm)" by simp_all
  show "map sx_id (all_contexts ?sm) = map sx_id (all_contexts sm)"
    unfolding all_contexts_def sel map_append i ..
  show "jsmap_ok (serverContexts ?sm)" "jsmap_ok (temporaryServers ?sm)"
    using ok unfolding registry_ok_def jsmap_ok_def sel k by blast+
  show "managed_ok (sm_nextId sm) k c" if "(k, c) \<in> set (serverContexts ?sm)" for k c
    using that ok same_context_ok(1)[OF same_context_identity[OF f]] by (auto simp: registry_ok_def)
  show "temporary_ok (sm_nextId sm) k c" if "(k, c) \<in> set (temporaryServers ?sm)" for k c
    using that ok same_context_ok(2)[OF f] by (auto simp: registry_ok_def)
qed simp

lemma registry_ok_put_managed:
  assumes ok: "registry_ok sm" and c: "map_of (serverContexts sm) k = Some c" "same_identity c c'"
  shows "registry_ok (sm\<lparr>serverContexts := AList.update k c' (serverContexts sm)\<rparr>)"
proof (rule registry_ok_same_ids[OF ok])
  let ?sm = "sm\<lparr>serverContexts := AList.update k c' (serverContexts sm)\<rparr>"
  show "map sx_id (all_contexts ?sm) = map sx_id (all_contexts sm)"
    using update_present_map[of "serverContexts sm" k c sx_id c'] ok c
    by (simp add: all_contexts_def registry_ok_def same_context_def same_identity_def)
  have "managed_ok (sm_nextId sm) k c'"
    using ok map_of_SomeD[OF c(1)] same_context_ok(1)[OF c(2)] by (simp add: registry_ok_def)
  then show "managed_ok (sm_nextId sm) k1 c1" if "(k1, c1) \<in> set (serverContexts ?sm)" for k1 c1
    using that ok by (auto simp: registry_ok_def dest!: set_update_subset)
qed (use ok in \<open>simp_all add: registry_ok_def jsmap.ok_put\<close>)

lemma registry_ok_put_temporary:
  assumes ok: "registry_ok sm" and c: "map_of (temporaryServers sm) k = Some c" "same_context c c'"
  shows "registry_ok (sm\<lparr>temporaryServers := AList.update k c' (temporaryServers sm)\<rparr>)"
proof (rule registry_ok_same_ids[OF ok])
  let ?sm = "sm\<lparr>temporaryServers := AList.update k c' (temporaryServers sm)\<rparr>"
  show "map sx_id (all_contexts ?sm) = map sx_id (all_contexts sm)"
    using update_present_map[of "temporaryServers sm" k c sx_id c'] ok c
    by (simp add: all_contexts_def registry_ok_def same_context_def same_identity_def)
  have "temporary_ok (sm_nextId sm) k c'"
    using ok map_of_SomeD[OF c(1)] same_context_ok(2)[OF c(2)] by (simp add: registry_ok_def)
  then show "temporary_ok (sm_nextId sm) k1 c1" if "(k1, c1) \<in> set (temporaryServers ?sm)" for k1 c1
    using that ok by (auto simp: registry_ok_def dest!: set_update_subset)
qed (use ok in \<open>simp_all add: registry_ok_def jsmap.ok_put\<close>)

text \<open>A new context takes the number of the counter, which no context has.\<close>

lemma numbered_fresh: "numbered n c \<Longrightarrow> sx_id c \<noteq> nat_str n"
  by (auto simp: numbered_def)

lemma numbered_Suc: "numbered n c \<Longrightarrow> numbered (Suc n) c"
  by (auto simp: numbered_def less_Suc_eq)

lemma ok_Suc: "managed_ok n k c \<Longrightarrow> managed_ok (Suc n) k c" "temporary_ok n k c \<Longrightarrow> temporary_ok (Suc n) k c"
  by (auto simp: managed_ok_def temporary_ok_def numbered_Suc)

lemma registry_fresh: "registry_ok sm \<Longrightarrow> nat_str (sm_nextId sm) \<notin> set (map sx_id (all_contexts sm))"
  using numbered_fresh by (fastforce simp: registry_ok_def all_contexts_def managed_ok_def temporary_ok_def)

lemma registry_ok_new_managed:
  assumes ok: "registry_ok sm" and "map_of (serverContexts sm) k = None"
    and c: "sx_id c = nat_str (sm_nextId sm)" "sx_serverID c = k" "sx_userId c = None"
  shows "registry_ok (sm\<lparr>serverContexts := AList.update k c (serverContexts sm), sm_nextId := Suc (sm_nextId sm)\<rparr>)"
proof -
  have "managed_ok (Suc (sm_nextId sm)) k c" using c by (auto simp: managed_ok_def numbered_def)
  with ok registry_fresh[OF ok] c(1) assms(2) show ?thesis
    unfolding registry_ok_def all_contexts_def
    by (auto simp: update_absent jsmap_ok_def map_of_eq_None_iff ok_Suc)
qed

lemma registry_ok_new_temporary:
  assumes ok: "registry_ok sm" and "map_of (temporaryServers sm) (internalKey s u) = None" "CHR '':'' \<notin> set u"
    and c: "sx_id c = nat_str (sm_nextId sm)" "sx_serverID c = s" "sx_userId c = Some u"
      "se_allowUserInput (sx_entity c)"
  shows "registry_ok (sm\<lparr>temporaryServers := AList.update (internalKey s u) c (temporaryServers sm),
    sm_nextId := Suc (sm_nextId sm)\<rparr>)"
proof -
  have "temporary_ok (Suc (sm_nextId sm)) (internalKey s u) c"
    using c assms(3) by (auto simp: temporary_ok_def numbered_def)
  with ok registry_fresh[OF ok] c(1) assms(2) show ?thesis
    unfolding registry_ok_def all_contexts_def
    by (auto simp: update_absent jsmap_ok_def map_of_eq_None_iff ok_Suc)
qed

lemma initial_status_same [simp]:
  "sx_entity (initial_status st c) = sx_entity c"
  "sx_id (initial_status st c) = sx_id c" "sx_serverID (initial_status st c) = sx_serverID c"
  "sx_userId (initial_status st c) = sx_userId c"
  by (simp_all add: initial_status_def split: option.splits)

lemma own_by_fields [simp]:
  "sx_entity (own_by u t c) = sx_entity c"
  "sx_id (own_by u t c) = sx_id c" "sx_serverID (own_by u t c) = sx_serverID c"
  "sx_userId (own_by u t c) = Some u"
  by (simp_all add: own_by_def Let_def split: option.splits)

lemma new_context_fields [simp]:
  "sx_entity (new_context row e now n) = e"
  "sx_id (new_context row e now n) = nat_str n" "sx_serverID (new_context row e now n) = se_serverId e"
  "sx_userId (new_context row e now n) = None"
  by (simp_all add: new_context_def)

lemma registry_ok_managed:
  assumes "registry_ok sm"
  shows "registry_ok (snd (initializeManagedServerContext row e status now sm))"
proof (cases "map_of (serverContexts sm) (se_serverId e)")
  case None
  then show ?thesis
    using registry_ok_new_managed[OF assms None] by (simp add: initializeManagedServerContext_def Let_def)
next
  case (Some c)
  from registry_ok_put_managed[OF assms Some, of "initial_status status (c\<lparr>sx_entity := e\<rparr>)"] Some show ?thesis
    by (simp add: same_identity_def initializeManagedServerContext_def Let_def)
qed

lemma temporary_owner:
  assumes "registry_ok sm" "map_of (temporaryServers sm) (internalKey s u) = Some c" "CHR '':'' \<notin> set u"
  shows "sx_userId c = Some u" "sx_serverID c = s"
proof -
  have "temporary_ok (sm_nextId sm) (internalKey s u) c"
    using assms(1) map_of_SomeD[OF assms(2)] by (simp add: registry_ok_def)
  then obtain u' where "sx_userId c = Some u'" "CHR '':'' \<notin> set u'"
    "internalKey s u = internalKey (sx_serverID c) u'"
    by (auto simp: temporary_ok_def)
  with internalKey_inject[OF this(3) assms(3)] show "sx_userId c = Some u" "sx_serverID c = s" by auto
qed

lemma registry_ok_temporary:
  assumes "registry_ok sm" "CHR '':'' \<notin> set u" "se_allowUserInput e"
  shows "registry_ok (snd (initializeTemporaryServerContext row e u token status now sm))"
proof (cases "map_of (temporaryServers sm) (internalKey (se_serverId e) u)")
  case None
  then show ?thesis
    using registry_ok_new_temporary[OF assms(1) None assms(2)] assms(3)
    by (simp add: initializeTemporaryServerContext_def Let_def)
next
  case (Some c)
  have "same_context c (initial_status status (own_by u token (c\<lparr>sx_entity := e\<rparr>)))"
    using temporary_owner[OF assms(1) Some assms(2)] assms(3) by (simp add: same_context_def same_identity_def)
  from registry_ok_put_temporary[OF assms(1) Some this] Some show ?thesis
    by (simp add: initializeTemporaryServerContext_def Let_def)
qed

lemma registry_reach_ok: "registry_reach sm \<Longrightarrow> registry_ok sm"
proof (induction rule: registry_reach.induct)
  case rr_start
  show ?case by (simp add: registry_ok_def all_contexts_def)
next
  case (rr_idle sm lazy now)
  have "same_context c (if shouldSleep lazy c now then sleepServer c else c)" for c
    by (simp add: same_context_def same_identity_def sleepServer_def)
  from registry_ok_map[OF rr_idle.IH this] show ?case by (simp add: checkIdleServers_def Let_def)
next
  case (rr_remove sm k)
  then show ?case using registry_ok_filter[of sm "\<lambda>_. True" "\<lambda>(k', _). k \<noteq> k'"]
    by (simp add: removeServer_def AList.delete_eq)
next
  case (rr_close sm k u)
  then show ?case using registry_ok_filter[of sm "\<lambda>(k', _). internalKey k u \<noteq> k'" "\<lambda>_. True"]
    by (simp add: closeTemporaryServer_def AList.delete_eq)
next
  case (rr_close_user sm u)
  then show ?case using registry_ok_filter[of sm _ "\<lambda>_. True"]
    by (simp add: closeUserTemporaryServers_def jsmap_keep_def)
next
  case (rr_close_template sm k)
  then show ?case using registry_ok_filter[of sm _ "\<lambda>_. True"]
    by (simp add: closeAllTemporaryServersByTemplate_def jsmap_keep_def)
next
  case (rr_shutdown sm)
  then show ?case by (simp add: registry_ok_def all_contexts_def sm_shutdown_def)
qed (simp_all add: registry_ok_managed registry_ok_temporary registry_ok_put_managed
    same_context_identity registry_ok_put_temporary)

section \<open>Names lead back\<close>

lemma lastIndexOf_Some:
  assumes "i \<le> length s" "prefix sep (drop i s)" "\<And>j. i < j \<Longrightarrow> j \<le> length s \<Longrightarrow> \<not> prefix sep (drop j s)"
  shows "js_lastIndexOf s sep = Some i"
proof -
  have "[0..<Suc (length s)] = [0..<i] @ i # [Suc i..<Suc (length s)]"
    using assms(1) by (metis le_imp_less_Suc upt_conv_Cons upt_add_eq_append le_add_diff_inverse zero_le less_imp_le)
  then have "rev [0..<Suc (length s)] = rev [Suc i..<Suc (length s)] @ i # rev [0..<i]" by simp
  moreover have "\<not> prefix sep (drop j s)" if "j \<in> set (rev [Suc i..<Suc (length s)])" for j
    using that by (intro assms(3)) auto
  then have "filter (\<lambda>i. prefix sep (drop i s)) (rev [Suc i..<Suc (length s)]) = []"
    unfolding filter_empty_conv by blast
  ultimately show ?thesis using assms(2) by (simp add: js_lastIndexOf_def)
qed

lemma nat_str_no_name_char: "c \<in> set (nat_str n) \<Longrightarrow> c \<noteq> CHR ''_'' \<and> c \<noteq> CHR ''-'' \<and> c \<noteq> CHR '':''"
proof -
  assume "c \<in> set (nat_str n)"
  then obtain d where "d < 10" "c = digit_char d" using nat_str_digits by blast
  then have "(of_char c :: nat) = 48 + d" "d < 10" by (simp_all add: of_char_digit_char)
  then show ?thesis by auto
qed

lemma lastIndexOf_name: "js_lastIndexOf (name @ ''_-_'' @ nat_str n) ''_-_'' = Some (length name)"
proof (rule lastIndexOf_Some)
  fix j assume j: "length name < j" "j \<le> length (name @ ''_-_'' @ nat_str n)"
  then obtain k where k: "j = length name + Suc k" using less_iff_Suc_add by (metis add_Suc_right)
  have digits: "CHR ''_'' \<notin> set (nat_str n)" "CHR ''-'' \<notin> set (nat_str n)" using nat_str_no_name_char by blast+
  then have tail: "\<not> prefix (CHR ''-'' # xs) (nat_str n)" "\<not> prefix (CHR ''_'' # xs) (drop m (nat_str n))" for xs m
    by (auto simp: prefix_def dest: arg_cong[of _ _ set] in_set_dropD)
      (metis in_set_dropD list.set_intros(1))
  show "\<not> prefix ''_-_'' (drop j (name @ ''_-_'' @ nat_str n))"
    unfolding k using tail by (cases k; cases "k - 1") (auto simp: numeral_3_eq_3 split: nat.splits)
qed simp_all

lemma find_unique:
  assumes "distinct (map f xs)" "x \<in> set xs" "P x" "\<And>y. P y \<Longrightarrow> f y = f x"
  shows "find P xs = Some x"
  using assms
proof (induction xs)
  case (Cons y xs)
  show ?case
  proof (cases "P y")
    case True
    then have "f y = f x" by (rule Cons.prems(4))
    moreover have "f y \<notin> f ` set xs" using Cons.prems(1) by simp
    ultimately have "x \<notin> set xs" by (metis imageI)
    with Cons.prems(2) True show ?thesis by simp
  next
    case False
    with Cons.prems(2,3) have "x \<in> set xs" by auto
    from Cons.IH[OF _ this Cons.prems(3,4)] Cons.prems(1) False show ?thesis by simp
  qed
qed simp

text \<open>The contexts a session can name: the managed ones and the user's own temporary ones.\<close>

definition addressable :: "server_registry \<Rightarrow> 'z auth_context_scheme \<Rightarrow> server_context \<Rightarrow> bool" where
  "addressable sm a c \<longleftrightarrow> c \<in> set (map snd (serverContexts sm)) \<or>
     c \<in> set (map snd (temporaryServers sm)) \<and> sx_userId c = Some (ac_userId a)"

lemma find_by_id:
  assumes ok: "registry_ok sm" and c: "addressable sm a c"
  shows "(case getServerContextByID (sx_id c) sm of Some d \<Rightarrow> Some d
     | None \<Rightarrow> getTemporaryServerContextByID (sx_id c) (ac_userId a) sm) = Some c"
proof -
  have d: "distinct (map sx_id (map snd (serverContexts sm)))" "distinct (map sx_id (map snd (temporaryServers sm)))"
    "set (map sx_id (map snd (serverContexts sm))) \<inter> set (map sx_id (map snd (temporaryServers sm))) = {}"
    using ok unfolding registry_ok_def all_contexts_def map_append distinct_append by blast+
  show ?thesis
  proof (cases "c \<in> set (map snd (serverContexts sm))")
    case True
    then have "getServerContextByID (sx_id c) sm = Some c"
      unfolding getServerContextByID_def by (rule find_unique[OF d(1)]) simp_all
    then show ?thesis by simp
  next
    case False
    with c have t: "c \<in> set (map snd (temporaryServers sm))" "sx_userId c = Some (ac_userId a)"
      by (auto simp: addressable_def)
    from t(1) d(3) have "\<not> (\<exists>x\<in>set (map snd (serverContexts sm)). sx_id x = sx_id c)" by (auto simp: disjoint_iff)
    then have "getServerContextByID (sx_id c) sm = None"
      by (auto simp: getServerContextByID_def find_None_iff)
    moreover have "getTemporaryServerContextByID (sx_id c) (ac_userId a) sm = Some c"
      unfolding getTemporaryServerContextByID_def by (rule find_unique[OF d(2) t(1)]) (simp_all add: t(2))
    ultimately show ?thesis by simp
  qed
qed

lemma parse_generated:
  assumes "registry_ok sm" "addressable sm a c"
  shows "parseName sm a (generateNewName (sx_id c) name) = Some (sx_serverID c, name)"
proof -
  have "numbered (sm_nextId sm) c"
    using assms by (auto simp: addressable_def registry_ok_def managed_ok_def temporary_ok_def)
  then obtain n where n: "sx_id c = nat_str n" by (auto simp: numbered_def)
  have drop: "drop (length name + 3) (name @ ''_-_'' @ nat_str n) = nat_str n"
    "take (length name) (name @ ''_-_'' @ nat_str n) = name" by (simp_all add: numeral_3_eq_3)
  show ?thesis
    using find_by_id[OF assms] unfolding parseName_def generateNewName_def n lastIndexOf_name Let_def drop option.case
    by (simp only: drop option.map)
qed

text \<open>
  Proxied names lead back. In every state of the registry, the name a client is shown for an
  item of a managed server, or of the user's own temporary server, is parsed back to that server
  and the item's own name, even when the own name contains the separator.
\<close>

theorem name_roundtrip:
  assumes "registry_reach sm" "addressable sm a c"
  shows "parseName sm a (generateNewName (sx_id c) name) = Some (sx_serverID c, name)"
  using parse_generated[OF registry_reach_ok[OF assms(1)] assms(2)] .

section \<open>A veto is final\<close>

text \<open>What an explicit setting says of a server and of an item of it.\<close>

definition server_vetoed :: "permissions \<Rightarrow> string \<Rightarrow> bool" where
  "server_vetoed p serverID \<longleftrightarrow> (\<exists>sp. map_of p serverID = Some sp \<and> sp_enabled sp = Some False)"

definition item_vetoed :: "capability_type \<Rightarrow> 'z capability_tables_scheme \<Rightarrow> string \<Rightarrow> bool" where
  "item_vetoed type c name \<longleftrightarrow>
     (\<exists>t cc. cap_table type c = Some t \<and> map_of t name = Some cc \<and> cx_enabled cc = Some False)"

lemma registry_lookup:
  assumes ok: "registry_ok sm" and c: "getServerContext serverID (Some u) sm = Some c"
    and u: "CHR '':'' \<notin> set u"
  shows "sx_serverID c = serverID" "sx_userId c = None \<or> sx_userId c = Some u"
proof -
  from c consider "map_of (serverContexts sm) serverID = Some c"
    | "map_of (temporaryServers sm) (internalKey serverID u) = Some c"
    by (auto simp: getServerContext_def getTemporaryServer_def split: option.splits if_splits)
  then have "sx_serverID c = serverID \<and> (sx_userId c = None \<or> sx_userId c = Some u)"
  proof cases
    case 1
    then show ?thesis using ok map_of_SomeD[OF 1] by (auto simp: registry_ok_def managed_ok_def)
  next
    case 2
    then show ?thesis using temporary_owner[OF ok 2 u] by simp
  qed
  then show "sx_serverID c = serverID" "sx_userId c = None \<or> sx_userId c = Some u" by auto
qed

lemma can_useD:
  assumes "can_use type sm a serverID name = Some True"
  obtains c where "getServerContext serverID (Some (ac_userId a)) sm = Some c" "canAccessServer sm a serverID"
    "cap_enabled (cap_table type (sx_config c)) name = Some True" "canUseByServerContext type a c name = Some True"
  using assms
  by (auto simp: can_use_def canAccessServerCapabilities_def split: option.splits if_splits)

lemma enabled_no_veto: "enabled_or d (Option.bind (map_of p serverID) sp_enabled) \<Longrightarrow> \<not> server_vetoed p serverID"
  by (auto simp: server_vetoed_def enabled_or_def)

lemma canAccessServerD:
  assumes "canAccessServer sm a serverID"
  obtains c where "getServerContext serverID (Some (ac_userId a)) sm = Some c" "se_enabled (sx_entity c)"
    "is_available c" "ac_anonymous a \<longrightarrow> se_anonymousAccess (sx_entity c) \<and> \<not> se_allowUserInput (sx_entity c)"
    "se_allowUserInput (sx_entity c) \<longrightarrow> sx_userId c = Some (ac_userId a)"
    "\<not> server_vetoed (ac_permissions a) serverID" "\<not> server_vetoed (ac_userPreferences a) serverID"
    "\<not> ac_anonymous a \<longrightarrow> map_of (ac_permissions a) serverID = None \<longrightarrow> se_publicAccess (sx_entity c)"
proof -
  let ?on = "\<lambda>c. enabled_or (access_default a c) (Option.bind (map_of (ac_permissions a) serverID) sp_enabled)"
  from assms obtain c where c: "getServerContext serverID (Some (ac_userId a)) sm = Some c" "se_enabled (sx_entity c)"
    "is_available c" "ac_anonymous a \<longrightarrow> se_anonymousAccess (sx_entity c) \<and> \<not> se_allowUserInput (sx_entity c)"
    "se_allowUserInput (sx_entity c) \<longrightarrow> sx_userId c = Some (ac_userId a)" "?on c"
    "enabled_or True (Option.bind (map_of (ac_userPreferences a) serverID) sp_enabled)"
    by (auto simp: canAccessServer_def Let_def split: option.splits if_splits)
  from c(6) have pub: "\<not> ac_anonymous a \<longrightarrow> map_of (ac_permissions a) serverID = None \<longrightarrow> se_publicAccess (sx_entity c)"
    by (auto simp: enabled_or_def access_default_def)
  show thesis by (rule that[OF c(1-5) enabled_no_veto[OF c(6)] enabled_no_veto[OF c(7)] pub])
qed

lemma cap_enabled_veto: "cap_enabled (cap_table type c) name = Some True \<Longrightarrow> \<not> item_vetoed type c name"
  by (auto simp: cap_enabled_def item_vetoed_def enabled_or_def)

lemma perms_enabled_veto:
  "perms_enabled type p name = Some True \<Longrightarrow> p = Some sp \<Longrightarrow> \<not> item_vetoed type sp name"
  using cap_enabled_veto by (auto simp: perms_enabled_def)

lemma use_by_context_veto:
  assumes "canUseByServerContext type a c name = Some True"
  shows "se_allowUserInput (sx_entity c) \<longrightarrow> sx_userId c = Some (ac_userId a)"
    "map_of (ac_userPreferences a) (sx_serverID c) = Some sp \<Longrightarrow> \<not> item_vetoed type sp name"
    "\<not> se_allowUserInput (sx_entity c) \<Longrightarrow> map_of (ac_permissions a) (sx_serverID c) = Some sp \<Longrightarrow>
       \<not> item_vetoed type sp name"
  using assms perms_enabled_veto
  by (auto simp: canUseByServerContext_def Let_def split: if_splits option.splits bool.splits)


section \<open>What is listed\<close>

lemma map_throw_mem: "map_throw f xs = Some ys \<Longrightarrow> y \<in> set ys \<Longrightarrow> \<exists>x\<in>set xs. f x = Some y"
  by (induction xs arbitrary: ys) (auto split: option.splits)

lemma filter_throw_mem: "filter_throw P xs = Some ys \<Longrightarrow> y \<in> set ys \<Longrightarrow> y \<in> set xs \<and> P y = Some True"
  by (induction xs arbitrary: ys) (auto split: option.splits if_splits)

lemma listing_mem:
  assumes "map_option concat (map_throw (list_server offers allowed present) cs) = Some ys" "y \<in> set ys"
  obtains c xs x where "c \<in> set cs" "offers c = Some xs" "x \<in> set xs" "allowed c x = Some True" "present c x = Some y"
proof -
  from assms obtain zss zs where z: "map_throw (list_server offers allowed present) cs = Some zss" "zs \<in> set zss" "y \<in> set zs"
    by auto
  from map_throw_mem[OF z(1,2)] obtain c where c: "c \<in> set cs" "list_server offers allowed present c = Some zs" by blast
  from c(2) z(3) obtain xs where xs: "offers c = Some xs"
    by (auto simp: list_server_def split: option.splits)
  with c(2) obtain fs where fs: "filter_throw (allowed c) xs = Some fs" "map_throw (present c) fs = Some zs"
    by (auto simp: list_server_def bind_eq_Some_conv)
  from map_throw_mem[OF fs(2) z(3)] obtain x where x: "x \<in> set fs" "present c x = Some y" by blast
  from filter_throw_mem[OF fs(1) x(1)] that c(1) xs x(2) show thesis by blast
qed

text \<open>What passes the check of a session stands on a context the session can name.\<close>

lemma available_addressable:
  assumes ok: "registry_ok sm" and c: "c \<in> set (cl_getAvailableServers sm a)"
    and use: "canUseByServerContext type a c name = Some True"
  shows "addressable sm a c" "canAccessServer sm a (sx_serverID c)"
proof -
  from c show "canAccessServer sm a (sx_serverID c)" by (simp add: cl_getAvailableServers_def)
  from c have "c \<in> set (map snd (serverContexts sm)) \<or> c \<in> set (map snd (temporaryServers sm))"
    by (auto simp: cl_getAvailableServers_def sm_getAvailableServers_def
        getAvailableServersFromServerContexts_def getAvailableServersFromTemporaryServers_def)
  then show "addressable sm a c"
  proof
    assume t: "c \<in> set (map snd (temporaryServers sm))"
    then obtain k where "(k, c) \<in> set (temporaryServers sm)" by auto
    then have "se_allowUserInput (sx_entity c)" using ok by (auto simp: registry_ok_def temporary_ok_def)
    with use_by_context_veto(1)[OF use] t show ?thesis by (simp add: addressable_def)
  qed (simp add: addressable_def)
qed

lemma can_use_accessible:
  assumes "canAccessServer sm a (sx_serverID c)" "getServerContext (sx_serverID c) (Some (ac_userId a)) sm = Some c"
    and "canUseByServerContext type a c name = Some True"
  shows "can_use type sm a (sx_serverID c) name = Some True \<longleftrightarrow>
    cap_enabled (cap_table type (sx_config c)) name = Some True"
proof -
  from assms(1) have "se_enabled (sx_entity c)" "is_available c"
    by (rule canAccessServerD, simp add: assms(2))+
  with assms show ?thesis by (simp add: can_use_def canAccessServerCapabilities_def)
qed

text \<open>
  C34: the tool list offers what can be called. Every tool a session is shown belongs to a managed
  server or to the user's own temporary server; the name it is shown under is resolved to that
  server and to the tool's own name; and a call under that name passes the permission check
  exactly when the server's own configuration does not switch the tool off.
\<close>

theorem listed_tools_resolve:
  assumes "registry_reach sm" "listTools sm a = Some tools" "t \<in> set tools"
  shows "\<exists>c tl offered. addressable sm a c \<and>
    live_or_cached (sx_tools c) (sx_cachedTools c) = Some offered \<and> tl \<in> set offered \<and>
    resolveToolName sm a (lt_name t) = Some (Some (sx_serverID c, tl_name tl)) \<and>
    (getServerContext (sx_serverID c) (Some (ac_userId a)) sm = Some c \<longrightarrow>
       (canUseTool sm a (sx_serverID c) (tl_name tl) = Some True \<longleftrightarrow>
        cap_enabled (ct_tools (sx_config c)) (tl_name tl) = Some True))"
proof -
  have ok: "registry_ok sm" using registry_reach_ok[OF assms(1)] .
  from assms(2,3) obtain c xs tl where c: "c \<in> set (cl_getAvailableServers sm a)"
    "live_or_cached (sx_tools c) (sx_cachedTools c) = Some xs" "tl \<in> set xs"
    "canUseByServerContext ToolCap a c (tl_name tl) = Some True" "present_tool a c tl = Some t"
    unfolding listTools_def by (rule listing_mem)
  note addr = available_addressable[OF ok c(1,4)]
  from c(5) have "lt_name t = generateNewName (sx_id c) (tl_name tl)"
    by (auto simp: present_tool_def Let_def split: option.splits)
  then have "resolveToolName sm a (lt_name t) = Some (Some (sx_serverID c, tl_name tl))"
    using parse_generated[OF ok addr(1)] by (simp add: resolveToolName_def)
  with c addr can_use_accessible[OF addr(2) _ c(4)] show ?thesis
    by (auto simp: canUseTool_def cap_table_def)
qed

section \<open>Example registries\<close>

definition demo_entity :: "string \<Rightarrow> bool \<Rightarrow> server_entity" where
  "demo_entity i input = \<lparr>se_serverId = i, se_serverName = i, se_enabled = True, se_allowUserInput = input,
     se_publicAccess = True, se_anonymousAccess = False, se_lazyStartEnabled = True,
     se_transportType = ''stdio'', se_launchConfig = []\<rparr>"

text \<open>A server that offers \<open>pay\<close> and \<open>drop_-_db\<close> and whose configuration switches the second off.\<close>

definition demo_row :: server_context where
  "demo_row = \<lparr>sx_id = [], sx_serverID = [], sx_entity = demo_entity [] False, sx_status = Offline,
     sx_config = \<lparr>ct_tools = Some [(''drop_-_db'', \<lparr>cx_enabled = Some False, cx_dangerLevel = None, cx_cache = None\<rparr>)],
       ct_resources = Some [], ct_prompts = Some []\<rparr>,
     sx_tools = None,
     sx_cachedTools = Some [\<lparr>tl_name = ''pay'', tl_readOnlyHint = False, tl_destructiveHint = False, tl_meta = None\<rparr>,
       \<lparr>tl_name = ''drop_-_db'', tl_readOnlyHint = False, tl_destructiveHint = True, tl_meta = None\<rparr>],
     sx_resources = None, sx_cachedResources = None, sx_templates = None, sx_cachedTemplates = None,
     sx_prompts = None, sx_cachedPrompts = None, sx_userId = None, sx_userToken = None, sx_connection = None,
     sx_lastActive = 0, sx_timeoutCount = 0, sx_lastError = None, sx_exactPolicies = [], sx_patternPolicies = []\<rparr>"

definition demo_user :: "string \<Rightarrow> auth_context" where
  "demo_user u = \<lparr>ac_anonymous = False, ac_userId = u, ac_permissions = [], ac_userPreferences = []\<rparr>"

text \<open>One managed server, and a template of which two users have a server each.\<close>

definition demo_registry :: server_registry where
  "demo_registry =
     snd (initializeTemporaryServerContext demo_row (demo_entity ''mail'' True) ''bob'' None (Some Online) 0
       (snd (initializeTemporaryServerContext demo_row (demo_entity ''mail'' True) ''ann'' None (Some Online) 0
         (snd (initializeManagedServerContext demo_row (demo_entity ''bank'' False) (Some Sleeping) 0
           \<lparr>serverContexts = [], temporaryServers = [], sm_nextId = 1\<rparr>)))))"

lemma demo_registry_reach: "registry_reach demo_registry"
  unfolding demo_registry_def
  by (intro rr_temporary rr_managed rr_start) (simp_all add: demo_entity_def)

theorem name_roundtrip_witness:
  "\<exists>c. map_of (serverContexts demo_registry) ''bank'' = Some c \<and> sx_id c = ''1'' \<and>
     parseName demo_registry (demo_user ''ann'') ''drop_-_db_-_1'' = Some (''bank'', ''drop_-_db'')"
proof -
  have f: "map_option (\<lambda>c. (sx_id c, sx_serverID c)) (map_of (serverContexts demo_registry) ''bank'') = Some (''1'', ''bank'')"
    by code_simp
  then obtain c where c: "map_of (serverContexts demo_registry) ''bank'' = Some c" "sx_id c = ''1''" "sx_serverID c = ''bank''"
    by auto
  have "addressable demo_registry (demo_user ''ann'') c"
    using map_of_SomeD[OF c(1)] by (force simp: addressable_def)
  from name_roundtrip[OF demo_registry_reach this, of "''drop_-_db''"] c show ?thesis
    by (simp add: generateNewName_def)
qed


theorem listed_tools_resolve_witness:
  "\<exists>tools. listTools demo_registry (demo_user ''ann'') = Some tools \<and>
     map lt_name tools = [''pay_-_1'', ''drop_-_db_-_1'', ''pay_-_2'', ''drop_-_db_-_2''] \<and>
     (\<forall>t\<in>set tools. \<exists>c. addressable demo_registry (demo_user ''ann'') c)"
proof -
  have "map_option (map lt_name) (listTools demo_registry (demo_user ''ann'')) =
    Some [''pay_-_1'', ''drop_-_db_-_1'', ''pay_-_2'', ''drop_-_db_-_2'']" by code_simp
  then obtain tools where t: "listTools demo_registry (demo_user ''ann'') = Some tools"
    "map lt_name tools = [''pay_-_1'', ''drop_-_db_-_1'', ''pay_-_2'', ''drop_-_db_-_2'']" by auto
  moreover have "\<forall>t\<in>set tools. \<exists>c. addressable demo_registry (demo_user ''ann'') c"
    using listed_tools_resolve[OF demo_registry_reach t(1)] by metis
  ultimately show ?thesis by (intro exI[of _ tools] conjI)
qed

text \<open>
  Two gaps in the listings. There is a reachable registry in which a session is shown a tool
  that the configuration of its server switches off, so that every call of it is refused; and in
  which the servers \<open>getAvailableServers\<close> returns to one user include the temporary server of
  another user of the same template, which notifications then go to.
\<close>

theorem listing_gaps:
  "\<exists>sm (a :: auth_context). registry_reach sm \<and>
    (\<exists>tools t. listTools sm a = Some tools \<and> t \<in> set tools \<and>
       resolveToolName sm a (lt_name t) = Some (Some (''bank'', ''drop_-_db'')) \<and>
       canUseTool sm a ''bank'' ''drop_-_db'' = Some False) \<and>
    (\<exists>c\<in>set (cl_getAvailableServers sm a). sx_userId c \<noteq> None \<and> sx_userId c \<noteq> Some (ac_userId a))"
proof -
  let ?a = "demo_user ''ann''"
  have "map_option (map lt_name) (listTools demo_registry ?a) =
    Some [''pay_-_1'', ''drop_-_db_-_1'', ''pay_-_2'', ''drop_-_db_-_2'']" by code_simp
  then obtain tools where t: "listTools demo_registry ?a = Some tools"
    "map lt_name tools = [''pay_-_1'', ''drop_-_db_-_1'', ''pay_-_2'', ''drop_-_db_-_2'']" by auto
  have "''drop_-_db_-_1'' \<in> lt_name ` set tools"
    unfolding list.set_map[symmetric] t(2) by simp
  then obtain t where l: "t \<in> set tools" "lt_name t = ''drop_-_db_-_1''" by auto
  have "resolveToolName demo_registry ?a ''drop_-_db_-_1'' = Some (Some (''bank'', ''drop_-_db''))"
    by code_simp
  then have "\<exists>tools t. listTools demo_registry ?a = Some tools \<and> t \<in> set tools \<and>
       resolveToolName demo_registry ?a (lt_name t) = Some (Some (''bank'', ''drop_-_db'')) \<and>
       canUseTool demo_registry ?a ''bank'' ''drop_-_db'' = Some False"
    using l t(1) by (intro exI[of _ tools] exI[of _ t] conjI) (simp_all, code_simp)
  moreover have "\<exists>c\<in>set (cl_getAvailableServers demo_registry ?a).
      sx_userId c \<noteq> None \<and> sx_userId c \<noteq> Some (ac_userId ?a)" by code_simp
  ultimately have "registry_reach demo_registry \<and>
    (\<exists>tools t. listTools demo_registry ?a = Some tools \<and> t \<in> set tools \<and>
       resolveToolName demo_registry ?a (lt_name t) = Some (Some (''bank'', ''drop_-_db'')) \<and>
       canUseTool demo_registry ?a ''bank'' ''drop_-_db'' = Some False) \<and>
    (\<exists>c\<in>set (cl_getAvailableServers demo_registry ?a).
       sx_userId c \<noteq> None \<and> sx_userId c \<noteq> Some (ac_userId ?a))"
    using demo_registry_reach by (intro conjI)
  then show ?thesis by (rule exI[of _ demo_registry, OF exI[of _ ?a]])
qed

text \<open>
  A permission record without a table of tools, which the token validator accepts, makes the
  whole listing throw.
\<close>

lemma partial_permissions_throw:
  "listTools demo_registry ((demo_user ''ann'')\<lparr>ac_permissions := [(''bank'',
     \<lparr>ct_tools = None, ct_resources = None, ct_prompts = None, sp_enabled = Some True\<rparr>)]\<rparr>) = None"
  by code_simp

end
