(* ===== verification/Gateway_Run.thy ===== *)
theory Gateway_Run
  imports Access_Control Approval_Queue Cache_Manager Request_Ids
begin

text \<open>
  How a request handler runs. The gateway is one process: between two \<open>await\<close>s a handler runs
  alone, at an \<open>await\<close> everything else may happen. The theory holds the shared state the handlers
  of \<open>mcp/core/ProxySession.ts\<close> read and write, the environment that decides what happens
  meanwhile and what the outside answers, and the first handler parts that wait:
  \<open>pollApprovalStatus\<close> and \<open>waitForApproval\<close>, with the messages and replayed results they lead to.
\<close>

section \<open>Shared state and environment\<close>

text \<open>
  \<open>w_mapper\<close> is the identifier mapper of the session at hand; \<open>w_starting\<close> the keys of
  \<open>serverWaitQueues\<close>.
\<close>

record ('r, 's) world =
  w_registry :: server_registry
  w_queue :: approval_queue
  w_policies :: "'r policy_world"
  w_cache :: "'s cache_manager"
  w_mapper :: id_mapper
  w_starting :: "string list"

text \<open>An error of a downstream call; \<open>ce_timeout\<close> marks an \<open>McpError\<close> with the code of a timeout.\<close>

record call_error =
  ce_timeout :: bool
  ce_text :: string

text \<open>
  The errors a handler throws, by the code the client sees; a plain \<open>Error\<close> is seen as an internal
  error.
\<close>

datatype mcp_error = MethodNotFound string | InvalidParams string | InvalidRequestError string | InternalError string

text \<open>
  The environment of a handler. The first group is fixed: the platform, the digests and codecs,
  the store of the result cache, the switch for lazy start and the token of the owner. The second
  group is indexed by the number of the \<open>await\<close>: what others do to the shared state, the
  milliseconds it takes, how far the clock of the database is ahead, fresh identifiers (which
  differ from those in the table), whether the client has cancelled, whether a query fails, what
  a downstream server answers to a call and to a ping, what becomes of an attempt to connect a
  server, what the calls that lead a flight or a start get that this call joins, and what the
  database and the session store know of a server and a user.
\<close>

record ('r, 's) call_env =
  en_platform :: "'r platform"
  en_fresh :: 'r
  en_approvals :: approval_env
  en_cache :: cache_env
  en_store :: "'s store_ops"
  en_lazy :: bool
  en_ownerToken :: "string option"
  en_others :: "nat \<Rightarrow> ('r, 's) world \<Rightarrow> ('r, 's) world"
  en_elapsed :: "nat \<Rightarrow> nat"
  en_skew :: "nat \<Rightarrow> int"
  en_uuid :: "nat \<Rightarrow> approval_table \<Rightarrow> nat \<Rightarrow> string"
  en_aborted :: "nat \<Rightarrow> bool"
  en_queryFails :: "nat \<Rightarrow> bool"
  en_cacheDown :: "nat \<Rightarrow> outage"
  en_reply :: "nat \<Rightarrow> call_error + json"
  en_ping :: "nat \<Rightarrow> call_error option"
  en_connect :: "nat \<Rightarrow> server_context \<Rightarrow> mcp_error option \<times> server_context"
  en_downstreamId :: "nat \<Rightarrow> request_id"
  en_flight :: "nat \<Rightarrow> (call_error + json) option"
  en_observers :: "nat \<Rightarrow> nat"
  en_started :: "nat \<Rightarrow> mcp_error + unit"
  en_server :: "nat \<Rightarrow> string \<Rightarrow> (server_context \<times> server_entity) option"
  en_session :: "nat \<Rightarrow> string \<Rightarrow> ((string \<times> string) list \<times> string) option"

text \<open>What a handler does that others can see, newest first.\<close>

datatype call_event =
    Permitted string string
  | Judged string string policy_result
  | Created string
  | Progress nat
  | Claimed string
  | Forwarded nat string string json "string option"
  | MarkedExecuted string
  | MarkedFailed string string

record ('r, 's) call_state =
  cs_world :: "('r, 's) world"
  cs_tick :: nat
  cs_now :: int
  cs_trace :: "call_event list"

definition emit :: "call_event \<Rightarrow> ('r, 's) call_state \<Rightarrow> ('r, 's) call_state" where
  "emit ev st = st\<lparr>cs_trace := ev # cs_trace st\<rparr>"

text \<open>
  \<open>pass\<close> is the passing of one \<open>await\<close>; the clock does not run backwards. \<open>await\<close> is an awaited
  operation on the shared state, which others may precede and follow.
\<close>

definition pass :: "('r, 's) call_env \<Rightarrow> ('r, 's) call_state \<Rightarrow> ('r, 's) call_state" where
  "pass e st = st\<lparr>cs_world := en_others e (cs_tick st) (cs_world st),
     cs_now := cs_now st + int (en_elapsed e (cs_tick st)), cs_tick := Suc (cs_tick st)\<rparr>"

definition await ::
    "('r, 's) call_env \<Rightarrow> (nat \<Rightarrow> int \<Rightarrow> ('r, 's) world \<Rightarrow> 'a \<times> ('r, 's) world) \<Rightarrow>
     ('r, 's) call_state \<Rightarrow> 'a \<times> ('r, 's) call_state" where
  "await e operation st =
     (let st1 = pass e st;
          (result, w) = operation (cs_tick st1) (cs_now st1) (cs_world st1)
      in (result, pass e (st1\<lparr>cs_world := w\<rparr>)))"

definition sleep :: "('r, 's) call_env \<Rightarrow> int \<Rightarrow> ('r, 's) call_state \<Rightarrow> ('r, 's) call_state" where
  "sleep e ms st = (pass e st)\<lparr>cs_now := cs_now (pass e st) + ms\<rparr>"

section \<open>Waiting for an approval\<close>

definition APPROVAL_POLL_INTERVAL_MS :: int where "APPROVAL_POLL_INTERVAL_MS = 3000"
definition APPROVAL_WAIT_TIMEOUT_MS :: int where "APPROVAL_WAIT_TIMEOUT_MS = 55000"

datatype wait_status = WApproved | WRejected | WTimeout | WExpired | WAborted | WExecuting | WExecuted | WFailed

type_synonym wait_result = "wait_status \<times> string option"

text \<open>The result that ends the waiting, if any, and whether the request was seen executing.\<close>

definition poll_status :: "approval_request option \<Rightarrow> wait_result option \<times> bool" where
  "poll_status request =
     (case request of
        None \<Rightarrow> (Some (WExpired, None), False)
      | Some r \<Rightarrow>
          (case ar_status r of
             Approved \<Rightarrow> (Some (WApproved, None), False)
           | Rejected \<Rightarrow> (Some (WRejected, ar_decisionReason r), False)
           | Expired \<Rightarrow> (Some (WExpired, None), False)
           | Pending \<Rightarrow> (None, False)
           | Executing \<Rightarrow> (None, True)
           | Executed \<Rightarrow> (Some (WExecuted, None), True)
           | Failed \<Rightarrow> (Some (WFailed, ar_executionError r), True)))"

definition pollApprovalStatus ::
    "('r, 's) call_env \<Rightarrow> string \<Rightarrow> ('r, 's) call_state \<Rightarrow> (wait_result option \<times> bool) \<times> ('r, 's) call_state" where
  "pollApprovalStatus e i st =
     await e (\<lambda>k now w. (if en_queryFails e k then (None, False)
        else poll_status (approval_findById i (q_table (w_queue w))), w)) st"

text \<open>
  The loop of \<open>waitForApproval\<close>. \<open>token\<close> says whether the client asked for progress. The sleep is
  cut short only by a cancellation, which the check after it sees.
\<close>

definition send_progress ::
    "('r, 's) call_env \<Rightarrow> bool \<Rightarrow> int \<times> nat \<Rightarrow> ('r, 's) call_state \<Rightarrow> (int \<times> nat) \<times> ('r, 's) call_state" where
  "send_progress e token pr st =
     (if token \<and> cs_now st \<ge> fst pr
      then (let st1 = pass e (emit (Progress (snd pr + 1)) st) in ((cs_now st1 + 15000, snd pr + 1), st1))
      else (pr, st))"

lemma cs_now_simps [simp]:
  "cs_now (emit ev st) = cs_now st" "cs_now st \<le> cs_now (pass e st)"
  by (simp_all add: emit_def pass_def)

lemma await_now: "await e operation st = (x, st') \<Longrightarrow> cs_now st \<le> cs_now st'"
  by (auto simp: await_def pass_def Let_def split: prod.splits)

lemma send_progress_now: "cs_now st \<le> cs_now (snd (send_progress e token pr st))"
  by (auto simp: send_progress_def Let_def pass_def emit_def)

lemma sleep_now: "cs_now st + ms \<le> cs_now (sleep e ms st)"
  by (simp add: sleep_def pass_def)

function wait_loop ::
    "('r, 's) call_env \<Rightarrow> string \<Rightarrow> bool \<Rightarrow> int \<Rightarrow> int \<times> nat \<Rightarrow> bool \<Rightarrow> ('r, 's) call_state \<Rightarrow>
     wait_result \<times> ('r, 's) call_state" where
  "wait_loop e i token deadline pr executing st =
     (if cs_now st < deadline then
        if en_aborted e (cs_tick st) then ((WAborted, None), st)
        else
          (let (pr', st1) = send_progress e token pr st;
               remainingMs = deadline - cs_now st1 in
           if remainingMs \<le> 0 then ((if executing then WExecuting else WTimeout, None), st1)
           else
             (let st2 = sleep e (min APPROVAL_POLL_INTERVAL_MS remainingMs) st1 in
              if en_aborted e (cs_tick st2) then ((WAborted, None), st2)
              else case pollApprovalStatus e i st2 of
                  ((Some result, _), st3) \<Rightarrow> (result, st3)
                | ((None, executing'), st3) \<Rightarrow> wait_loop e i token deadline pr' executing' st3))
      else ((if executing then WExecuting else WTimeout, None), st))"
  by pat_completeness auto
termination
proof (relation "measure (\<lambda>(e, i, token, deadline, pr, executing, st). nat (deadline - cs_now st))",
    simp, goal_cases)
  case (1 e i token deadline pr executing st p pr' st1 remainingMs st2 poll st3 res executing')
  have "cs_now st \<le> cs_now st1" using send_progress_now[of st e token pr] 1(3,4) by (metis snd_conv)
  moreover have "cs_now st1 < cs_now st2"
    using 1(5,6,7) sleep_now[of st1 "min APPROVAL_POLL_INTERVAL_MS remainingMs" e]
    by (auto simp: APPROVAL_POLL_INTERVAL_MS_def)
  moreover have "cs_now st2 \<le> cs_now st3"
    using await_now[OF 1(9)[unfolded pollApprovalStatus_def, symmetric]] by simp
  ultimately show ?case using 1(1) by simp
qed

declare wait_loop.simps [simp del]

definition waitForApproval ::
    "('r, 's) call_env \<Rightarrow> string \<Rightarrow> bool \<Rightarrow> ('r, 's) call_state \<Rightarrow> wait_result \<times> ('r, 's) call_state" where
  "waitForApproval e i token st =
     (let deadline = cs_now st + APPROVAL_WAIT_TIMEOUT_MS in
      if en_aborted e (cs_tick st) then ((WAborted, None), st)
      else case pollApprovalStatus e i st of
          ((Some result, _), st1) \<Rightarrow> (result, st1)
        | ((None, executing), st1) \<Rightarrow>
            wait_loop e i token deadline (cs_now st + 15000, 0) executing st1)"

text \<open>
  Waiting ends. If no single step of the surroundings takes longer than \<open>d\<close> milliseconds, the wait
  is over three such steps after the limit at the latest.
\<close>

lemma pass_within: "(\<And>k. int (en_elapsed e k) \<le> d) \<Longrightarrow> cs_now (pass e st) \<le> cs_now st + d"
  by (simp add: pass_def)

lemma poll_within:
  assumes "\<And>k. int (en_elapsed e k) \<le> d" "pollApprovalStatus e i st = (x, st')"
  shows "cs_now st' \<le> cs_now st + 2 * d"
proof -
  have "cs_now st' = cs_now st + int (en_elapsed e (cs_tick st)) + int (en_elapsed e (Suc (cs_tick st)))"
    using assms(2) by (auto simp: pollApprovalStatus_def await_def pass_def Let_def split: prod.splits)
  then show ?thesis using assms(1)[of "cs_tick st"] assms(1)[of "Suc (cs_tick st)"] by linarith
qed

lemma send_progress_within:
  assumes "\<And>k. int (en_elapsed e k) \<le> d" "send_progress e token pr st = (x, st')"
  shows "cs_now st' \<le> cs_now st + d"
proof -
  have "0 \<le> d" using assms(1)[of 0] by linarith
  with assms(2) pass_within[OF assms(1), of "emit (Progress (snd pr + 1)) st"] show ?thesis
    by (auto simp: send_progress_def Let_def split: if_splits)
qed

lemma wait_loop_within:
  assumes "\<And>k. int (en_elapsed e k) \<le> d"
  shows "wait_loop e i token deadline pr executing st = (x, st') \<Longrightarrow> cs_now st \<le> deadline + 3 * d \<Longrightarrow>
    cs_now st' \<le> deadline + 3 * d"
  using assms
proof (induction e i token deadline pr executing st arbitrary: x st' rule: wait_loop.induct)
  case (1 e i token deadline pr executing st)
  note step = 1(4)
  have d0: "0 \<le> d" using step[of 0] by linarith
  obtain pr' st1 where sp: "send_progress e token pr st = (pr', st1)" by fastforce
  let ?st2 = "sleep e (min APPROVAL_POLL_INTERVAL_MS (deadline - cs_now st1)) st1"
  obtain res ex' st3 where po: "pollApprovalStatus e i ?st2 = ((res, ex'), st3)" by (metis prod.exhaust)
  have n1: "cs_now st1 \<le> cs_now st + d" by (rule send_progress_within[OF step sp])
  have n2: "cs_now ?st2 \<le> deadline + d" using pass_within[OF step, of st1] by (simp add: sleep_def)
  have n3: "cs_now st3 \<le> deadline + 3 * d" using poll_within[OF step po] n2 by linarith
  have rest: "cs_now st' \<le> deadline + 3 * d"
    if "cs_now st < deadline" "\<not> en_aborted e (cs_tick st)" "\<not> deadline - cs_now st1 \<le> 0"
      "\<not> en_aborted e (cs_tick ?st2)" "res = None" "wait_loop e i token deadline pr' ex' st3 = (x, st')"
    using 1(1)[OF that(1,2) refl sp[symmetric] refl that(3) refl that(4) po[symmetric] refl that(5,6) n3 step] .
  from 1(2) show ?case
    by (subst (asm) wait_loop.simps)
      (use d0 n1 n2 n3 1(3) rest in \<open>auto simp: sp po Let_def split: if_splits option.splits\<close>)
qed

lemma wait_loop_now: "wait_loop e i token deadline pr executing st = (x, st') \<Longrightarrow> cs_now st \<le> cs_now st'"
proof (induction e i token deadline pr executing st arbitrary: x st' rule: wait_loop.induct)
  case (1 e i token deadline pr executing st)
  obtain pr' st1 where sp: "send_progress e token pr st = (pr', st1)" by fastforce
  let ?ms = "min APPROVAL_POLL_INTERVAL_MS (deadline - cs_now st1)"
  let ?st2 = "sleep e ?ms st1"
  obtain res ex' st3 where po: "pollApprovalStatus e i ?st2 = ((res, ex'), st3)" by (metis prod.exhaust)
  have n1: "cs_now st \<le> cs_now st1" using send_progress_now[of st e token pr] sp by simp
  have n2: "cs_now st1 \<le> cs_now ?st2" if "\<not> deadline - cs_now st1 \<le> 0"
    using sleep_now[of st1 ?ms e] that by (simp add: APPROVAL_POLL_INTERVAL_MS_def)
  have n3: "cs_now ?st2 \<le> cs_now st3" using await_now[OF po[unfolded pollApprovalStatus_def]] .
  have rest: "cs_now st \<le> cs_now st'"
    if "cs_now st < deadline" "\<not> en_aborted e (cs_tick st)" "\<not> deadline - cs_now st1 \<le> 0"
      "\<not> en_aborted e (cs_tick ?st2)" "res = None" "wait_loop e i token deadline pr' ex' st3 = (x, st')"
    using 1(1)[OF that(1,2) refl sp[symmetric] refl that(3) refl that(4) po[symmetric] refl that(5,6)] n1 n2[OF that(3)] n3
    by linarith
  from 1(2) show ?case
    by (subst (asm) wait_loop.simps)
      (use n1 n2 n3 rest in \<open>fastforce simp: sp po Let_def split: if_splits option.splits\<close>)
qed

text \<open>
  C36: a call does not wait for an approval much longer than the limit of 55 seconds. If no single
  query or notification takes longer than \<open>d\<close> milliseconds, \<open>waitForApproval\<close> returns at most
  \<open>3 * d\<close> milliseconds after the limit, whatever happens to the request and the client.
\<close>

theorem approval_wait_bounded:
  assumes "\<forall>k. int (en_elapsed e k) \<le> d" "waitForApproval e i token st = (x, st')"
  shows "cs_now st \<le> cs_now st' \<and> cs_now st' \<le> cs_now st + APPROVAL_WAIT_TIMEOUT_MS + 3 * d"
proof -
  obtain res ex' st1 where po: "pollApprovalStatus e i st = ((res, ex'), st1)" by (metis prod.exhaust)
  have d: "\<And>k. int (en_elapsed e k) \<le> d" "0 \<le> d" using assms(1) assms(1)[rule_format, of 0] by auto
  have n1: "cs_now st1 \<le> cs_now st + 2 * d" by (rule poll_within[OF d(1) po])
  have m1: "cs_now st \<le> cs_now st1" using await_now[OF po[unfolded pollApprovalStatus_def]] .
  have loop: "cs_now st \<le> cs_now st' \<and> cs_now st' \<le> cs_now st + APPROVAL_WAIT_TIMEOUT_MS + 3 * d"
    if "wait_loop e i token (cs_now st + APPROVAL_WAIT_TIMEOUT_MS) pr ex st1 = (x, st')" for pr ex
    using wait_loop_within[OF d(1) that] wait_loop_now[OF that] n1 m1 d(2) by (simp add: APPROVAL_WAIT_TIMEOUT_MS_def)
  from assms(2) n1 m1 d(2) show ?thesis
    by (auto simp: waitForApproval_def po Let_def split: if_splits option.splits dest: loop)
      (simp_all add: APPROVAL_WAIT_TIMEOUT_MS_def)
qed

section \<open>What a waiting call is told\<close>

fun wait_text :: "wait_status \<Rightarrow> string" where
  "wait_text WApproved = ''approved''"
| "wait_text WRejected = ''rejected''"
| "wait_text WTimeout = ''timeout''"
| "wait_text WExpired = ''expired''"
| "wait_text WAborted = ''aborted''"
| "wait_text WExecuting = ''executing''"
| "wait_text WExecuted = ''executed''"
| "wait_text WFailed = ''failed''"

definition mapApprovalStatusToWaitStatus :: "approval_status option \<Rightarrow> wait_status" where
  "mapApprovalStatusToWaitStatus status =
     (case status of
        Some Expired \<Rightarrow> WExpired
      | Some Executing \<Rightarrow> WExecuting
      | Some Executed \<Rightarrow> WExecuted
      | Some Failed \<Rightarrow> WFailed
      | _ \<Rightarrow> WTimeout)"

definition getApprovalGuidanceByStatus :: "string \<Rightarrow> string" where
  "getApprovalGuidanceByStatus status =
     (if status = ''timeout'' \<or> status = ''executing''
      then ''Retry this exact tool call after approval or execution completes.''
      else if status = ''expired''
      then ''A new approval request is required. Retry the same tool call to create one.''
      else if status = ''aborted''
      then ''Retry this exact tool call if you still want to request approval.''
      else if status = ''executed''
      then ''No retry needed for this request. Check prior result logs if required.''
      else if status = ''failed''
      then ''Retry the tool call if you want a fresh execution attempt.''
      else if status = ''rate_limited'' then ''Wait and retry after the rate-limit window.''
      else ''Retry this exact tool call once approval is granted.'')"

record outcome_message =
  om_text :: string
  om_kind :: string
  om_approvalRequestId :: "string option"
  om_resumeToken :: "string option"
  om_status :: string
  om_requestHash :: "string option"
  om_toolName :: string
  om_policyVersion :: int

definition buildApprovalOutcomeMessage ::
    "string option \<Rightarrow> string option \<Rightarrow> string option \<Rightarrow> string \<Rightarrow> string \<Rightarrow> int \<Rightarrow> string \<Rightarrow> string \<Rightarrow> string \<Rightarrow>
     outcome_message" where
  "buildApprovalOutcomeMessage approvalRequestId resumeToken requestHash toolName reason policyVersion kind status
     summary =
     (let shown = (\<lambda>x. case x of Some s \<Rightarrow> s | None \<Rightarrow> ''N/A'') in
      \<lparr>om_text = js_join [CHR 0x0A]
         [''TOOL NOT EXECUTED: '' @ summary, [], ''Approval Request ID: '' @ shown approvalRequestId,
          ''Resume Token: '' @ shown resumeToken, ''Tool: '' @ toolName, ''Reason: '' @ reason, [],
          getApprovalGuidanceByStatus status],
       om_kind = kind, om_approvalRequestId = approvalRequestId, om_resumeToken = resumeToken,
       om_status = status, om_requestHash = requestHash, om_toolName = toolName,
       om_policyVersion = policyVersion\<rparr>)"

definition nonExecutedSummary :: "wait_result \<Rightarrow> string" where
  "nonExecutedSummary r =
     (case fst r of
        WTimeout \<Rightarrow> ''Approval is still pending and this tool call timed out before execution.''
      | WExpired \<Rightarrow> ''Approval request expired before a decision. This tool call did not execute.''
      | WAborted \<Rightarrow> ''Client cancelled while waiting for approval. This tool call did not execute.''
      | WExecuting \<Rightarrow> ''Execution has started in another session. This call did not execute the tool.''
      | WExecuted \<Rightarrow> ''This request already executed in another session. This call did not execute the tool.''
      | WFailed \<Rightarrow> ''Execution failed in another session'' @
          (case snd r of Some why \<Rightarrow> if why = [] then ''.'' else '': '' @ why | None \<Rightarrow> ''.'')
      | _ \<Rightarrow> ''Tool was not executed.'')"

section \<open>Replaying a stored result\<close>

definition is_error :: "json \<Rightarrow> bool" where
  "is_error result = (case result of JObj _ fs \<Rightarrow> map_of fs ''isError'' = Some (JBool True) | _ \<Rightarrow> False)"

definition error_result :: "string \<Rightarrow> json" where
  "error_result t = JObj () [(''content'', JArr () [JObj () [(''type'', JStr ''text''), (''text'', JStr t)]]),
     (''isError'', JBool True)]"

definition field_or_undef :: "string \<Rightarrow> unit fields \<Rightarrow> json" where
  "field_or_undef k fs = (case map_of fs k of Some v \<Rightarrow> v | None \<Rightarrow> JUndef)"

definition valid_content_item :: "json \<Rightarrow> bool" where
  "valid_content_item item =
     (case item of
        JObj _ fs \<Rightarrow> (case map_of fs ''type'' of Some (JStr _) \<Rightarrow> True | _ \<Rightarrow> False)
      | _ \<Rightarrow> False)"

definition extractReplayCallToolResult :: "json option \<Rightarrow> json option" where
  "extractReplayCallToolResult executionResult =
     (case executionResult of
        Some (JObj _ fs) \<Rightarrow>
          (case map_of fs ''content'' of
             Some (JArr r items) \<Rightarrow>
               if list_ex (\<lambda>item. \<not> valid_content_item item) items then None
               else Some (JObj () [(''content'', JArr r items),
                 (''isError'', JBool (map_of fs ''isError'' = Some (JBool True))),
                 (''_meta'', field_or_undef ''_meta'' fs),
                 (''structuredContent'', field_or_undef ''structuredContent'' fs)])
           | _ \<Rightarrow> None)
      | _ \<Rightarrow> None)"

definition replay_result :: "approval_request option \<Rightarrow> json option" where
  "replay_result resultRequest =
     (case resultRequest of
        None \<Rightarrow> None
      | Some r \<Rightarrow>
          (let replayPayload = extractReplayCallToolResult (ar_executionResult r) in
           if ar_status r = Executed \<and> replayPayload \<noteq> None then replayPayload
           else if ar_status r = Failed \<and> (\<exists>p\<in>set_option replayPayload. is_error p) then replayPayload
           else if ar_status r = Failed
           then Some (error_result (case ar_executionError r of Some err \<Rightarrow> err | None \<Rightarrow> ''Execution failed in another request.''))
           else None))"

definition tryBuildReplayToolResult ::
    "('r, 's) call_env \<Rightarrow> string \<Rightarrow> ('r, 's) call_state \<Rightarrow> json option \<times> ('r, 's) call_state" where
  "tryBuildReplayToolResult e i st =
     await e (\<lambda>k now w. (if en_queryFails e k then None
        else replay_result (getResultById i (q_table (w_queue w))), w)) st"

section \<open>Relations that handlers keep\<close>

text \<open>
  The interface between the parts of the handlers and what is proved of them: a relation of worlds
  that others keep and that does not see the registry, the starts in progress, the identifiers
  or the cache of the policy engine. Then no part that changes only these leaves the relation,
  however long it waits.
\<close>

locale world_relation =
  fixes e :: "('r, 's) call_env"
    and R :: "('r, 's) world \<Rightarrow> ('r, 's) world \<Rightarrow> bool"
  assumes refl [simp]: "R w w"
    and trans: "R w w1 \<Longrightarrow> R w1 w2 \<Longrightarrow> R w w2"
    and others: "R w (en_others e k w)"
    and registry: "R w (w\<lparr>w_registry := sm\<rparr>)"
    and starting: "R w (w\<lparr>w_starting := keys\<rparr>)"
    and mapper: "R w (w\<lparr>w_mapper := m\<rparr>)"
    and policies: "R w (w\<lparr>w_policies := p\<rparr>)"
begin

lemma rel_pass: "R (cs_world st) (cs_world (pass e st))"
  by (simp add: pass_def others)

lemma rel_sleep: "R (cs_world st) (cs_world (sleep e ms st))"
  by (simp add: sleep_def pass_def others)

lemma rel_await:
  assumes "await e operation st = (x, st')" "\<And>k now w. R w (snd (operation k now w))"
  shows "R (cs_world st) (cs_world st')"
proof -
  let ?s1 = "pass e st"
  let ?w = "snd (operation (cs_tick ?s1) (cs_now ?s1) (cs_world ?s1))"
  have "st' = pass e (?s1\<lparr>cs_world := ?w\<rparr>)"
    using assms(1) by (auto simp: await_def Let_def split: prod.splits)
  then have "R ?w (cs_world st')" using rel_pass[of "?s1\<lparr>cs_world := ?w\<rparr>"] by simp
  then show ?thesis using trans[OF trans[OF rel_pass assms(2)]] by blast
qed

lemma rel_read:
  assumes "await e operation st = (x, st')" "\<And>k now w. snd (operation k now w) = w"
  shows "R (cs_world st) (cs_world st')"
  using rel_await[OF assms(1)] assms(2) by simp

lemma rel_poll: "pollApprovalStatus e i st = (x, st') \<Longrightarrow> R (cs_world st) (cs_world st')"
  unfolding pollApprovalStatus_def by (erule rel_read) simp

lemma rel_replay: "tryBuildReplayToolResult e i st = (x, st') \<Longrightarrow> R (cs_world st) (cs_world st')"
  unfolding tryBuildReplayToolResult_def by (erule rel_read) simp

lemma rel_progress: "send_progress e token pr st = (x, st') \<Longrightarrow> R (cs_world st) (cs_world st')"
  using rel_pass[of "emit (Progress (Suc (snd pr))) st"]
  by (auto simp: send_progress_def Let_def emit_def split: if_splits)

lemma rel_wait_loop:
  "wait_loop e i token deadline pr executing st = (x, st') \<Longrightarrow> R (cs_world st) (cs_world st')"
proof (induction "nat (deadline - cs_now st)" arbitrary: pr executing st rule: less_induct)
  case less
  obtain pr' st1 where sp: "send_progress e token pr st = (pr', st1)" by fastforce
  let ?ms = "min APPROVAL_POLL_INTERVAL_MS (deadline - cs_now st1)"
  obtain res ex' st3 where po: "pollApprovalStatus e i (sleep e ?ms st1) = ((res, ex'), st3)"
    by (metis prod.exhaust)
  have r: "R (cs_world st) (cs_world st1)" "R (cs_world st) (cs_world (sleep e ?ms st1))" "R (cs_world st) (cs_world st3)"
    using rel_progress[OF sp] rel_sleep rel_poll[OF po] trans by blast+
  have now: "cs_now st + ?ms \<le> cs_now st3"
    using send_progress_now[of st e token pr] sleep_now[of st1 ?ms e] await_now[OF po[unfolded pollApprovalStatus_def]]
    by (simp add: sp)
  have rest: "R (cs_world st) (cs_world st')"
    if "cs_now st < deadline" "\<not> deadline - cs_now st1 \<le> 0" "wait_loop e i token deadline pr' ex' st3 = (x, st')"
  proof -
    have "0 < ?ms" using that(2) by (simp add: APPROVAL_POLL_INTERVAL_MS_def)
    with now that(1) have "nat (deadline - cs_now st3) < nat (deadline - cs_now st)" by linarith
    from trans[OF r(3) less(1)[OF this that(3)]] show ?thesis .
  qed
  from less(2) r show ?case
    by (subst (asm) wait_loop.simps) (auto simp: sp po Let_def split: if_splits option.splits intro: rest)
qed

lemma rel_wait:
  assumes "waitForApproval e i token st = (x, st')"
  shows "R (cs_world st) (cs_world st')"
proof -
  obtain res ex' st1 where po: "pollApprovalStatus e i st = ((res, ex'), st1)" by (metis prod.exhaust)
  note r = rel_poll[OF po]
  from assms r show ?thesis
    by (auto simp: waitForApproval_def po Let_def split: if_splits option.splits
        dest!: rel_wait_loop intro: trans[OF r])
qed

end

end
