(* ===== verification/Server_Start.thy ===== *)
theory Server_Start
  imports Gateway_Run
begin

text \<open>
  Bringing a server up before it is called (\<open>ensureServerAvailable\<close> and what it calls in
  \<open>mcp/core/ServerManager.ts\<close>) and giving one up that does not answer (\<open>recordTimeout\<close> of
  \<open>mcp/core/ServerContext.ts\<close>, \<open>reconnectServer\<close> and \<open>reconnectTemporaryServer\<close>).

  \<open>createServerConnection\<close> speaks to the outside: whether it fails and what it leaves in the
  context is \<open>en_connect\<close> of the environment.
\<close>

section \<open>Contexts as objects\<close>

text \<open>
  The code holds references to contexts across \<open>await\<close>s; a context is identified by its number.
  One that has left the registry stays as it was last seen there.
\<close>

definition put_context :: "server_context \<Rightarrow> server_registry \<Rightarrow> server_registry" where
  "put_context c sm =
     (let put = (\<lambda>(k, x). (k, if sx_id x = sx_id c then c else x))
      in sm\<lparr>serverContexts := map put (serverContexts sm), temporaryServers := map put (temporaryServers sm)\<rparr>)"

definition current_context :: "server_context \<Rightarrow> server_registry \<Rightarrow> server_context" where
  "current_context c sm =
     (case find (\<lambda>x. sx_id x = sx_id c) (all_contexts sm) of Some x \<Rightarrow> x | None \<Rightarrow> c)"

definition change_context ::
    "(server_context \<Rightarrow> server_context) \<Rightarrow> server_context \<Rightarrow> ('r, 's) world \<Rightarrow> ('r, 's) world" where
  "change_context f c w = w\<lparr>w_registry := put_context (f (current_context c (w_registry w))) (w_registry w)\<rparr>"

definition on_world :: "(('r, 's) world \<Rightarrow> ('r, 's) world) \<Rightarrow> ('r, 's) call_state \<Rightarrow> ('r, 's) call_state" where
  "on_world f st = st\<lparr>cs_world := f (cs_world st)\<rparr>"

section \<open>Restoring a context\<close>

definition restored_status :: "bool \<Rightarrow> server_entity \<Rightarrow> server_status" where
  "restored_status lazy s = (if isLazyStartApplicable lazy s then Sleeping else Offline)"

definition restoreManagedServerContext ::
    "('r, 's) call_env \<Rightarrow> string \<Rightarrow> ('r, 's) call_state \<Rightarrow> server_context option \<times> ('r, 's) call_state" where
  "restoreManagedServerContext e serverId st =
     await e (\<lambda>k now w.
       (case en_server e k serverId of
          None \<Rightarrow> (None, w)
        | Some (row, server) \<Rightarrow>
            if \<not> se_enabled server \<or> se_allowUserInput server then (None, w)
            else (let (c, sm) = initializeManagedServerContext row server
                       (Some (restored_status (en_lazy e) server)) now (w_registry w)
                  in (Some c, w\<lparr>w_registry := sm\<rparr>)))) st"

definition restoreTemporaryServerContext ::
    "('r, 's) call_env \<Rightarrow> string \<Rightarrow> string \<Rightarrow> ('r, 's) call_state \<Rightarrow> server_context option \<times> ('r, 's) call_state" where
  "restoreTemporaryServerContext e serverId userId st =
     (case en_session e (cs_tick st) userId of
        None \<Rightarrow> (None, st)
      | Some (launchConfigs, token) \<Rightarrow>
          (case map_of launchConfigs serverId of
             None \<Rightarrow> (None, st)
           | Some launchConfig \<Rightarrow>
               if launchConfig = [] then (None, st)
               else await e (\<lambda>k now w.
                 (case en_server e k serverId of
                    None \<Rightarrow> (None, w)
                  | Some (row, server) \<Rightarrow>
                      if \<not> se_enabled server \<or> \<not> se_allowUserInput server then (None, w)
                      else (let (c, sm) = initializeTemporaryServerContext row
                                 (server\<lparr>se_launchConfig := json_quote launchConfig\<rparr>) userId (Some token)
                                 (Some (restored_status (en_lazy e) server)) now (w_registry w)
                            in (Some c, w\<lparr>w_registry := sm\<rparr>)))) st))"

definition restoreServerContext ::
    "('r, 's) call_env \<Rightarrow> string \<Rightarrow> string \<Rightarrow> ('r, 's) call_state \<Rightarrow> server_context option \<times> ('r, 's) call_state" where
  "restoreServerContext e serverId userId st =
     (let (temporary, st1) = (if userId = [] then (None, st) else restoreTemporaryServerContext e serverId userId st)
      in case temporary of
           Some c \<Rightarrow> (Some c, st1)
         | None \<Rightarrow> restoreManagedServerContext e serverId st1)"

section \<open>Starting a server\<close>

text \<open>\<open>None\<close> is success; the callers do not use the context that is returned.\<close>

definition connect_context ::
    "('r, 's) call_env \<Rightarrow> server_context \<Rightarrow> ('r, 's) call_state \<Rightarrow> mcp_error option \<times> ('r, 's) call_state" where
  "connect_context e c st =
     await e (\<lambda>k now w.
       (let (err, c') = en_connect e k (current_context c (w_registry w))
        in (err, w\<lparr>w_registry := put_context c' (w_registry w)\<rparr>))) st"

definition start_token :: "('r, 's) call_env \<Rightarrow> nat \<Rightarrow> server_entity \<Rightarrow> string \<Rightarrow> mcp_error + string" where
  "start_token e k server userId =
     (if se_allowUserInput server
      then if userId = [] then Inl (InvalidParams ''User ID is required for temporary servers'')
           else case en_session e k userId of
               None \<Rightarrow> Inl (InvalidParams (''User '' @ userId @ '' has no active session''))
             | Some (launchConfigs, token) \<Rightarrow> Inr token
      else case en_ownerToken e of
          None \<Rightarrow> Inl (InvalidParams ''Owner token not available. Please ensure Owner has accessed the API at least once.'')
        | Some token \<Rightarrow> Inr token)"

definition wakeupServer ::
    "('r, 's) call_env \<Rightarrow> server_context \<Rightarrow> string \<Rightarrow> ('r, 's) call_state \<Rightarrow> mcp_error option \<times> ('r, 's) call_state" where
  "wakeupServer e c userId st =
     (if \<not> isLazyStartApplicable (en_lazy e) (sx_entity c)
      then (Some (InvalidParams (''Server '' @ se_serverName (sx_entity c) @ '' does not support lazy start'')), st)
      else case start_token e (cs_tick st) (sx_entity c) userId of
          Inl err \<Rightarrow> (Some err, st)
        | Inr token \<Rightarrow> connect_context e c st)"

definition readyTimeoutMs :: int where "readyTimeoutMs = 50000"
definition readyCheckInterval :: int where "readyCheckInterval = 100"

text \<open>What \<open>waitForServerReady\<close> sees at a check: the outcome, or that it has to wait on.\<close>

definition ready_check :: "string \<Rightarrow> server_context option \<Rightarrow> mcp_error option option" where
  "ready_check serverId context =
     (let failed = (\<lambda>c. InternalError (''Server '' @ serverId @ '' failed to start: '' @
            (case sx_lastError c of Some err \<Rightarrow> err | None \<Rightarrow> ''undefined'')))
      in case context of
           None \<Rightarrow> None
         | Some c \<Rightarrow>
             if sx_status c = Online then Some None
             else if sx_status c = ErrorStatus then Some (Some (failed c))
             else if sx_status c \<noteq> Connecting \<and> sx_lastError c \<notin> {None, Some []} then Some (Some (failed c))
             else None)"

function waitForServerReady ::
    "('r, 's) call_env \<Rightarrow> string \<Rightarrow> string \<Rightarrow> int \<Rightarrow> ('r, 's) call_state \<Rightarrow> mcp_error option \<times> ('r, 's) call_state" where
  "waitForServerReady e serverId userId startTime st =
     (if cs_now st - startTime < readyTimeoutMs then
        (case ready_check serverId (getServerContext serverId (Some userId) (w_registry (cs_world st))) of
           Some outcome \<Rightarrow> (outcome, st)
         | None \<Rightarrow> waitForServerReady e serverId userId startTime (sleep e readyCheckInterval st))
      else (Some (InternalError (''Server '' @ serverId @ '' startup timeout after '' @ int_str readyTimeoutMs @ ''ms'')), st))"
  by pat_completeness auto
termination
proof (relation "measure (\<lambda>(e, serverId, userId, startTime, st). nat (readyTimeoutMs + startTime - cs_now st))",
    simp, goal_cases)
  case (1 e serverId userId startTime st)
  then show ?case using sleep_now[of st readyCheckInterval e] by (simp add: readyCheckInterval_def)
qed

declare waitForServerReady.simps [simp del]

definition start_key :: "server_context \<Rightarrow> string \<Rightarrow> string \<Rightarrow> string" where
  "start_key c serverId userId =
     (if se_allowUserInput (sx_entity c) then serverId @ '':'' @ userId else serverId)"

definition startable :: "bool \<Rightarrow> server_context \<Rightarrow> bool" where
  "startable lazy c \<longleftrightarrow> sx_status c = Sleeping \<or> sx_status c = Offline \<or>
     (sx_status c = ErrorStatus \<and> isLazyStartApplicable lazy (sx_entity c))"

definition touch_active :: "int \<Rightarrow> server_context \<Rightarrow> server_context" where
  "touch_active now c = c\<lparr>sx_lastActive := now\<rparr>"

definition ensure_context ::
    "('r, 's) call_env \<Rightarrow> string \<Rightarrow> string \<Rightarrow> server_context \<Rightarrow> ('r, 's) call_state \<Rightarrow>
     mcp_error option \<times> ('r, 's) call_state" where
  "ensure_context e serverId userId c st =
     (let key = start_key c serverId userId;
          active = (\<lambda>st. on_world (change_context (touch_active (cs_now st)) c) st);
          starting = (\<lambda>f st. on_world (\<lambda>w. w\<lparr>w_starting := f (w_starting w)\<rparr>) st)
      in if sx_status c = Online then (None, active st)
         else if key \<in> set (w_starting (cs_world st))
         then (let st1 = pass e st
               in (case en_started e (cs_tick st) of Inl err \<Rightarrow> Some err | Inr _ \<Rightarrow> None, st1))
         else if startable (en_lazy e) c
         then (case wakeupServer e c userId (starting (\<lambda>ks. key # ks) st) of
                 (None, st1) \<Rightarrow> (None, starting (removeAll key) (active st1))
               | (Some err, st1) \<Rightarrow> (Some err, starting (removeAll key) st1))
         else if sx_status c = Connecting then waitForServerReady e serverId userId (cs_now st) st
         else (Some (InvalidParams (''Server '' @ serverId @ '' is in error state: '' @
                 (case sx_lastError c of Some err \<Rightarrow> if err = [] then ''Unknown error'' else err | None \<Rightarrow> ''Unknown error''))), st))"

definition ensureServerAvailable ::
    "('r, 's) call_env \<Rightarrow> string \<Rightarrow> string \<Rightarrow> ('r, 's) call_state \<Rightarrow> mcp_error option \<times> ('r, 's) call_state" where
  "ensureServerAvailable e serverId userId st =
     (case getServerContext serverId (Some userId) (w_registry (cs_world st)) of
        Some c \<Rightarrow> ensure_context e serverId userId c st
      | None \<Rightarrow>
          (case restoreServerContext e serverId userId st of
             (Some c, st1) \<Rightarrow> ensure_context e serverId userId (current_context c (w_registry (cs_world st1))) st1
           | (None, st1) \<Rightarrow>
               (Some (InvalidParams (''Server '' @ serverId @ '' not found in server contexts'')), st1)))"

section \<open>Giving up on a server\<close>

definition maxTimeoutCount :: nat where "maxTimeoutCount = 3"

definition sx_clearTimeout :: "server_context \<Rightarrow> server_context" where
  "sx_clearTimeout c = c\<lparr>sx_timeoutCount := 0\<rparr>"

definition disconnected :: "server_context \<Rightarrow> server_context" where
  "disconnected c = c\<lparr>sx_status := Offline, sx_connection := None, sx_lastError := None, sx_timeoutCount := 0\<rparr>"

text \<open>The old connection is closed and a new one made in one step.\<close>

definition reconnectServer ::
    "('r, 's) call_env \<Rightarrow> server_context \<Rightarrow> ('r, 's) call_state \<Rightarrow> mcp_error option \<times> ('r, 's) call_state" where
  "reconnectServer e c st =
     await e (\<lambda>k now w.
       (let sm = w_registry w;
            sm1 = (case map_of (serverContexts sm) (se_serverId (sx_entity c)) of
                     Some c0 \<Rightarrow> put_context (disconnected c0) sm | None \<Rightarrow> sm);
            (c1, sm2) = initializeManagedServerContext c (sx_entity c) None now sm1;
            (err, c2) = en_connect e k (c1\<lparr>sx_lastError := None, sx_timeoutCount := 0\<rparr>)
        in (err, w\<lparr>w_registry := put_context c2 sm2\<rparr>))) st"

definition reconnectTemporaryServer ::
    "('r, 's) call_env \<Rightarrow> server_context \<Rightarrow> string \<Rightarrow> string option \<Rightarrow> ('r, 's) call_state \<Rightarrow>
     mcp_error option \<times> ('r, 's) call_state" where
  "reconnectTemporaryServer e c userId token st =
     await e (\<lambda>k now w.
       (let sm = w_registry w;
            sm1 = (case getTemporaryServer (se_serverId (sx_entity c)) userId sm of
                     Some c0 \<Rightarrow> put_context (disconnected c0) sm | None \<Rightarrow> sm);
            (c1, sm2) = initializeTemporaryServerContext c (sx_entity c) userId token None now sm1;
            (err, c2) = en_connect e k (c1\<lparr>sx_lastError := None, sx_timeoutCount := 0\<rparr>)
        in (err, w\<lparr>w_registry := put_context c2 sm2\<rparr>))) st"

text \<open>
  \<open>recordTimeout\<close>: \<open>None\<close> when the error is no timeout, otherwise whether the server was
  reconnected; \<open>Inl\<close> is an error of the reconnection, which is thrown.
\<close>

definition recordTimeout ::
    "('r, 's) call_env \<Rightarrow> server_context \<Rightarrow> call_error \<Rightarrow> ('r, 's) call_state \<Rightarrow>
     (mcp_error + bool option) \<times> ('r, 's) call_state" where
  "recordTimeout e c err st =
     (if \<not> ce_timeout err then (Inr None, st)
      else
        (let st1 = on_world (change_context (\<lambda>x. x\<lparr>sx_timeoutCount := sx_timeoutCount x + 1\<rparr>) c) st;
             c1 = current_context c (w_registry (cs_world st1)) in
         if sx_timeoutCount c1 < maxTimeoutCount then (Inr (Some False), st1)
         else
           (let st2 = pass e st1 in
            case en_ping e (cs_tick st1) of
              None \<Rightarrow> (Inr (Some False), on_world (change_context sx_clearTimeout c) st2)
            | Some perr \<Rightarrow>
                if \<not> ce_timeout perr then (Inr (Some False), st2)
                else
                  (let c2 = current_context c (w_registry (cs_world st2));
                       outcome = (\<lambda>(err, st). (case err of Some thrown \<Rightarrow> Inl thrown | None \<Rightarrow> Inr (Some True), st))
                   in if se_allowUserInput (sx_entity c2)
                      then outcome (reconnectTemporaryServer e c2
                        (case sx_userId c2 of Some u \<Rightarrow> u | None \<Rightarrow> ''undefined'') (sx_userToken c2) st2)
                      else case en_ownerToken e of
                          None \<Rightarrow> (Inl (InvalidParams ''Owner token not available. Please ensure Owner has accessed the API at least once.''), st2)
                        | Some token \<Rightarrow> outcome (reconnectServer e c2 st2)))))"

section \<open>What starting and giving up leave alone\<close>

context world_relation
begin

lemma rel_restore: "restoreServerContext e serverId userId st = (x, st') \<Longrightarrow> R (cs_world st) (cs_world st')"
proof -
  have managed: "R (cs_world st) (cs_world st')" if "restoreManagedServerContext e serverId st = (x, st')" for st x st'
    using that unfolding restoreManagedServerContext_def
    by (rule rel_await) (auto split: option.splits prod.splits if_splits intro: registry)
  have temporary: "R (cs_world st) (cs_world st')"
    if "restoreTemporaryServerContext e serverId userId st = (x, st')" for st x st'
    using that unfolding restoreTemporaryServerContext_def
    by (auto split: option.splits prod.splits if_splits intro!: rel_await registry)
  show "restoreServerContext e serverId userId st = (x, st') \<Longrightarrow> R (cs_world st) (cs_world st')"
    using managed temporary trans
    by (auto simp: restoreServerContext_def split: if_splits option.splits prod.splits) blast+
qed

lemma rel_change: "R w (change_context f c w)"
  by (simp add: change_context_def registry)

lemma rel_ready: "waitForServerReady e serverId userId start st = (x, st') \<Longrightarrow> R (cs_world st) (cs_world st')"
proof (induction "nat (readyTimeoutMs + start - cs_now st)" arbitrary: st rule: less_induct)
  case less
  have dec: "cs_now st - start < readyTimeoutMs \<Longrightarrow>
      nat (readyTimeoutMs + start - cs_now (sleep e readyCheckInterval st)) < nat (readyTimeoutMs + start - cs_now st)"
    using sleep_now[of st readyCheckInterval e] by (simp add: readyCheckInterval_def)
  from less(2) show ?case
    by (subst (asm) waitForServerReady.simps)
      (auto split: if_splits option.splits intro: trans[OF rel_sleep less(1)[OF dec]])
qed

lemma rel_wakeup: "wakeupServer e c userId st = (x, st') \<Longrightarrow> R (cs_world st) (cs_world st')"
proof -
  have connect: "R (cs_world st) (cs_world st')" if "connect_context e c st = (x, st')" for x st'
    using that unfolding connect_context_def by (rule rel_await) (auto split: prod.splits intro: registry)
  then show "wakeupServer e c userId st = (x, st') \<Longrightarrow> R (cs_world st) (cs_world st')"
    by (auto simp: wakeupServer_def split: if_splits sum.splits prod.splits option.splits)
qed

lemma rel_ensure_context:
  assumes "ensure_context e serverId userId c st = (x, st')"
  shows "R (cs_world st) (cs_world st')"
proof -
  have wake: "R (cs_world st) (cs_world st')"
    if "wakeupServer e c userId (on_world (\<lambda>w. w\<lparr>w_starting := g w\<rparr>) st) = (x, st')" for g x st'
    using rel_wakeup[OF that] trans[OF starting] by (simp add: on_world_def)
  have after: "R w w2" if "R w w1" "R w1 w2" for w w1 w2 using that trans by blast
  from assms show ?thesis
    by (auto simp: ensure_context_def Let_def on_world_def
        split: if_splits option.splits prod.splits sum.splits
        intro: rel_change rel_pass dest!: wake[unfolded on_world_def] rel_ready
        intro!: after[OF _ starting])
      (auto intro: after[OF _ rel_change])
qed

lemma rel_ensure: "ensureServerAvailable e serverId userId st = (x, st') \<Longrightarrow> R (cs_world st) (cs_world st')"
  using trans
  by (auto simp: ensureServerAvailable_def split: option.splits prod.splits dest!: rel_ensure_context rel_restore)

lemma rel_recordTimeout:
  assumes "recordTimeout e c err st = (x, st')"
  shows "R (cs_world st) (cs_world st')"
proof -
  have managed: "R (cs_world st) (cs_world st')" if "reconnectServer e c st = (x, st')" for c st x st'
    using that unfolding reconnectServer_def by (rule rel_await) (auto simp: Let_def split: prod.splits intro: registry)
  have temporary: "R (cs_world st) (cs_world st')" if "reconnectTemporaryServer e c u token st = (x, st')" for c u token st x st'
    using that unfolding reconnectTemporaryServer_def
    by (rule rel_await) (auto simp: Let_def split: prod.splits intro: registry)
  have change: "R (cs_world st) (cs_world (on_world (change_context f c) st))" for f st
    by (simp add: on_world_def rel_change)
  have pass: "R (cs_world st) (cs_world (pass e (on_world (change_context f c) st)))" for f
    using trans[OF change rel_pass] .
  show ?thesis
    using assms
    by (auto simp: recordTimeout_def Let_def pass change intro: trans[OF pass] trans[OF pass change]
        split: if_splits option.splits prod.splits dest!: managed temporary)
qed

end

end
