(* ===== verification/Tool_Call.thy ===== *)
theory Tool_Call
  imports Server_Start
begin

text \<open>
  A call of a tool from end to end: \<open>handleToolCall\<close> of \<open>mcp/core/ProxySession.ts\<close>, from the
  resolution of the name to the removal of the request mapping, over the access control, the
  policy engine, the approval queue, the result cache, the start of servers and the request
  identifiers of the other theories.

  Not part of it: the catalog tools of progressive disclosure, which are answered before this code
  (a catalog tool that executes another one comes back here with its name), and the log records,
  which are written at every exit.
\<close>

section \<open>The request\<close>

record 'r tool_request =
  tr_id :: request_id
  tr_name :: string
  tr_arguments :: "'r jsval option"
  tr_meta :: "json option"

record session_user = auth_context +
  su_tenantId :: "string option"

text \<open>Reference identity plays no part in what is hashed, cached or sent.\<close>

definition plain :: "'r jsval \<Rightarrow> json" where
  "plain = map_jsval (\<lambda>_. ())"

definition call_args :: "('r, 's) call_env \<Rightarrow> 'r tool_request \<Rightarrow> 'r jsval" where
  "call_args e rq = (case tr_arguments rq of Some v \<Rightarrow> v | None \<Rightarrow> JObj (en_fresh e) [])"

definition arg_fields :: "'r tool_request \<Rightarrow> unit fields" where
  "arg_fields rq = (case tr_arguments rq of Some (JObj _ fs) \<Rightarrow> map (\<lambda>(k, v). (k, plain v)) fs | _ \<Rightarrow> [])"

definition cache_params :: "'r tool_request \<Rightarrow> json" where
  "cache_params rq = (case tr_arguments rq of Some v \<Rightarrow> plain v | None \<Rightarrow> JUndef)"

definition call_params :: "'r tool_request \<Rightarrow> string \<Rightarrow> json" where
  "call_params rq name = JObj () ((''name'', JStr name) #
     (case tr_arguments rq of Some v \<Rightarrow> [(''arguments'', plain v)] | None \<Rightarrow> []) @
     (case tr_meta rq of Some v \<Rightarrow> [(''_meta'', v)] | None \<Rightarrow> []))"

section \<open>Name, permission, danger level\<close>

text \<open>A check that throws a \<open>TypeError\<close> ends the call with it.\<close>

definition type_error :: mcp_error where
  "type_error = InternalError ''TypeError''"

definition resolve_call ::
    "session_user \<Rightarrow> 'r tool_request \<Rightarrow> server_registry \<Rightarrow> mcp_error + string \<times> string" where
  "resolve_call a rq sm =
     (case resolveToolName sm a (tr_name rq) of
        None \<Rightarrow> Inl type_error
      | Some None \<Rightarrow> Inl (MethodNotFound (''Tool '' @ tr_name rq @ '' not found''))
      | Some (Some (serverID, originalName)) \<Rightarrow>
          (case canUseTool sm a serverID originalName of
             None \<Rightarrow> Inl type_error
           | Some False \<Rightarrow> Inl (InvalidParams (''Permission denied for tool: '' @ tr_name rq))
           | Some True \<Rightarrow> Inr (serverID, originalName)))"

definition danger_of :: "session_user \<Rightarrow> server_context \<Rightarrow> string \<Rightarrow> string \<Rightarrow> danger_level option" where
  "danger_of a c serverID tool =
     (case (getDangerLevel a serverID tool, sx_getDangerLevel c tool) of
        (Some userLevel, Some serverLevel) \<Rightarrow>
          Some (case userLevel of
              Some d \<Rightarrow> d
            | None \<Rightarrow> (case serverLevel of Some d \<Rightarrow> d | None \<Rightarrow> Silent))
      | _ \<Rightarrow> None)"

definition judge ::
    "('r, 's) call_env \<Rightarrow> session_user \<Rightarrow> 'r tool_request \<Rightarrow> string \<Rightarrow> string \<Rightarrow> danger_level \<Rightarrow>
     ('r, 's) call_state \<Rightarrow> policy_result \<times> ('r, 's) call_state" where
  "judge e a rq serverID tool d st =
     (let (v, st1) = await e (\<lambda>k now w.
            (let (v, pw) = world_evaluate (en_platform e) (en_fresh e) now
                   \<lparr>ep_userId = ac_userId a, ep_serverId = Some serverID, ep_toolName = tool,
                    ep_args = call_args e rq, ep_dangerLevel = d\<rparr> (w_policies w)
             in (v, w\<lparr>w_policies := pw\<rparr>))) st
      in (v, emit (Judged serverID tool v) st1))"

section \<open>The fast path\<close>

definition tool_cache_request ::
    "session_user \<Rightarrow> 'r tool_request \<Rightarrow> string \<Rightarrow> string \<Rightarrow> resolved_policy \<Rightarrow> cache_request" where
  "tool_cache_request a rq serverID tool p =
     \<lparr>rq_operation = ToolOp, rq_serverId = serverID, rq_entityId = tool,
      rq_scopeContext = \<lparr>sc_userId = Some (ac_userId a), sc_tenantId = su_tenantId a\<rparr>,
      rq_policy = p, rq_params = cache_params rq\<rparr>"

definition cache_lookup ::
    "('r, 's) call_env \<Rightarrow> cache_request \<Rightarrow> ('r, 's) call_state \<Rightarrow> lookup_result \<times> ('r, 's) call_state" where
  "cache_lookup e q st =
     await e (\<lambda>k now w.
       (let (r, m) = manager_lookup (en_cache e) (en_store e) (en_cacheDown e k) q now (w_cache w)
        in (r, w\<lparr>w_cache := m\<rparr>))) st"

definition fast_path ::
    "('r, 's) call_env \<Rightarrow> session_user \<Rightarrow> 'r tool_request \<Rightarrow> string \<Rightarrow> string \<Rightarrow> ('r, 's) call_state \<Rightarrow>
     (mcp_error + json option) \<times> ('r, 's) call_state" where
  "fast_path e a rq serverID tool st =
     (case getServerContext serverID (Some (ac_userId a)) (w_registry (cs_world st)) of
        None \<Rightarrow> (Inr None, st)
      | Some c \<Rightarrow>
          if \<not> cfg_enabled (ce_config (en_cache e)) then (Inr None, st)
          else (case danger_of a c serverID tool of
              None \<Rightarrow> (Inl type_error, st)
            | Some d \<Rightarrow>
                (case resolveToolPolicy (config_capabilities c) tool (ce_config (en_cache e)) of
                   None \<Rightarrow> (Inr None, st)
                 | Some p \<Rightarrow>
                     if d = Approval then (Inr None, st)
                     else
                       (let (v, st1) = judge e a rq serverID tool d st in
                        if pr_decision v = Deny \<or> pr_decision v = RequireApproval then (Inr None, st1)
                        else (let (r, st2) = cache_lookup e (tool_cache_request a rq serverID tool p) st1
                              in (Inr (map_option env_payload (lk_entry r)), st2))))))"

section \<open>The approval gate\<close>

text \<open>
  The replies of a call; the constructor tells which return statement it comes from. A part of
  the handler either ends the call or goes on.
\<close>

datatype tool_reply =
    ServerResult json
  | CachedResult json
  | ReplayedResult json
  | RejectedResult json
  | FailedResult json
  | ApprovalNotice outcome_message

datatype 'x part = Stop "mcp_error + tool_reply" | Go 'x

definition approval_input_of ::
    "session_user \<Rightarrow> 'r tool_request \<Rightarrow> string \<Rightarrow> string \<Rightarrow> int \<Rightarrow> string \<Rightarrow> approval_input" where
  "approval_input_of a rq serverID tool version uniformRequestId =
     \<lparr>ai_userId = ac_userId a, ai_serverId = Some serverID, ai_toolName = tool, ai_args = arg_fields rq,
      ai_policyVersion = version, ai_uniformRequestId = Some uniformRequestId, ai_expiresInMs = None\<rparr>"

text \<open>
  The statements on the queue, with the ghost log of claims. The queries of \<open>checkOrCreateApproval\<close> run together here; how they interleave with others is the
  subject of the theory of the queue.
\<close>

definition queue_check ::
    "('r, 's) call_env \<Rightarrow> approval_input \<Rightarrow> ('r, 's) call_state \<Rightarrow>
     (approval_error + approval_check) \<times> ('r, 's) call_state" where
  "queue_check e inp st =
     await e (\<lambda>k now w.
       (let q = w_queue w;
            (r, t) = checkOrCreateApproval (en_approvals e) (\<lambda>_ t. t) (en_uuid e k (q_table q))
              (\<lambda>_. now) (\<lambda>_. now + en_skew e k) now inp (q_table q)
        in (r, w\<lparr>w_queue := q\<lparr>q_table := t\<rparr>\<rparr>))) st"

definition claim_op :: "string \<Rightarrow> int \<Rightarrow> approval_queue \<Rightarrow> (bool \<times> approval_request option) \<times> approval_queue" where
  "claim_op i dbnow q =
     (let (r, t) = claimForExecutionById i dbnow (q_table q)
      in (r, \<lparr>q_table = t, q_log = map (\<lambda>r. EvClaimed (ar_id r)) (filter (claim_id_guard i dbnow) (q_table q)) @ q_log q\<rparr>))"

definition queue_claim ::
    "('r, 's) call_env \<Rightarrow> string \<Rightarrow> ('r, 's) call_state \<Rightarrow> (bool \<times> approval_request option) \<times> ('r, 's) call_state" where
  "queue_claim e i st =
     await e (\<lambda>k now w. (let (r, q) = claim_op i (now + en_skew e k) (w_queue w) in (r, w\<lparr>w_queue := q\<rparr>))) st"

definition policy_reason :: "policy_result \<Rightarrow> string" where
  "policy_reason v = (case pr_reason v of Some r \<Rightarrow> r | None \<Rightarrow> ''Policy requires approval'')"

definition pending_notice ::
    "string \<Rightarrow> string \<Rightarrow> string \<Rightarrow> policy_result \<Rightarrow> wait_status \<Rightarrow> string \<Rightarrow> tool_reply" where
  "pending_notice i requestHash tool v status summary =
     ApprovalNotice (buildApprovalOutcomeMessage (Some i) (Some i) (Some requestHash) tool (policy_reason v)
       (pr_policyVersion v) ''approval_pending'' (wait_text status) summary)"

definition replay_or ::
    "('r, 's) call_env \<Rightarrow> string \<Rightarrow> tool_reply \<Rightarrow> ('r, 's) call_state \<Rightarrow> string part \<times> ('r, 's) call_state" where
  "replay_or e i otherwise st =
     (case tryBuildReplayToolResult e i st of
        (Some r, st1) \<Rightarrow> (Stop (Inr (ReplayedResult r)), st1)
      | (None, st1) \<Rightarrow> (Stop (Inr otherwise), st1))"

definition claim_approval ::
    "('r, 's) call_env \<Rightarrow> string \<Rightarrow> string \<Rightarrow> string \<Rightarrow> policy_result \<Rightarrow> ('r, 's) call_state \<Rightarrow>
     string part \<times> ('r, 's) call_state" where
  "claim_approval e i requestHash tool v st =
     (case queue_claim e i st of
        ((True, Some r), st1) \<Rightarrow> (Go (ar_id r), emit (Claimed (ar_id r)) st1)
      | (_, st1) \<Rightarrow>
          (let (status, st2) = await e (\<lambda>k now w.
                 (if en_queryFails e k then None
                  else map_option ar_status (approval_findById i (q_table (w_queue w))), w)) st1
           in replay_or e i (pending_notice i requestHash tool v (mapApprovalStatusToWaitStatus status)
                ''Execution is already in progress or completed elsewhere. This call did not execute the tool.'') st2))"

definition await_decision ::
    "('r, 's) call_env \<Rightarrow> approval_check \<Rightarrow> bool \<Rightarrow> string \<Rightarrow> policy_result \<Rightarrow> ('r, 's) call_state \<Rightarrow>
     string part \<times> ('r, 's) call_state" where
  "await_decision e chk token tool v st =
     (let i = ar_id (check_request chk);
          (res, st1) = waitForApproval e i token st in
      if fst res = WRejected
      then (Stop (Inr (RejectedResult (error_result (''Tool call rejected by administrator: '' @
             (case snd res of Some why \<Rightarrow> why | None \<Rightarrow> ''No reason provided''))))), st1)
      else if fst res \<noteq> WApproved
      then replay_or e i (pending_notice i (check_hash chk) tool v (fst res) (nonExecutedSummary res)) st1
      else claim_approval e i (check_hash chk) tool v st1)"

definition gate ::
    "('r, 's) call_env \<Rightarrow> session_user \<Rightarrow> 'r tool_request \<Rightarrow> string \<Rightarrow> string \<Rightarrow> policy_result \<Rightarrow> string \<Rightarrow>
     ('r, 's) call_state \<Rightarrow> string part \<times> ('r, 's) call_state" where
  "gate e a rq serverID tool v uniformRequestId st =
     (case queue_check e (approval_input_of a rq serverID tool (pr_policyVersion v) uniformRequestId) st of
        (Inl (ApprovalRateLimit message), st1) \<Rightarrow>
          (Stop (Inr (ApprovalNotice (buildApprovalOutcomeMessage None None None tool (policy_reason v)
             (pr_policyVersion v) ''approval_rate_limited'' ''rate_limited'' message))), st1)
      | (Inl err, st1) \<Rightarrow> (Stop (Inl (InternalError ''Failed to create or find approval request'')), st1)
      | (Inr chk, st1) \<Rightarrow>
          if needsApproval chk
          then await_decision e chk (progress_token (call_params rq tool) \<noteq> None) tool v
            (if check_created chk then emit (Created (ar_id (check_request chk))) st1 else st1)
          else claim_approval e (ar_id (check_request chk)) (check_hash chk) tool v st1)"

section \<open>Sending the call\<close>

text \<open>
  \<open>forwardToolCall\<close>: the request goes out over the connection the handler holds, recorded in the
  mapper; an answer clears the timeouts of the server. While it is under way, a timer renews the
  approval with \<open>touchExecuting\<close>; that is among what happens to the queue at the \<open>await\<close>.
\<close>

record target =
  tg_context :: server_context
  tg_connection :: nat
  tg_serverID :: string
  tg_tool :: string
  tg_danger :: danger_level
  tg_verdict :: policy_result
  tg_approval :: "string option"
  tg_proxyId :: string
  tg_params :: json

definition forwardToolCall ::
    "('r, 's) call_env \<Rightarrow> target \<Rightarrow> ('r, 's) call_state \<Rightarrow> (call_error + json) \<times> ('r, 's) call_state" where
  "forwardToolCall e t st =
     (let st1 = on_world (\<lambda>w. w\<lparr>w_mapper := registerDownstreamMapping (tg_proxyId t)
            (en_downstreamId e (cs_tick st)) (se_serverId (sx_entity (tg_context t))) (Some (tg_connection t)) (w_mapper w)\<rparr>)
            (emit (Forwarded (tg_connection t) (tg_serverID t) (tg_tool t) (tg_params t) (tg_approval t)) st);
          st2 = pass e st1
      in case en_reply e (cs_tick st1) of
           Inl err \<Rightarrow> (Inl err, st2)
         | Inr r \<Rightarrow> (Inr r, on_world (change_context sx_clearTimeout (tg_context t)) st2))"

text \<open>
  \<open>executeWithCache\<close> as it runs here: the lookup, then either a flight in progress that this call
  joins (\<open>en_flight\<close>) or the call itself, whose result is written afterwards.
\<close>

definition cache_write ::
    "('r, 's) call_env \<Rightarrow> cache_request \<Rightarrow> lookup_result \<Rightarrow> json \<Rightarrow> ('r, 's) call_state \<Rightarrow> ('r, 's) call_state" where
  "cache_write e q lk r st =
     snd (await e (\<lambda>k now w.
       ((), w\<lparr>w_cache := snd (storeResult (en_cache e) (en_store e) (en_cacheDown e k) q r
          (if rp_admissionPolicy (rq_policy q) = SecondHit then max 1 (en_observers e k) else 1)
          (lk_versions lk) now (w_cache w))\<rparr>)) st)"

definition cached_call ::
    "('r, 's) call_env \<Rightarrow> cache_request \<Rightarrow> target \<Rightarrow> ('r, 's) call_state \<Rightarrow>
     (call_error + json) \<times> ('r, 's) call_state" where
  "cached_call e q t st =
     (let (lk, st1) = cache_lookup e q st in
      case lk_entry lk of
        Some en \<Rightarrow> (Inr (env_payload en), st1)
      | None \<Rightarrow>
          if identityMissing q then forwardToolCall e t st1
          else (case en_flight e (cs_tick st1) of
              Some joined \<Rightarrow> (joined, pass e st1)
            | None \<Rightarrow>
                (case forwardToolCall e t st1 of
                   (Inl err, st2) \<Rightarrow> (Inl err, st2)
                 | (Inr r, st2) \<Rightarrow> (Inr r, cache_write e q lk r st2))))"

definition run_call ::
    "('r, 's) call_env \<Rightarrow> session_user \<Rightarrow> 'r tool_request \<Rightarrow> target \<Rightarrow> ('r, 's) call_state \<Rightarrow>
     (call_error + json) \<times> ('r, 's) call_state" where
  "run_call e a rq t st =
     (let shouldCacheToolResult = (pr_decision (tg_verdict t) \<noteq> RequireApproval \<and> tg_danger t \<noteq> Approval);
          storeCachePolicy = (if shouldCacheToolResult
            then resolveToolPolicy (config_capabilities (current_context (tg_context t) (w_registry (cs_world st))))
              (tg_tool t) (ce_config (en_cache e))
            else None)
      in case storeCachePolicy of
           Some p \<Rightarrow> cached_call e (tool_cache_request a rq (tg_serverID t) (tg_tool t) p) t st
         | None \<Rightarrow> forwardToolCall e t st)"

section \<open>After the call\<close>

definition queue_mark ::
    "('r, 's) call_env \<Rightarrow> (int \<Rightarrow> approval_table \<Rightarrow> approval_request option \<times> approval_table) \<Rightarrow>
     ('r, 's) call_state \<Rightarrow> approval_request option \<times> ('r, 's) call_state" where
  "queue_mark e mark st =
     await e (\<lambda>k now w.
       (if en_queryFails e k then (None, w)
        else (let (r, t) = mark now (q_table (w_queue w))
              in (r, w\<lparr>w_queue := (w_queue w)\<lparr>q_table := t\<rparr>\<rparr>)))) st"

definition mark_failed :: "('r, 's) call_env \<Rightarrow> string \<Rightarrow> string \<Rightarrow> ('r, 's) call_state \<Rightarrow> ('r, 's) call_state" where
  "mark_failed e i err st =
     (case queue_mark e (repo_markFailed i err) st of
        (Some r, st1) \<Rightarrow> emit (MarkedFailed (ar_id r) err) st1
      | (None, st1) \<Rightarrow> st1)"

definition mark_executed :: "('r, 's) call_env \<Rightarrow> string \<Rightarrow> json \<Rightarrow> ('r, 's) call_state \<Rightarrow> ('r, 's) call_state" where
  "mark_executed e i result st =
     (case queue_mark e (markExecuted (en_approvals e) i result) st of
        (Some r, st1) \<Rightarrow> emit (MarkedExecuted (ar_id r)) st1
      | (None, st1) \<Rightarrow> st1)"

definition finish_call :: "('r, 's) call_env \<Rightarrow> string option \<Rightarrow> json \<Rightarrow> ('r, 's) call_state \<Rightarrow> ('r, 's) call_state" where
  "finish_call e approval result st =
     (case approval of
        None \<Rightarrow> st
      | Some i \<Rightarrow>
          if is_error result then mark_failed e i ''Tool returned error'' st else mark_executed e i result st)"

text \<open>
  The \<open>catch\<close> block up to the test for a retry: what \<open>recordTimeout\<close> said, after the approval has
  been marked as failed. The test also asks for \<open>approvalRequestId == null\<close>, but the block has set
  it to null before, so it does not depend on the approval.
\<close>

definition fail_call ::
    "('r, 's) call_env \<Rightarrow> target \<Rightarrow> call_error \<Rightarrow> ('r, 's) call_state \<Rightarrow>
     (mcp_error + bool option) \<times> ('r, 's) call_state" where
  "fail_call e t err st =
     (case recordTimeout e (tg_context t) err st of
        (Inl thrown, st1) \<Rightarrow> (Inl thrown, st1)
      | (Inr isReconnected, st1) \<Rightarrow>
          (Inr isReconnected,
           case tg_approval t of None \<Rightarrow> st1 | Some i \<Rightarrow> mark_failed e i (ce_text err) st1))"

section \<open>The handler\<close>

text \<open>The part up to the verdict of the policy engine.\<close>

definition find_target ::
    "('r, 's) call_env \<Rightarrow> session_user \<Rightarrow> 'r tool_request \<Rightarrow> ('r, 's) call_state \<Rightarrow> target part \<times> ('r, 's) call_state" where
  "find_target e a rq st =
     (case resolve_call a rq (w_registry (cs_world st)) of
        Inl err \<Rightarrow> (Stop (Inl err), st)
      | Inr (serverID, tool) \<Rightarrow>
          (case fast_path e a rq serverID tool (emit (Permitted serverID tool) st) of
             (Inl err, st1) \<Rightarrow> (Stop (Inl err), st1)
           | (Inr (Some payload), st1) \<Rightarrow> (Stop (Inr (CachedResult payload)), st1)
           | (Inr None, st1) \<Rightarrow>
               (case ensureServerAvailable e serverID (ac_userId a) st1 of
                  (Some err, st2) \<Rightarrow> (Stop (Inl err), st2)
                | (None, st2) \<Rightarrow>
                    (let noServer = Stop (Inl (InvalidParams (''No server available for tool: '' @ tr_name rq))) in
                     case getServerContext serverID (Some (ac_userId a)) (w_registry (cs_world st2)) of
                       None \<Rightarrow> (noServer, st2)
                     | Some c \<Rightarrow>
                         (case sx_connection c of
                            None \<Rightarrow> (noServer, st2)
                          | Some client \<Rightarrow>
                              (case danger_of a c serverID tool of
                                 None \<Rightarrow> (Stop (Inl type_error), st2)
                               | Some d \<Rightarrow>
                                   (let (v, st3) = judge e a rq serverID tool d st2 in
                                    if pr_decision v = Deny
                                    then (Stop (Inl (InvalidRequestError (''Tool execution denied by policy: '' @
                                           (case pr_reason v of Some r \<Rightarrow> r | None \<Rightarrow> ''policy rule'')))), st3)
                                    else (Go \<lparr>tg_context = c, tg_connection = client, tg_serverID = serverID,
                                           tg_tool = tool, tg_danger = d, tg_verdict = v, tg_approval = None,
                                           tg_proxyId = [], tg_params = JUndef\<rparr>, st3))))))))"

text \<open>The approval, if the verdict asks for one.\<close>

definition pass_gate ::
    "('r, 's) call_env \<Rightarrow> session_user \<Rightarrow> 'r tool_request \<Rightarrow> string \<Rightarrow> ('r, 's) call_state \<Rightarrow>
     target part \<times> ('r, 's) call_state" where
  "pass_gate e a rq uniformRequestId st =
     (case find_target e a rq st of
        (Stop out, st1) \<Rightarrow> (Stop out, st1)
      | (Go t, st1) \<Rightarrow>
          if pr_decision (tg_verdict t) = RequireApproval
          then (case gate e a rq (tg_serverID t) (tg_tool t) (tg_verdict t) uniformRequestId st1 of
                  (Stop out, st2) \<Rightarrow> (Stop out, st2)
                | (Go i, st2) \<Rightarrow> (Go (t\<lparr>tg_approval := Some i\<rparr>), st2))
          else (Go t, st1))"

definition register_call ::
    "'r tool_request \<Rightarrow> target \<Rightarrow> ('r, 's) call_state \<Rightarrow> target \<times> ('r, 's) call_state" where
  "register_call rq t st =
     (let (p, m1) = registerClientRequest (tr_id rq) (Some ''tools/call'') (Some (tg_serverID t))
            (cs_now st) (cs_now st) (w_mapper (cs_world st));
          (params, m2) = rewriteProgressTokenForDownstream (call_params rq (tg_tool t)) p m1
      in (t\<lparr>tg_proxyId := p, tg_params := params\<rparr>, on_world (\<lambda>w. w\<lparr>w_mapper := m2\<rparr>) st))"

definition unregister_call :: "target \<Rightarrow> ('r, 's) call_state \<Rightarrow> ('r, 's) call_state" where
  "unregister_call t st = on_world (\<lambda>w. w\<lparr>w_mapper := removeMapping (tg_proxyId t) (w_mapper w)\<rparr>) st"

function handleToolCall ::
    "('r, 's) call_env \<Rightarrow> session_user \<Rightarrow> 'r tool_request \<Rightarrow> (nat \<Rightarrow> string) \<Rightarrow> nat \<Rightarrow> ('r, 's) call_state \<Rightarrow>
     (mcp_error + tool_reply) \<times> ('r, 's) call_state" where
  "handleToolCall e a rq uniformIds retryCount st =
     (case pass_gate e a rq (uniformIds retryCount) st of
        (Stop out, st1) \<Rightarrow> (out, st1)
      | (Go t0, st1) \<Rightarrow>
          (let (t, st2) = register_call rq t0 st1 in
           case run_call e a rq t st2 of
             (Inr result, st3) \<Rightarrow> (Inr (ServerResult result), unregister_call t (finish_call e (tg_approval t) result st3))
           | (Inl err, st3) \<Rightarrow>
               (case fail_call e t err st3 of
                  (Inl thrown, st4) \<Rightarrow> (Inl thrown, unregister_call t st4)
                | (Inr isReconnected, st4) \<Rightarrow>
                    if isReconnected = Some False \<and> retryCount < 2
                    then (let (out, st5) = handleToolCall e a rq uniformIds (retryCount + 1) st4
                          in (out, unregister_call t st5))
                    else (Inr (FailedResult (error_result (ce_text err))), unregister_call t st4))))"
  by pat_completeness auto
termination
  by (relation "measure (\<lambda>(e, a, rq, uniformIds, retryCount, st). 2 - retryCount)") auto

declare handleToolCall.simps [simp del]

end
