(* ===== verification/Tool_Call_Safety.thy ===== *)
theory Tool_Call_Safety
  imports Tool_Call
begin

text \<open>
  What a tool call may do: properties of \<open>handleToolCall\<close> for every environment, that is, for
  every answer of the servers, every decision of the administrators and everything other sessions
  do at the same time. The parts of the handler are shown to add only certain events to the trace
  and to move the approval queue by its own steps; from these the properties of whole calls follow.
\<close>

section \<open>What the parts of the handler show\<close>

text \<open>The events of a kind that a part of the handler adds.\<close>

definition adds :: "(call_event \<Rightarrow> bool) \<Rightarrow> ('r, 's) call_state \<Rightarrow> ('r, 's) call_state \<Rightarrow> bool" where
  "adds P st st' \<longleftrightarrow> (\<exists>xs. cs_trace st' = xs @ cs_trace st \<and> list_all P xs)"

lemma adds_same: "cs_trace st' = cs_trace st \<Longrightarrow> adds P st st'"
  by (simp add: adds_def)

lemma adds_refl [simp]: "adds P st st"
  by (simp add: adds_same)

lemma adds_trans [trans]: "adds P st st1 \<Longrightarrow> adds P st1 st2 \<Longrightarrow> adds P st st2"
  unfolding adds_def by (metis append_assoc list_all_append)

lemma adds_emit: "adds P st st' \<Longrightarrow> P ev \<Longrightarrow> adds P st (emit ev st')"
  by (auto simp: adds_def emit_def)

lemma adds_weaken: "adds P st st' \<Longrightarrow> (\<And>ev. P ev \<Longrightarrow> Q ev) \<Longrightarrow> adds Q st st'"
  unfolding adds_def list_all_iff by blast

lemma trace_simps [simp]:
  "cs_trace (emit ev st) = ev # cs_trace st" "cs_trace (pass e st) = cs_trace st"
  "cs_trace (sleep e ms st) = cs_trace st" "cs_trace (on_world f st) = cs_trace st"
  by (simp_all add: emit_def pass_def sleep_def on_world_def)

lemma await_trace: "await e operation st = (x, st') \<Longrightarrow> cs_trace st' = cs_trace st"
  by (auto simp: await_def pass_def Let_def split: prod.splits)

lemma poll_trace: "pollApprovalStatus e i st = (x, st') \<Longrightarrow> cs_trace st' = cs_trace st"
  unfolding pollApprovalStatus_def by (rule await_trace)

lemma restore_trace:
  "restoreServerContext e serverId userId st = (x, st') \<Longrightarrow> cs_trace st' = cs_trace st"
  by (auto simp: restoreServerContext_def restoreTemporaryServerContext_def restoreManagedServerContext_def
      split: if_splits option.splits prod.splits dest!: await_trace)

lemma ready_trace:
  "waitForServerReady e serverId userId start st = (x, st') \<Longrightarrow> cs_trace st' = cs_trace st"
  by (induction e serverId userId start st arbitrary: x st' rule: waitForServerReady.induct)
    (subst (asm) (2) waitForServerReady.simps, fastforce split: if_splits option.splits)

lemma ensure_context_trace:
  "ensure_context e serverId userId c st = (x, st') \<Longrightarrow> cs_trace st' = cs_trace st"
  by (auto simp: ensure_context_def wakeupServer_def connect_context_def Let_def
      split: if_splits option.splits prod.splits sum.splits dest!: await_trace ready_trace)

lemma ensure_trace: "ensureServerAvailable e serverId userId st = (x, st') \<Longrightarrow> cs_trace st' = cs_trace st"
  by (auto simp: ensureServerAvailable_def split: option.splits prod.splits
      dest!: ensure_context_trace restore_trace)

lemma recordTimeout_trace: "recordTimeout e c err st = (x, st') \<Longrightarrow> cs_trace st' = cs_trace st"
  by (auto simp: recordTimeout_def reconnectServer_def reconnectTemporaryServer_def Let_def
      split: if_splits option.splits prod.splits dest!: await_trace)

text \<open>
  A fair environment: what others do to the approval queue are steps of the queue, and new
  identifiers are new. The queue of a state moves by steps.
\<close>

definition fair_env :: "('r, 's) call_env \<Rightarrow> bool" where
  "fair_env e \<longleftrightarrow> (\<forall>k w. approval_step\<^sup>*\<^sup>* (w_queue w) (w_queue (en_others e k w))) \<and>
     (\<forall>k t n. en_uuid e k t n \<notin> set (map ar_id t))"

abbreviation queue_of :: "('r, 's) call_state \<Rightarrow> approval_queue" where
  "queue_of st \<equiv> w_queue (cs_world st)"

definition moves :: "('r, 's) call_state \<Rightarrow> ('r, 's) call_state \<Rightarrow> bool" where
  "moves st st' \<longleftrightarrow> approval_step\<^sup>*\<^sup>* (queue_of st) (queue_of st')"

lemma moves_refl [simp]: "moves st st"
  by (simp add: moves_def)

lemma moves_trans [trans]: "moves st st1 \<Longrightarrow> moves st1 st2 \<Longrightarrow> moves st st2"
  by (simp add: moves_def)

lemma moves_emit [simp]: "moves st (emit ev st') = moves st st'" "moves (emit ev st) st' = moves st st'"
  by (simp_all add: moves_def emit_def)

lemma queue_simps [simp]:
  "queue_of (emit ev st) = queue_of st" "(\<And>w. w_queue (f w) = w_queue w) \<Longrightarrow> queue_of (on_world f st) = queue_of st"
  by (simp_all add: emit_def on_world_def)

lemma moves_on_world: "(\<And>w. w_queue (f w) = w_queue w) \<Longrightarrow> moves st st' \<Longrightarrow> moves st (on_world f st')"
  by (simp add: moves_def)

lemma change_context_queue [simp]: "w_queue (change_context f c w) = w_queue w"
  by (simp add: change_context_def)

text \<open>In a fair environment, every part that does not write to the queue moves it by steps of others.\<close>

interpretation queue_rel: world_relation e "\<lambda>w w'. fair_env e \<longrightarrow> approval_step\<^sup>*\<^sup>* (w_queue w) (w_queue w')" for e
  by unfold_locales (auto simp: fair_env_def)

lemma moves_pass: "fair_env e \<Longrightarrow> moves st (pass e st)"
  unfolding moves_def using queue_rel.rel_pass by blast

lemma moves_await:
  assumes "fair_env e" "await e operation st = (x, st')"
    and "\<And>k now w. approval_step\<^sup>*\<^sup>* (w_queue w) (w_queue (snd (operation k now w)))"
  shows "moves st st'"
  using queue_rel.rel_await[OF assms(2)] assms(1,3) by (simp add: moves_def)

lemma moves_await_quiet:
  assumes "fair_env e" "await e operation st = (x, st')" "\<And>k now w. w_queue (snd (operation k now w)) = w_queue w"
  shows "moves st st'"
  using moves_await[OF assms(1,2)] assms(3) by simp

lemma moves_wait: "fair_env e \<Longrightarrow> waitForApproval e i token st = (x, st') \<Longrightarrow> moves st st'"
  unfolding moves_def using queue_rel.rel_wait by blast

lemma moves_ensure: "fair_env e \<Longrightarrow> ensureServerAvailable e serverId userId st = (x, st') \<Longrightarrow> moves st st'"
  unfolding moves_def using queue_rel.rel_ensure by blast

lemma moves_recordTimeout: "fair_env e \<Longrightarrow> recordTimeout e c err st = (x, st') \<Longrightarrow> moves st st'"
  unfolding moves_def using queue_rel.rel_recordTimeout by blast

lemma moves_replay: "fair_env e \<Longrightarrow> tryBuildReplayToolResult e i st = (x, st') \<Longrightarrow> moves st st'"
  unfolding moves_def using queue_rel.rel_replay by blast

section \<open>The gate\<close>

definition waiting_event :: "call_event \<Rightarrow> bool" where
  "waiting_event ev \<longleftrightarrow> (case ev of Created _ \<Rightarrow> True | Progress _ \<Rightarrow> True | _ \<Rightarrow> False)"

text \<open>A part of the handler: what it adds to the trace, and that the queue moves by steps.\<close>

definition part_of :: "(call_event \<Rightarrow> bool) \<Rightarrow> ('r, 's) call_state \<Rightarrow> ('r, 's) call_state \<Rightarrow> bool" where
  "part_of P st st' \<longleftrightarrow> adds P st st' \<and> moves st st'"

lemma part_refl [simp]: "part_of P st st"
  by (simp add: part_of_def)

lemma part_trans [trans]: "part_of P st st1 \<Longrightarrow> part_of P st1 st2 \<Longrightarrow> part_of P st st2"
  unfolding part_of_def using adds_trans moves_trans by blast

lemma part_emit: "P ev \<Longrightarrow> part_of P st st' \<Longrightarrow> part_of P st (emit ev st')"
  by (simp add: part_of_def adds_emit)

lemma part_same: "cs_trace st' = cs_trace st \<Longrightarrow> moves st st' \<Longrightarrow> part_of P st st'"
  by (simp add: part_of_def adds_same)

lemma part_weaken: "part_of P st st' \<Longrightarrow> (\<And>ev. P ev \<Longrightarrow> Q ev) \<Longrightarrow> part_of Q st st'"
  using adds_weaken unfolding part_of_def by blast

lemma part_on_world:
  "(\<And>w. w_queue (f w) = w_queue w) \<Longrightarrow> part_of P st st' \<Longrightarrow> part_of P st (on_world f st')"
  by (auto simp: part_of_def adds_def intro: moves_on_world)

lemma send_progress_adds: "send_progress e token pr st = (x, st') \<Longrightarrow> adds waiting_event st st'"
  by (auto simp: send_progress_def Let_def adds_def waiting_event_def split: if_splits)

lemma wait_loop_adds: "wait_loop e i token deadline pr executing st = (x, st') \<Longrightarrow> adds waiting_event st st'"
proof (induction e i token deadline pr executing st arbitrary: x st' rule: wait_loop.induct)
  case (1 e i token deadline pr executing st)
  obtain pr' st1 where sp: "send_progress e token pr st = (pr', st1)" by fastforce
  let ?ms = "min APPROVAL_POLL_INTERVAL_MS (deadline - cs_now st1)"
  obtain res ex' st3 where po: "pollApprovalStatus e i (sleep e ?ms st1) = ((res, ex'), st3)"
    by (metis prod.exhaust)
  note s1 = send_progress_adds[OF sp]
  have s: "adds waiting_event st (sleep e ?ms st1)" "adds waiting_event st st3"
    using s1 poll_trace[OF po] by (auto simp: adds_def)
  have rest: "adds waiting_event st st'"
    if "cs_now st < deadline" "\<not> en_aborted e (cs_tick st)" "\<not> deadline - cs_now st1 \<le> 0"
      "\<not> en_aborted e (cs_tick (sleep e ?ms st1))" "res = None"
      "wait_loop e i token deadline pr' ex' st3 = (x, st')"
    using 1(1)[OF that(1,2) refl sp[symmetric] refl that(3) refl that(4) po[symmetric] refl that(5,6)]
      s(2) adds_trans by blast
  from 1(2) s1 s show ?case
    by (subst (asm) wait_loop.simps)
      (auto simp: sp po Let_def split: if_splits option.splits intro: rest)
qed

lemma wait_part:
  assumes "fair_env e" "waitForApproval e i token st = (x, st')"
  shows "part_of waiting_event st st'"
proof -
  obtain res ex' st1 where po: "pollApprovalStatus e i st = ((res, ex'), st1)" by (metis prod.exhaust)
  have s1: "adds waiting_event st st1" using poll_trace[OF po] by (rule adds_same)
  from assms(2) have "adds waiting_event st st'"
    using s1 by (auto simp: waitForApproval_def po Let_def split: if_splits option.splits
        dest!: wait_loop_adds intro: adds_trans[OF s1])
  then show ?thesis using moves_wait[OF assms] by (simp add: part_of_def)
qed

text \<open>The creation of a request is made of steps of the queue; what it finds has the hash.\<close>

lemma create_steps:
  assumes "\<And>n. uuid n \<notin> set (map ar_id (q_table q))"
    and "createOrGetPending (\<lambda>_ t. t) uuid clock dbclock p n (q_table q) = (r, t')"
  shows "approval_step\<^sup>*\<^sup>* q (q\<lparr>q_table := t'\<rparr>) \<and>
    (\<forall>c req. r = Inr (c, req) \<longrightarrow> req \<in> set t' \<and> ar_requestHash req = cp_requestHash p)"
  using assms
proof (induction "\<lambda>(_ :: nat) (t :: approval_table). t" uuid clock dbclock p n "q_table q"
    arbitrary: q r t' rule: createOrGetPending.induct)
  case (1 uuid clock dbclock p n q)
  let ?ins = "insert_pending (uuid n) (clock n) p (q_table q)"
  have ins: "approval_step q (q\<lparr>q_table := snd ?ins\<rparr>)" using as_insert 1(2) by blast
  show ?case
  proof (cases "fst ?ins")
    case (Some req)
    then have "req \<in> set (snd ?ins)" "ar_requestHash req = cp_requestHash p"
      by (auto simp: insert_pending_def new_request_def split: if_splits)
    with 1(3) Some ins show ?thesis
      by (subst (asm) createOrGetPending.simps) (auto split: prod.splits)
  next
    case None
    then have same: "?ins = (None, q_table q)" by (auto simp: insert_pending_def split: if_splits)
    let ?found = "find_first_desc ar_createdAt (live_request (cp_requestHash p) (clock n)) (q_table q)"
    let ?q = "q\<lparr>q_table := expire_hash (cp_requestHash p) (dbclock n) (q_table q)\<rparr>"
    have "map ar_id (q_table ?q) = map ar_id (q_table q)"
      by (simp add: expire_hash_def map_sql_update expire_set_def)
    then have fresh: "uuid m \<notin> set (map ar_id (q_table ?q))" for m using 1(2) by presburger
    show ?thesis
    proof (cases ?found)
      case (Some req)
      then have "req \<in> set (q_table q)" "ar_requestHash req = cp_requestHash p"
        using find_first_desc_Some by (fastforce simp: live_request_def)+
      with 1(3) same Some show ?thesis by (subst (asm) createOrGetPending.simps) auto
    next
      case found: None
      show ?thesis
      proof (cases "n \<ge> 3")
        case True
        with 1(3) same found show ?thesis by (subst (asm) createOrGetPending.simps) auto
      next
        case False
        then have rec: "createOrGetPending (\<lambda>_ t. t) uuid clock dbclock p (n + 1) (q_table ?q) = (r, t')"
          using 1(3) same found by (subst (asm) createOrGetPending.simps) (auto simp: Let_def)
        have "approval_step q ?q" by (rule as_expire_hash)
        moreover have "approval_step\<^sup>*\<^sup>* ?q (?q\<lparr>q_table := t'\<rparr>) \<and>
            (\<forall>c req. r = Inr (c, req) \<longrightarrow> req \<in> set t' \<and> ar_requestHash req = cp_requestHash p)"
          using 1(1)[OF same[symmetric] refl refl found False refl refl _ fresh rec] by simp
        ultimately show ?thesis by (auto intro: converse_rtranclp_into_rtranclp)
      qed
    qed
  qed
qed

lemma check_steps:
  assumes "\<And>n. uuid n \<notin> set (map ar_id (q_table q))"
    and "checkOrCreateApproval ae (\<lambda>_ t. t) uuid clock dbclock now inp (q_table q) = (r, t')"
  shows "approval_step\<^sup>*\<^sup>* q (q\<lparr>q_table := t'\<rparr>) \<and>
    (\<forall>chk. r = Inr chk \<longrightarrow> check_request chk \<in> set t' \<and> check_hash chk = input_hash ae inp \<and>
       ar_requestHash (check_request chk) = input_hash ae inp)"
proof (cases "findActiveByRequestHash (input_hash ae inp) now (q_table q)")
  case (Some req)
  then have "req \<in> set (q_table q)" "ar_requestHash req = input_hash ae inp"
    using find_first_desc_Some unfolding findActiveByRequestHash_def by (fastforce simp: live_request_def)+
  with assms(2) Some show ?thesis by (auto simp: checkOrCreateApproval_def Let_def)
next
  case None
  obtain cr t1 where c: "createOrGetPending (\<lambda>_ t. t) uuid clock dbclock (input_params ae inp now) 0 (q_table q) = (cr, t1)"
    by fastforce
  have h: "cp_requestHash (input_params ae inp now) = input_hash ae inp" by (simp add: input_params_def)
  from create_steps[OF assms(1) c, unfolded h] assms(2) None c show ?thesis
    by (auto simp: checkOrCreateApproval_def Let_def split: if_splits sum.splits prod.splits)
qed

text \<open>Along steps of the queue a request keeps its hash, and the log only grows.\<close>

lemma step_keeps:
  assumes "approval_step q q'"
  shows "r \<in> set (q_table q) \<Longrightarrow> \<exists>r'\<in>set (q_table q'). ar_id r' = ar_id r \<and> ar_requestHash r' = ar_requestHash r"
    and "set (q_log q) \<subseteq> set (q_log q')"
proof -
  have upd: "\<exists>r'\<in>set (sql_update P f t). ar_id r' = ar_id r \<and> ar_requestHash r' = ar_requestHash r"
    if "r \<in> set t" "\<And>x. ar_id (f x) = ar_id x \<and> ar_requestHash (f x) = ar_requestHash x" for P f t r
    using that by (auto simp: set_sql_update)
  show "r \<in> set (q_table q) \<Longrightarrow> \<exists>r'\<in>set (q_table q'). ar_id r' = ar_id r \<and> ar_requestHash r' = ar_requestHash r"
    using assms
    by (cases rule: approval_step.cases)
      (auto simp: repo_writes approval_defs insert_pending_def intro!: upd)
  show "set (q_log q) \<subseteq> set (q_log q')" using assms by (cases rule: approval_step.cases) auto
qed

lemma steps_keep:
  assumes "approval_step\<^sup>*\<^sup>* q q'"
  shows "r \<in> set (q_table q) \<Longrightarrow> \<exists>r'\<in>set (q_table q'). ar_id r' = ar_id r \<and> ar_requestHash r' = ar_requestHash r"
    and "set (q_log q) \<subseteq> set (q_log q')" and "approval_reach q \<Longrightarrow> approval_reach q'"
  using assms
proof (induction rule: rtranclp_induct)
  case (step q1 q2)
  {
    case 1
    then show ?case using step(3) step_keeps(1)[OF step(2)] by fastforce
  next
    case 2
    then show ?case using step(4) step_keeps(2)[OF step(2)] by blast
  next
    case 3
    then show ?case using step(5) ar_next[OF _ step(2)] by blast
  }
qed auto

text \<open>
  A claim that was made between two states, of a request with the hash: the log had no claim of it
  before and has one now.
\<close>

definition claimed_for :: "string \<Rightarrow> ('r, 's) call_state \<Rightarrow> ('r, 's) call_state \<Rightarrow> string \<Rightarrow> bool" where
  "claimed_for h st st' i \<longleftrightarrow> EvClaimed i \<notin> set (q_log (queue_of st)) \<and> EvClaimed i \<in> set (q_log (queue_of st')) \<and>
     (\<exists>r\<in>set (q_table (queue_of st')). ar_id r = i \<and> ar_requestHash r = h)"

definition has_request :: "string \<Rightarrow> string \<Rightarrow> ('r, 's) call_state \<Rightarrow> bool" where
  "has_request h i st \<longleftrightarrow> (\<exists>r\<in>set (q_table (queue_of st)). ar_id r = i \<and> ar_requestHash r = h)"

lemma has_request_moves: "has_request h i st \<Longrightarrow> moves st st' \<Longrightarrow> has_request h i st'"
  using steps_keep(1) unfolding has_request_def moves_def by metis

lemma claimed_for_moves:
  "claimed_for h st st1 i \<Longrightarrow> moves st0 st \<Longrightarrow> moves st1 st2 \<Longrightarrow> claimed_for h st0 st2 i"
  using steps_keep(2) has_request_moves unfolding claimed_for_def moves_def has_request_def by blast

lemma reach_moves: "approval_reach (queue_of st) \<Longrightarrow> moves st st' \<Longrightarrow> approval_reach (queue_of st')"
  using steps_keep(3) unfolding moves_def by blast

lemma claim_op_step: "approval_step q (snd (claim_op i dbnow q))"
proof -
  have "snd (claim_op i dbnow q) = \<lparr>q_table = snd (claimApprovedForExecutionById i dbnow (q_table q)),
     q_log = map (\<lambda>r. EvClaimed (ar_id r)) (filter (claim_id_guard i dbnow) (q_table q)) @ q_log q\<rparr>"
    by (auto simp: claim_op_def claimForExecutionById_def split: prod.splits option.splits)
  then show ?thesis using as_claim_id by metis
qed

lemma claim_op_new:
  assumes "approval_reach q" "claim_op i dbnow q = ((True, Some r), q')"
    and "\<exists>r\<in>set (q_table q). ar_id r = i \<and> ar_requestHash r = h"
  shows "ar_id r = i \<and> EvClaimed i \<notin> set (q_log q) \<and> EvClaimed i \<in> set (q_log q')"
proof -
  have base: "queue_base q" using approval_reach_inv[OF assms(1)] by (simp add: queue_inv_def)
  from assms(2) have upd: "fst (update_one (claim_id_guard i dbnow) (claim_set dbnow) (q_table q)) = Some r"
    by (auto simp: claim_op_def claimForExecutionById_def claimApprovedForExecutionById_def
        split: prod.splits option.splits)
  then have "r \<in> set (sql_returning (claim_id_guard i dbnow) (claim_set dbnow) (q_table q))"
    by (auto simp: update_one_def split: list.splits)
  then obtain s where s: "s \<in> set (q_table q)" "claim_id_guard i dbnow s" "r = claim_set dbnow s"
    by (auto simp: sql_returning_def)
  then have "ar_id s = i" "ar_id r = i" "open_status (ar_status s)"
    by (simp_all add: claim_id_guard_def claim_set_def open_status_def)
  moreover have "EvClaimed (ar_id s) \<in> set (q_log q')"
    using assms(2) s(1,2) by (auto simp: claim_op_def split: prod.splits)
  ultimately show ?thesis using base s(1) by (auto simp: queue_base_def)
qed

lemma queue_claim_moves: "fair_env e \<Longrightarrow> queue_claim e i st = (x, st') \<Longrightarrow> moves st st'"
  unfolding queue_claim_def
  by (erule moves_await) (auto simp: Let_def case_prod_beta intro!: r_into_rtranclp claim_op_step)

lemma queue_claim_wins:
  assumes fair: "fair_env e" and reach: "approval_reach (queue_of st)"
    and won: "queue_claim e i st = ((True, Some r), st')" and req: "has_request h i st"
  shows "ar_id r = i \<and> claimed_for h st st' i"
proof -
  let ?s1 = "pass e st"
  obtain q' where op: "claim_op i (cs_now ?s1 + en_skew e (cs_tick ?s1)) (queue_of ?s1) = ((True, Some r), q')"
    and st': "st' = pass e (?s1\<lparr>cs_world := (cs_world ?s1)\<lparr>w_queue := q'\<rparr>\<rparr>)"
    using won unfolding queue_claim_def await_def by (auto simp: Let_def split: prod.splits)
  have m1: "moves st ?s1" by (rule moves_pass[OF fair])
  let ?s2 = "?s1\<lparr>cs_world := (cs_world ?s1)\<lparr>w_queue := q'\<rparr>\<rparr>"
  have m2: "moves ?s1 ?s2" 
    using claim_op_step[of "queue_of ?s1" i "cs_now ?s1 + en_skew e (cs_tick ?s1)"] op
    by (simp add: moves_def r_into_rtranclp)
  have m3: "moves ?s2 st'" unfolding st' by (rule moves_pass[OF fair])
  note new = claim_op_new[OF reach_moves[OF reach m1] op has_request_moves[OF req m1, unfolded has_request_def]]
  have "claimed_for h ?s1 ?s2 i"
    using new has_request_moves[OF has_request_moves[OF req m1] m2] by (simp add: claimed_for_def has_request_def)
  with new claimed_for_moves m1 m3 show ?thesis by blast
qed

definition call_hash :: "('r, 's) call_env \<Rightarrow> session_user \<Rightarrow> 'r tool_request \<Rightarrow> string \<Rightarrow> string \<Rightarrow> int \<Rightarrow> string" where
  "call_hash e a rq serverID tool version =
     input_hash (en_approvals e) (approval_input_of a rq serverID tool version [])"

lemma queue_check_part:
  assumes "fair_env e" "queue_check e (approval_input_of a rq serverID tool version uid) st = (r, st')"
  shows "moves st st'" "cs_trace st' = cs_trace st"
    "r = Inr chk \<Longrightarrow> has_request (call_hash e a rq serverID tool version) (ar_id (check_request chk)) st'"
proof -
  let ?inp = "approval_input_of a rq serverID tool version uid"
  let ?h = "call_hash e a rq serverID tool version"
  have h: "input_hash (en_approvals e) ?inp = ?h" by (simp add: call_hash_def input_hash_def approval_input_of_def)
  let ?s1 = "pass e st"
  let ?q = "queue_of ?s1"
  obtain t where op: "checkOrCreateApproval (en_approvals e) (\<lambda>_ t. t) (en_uuid e (cs_tick ?s1) (q_table ?q))
      (\<lambda>_. cs_now ?s1) (\<lambda>_. cs_now ?s1 + en_skew e (cs_tick ?s1)) (cs_now ?s1) ?inp (q_table ?q) = (r, t)"
    and st': "st' = pass e (?s1\<lparr>cs_world := (cs_world ?s1)\<lparr>w_queue := ?q\<lparr>q_table := t\<rparr>\<rparr>\<rparr>)"
    using assms(2) unfolding queue_check_def await_def by (auto simp: Let_def split: prod.splits)
  let ?s2 = "?s1\<lparr>cs_world := (cs_world ?s1)\<lparr>w_queue := ?q\<lparr>q_table := t\<rparr>\<rparr>\<rparr>"
  have fresh: "en_uuid e (cs_tick ?s1) (q_table ?q) n \<notin> set (map ar_id (q_table ?q))" for n
    using assms(1) by (simp add: fair_env_def)
  note chk = check_steps[OF fresh op]
  have m: "moves st ?s1" "moves ?s2 st'" unfolding st' by (rule moves_pass[OF assms(1)])+
  have m2: "moves ?s1 ?s2" using chk by (simp add: moves_def)
  show "moves st st'" using m m2 moves_trans by blast
  show "cs_trace st' = cs_trace st" unfolding st' by (simp add: pass_def)
  show "has_request ?h (ar_id (check_request chk)) st'" if "r = Inr chk"
  proof -
    have "has_request ?h (ar_id (check_request chk)) ?s2" using chk that h by (auto simp: has_request_def)
    then show ?thesis using has_request_moves m(2) by blast
  qed
qed

lemma replay_part:
  assumes "fair_env e" "replay_or e i other st = (out, st')"
  shows "part_of P st st' \<and> (\<exists>r. out = Stop (Inr r))"
proof -
  obtain r st1 where r: "tryBuildReplayToolResult e i st = (r, st1)" by fastforce
  have "part_of P st st1"
    by (rule part_same[OF await_trace[OF r[unfolded tryBuildReplayToolResult_def]] moves_replay[OF assms(1) r]])
  with assms(2) r show ?thesis by (auto simp: replay_or_def split: option.splits)
qed

text \<open>
  What the gate guarantees: the call either ends, after waiting only, or it goes on with a request
  that was claimed for it.
\<close>

definition gate_ok :: "string \<Rightarrow> ('r, 's) call_state \<Rightarrow> string part \<Rightarrow> ('r, 's) call_state \<Rightarrow> bool" where
  "gate_ok h st out st' \<longleftrightarrow> moves st st' \<and>
     (case out of
        Stop _ \<Rightarrow> adds waiting_event st st'
      | Go i \<Rightarrow> claimed_for h st st' i \<and>
          (\<exists>xs. cs_trace st' = Claimed i # xs @ cs_trace st \<and> list_all waiting_event xs))"

lemma gate_ok_before: "part_of waiting_event st0 st \<Longrightarrow> gate_ok h st out st' \<Longrightarrow> gate_ok h st0 out st'"
  unfolding gate_ok_def part_of_def
  by (auto split: part.splits intro: moves_trans adds_trans claimed_for_moves simp: adds_def)

lemma gate_ok_stop: "part_of waiting_event st st' \<Longrightarrow> gate_ok h st (Stop r) st'"
  by (simp add: gate_ok_def part_of_def)

lemma claim_gate:
  assumes "fair_env e" "approval_reach (queue_of st)" "has_request h i st"
    and "claim_approval e i requestHash tool v st = (out, st')"
  shows "gate_ok h st out st'"
proof -
  obtain won req st1 where c: "queue_claim e i st = ((won, req), st1)" by (metis prod.exhaust)
  have m1: "moves st st1" by (rule queue_claim_moves[OF assms(1) c])
  have t1: "cs_trace st1 = cs_trace st" using c unfolding queue_claim_def by (rule await_trace)
  show ?thesis
  proof (cases "won \<and> req \<noteq> None")
    case True
    then obtain r where r: "won" "req = Some r" by blast
    with assms(4) c have out: "out = Go (ar_id r)" "st' = emit (Claimed (ar_id r)) st1"
      by (auto simp: claim_approval_def)
    from queue_claim_wins[OF assms(1,2) _ assms(3)] c r have "ar_id r = i" "claimed_for h st st1 i" by simp_all
    with out m1 t1 show ?thesis by (simp add: gate_ok_def claimed_for_def)
  next
    case False
    obtain status st2 where s: "await e (\<lambda>k now w. (if en_queryFails e k then None
        else map_option ar_status (approval_findById i (q_table (w_queue w))), w)) st1 = (status, st2)" by fastforce
    from False assms(4) c s have "replay_or e i (pending_notice i requestHash tool v (mapApprovalStatusToWaitStatus status)
        ''Execution is already in progress or completed elsewhere. This call did not execute the tool.'') st2 = (out, st')"
      by (cases won; cases req) (auto simp: claim_approval_def)
    from replay_part[OF assms(1) this, of waiting_event] obtain r where r: "out = Stop r" "part_of waiting_event st2 st'" by blast
    have "moves st1 st2" using moves_await_quiet[OF assms(1) s] by simp
    then have "part_of waiting_event st st2"
      using part_trans[OF part_same[OF t1 m1] part_same[OF await_trace[OF s]]] by blast
    with r part_trans gate_ok_stop show ?thesis by blast
  qed
qed

lemma decision_gate:
  assumes "fair_env e" "approval_reach (queue_of st)" "has_request h (ar_id (check_request chk)) st"
    and "await_decision e chk token tool v st = (out, st')"
  shows "gate_ok h st out st'"
proof -
  let ?i = "ar_id (check_request chk)"
  obtain res st1 where w: "waitForApproval e ?i token st = (res, st1)" by fastforce
  note p = wait_part[OF assms(1) w]
  then have m: "moves st st1" by (simp add: part_of_def)
  have claim: "gate_ok h st out st'" if "claim_approval e ?i (check_hash chk) tool v st1 = (out, st')"
    using gate_ok_before[OF p claim_gate[OF assms(1) reach_moves[OF assms(2) m] has_request_moves[OF assms(3) m] that]] .
  have replay: "gate_ok h st out st'" if "replay_or e ?i n st1 = (out, st')" for n
    using replay_part[OF assms(1) that, of waiting_event] p part_trans gate_ok_stop by blast
  note stop = gate_ok_stop[OF p]
  from assms(4) w show ?thesis
    unfolding await_decision_def Let_def using claim replay stop by (auto split: if_splits)
qed

lemma gate_part:
  assumes "fair_env e" "approval_reach (queue_of st)" "gate e a rq serverID tool v uid st = (out, st')"
  shows "gate_ok (call_hash e a rq serverID tool (pr_policyVersion v)) st out st'"
proof -
  let ?inp = "approval_input_of a rq serverID tool (pr_policyVersion v) uid"
  obtain r st1 where q: "queue_check e ?inp st = (r, st1)" by fastforce
  note c = queue_check_part[OF assms(1) q]
  have p: "part_of waiting_event st st1" by (rule part_same[OF c(2,1)])
  have p2: "part_of waiting_event st (emit (Created i) st1)" for i
    using part_emit[OF _ p] by (simp add: waiting_event_def)
  note reach = reach_moves[OF assms(2) c(1)]
  show ?thesis
  proof (cases r)
    case (Inl err)
    with assms(3) q gate_ok_stop[OF p] show ?thesis by (cases err) (auto simp: gate_def)
  next
    case (Inr chk)
    let ?st = "if check_created chk then emit (Created (ar_id (check_request chk))) st1 else st1"
    have h: "has_request (call_hash e a rq serverID tool (pr_policyVersion v)) (ar_id (check_request chk)) ?st"
      "approval_reach (queue_of ?st)" "part_of waiting_event st ?st"
      using c(3)[OF Inr] reach p p2 by (auto simp: has_request_def)
    from assms(3) q Inr show ?thesis
      using gate_ok_before[OF h(3) decision_gate[OF assms(1) h(2,1)]]
        gate_ok_before[OF p claim_gate[OF assms(1) reach c(3)[OF Inr]]]
      by (auto simp: gate_def split: if_splits)
  qed
qed

section \<open>Before and after the gate\<close>

definition early_event :: "call_event \<Rightarrow> bool" where
  "early_event ev \<longleftrightarrow> (case ev of Permitted _ _ \<Rightarrow> True | Judged _ _ _ \<Rightarrow> True | _ \<Rightarrow> False)"

definition is_judged :: "call_event \<Rightarrow> bool" where
  "is_judged ev \<longleftrightarrow> (case ev of Judged _ _ _ \<Rightarrow> True | _ \<Rightarrow> False)"

definition is_forward :: "call_event \<Rightarrow> bool" where
  "is_forward ev \<longleftrightarrow> (case ev of Forwarded _ _ _ _ _ \<Rightarrow> True | _ \<Rightarrow> False)"

lemma judge_part:
  assumes "fair_env e" "judge e a rq serverID tool d st = (v, st')"
  shows "moves st st'" "cs_trace st' = Judged serverID tool v # cs_trace st"
proof -
  from assms(2) obtain st1 where j: "await e (\<lambda>k now w.
            (let (v, pw) = world_evaluate (en_platform e) (en_fresh e) now
                   \<lparr>ep_userId = ac_userId a, ep_serverId = Some serverID, ep_toolName = tool,
                    ep_args = call_args e rq, ep_dangerLevel = d\<rparr> (w_policies w)
             in (v, w\<lparr>w_policies := pw\<rparr>))) st = (v, st1)" "st' = emit (Judged serverID tool v) st1"
    by (auto simp: judge_def Let_def split: prod.splits)
  show "cs_trace st' = Judged serverID tool v # cs_trace st" using await_trace[OF j(1)] j(2) by simp
  have "moves st st1" using moves_await_quiet[OF assms(1) j(1)] by (simp add: Let_def split: prod.splits)
  then show "moves st st'" using j(2) by simp
qed

lemma lookup_part:
  assumes "fair_env e" "cache_lookup e q st = (r, st')"
  shows "moves st st'" "cs_trace st' = cs_trace st"
  using assms moves_await_quiet[OF assms(1)] await_trace unfolding cache_lookup_def
  by (force simp: Let_def split: prod.splits)+

lemma fast_path_part:
  assumes "fair_env e" "fast_path e a rq serverID tool st = (x, st')"
  shows "part_of is_judged st st'"
proof -
  have j: "part_of is_judged st st1" if "judge e a rq serverID tool d st = (v, st1)" for d v st1
    using judge_part[OF assms(1) that] by (simp add: part_of_def adds_def is_judged_def)
  have l: "part_of is_judged st st'" if "cache_lookup e q st1 = (r, st')" "part_of is_judged st st1" for q r st1 st'
    using lookup_part[OF assms(1) that(1)] that(2) part_same part_trans by blast
  from assms(2) show ?thesis
    by (auto simp: fast_path_def Let_def split: option.splits if_splits prod.splits intro: j l)
qed

lemma ensure_part: "fair_env e \<Longrightarrow> ensureServerAvailable e serverId userId st = (x, st') \<Longrightarrow> part_of P st st'"
  using ensure_trace moves_ensure part_same by blast

text \<open>What is known of the target of a call.\<close>

definition target_ok :: "('r, 's) call_state \<Rightarrow> target \<Rightarrow> ('r, 's) call_state \<Rightarrow> bool" where
  "target_ok st t st' \<longleftrightarrow> tg_approval t = None \<and> pr_decision (tg_verdict t) \<noteq> Deny \<and>
     (\<exists>ys. cs_trace st' = Judged (tg_serverID t) (tg_tool t) (tg_verdict t) # ys @
        Permitted (tg_serverID t) (tg_tool t) # cs_trace st \<and> list_all is_judged ys)"

lemma judged_early: "is_judged ev \<Longrightarrow> early_event ev"
  by (auto simp: is_judged_def early_event_def split: call_event.splits)

lemma find_target_part:
  assumes "fair_env e" "find_target e a rq st = (out, st')"
  shows "part_of early_event st st' \<and> (\<forall>t. out = Go t \<longrightarrow> target_ok st t st')"
proof (cases "resolve_call a rq (w_registry (cs_world st))")
  case (Inl err)
  with assms(2) show ?thesis by (auto simp: find_target_def)
next
  case (Inr found)
  obtain serverID tool where found: "found = (serverID, tool)" by fastforce
  let ?p = "emit (Permitted serverID tool) st"
  obtain fp st1 where fp: "fast_path e a rq serverID tool ?p = (fp, st1)" by fastforce
  obtain av st2 where av: "ensureServerAvailable e serverID (ac_userId a) st1 = (av, st2)" by fastforce
  have p0: "part_of early_event st ?p" by (rule part_emit) (simp_all add: early_event_def)
  note f = fast_path_part[OF assms(1) fp]
  have p1: "part_of early_event st st1" by (rule part_trans[OF p0 part_weaken[OF f judged_early]])
  have p2: "part_of early_event st st2" by (rule part_trans[OF p1 ensure_part[OF assms(1) av]])
  from f ensure_trace[OF av] obtain ys where ys: "cs_trace st2 = ys @ cs_trace ?p" "list_all is_judged ys"
    by (auto simp: part_of_def adds_def)
  have judged: "part_of early_event st st3 \<and>
      cs_trace st3 = Judged serverID tool v # ys @ Permitted serverID tool # cs_trace st"
    if "judge e a rq serverID tool d st2 = (v, st3)" for d v st3
    using judge_part[OF assms(1) that] ys p2 moves_trans
    by (auto simp: part_of_def adds_def early_event_def)
  from assms(2) Inr found fp av p1 p2 ys judged show ?thesis
    by (auto simp: find_target_def Let_def target_ok_def split: option.splits if_splits sum.splits prod.splits)
qed

definition is_mark :: "call_event \<Rightarrow> bool" where
  "is_mark ev \<longleftrightarrow> (case ev of MarkedExecuted _ \<Rightarrow> True | MarkedFailed _ _ \<Rightarrow> True | _ \<Rightarrow> False)"

lemma forward_part:
  assumes "fair_env e" "forwardToolCall e t st = (r, st')"
  shows "moves st st'" "cs_trace st' = Forwarded (tg_connection t) (tg_serverID t) (tg_tool t) (tg_params t) (tg_approval t) # cs_trace st"
proof -
  let ?s1 = "on_world (\<lambda>w. w\<lparr>w_mapper := registerDownstreamMapping (tg_proxyId t)
            (en_downstreamId e (cs_tick st)) (se_serverId (sx_entity (tg_context t))) (Some (tg_connection t)) (w_mapper w)\<rparr>)
            (emit (Forwarded (tg_connection t) (tg_serverID t) (tg_tool t) (tg_params t) (tg_approval t)) st)"
  have "moves st ?s1" by (simp add: moves_def)
  then have "moves st (pass e ?s1)" using moves_pass[OF assms(1)] moves_trans by blast
  with assms(2) show "moves st st'"
    by (auto simp: forwardToolCall_def Let_def split: sum.splits intro: moves_on_world)
  show "cs_trace st' = Forwarded (tg_connection t) (tg_serverID t) (tg_tool t) (tg_params t) (tg_approval t) # cs_trace st"
    using assms(2) by (auto simp: forwardToolCall_def Let_def split: sum.splits)
qed

text \<open>A part that sends the call at most once and shows nothing else.\<close>

definition sends :: "target \<Rightarrow> ('r, 's) call_state \<Rightarrow> ('r, 's) call_state \<Rightarrow> bool" where
  "sends t st st' \<longleftrightarrow> moves st st' \<and> (cs_trace st' = cs_trace st \<or>
     cs_trace st' = Forwarded (tg_connection t) (tg_serverID t) (tg_tool t) (tg_params t) (tg_approval t) # cs_trace st)"

lemma sends_before: "moves st0 st \<Longrightarrow> cs_trace st = cs_trace st0 \<Longrightarrow> sends t st st' \<Longrightarrow> sends t st0 st'"
  unfolding sends_def using moves_trans by metis

lemma forward_sends: "fair_env e \<Longrightarrow> forwardToolCall e t st = (r, st') \<Longrightarrow> sends t st st'"
  using forward_part unfolding sends_def by blast

lemma write_part:
  assumes "fair_env e"
  shows "moves st (cache_write e q lk r st)" "cs_trace (cache_write e q lk r st) = cs_trace st"
proof -
  let ?op = "\<lambda>k now w. ((), w\<lparr>w_cache := snd (storeResult (en_cache e) (en_store e) (en_cacheDown e k) q r
          (if rp_admissionPolicy (rq_policy q) = SecondHit then max 1 (en_observers e k) else 1)
          (lk_versions lk) now (w_cache w))\<rparr>)"
  obtain x st' where a: "await e ?op st = (x, st')" by (cases "await e ?op st")
  then have w: "cache_write e q lk r st = st'" by (simp add: cache_write_def)
  show "cs_trace (cache_write e q lk r st) = cs_trace st" using await_trace[OF a] w by simp
  show "moves st (cache_write e q lk r st)" using moves_await_quiet[OF assms a] w by simp
qed

lemma cached_call_sends:
  assumes "fair_env e" "cached_call e q t st = (r, st')"
  shows "sends t st st'"
proof -
  obtain lk st1 where l: "cache_lookup e q st = (lk, st1)" by fastforce
  note lp = lookup_part[OF assms(1) l]
  obtain fr st2 where f: "forwardToolCall e t st1 = (fr, st2)" by fastforce
  have s: "sends t st st1" "sends t st (pass e st1)" "sends t st st2"
    using lp moves_pass[OF assms(1), of st1] sends_before[OF lp forward_sends[OF assms(1) f]] moves_trans
    by (auto simp: sends_def)
  have wr: "sends t st (cache_write e q lk x st2)" for x
    using s(3) write_part[OF assms(1)] moves_trans unfolding sends_def by metis
  from assms(2) l f s wr show ?thesis
    by (auto simp: cached_call_def Let_def split: option.splits if_splits sum.splits)
qed

lemma run_call_sends:
  assumes "fair_env e" "run_call e a rq t st = (r, st')"
  shows "sends t st st'"
proof -
  let ?p = "if pr_decision (tg_verdict t) \<noteq> RequireApproval \<and> tg_danger t \<noteq> Approval
    then resolveToolPolicy (config_capabilities (current_context (tg_context t) (w_registry (cs_world st))))
      (tg_tool t) (ce_config (en_cache e)) else None"
  from assms(2) show ?thesis
    by (cases ?p) (auto simp: run_call_def Let_def dest: cached_call_sends[OF assms(1)] forward_sends[OF assms(1)])
qed

lemma mark_part:
  assumes "fair_env e" "queue_mark e mark st = (r, st')"
    and "\<And>now q. approval_step q (q\<lparr>q_table := snd (mark now (q_table q))\<rparr>)"
  shows "moves st st'" "cs_trace st' = cs_trace st"
proof -
  show "cs_trace st' = cs_trace st" by (rule await_trace[OF assms(2)[unfolded queue_mark_def]])
  show "moves st st'"
    using assms(1) assms(2)[unfolded queue_mark_def]
    by (rule moves_await) (auto simp: Let_def case_prod_beta intro!: r_into_rtranclp assms(3))
qed

lemma finish_part:
  assumes "fair_env e"
  shows "part_of is_mark st (mark_failed e i err st)" "part_of is_mark st (finish_call e approval result st)"
proof -
  have f: "part_of is_mark st (mark_failed e i err st)" for i err
  proof -
    obtain r st1 where q: "queue_mark e (repo_markFailed i err) st = (r, st1)" by fastforce
    note m = mark_part[OF assms q as_failed]
    show ?thesis unfolding mark_failed_def q using part_same[OF m(2,1)]
      by (auto split: option.splits intro!: part_emit simp: is_mark_def)
  qed
  have x: "part_of is_mark st (mark_executed e i result st)" for i
  proof -
    obtain r st1 where q: "queue_mark e (markExecuted (en_approvals e) i result) st = (r, st1)" by fastforce
    have step: "approval_step q (q\<lparr>q_table := snd (markExecuted (en_approvals e) i result now (q_table q))\<rparr>)" for now q
      unfolding markExecuted_def by (rule as_executed)
    note m = mark_part[OF assms q step]
    show ?thesis unfolding mark_executed_def q using part_same[OF m(2,1)]
      by (auto split: option.splits intro!: part_emit simp: is_mark_def)
  qed
  show "part_of is_mark st (mark_failed e i err st)" by (rule f)
  show "part_of is_mark st (finish_call e approval result st)"
    by (auto simp: finish_call_def f x split: option.splits)
qed

lemma fail_part:
  assumes "fair_env e" "fail_call e t err st = (r, st')"
  shows "part_of is_mark st st'"
proof -
  obtain x st1 where rt: "recordTimeout e (tg_context t) err st = (x, st1)" by fastforce
  have p: "part_of is_mark st st1"
    by (rule part_same[OF recordTimeout_trace[OF rt] moves_recordTimeout[OF assms(1) rt]])
  show ?thesis using assms(2) rt p part_trans[OF p finish_part(1)[OF assms(1)]]
    by (auto simp: fail_call_def split: sum.splits option.splits)
qed

section \<open>Guarded calls\<close>

text \<open>
  A trace, newest first, is guarded when every call that was sent came right after a verdict of
  the policy engine on the same server and tool, with the permission checked since the call before:
  without an approval only if the verdict allows the call, with one only if the verdict asks for
  it, right after the claim of that approval, which satisfies \<open>C\<close>.
\<close>

definition forward_ok ::
    "(string \<Rightarrow> string \<Rightarrow> policy_result \<Rightarrow> string \<Rightarrow> bool) \<Rightarrow> string \<Rightarrow> string \<Rightarrow> string option \<Rightarrow>
     call_event list \<Rightarrow> bool" where
  "forward_ok C serverID tool approval es =
     (case dropWhile (\<lambda>ev. \<not> is_judged ev) es of
        Judged s t v # rest \<Rightarrow>
          s = serverID \<and> t = tool \<and> Permitted serverID tool \<in> set (takeWhile (\<lambda>ev. \<not> is_forward ev) rest) \<and>
          (case approval of
             None \<Rightarrow> pr_decision v = Allow
           | Some i \<Rightarrow> pr_decision v = RequireApproval \<and> es \<noteq> [] \<and> hd es = Claimed i \<and> C serverID tool v i)
      | _ \<Rightarrow> False)"

fun guarded :: "(string \<Rightarrow> string \<Rightarrow> policy_result \<Rightarrow> string \<Rightarrow> bool) \<Rightarrow> call_event list \<Rightarrow> bool" where
  "guarded C [] = True"
| "guarded C (Forwarded conn serverID tool params approval # es) =
     (forward_ok C serverID tool approval es \<and> guarded C es)"
| "guarded C (_ # es) = guarded C es"

lemma guarded_Cons: "\<not> is_forward ev \<Longrightarrow> guarded C (ev # es) = guarded C es"
  by (cases ev) (simp_all add: is_forward_def)

lemma guarded_append: "list_all (\<lambda>ev. \<not> is_forward ev) xs \<Longrightarrow> guarded C (xs @ es) = guarded C es"
  by (induction xs) (auto simp: guarded_Cons)

lemma forward_ok_mono:
  "(\<And>s t v i. C s t v i \<Longrightarrow> D s t v i) \<Longrightarrow> forward_ok C serverID tool approval es \<Longrightarrow> forward_ok D serverID tool approval es"
  by (cases "dropWhile (\<lambda>ev. \<not> is_judged ev) es")
    (auto simp: forward_ok_def split: call_event.splits option.splits)

lemma guarded_mono:
  assumes "\<And>s t v i. C s t v i \<Longrightarrow> D s t v i"
  shows "guarded C es \<Longrightarrow> guarded D es"
proof (induction es)
  case (Cons ev es)
  show ?case
  proof (cases "is_forward ev")
    case True
    then obtain conn serverID tool params approval where ev: "ev = Forwarded conn serverID tool params approval"
      by (auto simp: is_forward_def split: call_event.splits)
    with Cons have "forward_ok C serverID tool approval es" "guarded D es" by simp_all
    with forward_ok_mono[of C D, OF assms] ev show ?thesis by simp
  qed (use Cons in \<open>simp add: guarded_Cons\<close>)
qed simp

text \<open>The approvals that sent calls were made with.\<close>

fun used :: "call_event list \<Rightarrow> string list" where
  "used [] = []"
| "used (Forwarded conn serverID tool params (Some i) # es) = i # used es"
| "used (_ # es) = used es"

lemma used_append [simp]: "used (xs @ ys) = used xs @ used ys"
  by (induction xs rule: used.induct) simp_all

lemma used_quiet: "list_all (\<lambda>ev. \<not> is_forward ev) xs \<Longrightarrow> used xs = []"
  by (induction xs rule: used.induct) (simp_all add: is_forward_def)

lemma no_forward:
  "early_event ev \<Longrightarrow> \<not> is_forward ev" "waiting_event ev \<Longrightarrow> \<not> is_forward ev" "is_mark ev \<Longrightarrow> \<not> is_forward ev"
  by (cases ev; simp add: early_event_def waiting_event_def is_mark_def is_forward_def)+

definition approved_call ::
    "('r, 's) call_env \<Rightarrow> session_user \<Rightarrow> 'r tool_request \<Rightarrow> ('r, 's) call_state \<Rightarrow>
     string \<Rightarrow> string \<Rightarrow> policy_result \<Rightarrow> string \<Rightarrow> bool" where
  "approved_call e a rq st serverID tool v i \<longleftrightarrow>
     EvClaimed i \<in> set (q_log (queue_of st)) \<and> has_request (call_hash e a rq serverID tool (pr_policyVersion v)) i st"

lemma approved_moves: "moves st st' \<Longrightarrow> approved_call e a rq st s t v i \<Longrightarrow> approved_call e a rq st' s t v i"
  using has_request_moves steps_keep(2) unfolding approved_call_def moves_def by blast

text \<open>
  The invariant of a run from \<open>st\<close>: what it sends is guarded, with approvals that were claimed
  since \<open>st\<close>, each once.
\<close>

definition run_ok ::
    "('r, 's) call_env \<Rightarrow> session_user \<Rightarrow> 'r tool_request \<Rightarrow> ('r, 's) call_state \<Rightarrow> ('r, 's) call_state \<Rightarrow> bool" where
  "run_ok e a rq st st' \<longleftrightarrow> moves st st' \<and>
     (guarded (approved_call e a rq st) (cs_trace st) \<longrightarrow> guarded (approved_call e a rq st') (cs_trace st')) \<and>
     (\<exists>xs. cs_trace st' = xs @ cs_trace st \<and> distinct (used xs) \<and>
        (\<forall>i\<in>set (used xs). EvClaimed i \<notin> set (q_log (queue_of st)) \<and> EvClaimed i \<in> set (q_log (queue_of st'))))"

lemma run_ok_quiet:
  assumes "part_of (\<lambda>ev. \<not> is_forward ev) st st'"
  shows "run_ok e a rq st st'"
proof -
  from assms obtain xs where xs: "cs_trace st' = xs @ cs_trace st" "list_all (\<lambda>ev. \<not> is_forward ev) xs" "moves st st'"
    by (auto simp: part_of_def adds_def)
  then show ?thesis
    using guarded_mono[of "approved_call e a rq st" "approved_call e a rq st'" "cs_trace st"] approved_moves[OF xs(3)]
    by (auto simp: run_ok_def guarded_append used_quiet)
qed

lemma run_ok_trans [trans]:
  assumes "run_ok e a rq st st1" "run_ok e a rq st1 st2"
  shows "run_ok e a rq st st2"
proof -
  from assms obtain xs ys where xs: "cs_trace st1 = xs @ cs_trace st" "distinct (used xs)"
      "\<forall>i\<in>set (used xs). EvClaimed i \<notin> set (q_log (queue_of st)) \<and> EvClaimed i \<in> set (q_log (queue_of st1))"
    and ys: "cs_trace st2 = ys @ cs_trace st1" "distinct (used ys)"
      "\<forall>i\<in>set (used ys). EvClaimed i \<notin> set (q_log (queue_of st1)) \<and> EvClaimed i \<in> set (q_log (queue_of st2))"
    unfolding run_ok_def by blast
  have m: "moves st st1" "moves st1 st2" using assms by (simp_all add: run_ok_def)
  have log: "set (q_log (queue_of st)) \<subseteq> set (q_log (queue_of st1))" "set (q_log (queue_of st1)) \<subseteq> set (q_log (queue_of st2))"
    using m steps_keep(2) unfolding moves_def by blast+
  have "distinct (used (ys @ xs))" using xs(2,3) ys(2,3) by auto
  moreover have "\<forall>i\<in>set (used (ys @ xs)). EvClaimed i \<notin> set (q_log (queue_of st)) \<and> EvClaimed i \<in> set (q_log (queue_of st2))"
    using xs(3) ys(3) log by auto
  moreover have "cs_trace st2 = (ys @ xs) @ cs_trace st" using xs(1) ys(1) by simp
  ultimately show ?thesis using assms m moves_trans unfolding run_ok_def by blast
qed

lemma find_none: "list_all (\<lambda>ev. \<not> P ev) xs \<Longrightarrow> dropWhile (\<lambda>ev. \<not> P ev) (xs @ ys) = dropWhile (\<lambda>ev. \<not> P ev) ys"
  by (induction xs) auto

lemma take_all: "list_all P xs \<Longrightarrow> takeWhile P (xs @ ys) = xs @ takeWhile P ys"
  by (induction xs) auto

lemma judged_waiting: "waiting_event ev \<Longrightarrow> \<not> is_judged ev" "\<not> is_judged (Claimed i)" "is_judged (Judged s t v)"
  by (simp_all add: waiting_event_def is_judged_def split: call_event.splits)

lemma target_permitted:
  assumes "list_all is_judged ys"
  shows "Permitted s t \<in> set (takeWhile (\<lambda>ev. \<not> is_forward ev) (ys @ Permitted s t # es))"
proof -
  have "list_all (\<lambda>ev. \<not> is_forward ev) ys"
    using assms judged_early no_forward(1) by (auto simp: list_all_iff)
  then show ?thesis by (simp add: take_all is_forward_def)
qed

lemma forward_ok_allow:
  assumes "target_ok st t st1" "pr_decision (tg_verdict t) = Allow"
  shows "forward_ok C (tg_serverID t) (tg_tool t) (tg_approval t) (cs_trace st1)"
  using assms target_permitted by (auto simp: target_ok_def forward_ok_def judged_waiting)

lemma forward_ok_claim:
  assumes "target_ok st t st1" "pr_decision (tg_verdict t) = RequireApproval"
    and "cs_trace st' = Claimed i # xs @ cs_trace st1" "list_all waiting_event xs"
    and "C (tg_serverID t) (tg_tool t) (tg_verdict t) i"
  shows "forward_ok C (tg_serverID t) (tg_tool t) (Some i) (cs_trace st')"
proof -
  have "list_all (\<lambda>ev. \<not> is_judged ev) (Claimed i # xs)"
    using assms(4) judged_waiting by (auto simp: list_all_iff)
  from find_none[OF this, of "cs_trace st1"] assms target_permitted show ?thesis
    by (auto simp: target_ok_def forward_ok_def judged_waiting)
qed

text \<open>How the part before the call ends.\<close>

lemma pass_gate_cases:
  assumes "fair_env e" "approval_reach (queue_of st)" "pass_gate e a rq uid st = (out, st')"
  obtains (stop) x where "out = Stop x" "part_of (\<lambda>ev. \<not> is_forward ev) st st'"
    | (allow) t where "out = Go t" "part_of early_event st st'" "target_ok st t st'" "pr_decision (tg_verdict t) = Allow"
    | (claim) t i st1 where "out = Go (t\<lparr>tg_approval := Some i\<rparr>)" "part_of early_event st st1" "target_ok st t st1"
        "pr_decision (tg_verdict t) = RequireApproval"
        "gate_ok (call_hash e a rq (tg_serverID t) (tg_tool t) (pr_policyVersion (tg_verdict t))) st1 (Go i) st'"
proof -
  obtain ft st1 where ft: "find_target e a rq st = (ft, st1)" by fastforce
  note p = find_target_part[OF assms(1) ft]
  have p1: "part_of (\<lambda>ev. \<not> is_forward ev) st st1" using part_weaken[OF conjunct1[OF p] no_forward(1)] .
  show thesis
  proof (cases ft)
    case (Stop x)
    with assms(3) ft p1 stop show thesis by (auto simp: pass_gate_def)
  next
    case (Go t)
    then have t: "target_ok st t st1" using p by blast
    show thesis
    proof (cases "pr_decision (tg_verdict t) = RequireApproval")
      case False
      then have "pr_decision (tg_verdict t) = Allow" using t policy_decision.exhaust unfolding target_ok_def by metis
      with False assms(3) ft Go t p allow show thesis by (auto simp: pass_gate_def)
    next
      case True
      obtain g st2 where g: "gate e a rq (tg_serverID t) (tg_tool t) (tg_verdict t) uid st1 = (g, st2)" by fastforce
      have "moves st st1" using p by (simp add: part_of_def)
      note gp = gate_part[OF assms(1) reach_moves[OF assms(2) this] g]
      have stopped: "part_of (\<lambda>ev. \<not> is_forward ev) st st2" if "g = Stop x" for x
        using gp that part_trans[OF p1 part_weaken[OF _ no_forward(2)]] by (auto simp: gate_ok_def part_of_def)
      from True assms(3) ft Go g have "(out, st') = (case g of Stop x \<Rightarrow> Stop x | Go i \<Rightarrow> Go (t\<lparr>tg_approval := Some i\<rparr>), st2)"
        by (auto simp: pass_gate_def split: part.splits)
      with True gp t stopped p stop claim show thesis by (cases g) auto
    qed
  qed
qed

lemma pass_gate_part:
  assumes "fair_env e" "approval_reach (queue_of st)" "pass_gate e a rq uid st = (out, st')"
  shows "part_of (\<lambda>ev. \<not> is_forward ev) st st' \<and>
    (\<forall>t. out = Go t \<longrightarrow>
       forward_ok (approved_call e a rq st') (tg_serverID t) (tg_tool t) (tg_approval t) (cs_trace st') \<and>
       (\<forall>i. tg_approval t = Some i \<longrightarrow>
          EvClaimed i \<notin> set (q_log (queue_of st)) \<and> EvClaimed i \<in> set (q_log (queue_of st'))))"
  using assms
proof (cases rule: pass_gate_cases)
  case (stop x)
  then show ?thesis by simp
next
  case (allow t)
  then have "tg_approval t = None" by (simp add: target_ok_def)
  with allow forward_ok_allow[OF allow(3,4)] part_weaken[OF allow(2) no_forward(1)] show ?thesis by simp
next
  case (claim t i st1)
  let ?h = "call_hash e a rq (tg_serverID t) (tg_tool t) (pr_policyVersion (tg_verdict t))"
  from claim(5) obtain xs where xs: "claimed_for ?h st1 st' i" "cs_trace st' = Claimed i # xs @ cs_trace st1"
    "list_all waiting_event xs" "moves st1 st'" by (auto simp: gate_ok_def)
  have "list_all (\<lambda>ev. \<not> is_forward ev) (Claimed i # xs)"
    using xs(3) no_forward(2) by (auto simp: list_all_iff is_forward_def)
  then have "part_of (\<lambda>ev. \<not> is_forward ev) st1 st'"
    using xs(2,4) unfolding part_of_def adds_def by (metis append_Cons)
  moreover have "part_of (\<lambda>ev. \<not> is_forward ev) st st1" using part_weaken[OF claim(2) no_forward(1)] .
  ultimately have p: "part_of (\<lambda>ev. \<not> is_forward ev) st st'" using part_trans by blast
  have m: "moves st st1" using claim(2) by (simp add: part_of_def)
  have new: "claimed_for ?h st st' i" using claimed_for_moves[OF xs(1) m moves_refl] .
  then have "approved_call e a rq st' (tg_serverID t) (tg_tool t) (tg_verdict t) i"
    by (simp add: approved_call_def claimed_for_def has_request_def)
  from forward_ok_claim[where C = "approved_call e a rq st'", OF claim(3,4) xs(2,3) this] p claim(1) new
  show ?thesis by (simp add: claimed_for_def)
qed

lemma attempt_ok:
  assumes "fair_env e" "approval_reach (queue_of st)" "pass_gate e a rq uid st = (Go t0, st1)"
    and "register_call rq t0 st1 = (t, st2)" "run_call e a rq t st2 = (r, st3)"
  shows "run_ok e a rq st st3"
proof -
  note g = pass_gate_part[OF assms(1-3)]
  have t: "tg_serverID t = tg_serverID t0" "tg_tool t = tg_tool t0" "tg_approval t = tg_approval t0"
    "cs_trace st2 = cs_trace st1" "queue_of st2 = queue_of st1"
    using assms(4) by (auto simp: register_call_def Let_def split: prod.splits)
  have m: "moves st1 st2" using t(5) by (simp add: moves_def)
  note s = run_call_sends[OF assms(1,5)]
  have m3: "moves st1 st3" using s m moves_trans by (auto simp: sends_def)
  have p: "part_of (\<lambda>ev. \<not> is_forward ev) st st1" using g by blast
  show ?thesis
  proof (cases "cs_trace st3 = cs_trace st1")
    case True
    then show ?thesis using run_ok_quiet part_trans[OF p part_same[OF True m3]] by blast
  next
    case False
    let ?ev = "Forwarded (tg_connection t) (tg_serverID t) (tg_tool t) (tg_params t) (tg_approval t)"
    have tr: "cs_trace st3 = ?ev # cs_trace st1" using s t(4) False by (auto simp: sends_def)
    have ok1: "run_ok e a rq st st1" by (rule run_ok_quiet[OF p])
    from p obtain xs where xs: "cs_trace st1 = xs @ cs_trace st" "used xs = []"
      by (auto simp: part_of_def adds_def used_quiet)
    have "set (q_log (queue_of st1)) \<subseteq> set (q_log (queue_of st3))"
      using m3 steps_keep(2) unfolding moves_def by blast
    then have new: "EvClaimed i \<notin> set (q_log (queue_of st)) \<and> EvClaimed i \<in> set (q_log (queue_of st3))"
      if "tg_approval t = Some i" for i
      using g that t(3) by auto
    have "forward_ok (approved_call e a rq st3) (tg_serverID t) (tg_tool t) (tg_approval t) (cs_trace st1)"
      using g t(1-3) forward_ok_mono[of "approved_call e a rq st1" "approved_call e a rq st3", OF approved_moves[OF m3]]
      by simp
    moreover have "guarded (approved_call e a rq st1) (cs_trace st1) \<longrightarrow> guarded (approved_call e a rq st3) (cs_trace st1)"
      using guarded_mono[of "approved_call e a rq st1" "approved_call e a rq st3", OF approved_moves[OF m3]] by blast
    moreover have "distinct (used (?ev # xs)) \<and> (\<forall>i\<in>set (used (?ev # xs)).
        EvClaimed i \<notin> set (q_log (queue_of st)) \<and> EvClaimed i \<in> set (q_log (queue_of st3)))"
      using xs(2) new by (cases "tg_approval t") auto
    moreover have "moves st st3" using p m3 moves_trans by (auto simp: part_of_def)
    moreover have "cs_trace st3 = (?ev # xs) @ cs_trace st" using tr xs(1) by simp
    ultimately show ?thesis using ok1 tr unfolding run_ok_def by (metis guarded.simps(2))
  qed
qed

lemma unregister_ok:
  assumes "run_ok e a rq st st'"
  shows "run_ok e a rq st (unregister_call t st')"
proof (rule run_ok_trans[OF assms run_ok_quiet])
  show "part_of (\<lambda>ev. \<not> is_forward ev) st' (unregister_call t st')"
    unfolding unregister_call_def by (rule part_on_world) simp_all
qed

lemma marked_ok:
  assumes "run_ok e a rq st st1" "part_of is_mark st1 st2"
  shows "run_ok e a rq st st2"
proof (rule run_ok_trans[OF assms(1) run_ok_quiet])
  show "part_of (\<lambda>ev. \<not> is_forward ev) st1 st2" using part_weaken[OF assms(2) no_forward(3)] .
qed

text \<open>The ways a call ends.\<close>

lemma handle_cases:
  assumes "handleToolCall e a rq uids n st = (out, st')"
  obtains (stop) "pass_gate e a rq (uids n) st = (Stop out, st')"
  | (answered) t0 st1 t st2 result st3 where "pass_gate e a rq (uids n) st = (Go t0, st1)"
      "register_call rq t0 st1 = (t, st2)" "run_call e a rq t st2 = (Inr result, st3)"
      "out = Inr (ServerResult result)" "st' = unregister_call t (finish_call e (tg_approval t) result st3)"
  | (thrown) t0 st1 t st2 err st3 x st4 where "pass_gate e a rq (uids n) st = (Go t0, st1)"
      "register_call rq t0 st1 = (t, st2)" "run_call e a rq t st2 = (Inl err, st3)"
      "fail_call e t err st3 = (Inl x, st4)" "out = Inl x" "st' = unregister_call t st4"
  | (failed) t0 st1 t st2 err st3 b st4 where "pass_gate e a rq (uids n) st = (Go t0, st1)"
      "register_call rq t0 st1 = (t, st2)" "run_call e a rq t st2 = (Inl err, st3)"
      "fail_call e t err st3 = (Inr b, st4)" "\<not> (b = Some False \<and> n < 2)"
      "out = Inr (FailedResult (error_result (ce_text err)))" "st' = unregister_call t st4"
  | (retried) t0 st1 t st2 err st3 st4 st5 where "pass_gate e a rq (uids n) st = (Go t0, st1)"
      "register_call rq t0 st1 = (t, st2)" "run_call e a rq t st2 = (Inl err, st3)"
      "fail_call e t err st3 = (Inr (Some False), st4)" "n < 2"
      "handleToolCall e a rq uids (n + 1) st4 = (out, st5)" "st' = unregister_call t st5"
proof -
  obtain g st1 where g: "pass_gate e a rq (uids n) st = (g, st1)" by fastforce
  show thesis
  proof (cases g)
    case (Stop x)
    with assms g stop show thesis by (subst (asm) handleToolCall.simps) auto
  next
    case (Go t0)
    obtain t st2 where t: "register_call rq t0 st1 = (t, st2)" by fastforce
    obtain r st3 where r: "run_call e a rq t st2 = (r, st3)" by fastforce
    show thesis
    proof (cases r)
      case (Inr result)
      with assms g Go t r answered show thesis by (subst (asm) handleToolCall.simps) auto
    next
      case (Inl err)
      obtain f st4 where f: "fail_call e t err st3 = (f, st4)" by fastforce
      from assms g Go t r Inl f thrown failed retried show thesis
        by (subst (asm) handleToolCall.simps) (auto split: sum.splits if_splits prod.splits)
    qed
  qed
qed

lemma handle_run_ok:
  assumes fair: "fair_env e"
  shows "approval_reach (queue_of st) \<Longrightarrow> handleToolCall e a rq uids n st = (out, st') \<Longrightarrow> run_ok e a rq st st'"
proof (induction "2 - n" arbitrary: n st st' rule: less_induct)
  case less
  note reach = less(2)
  from less(3) show ?case
  proof (cases rule: handle_cases)
    case stop
    show ?thesis by (rule run_ok_quiet[OF conjunct1[OF pass_gate_part[OF fair reach stop]]])
  next
    case (answered t0 st1 t st2 result st3)
    from unregister_ok[OF marked_ok[OF attempt_ok[OF fair reach answered(1-3)] finish_part(2)[OF fair]]] answered(5)
    show ?thesis by simp
  next
    case (thrown t0 st1 t st2 err st3 x st4)
    from unregister_ok[OF marked_ok[OF attempt_ok[OF fair reach thrown(1-3)] fail_part[OF fair thrown(4)]]] thrown(6)
    show ?thesis by simp
  next
    case (failed t0 st1 t st2 err st3 b st4)
    from unregister_ok[OF marked_ok[OF attempt_ok[OF fair reach failed(1-3)] fail_part[OF fair failed(4)]]] failed(7)
    show ?thesis by simp
  next
    case (retried t0 st1 t st2 err st3 st4 st5)
    note ok4 = marked_ok[OF attempt_ok[OF fair reach retried(1-3)] fail_part[OF fair retried(4)]]
    have "approval_reach (queue_of st4)" using ok4 reach reach_moves by (auto simp: run_ok_def)
    then have "run_ok e a rq st4 st5" using less(1)[OF _ _ retried(6)] retried(5) by simp
    from unregister_ok[OF run_ok_trans[OF ok4 this]] retried(7) show ?thesis by simp
  qed
qed

section \<open>Properties of whole calls\<close>


section \<open>How often a call is sent\<close>

definition forwards :: "('r, 's) call_state \<Rightarrow> nat" where
  "forwards st = length (filter is_forward (cs_trace st))"

lemma forwards_part: "part_of (\<lambda>ev. \<not> is_forward ev) st st' \<Longrightarrow> forwards st' = forwards st"
  by (auto simp: part_of_def adds_def forwards_def filter_empty_conv list_all_iff)

lemma forwards_marks: "part_of is_mark st st' \<Longrightarrow> forwards st' = forwards st"
  using forwards_part part_weaken[of is_mark st st' "\<lambda>ev. \<not> is_forward ev"] no_forward(3) by blast

lemma forwards_unregister [simp]: "forwards (unregister_call t st) = forwards st"
  by (simp add: forwards_def unregister_call_def)

lemma forwards_attempt:
  assumes "fair_env e" "approval_reach (queue_of st)" "pass_gate e a rq uid st = (Go t0, st1)"
    and "register_call rq t0 st1 = (t, st2)" "run_call e a rq t st2 = (r, st3)"
  shows "forwards st3 \<le> forwards st + 1"
proof -
  have "forwards st1 = forwards st" using forwards_part pass_gate_part[OF assms(1-3)] by blast
  moreover have "cs_trace st2 = cs_trace st1"
    using assms(4) by (auto simp: register_call_def Let_def split: prod.splits)
  ultimately show ?thesis using run_call_sends[OF assms(1,5)] by (auto simp: sends_def forwards_def)
qed

lemma handle_forwards:
  assumes fair: "fair_env e"
  shows "approval_reach (queue_of st) \<Longrightarrow> handleToolCall e a rq uids n st = (out, st') \<Longrightarrow> n \<le> 2 \<Longrightarrow>
    forwards st' \<le> forwards st + (3 - n)"
proof (induction "2 - n" arbitrary: n st st' rule: less_induct)
  case less
  note reach = less(2)
  from less(3) show ?case
  proof (cases rule: handle_cases)
    case stop
    then show ?thesis using forwards_part conjunct1[OF pass_gate_part[OF fair reach stop]] by fastforce
  next
    case (answered t0 st1 t st2 result st3)
    with forwards_attempt[OF fair reach answered(1-3)] forwards_marks[OF finish_part(2)[OF fair]] less(4)
    show ?thesis by simp
  next
    case (thrown t0 st1 t st2 err st3 x st4)
    with forwards_attempt[OF fair reach thrown(1-3)] forwards_marks[OF fail_part[OF fair thrown(4)]] less(4)
    show ?thesis by simp
  next
    case (failed t0 st1 t st2 err st3 b st4)
    with forwards_attempt[OF fair reach failed(1-3)] forwards_marks[OF fail_part[OF fair failed(4)]] less(4)
    show ?thesis by simp
  next
    case (retried t0 st1 t st2 err st3 st4 st5)
    have "approval_reach (queue_of st4)"
      using marked_ok[OF attempt_ok[OF fair reach retried(1-3)] fail_part[OF fair retried(4)]] reach reach_moves
      by (auto simp: run_ok_def)
    then have "forwards st5 \<le> forwards st4 + (3 - (n + 1))" using less(1)[OF _ _ retried(6)] retried(5) by simp
    with forwards_attempt[OF fair reach retried(1-3)] forwards_marks[OF fail_part[OF fair retried(4)]] retried(5,7)
    show ?thesis by simp
  qed
qed

text \<open>
  C31: a call is sent at most three times. The retries, which follow timeouts of the server, send
  it no more than two more times, whatever happens.
\<close>

theorem tool_call_sent_thrice:
  assumes "fair_env e" "approval_reach (queue_of st)" "cs_trace st = []"
    and "handleToolCall e a rq uids 0 st = (out, st')"
  shows "length (filter is_forward (cs_trace st')) \<le> 3"
  using handle_forwards[OF assms(1,2,4)] assms(3) by (simp add: forwards_def)

section \<open>When a reply says that the tool was not executed\<close>

lemma run_call_error:
  assumes "run_call e a rq t st = (Inl err, st')"
  shows "\<exists>k. en_reply e k = Inl err \<or> en_flight e k = Some (Inl err)"
proof -
  have f: "\<exists>k. en_reply e k = Inl err" if "forwardToolCall e t st = (Inl err, st')" for st st'
    using that by (auto simp: forwardToolCall_def Let_def split: sum.splits)
  have c: "\<exists>k. en_reply e k = Inl err \<or> en_flight e k = Some (Inl err)"
    if "cached_call e q t st = (Inl err, st')" for q st st'
    using that by (auto simp: cached_call_def Let_def split: option.splits if_splits sum.splits prod.splits dest!: f)
  from assms c f show ?thesis
    unfolding run_call_def Let_def by (auto split: option.splits if_splits) blast+
qed

definition no_timeouts :: "('r, 's) call_env \<Rightarrow> bool" where
  "no_timeouts e \<longleftrightarrow> (\<forall>k err. en_reply e k = Inl err \<or> en_flight e k = Some (Inl err) \<longrightarrow> \<not> ce_timeout err)"

text \<open>
  C32: when no server times out, the notices are true. If a call is answered with a notice that it
  awaits an approval or may not ask for one, with a rejection, or with a result replayed from the
  approval queue or taken from the cache on the fast path, then it was not sent to any server.
\<close>

theorem notices_truthful:
  assumes "fair_env e" "approval_reach (queue_of st)" "cs_trace st = []" "no_timeouts e"
    and "handleToolCall e a rq uids 0 st = (Inr reply, st')"
    and "case reply of ServerResult _ \<Rightarrow> False | FailedResult _ \<Rightarrow> False | _ \<Rightarrow> True"
  shows "filter is_forward (cs_trace st') = []"
  using assms(5)
proof (cases rule: handle_cases)
  case stop
  from pass_gate_part[OF assms(1,2) stop] assms(3) show ?thesis
    by (auto simp: part_of_def adds_def filter_empty_conv list_all_iff)
next
  case (retried t0 st1 t st2 err st3 st4 st5)
  have "\<not> ce_timeout err" using run_call_error[OF retried(3)] assms(4) by (auto simp: no_timeouts_def)
  with retried(4) show ?thesis by (auto simp: fail_call_def recordTimeout_def)
qed (use assms(6) in auto)

section \<open>Gated calls and the cache\<close>

text \<open>No verdict so far has allowed a call.\<close>

definition none_allowed :: "('r, 's) call_state \<Rightarrow> bool" where
  "none_allowed st \<longleftrightarrow> (\<forall>s t v. Judged s t v \<in> set (cs_trace st) \<longrightarrow> pr_decision v \<noteq> Allow)"

lemma none_allowed_sub: "none_allowed st' \<Longrightarrow> set (cs_trace st) \<subseteq> set (cs_trace st') \<Longrightarrow> none_allowed st"
  unfolding none_allowed_def by blast

lemma none_allowed_cong: "cs_trace st' = cs_trace st \<Longrightarrow> none_allowed st' = none_allowed st"
  by (simp add: none_allowed_def)

lemma none_allowed_unregister [simp]: "none_allowed (unregister_call t st) = none_allowed st"
  by (rule none_allowed_cong) (simp add: unregister_call_def)

text \<open>
  A relation that does not see the approval queue either is kept by whole calls, as long as no
  verdict allows one: only then is the cache looked at.
\<close>

locale queue_blind = world_relation +
  assumes queue: "R w (w\<lparr>w_queue := q\<rparr>)"
begin

lemma rel_emit [simp]: "R w (cs_world (emit ev st)) = R w (cs_world st)" "R (cs_world (emit ev st)) w = R (cs_world st) w"
  by (simp_all add: emit_def)

lemma rel_judge: "judge e a rq serverID tool d st = (v, st') \<Longrightarrow> R (cs_world st) (cs_world st')"
  unfolding judge_def by (auto simp: Let_def policies split: prod.splits elim!: rel_await)

lemma rel_claim: "queue_claim e i st = (x, st') \<Longrightarrow> R (cs_world st) (cs_world st')"
  unfolding queue_claim_def by (erule rel_await) (auto simp: Let_def split: prod.splits intro: queue)

lemma rel_replay_or: "replay_or e i other st = (x, st') \<Longrightarrow> R (cs_world st) (cs_world st')"
  by (auto simp: replay_or_def split: option.splits prod.splits dest!: rel_replay)

lemma rel_claim_approval:
  assumes "claim_approval e i h tool v st = (x, st')"
  shows "R (cs_world st) (cs_world st')"
proof -
  obtain won req st1 where c: "queue_claim e i st = ((won, req), st1)" by (metis prod.exhaust)
  obtain status st2 where s: "await e (\<lambda>k now w. (if en_queryFails e k then None
      else map_option ar_status (approval_findById i (q_table (w_queue w))), w)) st1 = (status, st2)" by fastforce
  have r: "R (cs_world st) (cs_world st1)" "R (cs_world st) (cs_world st2)"
    using rel_claim[OF c] rel_read[OF s] trans by auto
  from assms c s r show ?thesis
    by (cases won; cases req) (auto simp: claim_approval_def dest!: rel_replay_or intro: trans)
qed

lemma rel_gate:
  assumes "gate e a rq serverID tool v uid st = (x, st')"
  shows "R (cs_world st) (cs_world st')"
proof -
  obtain r st1 where q: "queue_check e (approval_input_of a rq serverID tool (pr_policyVersion v) uid) st = (r, st1)"
    by fastforce
  have r1: "R (cs_world st) (cs_world st1)"
    using q unfolding queue_check_def by (rule rel_await) (auto simp: Let_def split: prod.splits intro: queue)
  have decision: "R (cs_world st2) (cs_world st')" if "await_decision e chk token tool v st2 = (x, st')" for chk token st2
  proof -
    obtain res st3 where w: "waitForApproval e (ar_id (check_request chk)) token st2 = (res, st3)" by fastforce
    note r3 = rel_wait[OF w]
    from that w r3 show ?thesis
      by (auto simp: await_decision_def Let_def split: if_splits
          dest!: rel_replay_or rel_claim_approval intro: trans[OF r3])
  qed
  from assms q r1 show ?thesis
    by (auto simp: gate_def split: sum.splits approval_error.splits if_splits
        dest!: decision rel_claim_approval intro: trans[OF r1])
qed

lemma rel_on_change: "R w (cs_world st) \<Longrightarrow> R w (cs_world (on_world (change_context f c) st))"
  using trans[OF _ rel_change] by (simp add: on_world_def)

lemma rel_forward:
  assumes "forwardToolCall e t st = (x, st')"
  shows "R (cs_world st) (cs_world st')"
proof -
  have "R (cs_world st) (cs_world (pass e (on_world (\<lambda>w. w\<lparr>w_mapper := g w\<rparr>) (emit ev st))))" for g ev
    using rel_pass[of "on_world (\<lambda>w. w\<lparr>w_mapper := g w\<rparr>) (emit ev st)"] mapper[of "cs_world st" "g (cs_world st)"] trans
    by (simp add: on_world_def emit_def)
  with assms show ?thesis by (auto simp: forwardToolCall_def Let_def split: sum.splits intro: rel_on_change)
qed

lemma rel_mark_failed: "R (cs_world st) (cs_world (mark_failed e i err st))"
  and rel_mark_executed: "R (cs_world st) (cs_world (mark_executed e i result st))"
proof -
  have "R (cs_world st) (cs_world st')" if "queue_mark e mark st = (r, st')" for mark r st'
    using that unfolding queue_mark_def by (rule rel_await) (auto simp: Let_def split: prod.splits intro: queue)
  then show "R (cs_world st) (cs_world (mark_failed e i err st))" "R (cs_world st) (cs_world (mark_executed e i result st))"
    by (auto simp: mark_failed_def mark_executed_def split: prod.splits option.splits)
qed

lemma rel_finish: "R (cs_world st) (cs_world (finish_call e approval result st))"
  by (auto simp: finish_call_def rel_mark_failed rel_mark_executed split: option.splits)

lemma rel_fail:
  assumes "fail_call e t err st = (x, st')"
  shows "R (cs_world st) (cs_world st')"
proof -
  obtain y st1 where rt: "recordTimeout e (tg_context t) err st = (y, st1)" by fastforce
  note r = rel_recordTimeout[OF rt]
  from assms rt r trans[OF r rel_mark_failed] show ?thesis
    by (auto simp: fail_call_def split: sum.splits option.splits)
qed

lemma rel_register:
  "register_call rq t0 st = (t, st') \<Longrightarrow> R (cs_world st) (cs_world st')" "R w (cs_world st) \<Longrightarrow> R w (cs_world (unregister_call t st))"
  using trans[OF _ mapper]
  by (auto simp: register_call_def unregister_call_def on_world_def Let_def split: prod.splits intro: mapper)

lemma rel_fast_path:
  assumes "fair_env e" "fast_path e a rq serverID tool st = (x, st')" "none_allowed st'"
  shows "R (cs_world st) (cs_world st')"
proof -
  have hit: False if "judge e a rq serverID tool d st = (v, st1)" "cache_lookup e q st1 = (r, st')"
    "\<not> (pr_decision v = Deny \<or> pr_decision v = RequireApproval)" for d v st1 q r
    using judge_part(2)[OF assms(1) that(1)] lookup_part(2)[OF assms(1) that(2)] assms(3) that(3)
      policy_decision.exhaust[of "pr_decision v"] by (auto simp: none_allowed_def)
  from assms(2) show ?thesis
    by (auto simp: fast_path_def Let_def split: option.splits if_splits prod.splits dest: rel_judge hit)
qed

lemma rel_find_target:
  assumes "fair_env e" "find_target e a rq st = (out, st')" "none_allowed st'"
  shows "R (cs_world st) (cs_world st')"
proof (cases "resolve_call a rq (w_registry (cs_world st))")
  case (Inl err)
  with assms(2) show ?thesis by (auto simp: find_target_def)
next
  case (Inr found)
  obtain serverID tool where found: "found = (serverID, tool)" by fastforce
  let ?p = "emit (Permitted serverID tool) st"
  obtain fp st1 where fp: "fast_path e a rq serverID tool ?p = (fp, st1)" by fastforce
  obtain av st2 where av: "ensureServerAvailable e serverID (ac_userId a) st1 = (av, st2)" by fastforce
  have t2: "none_allowed st2 = none_allowed st1" using ensure_trace[OF av] none_allowed_cong by blast
  have r1: "R (cs_world st) (cs_world st1)" if "none_allowed st1" using rel_fast_path[OF assms(1) fp that] by simp
  have r2: "R (cs_world st) (cs_world st2)" if "none_allowed st2" using r1 rel_ensure[OF av] trans that t2 by blast
  have r3: "R (cs_world st) (cs_world st3)" if "judge e a rq serverID tool d st2 = (v, st3)" "none_allowed st3" for d v st3
  proof -
    have "none_allowed st2" using that(2) judge_part(2)[OF assms(1) that(1)] by (auto simp: none_allowed_def)
    then show ?thesis using r2 rel_judge[OF that(1)] trans by blast
  qed
  from assms(2,3) Inr found fp av r1 r2 r3 t2 show ?thesis
    by (auto simp: find_target_def Let_def split: option.splits if_splits sum.splits prod.splits)
qed

lemma rel_pass_gate:
  assumes "fair_env e" "approval_reach (queue_of st)" "pass_gate e a rq uid st = (out, st')" "none_allowed st'"
  shows "R (cs_world st) (cs_world st')"
proof -
  obtain ft st1 where ft: "find_target e a rq st = (ft, st1)" by fastforce
  have m: "moves st st1" using find_target_part[OF assms(1) ft] by (simp add: part_of_def)
  have gated: "R (cs_world st) (cs_world st')"
    if "gate e a rq serverID tool v uid st1 = (g, st')" for serverID tool v g
  proof -
    have "set (cs_trace st1) \<subseteq> set (cs_trace st')"
      using gate_part[OF assms(1) reach_moves[OF assms(2) m] that] by (cases g) (auto simp: gate_ok_def adds_def)
    then have "none_allowed st1" using none_allowed_sub assms(4) by blast
    then show ?thesis using rel_find_target[OF assms(1) ft] rel_gate[OF that] trans by blast
  qed
  from assms(3) ft rel_find_target[OF assms(1) ft] assms(4) gated show ?thesis
    by (auto simp: pass_gate_def split: part.splits if_splits prod.splits)
qed

lemma rel_attempt:
  assumes "fair_env e" "approval_reach (queue_of st)" "pass_gate e a rq uid st = (Go t0, st1)"
    and "register_call rq t0 st1 = (t, st2)" "run_call e a rq t st2 = (r, st3)" "none_allowed st3"
  shows "R (cs_world st) (cs_world st3)"
proof -
  have "cs_trace st2 = cs_trace st1" "tg_verdict t = tg_verdict t0"
    using assms(4) by (auto simp: register_call_def Let_def split: prod.splits)
  moreover from this have none: "none_allowed st1"
    using run_call_sends[OF assms(1,5)] assms(6) by (auto simp: sends_def none_allowed_def)
  have "pr_decision (tg_verdict t0) = RequireApproval"
    using assms(1-3)
  proof (cases rule: pass_gate_cases)
    case (allow t')
    then have "Judged (tg_serverID t') (tg_tool t') (tg_verdict t') \<in> set (cs_trace st1)"
      by (auto simp: target_ok_def)
    with allow(4) none show ?thesis unfolding none_allowed_def by blast
  qed auto
  ultimately have "forwardToolCall e t st2 = (r, st3)" using assms(5) by (simp add: run_call_def)
  from trans[OF trans[OF rel_pass_gate[OF assms(1-3) none] rel_register(1)[OF assms(4)]] rel_forward[OF this]]
  show ?thesis .
qed

lemma rel_handle:
  assumes fair: "fair_env e"
  shows "approval_reach (queue_of st) \<Longrightarrow> handleToolCall e a rq uids n st = (out, st') \<Longrightarrow> none_allowed st' \<Longrightarrow>
    R (cs_world st) (cs_world st')"
proof (induction "2 - n" arbitrary: n st st' rule: less_induct)
  case less
  note reach = less(2)
  have marks: "none_allowed s" if "part_of is_mark s s'" "none_allowed s'" for s s'
    using that none_allowed_sub[OF that(2), of s] by (auto simp: part_of_def adds_def)
  from less(3) show ?case
  proof (cases rule: handle_cases)
    case stop
    show ?thesis by (rule rel_pass_gate[OF fair reach stop less(4)])
  next
    case (answered t0 st1 t st2 result st3)
    have "none_allowed (finish_call e (tg_approval t) result st3)"
      using less(4) answered(5) by simp
    then have "none_allowed st3" by (rule marks[OF finish_part(2)[OF fair]])
    from rel_register(2)[OF trans[OF rel_attempt[OF fair reach answered(1-3) this] rel_finish]] answered(5)
    show ?thesis by simp
  next
    case (thrown t0 st1 t st2 err st3 x st4)
    have "none_allowed st3" using less(4) thrown(6) marks[OF fail_part[OF fair thrown(4)]] by simp
    from rel_register(2)[OF trans[OF rel_attempt[OF fair reach thrown(1-3) this] rel_fail[OF thrown(4)]]] thrown(6)
    show ?thesis by simp
  next
    case (failed t0 st1 t st2 err st3 b st4)
    have "none_allowed st3" using less(4) failed(7) marks[OF fail_part[OF fair failed(4)]] by simp
    from rel_register(2)[OF trans[OF rel_attempt[OF fair reach failed(1-3) this] rel_fail[OF failed(4)]]] failed(7)
    show ?thesis by simp
  next
    case (retried t0 st1 t st2 err st3 st4 st5)
    have reach4: "approval_reach (queue_of st4)"
      using marked_ok[OF attempt_ok[OF fair reach retried(1-3)] fail_part[OF fair retried(4)]] reach reach_moves
      by (auto simp: run_ok_def)
    have n5: "none_allowed st5" using less(4) retried(7) by simp
    have "none_allowed st4"
      using handle_run_ok[OF fair reach4 retried(6)] n5 by (auto simp: run_ok_def none_allowed_def)
    then have n3: "none_allowed st3" using marks[OF fail_part[OF fair retried(4)]] by blast
    have "R (cs_world st4) (cs_world st5)" using less(1)[OF _ reach4 retried(6) n5] retried(5) by simp
    from rel_register(2)[OF trans[OF trans[OF rel_attempt[OF fair reach retried(1-3) n3] rel_fail[OF retried(4)]] this]] retried(7)
    show ?thesis by simp
  qed
qed

end

text \<open>Others leave the result cache alone.\<close>

definition cache_idle :: "('r, 's) call_env \<Rightarrow> bool" where
  "cache_idle e \<longleftrightarrow> (\<forall>k w. w_cache (en_others e k w) = w_cache w)"

interpretation cache_rel: queue_blind e "\<lambda>w w'. cache_idle e \<longrightarrow> w_cache w' = w_cache w" for e
  by unfold_locales (auto simp: cache_idle_def)

text \<open>
  C27: gated calls do not touch the cache. If no verdict of the policy engine during a call allows
  it, because all of them ask for an approval or deny the call, then the call neither reads a
  result from the cache nor leaves one there: the cache and its counters stay as they are, unless
  others change them.
\<close>

theorem gated_calls_uncached:
  assumes "fair_env e" "cache_idle e" "approval_reach (queue_of st)"
    and "handleToolCall e a rq uids 0 st = (out, st')"
    and "\<forall>s t v. Judged s t v \<in> set (cs_trace st') \<longrightarrow> pr_decision v \<noteq> Allow"
  shows "w_cache (cs_world st') = w_cache (cs_world st)"
  using cache_rel.rel_handle[OF assms(1,3,4)] assms(2,5) unfolding none_allowed_def by blast

section \<open>An example\<close>

text \<open>
  A call of a dangerous tool. An administrator approves the first request at await \<open>k\<close>; nothing
  else happens.
\<close>

definition call_platform :: "unit platform" where
  "call_platform = \<lparr>number_str = (\<lambda>q. int_str \<lfloor>q\<rfloor>), string_number = (\<lambda>_. NaN), parse_float = (\<lambda>_. NaN),
     url_hostname = (\<lambda>_. None), regexp_test = (\<lambda>_ _. None), function_str = (\<lambda>_. []),
     object_proto = (\<lambda>_. None), array_proto = (\<lambda>_. None)\<rparr>"

definition fresh_id :: "approval_table \<Rightarrow> string" where
  "fresh_id t = ''r'' @ concat (map ar_id t)"

definition admin :: decision_actor where
  "admin = \<lparr>actorUserId = None, actorRole = Some 1, channel = ''console''\<rparr>"

definition approve_first :: "('r, 's) world \<Rightarrow> ('r, 's) world" where
  "approve_first w =
     (let q = w_queue w in
      w\<lparr>w_queue := \<lparr>q_table = snd (repo_decide ''r'' True admin None 100 (q_table q)),
         q_log = map (\<lambda>r. EvDecided (ar_id r) True) (filter (decide_guard ''r'' 100) (q_table q)) @ q_log q\<rparr>\<rparr>)"

definition call_demo :: "nat \<Rightarrow> (nat \<Rightarrow> call_error + json) \<Rightarrow> (nat \<Rightarrow> bool) \<Rightarrow> (unit, memory_store) call_env" where
  "call_demo k reply aborted = \<lparr>en_platform = call_platform, en_fresh = (), en_approvals = demo_env, en_cache = demo_cache,
     en_store = memory_ops, en_lazy = True, en_ownerToken = Some ''o'',
     en_others = (\<lambda>n w. if n = k then approve_first w else w), en_elapsed = (\<lambda>_. 1), en_skew = (\<lambda>_. 0),
     en_uuid = (\<lambda>_ t _. fresh_id t), en_aborted = aborted, en_queryFails = (\<lambda>_. False),
     en_cacheDown = (\<lambda>_ _. False), en_reply = reply, en_ping = (\<lambda>_. None),
     en_connect = (\<lambda>_ c. (None, c)), en_downstreamId = (\<lambda>n. IdNum (int n)), en_flight = (\<lambda>_. None),
     en_observers = (\<lambda>_. 1), en_started = (\<lambda>_. Inr ()), en_server = (\<lambda>_ _. None), en_session = (\<lambda>_ _. None)\<rparr>"

definition call_user :: session_user where
  "call_user = \<lparr>ac_anonymous = False, ac_userId = ''ann'', ac_permissions = [],
     ac_userPreferences = [(''bank'', \<lparr>ct_tools = Some [(''pay'', \<lparr>cx_enabled = Some True, cx_dangerLevel = Some Approval,
       cx_cache = None\<rparr>)], ct_resources = Some [], ct_prompts = Some [], sp_enabled = Some True\<rparr>)], su_tenantId = None\<rparr>"

definition call_request :: "unit tool_request" where
  "call_request = \<lparr>tr_id = IdNum 1, tr_name = ''pay_-_1'', tr_arguments = Some (JObj () [(''to'', JStr ''bob'')]), tr_meta = None\<rparr>"

definition call_start :: "(unit, memory_store) call_state" where
  "call_start = \<lparr>cs_world = \<lparr>w_registry = snd (initializeManagedServerContext demo_row (demo_entity ''bank'' False) (Some Online) 0
         \<lparr>serverContexts = [], temporaryServers = [], sm_nextId = 1\<rparr>)
       \<lparr>serverContexts := [(''bank'', demo_row\<lparr>sx_id := ''1'', sx_serverID := ''bank'', sx_entity := demo_entity ''bank'' False,
          sx_status := Online, sx_connection := Some 7\<rparr>)]\<rparr>,
       w_queue = \<lparr>q_table = [], q_log = []\<rparr>, w_policies = \<lparr>pw_table = [], pw_cache = []\<rparr>,
       w_cache = \<lparr>cm_store = memory_store_new 10, cm_metrics = zero_metrics\<rparr>,
       w_mapper = new_mapper ''s'', w_starting = []\<rparr>,
     cs_tick = 0, cs_now = 0, cs_trace = []\<rparr>"

lemma fresh_id_new: "fresh_id t \<notin> set (map ar_id t)"
proof
  assume "fresh_id t \<in> set (map ar_id t)"
  then have "length (fresh_id t) \<in> set (map length (map ar_id t))" by fastforce
  then have "length (fresh_id t) \<le> sum_list (map length (map ar_id t))" by (rule member_le_sum_list) simp
  then show False by (simp add: fresh_id_def length_concat)
qed

lemma call_demo_fair: "fair_env (call_demo k reply aborted)"
proof -
  have "approval_step (w_queue w) (w_queue (approve_first w))" for w :: "(unit, memory_store) world"
    using as_decide[of "w_queue w" "''r''" True admin None 100] by (simp add: approve_first_def Let_def)
  then show ?thesis using fresh_id_new by (auto simp: fair_env_def call_demo_def)
qed

lemma call_start_simps [simp]:
  "queue_of call_start = \<lparr>q_table = [], q_log = []\<rparr>" "cs_trace call_start = []"
  by (simp_all add: call_start_def)

text \<open>The server times out and the client gives up while the second request is pending.\<close>

definition timed_out_call :: "(unit, memory_store) call_env" where
  "timed_out_call = call_demo 5 (\<lambda>_. Inl \<lparr>ce_timeout = True, ce_text = ''timeout''\<rparr>) (\<lambda>n. n > 8)"

lemma timed_out_run:
  "case handleToolCall timed_out_call call_user call_request (\<lambda>_. ''u'') 0 call_start of (out, st) \<Rightarrow>
     used (cs_trace st) = [''r''] \<and>
     list_all (\<lambda>ev. case ev of Judged _ _ v \<Rightarrow> pr_decision v = RequireApproval | _ \<Rightarrow> True) (cs_trace st) \<and>
     (case out of Inr (ApprovalNotice m) \<Rightarrow> take 17 (om_text m) = ''TOOL NOT EXECUTED'' | _ \<Rightarrow> False)"
  by code_simp

lemma call_start_reach: "approval_reach (queue_of call_start)"
  by (simp add: ar_start)

lemma call_demo_idle: "cache_idle (call_demo k reply aborted)"
proof -
  have "w_cache (approve_first w) = w_cache w" for w :: "(unit, memory_store) world"
    unfolding approve_first_def Let_def by simp
  then show ?thesis unfolding cache_idle_def call_demo_def by simp
qed

lemma timed_out_facts: "fair_env timed_out_call" "cache_idle timed_out_call"
  unfolding timed_out_call_def by (rule call_demo_fair, rule call_demo_idle)



theorem tool_call_sent_thrice_witness:
  "\<exists>out st'. handleToolCall timed_out_call call_user call_request (\<lambda>_. ''u'') 0 call_start = (out, st') \<and>
     used (cs_trace st') = [''r''] \<and> length (filter is_forward (cs_trace st')) \<le> 3"
proof -
  obtain out st' where run: "handleToolCall timed_out_call call_user call_request (\<lambda>_. ''u'') 0 call_start = (out, st')"
    by fastforce
  with timed_out_run have "used (cs_trace st') = [''r'']" by simp
  with run tool_call_sent_thrice[OF timed_out_facts(1) call_start_reach _ run] show ?thesis by simp
qed

theorem gated_calls_uncached_witness:
  "\<exists>out st'. handleToolCall timed_out_call call_user call_request (\<lambda>_. ''u'') 0 call_start = (out, st') \<and>
     w_cache (cs_world st') = w_cache (cs_world call_start)"
proof -
  obtain out st' where run: "handleToolCall timed_out_call call_user call_request (\<lambda>_. ''u'') 0 call_start = (out, st')"
    by fastforce
  with timed_out_run have "\<forall>s t v. Judged s t v \<in> set (cs_trace st') \<longrightarrow> pr_decision v \<noteq> Allow"
    by (fastforce simp: list_all_iff)
  from gated_calls_uncached[OF timed_out_facts call_start_reach run this] run show ?thesis by simp
qed

text \<open>A call that is given up while its request is pending.\<close>

definition abandoned_call :: "(unit, memory_store) call_env" where
  "abandoned_call = call_demo 99 (\<lambda>_. Inl \<lparr>ce_timeout = False, ce_text = ''down''\<rparr>) (\<lambda>_. True)"

lemma abandoned_run:
  "case fst (handleToolCall abandoned_call call_user call_request (\<lambda>_. ''u'') 0 call_start) of
     Inr (ApprovalNotice m) \<Rightarrow> om_status m = ''aborted'' | _ \<Rightarrow> False"
  by code_simp

theorem notices_truthful_witness:
  "\<exists>m st'. handleToolCall abandoned_call call_user call_request (\<lambda>_. ''u'') 0 call_start = (Inr (ApprovalNotice m), st') \<and>
     om_status m = ''aborted'' \<and> filter is_forward (cs_trace st') = []"
proof -
  obtain m st' where run: "handleToolCall abandoned_call call_user call_request (\<lambda>_. ''u'') 0 call_start =
      (Inr (ApprovalNotice m), st')" and m: "om_status m = ''aborted''"
    using abandoned_run
    by (cases "handleToolCall abandoned_call call_user call_request (\<lambda>_. ''u'') 0 call_start")
      (auto split: sum.splits tool_reply.splits)
  have "fair_env abandoned_call" "no_timeouts abandoned_call"
    unfolding abandoned_call_def by (rule call_demo_fair, simp add: no_timeouts_def call_demo_def)
  from notices_truthful[OF this(1) call_start_reach _ this(2) run] run m show ?thesis by simp
qed

theorem approval_wait_bounded_witness:
  "\<exists>x st'. waitForApproval timed_out_call ''r'' True call_start = (x, st') \<and> cs_now st' \<le> 55003"
proof -
  obtain x st' where run: "waitForApproval timed_out_call ''r'' True call_start = (x, st')" by fastforce
  have "\<forall>k. int (en_elapsed timed_out_call k) \<le> 1" by (simp add: timed_out_call_def call_demo_def)
  from approval_wait_bounded[OF this run] run show ?thesis
    by (simp add: APPROVAL_WAIT_TIMEOUT_MS_def call_start_def)
qed

end
