(* ===== verification/Session_Data.thy ===== *)
theory Session_Data
  imports Peta_Prelude
begin

text \<open>
  The data of authenticated sessions: the authentication context (\<open>types/auth.types.ts\<close>), client
  sessions (\<open>mcp/core/ClientSession.ts\<close>) and the store that holds them (\<open>mcp/core/SessionStore.ts\<close>).
  Sessions are objects that the store and running requests share, so they live in a heap and are
  referred to by their address.
\<close>

section \<open>The authentication context\<close>

text \<open>The time of authentication and the user agent are left out.\<close>

record auth_info =
  au_anonymous :: bool
  au_userId :: string
  au_token :: string
  au_role :: int
  au_status :: int
  au_permissions :: json
  au_userPreferences :: json
  au_launchConfigs :: string
  au_expiresAt :: "int option"
  au_rateLimit :: int
  au_tenantId :: "string option"
  au_oauthClientId :: "string option"
  au_oauthScopes :: "string list option"
  au_oauthAccessTokenExpiresAt :: "int option"

datatype disconnect_reason =
    CLIENT_DISCONNECT
  | USER_DISABLED
  | USER_EXPIRED
  | PERMISSION_REVOKED
  | ADMIN_REQUEST
  | SESSION_TIMEOUT
  | SERVER_SHUTDOWN
  | SESSION_REMOVED

section \<open>Sessions\<close>

record client_session =
  cs_sessionId :: string
  cs_userId :: string
  cs_token :: string
  cs_auth :: auth_info
  cs_lastActive :: int
  cs_sseConnected :: bool
  cs_lastSseDisconnectedAt :: "int option"
  cs_lastUserInfoRefresh :: "int option"
  cs_closeTriggered :: bool

record tombstone =
  tm_userId :: string
  tm_anonymous :: bool
  tm_tokenFingerprint :: string
  tm_expiresAt :: int

text \<open>Of proxy sessions, event stores and loggers the store only needs to know for which sessions they exist.\<close>

record session_store =
  ss_heap :: "client_session list"
  ss_sessions :: "(string, nat) jsmap"
  ss_proxySessions :: "string list"
  ss_userSessions :: "(string, string list) jsmap"
  ss_eventStores :: "string list"
  ss_sessionLoggers :: "string list"
  ss_terminatedSessions :: "(string, tombstone) jsmap"

definition SESSION_INACTIVITY_TIMEOUT_MS :: int where "SESSION_INACTIVITY_TIMEOUT_MS = 600000"
definition SESSION_RECONNECT_GRACE_MS :: int where "SESSION_RECONNECT_GRACE_MS = 30000"

definition empty_store :: session_store where
  "empty_store = \<lparr>ss_heap = [], ss_sessions = [], ss_proxySessions = [], ss_userSessions = [], ss_eventStores = [],
     ss_sessionLoggers = [], ss_terminatedSessions = []\<rparr>"

section \<open>Operations of a session\<close>

definition isJwtFormat :: "string \<Rightarrow> bool" where
  "isJwtFormat token \<longleftrightarrow> length (js_split (CHR ''.'') token) = 3"


definition new_session :: "string \<Rightarrow> string \<Rightarrow> string \<Rightarrow> auth_info \<Rightarrow> int \<Rightarrow> client_session" where
  "new_session sessionId userId token authContext now =
     \<lparr>cs_sessionId = sessionId, cs_userId = userId, cs_token = token, cs_auth = authContext, cs_lastActive = now,
      cs_sseConnected = False, cs_lastSseDisconnectedAt = None, cs_lastUserInfoRefresh = Some now,
      cs_closeTriggered = False\<rparr>"

definition cs_touch :: "int \<Rightarrow> client_session \<Rightarrow> client_session" where
  "cs_touch now s = s\<lparr>cs_lastActive := now\<rparr>"

definition markSseConnected :: "int \<Rightarrow> client_session \<Rightarrow> client_session" where
  "markSseConnected now s =
     (if cs_sseConnected s then s
      else cs_touch now (s\<lparr>cs_sseConnected := True, cs_lastSseDisconnectedAt := None\<rparr>))"

definition markSseDisconnected :: "int \<Rightarrow> client_session \<Rightarrow> client_session" where
  "markSseDisconnected now s =
     (if cs_sseConnected s then s\<lparr>cs_sseConnected := False, cs_lastSseDisconnectedAt := Some now\<rparr> else s)"

text \<open>\<open>isExpired()\<close>; a time of 0 counts as none. The optional timeout has no caller.\<close>

definition cs_isExpired :: "int \<Rightarrow> client_session \<Rightarrow> bool" where
  "cs_isExpired now s =
     (case au_expiresAt (cs_auth s) of None \<Rightarrow> False | Some t \<Rightarrow> t \<noteq> 0 \<and> now div 1000 > t)"

definition cs_isInactive :: "int \<Rightarrow> int \<Rightarrow> client_session \<Rightarrow> bool" where
  "cs_isInactive now timeoutMs s \<longleftrightarrow>
     \<not> cs_sseConnected s \<and>
     now - max (cs_lastActive s) (case cs_lastSseDisconnectedAt s of Some t \<Rightarrow> t | None \<Rightarrow> 0) > timeoutMs"


text \<open>What no operation on the store changes: sessions do not move, and keep their name, user, token and kind.\<close>

definition session_key :: "client_session \<Rightarrow> string \<times> string \<times> string \<times> bool" where
  "session_key s = (cs_sessionId s, cs_userId s, cs_token s, au_anonymous (cs_auth s))"

definition store_extends :: "session_store \<Rightarrow> session_store \<Rightarrow> bool" where
  "store_extends ss ss' \<longleftrightarrow> length (ss_heap ss) \<le> length (ss_heap ss') \<and>
     (\<forall>r<length (ss_heap ss). session_key (ss_heap ss' ! r) = session_key (ss_heap ss ! r))"

text \<open>The sessions the store knows are on the heap, under their name.\<close>

definition store_refs :: "session_store \<Rightarrow> bool" where
  "store_refs ss \<longleftrightarrow> (\<forall>(i, r)\<in>set (ss_sessions ss). r < length (ss_heap ss) \<and> cs_sessionId (ss_heap ss ! r) = i)"

lemma store_extends_refl [simp]: "store_extends ss ss"
  by (simp add: store_extends_def)

lemma store_extends_trans: "store_extends a b \<Longrightarrow> store_extends b c \<Longrightarrow> store_extends a c"
  by (auto simp: store_extends_def)

end
