(* ===== verification/OAuth_Base.thy ===== *)
theory OAuth_Base
  imports Session_Data
begin

text \<open>
  Ground of the authorization server (\<open>src/oauth\<close>): its tables, the helpers of
  \<open>oauth/services/OAuthService.ts\<close>, the public address of the gateway (\<open>utils/urlUtils.ts\<close>), and
  how its request handlers run. A handler runs alone between two \<open>await\<close>s; at an \<open>await\<close> the
  handlers of other requests may run. A handler is a function of the state that returns or throws;
  the triples of the locale \<open>oauth_triples\<close> are the rules by which the other theories prove what holds
  when one returns.
\<close>

section \<open>Platform\<close>

text \<open>
  A parsed URL: its parts, its text \<open>u_href\<close>, and its text after \<open>port = ''\<close> and after \<open>pathname = ''\<close>.
\<close>

record url =
  u_protocol :: string
  u_hostname :: string
  u_port :: string
  u_pathname :: string
  u_search :: string
  u_hash :: string
  u_username :: string
  u_password :: string
  u_href :: string
  u_portless :: string
  u_pathless :: string

record token_payload =
  tp_type :: string
  tp_client_id :: string
  tp_user_id :: string
  tp_scopes :: "string list"
  tp_aud :: "string option"
  tp_iat :: int
  tp_exp :: int

text \<open>
  What the code takes from its platform: the URL parser (\<open>None\<close> when it throws) and the text of a
  URL after setting search parameters, SHA-256 in base64url and in hexadecimal, base64 decoding, the version of an IP
  address (0 for none) and its number, signing and verifying of tokens with the secret, and the
  environment variables. Verification is at a time in seconds and covers the expiry.
\<close>

record oauth_platform =
  op_url :: "string \<Rightarrow> url option"
  op_withParams :: "string \<Rightarrow> (string \<times> string) list \<Rightarrow> string option"
  op_sha256 :: "string \<Rightarrow> string"
  op_hash :: "string \<Rightarrow> string"
  op_base64 :: "string \<Rightarrow> string"
  op_isIP :: "string \<Rightarrow> nat"
  op_ip_number :: "string \<Rightarrow> nat"
  op_sign :: "string \<Rightarrow> token_payload \<Rightarrow> string"
  op_verify :: "string \<Rightarrow> int \<Rightarrow> string \<Rightarrow> token_payload option"
  op_jwtSecret :: string
  op_publicUrl :: "string option"
  op_enableHttps :: bool
  op_allowFakeIp :: "string option"

section \<open>The service\<close>

definition ACCESS_TOKEN_LIFETIME :: int where "ACCESS_TOKEN_LIFETIME = 3600"
definition REFRESH_TOKEN_LIFETIME :: int where "REFRESH_TOKEN_LIFETIME = 2592000"
definition AUTHORIZATION_CODE_LIFETIME :: int where "AUTHORIZATION_CODE_LIFETIME = 600"

definition MCP_OAUTH_SCOPES :: "string list" where
  "MCP_OAUTH_SCOPES = [''mcp:tools'', ''mcp:resources'', ''mcp:prompts'']"

definition is_given :: "string option \<Rightarrow> bool" where
  "is_given v \<longleftrightarrow> v \<noteq> None \<and> v \<noteq> Some []"

definition text_of :: "string option \<Rightarrow> string" where
  "text_of v = (case v of Some s \<Rightarrow> s | None \<Rightarrow> [])"

definition access_payload :: "string \<Rightarrow> string \<Rightarrow> string list \<Rightarrow> string option \<Rightarrow> int \<Rightarrow> token_payload" where
  "access_payload clientId userId scopes resource now =
     \<lparr>tp_type = ''access_token'', tp_client_id = clientId, tp_user_id = userId, tp_scopes = scopes,
      tp_aud = (if is_given resource then resource else None), tp_iat = now div 1000,
      tp_exp = now div 1000 + ACCESS_TOKEN_LIFETIME\<rparr>"

definition generateAccessToken ::
    "oauth_platform \<Rightarrow> string \<Rightarrow> string \<Rightarrow> string list \<Rightarrow> string option \<Rightarrow> int \<Rightarrow> string + string" where
  "generateAccessToken pf clientId userId scopes resource now =
     (if op_jwtSecret pf = [] then Inl ''JWT_SECRET environment variable is required''
      else Inr (op_sign pf (op_jwtSecret pf) (access_payload clientId userId scopes resource now)))"

definition verifyPKCEChallenge :: "oauth_platform \<Rightarrow> string \<Rightarrow> string \<Rightarrow> bool" where
  "verifyPKCEChallenge pf codeVerifier codeChallenge \<longleftrightarrow> op_sha256 pf codeVerifier = codeChallenge"

definition secret_matches :: "string \<Rightarrow> string option \<Rightarrow> bool" where
  "secret_matches clientSecret storedSecret \<longleftrightarrow> is_given storedSecret \<and> Some clientSecret = storedSecret"

definition parseScope :: "string option \<Rightarrow> string list" where
  "parseScope scopeString =
     (if \<not> is_given scopeString then [''mcp:tools'']
      else filter (\<lambda>s. s \<noteq> []) (js_split (CHR '' '') (text_of scopeString)))"

definition isLoopbackRedirectHost :: "string \<Rightarrow> bool" where
  "isLoopbackRedirectHost hostname \<longleftrightarrow>
     js_toLowerCase hostname \<in> {''localhost'', ''127.0.0.1'', ''[::1]''}"

definition loopbackRedirectPortAgnosticKeyFromUrl :: "url \<Rightarrow> string option" where
  "loopbackRedirectPortAgnosticKeyFromUrl u =
     (if u_protocol u \<noteq> ''http:'' then None
      else if \<not> isLoopbackRedirectHost (u_hostname u) then None
      else Some (u_portless u))"

definition loopbackRedirectPortAgnosticKey :: "oauth_platform \<Rightarrow> string \<Rightarrow> string option" where
  "loopbackRedirectPortAgnosticKey pf redirectUri =
     (case op_url pf redirectUri of None \<Rightarrow> None | Some u \<Rightarrow> loopbackRedirectPortAgnosticKeyFromUrl u)"

definition portlessLoopbackRedirectKey :: "oauth_platform \<Rightarrow> string \<Rightarrow> string option" where
  "portlessLoopbackRedirectKey pf redirectUri =
     (case op_url pf redirectUri of
        None \<Rightarrow> None
      | Some u \<Rightarrow> if u_port u \<noteq> [] then None else loopbackRedirectPortAgnosticKeyFromUrl u)"

text \<open>A key is compared with the \<open>===\<close> of the code; an empty key counts as none.\<close>

definition validateRedirectUri :: "oauth_platform \<Rightarrow> string \<Rightarrow> string list \<Rightarrow> bool" where
  "validateRedirectUri pf redirectUri allowedUris \<longleftrightarrow>
     redirectUri \<in> set allowedUris \<or>
     (case loopbackRedirectPortAgnosticKey pf redirectUri of
        None \<Rightarrow> False
      | Some requestedLoopback \<Rightarrow> requestedLoopback \<noteq> [] \<and>
          list_ex (\<lambda>allowedUri. portlessLoopbackRedirectKey pf allowedUri = Some requestedLoopback) allowedUris)"

definition buildErrorRedirectUrl ::
    "oauth_platform \<Rightarrow> string \<Rightarrow> string \<Rightarrow> string option \<Rightarrow> string option \<Rightarrow> string option" where
  "buildErrorRedirectUrl pf redirectUri err errorDescription state =
     op_withParams pf redirectUri ((''error'', err) #
       (if is_given errorDescription then [(''error_description'', text_of errorDescription)] else []) @
       (if is_given state then [(''state'', text_of state)] else []))"

definition buildSuccessRedirectUrl ::
    "oauth_platform \<Rightarrow> string \<Rightarrow> string \<Rightarrow> string option \<Rightarrow> string option \<Rightarrow> string option" where
  "buildSuccessRedirectUrl pf redirectUri code state issuer =
     op_withParams pf redirectUri ((''code'', code) #
       (if is_given state then [(''state'', text_of state)] else []) @
       (if is_given issuer then [(''iss'', text_of issuer)] else []))"

text \<open>\<open>verifyAccessToken\<close> throws inside its own \<open>try\<close> when there is no secret.\<close>

definition verifyAccessToken :: "oauth_platform \<Rightarrow> int \<Rightarrow> string \<Rightarrow> token_payload option" where
  "verifyAccessToken pf now token =
     (if op_jwtSecret pf = [] then None else op_verify pf (op_jwtSecret pf) (now div 1000) token)"

definition parseBasicAuth :: "oauth_platform \<Rightarrow> string \<Rightarrow> (string \<times> string) option" where
  "parseBasicAuth pf authHeader =
     (if authHeader = [] \<or> \<not> js_startsWith authHeader ''Basic '' then None
      else (case js_split (CHR '':'') (op_base64 pf (drop 6 authHeader)) of
          clientId # clientSecret # _ \<Rightarrow>
            if clientId = [] \<or> clientSecret = [] then None else Some (clientId, clientSecret)
        | _ \<Rightarrow> None))"

definition isScopeSubset :: "string list \<Rightarrow> string list \<Rightarrow> bool" where
  "isScopeSubset requestedScopes originalScopes \<longleftrightarrow> list_all (\<lambda>s. s \<in> set originalScopes) requestedScopes"

section \<open>The public address\<close>

text \<open>
  The parts of a request the handlers read. \<open>hr_trusted\<close> says that the peer is a trusted proxy, as
  Express decides it from its configuration.
\<close>

record oauth_request =
  hr_host :: "string option"
  hr_forwardedProto :: "string option"
  hr_forwardedHost :: "string option"
  hr_trusted :: bool
  hr_protocol :: string
  hr_authorization :: "string option"

definition PUBLIC_URL_CONFIGURATION_ERROR :: string where
  "PUBLIC_URL_CONFIGURATION_ERROR = ''PETA_PUBLIC_URL or a trusted proxy is required for public URLs''"

definition strip_slashes :: "string \<Rightarrow> string" where
  "strip_slashes s = rev (dropWhile (\<lambda>c. c = CHR ''/'') (rev s))"

definition getConfiguredPublicUrl :: "oauth_platform \<Rightarrow> string option" where
  "getConfiguredPublicUrl pf =
     (case op_publicUrl pf of
        None \<Rightarrow> None
      | Some v \<Rightarrow> if js_trim v = [] then None else Some (strip_slashes (js_trim v) @ ''/mcp''))"

definition getForwardedHeader :: "oauth_request \<Rightarrow> string option \<Rightarrow> string option" where
  "getForwardedHeader req header =
     (if \<not> hr_trusted req then None
      else map_option (\<lambda>v. js_trim (hd (js_split (CHR '','') v))) header)"

text \<open>\<open>hostname.replace(/^\[|\]$/g, '')\<close>.\<close>

definition unbracket :: "string \<Rightarrow> string" where
  "unbracket h =
     (let h1 = (case h of c # r \<Rightarrow> if c = CHR ''['' then r else h | [] \<Rightarrow> [])
      in if h1 \<noteq> [] \<and> last h1 = CHR '']'' then butlast h1 else h1)"

definition local_hostname :: "oauth_platform \<Rightarrow> string \<Rightarrow> bool" where
  "local_hostname pf hostname \<longleftrightarrow> hostname = ''localhost'' \<or> js_endsWith hostname ''.localhost'' \<or>
     op_isIP pf hostname = 4 \<and> js_startsWith hostname ''127.'' \<or> op_isIP pf hostname = 6 \<and> hostname = ''::1''"

definition getLocalRawHost :: "oauth_platform \<Rightarrow> oauth_request \<Rightarrow> string option" where
  "getLocalRawHost pf req =
     (let host = text_of (hr_host req) in
      if host = [] \<or> js_trim host \<noteq> host \<or> list_ex (\<lambda>c. c \<in> set ''/#?@'') host \<or> js_endsWith host '':'' then None
      else case op_url pf (''http://'' @ host) of
          None \<Rightarrow> None
        | Some u \<Rightarrow>
            if u_pathname u \<noteq> ''/'' \<or> u_search u \<noteq> [] \<or> u_hash u \<noteq> [] \<or> u_username u \<noteq> [] \<or> u_password u \<noteq> []
            then None
            else if \<not> local_hostname pf (unbracket (u_hostname u)) then None
            else Some host)"

text \<open>\<open>None\<close> is the error \<open>PUBLIC_URL_CONFIGURATION_ERROR\<close>, or that of the URL parser.\<close>

definition getPublicUrl :: "oauth_platform \<Rightarrow> oauth_request \<Rightarrow> string option" where
  "getPublicUrl pf req =
     (case getConfiguredPublicUrl pf of
        Some u \<Rightarrow> Some u
      | None \<Rightarrow>
          (let forwardedProtocol = getForwardedHeader req (hr_forwardedProto req);
               forwardedHost = getForwardedHeader req (hr_forwardedHost req);
               protocol = (if is_given forwardedProtocol then text_of forwardedProtocol
                 else if hr_protocol req \<noteq> [] then hr_protocol req
                 else if op_enableHttps pf then ''https'' else ''http'');
               host = (if is_given forwardedHost then forwardedHost else getLocalRawHost pf req)
           in map_option (\<lambda>h. protocol @ ''://'' @ h @ ''/mcp'') host))"

definition getAuthorizationServerUrl :: "oauth_platform \<Rightarrow> oauth_request \<Rightarrow> string option" where
  "getAuthorizationServerUrl pf req =
     (case getPublicUrl pf req of
        None \<Rightarrow> None
      | Some gatewayUrl \<Rightarrow>
          (case op_url pf gatewayUrl of
             None \<Rightarrow> None
           | Some u \<Rightarrow>
               (let t = (if u_pathname u = ''/mcp'' then u_pathless u else u_href u)
                in Some (if t \<noteq> [] \<and> last t = CHR ''/'' then butlast t else t))))"

section \<open>Tables, flows and sessions\<close>

text \<open>
  A user; the two JSON columns as \<open>JSON.parse\<close> reads them (\<open>None\<close> when it throws), the permissions also as the
  text they are stored as. The expiry is in seconds. The name, the notes, the encrypted token and the times of creation and change are left out.
\<close>

record user_row =
  us_userId :: string
  us_role :: int
  us_status :: int
  us_permissionsText :: string
  us_permissions :: "json option"
  us_userPreferences :: "json option"
  us_launchConfigs :: string
  us_expiresAt :: "int option"
  us_ratelimit :: int
  us_proxyId :: int

record oauth_client =
  oc_clientId :: string
  oc_issuer :: string
  oc_clientSecret :: "string option"
  oc_applicationType :: string
  oc_tokenEndpointAuthMethod :: string
  oc_name :: string
  oc_redirectUris :: "string list"
  oc_scopes :: "string list"
  oc_grantTypes :: "string list"
  oc_responseTypes :: "string list"
  oc_userId :: "string option"
  oc_trusted :: bool
  oc_createdAt :: int
  oc_updatedAt :: int

record auth_code =
  co_code :: string
  co_clientId :: string
  co_userId :: string
  co_redirectUri :: string
  co_scopes :: "string list"
  co_codeChallenge :: "string option"
  co_challengeMethod :: "string option"
  co_resource :: "string option"
  co_expiresAt :: int
  co_used :: bool

record oauth_token =
  ot_tokenId :: string
  ot_accessToken :: string
  ot_refreshToken :: "string option"
  ot_clientId :: string
  ot_userId :: string
  ot_scopes :: "string list"
  ot_resource :: "string option"
  ot_accessTokenExpiresAt :: int
  ot_refreshTokenExpiresAt :: "int option"
  ot_revoked :: bool

record desk_params =
  dp_client_id :: string
  dp_redirect_uri :: string
  dp_scope :: "string option"
  dp_state :: "string option"
  dp_code_challenge :: "string option"
  dp_code_challenge_method :: "string option"
  dp_resource :: "string option"

datatype flow_status = FlowPending | FlowCompleted | FlowFailed | FlowExpired

record desk_flow =
  df_flowId :: string
  df_issuer :: string
  df_params :: desk_params
  df_status :: flow_status
  df_expiresAt :: int
  df_redirect :: "string option"
  df_error :: "string option"
  df_errorDescription :: "string option"

text \<open>
  A log that the code does not keep, newest first, for stating what happened: a code was issued
  (with its row), a code was redeemed (by which handler), a token record was made from a code, a
  record was revoked.
\<close>

datatype oauth_event =
    Authorized auth_code
  | Redeemed string nat
  | Issued string string
  | Revoked string

record oauth_world =
  ow_users :: "user_row list"
  ow_clients :: "oauth_client list"
  ow_codes :: "auth_code list"
  ow_tokens :: "oauth_token list"
  ow_flows :: "(string, desk_flow) jsmap"
  ow_store :: session_store
  ow_log :: "oauth_event list"

section \<open>Handlers\<close>

text \<open>An answer of the server of a client metadata document: status, media type, declared length, body.\<close>

record http_answer =
  ha_status :: int
  ha_contentType :: "string option"
  ha_contentLength :: "rat option"
  ha_body :: "json option"

text \<open>
  The environment: the name of the handler in the log, what others do at the \<open>k\<close>-th \<open>await\<close> and how long it takes, random values for
  a purpose, whether a query fails, and name resolution and fetching (\<open>None\<close> when they fail).
\<close>

record oauth_env =
  oe_platform :: oauth_platform
  oe_self :: nat
  oe_others :: "nat \<Rightarrow> oauth_world \<Rightarrow> oauth_world"
  oe_elapsed :: "nat \<Rightarrow> nat"
  oe_random :: "nat \<Rightarrow> string \<Rightarrow> oauth_world \<Rightarrow> string"
  oe_down :: "nat \<Rightarrow> bool"
  oe_lookup :: "nat \<Rightarrow> string \<Rightarrow> string list option"
  oe_fetch :: "nat \<Rightarrow> string \<Rightarrow> string \<Rightarrow> http_answer option"

record oauth_state =
  os_world :: oauth_world
  os_tick :: nat
  os_now :: int

text \<open>A computation throws (the text of the error) or returns.\<close>

type_synonym 'a oa = "oauth_state \<Rightarrow> (string + 'a) \<times> oauth_state"

definition oa_return :: "'a \<Rightarrow> 'a oa" where
  "oa_return x st = (Inr x, st)"

definition oa_throw :: "string \<Rightarrow> 'a oa" where
  "oa_throw err st = (Inl err, st)"

definition oa_bind :: "'a oa \<Rightarrow> ('a \<Rightarrow> 'b oa) \<Rightarrow> 'b oa" where
  "oa_bind m f st = (case m st of (Inl err, st1) \<Rightarrow> (Inl err, st1) | (Inr x, st1) \<Rightarrow> f x st1)"

definition oa_catch :: "'a oa \<Rightarrow> (string \<Rightarrow> 'a oa) \<Rightarrow> 'a oa" where
  "oa_catch m h st = (case m st of (Inl err, st1) \<Rightarrow> h err st1 | (Inr x, st1) \<Rightarrow> (Inr x, st1))"

definition oa_lift :: "string + 'a \<Rightarrow> 'a oa" where
  "oa_lift r st = (r, st)"

definition oa_some :: "string \<Rightarrow> 'a option \<Rightarrow> 'a oa" where
  "oa_some err v = (case v of None \<Rightarrow> oa_throw err | Some x \<Rightarrow> oa_return x)"

text \<open>The clock and random values are read, and memory is changed, without an \<open>await\<close>.\<close>

definition oa_time :: "int oa" where
  "oa_time st = (Inr (os_now st), st)"

definition oa_random :: "oauth_env \<Rightarrow> string \<Rightarrow> string oa" where
  "oa_random e purpose st = (Inr (oe_random e (os_tick st) purpose (os_world st)), st)"

definition oa_act :: "(int \<Rightarrow> oauth_world \<Rightarrow> 'a \<times> oauth_world) \<Rightarrow> 'a oa" where
  "oa_act f st = (case f (os_now st) (os_world st) of (x, w) \<Rightarrow> (Inr x, st\<lparr>os_world := w\<rparr>))"

definition oa_pass :: "oauth_env \<Rightarrow> oauth_state \<Rightarrow> oauth_state" where
  "oa_pass e st = st\<lparr>os_world := oe_others e (os_tick st) (os_world st),
     os_now := os_now st + int (oe_elapsed e (os_tick st)), os_tick := Suc (os_tick st)\<rparr>"

text \<open>A statement on the database, which others may precede and follow; it may fail or throw.\<close>

definition oa_query :: "oauth_env \<Rightarrow> (nat \<Rightarrow> int \<Rightarrow> oauth_world \<Rightarrow> (string + 'a) \<times> oauth_world) \<Rightarrow> 'a oa" where
  "oa_query e operation st =
     (let st1 = oa_pass e st in
      if oe_down e (os_tick st1) then (Inl ''Database error'', oa_pass e st1)
      else (case operation (os_tick st1) (os_now st1) (os_world st1) of
          (r, w) \<Rightarrow> (r, oa_pass e (st1\<lparr>os_world := w\<rparr>))))"

definition oa_read :: "oauth_env \<Rightarrow> (oauth_world \<Rightarrow> 'a) \<Rightarrow> 'a oa" where
  "oa_read e f = oa_query e (\<lambda>k now w. (Inr (f w), w))"

text \<open>An \<open>await\<close> on the outside.\<close>

definition oa_ask :: "oauth_env \<Rightarrow> (nat \<Rightarrow> 'a) \<Rightarrow> 'a oa" where
  "oa_ask e f st = (Inr (f (os_tick st)), oa_pass e st)"

lemmas oa_defs = oa_return_def oa_throw_def oa_bind_def oa_catch_def oa_lift_def oa_some_def oa_time_def
  oa_random_def oa_act_def oa_query_def oa_read_def oa_ask_def

section \<open>What computations ensure\<close>

text \<open>
  \<open>S\<close> relates the worlds before and after what others do, \<open>R\<close> those before and after what the
  computation and others do. A condition lasts if \<open>S\<close> and the passing of time keep it. A
  computation ensures \<open>Q\<close> after \<open>P\<close> if it respects \<open>R\<close> and \<open>Q\<close> holds of what it returns.
\<close>

locale oauth_triples =
  fixes e :: oauth_env and S R :: "oauth_world \<Rightarrow> oauth_world \<Rightarrow> bool"
  assumes keep_refl: "R w w"
    and keep_trans: "R w w1 \<Longrightarrow> R w1 w2 \<Longrightarrow> R w w2"
    and keep_others: "S w (oe_others e k w)"
    and others_keep: "S w w' \<Longrightarrow> R w w'"
begin

definition later :: "oauth_state \<Rightarrow> oauth_state \<Rightarrow> bool" where
  "later st st' \<longleftrightarrow> R (os_world st) (os_world st') \<and> os_now st \<le> os_now st'"

definition lasting :: "(oauth_state \<Rightarrow> bool) \<Rightarrow> bool" where
  "lasting P \<longleftrightarrow> (\<forall>st st'. P st \<longrightarrow> S (os_world st) (os_world st') \<longrightarrow> os_now st \<le> os_now st' \<longrightarrow> P st')"

definition ensures :: "(oauth_state \<Rightarrow> bool) \<Rightarrow> 'a oa \<Rightarrow> ('a \<Rightarrow> oauth_state \<Rightarrow> bool) \<Rightarrow> bool" where
  "ensures P m Q \<longleftrightarrow> (\<forall>st x st'. P st \<longrightarrow> m st = (x, st') \<longrightarrow> later st st' \<and> (\<forall>y. x = Inr y \<longrightarrow> Q y st'))"

lemma later_refl: "later st st"
  by (simp add: later_def keep_refl)

lemma later_trans: "later st st1 \<Longrightarrow> later st1 st2 \<Longrightarrow> later st st2"
  unfolding later_def using keep_trans by (blast intro: order_trans)

lemma later_pass: "later st (oa_pass e st)"
  by (simp add: later_def oa_pass_def keep_others others_keep)

lemma lasting_pass: "lasting P \<Longrightarrow> P st \<Longrightarrow> P (oa_pass e st)"
  unfolding lasting_def by (simp add: oa_pass_def keep_others)

lemma later_world: "R (os_world st) w \<Longrightarrow> later st (st\<lparr>os_world := w\<rparr>)"
  by (simp add: later_def)

lemma lasting_conj: "lasting P \<Longrightarrow> lasting Q \<Longrightarrow> lasting (\<lambda>st. P st \<and> Q st)"
  unfolding lasting_def by blast

lemma lasting_const: "lasting (\<lambda>st. b)"
  by (simp add: lasting_def)

lemma ensuresD:
  assumes "ensures P m Q" "P st" "m st = (x, st')"
  shows "R (os_world st) (os_world st')" "os_now st \<le> os_now st'" "x = Inr y \<Longrightarrow> Q y st'"
  using assms by (auto simp: ensures_def later_def)

lemma ensures_weaken: "ensures P m Q \<Longrightarrow> (\<And>x st. Q x st \<Longrightarrow> Q' x st) \<Longrightarrow> ensures P m Q'"
  unfolding ensures_def by blast

lemma ensures_strengthen: "ensures P m Q \<Longrightarrow> (\<And>st. P' st \<Longrightarrow> P st) \<Longrightarrow> ensures P' m Q"
  unfolding ensures_def by blast

lemma ensures_true: "ensures P m Q \<Longrightarrow> ensures P m (\<lambda>_ _. True)"
  by (simp add: ensures_def)

lemma ensures_return: "(\<And>st. P st \<Longrightarrow> Q x st) \<Longrightarrow> ensures P (oa_return x) Q"
  by (auto simp: ensures_def oa_return_def later_refl)

lemma ensures_throw: "ensures P (oa_throw err) Q"
  by (simp add: ensures_def oa_throw_def later_refl)

lemma ensures_bind:
  assumes "ensures P m Q" "\<And>x. ensures (Q x) (f x) T"
  shows "ensures P (oa_bind m f) T"
  unfolding ensures_def
proof (intro allI impI)
  fix st x st'
  assume P: "P st" and run: "oa_bind m f st = (x, st')"
  obtain r st1 where m: "m st = (r, st1)" by fastforce
  have l: "later st st1" "\<And>y. r = Inr y \<Longrightarrow> Q y st1" using assms(1) P m unfolding ensures_def by blast+
  show "later st st' \<and> (\<forall>y. x = Inr y \<longrightarrow> T y st')"
  proof (cases r)
    case (Inl err)
    with run m l show ?thesis by (auto simp: oa_bind_def)
  next
    case (Inr y)
    then have "f y st1 = (x, st')" using run m by (simp add: oa_bind_def)
    then have "later st1 st'" "\<forall>z. x = Inr z \<longrightarrow> T z st'"
      using assms(2)[of y] l(2)[OF Inr] unfolding ensures_def by blast+
    with l(1) later_trans show ?thesis by blast
  qed
qed

lemma ensures_catch:
  assumes "ensures P m Q" "\<And>err. ensures (\<lambda>_. True) (h err) Q"
  shows "ensures P (oa_catch m h) Q"
  unfolding ensures_def
proof (intro allI impI)
  fix st x st'
  assume P: "P st" and run: "oa_catch m h st = (x, st')"
  obtain r st1 where m: "m st = (r, st1)" by fastforce
  have l: "later st st1" "\<And>y. r = Inr y \<Longrightarrow> Q y st1" using assms(1) P m unfolding ensures_def by blast+
  show "later st st' \<and> (\<forall>y. x = Inr y \<longrightarrow> Q y st')"
  proof (cases r)
    case (Inl err)
    then have "h err st1 = (x, st')" using run m by (simp add: oa_catch_def)
    then have "later st1 st'" "\<forall>z. x = Inr z \<longrightarrow> Q z st'" using assms(2)[of err] unfolding ensures_def by blast+
    with l(1) later_trans show ?thesis by blast
  next
    case (Inr y)
    with run m l show ?thesis by (auto simp: oa_catch_def)
  qed
qed

lemma ensures_lift: "(\<And>st x. P st \<Longrightarrow> r = Inr x \<Longrightarrow> Q x st) \<Longrightarrow> ensures P (oa_lift r) Q"
  by (auto simp: ensures_def oa_lift_def later_refl)

lemma ensures_some: "(\<And>st x. P st \<Longrightarrow> v = Some x \<Longrightarrow> Q x st) \<Longrightarrow> ensures P (oa_some err v) Q"
  by (auto simp: oa_some_def ensures_return ensures_throw split: option.splits)

lemma ensures_time: "(\<And>st. P st \<Longrightarrow> Q (os_now st) st) \<Longrightarrow> ensures P oa_time Q"
  by (auto simp: ensures_def oa_time_def later_refl)

lemma ensures_some_then: "(\<And>x. ensures P (f x) Q) \<Longrightarrow> ensures P (oa_bind (oa_some err v) f) Q"
  by (rule ensures_bind[of P _ "\<lambda>_. P"]) (auto intro: ensures_some)

lemma ensures_lift_then: "(\<And>x. r = Inr x \<Longrightarrow> ensures P (f x) Q) \<Longrightarrow> ensures P (oa_bind (oa_lift r) f) Q"
  by (cases r) (auto simp: ensures_def oa_bind_def oa_lift_def later_refl)

lemma ensures_time_then: "(\<And>now. ensures (\<lambda>st. P st \<and> now = os_now st) (f now) Q) \<Longrightarrow> ensures P (oa_bind oa_time f) Q"
  by (rule ensures_bind[of P _ "\<lambda>now st. P st \<and> now = os_now st"]) (auto intro: ensures_time)

lemma ensures_random:
  "(\<And>st. P st \<Longrightarrow> Q (oe_random e (os_tick st) purpose (os_world st)) st) \<Longrightarrow> ensures P (oa_random e purpose) Q"
  by (auto simp: ensures_def oa_random_def later_refl)

lemma ensures_act:
  assumes "\<And>st x w. P st \<Longrightarrow> f (os_now st) (os_world st) = (x, w) \<Longrightarrow> R (os_world st) w \<and> Q x (st\<lparr>os_world := w\<rparr>)"
  shows "ensures P (oa_act f) Q"
  using assms later_world unfolding ensures_def oa_act_def by (fastforce split: prod.splits)

lemma ensures_query_pass:
  assumes "\<And>x. lasting (Q x)"
    and "\<And>st r w. P st \<Longrightarrow>
      operation (os_tick (oa_pass e st)) (os_now (oa_pass e st)) (os_world (oa_pass e st)) = (r, w) \<Longrightarrow>
      R (os_world (oa_pass e st)) w \<and> (\<forall>y. r = Inr y \<longrightarrow> Q y ((oa_pass e st)\<lparr>os_world := w\<rparr>))"
  shows "ensures P (oa_query e operation) Q"
  unfolding ensures_def
proof (intro allI impI)
  fix st x st'
  assume P: "P st" and run: "oa_query e operation st = (x, st')"
  let ?s = "oa_pass e st"
  obtain r w where rw: "operation (os_tick ?s) (os_now ?s) (os_world ?s) = (r, w)" by fastforce
  note step = assms(2)[OF P rw]
  let ?t = "?s\<lparr>os_world := w\<rparr>"
  have "later st ?t" "later st (oa_pass e ?s)"
    using step later_world later_trans later_pass by blast+
  moreover have "Q y (oa_pass e ?t)" if "r = Inr y" for y
    using lasting_pass[OF assms(1)] step that by blast
  ultimately show "later st st' \<and> (\<forall>y. x = Inr y \<longrightarrow> Q y st')"
    using run rw later_trans[OF _ later_pass] by (auto simp: oa_query_def Let_def split: if_splits)
qed

lemma ensures_query:
  assumes "lasting P" "\<And>x. lasting (Q x)"
    and "\<And>st r w. P st \<Longrightarrow> operation (os_tick st) (os_now st) (os_world st) = (r, w) \<Longrightarrow>
      R (os_world st) w \<and> (\<forall>y. r = Inr y \<longrightarrow> Q y (st\<lparr>os_world := w\<rparr>))"
  shows "ensures P (oa_query e operation) Q"
  using assms(2) by (rule ensures_query_pass) (rule assms(3)[OF lasting_pass[OF assms(1)]])

lemma ensures_read:
  assumes "lasting P" "\<And>x. lasting (Q x)" "\<And>st. P st \<Longrightarrow> Q (f (os_world st)) st"
  shows "ensures P (oa_read e f) Q"
  unfolding oa_read_def using assms(1,2) by (rule ensures_query) (use assms(3) keep_refl in auto)

lemma ensures_ask:
  assumes "\<And>x. lasting (Q x)" "\<And>st. P st \<Longrightarrow> Q (f (os_tick st)) st"
  shows "ensures P (oa_ask e f) Q"
  using assms lasting_pass later_pass by (auto simp: ensures_def oa_ask_def)

text \<open>Computations of which only matters that they respect \<open>R\<close>.\<close>

abbreviation obeys :: "'a oa \<Rightarrow> bool" where
  "obeys m \<equiv> ensures (\<lambda>_. True) m (\<lambda>_ _. True)"

lemma obeys_pure:
  "obeys (oa_return x)" "obeys (oa_throw err)" "obeys (oa_lift r)" "obeys (oa_some err v)"
  "obeys oa_time" "obeys (oa_random e p)" "obeys (oa_read e f)" "obeys (oa_ask e g)"
  by (simp_all add: ensures_return ensures_throw ensures_lift ensures_some ensures_time ensures_random
      ensures_read ensures_ask lasting_const)

lemma obeys_bind: "obeys m \<Longrightarrow> (\<And>x. obeys (f x)) \<Longrightarrow> obeys (oa_bind m f)"
  by (rule ensures_bind)

lemma obeys_catch: "obeys m \<Longrightarrow> (\<And>err. obeys (h err)) \<Longrightarrow> obeys (oa_catch m h)"
  by (rule ensures_catch)

lemma obeys_act: "(\<And>now w. R w (snd (f now w))) \<Longrightarrow> obeys (oa_act f)"
  by (rule ensures_act) (metis snd_conv)

lemma obeys_query: "(\<And>k now w. R w (snd (operation k now w))) \<Longrightarrow> obeys (oa_query e operation)"
  by (rule ensures_query) (simp_all add: lasting_const, metis snd_conv)

end

text \<open>Where a computation itself does no more than others do, lasting conditions are kept.\<close>

locale oauth_quiet = oauth_triples e S S for e S
begin

lemma ensures_frame: "ensures P m Q \<Longrightarrow> lasting F \<Longrightarrow> ensures (\<lambda>st. P st \<and> F st) m (\<lambda>x st. Q x st \<and> F st)"
  unfolding ensures_def lasting_def later_def by blast

lemma ensures_lasting: "obeys m \<Longrightarrow> lasting F \<Longrightarrow> ensures F m (\<lambda>_. F)"
  unfolding ensures_def lasting_def later_def by blast

end

text \<open>
  The address the gateway gives itself is not taken from a stranger. Without a configured
  address and behind no trusted proxy, the address is either refused or one whose host names the
  machine itself; the metadata, the issuer and the audience of tokens are built from it.
\<close>

theorem public_url_local:
  assumes "getConfiguredPublicUrl pf = None" "\<not> hr_trusted req" "getPublicUrl pf req = Some url"
  shows "\<exists>host u protocol. hr_host req = Some host \<and> url = protocol @ ''://'' @ host @ ''/mcp'' \<and>
    op_url pf (''http://'' @ host) = Some u \<and> u_pathname u = ''/'' \<and> u_username u = [] \<and>
    local_hostname pf (unbracket (u_hostname u))"
  using assms
  by (auto simp: getPublicUrl_def getForwardedHeader_def is_given_def getLocalRawHost_def text_of_def Let_def
      split: if_splits option.splits)

end
