(* ===== verification/OAuth_Tokens.thy ===== *)
theory OAuth_Tokens
  imports OAuth_Base
begin

text \<open>
  Who a token belongs to: the tokens of users (\<open>security/TokenValidator.ts\<close>), the access tokens of
  OAuth clients (\<open>security/OAuthTokenValidator.ts\<close>) and the check of stored permissions
  (\<open>types/auth.types.ts\<close>).

  An \<open>AuthError\<close> is thrown under the name of its type.
\<close>

section \<open>The authentication context\<close>

definition UserEnabled :: int where "UserEnabled = 1"

definition maskToken :: "string \<Rightarrow> string" where
  "maskToken token =
     (if length token \<le> 16 then ''[redacted]''
      else take 8 token @ ''...'' @ drop (length token - 8) token)"

text \<open>\<open>user.expiresAt && user.expiresAt > 0\<close>\<close>

definition user_expiry :: "user_row \<Rightarrow> int option" where
  "user_expiry u = (case us_expiresAt u of Some t \<Rightarrow> if t > 0 then Some t else None | None \<Rightarrow> None)"

definition user_expired :: "user_row \<Rightarrow> int \<Rightarrow> bool" where
  "user_expired u now = (case user_expiry u of Some t \<Rightarrow> now div 1000 > t | None \<Rightarrow> False)"

definition tenant_of :: "user_row \<Rightarrow> string option" where
  "tenant_of u = (if us_proxyId u > 0 then Some (int_str (us_proxyId u)) else None)"

definition find_user :: "string \<Rightarrow> oauth_world \<Rightarrow> user_row option" where
  "find_user userId w = find (\<lambda>u. us_userId u = userId) (ow_users w)"

section \<open>Stored permissions\<close>

text \<open>
  \<open>isValidPermissions\<close>. Arrays are objects to \<open>typeof\<close>; an array has its items as entries and has none
  of the members that are looked for.
\<close>

definition obj_entries :: "json \<Rightarrow> (string \<times> json) list" where
  "obj_entries v =
     (case v of
        JObj _ fs \<Rightarrow> fs
      | JArr _ vs \<Rightarrow> zip (map nat_str [0..<length vs]) vs
      | _ \<Rightarrow> [])"

definition obj_member :: "string \<Rightarrow> json \<Rightarrow> json" where
  "obj_member k v = (case v of JObj _ fs \<Rightarrow> (case map_of fs k of Some x \<Rightarrow> x | None \<Rightarrow> JUndef) | _ \<Rightarrow> JUndef)"

definition is_bool :: "json \<Rightarrow> bool" where
  "is_bool v = (case v of JBool _ \<Rightarrow> True | _ \<Rightarrow> False)"

definition server_permission_ok :: "json \<Rightarrow> bool" where
  "server_permission_ok p \<longleftrightarrow> is_object p \<and> is_bool (obj_member ''enabled'' p) \<and>
     list_all (\<lambda>k. \<not> truthy (obj_member k p) \<or> is_object (obj_member k p)) [''tools'', ''resources'', ''prompts'']"

definition isValidPermissions :: "json \<Rightarrow> bool" where
  "isValidPermissions v \<longleftrightarrow> is_object v \<and> list_all (\<lambda>(k, p). server_permission_ok p) (obj_entries v)"

section \<open>Tokens of users\<close>

definition calculateUserId :: "oauth_platform \<Rightarrow> string \<Rightarrow> string" where
  "calculateUserId pf token = take 32 (op_hash pf token)"

definition auth_context_of ::
    "user_row \<Rightarrow> string \<Rightarrow> json \<Rightarrow> json \<Rightarrow> (string \<times> string list \<times> int) option \<Rightarrow> auth_info" where
  "auth_context_of u token permissions preferences oauth =
     \<lparr>au_anonymous = False, au_userId = us_userId u, au_token = maskToken token, au_role = us_role u, au_status = us_status u,
      au_permissions = permissions, au_userPreferences = preferences, au_launchConfigs = us_launchConfigs u,
      au_expiresAt = user_expiry u, au_rateLimit = us_ratelimit u, au_tenantId = tenant_of u,
      au_oauthClientId = map_option fst oauth, au_oauthScopes = map_option (fst \<circ> snd) oauth,
      au_oauthAccessTokenExpiresAt = map_option (snd \<circ> snd) oauth\<rparr>"

definition validateToken :: "oauth_env \<Rightarrow> string \<Rightarrow> auth_info oa" where
  "validateToken e token =
     (if token = [] then oa_throw ''INVALID_TOKEN''
      else oa_bind (oa_ask e (\<lambda>k. calculateUserId (oe_platform e) token)) (\<lambda>userId.
        oa_bind (oa_read e (find_user userId)) (\<lambda>found.
        oa_bind oa_time (\<lambda>now.
          case found of
            None \<Rightarrow> oa_throw ''USER_NOT_FOUND''
          | Some u \<Rightarrow>
              if us_status u \<noteq> UserEnabled then oa_throw ''USER_DISABLED''
              else if user_expired u now then oa_throw ''USER_EXPIRED''
              else (case (us_permissions u, us_userPreferences u) of
                  (None, _) \<Rightarrow> oa_throw ''SyntaxError''
                | (Some permissions, preferences) \<Rightarrow>
                    if \<not> isValidPermissions permissions then oa_throw ''INVALID_PERMISSIONS''
                    else oa_bind (oa_some ''SyntaxError'' preferences) (\<lambda>prefs.
                      oa_return (auth_context_of u token permissions prefs None)))))))"

section \<open>Access tokens of OAuth clients\<close>

definition token_by_access :: "string \<Rightarrow> oauth_world \<Rightarrow> oauth_token option" where
  "token_by_access token w = find (\<lambda>t. ot_accessToken t = token) (ow_tokens w)"

definition token_by_refresh :: "string \<Rightarrow> oauth_world \<Rightarrow> oauth_token option" where
  "token_by_refresh token w = find (\<lambda>t. ot_refreshToken t = Some token) (ow_tokens w)"

definition token_live :: "string option \<Rightarrow> int \<Rightarrow> oauth_token option \<Rightarrow> bool" where
  "token_live expectedAudience now record =
     (case record of
        None \<Rightarrow> False
      | Some t \<Rightarrow> \<not> ot_revoked t \<and> \<not> ot_accessTokenExpiresAt t < now \<and>
          (is_given expectedAudience \<longrightarrow> ot_resource t = expectedAudience))"

text \<open>\<open>validate\<close>: an error of the query counts as invalid.\<close>

definition validate_stored :: "oauth_env \<Rightarrow> string \<Rightarrow> string option \<Rightarrow> bool oa" where
  "validate_stored e token expectedAudience =
     oa_catch
       (oa_bind (oa_read e (token_by_access token)) (\<lambda>record.
        oa_bind oa_time (\<lambda>now. oa_return (token_live expectedAudience now record))))
       (\<lambda>err. oa_return False)"

text \<open>
  The audience of the tokens the server issues is one string. \<open>exp\<close> is always present in them; the
  library has checked it already. An error that is thrown gives an invalid result.
\<close>

definition oauth_validateToken :: "oauth_env \<Rightarrow> string \<Rightarrow> string option \<Rightarrow> (string + auth_info) oa" where
  "oauth_validateToken e token expectedAudience =
     (let pf = oe_platform e; invalid = (\<lambda>err. oa_return (Inl err)) in
      if op_jwtSecret pf = [] then invalid ''OAuth token validation is not configured on server''
      else oa_catch
        (oa_bind oa_time (\<lambda>now.
           case op_verify pf (op_jwtSecret pf) (now div 1000) token of
             None \<Rightarrow> invalid ''Invalid token signature''
           | Some decoded \<Rightarrow>
               if tp_type decoded \<noteq> ''access_token'' then invalid ''Invalid token type''
               else if is_given expectedAudience \<and> tp_aud decoded \<noteq> expectedAudience
               then invalid ''Token audience does not match MCP resource''
               else if now > tp_exp decoded * 1000 then invalid ''Token has expired''
               else oa_bind (validate_stored e token expectedAudience) (\<lambda>stored.
                 if \<not> stored then invalid ''Token has been revoked''
                 else oa_bind (oa_read e (find_user (tp_user_id decoded))) (\<lambda>found.
                   oa_bind oa_time (\<lambda>now1.
                   case found of
                     None \<Rightarrow> invalid ''User not found''
                   | Some u \<Rightarrow>
                       if us_status u \<noteq> UserEnabled then invalid ''User is not active''
                       else if user_expired u now1 then invalid ''User has expired''
                       else oa_bind (oa_some ''SyntaxError'' (us_permissions u)) (\<lambda>permissions.
                         oa_bind (oa_some ''SyntaxError'' (us_userPreferences u)) (\<lambda>prefs.
                           oa_return (Inr (auth_context_of u token permissions prefs
                             (Some (tp_client_id decoded, tp_scopes decoded, tp_exp decoded)))))))))))
        (\<lambda>err. oa_return (Inl err)))"

definition hasScope :: "auth_info \<Rightarrow> string \<Rightarrow> bool" where
  "hasScope a requiredScope = (case au_oauthScopes a of None \<Rightarrow> False | Some ss \<Rightarrow> requiredScope \<in> set ss)"

definition hasAnyScope :: "auth_info \<Rightarrow> string list \<Rightarrow> bool" where
  "hasAnyScope a requiredScopes =
     (case au_oauthScopes a of None \<Rightarrow> False | Some ss \<Rightarrow> list_ex (\<lambda>s. s \<in> set ss) requiredScopes)"

definition hasAllScopes :: "auth_info \<Rightarrow> string list \<Rightarrow> bool" where
  "hasAllScopes a requiredScopes =
     (case au_oauthScopes a of None \<Rightarrow> False | Some ss \<Rightarrow> list_all (\<lambda>s. s \<in> set ss) requiredScopes)"

end
