(* ===== verification/Sessions.thy ===== *)
theory Sessions
  imports OAuth_Tokens
begin

text \<open>
  The store of sessions (\<open>mcp/core/SessionStore.ts\<close>) with one definition per method, as handlers in
  which other requests may run at every \<open>await\<close>. The counters the status page reads are left out.
\<close>

section \<open>Access to the store\<close>

text \<open>A piece of code between two \<open>await\<close>s.\<close>

definition ss_do :: "(int \<Rightarrow> session_store \<Rightarrow> 'a \<times> session_store) \<Rightarrow> 'a oa" where
  "ss_do f = oa_act (\<lambda>now w. case f now (ow_store w) of (x, ss) \<Rightarrow> (x, w\<lparr>ow_store := ss\<rparr>))"

definition ss_get :: "(int \<Rightarrow> session_store \<Rightarrow> 'a) \<Rightarrow> 'a oa" where
  "ss_get f = ss_do (\<lambda>now ss. (f now ss, ss))"

definition ss_set :: "(int \<Rightarrow> session_store \<Rightarrow> session_store) \<Rightarrow> unit oa" where
  "ss_set f = ss_do (\<lambda>now ss. ((), f now ss))"

text \<open>An \<open>await\<close> of which only matters that others may run.\<close>

definition oa_wait :: "oauth_env \<Rightarrow> unit oa" where
  "oa_wait e = oa_ask e (\<lambda>k. ())"

fun oa_each :: "('a \<Rightarrow> unit oa) \<Rightarrow> 'a list \<Rightarrow> unit oa" where
  "oa_each f [] = oa_return ()"
| "oa_each f (x # xs) = oa_bind (f x) (\<lambda>_. oa_each f xs)"

definition session_at :: "session_store \<Rightarrow> nat \<Rightarrow> client_session" where
  "session_at ss r = ss_heap ss ! r"

definition change_session :: "nat \<Rightarrow> (client_session \<Rightarrow> client_session) \<Rightarrow> session_store \<Rightarrow> session_store" where
  "change_session r f ss = ss\<lparr>ss_heap := (ss_heap ss)[r := f (session_at ss r)]\<rparr>"

definition getSession :: "string \<Rightarrow> session_store \<Rightarrow> nat option" where
  "getSession sessionId ss = map_of (ss_sessions ss) sessionId"

definition user_ids :: "string \<Rightarrow> session_store \<Rightarrow> string list" where
  "user_ids userId ss = (case map_of (ss_userSessions ss) userId of None \<Rightarrow> [] | Some ids \<Rightarrow> ids)"

definition getUserSessions :: "string \<Rightarrow> session_store \<Rightarrow> nat list" where
  "getUserSessions userId ss = List.map_filter (\<lambda>i. getSession i ss) (user_ids userId ss)"

definition getUserFirstSession :: "string \<Rightarrow> session_store \<Rightarrow> nat option" where
  "getUserFirstSession userId ss = (case user_ids userId ss of [] \<Rightarrow> None | i # _ \<Rightarrow> getSession i ss)"

section \<open>Making sessions\<close>

definition begin_session :: "string \<Rightarrow> client_session \<Rightarrow> session_store \<Rightarrow> nat option \<times> session_store" where
  "begin_session sessionId s ss =
     (if getSession sessionId ss \<noteq> None then (None, ss)
      else (Some (length (ss_heap ss)), ss\<lparr>ss_heap := ss_heap ss @ [s],
        ss_eventStores := List.insert sessionId (ss_eventStores ss),
        ss_sessionLoggers := List.insert sessionId (ss_sessionLoggers ss)\<rparr>))"

definition enter_session :: "string \<Rightarrow> string \<Rightarrow> nat \<Rightarrow> session_store \<Rightarrow> session_store" where
  "enter_session sessionId userId r ss =
     ss\<lparr>ss_sessions := AList.update sessionId r (ss_sessions ss),
        ss_proxySessions := List.insert sessionId (ss_proxySessions ss),
        ss_userSessions := AList.update userId
          (let ids = user_ids userId ss in if sessionId \<in> set ids then ids else ids @ [sessionId]) (ss_userSessions ss)\<rparr>"

text \<open>The log record and the discovery profile are awaited in between; reading the profile may fail.\<close>

definition createSession :: "oauth_env \<Rightarrow> string \<Rightarrow> string \<Rightarrow> string \<Rightarrow> auth_info \<Rightarrow> nat oa" where
  "createSession e sessionId userId token authContext =
     oa_bind (ss_do (\<lambda>now ss. begin_session sessionId (new_session sessionId userId token authContext now) ss)) (\<lambda>made.
       case made of
         None \<Rightarrow> oa_throw ''Session already exists''
       | Some r \<Rightarrow>
           oa_bind (oa_wait e) (\<lambda>_.
           oa_bind (oa_read e (\<lambda>w. ())) (\<lambda>_.
           oa_bind (ss_set (\<lambda>now. enter_session sessionId userId r)) (\<lambda>_. oa_return r))))"

section \<open>Reconnection\<close>

definition fingerprintToken :: "oauth_platform \<Rightarrow> string \<Rightarrow> string" where
  "fingerprintToken pf token = op_hash pf token"

definition pruneTerminatedSessions :: "int \<Rightarrow> session_store \<Rightarrow> session_store" where
  "pruneTerminatedSessions now ss =
     ss\<lparr>ss_terminatedSessions := jsmap_keep (\<lambda>i t. \<not> tm_expiresAt t \<le> now) (ss_terminatedSessions ss)\<rparr>"

definition recordTerminatedSession :: "oauth_platform \<Rightarrow> int \<Rightarrow> client_session \<Rightarrow> session_store \<Rightarrow> session_store" where
  "recordTerminatedSession pf now s ss =
     (let ss1 = pruneTerminatedSessions now ss in
      ss1\<lparr>ss_terminatedSessions := AList.update (cs_sessionId s)
        \<lparr>tm_userId = cs_userId s, tm_anonymous = au_anonymous (cs_auth s),
         tm_tokenFingerprint = fingerprintToken pf (cs_token s), tm_expiresAt = now + SESSION_RECONNECT_GRACE_MS\<rparr>
        (ss_terminatedSessions ss1)\<rparr>)"

definition tombstone_matches :: "oauth_platform \<Rightarrow> auth_info \<Rightarrow> string \<Rightarrow> tombstone \<Rightarrow> bool" where
  "tombstone_matches pf a token t \<longleftrightarrow>
     tm_userId t = au_userId a \<and> tm_anonymous t = au_anonymous a \<and> tm_tokenFingerprint t = fingerprintToken pf token"

text \<open>After pruning no tombstone is expired, so the second test of the code never fires.\<close>

definition consumeTerminatedSession ::
    "oauth_platform \<Rightarrow> string option \<Rightarrow> auth_info \<Rightarrow> string \<Rightarrow> int \<Rightarrow> session_store \<Rightarrow> bool \<times> session_store" where
  "consumeTerminatedSession pf sessionId a token now ss =
     (if \<not> is_given sessionId then (False, ss)
      else let ss1 = pruneTerminatedSessions now ss in
        (case map_of (ss_terminatedSessions ss1) (text_of sessionId) of
           None \<Rightarrow> (False, ss1)
         | Some t \<Rightarrow>
             if \<not> tombstone_matches pf a token t then (False, ss1)
             else (True, ss1\<lparr>ss_terminatedSessions := AList.delete (text_of sessionId) (ss_terminatedSessions ss1)\<rparr>)))"

section \<open>Ending sessions\<close>

text \<open>\<open>ClientSession.close\<close>\<close>

definition close_session :: "oauth_env \<Rightarrow> nat \<Rightarrow> unit oa" where
  "close_session e r =
     oa_bind (ss_do (\<lambda>now ss. (cs_closeTriggered (session_at ss r), change_session r (\<lambda>s. s\<lparr>cs_closeTriggered := True\<rparr>) ss)))
       (\<lambda>before. if before then oa_return () else oa_wait e)"

definition drop_session :: "string \<Rightarrow> session_store \<Rightarrow> session_store" where
  "drop_session sessionId ss =
     ss\<lparr>ss_proxySessions := removeAll sessionId (ss_proxySessions ss),
        ss_sessions := AList.delete sessionId (ss_sessions ss)\<rparr>"

definition drop_records :: "string \<Rightarrow> session_store \<Rightarrow> session_store" where
  "drop_records sessionId ss =
     ss\<lparr>ss_eventStores := removeAll sessionId (ss_eventStores ss),
        ss_sessionLoggers := removeAll sessionId (ss_sessionLoggers ss)\<rparr>"

text \<open>The identifier leaves the list of its user; whether the list is empty then.\<close>

definition unlist_session :: "string \<Rightarrow> string \<Rightarrow> session_store \<Rightarrow> bool \<times> session_store" where
  "unlist_session sessionId userId ss =
     (case map_of (ss_userSessions ss) userId of
        None \<Rightarrow> (False, ss)
      | Some ids \<Rightarrow>
          (let rest = removeAll sessionId ids in
           if rest = [] then (True, ss\<lparr>ss_userSessions := AList.delete userId (ss_userSessions ss)\<rparr>)
           else (False, ss\<lparr>ss_userSessions := AList.update userId rest (ss_userSessions ss)\<rparr>)))"

definition removeSingleSession :: "oauth_env \<Rightarrow> string \<Rightarrow> disconnect_reason \<Rightarrow> bool \<Rightarrow> unit oa" where
  "removeSingleSession e sessionId reason preserveForReconnect =
     oa_bind (ss_do (\<lambda>now ss. case getSession sessionId ss of
         None \<Rightarrow> (None, ss)
       | Some r \<Rightarrow> (Some (r, sessionId \<in> set (ss_proxySessions ss), cs_userId (session_at ss r)),
           if preserveForReconnect \<and> reason = CLIENT_DISCONNECT
           then recordTerminatedSession (oe_platform e) now (session_at ss r) ss else ss)))
     (\<lambda>found. case found of
         None \<Rightarrow> oa_return ()
       | Some (r, proxied, userId) \<Rightarrow>
           oa_bind (if proxied then oa_wait e else oa_return ()) (\<lambda>_.
           oa_bind (ss_do (\<lambda>now ss. unlist_session sessionId userId (drop_records sessionId (drop_session sessionId ss)))) (\<lambda>emptied.
           oa_bind (if emptied then oa_wait e else oa_return ()) (\<lambda>_. close_session e r))))"

text \<open>
  The sessions of \<open>removeAllUserSessions\<close> are closed in parallel. Each of these tasks touches only its
  own session; they are written one after the other, and others may run at every \<open>await\<close> of each.
\<close>

definition end_session :: "oauth_env \<Rightarrow> string \<times> nat \<times> bool \<Rightarrow> unit oa" where
  "end_session e task =
     (case task of (sessionId, r, proxied) \<Rightarrow>
        oa_bind (if proxied then oa_wait e else oa_return ()) (\<lambda>_.
        oa_bind (ss_set (\<lambda>now. drop_session sessionId)) (\<lambda>_.
        oa_bind (close_session e r) (\<lambda>_.
        ss_set (\<lambda>now. drop_records sessionId)))))"

definition end_tasks :: "string list \<Rightarrow> session_store \<Rightarrow> (string \<times> nat \<times> bool) list" where
  "end_tasks ids ss =
     List.map_filter (\<lambda>i. map_option (\<lambda>r. (i, r, i \<in> set (ss_proxySessions ss))) (getSession i ss)) ids"

definition removeAllUserSessions :: "oauth_env \<Rightarrow> string \<Rightarrow> disconnect_reason \<Rightarrow> unit oa" where
  "removeAllUserSessions e userId reason =
     oa_bind (ss_get (\<lambda>now ss. (user_ids userId ss, end_tasks (user_ids userId ss) ss))) (\<lambda>(ids, tasks).
       if ids = [] then oa_return ()
       else oa_bind (oa_each (end_session e) tasks) (\<lambda>_.
         oa_bind (ss_set (\<lambda>now ss. ss\<lparr>ss_userSessions := AList.delete userId (ss_userSessions ss)\<rparr>)) (\<lambda>_.
         oa_wait e)))"

definition removeSession :: "oauth_env \<Rightarrow> string \<Rightarrow> disconnect_reason \<Rightarrow> bool \<Rightarrow> unit oa" where
  "removeSession e sessionId reason isUserDisconnect =
     oa_bind (ss_get (\<lambda>now ss. map_option (\<lambda>r. cs_userId (session_at ss r)) (getSession sessionId ss))) (\<lambda>found.
       case found of
         None \<Rightarrow> oa_return ()
       | Some userId \<Rightarrow>
           if isUserDisconnect then removeAllUserSessions e userId reason
           else removeSingleSession e sessionId reason False)"

definition terminateSession :: "oauth_env \<Rightarrow> string \<Rightarrow> disconnect_reason \<Rightarrow> unit oa" where
  "terminateSession e sessionId reason =
     oa_bind (ss_get (\<lambda>now ss. getSession sessionId ss)) (\<lambda>found.
       case found of
         None \<Rightarrow> oa_return ()
       | Some r \<Rightarrow>
           oa_catch (removeSingleSession e sessionId reason False)
             (\<lambda>err. oa_bind (oa_catch (removeSingleSession e sessionId reason False) (\<lambda>err1. oa_return ()))
               (\<lambda>_. oa_throw err)))"

definition shut_session :: "oauth_env \<Rightarrow> nat \<times> bool \<Rightarrow> unit oa" where
  "shut_session e task =
     (case task of (r, proxied) \<Rightarrow>
        oa_bind (if proxied then oa_wait e else oa_return ()) (\<lambda>_. close_session e r))"

definition removeAllSessions :: "oauth_env \<Rightarrow> unit oa" where
  "removeAllSessions e =
     oa_bind (ss_get (\<lambda>now ss. map (\<lambda>(i, r). (r, i \<in> set (ss_proxySessions ss))) (ss_sessions ss))) (\<lambda>tasks.
     oa_bind (oa_each (shut_session e) tasks) (\<lambda>_.
     ss_set (\<lambda>now ss. ss\<lparr>ss_sessions := [], ss_proxySessions := [], ss_userSessions := [], ss_eventStores := [],
       ss_sessionLoggers := []\<rparr>)))"

definition cleanupExpiredSessions :: "oauth_env \<Rightarrow> unit oa" where
  "cleanupExpiredSessions e =
     oa_bind (ss_get (\<lambda>now ss.
       (map fst (filter (\<lambda>(i, r). cs_isExpired now (session_at ss r)) (ss_sessions ss)),
        map fst (filter (\<lambda>(i, r). \<not> cs_isExpired now (session_at ss r) \<and>
          cs_isInactive now SESSION_INACTIVITY_TIMEOUT_MS (session_at ss r)) (ss_sessions ss))))) (\<lambda>(expired, inactive).
     oa_bind (oa_each (\<lambda>i. removeSession e i USER_EXPIRED True) expired) (\<lambda>_.
     oa_each (\<lambda>i. removeSession e i SESSION_TIMEOUT False) inactive))"

text \<open>
  \<open>updateUserPreferences\<close>; the notifications to the clients are left out. Preferences that are empty
  in the table count as \<open>{}\<close>, as \<open>JSON.parse\<close> reads them here.
\<close>

definition updateUserPreferences :: "oauth_env \<Rightarrow> string \<Rightarrow> unit oa" where
  "updateUserPreferences e userId =
     oa_bind (ss_get (\<lambda>now ss. getUserSessions userId ss)) (\<lambda>refs.
       if refs = [] then oa_return ()
       else oa_bind (oa_read e (find_user userId)) (\<lambda>found.
         case found of
           None \<Rightarrow> oa_throw ''User not found''
         | Some u \<Rightarrow> oa_bind (oa_some ''SyntaxError'' (us_userPreferences u)) (\<lambda>prefs.
             ss_set (\<lambda>now ss. fold (\<lambda>r. change_session r (\<lambda>s. s\<lparr>cs_auth := (cs_auth s)\<lparr>au_userPreferences := prefs\<rparr>\<rparr>)) refs ss))))"

end
