(* ===== verification/Gatekeeper.thy ===== *)
theory Gatekeeper
  imports Sessions
begin

text \<open>
  Who gets in: authentication of MCP requests (\<open>middleware/AuthMiddleware.ts\<close>) and of requests of the
  stateless protocol version (\<open>mcp/modern/ModernMcpAuthMiddleware.ts\<close>). Log records and response headers are left out.
\<close>

section \<open>Requests\<close>

text \<open>A query parameter is absent, a text, or something else (an array or an object).\<close>

datatype query_value = QAbsent | QText string | QOther

text \<open>\<open>gq_initialize\<close> says that the body is an MCP initialization request, \<open>gq_path\<close> is the path of \<open>originalUrl\<close>.\<close>

record gate_request =
  gq_sessionId :: "string option"
  gq_method :: string
  gq_initialize :: bool
  gq_authorization :: "string option"
  gq_token :: query_value
  gq_apiKey :: query_value
  gq_path :: string
  gq_origin :: "string option"
  gq_clientIp :: "string option"
  gq_http :: oauth_request

text \<open>A request passes, with its authentication context and session if it has one, or is refused.\<close>

datatype gate_result =
    GatePass "(auth_info \<times> nat option) option"
  | GateRefused int string

text \<open>\<open>/^Bearer\s+/i\<close> and what follows, trimmed.\<close>

definition bearer :: "string option \<Rightarrow> string option" where
  "bearer header =
     (case header of
        None \<Rightarrow> None
      | Some h \<Rightarrow>
          if js_toLowerCase (take 6 h) = ''bearer'' \<and> 6 < length h \<and> js_space (h ! 6) then Some (js_trim (drop 6 h)) else None)"

definition query_text :: "query_value \<Rightarrow> string option" where
  "query_text q = (case q of QText s \<Rightarrow> if s = [] then None else Some s | _ \<Rightarrow> None)"

definition request_token :: "gate_request \<Rightarrow> string option" where
  "request_token req =
     (case bearer (gq_authorization req) of
        Some t \<Rightarrow> Some t
      | None \<Rightarrow>
          (case query_text (gq_token req) of
             Some t \<Rightarrow> Some t
           | None \<Rightarrow> query_text (gq_apiKey req)))"

definition hasAuthAttempt :: "gate_request \<Rightarrow> bool" where
  "hasAuthAttempt req \<longleftrightarrow> is_given (gq_authorization req) \<or> gq_token req \<noteq> QAbsent \<or> gq_apiKey req \<noteq> QAbsent"

definition requestsAnonymous :: "gate_request \<Rightarrow> bool" where
  "requestsAnonymous req \<longleftrightarrow> gq_path req = ''/mcp/public'' \<or> gq_path req = ''/mcp/public/''"

definition isHexFormat :: "string \<Rightarrow> bool" where
  "isHexFormat token \<longleftrightarrow> length token = 128 \<and> list_all (\<lambda>c. js_lower_char c \<in> set ''0123456789abcdef'') token"

text \<open>Errors are thrown under the name of their type.\<close>

definition getStatusCodeForError :: "string \<Rightarrow> int" where
  "getStatusCodeForError err =
     (if err \<in> {''USER_DISABLED'', ''USER_EXPIRED'', ''PERMISSION_DENIED''} then 403
      else if err = ''DECRYPTION_FAILED'' then 500 else 401)"

definition sendAuthError :: "string \<Rightarrow> gate_result oa" where
  "sendAuthError err = oa_return (GateRefused (getStatusCodeForError err) err)"

section \<open>Requests of a session\<close>

definition USER_INFO_REFRESH_INTERVAL :: int where "USER_INFO_REFRESH_INTERVAL = 300000"

text \<open>The new context has no OAuth members.\<close>

definition refreshed_context :: "user_row \<Rightarrow> client_session \<Rightarrow> json \<Rightarrow> json \<Rightarrow> auth_info" where
  "refreshed_context u s permissions preferences =
     (auth_context_of u (cs_token s) permissions preferences None)\<lparr>au_anonymous := au_anonymous (cs_auth s)\<rparr>"

definition refreshUserInfo :: "oauth_env \<Rightarrow> nat \<Rightarrow> unit oa" where
  "refreshUserInfo e r =
     oa_bind (ss_get (\<lambda>now ss. cs_userId (session_at ss r))) (\<lambda>userId.
     oa_bind (oa_read e (find_user userId)) (\<lambda>found.
       case found of
         None \<Rightarrow> oa_throw ''User not found''
       | Some u \<Rightarrow>
           oa_bind (oa_some ''SyntaxError'' (us_permissions u)) (\<lambda>permissions.
           oa_bind (oa_some ''SyntaxError'' (us_userPreferences u)) (\<lambda>preferences.
           ss_set (\<lambda>now. change_session r (\<lambda>s. s\<lparr>cs_auth := refreshed_context u s permissions preferences\<rparr>))))))"

definition refreshUserInfoIfNeeded :: "oauth_env \<Rightarrow> nat \<Rightarrow> unit oa" where
  "refreshUserInfoIfNeeded e r =
     oa_bind (ss_get (\<lambda>now ss. (now, au_anonymous (cs_auth (session_at ss r)), cs_lastUserInfoRefresh (session_at ss r)))) (\<lambda>(now, anonymous, last).
       if anonymous then oa_return ()
       else if (case last of None \<Rightarrow> True | Some t \<Rightarrow> t = 0 \<or> USER_INFO_REFRESH_INTERVAL \<le> now - t)
       then oa_catch
         (oa_bind (refreshUserInfo e r) (\<lambda>_.
          ss_set (\<lambda>_. change_session r (\<lambda>s. s\<lparr>cs_lastUserInfoRefresh := Some now\<rparr>))))
         (\<lambda>err. oa_return ())
       else oa_return ())"

text \<open>The session is let pass, with its context as it is now.\<close>

definition pass_session :: "nat \<Rightarrow> gate_result oa" where
  "pass_session r =
     ss_do (\<lambda>now ss. (GatePass (Some (cs_auth (session_at ss r), Some r)), change_session r (cs_touch now) ss))"

definition refuse_user :: "oauth_env \<Rightarrow> string \<Rightarrow> disconnect_reason \<Rightarrow> string \<Rightarrow> gate_result oa" where
  "refuse_user e userId reason err = oa_bind (removeAllUserSessions e userId reason) (\<lambda>_. sendAuthError err)"

definition check_expiry :: "oauth_env \<Rightarrow> nat \<Rightarrow> string \<Rightarrow> gate_result oa" where
  "check_expiry e r userId =
     oa_bind (ss_get (\<lambda>now ss. cs_isExpired now (session_at ss r))) (\<lambda>expired.
       if \<not> expired then pass_session r
       else oa_bind (oa_read e (find_user userId)) (\<lambda>found.
         oa_bind oa_time (\<lambda>now.
           if (case found of None \<Rightarrow> True | Some u \<Rightarrow> user_expired u now)
           then refuse_user e userId USER_EXPIRED ''USER_EXPIRED''
           else oa_bind (ss_set (\<lambda>_. change_session r (\<lambda>s. s\<lparr>cs_auth := (cs_auth s)\<lparr>au_expiresAt :=
               (case found of None \<Rightarrow> None | Some u \<Rightarrow> user_expiry u)\<rparr>\<rparr>)))
             (\<lambda>_. pass_session r))))"

definition existing_session :: "oauth_env \<Rightarrow> nat \<Rightarrow> gate_result oa" where
  "existing_session e r =
     oa_bind (ss_get (\<lambda>now ss. (cs_token (session_at ss r), cs_userId (session_at ss r)))) (\<lambda>(token, userId).
     oa_bind (if isJwtFormat token
        then oa_bind (oauth_validateToken e token None) (\<lambda>v. oa_return (case v of Inl err \<Rightarrow> False | Inr a \<Rightarrow> True))
        else oa_return True) (\<lambda>valid.
       if \<not> valid then refuse_user e userId SESSION_REMOVED ''INVALID_TOKEN''
       else oa_bind (refreshUserInfoIfNeeded e r) (\<lambda>_. check_expiry e r userId)))"

section \<open>New sessions\<close>

text \<open>What the token of a request proves. A token of unknown form is tried both ways.\<close>

definition validate_any :: "oauth_env \<Rightarrow> string \<Rightarrow> auth_info oa" where
  "validate_any e token =
     (if isJwtFormat token
      then oa_bind (oauth_validateToken e token None) (\<lambda>v. case v of Inl err \<Rightarrow> oa_throw ''INVALID_TOKEN'' | Inr a \<Rightarrow> oa_return a)
      else if isHexFormat token then validateToken e token
      else oa_catch
        (oa_bind (oauth_validateToken e token None) (\<lambda>v. case v of Inl err \<Rightarrow> validateToken e token | Inr a \<Rightarrow> oa_return a))
        (\<lambda>err. validateToken e token))"

definition open_session :: "oauth_env \<Rightarrow> gate_request \<Rightarrow> auth_info \<Rightarrow> string \<Rightarrow> nat oa" where
  "open_session e req a token =
     oa_bind (ss_do (consumeTerminatedSession (oe_platform e) (gq_sessionId req) a token)) (\<lambda>reused.
     oa_bind (oa_random e ''session'') (\<lambda>uuid.
     createSession e (if reused then text_of (gq_sessionId req) else ''session-'' @ uuid) (au_userId a) token a))"

subsection \<open>Anonymous access\<close>

record anon_server =
  an_serverId :: string
  an_serverName :: string
  an_authType :: int
  an_rateLimit :: int

definition anon_permission :: "anon_server \<Rightarrow> json" where
  "anon_permission s =
     JObj () [(''enabled'', JBool True), (''serverName'', JStr (an_serverName s)), (''allowUserInput'', JBool False),
       (''authType'', JNum (Fin (of_int (an_authType s)))), (''tools'', JObj () []), (''resources'', JObj () []), (''prompts'', JObj () []),
       (''configured'', JBool False), (''configTemplate'', JStr ''{}'')]"

definition anon_context :: "oauth_platform \<Rightarrow> string \<Rightarrow> anon_server list \<Rightarrow> auth_info" where
  "anon_context pf clientIp servers =
     (let ipHash = take 12 (op_hash pf clientIp) in
      \<lparr>au_anonymous = True, au_userId = ''anon:'' @ ipHash, au_token = ''anon-'' @ ipHash, au_role = 4, au_status = UserEnabled,
       au_permissions = JObj () (map (\<lambda>s. (an_serverId s, anon_permission s)) servers),
       au_userPreferences = JObj () [], au_launchConfigs = ''{}'', au_expiresAt = None,
       au_rateLimit = Min (set (map an_rateLimit servers)), au_tenantId = None, au_oauthClientId = None,
       au_oauthScopes = None, au_oauthAccessTokenExpiresAt = None\<rparr>)"

definition origin_ok :: "oauth_platform \<Rightarrow> string option \<Rightarrow> bool" where
  "origin_ok pf origin \<longleftrightarrow>
     (\<not> is_given origin \<or>
      (case op_url pf (text_of origin) of None \<Rightarrow> False | Some u \<Rightarrow> u_protocol u = ''http:'' \<or> u_protocol u = ''https:''))"

text \<open>\<open>servers\<close> gives the servers that are open for anonymous access, at the time of the query.\<close>

definition handleAnonymousAccess :: "oauth_env \<Rightarrow> (nat \<Rightarrow> anon_server list) \<Rightarrow> gate_request \<Rightarrow> gate_result oa" where
  "handleAnonymousAccess e servers req =
     (if \<not> origin_ok (oe_platform e) (gq_origin req) then sendAuthError ''PERMISSION_DENIED''
      else oa_bind (oa_query e (\<lambda>k now w. (Inr (servers k), w))) (\<lambda>found.
        if found = [] then sendAuthError ''INVALID_TOKEN''
        else (let a = anon_context (oe_platform e) (case gq_clientIp req of Some ip \<Rightarrow> if ip = [] then ''0.0.0.0'' else ip
                | None \<Rightarrow> ''0.0.0.0'') found in
          oa_bind (open_session e req a (au_token a)) (\<lambda>r. oa_return (GatePass (Some (a, Some r)))))))"

subsection \<open>The middleware\<close>

definition authenticate_new :: "oauth_env \<Rightarrow> (nat \<Rightarrow> anon_server list) \<Rightarrow> gate_request \<Rightarrow> gate_result oa" where
  "authenticate_new e servers req =
     (if gq_method req \<noteq> ''POST'' then oa_return (GatePass None)
      else if \<not> gq_initialize req then oa_return (GateRefused 400 ''Bad Request: Server not initialized'')
      else if \<not> is_given (request_token req) \<and> hasAuthAttempt req then sendAuthError ''INVALID_TOKEN''
      else if \<not> is_given (request_token req) \<and> requestsAnonymous req then handleAnonymousAccess e servers req
      else if \<not> is_given (request_token req) then sendAuthError ''INVALID_TOKEN''
      else (let token = text_of (request_token req) in
        oa_bind (validate_any e token) (\<lambda>a.
        oa_bind (open_session e req a token) (\<lambda>r.
        oa_bind (oa_wait e) (\<lambda>_. oa_return (GatePass (Some (a, Some r))))))))"

definition authenticate :: "oauth_env \<Rightarrow> (nat \<Rightarrow> anon_server list) \<Rightarrow> gate_request \<Rightarrow> gate_result oa" where
  "authenticate e servers req =
     oa_catch
       (if is_given (gq_sessionId req)
        then oa_bind (ss_get (\<lambda>now ss. getSession (text_of (gq_sessionId req)) ss)) (\<lambda>found.
          case found of
            Some r \<Rightarrow> existing_session e r
          | None \<Rightarrow> if gq_method req = ''DELETE'' then oa_return (GatePass None) else authenticate_new e servers req)
        else authenticate_new e servers req)
       sendAuthError"

section \<open>The stateless protocol version\<close>

record modern_config =
  mc_allowedClientIds :: "string list"
  mc_allowedTenantIds :: "string list"

definition getCanonicalMcpResource :: "oauth_platform \<Rightarrow> oauth_request \<Rightarrow> string option" where
  "getCanonicalMcpResource pf req =
     map_option (\<lambda>base. if js_endsWith base ''/mcp'' then base else base @ ''/mcp'') (getPublicUrl pf req)"

definition rollout_allows :: "modern_config \<Rightarrow> auth_info \<Rightarrow> bool" where
  "rollout_allows cfg a \<longleftrightarrow>
     (mc_allowedClientIds cfg = [] \<or> is_given (au_oauthClientId a) \<and> text_of (au_oauthClientId a) \<in> set (mc_allowedClientIds cfg)) \<and>
     (mc_allowedTenantIds cfg = [] \<or> text_of (au_tenantId a) \<in> set (mc_allowedTenantIds cfg))"

definition modern_authenticate :: "oauth_env \<Rightarrow> modern_config \<Rightarrow> gate_request \<Rightarrow> gate_result oa" where
  "modern_authenticate e cfg req =
     (let token = text_of (bearer (gq_authorization req)) in
      if gq_token req \<noteq> QAbsent \<or> gq_apiKey req \<noteq> QAbsent
      then oa_return (GateRefused 401 ''Modern MCP requires bearer tokens in the Authorization header'')
      else if token = [] then oa_return (GateRefused 401 ''Authorization header with Bearer token is required'')
      else oa_catch
        (oa_bind (oa_some PUBLIC_URL_CONFIGURATION_ERROR (getCanonicalMcpResource (oe_platform e) (gq_http req))) (\<lambda>resource.
         oa_bind (oauth_validateToken e token (Some resource)) (\<lambda>v. case v of
             Inl err \<Rightarrow> oa_throw ''INVALID_TOKEN''
           | Inr a \<Rightarrow>
               if \<not> rollout_allows cfg a then oa_throw ''PERMISSION_DENIED''
               else oa_bind (oa_wait e) (\<lambda>_. oa_return (GatePass (Some (a, None)))))))
        (\<lambda>err. oa_return (GateRefused (if err = ''PERMISSION_DENIED'' then 403 else 401) err)))"

end
