(* ===== verification/Permission_Changes.thy ===== *)
theory Permission_Changes
  imports OAuth_Tokens
begin

text \<open>
  What a change of permissions changes for a user (\<open>comparePermissions\<close> and
  \<open>isCapabilityListChanged\<close> of \<open>mcp/services/CapabilitiesService.ts\<close>): whether the clients have to be told that
  their lists of tools, resources or prompts are no longer right.
\<close>

section \<open>Parsed objects\<close>

text \<open>\<open>Object.keys\<close> and \<open>hasOwnProperty\<close>; \<open>null\<close> and \<open>undefined\<close> have no members and throw.\<close>

definition own_keys :: "json \<Rightarrow> string list" where
  "own_keys v =
     (case v of
        JObj _ fs \<Rightarrow> map fst fs
      | JArr _ vs \<Rightarrow> map nat_str [0..<length vs]
      | JStr s \<Rightarrow> map nat_str [0..<length s]
      | _ \<Rightarrow> [])"

definition is_nullish :: "json \<Rightarrow> bool" where
  "is_nullish v \<longleftrightarrow> v = JUndef \<or> v = JNull"

text \<open>A member of an object that was parsed; of arrays and texts by its index, or the length.\<close>

definition indexed :: "json list \<Rightarrow> (string \<times> json) list" where
  "indexed vs = zip (map nat_str [0..<length vs]) vs @ [(''length'', JNum (Fin (of_nat (length vs))))]"

definition own_members :: "json \<Rightarrow> (string \<times> json) list" where
  "own_members v =
     (case v of
        JObj _ fs \<Rightarrow> fs
      | JArr _ vs \<Rightarrow> indexed vs
      | JStr s \<Rightarrow> indexed (map (\<lambda>c. JStr [c]) s)
      | _ \<Rightarrow> [])"

definition has_own :: "json \<Rightarrow> string \<Rightarrow> bool" where
  "has_own v k \<longleftrightarrow> k \<in> fst ` set (own_members v)"

definition parsed_member :: "json \<Rightarrow> string \<Rightarrow> json" where
  "parsed_member v k = (case map_of (own_members v) k of Some x \<Rightarrow> x | None \<Rightarrow> JUndef)"

text \<open>\<open>===\<close> between members of two parsed objects: no array or object is the same as another.\<close>

definition parsed_same :: "json \<Rightarrow> json \<Rightarrow> bool" where
  "parsed_same a b \<longleftrightarrow> \<not> is_object a \<and> \<not> is_object b \<and> strict_eq a b"

definition or_empty :: "json \<Rightarrow> json" where
  "or_empty v = (if truthy v then v else JObj () [])"

section \<open>Comparison\<close>

text \<open>
  The loops that look for a key the other side does not have. A member of that name in the place of the
  method \<open>hasOwnProperty\<close> is not a function.
\<close>

definition misses_key :: "json \<Rightarrow> string list \<Rightarrow> string + bool" where
  "misses_key v ks =
     (if ks = [] then Inr False
      else if is_nullish v \<or> has_own v ''hasOwnProperty'' then Inl ''TypeError''
      else Inr (list_ex (\<lambda>k. \<not> has_own v k) ks))"

definition item_changed :: "json \<Rightarrow> json \<Rightarrow> string + bool" where
  "item_changed old new =
     (if truthy old \<and> is_nullish new then Inl ''TypeError''
      else Inr (truthy old \<and> \<not> parsed_same (parsed_member old ''enabled'') (parsed_member new ''enabled'') \<or>
        \<not> parsed_same (parsed_member old ''dangerLevel'') (parsed_member new ''dangerLevel'')))"

fun any_changed :: "('a \<Rightarrow> string + bool) \<Rightarrow> 'a list \<Rightarrow> string + bool" where
  "any_changed f [] = Inr False"
| "any_changed f (x # xs) = (case f x of Inl err \<Rightarrow> Inl err | Inr True \<Rightarrow> Inr True | Inr False \<Rightarrow> any_changed f xs)"

definition or_else :: "string + bool \<Rightarrow> string + bool \<Rightarrow> string + bool" where
  "or_else a b = (case a of Inl err \<Rightarrow> Inl err | Inr True \<Rightarrow> Inr True | Inr False \<Rightarrow> b)"

definition isCapabilityListChanged :: "json \<Rightarrow> json \<Rightarrow> string + bool" where
  "isCapabilityListChanged old new =
     (let oldKeys = own_keys (or_empty old); newKeys = own_keys (or_empty new) in
      or_else (misses_key old newKeys) (or_else (misses_key new oldKeys)
        (any_changed (\<lambda>k. item_changed (parsed_member old k) (parsed_member new k)) newKeys)))"

definition enabled_changed :: "json \<Rightarrow> json \<Rightarrow> string + bool" where
  "enabled_changed old new =
     (if is_nullish old \<or> is_nullish new then Inl ''TypeError''
      else Inr (\<not> parsed_same (parsed_member old ''enabled'') (parsed_member new ''enabled'')))"

text \<open>The fourth loop, with the flags found so far: tools, resources, prompts.\<close>

definition flag_changed :: "bool \<Rightarrow> string \<Rightarrow> json \<Rightarrow> json \<Rightarrow> string + bool" where
  "flag_changed flag kind old new =
     (if flag then Inr True else isCapabilityListChanged (parsed_member old kind) (parsed_member new kind))"

fun changed_flags :: "(json \<times> json) list \<Rightarrow> bool \<times> bool \<times> bool \<Rightarrow> string + bool \<times> bool \<times> bool" where
  "changed_flags [] flags = Inr flags"
| "changed_flags ((old, new) # rest) (t, r, p) =
     (case flag_changed t ''tools'' old new of Inl err \<Rightarrow> Inl err | Inr t1 \<Rightarrow>
     (case flag_changed r ''resources'' old new of Inl err \<Rightarrow> Inl err | Inr r1 \<Rightarrow>
     (case flag_changed p ''prompts'' old new of Inl err \<Rightarrow> Inl err | Inr p1 \<Rightarrow>
       if t1 \<and> r1 \<and> p1 then Inr (True, True, True) else changed_flags rest (t1, r1, p1))))"

definition comparePermissions :: "json \<Rightarrow> json \<Rightarrow> string + bool \<times> bool \<times> bool" where
  "comparePermissions oldPermissions newPermissions =
     (let old = or_empty oldPermissions; new = or_empty newPermissions; oldKeys = own_keys old; newKeys = own_keys new;
          pairs = map (\<lambda>k. (parsed_member old k, parsed_member new k)) newKeys;
          first = or_else (misses_key old newKeys) (or_else (misses_key new oldKeys)
            (any_changed (\<lambda>(o', n). enabled_changed o' n) pairs))
      in case first of
           Inl err \<Rightarrow> Inl err
         | Inr True \<Rightarrow> Inr (True, True, True)
         | Inr False \<Rightarrow> changed_flags pairs (False, False, False))"

section \<open>What is not announced did not change\<close>

text \<open>
  What permissions grant: whether the server and the capability have an entry, whether they are enabled,
  and the danger level.
\<close>

definition server_grant :: "json \<Rightarrow> string \<Rightarrow> bool \<times> json" where
  "server_grant perms s = (let v = or_empty perms in (has_own v s, parsed_member (parsed_member v s) ''enabled''))"

definition capability_grant :: "string \<Rightarrow> json \<Rightarrow> string \<Rightarrow> string \<Rightarrow> bool \<times> json \<times> json" where
  "capability_grant kind perms s c =
     (let entries = parsed_member (parsed_member (or_empty perms) s) kind; item = parsed_member entries c
      in (has_own entries c, parsed_member item ''enabled'', parsed_member item ''dangerLevel''))"

text \<open>Lists of capabilities as the type \<open>Permissions\<close> has them: absent, or objects of objects.\<close>

definition is_dict :: "json \<Rightarrow> bool" where
  "is_dict v \<longleftrightarrow> (case v of JObj _ _ \<Rightarrow> True | _ \<Rightarrow> False)"

definition capabilities_typed :: "json \<Rightarrow> bool" where
  "capabilities_typed v \<longleftrightarrow> is_nullish v \<or> (is_dict v \<and> (\<forall>c\<in>set (own_keys v). is_dict (parsed_member v c)))"

definition permissions_typed :: "json \<Rightarrow> bool" where
  "permissions_typed perms \<longleftrightarrow> is_nullish perms \<or>
     (is_dict perms \<and> (\<forall>s\<in>set (own_keys perms). \<forall>kind\<in>{''tools'', ''resources'', ''prompts''}.
        capabilities_typed (parsed_member (parsed_member perms s) kind)))"

lemma parsed_same_eq: "parsed_same a b \<Longrightarrow> a = b"
  by (cases a; cases b) (auto simp: parsed_same_def)

lemma or_else_false [simp]: "or_else a b = Inr False \<longleftrightarrow> a = Inr False \<and> b = Inr False"
  by (auto simp: or_else_def split: sum.splits bool.splits)

lemma any_changed_false: "any_changed f xs = Inr False \<longleftrightarrow> (\<forall>x\<in>set xs. f x = Inr False)"
  by (induction xs) (auto split: sum.splits bool.splits)

lemma misses_key_false: "misses_key v ks = Inr False \<Longrightarrow> k \<in> set ks \<Longrightarrow> has_own v k"
  by (auto simp: misses_key_def list_ex_iff split: if_splits)

lemma own_keys_or_empty [simp]: "own_keys (or_empty v) = own_keys v"
  by (cases v) (auto simp: or_empty_def own_keys_def)

lemma has_own_dict: "is_nullish v \<or> is_dict v \<Longrightarrow> has_own v k \<longleftrightarrow> k \<in> set (own_keys v)"
  by (cases v) (auto simp: is_nullish_def is_dict_def has_own_def own_keys_def own_members_def)

lemma parsed_member_absent: "\<not> has_own v k \<Longrightarrow> parsed_member v k = JUndef"
  by (auto simp: has_own_def parsed_member_def split: option.splits dest!: map_of_SomeD intro: rev_image_eqI)

lemma parsed_member_undef [simp]: "parsed_member JUndef k = JUndef" "parsed_member JNull k = JUndef"
  by (simp_all add: parsed_member_def own_members_def)

lemma dict_truthy: "is_dict v \<Longrightarrow> truthy v"
  by (cases v) (auto simp: is_dict_def)

lemma or_empty_typed: "is_nullish v \<or> is_dict v \<Longrightarrow> is_dict (or_empty v)"
  by (auto simp: or_empty_def is_nullish_def dict_truthy is_dict_def)

lemma or_empty_own [simp]: "is_nullish v \<or> is_dict v \<Longrightarrow> has_own (or_empty v) k = has_own v k"
  by (simp add: has_own_dict or_empty_typed)

lemma isCapabilityListChanged_sound:
  assumes "isCapabilityListChanged old new = Inr False" "capabilities_typed old" "capabilities_typed new"
  shows "has_own old c = has_own new c"
    and "parsed_member (parsed_member old c) ''enabled'' = parsed_member (parsed_member new c) ''enabled''"
    and "parsed_member (parsed_member old c) ''dangerLevel'' = parsed_member (parsed_member new c) ''dangerLevel''"
proof -
  have shape: "is_nullish old \<or> is_dict old" "is_nullish new \<or> is_dict new"
    using assms(2,3) by (auto simp: capabilities_typed_def)
  have parts: "misses_key old (own_keys new) = Inr False" "misses_key new (own_keys old) = Inr False"
    "\<forall>k\<in>set (own_keys new). item_changed (parsed_member old k) (parsed_member new k) = Inr False"
    using assms(1) by (simp_all add: isCapabilityListChanged_def Let_def any_changed_false)
  show same: "has_own old c = has_own new c"
    using parts(1,2) misses_key_false has_own_dict[OF shape(1)] has_own_dict[OF shape(2)] by metis
  have "parsed_same (parsed_member (parsed_member old c) ''enabled'') (parsed_member (parsed_member new c) ''enabled'') \<and>
    parsed_same (parsed_member (parsed_member old c) ''dangerLevel'') (parsed_member (parsed_member new c) ''dangerLevel'')"
    if here: "has_own new c"
  proof -
    have "truthy (parsed_member old c)"
      using assms(2) here same has_own_dict[OF shape(1)] by (auto simp: capabilities_typed_def is_nullish_def own_keys_def dict_truthy)
    then show ?thesis
      using parts(3) here has_own_dict[OF shape(2)] by (auto simp: item_changed_def split: if_splits)
  qed
  moreover have "parsed_member old c = JUndef \<and> parsed_member new c = JUndef" if "\<not> has_own new c"
    using that same by (simp add: parsed_member_absent)
  ultimately show "parsed_member (parsed_member old c) ''enabled'' = parsed_member (parsed_member new c) ''enabled''"
    and "parsed_member (parsed_member old c) ''dangerLevel'' = parsed_member (parsed_member new c) ''dangerLevel''"
    by (metis parsed_same_eq)+
qed

lemma flag_changed_false:
  "flag_changed flag kind old new = Inr False \<longleftrightarrow>
     \<not> flag \<and> isCapabilityListChanged (parsed_member old kind) (parsed_member new kind) = Inr False"
  by (simp add: flag_changed_def)

definition kind_kept :: "string \<Rightarrow> (json \<times> json) list \<Rightarrow> bool" where
  "kind_kept kind ps \<longleftrightarrow>
     (\<forall>(old, new)\<in>set ps. isCapabilityListChanged (parsed_member old kind) (parsed_member new kind) = Inr False)"

lemma kind_kept_Cons:
  "flag_changed flag kind old new = Inr b \<Longrightarrow> \<not> b \<Longrightarrow> kind_kept kind rest \<Longrightarrow> \<not> flag \<and> kind_kept kind ((old, new) # rest)"
  by (auto simp: kind_kept_def flag_changed_def split: if_splits)

lemma changed_flags_false:
  "changed_flags ps flags = Inr (t, r, p) \<Longrightarrow>
     (\<not> t \<longrightarrow> \<not> fst flags \<and> kind_kept ''tools'' ps) \<and>
     (\<not> r \<longrightarrow> \<not> fst (snd flags) \<and> kind_kept ''resources'' ps) \<and>
     (\<not> p \<longrightarrow> \<not> snd (snd flags) \<and> kind_kept ''prompts'' ps)"
proof (induction ps arbitrary: flags)
  case (Cons pair rest)
  obtain old new where pair: "pair = (old, new)" by fastforce
  obtain t0 r0 p0 where flags: "flags = (t0, r0, p0)" by (cases flags)
  obtain t1 r1 p1 where now: "flag_changed t0 ''tools'' old new = Inr t1" "flag_changed r0 ''resources'' old new = Inr r1"
      "flag_changed p0 ''prompts'' old new = Inr p1"
    and rest: "if t1 \<and> r1 \<and> p1 then t \<and> r \<and> p else changed_flags rest (t1, r1, p1) = Inr (t, r, p)"
    using Cons.prems by (auto simp: pair flags split: sum.splits if_splits)
  show ?case
  proof (cases "t1 \<and> r1 \<and> p1")
    case False
    with rest have "changed_flags rest (t1, r1, p1) = Inr (t, r, p)" by presburger
    from Cons.IH[OF this] show ?thesis
      using kind_kept_Cons[OF now(1)] kind_kept_Cons[OF now(2)] kind_kept_Cons[OF now(3)] by (simp add: pair flags) blast
  qed (use rest in simp)
qed (simp add: kind_kept_def)

lemma comparePermissions_parts:
  assumes "comparePermissions old new = Inr (t, r, p)" "\<not> (t \<and> r \<and> p)" "permissions_typed old" "permissions_typed new"
  shows "has_own (or_empty old) s = has_own (or_empty new) s"
    and "has_own (or_empty new) s \<Longrightarrow>
      parsed_same (parsed_member (parsed_member (or_empty old) s) ''enabled'') (parsed_member (parsed_member (or_empty new) s) ''enabled'')"
    and "changed_flags (map (\<lambda>k. (parsed_member (or_empty old) k, parsed_member (or_empty new) k)) (own_keys new)) (False, False, False) =
      Inr (t, r, p)"
proof -
  let ?o = "or_empty old" and ?n = "or_empty new"
  let ?pairs = "map (\<lambda>k. (parsed_member ?o k, parsed_member ?n k)) (own_keys new)"
  let ?first = "or_else (misses_key ?o (own_keys new)) (or_else (misses_key ?n (own_keys old))
    (any_changed (\<lambda>(o', n). enabled_changed o' n) ?pairs))"
  have shape: "is_dict ?o" "is_dict ?n"
    using assms(3,4) by (auto simp: permissions_typed_def intro: or_empty_typed)
  have "?first = Inr False \<and> changed_flags ?pairs (False, False, False) = Inr (t, r, p)"
    using assms(1,2) by (cases ?first) (auto simp: comparePermissions_def Let_def split: bool.splits)
  then have parts: "misses_key ?o (own_keys new) = Inr False" "misses_key ?n (own_keys old) = Inr False"
      "\<forall>k\<in>set (own_keys new). enabled_changed (parsed_member ?o k) (parsed_member ?n k) = Inr False"
    and flags: "changed_flags ?pairs (False, False, False) = Inr (t, r, p)"
    by (simp_all add: any_changed_false)
  have keys: "has_own ?o k \<longleftrightarrow> k \<in> set (own_keys old)" "has_own ?n k \<longleftrightarrow> k \<in> set (own_keys new)" for k
    using shape by (simp_all add: has_own_dict)
  show "has_own ?o s = has_own ?n s"
    using parts(1,2) misses_key_false keys by metis
  show "parsed_same (parsed_member (parsed_member ?o s) ''enabled'') (parsed_member (parsed_member ?n s) ''enabled'')"
    if "has_own ?n s"
    using that parts(3) by (auto simp: keys enabled_changed_def split: if_splits)
  show "changed_flags ?pairs (False, False, False) = Inr (t, r, p)"
    by (rule flags)
qed

lemma typed_capabilities:
  assumes "permissions_typed perms" "kind \<in> {''tools'', ''resources'', ''prompts''}"
  shows "capabilities_typed (parsed_member (parsed_member (or_empty perms) s) kind)"
proof (cases "has_own (or_empty perms) s")
  case True
  then have "is_dict perms" "s \<in> set (own_keys perms)"
    using assms(1) by (auto simp: permissions_typed_def has_own_dict) (auto simp: is_nullish_def own_keys_def)
  then show ?thesis
    using assms by (auto simp: permissions_typed_def or_empty_def dict_truthy is_nullish_def is_dict_def)
qed (simp add: parsed_member_absent capabilities_typed_def is_nullish_def)

text \<open>
  One kind of capabilities at a time: from the flags of the fourth loop to what is granted.
\<close>

lemma grant_kept:
  assumes "permissions_typed old" "permissions_typed new" "kind \<in> {''tools'', ''resources'', ''prompts''}"
    and "has_own (or_empty old) s = has_own (or_empty new) s"
    and "kind_kept kind (map (\<lambda>k. (parsed_member (or_empty old) k, parsed_member (or_empty new) k)) (own_keys new))"
  shows "capability_grant kind old s c = capability_grant kind new s c"
proof (cases "s \<in> set (own_keys new)")
  case True
  then have "isCapabilityListChanged (parsed_member (parsed_member (or_empty old) s) kind)
      (parsed_member (parsed_member (or_empty new) s) kind) = Inr False"
    using assms(5) by (simp add: kind_kept_def)
  then show ?thesis
    using isCapabilityListChanged_sound[OF _ typed_capabilities[OF assms(1,3)] typed_capabilities[OF assms(2,3)]]
    by (simp add: capability_grant_def Let_def)
next
  case False
  then have "\<not> has_own (or_empty new) s"
    using assms(2) has_own_dict[of "or_empty new"] by (auto simp: permissions_typed_def or_empty_typed)
  then show ?thesis
    using assms(4) by (simp add: capability_grant_def Let_def parsed_member_absent has_own_def own_members_def)
qed

text \<open>
  C23: A change of permissions that a user's clients are not told about changed nothing they can see.
  When \<open>comparePermissions\<close> does not report all three lists, every server is granted and enabled as
  before; when it does not report tools, every tool of every server has the same entry, enabled flag
  and danger level in the old and the new permissions, and so for resources and prompts. The
  permissions are shaped as their type says.
\<close>

theorem permission_changes_announced:
  assumes "comparePermissions old new = Inr (toolsChanged, resourcesChanged, promptsChanged)"
    and "permissions_typed old" "permissions_typed new"
  shows "(\<not> (toolsChanged \<and> resourcesChanged \<and> promptsChanged) \<longrightarrow> (\<forall>s. server_grant old s = server_grant new s)) \<and>
    (\<not> toolsChanged \<longrightarrow> (\<forall>s c. capability_grant ''tools'' old s c = capability_grant ''tools'' new s c)) \<and>
    (\<not> resourcesChanged \<longrightarrow> (\<forall>s c. capability_grant ''resources'' old s c = capability_grant ''resources'' new s c)) \<and>
    (\<not> promptsChanged \<longrightarrow> (\<forall>s c. capability_grant ''prompts'' old s c = capability_grant ''prompts'' new s c))"
proof -
  note parts = comparePermissions_parts[OF assms(1) _ assms(2,3)]
  have "server_grant old s = server_grant new s" if "\<not> (toolsChanged \<and> resourcesChanged \<and> promptsChanged)" for s
  proof (cases "has_own (or_empty new) s")
    case True
    then show ?thesis
      using parts(1,2)[OF that, of s] by (simp add: server_grant_def Let_def parsed_same_eq)
  next
    case False
    then show ?thesis
      using parts(1)[OF that, of s] by (simp add: server_grant_def Let_def parsed_member_absent)
  qed
  moreover have "capability_grant ''tools'' old s c = capability_grant ''tools'' new s c" if "\<not> toolsChanged" for s c
    using that parts(1,3) changed_flags_false[OF parts(3)] by (intro grant_kept[OF assms(2,3)]) auto
  moreover have "capability_grant ''resources'' old s c = capability_grant ''resources'' new s c" if "\<not> resourcesChanged" for s c
    using that parts(1,3) changed_flags_false[OF parts(3)] by (intro grant_kept[OF assms(2,3)]) auto
  moreover have "capability_grant ''prompts'' old s c = capability_grant ''prompts'' new s c" if "\<not> promptsChanged" for s c
    using that parts(1,3) changed_flags_false[OF parts(3)] by (intro grant_kept[OF assms(2,3)]) auto
  ultimately show ?thesis by blast
qed

definition sample_permissions :: "json \<Rightarrow> bool \<Rightarrow> json" where
  "sample_permissions tools prompt =
     JObj () [(''s1'', JObj () ((''enabled'', JBool True) # (if tools = JUndef then [] else [(''tools'', tools)]) @ [(''resources'', JObj () []),
       (''prompts'', JObj () [(''summary'', JObj () [(''enabled'', JBool prompt)])])]))]"

definition sample_tools :: json where
  "sample_tools = JObj () [(''read'', JObj () [(''enabled'', JBool True)])]"

lemmas permission_evals = sample_permissions_def sample_tools_def comparePermissions_def isCapabilityListChanged_def misses_key_def
  has_own_def own_members_def own_keys_def or_empty_def is_nullish_def is_dict_def parsed_member_def parsed_same_def or_else_def
  enabled_changed_def item_changed_def flag_changed_def

text \<open>At an example: a prompt is disabled; tools and resources are not announced.\<close>

theorem permission_changes_announced_witness:
  "comparePermissions (sample_permissions sample_tools True) (sample_permissions sample_tools False) = Inr (False, False, True) \<and>
   capability_grant ''tools'' (sample_permissions sample_tools True) ''s1'' ''read'' =
     capability_grant ''tools'' (sample_permissions sample_tools False) ''s1'' ''read''"
proof -
  have run: "comparePermissions (sample_permissions sample_tools True) (sample_permissions sample_tools False) = Inr (False, False, True)"
    by (simp add: permission_evals)
  have typed: "permissions_typed (sample_permissions sample_tools b)" for b
    by (simp add: permissions_typed_def capabilities_typed_def permission_evals)
  show ?thesis
    using run permission_changes_announced[OF run typed typed] by blast
qed

text \<open>
  The old list is read without the \<open>|| {}\<close> its keys are read with: permissions that get their first list of
  tools for a server that had none, a change that gives tools to a user, are refused with a \<open>TypeError\<close>.
\<close>

lemma first_tools_refused:
  "comparePermissions (sample_permissions JUndef True) (sample_permissions sample_tools True) = Inl ''TypeError''"
  by (simp add: permission_evals)

end
