(* ===== verification/User_Admin.thy ===== *)
theory User_Admin
  imports Gatekeeper Permission_Changes Json_Text
begin

text \<open>
  Administration of users: who may administer (\<open>middleware/AdminAuthMiddleware.ts\<close>), the dispatch of
  administrative requests (\<open>controllers/ConfigController.ts\<close>), the handlers for users
  (\<open>controllers/handlers/UserHandler.ts\<close>) and the table of users (\<open>repositories/UserRepository.ts\<close>).
  Log records and the push over sockets are left out. An \<open>AdminError\<close> is thrown under the name of its code.
\<close>

section \<open>Requests\<close>

text \<open>
  What is taken from the platform: \<open>JSON.parse\<close> (\<open>None\<close> when it throws), the text of a number and of any value,
  decryption with a key, and which integers the query language takes a value of \<open>where\<close> for (\<open>None\<close> when it refuses the value).
\<close>

record admin_platform =
  ap_parse :: "string \<Rightarrow> json option"
  ap_numeral :: "rat \<Rightarrow> string"
  ap_String :: "json \<Rightarrow> string"
  ap_decrypt :: "string \<Rightarrow> string \<Rightarrow> string option"
  ap_matches :: "json \<Rightarrow> (int \<Rightarrow> bool) option"

record admin_request =
  aq_baseUrl :: string
  aq_method :: string
  aq_authorization :: "string option"
  aq_body :: json

definition OwnerRole :: int where "OwnerRole = 1"
definition AdminRole :: int where "AdminRole = 2"
definition UserDisabledStatus :: int where "UserDisabledStatus = 0"

definition ADMIN_ACTIONS :: "(string \<times> nat) list" where
  "ADMIN_ACTIONS = [
    (''DISABLE_USER'', 1001), (''UPDATE_USER_PERMISSIONS'', 1002), (''CREATE_USER'', 1010), (''GET_USERS'', 1011),
    (''UPDATE_USER'', 1012), (''DELETE_USER'', 1013), (''DELETE_USERS_BY_PROXY'', 1014), (''COUNT_USERS'', 1015),
    (''GET_OWNER'', 1016), (''START_SERVER'', 2001), (''STOP_SERVER'', 2002), (''UPDATE_SERVER_CAPABILITIES'', 2003),
    (''UPDATE_SERVER_LAUNCH_CMD'', 2004), (''CONNECT_ALL_SERVERS'', 2005), (''CREATE_SERVER'', 2010),
    (''GET_SERVERS'', 2011), (''UPDATE_SERVER'', 2012), (''DELETE_SERVER'', 2013), (''DELETE_SERVERS_BY_PROXY'', 2014),
    (''COUNT_SERVERS'', 2015), (''GET_SERVER_OAUTH_REAUTH_CONTEXT'', 2016), (''REAUTHORIZE_SERVER_OAUTH'', 2017),
    (''GET_AVAILABLE_SERVERS_CAPABILITIES'', 3002), (''GET_USER_AVAILABLE_SERVERS_CAPABILITIES'', 3003),
    (''GET_SERVERS_STATUS'', 3004), (''GET_SERVERS_CAPABILITIES'', 3005), (''UPDATE_IP_WHITELIST'', 4001),
    (''GET_IP_WHITELIST'', 4002), (''DELETE_IP_WHITELIST'', 4003), (''ADD_IP_WHITELIST'', 4004),
    (''SPECIAL_IP_WHITELIST_OPERATION'', 4005), (''GET_PROXY'', 5001), (''CREATE_PROXY'', 5002),
    (''UPDATE_PROXY'', 5003), (''DELETE_PROXY'', 5004), (''STOP_PROXY'', 5005), (''BACKUP_DATABASE'', 6001),
    (''RESTORE_DATABASE'', 6002), (''SET_LOG_WEBHOOK_URL'', 7001), (''GET_LOGS'', 7002),
    (''UPDATE_CLOUDFLARED_CONFIG'', 8001), (''GET_CLOUDFLARED_CONFIGS'', 8002), (''DELETE_CLOUDFLARED_CONFIG'', 8003),
    (''RESTART_CLOUDFLARED'', 8004), (''STOP_CLOUDFLARED'', 8005), (''CREATE_POLICY_SET'', 9101),
    (''GET_POLICY_SETS'', 9102), (''UPDATE_POLICY_SET'', 9103), (''DELETE_POLICY_SET'', 9104),
    (''GET_EFFECTIVE_POLICY'', 9105), (''LIST_APPROVAL_REQUESTS'', 9201), (''GET_APPROVAL_REQUEST'', 9202),
    (''DECIDE_APPROVAL_REQUEST'', 9203), (''GET_PENDING_APPROVALS_COUNT'', 9204), (''GET_DISCOVERY_CONFIG'', 9301),
    (''SET_DISCOVERY_CONFIG'', 9302), (''CREATE_DISCOVERY_PROFILE'', 9310), (''GET_DISCOVERY_PROFILES'', 9311),
    (''GET_DISCOVERY_PROFILE'', 9312), (''UPDATE_DISCOVERY_PROFILE'', 9313), (''DELETE_DISCOVERY_PROFILE'', 9314),
    (''PREVIEW_DISCOVERY'', 9320), (''REINDEX_CATALOG'', 9330), (''GET_CATALOG_STATS'', 9331),
    (''LIST_SKILLS'', 10040), (''UPLOAD_SKILL'', 10041), (''DELETE_SKILL'', 10042), (''DELETE_SERVER_SKILLS'', 10043),
    (''CACHE_GET_HEALTH'', 11001), (''CACHE_GET_POLICY'', 11002), (''CACHE_PURGE_GLOBAL'', 11010),
    (''CACHE_PURGE_SERVER'', 11011), (''CACHE_PURGE_TOOL'', 11012), (''CACHE_PURGE_PROMPT'', 11013),
    (''CACHE_PURGE_RESOURCE'', 11014), (''CACHE_PURGE_EXACT'', 11015)]"

definition action_code :: "json \<Rightarrow> nat option" where
  "action_code v = find (\<lambda>c. v = JNum (Fin (of_nat c))) (map snd ADMIN_ACTIONS)"

definition request_data :: "json \<Rightarrow> json" where
  "request_data body = parsed_member body ''data''"

definition claims_owner :: "json \<Rightarrow> bool" where
  "claims_owner data \<longleftrightarrow> parsed_member data ''role'' = JNum (Fin 1)"

text \<open>The actions of an installation that has no users yet: \<open>GET_OWNER\<close>, \<open>GET_PROXY\<close>, \<open>CREATE_PROXY\<close>, \<open>RESTORE_DATABASE\<close>, and \<open>CREATE_USER\<close> for the owner.\<close>

definition bootstrap_action :: "json \<Rightarrow> bool" where
  "bootstrap_action body =
     (case action_code (parsed_member body ''action'') of
        None \<Rightarrow> False
      | Some c \<Rightarrow> c \<in> {1016, 5001, 5002, 6002} \<or> (c = 1010 \<and> claims_owner (request_data body)))"

definition allowsUnauthenticatedAdminAction :: "admin_request \<Rightarrow> bool" where
  "allowsUnauthenticatedAdminAction req \<longleftrightarrow>
     aq_baseUrl req = ''/admin'' \<and> aq_method req = ''POST'' \<and> is_object (aq_body req) \<and> bootstrap_action (aq_body req)"

section \<open>Who may administer\<close>

text \<open>Refused with a status, or let pass with the context of the administrator if there is one.\<close>

definition admin_authenticate :: "oauth_env \<Rightarrow> admin_request \<Rightarrow> (int + auth_info option) oa" where
  "admin_authenticate e req =
     (if aq_authorization req = None \<and> allowsUnauthenticatedAdminAction req then oa_return (Inr None)
      else (case bearer (aq_authorization req) of
          None \<Rightarrow> oa_return (Inl 401)
        | Some token \<Rightarrow>
            if token = [] then oa_return (Inl 401)
            else oa_catch
              (oa_bind (validateToken e token) (\<lambda>a.
                 if au_role a \<noteq> OwnerRole \<and> au_role a \<noteq> AdminRole then oa_return (Inl 403) else oa_return (Inr (Some a))))
              (\<lambda>err. oa_return (Inl 401))))"

definition validateAdminRequest :: "json \<Rightarrow> bool" where
  "validateAdminRequest body \<longleftrightarrow>
     (let action = parsed_member body ''action'' in
      truthy action \<and> (action_code action \<noteq> None \<or> action \<in> set (map (JStr \<circ> fst) ADMIN_ACTIONS)))"

definition isUnauthenticatedBootstrapAction :: "admin_request \<Rightarrow> auth_info option \<Rightarrow> bool" where
  "isUnauthenticatedBootstrapAction req ctx \<longleftrightarrow> aq_authorization req = None \<and> ctx = None \<and> bootstrap_action (aq_body req)"

text \<open>A role of the caller; without a context there is none.\<close>

definition has_role :: "auth_info option \<Rightarrow> int \<Rightarrow> bool" where
  "has_role ctx role = (case ctx of None \<Rightarrow> False | Some a \<Rightarrow> au_role a = role)"

definition OWNER_ONLY :: "nat set" where
  "OWNER_ONLY = {2001, 2004, 2005, 2010, 2012, 2016, 2017, 5004, 5005, 7001, 7002, 10041, 10042, 10043}"

definition TARGETED :: "nat set" where
  "TARGETED = {1001, 1002, 2001, 2002, 2003, 2004, 3003, 3005}"

text \<open>The members that objects and arrays inherit have other names.\<close>

definition validateTargetIdentifier :: "json \<Rightarrow> bool" where
  "validateTargetIdentifier data \<longleftrightarrow> is_object data \<and> (case parsed_member data ''targetId'' of JStr _ \<Rightarrow> True | _ \<Rightarrow> False)"

text \<open>What happens before a handler is called, without an \<open>await\<close>: the status and error code of a refusal, or the action.\<close>

definition INVALID_REQUEST :: int where "INVALID_REQUEST = 1001"
definition FORBIDDEN :: int where "FORBIDDEN = 1003"

definition admin_decide :: "admin_request \<Rightarrow> auth_info option \<Rightarrow> (int \<times> int) + nat" where
  "admin_decide req ctx =
     (let body = aq_body req; token = bearer (aq_authorization req) in
      if \<not> validateAdminRequest body then Inl (400, INVALID_REQUEST)
      else if \<not> isUnauthenticatedBootstrapAction req ctx \<and> \<not> is_given token then Inl (500, FORBIDDEN)
      else if \<not> isUnauthenticatedBootstrapAction req ctx \<and> \<not> has_role ctx OwnerRole \<and> \<not> has_role ctx AdminRole
      then Inl (500, FORBIDDEN)
      else (case action_code (parsed_member body ''action'') of
          None \<Rightarrow> Inl (400, INVALID_REQUEST)
        | Some c \<Rightarrow>
            if c \<in> OWNER_ONLY \<and> \<not> has_role ctx OwnerRole then Inl (500, FORBIDDEN)
            else if c \<in> TARGETED \<and> \<not> validateTargetIdentifier (request_data body) then Inl (500, INVALID_REQUEST)
            else Inr c))"

text \<open>The token of the owner, which the registry of servers keeps for starting servers later.\<close>

definition owner_token :: "admin_request \<Rightarrow> auth_info option \<Rightarrow> string option" where
  "owner_token req ctx =
     (if validateAdminRequest (aq_body req) \<and> has_role ctx OwnerRole \<and> is_given (bearer (aq_authorization req))
      then bearer (aq_authorization req) else None)"

section \<open>The table of users\<close>

text \<open>Values of columns: 32-bit integers and texts; other values are refused by the database client.\<close>

definition int_column :: "json \<Rightarrow> int option" where
  "int_column v =
     (case v of
        JNum (Fin q) \<Rightarrow> if of_int \<lfloor>q\<rfloor> = q \<and> - (2 ^ 31) \<le> \<lfloor>q\<rfloor> \<and> \<lfloor>q\<rfloor> < 2 ^ 31 then Some \<lfloor>q\<rfloor> else None
      | _ \<Rightarrow> None)"

definition text_column :: "json \<Rightarrow> string option" where
  "text_column v = (case v of JStr s \<Rightarrow> Some s | _ \<Rightarrow> None)"

text \<open>A value for a column that is kept when the value is undefined; \<open>b\<close> says that the column may be null.\<close>

definition text_given :: "bool \<Rightarrow> json \<Rightarrow> bool" where
  "text_given b v \<longleftrightarrow> v = JUndef \<or> text_column v \<noteq> None \<or> (b \<and> v = JNull)"

definition nullish_else :: "json \<Rightarrow> json \<Rightarrow> json" where
  "nullish_else v d = (if is_nullish v then d else v)"

definition db_refusal :: string where "db_refusal = ''PrismaClientValidationError''"

text \<open>\<open>UserRepository.create\<close>: the key is unique.\<close>

definition user_insert :: "user_row \<Rightarrow> oauth_world \<Rightarrow> (string + user_row) \<times> oauth_world" where
  "user_insert u w =
     (if us_userId u \<in> set (map us_userId (ow_users w)) then (Inl ''P2002'', w) else (Inr u, w\<lparr>ow_users := ow_users w @ [u]\<rparr>))"

text \<open>\<open>UserRepository.update\<close> and \<open>delete\<close> throw when there is no such row.\<close>

definition user_change :: "string \<Rightarrow> (user_row \<Rightarrow> user_row) \<Rightarrow> oauth_world \<Rightarrow> (string + user_row) \<times> oauth_world" where
  "user_change userId f w =
     (case find_user userId w of
        None \<Rightarrow> (Inl ''P2025'', w)
      | Some u \<Rightarrow> (Inr (f u), w\<lparr>ow_users := sql_update (\<lambda>r. us_userId r = userId) f (ow_users w)\<rparr>))"

definition user_remove :: "string \<Rightarrow> oauth_world \<Rightarrow> (string + user_row) \<times> oauth_world" where
  "user_remove userId w =
     (case find_user userId w of
        None \<Rightarrow> (Inl ''P2025'', w)
      | Some u \<Rightarrow> (Inr u, w\<lparr>ow_users := filter (\<lambda>r. us_userId r \<noteq> userId) (ow_users w)\<rparr>))"

definition user_update :: "oauth_env \<Rightarrow> string \<Rightarrow> (user_row \<Rightarrow> user_row) \<Rightarrow> user_row oa" where
  "user_update e userId f = oa_query e (\<lambda>k now. user_change userId f)"

definition user_delete :: "oauth_env \<Rightarrow> string \<Rightarrow> user_row oa" where
  "user_delete e userId = oa_query e (\<lambda>k now. user_remove userId)"

definition user_create :: "oauth_env \<Rightarrow> user_row \<Rightarrow> user_row oa" where
  "user_create e u = oa_query e (\<lambda>k now. user_insert u)"

definition deleteByProxyId :: "oauth_env \<Rightarrow> (int \<Rightarrow> bool) \<Rightarrow> nat oa" where
  "deleteByProxyId e P = oa_query e (\<lambda>k now w.
     (Inr (length (filter (\<lambda>u. P (us_proxyId u)) (ow_users w))), w\<lparr>ow_users := filter (\<lambda>u. \<not> P (us_proxyId u)) (ow_users w)\<rparr>))"

section \<open>Handlers\<close>

definition disableUser :: "oauth_env \<Rightarrow> string \<Rightarrow> unit oa" where
  "disableUser e targetId =
     oa_bind (oa_read e (find_user targetId)) (\<lambda>found.
       case found of
         None \<Rightarrow> oa_throw ''USER_NOT_FOUND''
       | Some u \<Rightarrow>
           if us_role u = OwnerRole then oa_throw ''FORBIDDEN''
           else oa_bind (user_update e targetId (\<lambda>r. r\<lparr>us_status := UserDisabledStatus\<rparr>)) (\<lambda>_.
             removeAllUserSessions e targetId USER_DISABLED))"

text \<open>
  New permissions, with other changes. The result has the row and what the clients of which session were told: that their
  tools, resources, prompts changed.
\<close>

type_synonym announcement = "nat \<times> bool \<times> bool \<times> bool"

definition set_permissions :: "admin_platform \<Rightarrow> string \<Rightarrow> user_row \<Rightarrow> user_row" where
  "set_permissions ap text u = u\<lparr>us_permissionsText := text, us_permissions := ap_parse ap text\<rparr>"

definition update_sessions :: "string \<Rightarrow> json \<Rightarrow> session_store \<Rightarrow> session_store" where
  "update_sessions userId permissions ss =
     fold (\<lambda>r. change_session r (\<lambda>s. s\<lparr>cs_auth := (cs_auth s)\<lparr>au_permissions := permissions\<rparr>\<rparr>)) (getUserSessions userId ss) ss"

text \<open>\<open>text\<close> is missing for undefined permissions, which \<open>JSON.parse\<close> refuses. \<open>changes\<close> is what is written besides: \<open>None\<close> when a value is refused; \<open>given\<close> says whether there is anything.\<close>

definition updateUserPermissions ::
    "oauth_env \<Rightarrow> admin_platform \<Rightarrow> string \<Rightarrow> string option \<Rightarrow> bool \<Rightarrow> (user_row \<Rightarrow> user_row) option \<Rightarrow> user_row option \<Rightarrow>
     (user_row \<times> announcement list) oa" where
  "updateUserPermissions e ap targetId text given changes existing =
     oa_bind (case existing of Some u \<Rightarrow> oa_return (Some u) | None \<Rightarrow> oa_read e (find_user targetId)) (\<lambda>found.
       case found of
         None \<Rightarrow> oa_throw ''USER_NOT_FOUND''
       | Some user \<Rightarrow>
           if text = Some (us_permissionsText user)
           then (if \<not> given then oa_return (user, [])
                 else oa_bind (oa_some db_refusal changes) (\<lambda>f.
                   oa_bind (user_update e targetId f) (\<lambda>u. oa_return (u, []))))
           else
             oa_bind (oa_some ''SyntaxError'' (Option.bind text (ap_parse ap))) (\<lambda>new.
             oa_bind (oa_some ''SyntaxError'' (ap_parse ap (us_permissionsText user))) (\<lambda>old.
             oa_bind (oa_lift (comparePermissions old new)) (\<lambda>(toolsChanged, resourcesChanged, promptsChanged).
             oa_bind (oa_some db_refusal changes) (\<lambda>f.
             oa_bind (user_update e targetId (\<lambda>r. set_permissions ap (text_of text) (f r))) (\<lambda>u.
             oa_bind (ss_do (\<lambda>now ss. (getUserSessions targetId ss, update_sessions targetId new ss))) (\<lambda>refs.
               oa_return (u, map (\<lambda>r. (r, toolsChanged, resourcesChanged, promptsChanged)) refs))))))))"

text \<open>Replies, with what clients were told; \<open>Routed\<close> is what the handler of another component returns.\<close>

datatype 'x admin_data =
    NoData "announcement list"
  | OneUser user_row "announcement list"
  | UserList "user_row list"
  | UserDeleted
  | DeletedCount nat
  | UserCount nat
  | OwnerRow user_row
  | PublicOwner string int int "int option"
  | Routed 'x

text \<open>\<open>typeof permissions === 'string' ? permissions : JSON.stringify(permissions)\<close>\<close>

definition permissions_text :: "admin_platform \<Rightarrow> json \<Rightarrow> string option" where
  "permissions_text ap v = (case v of JStr s \<Rightarrow> Some s | _ \<Rightarrow> json_text (ap_numeral ap) v)"

text \<open>Destructuring of \<open>request.data\<close>: null and undefined throw.\<close>

definition with_data :: "json \<Rightarrow> 'a oa \<Rightarrow> 'a oa" where
  "with_data data m = (if is_nullish data then oa_throw ''TypeError'' else m)"

definition column_text :: "json \<Rightarrow> string oa" where
  "column_text v = oa_some db_refusal (text_column v)"

definition handleDisableUser :: "oauth_env \<Rightarrow> json \<Rightarrow> 'x admin_data oa" where
  "handleDisableUser e data =
     oa_bind (column_text (parsed_member data ''targetId'')) (\<lambda>targetId.
     oa_bind (disableUser e targetId) (\<lambda>_. oa_return (NoData [])))"

definition handleUpdateUserPermissions :: "oauth_env \<Rightarrow> admin_platform \<Rightarrow> json \<Rightarrow> 'x admin_data oa" where
  "handleUpdateUserPermissions e ap data =
     oa_bind (column_text (parsed_member data ''targetId'')) (\<lambda>targetId.
     oa_bind (updateUserPermissions e ap targetId (permissions_text ap (parsed_member data ''permissions'')) False (Some id) None)
       (\<lambda>(u, news). oa_return (NoData news)))"

text \<open>\<open>Number.parseInt(text, 10)\<close>\<close>

definition parse_decimal :: "string \<Rightarrow> jsnum" where
  "parse_decimal s =
     (let t = js_trimStart s;
          neg = (case t of c # _ \<Rightarrow> c = CHR ''-'' | [] \<Rightarrow> False);
          u = (case t of c # r \<Rightarrow> if c = CHR ''-'' \<or> c = CHR ''+'' then r else t | [] \<Rightarrow> []);
          ds = takeWhile (digit_in 10) u
      in if ds = [] then NaN else Fin (of_int (if neg then - int (digits_value 10 ds) else int (digits_value 10 ds))))"

text \<open>Times in milliseconds are taken for what they are; \<open>None\<close> is the error.\<close>

definition normalizedExpiresAt :: "json \<Rightarrow> json option" where
  "normalizedExpiresAt expiresAt =
     (if is_nullish expiresAt then Some (JNum (Fin 0))
      else (case (case expiresAt of JStr s \<Rightarrow> JNum (parse_decimal s) | v \<Rightarrow> v) of
          JNum (Fin q) \<Rightarrow> Some (JNum (Fin (if q \<ge> 1000000000000 then of_int \<lfloor>q / 1000\<rfloor> else q)))
        | _ \<Rightarrow> None))"

text \<open>The row of a new user: \<open>None\<close> when the database client refuses a value.\<close>

definition new_user :: "admin_platform \<Rightarrow> json \<Rightarrow> string \<Rightarrow> json \<Rightarrow> user_row option" where
  "new_user ap data userId expiresAt =
     (let field = parsed_member data; text = permissions_text ap (nullish_else (field ''permissions'') (JObj () [])) in
      case (int_column (nullish_else (field ''status'') (JNum (Fin 1))), int_column (nullish_else (field ''role'') (JNum (Fin 3))),
            int_column expiresAt, int_column (nullish_else (field ''ratelimit'') (JNum (Fin 100))),
            int_column (nullish_else (field ''proxyId'') (JNum (Fin 0))), text) of
        (Some status, Some role, Some expiry, Some ratelimit, Some proxyId, Some permissions) \<Rightarrow>
          if list_all (\<lambda>k. is_nullish (field k) \<or> int_column (field k) \<noteq> None) [''createdAt'', ''updatedAt''] \<and>
             (is_nullish (field ''name'') \<or> text_column (field ''name'') \<noteq> None) \<and>
             (is_nullish (field ''notes'') \<or> text_column (field ''notes'') \<noteq> None) \<and> text_column (field ''encryptedToken'') \<noteq> None
          then Some \<lparr>us_userId = userId, us_role = role, us_status = status, us_permissionsText = permissions,
            us_permissions = ap_parse ap permissions, us_userPreferences = Some (JObj () []), us_launchConfigs = ''{}'',
            us_expiresAt = Some expiry, us_ratelimit = ratelimit, us_proxyId = proxyId\<rparr>
          else None
      | _ \<Rightarrow> None)"

text \<open>The transaction holds a lock on the table, so it is one statement.\<close>

definition create_owner :: "oauth_env \<Rightarrow> user_row option \<Rightarrow> user_row oa" where
  "create_owner e new = oa_query e (\<lambda>k now w.
     if list_ex (\<lambda>u. us_role u = OwnerRole) (ow_users w) then (Inl ''USER_ALREADY_EXISTS'', w)
     else if ow_users w \<noteq> [] then (Inl ''INVALID_REQUEST'', w)
     else (case new of None \<Rightarrow> (Inl db_refusal, w) | Some u \<Rightarrow> user_insert u w))"

definition handleCreateUser :: "oauth_env \<Rightarrow> admin_platform \<Rightarrow> json \<Rightarrow> string option \<Rightarrow> 'x admin_data oa" where
  "handleCreateUser e ap data token = with_data data
     (let owner = claims_owner data; userId = parsed_member data ''userId''; encryptedToken = parsed_member data ''encryptedToken'' in
      if \<not> owner \<and> \<not> is_given token then oa_throw ''FORBIDDEN''
      else if \<not> truthy userId \<or> \<not> truthy encryptedToken then oa_throw ''INVALID_REQUEST''
      else oa_bind (oa_some ''INVALID_REQUEST'' (normalizedExpiresAt (parsed_member data ''expiresAt''))) (\<lambda>expiresAt.
        oa_bind (column_text userId) (\<lambda>userId.
        oa_bind (oa_read e (find_user userId)) (\<lambda>existing.
          if existing \<noteq> None then oa_throw ''USER_ALREADY_EXISTS''
          else oa_bind (if owner then oa_return ()
              else oa_bind (oa_ask e (\<lambda>k. Option.bind (text_column encryptedToken) (\<lambda>t. ap_decrypt ap t (text_of token)))) (\<lambda>decrypted.
                oa_bind (oa_some ''DECRYPTION_FAILED'' decrypted) (\<lambda>plain.
                oa_bind (oa_ask e (\<lambda>k. calculateUserId (oe_platform e) plain)) (\<lambda>calculated.
                  if calculated \<noteq> userId then oa_throw ''INVALID_REQUEST'' else oa_return ())))) (\<lambda>_.
            oa_bind (if owner then create_owner e (new_user ap data userId expiresAt)
              else oa_bind (oa_some db_refusal (new_user ap data userId expiresAt)) (user_create e)) (\<lambda>u.
              oa_return (OneUser u [])))))))"

definition handleGetUsers :: "oauth_env \<Rightarrow> admin_platform \<Rightarrow> json \<Rightarrow> 'x admin_data oa" where
  "handleGetUsers e ap data =
     (let field = parsed_member data; userId = field ''userId''; role = field ''role''; excludeRole = field ''excludeRole''; every = Some (\<lambda>i. True) in
      if truthy userId
      then oa_bind (column_text userId) (\<lambda>i. oa_bind (oa_read e (find_user i)) (\<lambda>found.
        oa_return (UserList (case found of Some u \<Rightarrow> [u] | None \<Rightarrow> []))))
      else oa_bind (oa_some db_refusal (if field ''proxyId'' = JUndef then every
            else map_option (\<lambda>n i. i = n) (js_parseInt (ap_String ap (field ''proxyId''))))) (\<lambda>onProxy.
        oa_bind (oa_some db_refusal (if excludeRole \<noteq> JUndef then ap_matches ap (JObj () [(''not'', excludeRole)])
            else if role \<noteq> JUndef then ap_matches ap role else every)) (\<lambda>onRole.
        oa_bind (oa_read e (\<lambda>w. filter (\<lambda>u. onProxy (us_proxyId u) \<and> onRole (us_role u)) (ow_users w))) (\<lambda>us.
          oa_return (UserList us)))))"

text \<open>
  The columns that \<open>UPDATE_USER\<close> writes besides the permissions: whether there are any, and the change, \<open>None\<close>
  when a value is refused. Of these columns only the status is kept here.
\<close>

definition user_changes_given :: "json \<Rightarrow> bool" where
  "user_changes_given data \<longleftrightarrow> list_ex (\<lambda>k. parsed_member data k \<noteq> JUndef) [''name'', ''notes'', ''encryptedToken'', ''status'']"

definition user_changes :: "json \<Rightarrow> (user_row \<Rightarrow> user_row) option" where
  "user_changes data =
     (let field = parsed_member data; status = field ''status'' in
      if text_given False (field ''name'') \<and> text_given True (field ''notes'') \<and> text_given True (field ''encryptedToken'')
      then (if status = JUndef then Some id else map_option (\<lambda>i u. u\<lparr>us_status := i\<rparr>) (int_column status))
      else None)"

definition handleUpdateUser :: "oauth_env \<Rightarrow> admin_platform \<Rightarrow> json \<Rightarrow> 'x admin_data oa" where
  "handleUpdateUser e ap data = with_data data
     (let status = parsed_member data ''status''; permissions = parsed_member data ''permissions'' in
      if \<not> truthy (parsed_member data ''userId'') then oa_throw ''INVALID_REQUEST''
      else oa_bind (column_text (parsed_member data ''userId'')) (\<lambda>userId.
        oa_bind (oa_read e (find_user userId)) (\<lambda>found.
          case found of
            None \<Rightarrow> oa_throw ''USER_NOT_FOUND''
          | Some existing \<Rightarrow>
              if us_role existing = OwnerRole \<and> status \<noteq> JUndef \<and> status \<noteq> JNum (Fin 1) then oa_throw ''FORBIDDEN''
              else oa_bind (if status = JNum (Fin 0) \<and> us_status existing \<noteq> 0 then disableUser e userId else oa_return ()) (\<lambda>_.
                oa_bind (if permissions = JUndef
                  then oa_bind (oa_some db_refusal (user_changes data)) (\<lambda>f. oa_bind (user_update e userId f) (\<lambda>u. oa_return (u, [])))
                  else updateUserPermissions e ap userId (permissions_text ap permissions) (user_changes_given data)
                    (user_changes data) (Some existing)) (\<lambda>(u, news). oa_return (OneUser u news))))))"

definition handleDeleteUser :: "oauth_env \<Rightarrow> json \<Rightarrow> 'x admin_data oa" where
  "handleDeleteUser e data = with_data data
     (if \<not> truthy (parsed_member data ''userId'') then oa_throw ''INVALID_REQUEST''
      else oa_bind (column_text (parsed_member data ''userId'')) (\<lambda>userId.
        oa_bind (disableUser e userId) (\<lambda>_.
        oa_bind (user_delete e userId) (\<lambda>_. oa_return UserDeleted))))"

definition handleDeleteUsersByProxy :: "oauth_env \<Rightarrow> admin_platform \<Rightarrow> json \<Rightarrow> 'x admin_data oa" where
  "handleDeleteUsersByProxy e ap data = with_data data
     (if parsed_member data ''proxyId'' = JUndef then oa_throw ''INVALID_REQUEST''
      else oa_bind (oa_some db_refusal (ap_matches ap (parsed_member data ''proxyId''))) (\<lambda>P.
        oa_bind (oa_read e (\<lambda>w. filter (\<lambda>u. P (us_proxyId u)) (ow_users w))) (\<lambda>users.
          if list_ex (\<lambda>u. us_role u = OwnerRole) users then oa_throw ''FORBIDDEN''
          else oa_bind (oa_each (\<lambda>u. disableUser e (us_userId u)) users) (\<lambda>_.
            oa_bind (deleteByProxyId e P) (\<lambda>n. oa_return (DeletedCount n))))))"

definition handleCountUsers :: "oauth_env \<Rightarrow> admin_platform \<Rightarrow> json \<Rightarrow> 'x admin_data oa" where
  "handleCountUsers e ap data =
     (let excludeRole = parsed_member data ''excludeRole'' in
      oa_bind (oa_some db_refusal (if excludeRole \<noteq> JUndef then ap_matches ap (JObj () [(''not'', excludeRole)]) else Some (\<lambda>i. True))) (\<lambda>P.
      oa_bind (oa_read e (\<lambda>w. length (filter (\<lambda>u. P (us_role u)) (ow_users w)))) (\<lambda>n. oa_return (UserCount n))))"

definition handleGetOwner :: "oauth_env \<Rightarrow> 'x admin_data oa" where
  "handleGetOwner e =
     oa_bind (oa_read e (\<lambda>w. filter (\<lambda>u. us_role u = OwnerRole) (ow_users w))) (\<lambda>owners.
       case owners of [] \<Rightarrow> oa_throw ''USER_NOT_FOUND'' | u # _ \<Rightarrow> oa_return (OwnerRow u))"

text \<open>Without a context only some columns of the owner are shown (of those kept here: not the permissions).\<close>

definition shown_owner :: "auth_info option \<Rightarrow> 'x admin_data \<Rightarrow> 'x admin_data" where
  "shown_owner ctx d =
     (case (ctx, d) of
        (None, OwnerRow u) \<Rightarrow> PublicOwner (us_userId u) (us_role u) (us_status u) (us_expiresAt u)
      | _ \<Rightarrow> d)"

section \<open>Dispatch\<close>

text \<open>\<open>routed\<close> are the handlers of the actions that are not about users.\<close>

definition admin_handler ::
    "oauth_env \<Rightarrow> admin_platform \<Rightarrow> (nat \<Rightarrow> json \<Rightarrow> string option \<Rightarrow> auth_info option \<Rightarrow> 'x oa) \<Rightarrow>
     nat \<Rightarrow> json \<Rightarrow> string option \<Rightarrow> auth_info option \<Rightarrow> 'x admin_data oa" where
  "admin_handler e ap routed c data token ctx =
     (if c = 1001 then handleDisableUser e data
      else if c = 1002 then handleUpdateUserPermissions e ap data
      else if c = 1010 then handleCreateUser e ap data token
      else if c = 1011 then handleGetUsers e ap data
      else if c = 1012 then handleUpdateUser e ap data
      else if c = 1013 then handleDeleteUser e data
      else if c = 1014 then handleDeleteUsersByProxy e ap data
      else if c = 1015 then handleCountUsers e ap data
      else if c = 1016 then oa_bind (handleGetOwner e) (\<lambda>d. oa_return (shown_owner ctx d))
      else oa_bind (routed c data token ctx) (\<lambda>x. oa_return (Routed x)))"

datatype 'x admin_reply =
    AdminDone nat "'x admin_data"
  | AdminFailed int int
  | AdminRefused int

definition error_code :: "string \<Rightarrow> int" where
  "error_code err =
     (if err = ''FORBIDDEN'' then FORBIDDEN else if err = ''USER_NOT_FOUND'' then 2001
      else if err = ''USER_ALREADY_EXISTS'' then 2003 else INVALID_REQUEST)"

text \<open>
  The reply, and the token of the owner that the request left with the registry of servers. A request without a body makes
  the error handling itself throw.
\<close>

definition handleAdminRequest ::
    "oauth_env \<Rightarrow> admin_platform \<Rightarrow> (nat \<Rightarrow> json \<Rightarrow> string option \<Rightarrow> auth_info option \<Rightarrow> 'x oa) \<Rightarrow>
     admin_request \<Rightarrow> auth_info option \<Rightarrow> ('x admin_reply \<times> string option) oa" where
  "handleAdminRequest e ap routed req ctx =
     (if is_nullish (aq_body req) then oa_throw ''TypeError''
      else (case admin_decide req ctx of
          Inl (status, code) \<Rightarrow> oa_return (AdminFailed status code, owner_token req ctx)
        | Inr c \<Rightarrow>
            oa_catch
              (oa_bind (admin_handler e ap routed c (request_data (aq_body req)) (bearer (aq_authorization req)) ctx) (\<lambda>d.
                 oa_return (AdminDone c d, owner_token req ctx)))
              (\<lambda>err. oa_return (AdminFailed 500 (error_code err), owner_token req ctx))))"

definition admin_serve ::
    "oauth_env \<Rightarrow> admin_platform \<Rightarrow> (nat \<Rightarrow> json \<Rightarrow> string option \<Rightarrow> auth_info option \<Rightarrow> 'x oa) \<Rightarrow>
     admin_request \<Rightarrow> ('x admin_reply \<times> string option) oa" where
  "admin_serve e ap routed req =
     oa_bind (admin_authenticate e req) (\<lambda>gate.
       case gate of
         Inl status \<Rightarrow> oa_return (AdminRefused status, None)
       | Inr ctx \<Rightarrow>
           if aq_method req \<noteq> ''POST'' then oa_return (AdminRefused 404, None) else handleAdminRequest e ap routed req ctx)"

end
