(* ===== verification/OAuth_Grants.thy ===== *)
theory OAuth_Grants
  imports OAuth_Clients OAuth_Tokens
begin

text \<open>
  The endpoints of the authorization server (\<open>oauth/controllers/OAuthController.ts\<close>): registration,
  the authorization page and its confirmation, directly or through a flow that the desktop
  application completes (\<open>oauth/services/DeskAuthorizationFlowService.ts\<close>), the exchange of
  authorization codes and refresh tokens, introspection and revocation; and the endpoints for the
  administration of clients (\<open>oauth/controllers/OAuthClientController.ts\<close>).

  The parameters of a request are strings or absent; a JSON body with other values makes a
  statement throw, as any error of the database does. The CORS headers are not part of the model.
\<close>

section \<open>Requests and replies\<close>

record token_body =
  tb_grant_type :: "string option"
  tb_code :: "string option"
  tb_redirect_uri :: "string option"
  tb_client_id :: "string option"
  tb_client_secret :: "string option"
  tb_code_verifier :: "string option"
  tb_refresh_token :: "string option"
  tb_scope :: "string option"
  tb_token :: "string option"
  tb_token_type_hint :: "string option"

record token_reply =
  tk_access_token :: string
  tk_expires_in :: int
  tk_refresh_token :: "string option"
  tk_scope :: string
  tk_resource :: "string option"

datatype oauth_reply =
    OaError int string string
  | TokenReply token_reply
  | RedirectReply string
  | PageReply string
  | ClientReply oauth_client
  | ClientsReply "oauth_client list"
  | DoneReply
  | Inactive
  | Active token_payload
  | FlowReply flow_status "string option"
  | FlowError int string string

definition oa_error :: "int \<Rightarrow> string \<Rightarrow> string \<Rightarrow> oauth_reply oa" where
  "oa_error status err description = oa_return (OaError status err description)"

definition server_error :: "oauth_reply oa" where
  "server_error = oa_error 500 ''server_error'' ''Internal server error''"

definition isClientMetadataError :: "string \<Rightarrow> bool" where
  "isClientMetadataError err \<longleftrightarrow>
     js_startsWith err ''invalid_client_metadata:'' \<or> js_startsWith err ''invalid_redirect_uri:''"

definition isAuthorizationEndpointError :: "string \<Rightarrow> bool" where
  "isAuthorizationEndpointError err \<longleftrightarrow> js_startsWith err ''invalid_client:'' \<or>
     js_startsWith err ''unsupported_response_type:'' \<or> js_startsWith err ''invalid_request:''"

text \<open>The texts before and after the first \<open>': '\<close>.\<close>

fun split_colon :: "string \<Rightarrow> (string \<times> string) option" where
  "split_colon [] = None"
| "split_colon (c # s) =
     (if c = CHR '':'' \<and> prefix '' '' s then Some ([], tl s)
      else map_option (\<lambda>(a, b). (c # a, b)) (split_colon s))"

definition colonErrorCode :: "string \<Rightarrow> string" where
  "colonErrorCode err = (case split_colon err of None \<Rightarrow> err | Some (a, b) \<Rightarrow> a)"

definition colonErrorDescription :: "string \<Rightarrow> string" where
  "colonErrorDescription err = (case split_colon err of None \<Rightarrow> err | Some (a, b) \<Rightarrow> b)"

section \<open>Registration\<close>

definition issuer_of :: "oauth_env \<Rightarrow> oauth_request \<Rightarrow> string oa" where
  "issuer_of e req = oa_some PUBLIC_URL_CONFIGURATION_ERROR (getAuthorizationServerUrl (oe_platform e) req)"

definition metadata_failure :: "string \<Rightarrow> oauth_reply oa" where
  "metadata_failure err =
     (if isClientMetadataError err then oa_error 400 (colonErrorCode err) (colonErrorDescription err)
      else server_error)"

definition oauth_register :: "oauth_env \<Rightarrow> oauth_request \<Rightarrow> json \<Rightarrow> oauth_reply oa" where
  "oauth_register e req body =
     (let md = metadata_of body in
      if url_client_id (md_client_id md) = None \<and> (case md_redirect_uris md of JArr _ _ \<Rightarrow> False | _ \<Rightarrow> True)
      then oa_error 400 ''invalid_client_metadata'' ''redirect_uris is required and must be an array''
      else oa_catch
        (oa_bind (issuer_of e req) (\<lambda>issuer.
         oa_bind (registerClient e md None issuer) (\<lambda>c. oa_return (ClientReply c))))
        metadata_failure)"

definition getClientInfo :: "oauth_env \<Rightarrow> oauth_request \<Rightarrow> string \<Rightarrow> oauth_reply oa" where
  "getClientInfo e req clientId =
     oa_catch
       (oa_bind (issuer_of e req) (\<lambda>issuer.
        oa_bind (getClientForIssuer e clientId issuer) (\<lambda>found.
          case found of
            None \<Rightarrow> oa_error 404 ''not_found'' ''Client not found''
          | Some c \<Rightarrow> oa_return (ClientReply (toClientInformation False c)))))
       (\<lambda>err. server_error)"

subsection \<open>Administration\<close>

definition admin_listClients :: "oauth_env \<Rightarrow> oauth_reply oa" where
  "admin_listClients e =
     oa_catch (oa_bind (listClients e None) (\<lambda>cs. oa_return (ClientsReply cs))) (\<lambda>err. server_error)"

definition admin_getClient :: "oauth_env \<Rightarrow> string \<Rightarrow> oauth_reply oa" where
  "admin_getClient e clientId =
     oa_catch (oa_bind (getClient e clientId) (\<lambda>found.
         case found of None \<Rightarrow> oa_error 404 ''Client not found'' [] | Some c \<Rightarrow> oa_return (ClientReply c)))
       (\<lambda>err. server_error)"

definition admin_updateClient :: "oauth_env \<Rightarrow> string \<Rightarrow> json \<Rightarrow> oauth_reply oa" where
  "admin_updateClient e clientId updates =
     oa_catch (oa_bind (updateClient e clientId (metadata_of updates)) (\<lambda>found.
         case found of None \<Rightarrow> oa_error 404 ''Client not found'' [] | Some c \<Rightarrow> oa_return (ClientReply c)))
       metadata_failure"

definition admin_deleteClient :: "oauth_env \<Rightarrow> string \<Rightarrow> oauth_reply oa" where
  "admin_deleteClient e clientId =
     oa_bind (deleteClient e clientId) (\<lambda>success.
       if success then oa_return DoneReply else oa_error 404 ''Client not found or failed to delete'' [])"

section \<open>Flows of the desktop application\<close>

definition DESK_FLOW_TTL :: int where "DESK_FLOW_TTL = 300000"

definition expire_flow :: "int \<Rightarrow> desk_flow \<Rightarrow> desk_flow" where
  "expire_flow now f =
     (if df_status f = FlowPending \<and> df_expiresAt f \<le> now
      then f\<lparr>df_status := FlowExpired, df_error := Some ''expired'',
        df_errorDescription := Some ''Authorization flow has expired''\<rparr>
      else f)"

text \<open>One pass: a flow that this pass expires stays until the next one.\<close>

definition flow_cleanupExpired :: "int \<Rightarrow> (string, desk_flow) jsmap \<Rightarrow> (string, desk_flow) jsmap" where
  "flow_cleanupExpired now flows =
     map (\<lambda>(k, f). (k, expire_flow now f))
       (filter (\<lambda>(k, f). (df_status f = FlowPending \<and> df_expiresAt f \<le> now) \<or>
          \<not> (df_expiresAt f + DESK_FLOW_TTL \<le> now \<and> df_status f \<noteq> FlowCompleted)) flows)"

definition createFlow :: "oauth_env \<Rightarrow> desk_params \<Rightarrow> string \<Rightarrow> string oa" where
  "createFlow e params issuer =
     oa_bind (oa_random e ''flow'') (\<lambda>flowId.
     oa_act (\<lambda>now w.
       (flowId, w\<lparr>ow_flows := AList.update flowId
          \<lparr>df_flowId = flowId, df_issuer = issuer, df_params = params, df_status = FlowPending,
           df_expiresAt = now + DESK_FLOW_TTL, df_redirect = None, df_error = None, df_errorDescription = None\<rparr>
          (flow_cleanupExpired now (ow_flows w))\<rparr>)))"

definition getFlow :: "string \<Rightarrow> desk_flow option oa" where
  "getFlow flowId =
     oa_act (\<lambda>now w.
       case map_of (ow_flows w) flowId of
         None \<Rightarrow> (None, w)
       | Some f \<Rightarrow> (Some (expire_flow now f), w\<lparr>ow_flows := AList.update flowId (expire_flow now f) (ow_flows w)\<rparr>))"

text \<open>\<open>paramsMatch\<close> compares all members.\<close>

definition getReusableFlow :: "string \<Rightarrow> desk_params \<Rightarrow> string \<Rightarrow> string option oa" where
  "getReusableFlow flowId params issuer =
     oa_bind (getFlow flowId) (\<lambda>found. oa_return (case found of
         None \<Rightarrow> None
       | Some f \<Rightarrow>
           if df_status f \<noteq> FlowPending \<and> df_status f \<noteq> FlowCompleted then None
           else if df_issuer f \<noteq> issuer then None
           else if df_params f \<noteq> params then None
           else Some (df_flowId f)))"

definition change_pending :: "string \<Rightarrow> (desk_flow \<Rightarrow> desk_flow) \<Rightarrow> unit oa" where
  "change_pending flowId change =
     oa_bind (getFlow flowId) (\<lambda>found. oa_act (\<lambda>now w.
       (case found of
          None \<Rightarrow> ((), w)
        | Some f \<Rightarrow>
            if df_status f \<noteq> FlowPending then ((), w)
            else ((), w\<lparr>ow_flows := AList.update flowId (change f) (ow_flows w)\<rparr>))))"

definition completeFlow :: "string \<Rightarrow> string \<Rightarrow> unit oa" where
  "completeFlow flowId redirect =
     change_pending flowId (\<lambda>f. f\<lparr>df_status := FlowCompleted, df_redirect := Some redirect\<rparr>)"

definition failFlow :: "string \<Rightarrow> string \<Rightarrow> string \<Rightarrow> unit oa" where
  "failFlow flowId err description =
     change_pending flowId (\<lambda>f. f\<lparr>df_status := FlowFailed, df_error := Some err, df_errorDescription := Some description\<rparr>)"

section \<open>Authorization\<close>

definition hasS256PKCE :: "string option \<Rightarrow> string option \<Rightarrow> bool" where
  "hasS256PKCE codeChallenge codeChallengeMethod \<longleftrightarrow> is_given codeChallenge \<and> codeChallengeMethod = Some ''S256''"

text \<open>The metadata a client of an address is looked up with.\<close>

definition getAuthorizationClient :: "oauth_env \<Rightarrow> string \<Rightarrow> string \<Rightarrow> oauth_client option oa" where
  "getAuthorizationClient e clientId issuer =
     (if js_startsWith clientId ''https://''
      then oa_bind (registerClient e ((metadata_of JUndef)\<lparr>md_client_id := JStr clientId, md_redirect_uris := JArr () []\<rparr>)
        None issuer) (\<lambda>c. oa_return (Some c))
      else getClientForIssuer e clientId issuer)"

definition code_create :: "oauth_env \<Rightarrow> auth_code \<Rightarrow> unit oa" where
  "code_create e c =
     oa_query e (\<lambda>k now w.
       if co_code c \<in> set (map co_code (ow_codes w)) then (Inl ''Unique constraint failed'', w)
       else if client_findUnique (co_clientId c) w = None then (Inl ''Foreign key constraint failed'', w)
       else (Inr (), w\<lparr>ow_codes := ow_codes w @ [c], ow_log := Authorized c # ow_log w\<rparr>))"

definition error_redirect :: "oauth_env \<Rightarrow> string \<Rightarrow> string \<Rightarrow> string \<Rightarrow> string option \<Rightarrow> string oa" where
  "error_redirect e redirectUri err description state =
     oa_some ''Invalid URL'' (buildErrorRedirectUrl (oe_platform e) redirectUri err (Some description) state)"

text \<open>\<open>completeAuthorizationGrant\<close>: the checks of the client, then those of the user and the scopes.\<close>

definition issue_code ::
    "oauth_env \<Rightarrow> oauth_request \<Rightarrow> desk_params \<Rightarrow> string \<Rightarrow> oauth_client \<Rightarrow> string \<Rightarrow> string oa" where
  "issue_code e req p issuer c userId =
     oa_bind (oa_random e ''code'') (\<lambda>code.
       (let scopes = parseScope (dp_scope p) in
        if \<not> isScopeSubset scopes (oc_scopes c)
        then error_redirect e (dp_redirect_uri p) ''invalid_scope'' ''Requested scope exceeds registered client scopes'' (dp_state p)
        else oa_bind (oa_some PUBLIC_URL_CONFIGURATION_ERROR (getPublicUrl (oe_platform e) req)) (\<lambda>canonicalResource.
          if is_given (dp_resource p) \<and> dp_resource p \<noteq> Some canonicalResource
          then error_redirect e (dp_redirect_uri p) ''invalid_target'' ''Unsupported resource'' (dp_state p)
          else oa_bind oa_time (\<lambda>now.
            oa_bind (code_create e
              \<lparr>co_code = code, co_clientId = dp_client_id p, co_userId = userId, co_redirectUri = dp_redirect_uri p,
               co_scopes = scopes, co_codeChallenge = dp_code_challenge p,
               co_challengeMethod = dp_code_challenge_method p, co_resource = Some canonicalResource,
               co_expiresAt = now + AUTHORIZATION_CODE_LIFETIME * 1000, co_used = False\<rparr>) (\<lambda>_.
              oa_some ''Invalid URL'' (buildSuccessRedirectUrl (oe_platform e) (dp_redirect_uri p) code (dp_state p)
                (Some issuer)))))))"

definition completeAuthorizationGrant ::
    "oauth_env \<Rightarrow> oauth_request \<Rightarrow> desk_params \<Rightarrow> string \<Rightarrow> string option \<Rightarrow> string oa" where
  "completeAuthorizationGrant e req p userToken validatedUserId =
     oa_bind (issuer_of e req) (\<lambda>issuer.
     oa_bind (getAuthorizationClient e (dp_client_id p) issuer) (\<lambda>found.
       case found of
         None \<Rightarrow> oa_throw ''invalid_client: Client not found''
       | Some c \<Rightarrow>
           if ''code'' \<notin> set (oc_responseTypes c)
           then oa_throw ''unsupported_response_type: Client is not registered for authorization code response''
           else if \<not> validateRedirectUri (oe_platform e) (dp_redirect_uri p) (oc_redirectUris c)
           then oa_throw ''invalid_request: Invalid redirect_uri''
           else if \<not> hasS256PKCE (dp_code_challenge p) (dp_code_challenge_method p)
           then oa_throw ''invalid_request: S256 code_challenge and code_challenge_method are required''
           else oa_bind
             (if is_given validatedUserId then oa_return validatedUserId
              else oa_catch (oa_bind (validateToken e userToken) (\<lambda>a. oa_return (Some (au_userId a))))
                (\<lambda>err. oa_return None))
             (\<lambda>user. case user of
                None \<Rightarrow> error_redirect e (dp_redirect_uri p) ''invalid_request'' ''Invalid user token'' (dp_state p)
              | Some userId \<Rightarrow> issue_code e req p issuer c userId)))"

definition endpoint_failure :: "string \<Rightarrow> oauth_reply oa" where
  "endpoint_failure err =
     (if isClientMetadataError err \<or> isAuthorizationEndpointError err
      then oa_error 400 (colonErrorCode err) (colonErrorDescription err)
      else server_error)"

definition authorize :: "oauth_env \<Rightarrow> oauth_request \<Rightarrow> desk_params \<Rightarrow> bool \<Rightarrow> string option \<Rightarrow> oauth_reply oa" where
  "authorize e req p approved user_token =
     oa_catch
       (oa_bind
         (if \<not> approved
          then error_redirect e (dp_redirect_uri p) ''access_denied'' ''User denied authorization'' (dp_state p)
          else if \<not> is_given user_token
          then error_redirect e (dp_redirect_uri p) ''invalid_request'' ''User token is required'' (dp_state p)
          else completeAuthorizationGrant e req p (text_of user_token) None)
         (\<lambda>redirect. oa_return (RedirectReply redirect)))
       endpoint_failure"

text \<open>The page; the record of the proxy and the template it is made from are left out.\<close>

definition showAuthorizePage ::
    "oauth_env \<Rightarrow> oauth_request \<Rightarrow> desk_params \<Rightarrow> string option \<Rightarrow> string option \<Rightarrow> oauth_reply oa" where
  "showAuthorizePage e req p response_type desk_flow_id =
     (let bad = (\<lambda>text. oa_error 400 text []) in
      if \<not> is_given response_type \<or> dp_client_id p = [] \<or> dp_redirect_uri p = [] then bad ''Missing required parameters''
      else if response_type \<noteq> Some ''code'' then bad ''Unsupported response_type''
      else if \<not> hasS256PKCE (dp_code_challenge p) (dp_code_challenge_method p)
      then bad ''S256 code_challenge and code_challenge_method are required''
      else oa_catch
        (oa_bind (issuer_of e req) (\<lambda>issuer.
         oa_bind (getAuthorizationClient e (dp_client_id p) issuer) (\<lambda>found.
           case found of
             None \<Rightarrow> bad ''Invalid client_id''
           | Some c \<Rightarrow>
               if ''code'' \<notin> set (oc_responseTypes c) then bad ''Unsupported response_type for client''
               else if \<not> validateRedirectUri (oe_platform e) (dp_redirect_uri p) (oc_redirectUris c) then bad ''Invalid redirect_uri''
               else if \<not> isScopeSubset (parseScope (dp_scope p)) (oc_scopes c)
               then bad ''Requested scope exceeds registered client scopes''
               else oa_bind
                 (if is_given desk_flow_id then getReusableFlow (text_of desk_flow_id) p issuer else oa_return None)
                 (\<lambda>reused. oa_bind (case reused of Some flowId \<Rightarrow> oa_return flowId | None \<Rightarrow> createFlow e p issuer)
                   (\<lambda>flowId. oa_return (PageReply flowId))))))
        (\<lambda>err. if isClientMetadataError err then bad (colonErrorDescription err) else server_error))"

definition flow_failed :: "desk_flow \<Rightarrow> string \<Rightarrow> oauth_reply" where
  "flow_failed f otherwise =
     FlowError 400
       (case df_error f of Some err \<Rightarrow> err | None \<Rightarrow> (case df_status f of FlowPending \<Rightarrow> ''pending'' | FlowCompleted \<Rightarrow> ''completed''
          | FlowFailed \<Rightarrow> ''failed'' | FlowExpired \<Rightarrow> ''expired''))
       (case df_errorDescription f of Some d \<Rightarrow> d | None \<Rightarrow> otherwise)"

definition deskAuthorizationCallback :: "oauth_env \<Rightarrow> oauth_request \<Rightarrow> string \<Rightarrow> string \<Rightarrow> oauth_reply oa" where
  "deskAuthorizationCallback e req flowId userToken =
     oa_catch
       (oa_bind (getFlow flowId) (\<lambda>found.
          case found of
            None \<Rightarrow> oa_return (FlowError 404 ''invalid_flow'' ''Authorization flow not found'')
          | Some f \<Rightarrow>
              if df_status f = FlowCompleted then oa_return (FlowReply FlowCompleted None)
              else if df_status f \<noteq> FlowPending then oa_return (flow_failed f ''Authorization flow is not pending'')
              else if userToken = []
              then oa_bind (failFlow (df_flowId f) ''invalid_request'' ''User token is required'')
                (\<lambda>_. oa_return (FlowError 400 ''invalid_request'' ''User token is required''))
              else oa_bind
                (oa_catch (oa_bind (validateToken e userToken) (\<lambda>a. oa_return (Some (au_userId a)))) (\<lambda>err. oa_return None))
                (\<lambda>user. case user of
                   None \<Rightarrow> oa_bind (failFlow (df_flowId f) ''invalid_request'' ''Invalid user token'')
                     (\<lambda>_. oa_return (FlowError 400 ''invalid_request'' ''Invalid user token''))
                 | Some userId \<Rightarrow>
                     oa_bind (completeAuthorizationGrant e req (df_params f) userToken (Some userId)) (\<lambda>redirect.
                     oa_bind (completeFlow (df_flowId f) redirect) (\<lambda>_. oa_return (FlowReply FlowCompleted None))))))
       (\<lambda>err.
          (let known = (isClientMetadataError err \<or> isAuthorizationEndpointError err);
               code = (if known then colonErrorCode err else ''server_error'');
               description = (if known then colonErrorDescription err else ''Internal server error'')
           in oa_bind (if flowId = [] then oa_return () else failFlow flowId code description)
                (\<lambda>_. oa_return (FlowError (if known then 400 else 500) code description))))"

definition deskAuthorizationStatus :: "string \<Rightarrow> oauth_reply oa" where
  "deskAuthorizationStatus flowId =
     oa_bind (getFlow flowId) (\<lambda>found. oa_return
       (case found of
          None \<Rightarrow> FlowError 404 ''invalid_flow'' ''Authorization flow not found''
        | Some f \<Rightarrow>
            if df_status f = FlowCompleted then FlowReply FlowCompleted (df_redirect f)
            else if df_status f = FlowPending then FlowReply FlowPending None
            else flow_failed f ''Authorization flow failed''))"

section \<open>Tokens\<close>

definition credentials ::
    "oauth_platform \<Rightarrow> oauth_request \<Rightarrow> token_body \<Rightarrow> string option \<times> string option" where
  "credentials pf req body =
     (case (if is_given (hr_authorization req) then parseBasicAuth pf (text_of (hr_authorization req)) else None) of
        Some (clientId, clientSecret) \<Rightarrow> (Some clientId, Some clientSecret)
      | None \<Rightarrow> (tb_client_id body, tb_client_secret body))"

text \<open>The check of the secret; \<open>Some\<close> is the refusal.\<close>

definition check_secret ::
    "oauth_env \<Rightarrow> oauth_client \<Rightarrow> string \<Rightarrow> string option \<Rightarrow> string \<Rightarrow> oauth_reply option oa" where
  "check_secret e c clientId clientSecret issuer =
     (if oc_tokenEndpointAuthMethod c = ''none'' then oa_return None
      else if \<not> is_given clientSecret
      then oa_return (Some (OaError 401 ''invalid_client'' ''client_secret is required for confidential clients''))
      else oa_bind (verifyClientCredentials e clientId (text_of clientSecret) issuer) (\<lambda>ok.
        oa_return (if ok then None else Some (OaError 401 ''invalid_client'' ''Invalid client credentials''))))"

text \<open>The client of a request, with its secret checked; \<open>grant\<close> is the grant type it must be registered for.\<close>

definition authenticate_client ::
    "oauth_env \<Rightarrow> oauth_request \<Rightarrow> string \<Rightarrow> string option \<Rightarrow> string option \<Rightarrow> (oauth_reply + oauth_client) oa" where
  "authenticate_client e req clientId clientSecret grant =
     oa_bind (issuer_of e req) (\<lambda>issuer.
     oa_bind (getClientForIssuer e clientId issuer) (\<lambda>found.
       case found of
         None \<Rightarrow> oa_return (Inl (OaError 401 ''invalid_client'' ''Client not found''))
       | Some c \<Rightarrow>
           if (case grant of None \<Rightarrow> False | Some g \<Rightarrow> g \<notin> set (oc_grantTypes c))
           then oa_return (Inl (OaError 400 ''unauthorized_client''
             (''Client is not registered for '' @ text_of grant @ '' grant'')))
           else oa_bind (check_secret e c clientId clientSecret issuer) (\<lambda>refusal.
             oa_return (case refusal of Some r \<Rightarrow> Inl r | None \<Rightarrow> Inr c))))"

text \<open>What is wrong with a code, before it is redeemed.\<close>

definition code_refusal :: "oauth_platform \<Rightarrow> token_body \<Rightarrow> string \<Rightarrow> int \<Rightarrow> auth_code option \<Rightarrow> string option" where
  "code_refusal pf body clientId now found =
     (case found of
        None \<Rightarrow> Some ''Invalid authorization code''
      | Some c \<Rightarrow>
          if co_used c then Some ''Authorization code has been used''
          else if co_expiresAt c < now then Some ''Authorization code has expired''
          else if co_clientId c \<noteq> clientId then Some ''Authorization code was issued to another client''
          else if Some (co_redirectUri c) \<noteq> tb_redirect_uri body then Some ''redirect_uri mismatch''
          else if \<not> is_given (co_codeChallenge c) \<or> co_challengeMethod c \<noteq> Some ''S256'' \<or> \<not> is_given (tb_code_verifier body)
          then Some ''S256 PKCE code_verifier is required''
          else if \<not> verifyPKCEChallenge pf (text_of (tb_code_verifier body)) (text_of (co_codeChallenge c))
          then Some ''Invalid code_verifier''
          else None)"

definition find_code :: "string \<Rightarrow> oauth_world \<Rightarrow> auth_code option" where
  "find_code code w = find (\<lambda>c. co_code c = code) (ow_codes w)"

definition claim_code :: "oauth_env \<Rightarrow> string \<Rightarrow> int \<Rightarrow> nat oa" where
  "claim_code e code date =
     oa_query e (\<lambda>k now w.
       (let P = (\<lambda>c. co_code c = code \<and> \<not> co_used c \<and> date \<le> co_expiresAt c);
            hits = filter P (ow_codes w)
        in (Inr (length hits),
            w\<lparr>ow_codes := sql_update P (\<lambda>c. c\<lparr>co_used := True\<rparr>) (ow_codes w),
              ow_log := map (\<lambda>c. Redeemed (co_code c) (oe_self e)) hits @ ow_log w\<rparr>)))"

definition token_create :: "oauth_env \<Rightarrow> string \<Rightarrow> (string \<Rightarrow> oauth_token) \<Rightarrow> unit oa" where
  "token_create e code row =
     oa_query e (\<lambda>k now w.
       (let t = row (oe_random e k ''token_id'' w) in
        if ot_tokenId t \<in> set (map ot_tokenId (ow_tokens w)) \<or> ot_accessToken t \<in> set (map ot_accessToken (ow_tokens w)) \<or>
          (ot_refreshToken t \<noteq> None \<and> ot_refreshToken t \<in> set (map ot_refreshToken (ow_tokens w)))
        then (Inl ''Unique constraint failed'', w)
        else if client_findUnique (ot_clientId t) w = None then (Inl ''Foreign key constraint failed'', w)
        else (Inr (), w\<lparr>ow_tokens := ow_tokens w @ [t], ow_log := Issued (ot_tokenId t) code # ow_log w\<rparr>)))"

definition issue_tokens :: "oauth_env \<Rightarrow> oauth_client \<Rightarrow> auth_code \<Rightarrow> oauth_reply oa" where
  "issue_tokens e c authCode =
     oa_bind oa_time (\<lambda>now.
     oa_bind (oa_lift (generateAccessToken (oe_platform e) (co_clientId authCode) (co_userId authCode)
       (co_scopes authCode) (co_resource authCode) now)) (\<lambda>accessToken.
     oa_bind (oa_random e ''refresh'') (\<lambda>random.
       (let issueRefreshToken = (''refresh_token'' \<in> set (oc_grantTypes c));
            refreshToken = (if issueRefreshToken then Some random else None)
        in oa_bind (token_create e (co_code authCode) (\<lambda>i.
             \<lparr>ot_tokenId = i, ot_accessToken = accessToken, ot_refreshToken = refreshToken,
              ot_clientId = co_clientId authCode, ot_userId = co_userId authCode, ot_scopes = co_scopes authCode,
              ot_resource = co_resource authCode, ot_accessTokenExpiresAt = now + ACCESS_TOKEN_LIFETIME * 1000,
              ot_refreshTokenExpiresAt = (if issueRefreshToken then Some (now + REFRESH_TOKEN_LIFETIME * 1000) else None),
              ot_revoked = False\<rparr>)) (\<lambda>_.
           oa_return (TokenReply \<lparr>tk_access_token = accessToken, tk_expires_in = ACCESS_TOKEN_LIFETIME,
             tk_refresh_token = refreshToken, tk_scope = js_join '' '' (co_scopes authCode),
             tk_resource = (if is_given (co_resource authCode) then co_resource authCode else None)\<rparr>))))))"

definition redeem_code :: "oauth_env \<Rightarrow> token_body \<Rightarrow> string \<Rightarrow> oauth_client \<Rightarrow> oauth_reply oa" where
  "redeem_code e body clientId c =
     oa_bind (oa_read e (find_code (text_of (tb_code body)))) (\<lambda>found.
     oa_bind oa_time (\<lambda>date.
       case code_refusal (oe_platform e) body clientId date found of
         Some d \<Rightarrow> oa_error 400 ''invalid_grant'' d
       | None \<Rightarrow>
           (case found of
              None \<Rightarrow> oa_error 400 ''invalid_grant'' ''Invalid authorization code''
            | Some authCode \<Rightarrow>
                oa_bind (claim_code e (co_code authCode) date) (\<lambda>count.
                  if count \<noteq> 1 then oa_error 400 ''invalid_grant'' ''Authorization code has already been used or expired''
                  else issue_tokens e c authCode))))"

definition handleAuthorizationCodeGrant :: "oauth_env \<Rightarrow> oauth_request \<Rightarrow> token_body \<Rightarrow> oauth_reply oa" where
  "handleAuthorizationCodeGrant e req body =
     (case credentials (oe_platform e) req body of
        (clientId, clientSecret) \<Rightarrow>
          if \<not> is_given (tb_code body) \<or> \<not> is_given (tb_redirect_uri body)
          then oa_error 400 ''invalid_request'' ''code and redirect_uri are required''
          else if \<not> is_given clientId then oa_error 401 ''invalid_client'' ''client_id is required''
          else oa_bind (authenticate_client e req (text_of clientId) clientSecret (Some ''authorization_code''))
            (\<lambda>r. case r of Inl refusal \<Rightarrow> oa_return refusal | Inr c \<Rightarrow> redeem_code e body (text_of clientId) c))"

definition refresh_refusal :: "string \<Rightarrow> int \<Rightarrow> oauth_token option \<Rightarrow> string option" where
  "refresh_refusal clientId now found =
     (case found of
        None \<Rightarrow> Some ''Invalid refresh token''
      | Some t \<Rightarrow>
          if ot_revoked t then Some ''Token has been revoked''
          else if (case ot_refreshTokenExpiresAt t of None \<Rightarrow> False | Some d \<Rightarrow> d < now) then Some ''Refresh token has expired''
          else if ot_clientId t \<noteq> clientId then Some ''Refresh token was issued to another client''
          else None)"

definition token_refresh :: "oauth_env \<Rightarrow> string \<Rightarrow> string \<Rightarrow> int \<Rightarrow> string list \<Rightarrow> unit oa" where
  "token_refresh e tokenId accessToken expiresAt scopes =
     oa_query e (\<lambda>k now w.
       if tokenId \<notin> set (map ot_tokenId (ow_tokens w)) then (Inl ''Record to update not found'', w)
       else if list_ex (\<lambda>t. ot_accessToken t = accessToken \<and> ot_tokenId t \<noteq> tokenId) (ow_tokens w)
       then (Inl ''Unique constraint failed'', w)
       else (Inr (), w\<lparr>ow_tokens := sql_update (\<lambda>t. ot_tokenId t = tokenId)
          (\<lambda>t. t\<lparr>ot_accessToken := accessToken, ot_accessTokenExpiresAt := expiresAt, ot_scopes := scopes\<rparr>) (ow_tokens w)\<rparr>))"

definition renew_token :: "oauth_env \<Rightarrow> token_body \<Rightarrow> oauth_token \<Rightarrow> oauth_reply oa" where
  "renew_token e body t =
     (let newScopes = (if is_given (tb_scope body) then parseScope (tb_scope body) else ot_scopes t) in
      if is_given (tb_scope body) \<and> \<not> isScopeSubset newScopes (ot_scopes t)
      then oa_error 400 ''invalid_scope'' ''Requested scope exceeds original grant''
      else oa_bind oa_time (\<lambda>now.
        oa_bind (oa_lift (generateAccessToken (oe_platform e) (ot_clientId t) (ot_userId t) newScopes (ot_resource t) now))
        (\<lambda>accessToken.
        oa_bind (token_refresh e (ot_tokenId t) accessToken (now + ACCESS_TOKEN_LIFETIME * 1000) newScopes) (\<lambda>_.
          oa_return (TokenReply \<lparr>tk_access_token = accessToken, tk_expires_in = ACCESS_TOKEN_LIFETIME,
            tk_refresh_token = tb_refresh_token body, tk_scope = js_join '' '' newScopes,
            tk_resource = (if is_given (ot_resource t) then ot_resource t else None)\<rparr>)))))"

definition handleRefreshTokenGrant :: "oauth_env \<Rightarrow> oauth_request \<Rightarrow> token_body \<Rightarrow> oauth_reply oa" where
  "handleRefreshTokenGrant e req body =
     (case credentials (oe_platform e) req body of
        (clientId, clientSecret) \<Rightarrow>
          if \<not> is_given (tb_refresh_token body) then oa_error 400 ''invalid_request'' ''refresh_token is required''
          else if \<not> is_given clientId then oa_error 401 ''invalid_client'' ''client_id is required''
          else oa_bind (authenticate_client e req (text_of clientId) clientSecret (Some ''refresh_token''))
            (\<lambda>r. case r of
               Inl refusal \<Rightarrow> oa_return refusal
             | Inr c \<Rightarrow>
                 oa_bind (oa_read e (token_by_refresh (text_of (tb_refresh_token body)))) (\<lambda>found.
                 oa_bind oa_time (\<lambda>now.
                   case (refresh_refusal (text_of clientId) now found, found) of
                     (Some d, _) \<Rightarrow> oa_error 400 ''invalid_grant'' d
                   | (None, None) \<Rightarrow> oa_error 400 ''invalid_grant'' ''Invalid refresh token''
                   | (None, Some t) \<Rightarrow> renew_token e body t))))"

definition token_endpoint :: "oauth_env \<Rightarrow> oauth_request \<Rightarrow> token_body \<Rightarrow> oauth_reply oa" where
  "token_endpoint e req body =
     oa_catch
       (if \<not> is_given (tb_grant_type body) then oa_error 400 ''unsupported_grant_type'' ''grant_type is required''
        else if tb_grant_type body = Some ''authorization_code'' then handleAuthorizationCodeGrant e req body
        else if tb_grant_type body = Some ''refresh_token'' then handleRefreshTokenGrant e req body
        else oa_error 400 ''unsupported_grant_type'' ''Grant type is not supported'')
       (\<lambda>err. server_error)"

text \<open>Where authentication is optional: \<open>None\<close> when it is not asked for or succeeds.\<close>

definition optional_client ::
    "oauth_env \<Rightarrow> oauth_request \<Rightarrow> string option \<Rightarrow> string option \<Rightarrow> oauth_reply option oa" where
  "optional_client e req clientId clientSecret =
     (if \<not> is_given clientId then oa_return None
      else oa_bind (authenticate_client e req (text_of clientId) clientSecret None) (\<lambda>r.
        oa_return (case r of Inl refusal \<Rightarrow> Some refusal | Inr c \<Rightarrow> None)))"

definition introspect :: "oauth_env \<Rightarrow> oauth_request \<Rightarrow> token_body \<Rightarrow> oauth_reply oa" where
  "introspect e req body =
     (case credentials (oe_platform e) req body of
        (clientId, clientSecret) \<Rightarrow>
          if \<not> is_given (tb_token body) then oa_error 400 ''invalid_request'' ''token is required''
          else oa_catch
            (oa_bind (optional_client e req clientId clientSecret) (\<lambda>refusal.
               case refusal of
                 Some r \<Rightarrow> oa_return r
               | None \<Rightarrow>
                   if is_given (tb_token_type_hint body) \<and> tb_token_type_hint body \<noteq> Some ''access_token'' then oa_return Inactive
                   else oa_bind (oauth_validateToken e (text_of (tb_token body)) None) (\<lambda>validation.
                     case validation of
                       Inl err \<Rightarrow> oa_return Inactive
                     | Inr a \<Rightarrow>
                         if is_given clientId \<and> au_oauthClientId a \<noteq> clientId then oa_return Inactive
                         else oa_bind oa_time (\<lambda>now.
                           oa_return (case verifyAccessToken (oe_platform e) now (text_of (tb_token body)) of
                               None \<Rightarrow> Inactive
                             | Some payload \<Rightarrow> Active payload)))))
            (\<lambda>err. server_error))"

definition token_revoke :: "oauth_env \<Rightarrow> string \<Rightarrow> unit oa" where
  "token_revoke e tokenId =
     oa_query e (\<lambda>k now w.
       if tokenId \<notin> set (map ot_tokenId (ow_tokens w)) then (Inl ''Record to update not found'', w)
       else (Inr (), w\<lparr>ow_tokens := sql_update (\<lambda>t. ot_tokenId t = tokenId) (\<lambda>t. t\<lparr>ot_revoked := True\<rparr>) (ow_tokens w),
         ow_log := Revoked tokenId # ow_log w\<rparr>))"

definition revoke :: "oauth_env \<Rightarrow> oauth_request \<Rightarrow> token_body \<Rightarrow> oauth_reply oa" where
  "revoke e req body =
     (case credentials (oe_platform e) req body of
        (clientId, clientSecret) \<Rightarrow>
          (let hint = tb_token_type_hint body; token = text_of (tb_token body) in
           if \<not> is_given (tb_token body) then oa_error 400 ''invalid_request'' ''token is required''
           else oa_catch
             (oa_bind (optional_client e req clientId clientSecret) (\<lambda>refusal.
                case refusal of
                  Some r \<Rightarrow> oa_return r
                | None \<Rightarrow>
                    oa_bind (if hint = Some ''refresh_token'' \<or> \<not> is_given hint
                      then oa_read e (token_by_refresh token) else oa_return None) (\<lambda>first.
                    oa_bind (if first = None \<and> (hint = Some ''access_token'' \<or> \<not> is_given hint)
                      then oa_read e (token_by_access token) else oa_return first) (\<lambda>found.
                      case found of
                        None \<Rightarrow> oa_return DoneReply
                      | Some t \<Rightarrow>
                          if is_given clientId \<and> Some (ot_clientId t) \<noteq> clientId then oa_return DoneReply
                          else oa_bind (token_revoke e (ot_tokenId t)) (\<lambda>_. oa_return DoneReply)))))
             (\<lambda>err. server_error)))"

section \<open>Routes\<close>

text \<open>\<open>OAuthRouter.registerRoutes\<close>, without the metadata documents and the preflight requests, which have no state.\<close>

datatype oauth_call =
    PostRegister json
  | GetRegister string
  | GetAuthorize desk_params "string option" "string option"
  | PostAuthorize desk_params bool "string option"
  | GetDeskStatus string
  | PostDeskCallback string string
  | PostToken token_body
  | PostIntrospect token_body
  | PostRevoke token_body
  | AdminList
  | AdminGet string
  | AdminPut string json
  | AdminDelete string

fun oauth_serve :: "oauth_env \<Rightarrow> oauth_request \<Rightarrow> oauth_call \<Rightarrow> oauth_reply oa" where
  "oauth_serve e req (PostRegister body) = oauth_register e req body"
| "oauth_serve e req (GetRegister clientId) = getClientInfo e req clientId"
| "oauth_serve e req (GetAuthorize p response_type desk_flow_id) = showAuthorizePage e req p response_type desk_flow_id"
| "oauth_serve e req (PostAuthorize p approved user_token) = authorize e req p approved user_token"
| "oauth_serve e req (GetDeskStatus flowId) = deskAuthorizationStatus flowId"
| "oauth_serve e req (PostDeskCallback flowId user_token) = deskAuthorizationCallback e req flowId user_token"
| "oauth_serve e req (PostToken body) = token_endpoint e req body"
| "oauth_serve e req (PostIntrospect body) = introspect e req body"
| "oauth_serve e req (PostRevoke body) = revoke e req body"
| "oauth_serve e req AdminList = admin_listClients e"
| "oauth_serve e req (AdminGet clientId) = admin_getClient e clientId"
| "oauth_serve e req (AdminPut clientId body) = admin_updateClient e clientId body"
| "oauth_serve e req (AdminDelete clientId) = admin_deleteClient e clientId"

end
