(* ===== verification/OAuth_Steps.thy ===== *)
theory OAuth_Steps
  imports OAuth_Grants
begin

text \<open>
  The authorization server as a transition system: a step per statement on the tables, the log it
  leaves, and the invariant of the reachable states, by rule induction over the steps.
\<close>

section \<open>Steps\<close>

text \<open>A redirection that stays on TLS or on the machine of the user.\<close>

definition redirect_safe :: "oauth_platform \<Rightarrow> string \<Rightarrow> bool" where
  "redirect_safe pf uri =
     (case op_url pf uri of
        None \<Rightarrow> False
      | Some u \<Rightarrow> u_protocol u = ''https:'' \<or> js_toLowerCase (u_hostname u) \<in> {''localhost'', ''127.0.0.1'', ''[::1]''})"

definition client_ok :: "oauth_platform \<Rightarrow> oauth_client \<Rightarrow> bool" where
  "client_ok pf c \<longleftrightarrow> oc_redirectUris c \<noteq> [] \<and> list_all (redirect_safe pf) (oc_redirectUris c) \<and>
     set (oc_grantTypes c) \<subseteq> set SUPPORTED_GRANTS \<and> set (oc_responseTypes c) \<subseteq> {''code''} \<and>
     oc_tokenEndpointAuthMethod c \<in> {''none'', ''client_secret_basic'', ''client_secret_post''} \<and>
     (oc_tokenEndpointAuthMethod c = ''none'' \<longleftrightarrow> oc_clientSecret c = None)"

definition code_ok :: "oauth_platform \<Rightarrow> auth_code \<Rightarrow> bool" where
  "code_ok pf c \<longleftrightarrow> redirect_safe pf (co_redirectUri c) \<and> is_given (co_codeChallenge c) \<and>
     co_challengeMethod c = Some ''S256'' \<and> \<not> co_used c"

text \<open>A token record that grants no more than the code it came from, with its access token.\<close>

definition token_for :: "oauth_platform \<Rightarrow> auth_code \<Rightarrow> oauth_token \<Rightarrow> bool" where
  "token_for pf c t \<longleftrightarrow> ot_clientId t = co_clientId c \<and> ot_userId t = co_userId c \<and> ot_resource t = co_resource c \<and>
     set (ot_scopes t) \<subseteq> set (co_scopes c) \<and>
     (\<exists>now. ot_accessTokenExpiresAt t = now + ACCESS_TOKEN_LIFETIME * 1000 \<and>
        ot_accessToken t = op_sign pf (op_jwtSecret pf)
          (access_payload (ot_clientId t) (ot_userId t) (ot_scopes t) (ot_resource t) now))"

definition token_source :: "oauth_platform \<Rightarrow> oauth_world \<Rightarrow> oauth_token \<Rightarrow> bool" where
  "token_source pf w t \<longleftrightarrow> (\<exists>c. Authorized c \<in> set (ow_log w) \<and> Issued (ot_tokenId t) (co_code c) \<in> set (ow_log w) \<and> token_for pf c t)"

text \<open>
  A session acts for the user of its context. One that was opened with an access token belongs to the user
  of the record behind the token; an anonymous one has the role of a guest.
\<close>

definition session_ok :: "oauth_platform \<Rightarrow> oauth_world \<Rightarrow> client_session \<Rightarrow> bool" where
  "session_ok pf w s \<longleftrightarrow> au_userId (cs_auth s) = cs_userId s \<and>
     (if au_anonymous (cs_auth s) then au_role (cs_auth s) = 4
      else isJwtFormat (cs_token s) \<longrightarrow>
        (\<exists>t. token_source pf w t \<and> ot_accessToken t = cs_token s \<and> ot_userId t = cs_userId s))"

text \<open>What the log says of codes and records.\<close>

fun authorized :: "oauth_event list \<Rightarrow> string list" where
  "authorized [] = []"
| "authorized (Authorized c # es) = co_code c # authorized es"
| "authorized (_ # es) = authorized es"

fun redeemed :: "oauth_event list \<Rightarrow> string list" where
  "redeemed [] = []"
| "redeemed (Redeemed code i # es) = code # redeemed es"
| "redeemed (_ # es) = redeemed es"

fun issued :: "oauth_event list \<Rightarrow> (string \<times> string) list" where
  "issued [] = []"
| "issued (Issued i code # es) = (i, code) # issued es"
| "issued (_ # es) = issued es"

lemma log_members:
  "code \<in> set (authorized es) \<longleftrightarrow> (\<exists>c. Authorized c \<in> set es \<and> co_code c = code)"
  "code \<in> set (redeemed es) \<longleftrightarrow> (\<exists>i. Redeemed code i \<in> set es)"
  "(t, code) \<in> set (issued es) \<longleftrightarrow> Issued t code \<in> set es"
  by (induction es rule: authorized.induct; auto)+

lemma log_map_redeemed [simp]:
  "authorized (map (\<lambda>c. Redeemed (f c) i) cs @ es) = authorized es"
  "issued (map (\<lambda>c. Redeemed (f c) i) cs @ es) = issued es"
  "redeemed (map (\<lambda>c. Redeemed (f c) i) cs @ es) = map f cs @ redeemed es"
  by (induction cs) auto

text \<open>
  One step per statement. A handler is named by a number; the names in \<open>S\<close> are those of the handlers
  that may redeem codes and make records in the step. A record is made by the handler that redeemed
  the code.
\<close>

definition code_hit :: "string \<Rightarrow> int \<Rightarrow> auth_code \<Rightarrow> bool" where
  "code_hit code date c \<longleftrightarrow> co_code c = code \<and> \<not> co_used c \<and> date \<le> co_expiresAt c"

definition renewed :: "string \<Rightarrow> int \<Rightarrow> string list \<Rightarrow> oauth_token \<Rightarrow> oauth_token" where
  "renewed accessToken expiresAt scopes t =
     t\<lparr>ot_accessToken := accessToken, ot_accessTokenExpiresAt := expiresAt, ot_scopes := scopes\<rparr>"

inductive oauth_step :: "oauth_platform \<Rightarrow> nat set \<Rightarrow> oauth_world \<Rightarrow> oauth_world \<Rightarrow> bool" for pf S where
  st_users: "oauth_step pf S w (w\<lparr>ow_users := us\<rparr>)"
| st_flows: "oauth_step pf S w (w\<lparr>ow_flows := fs\<rparr>)"
| st_store: "store_extends (ow_store w) ss \<Longrightarrow> store_refs ss \<Longrightarrow> (\<And>s. s \<in> set (ss_heap ss) \<Longrightarrow> session_ok pf w s) \<Longrightarrow>
    oauth_step pf S w (w\<lparr>ow_store := ss\<rparr>)"
| st_register: "client_ok pf c \<Longrightarrow> oc_clientId c \<notin> set (map oc_clientId (ow_clients w)) \<Longrightarrow>
    oauth_step pf S w (w\<lparr>ow_clients := ow_clients w @ [c]\<rparr>)"
| st_change: "(\<And>c. client_ok pf c \<Longrightarrow> client_ok pf (f c)) \<Longrightarrow> (\<And>c. oc_clientId (f c) = oc_clientId c) \<Longrightarrow>
    oauth_step pf S w (w\<lparr>ow_clients := sql_update (\<lambda>c. oc_clientId c = i) f (ow_clients w)\<rparr>)"
| st_unregister: "oauth_step pf S w (w\<lparr>ow_codes := filter (\<lambda>c. co_clientId c \<noteq> i) (ow_codes w),
    ow_tokens := filter (\<lambda>t. ot_clientId t \<noteq> i) (ow_tokens w),
    ow_clients := filter (\<lambda>c. oc_clientId c \<noteq> i) (ow_clients w)\<rparr>)"
| st_authorize: "code_ok pf c \<Longrightarrow> co_code c \<notin> set (authorized (ow_log w)) \<Longrightarrow>
    oauth_step pf S w (w\<lparr>ow_codes := ow_codes w @ [c], ow_log := Authorized c # ow_log w\<rparr>)"
| st_redeem: "i \<in> S \<Longrightarrow>
    oauth_step pf S w (w\<lparr>ow_codes := sql_update (code_hit code date) (\<lambda>c. c\<lparr>co_used := True\<rparr>) (ow_codes w),
      ow_log := map (\<lambda>c. Redeemed (co_code c) i) (filter (code_hit code date) (ow_codes w)) @ ow_log w\<rparr>)"
| st_issue: "i \<in> S \<Longrightarrow> Redeemed (co_code c) i \<in> set (ow_log w) \<Longrightarrow> Authorized c \<in> set (ow_log w) \<Longrightarrow>
    co_code c \<notin> snd ` set (issued (ow_log w)) \<Longrightarrow> token_for pf c t \<Longrightarrow> \<not> ot_revoked t \<Longrightarrow>
    ot_tokenId t \<notin> fst ` set (issued (ow_log w)) \<Longrightarrow> ot_accessToken t \<notin> set (map ot_accessToken (ow_tokens w)) \<Longrightarrow>
    oauth_step pf S w (w\<lparr>ow_tokens := ow_tokens w @ [t], ow_log := Issued (ot_tokenId t) (co_code c) # ow_log w\<rparr>)"
| st_renew: "(\<And>t. t \<in> set (ow_tokens w) \<Longrightarrow> ot_tokenId t = i \<Longrightarrow>
      \<exists>c. Authorized c \<in> set (ow_log w) \<and> Issued i (co_code c) \<in> set (ow_log w) \<and> token_for pf c (renewed a d ss t)) \<Longrightarrow>
    (\<And>t. t \<in> set (ow_tokens w) \<Longrightarrow> ot_tokenId t \<noteq> i \<Longrightarrow> ot_accessToken t \<noteq> a) \<Longrightarrow>
    oauth_step pf S w (w\<lparr>ow_tokens := sql_update (\<lambda>t. ot_tokenId t = i) (renewed a d ss) (ow_tokens w)\<rparr>)"
| st_revoke: "i \<in> set (map ot_tokenId (ow_tokens w)) \<Longrightarrow> oauth_step pf S w (w\<lparr>ow_tokens := sql_update (\<lambda>t. ot_tokenId t = i) (\<lambda>t. t\<lparr>ot_revoked := True\<rparr>) (ow_tokens w),
      ow_log := Revoked i # ow_log w\<rparr>)"

text \<open>The states of a server that started without clients, codes and tokens.\<close>

definition oauth_reach :: "oauth_platform \<Rightarrow> oauth_world \<Rightarrow> bool" where
  "oauth_reach pf w \<longleftrightarrow> (\<exists>us fs. (oauth_step pf UNIV)\<^sup>*\<^sup>*
     \<lparr>ow_users = us, ow_clients = [], ow_codes = [], ow_tokens = [], ow_flows = fs, ow_store = empty_store, ow_log = []\<rparr> w)"

lemma step_mono:
  assumes "S \<subseteq> T" "oauth_step pf S w w'"
  shows "oauth_step pf T w w'"
  using assms(2)
proof (induction rule: oauth_step.induct)
  case (st_renew w i a d ss)
  then show ?case by (rule oauth_step.st_renew)
qed (use assms(1) in \<open>auto intro: oauth_step.intros\<close>)

lemma steps_mono: "S \<subseteq> T \<Longrightarrow> (oauth_step pf S)\<^sup>*\<^sup>* w w' \<Longrightarrow> (oauth_step pf T)\<^sup>*\<^sup>* w w'"
  by (erule rtranclp_mono[THEN predicate2D, rotated]) (auto intro: step_mono)

lemma reach_steps: "oauth_reach pf w \<Longrightarrow> (oauth_step pf S)\<^sup>*\<^sup>* w w' \<Longrightarrow> oauth_reach pf w'"
  unfolding oauth_reach_def using steps_mono[of S UNIV] by (meson rtranclp_trans top_greatest)

section \<open>The invariant\<close>

definition clients_inv :: "oauth_platform \<Rightarrow> oauth_world \<Rightarrow> bool" where
  "clients_inv pf w \<longleftrightarrow> distinct (map oc_clientId (ow_clients w)) \<and> (\<forall>c\<in>set (ow_clients w). client_ok pf c)"

definition log_inv :: "oauth_platform \<Rightarrow> oauth_event list \<Rightarrow> bool" where
  "log_inv pf es \<longleftrightarrow> distinct (authorized es) \<and> (\<forall>c. Authorized c \<in> set es \<longrightarrow> code_ok pf c) \<and>
     distinct (redeemed es) \<and> set (redeemed es) \<subseteq> set (authorized es) \<and>
     distinct (map fst (issued es)) \<and> distinct (map snd (issued es)) \<and> snd ` set (issued es) \<subseteq> set (redeemed es) \<and>
     (\<forall>i. Revoked i \<in> set es \<longrightarrow> i \<in> fst ` set (issued es))"

definition codes_inv :: "oauth_world \<Rightarrow> bool" where
  "codes_inv w \<longleftrightarrow> distinct (map co_code (ow_codes w)) \<and>
     (\<forall>c\<in>set (ow_codes w). Authorized (c\<lparr>co_used := False\<rparr>) \<in> set (ow_log w) \<and>
        (co_used c \<longleftrightarrow> co_code c \<in> set (redeemed (ow_log w))))"

definition tokens_inv :: "oauth_platform \<Rightarrow> oauth_world \<Rightarrow> bool" where
  "tokens_inv pf w \<longleftrightarrow> distinct (map ot_tokenId (ow_tokens w)) \<and> distinct (map ot_accessToken (ow_tokens w)) \<and>
     (\<forall>t\<in>set (ow_tokens w). (\<exists>c. Authorized c \<in> set (ow_log w) \<and> Issued (ot_tokenId t) (co_code c) \<in> set (ow_log w) \<and>
        token_for pf c t) \<and> (Revoked (ot_tokenId t) \<in> set (ow_log w) \<longrightarrow> ot_revoked t))"

definition sessions_inv :: "oauth_platform \<Rightarrow> oauth_world \<Rightarrow> bool" where
  "sessions_inv pf w \<longleftrightarrow> store_refs (ow_store w) \<and> (\<forall>s\<in>set (ss_heap (ow_store w)). session_ok pf w s)"

definition oauth_inv :: "oauth_platform \<Rightarrow> oauth_world \<Rightarrow> bool" where
  "oauth_inv pf w \<longleftrightarrow> clients_inv pf w \<and> log_inv pf (ow_log w) \<and> codes_inv w \<and> tokens_inv pf w \<and> sessions_inv pf w"

lemma token_for_revoked [simp]: "token_for pf c (t\<lparr>ot_revoked := b\<rparr>) = token_for pf c t"
  by (simp add: token_for_def)

lemma distinct_map_filter_subset: "distinct (map f xs) \<Longrightarrow> distinct (map f (filter P xs))"
  by (induction xs) auto

lemma step_clients: "oauth_step pf S w w' \<Longrightarrow> clients_inv pf w \<Longrightarrow> clients_inv pf w'"
  by (induction rule: oauth_step.induct)
    (auto simp: clients_inv_def set_sql_update map_sql_update distinct_map_filter_subset)

text \<open>A statement redeems at most one code, one that was not redeemed before.\<close>

lemma hits_unredeemed:
  assumes "codes_inv w"
  shows "distinct (map co_code (filter (code_hit code date) (ow_codes w)) @ redeemed (ow_log w)) =
      distinct (redeemed (ow_log w))"
    and "set (map co_code (filter (code_hit code date) (ow_codes w))) \<subseteq> set (authorized (ow_log w))"
proof -
  let ?hits = "filter (code_hit code date) (ow_codes w)"
  have "distinct (map co_code ?hits)" using assms by (simp add: codes_inv_def distinct_map_filter_subset)
  moreover have "set (map co_code ?hits) \<inter> set (redeemed (ow_log w)) = {}"
    using assms by (auto simp: codes_inv_def code_hit_def)
  ultimately show "distinct (map co_code ?hits @ redeemed (ow_log w)) = distinct (redeemed (ow_log w))" by auto
  show "set (map co_code ?hits) \<subseteq> set (authorized (ow_log w))"
  proof
    fix x assume "x \<in> set (map co_code ?hits)"
    then obtain c where "c \<in> set (ow_codes w)" "x = co_code c" by auto
    then have "Authorized (c\<lparr>co_used := False\<rparr>) \<in> set (ow_log w)" "co_code (c\<lparr>co_used := False\<rparr>) = x"
      using assms by (auto simp: codes_inv_def)
    then show "x \<in> set (authorized (ow_log w))" using log_members(1) by blast
  qed
qed

lemma step_log: "oauth_step pf S w w' \<Longrightarrow> codes_inv w \<Longrightarrow> tokens_inv pf w \<Longrightarrow> log_inv pf (ow_log w) \<Longrightarrow> log_inv pf (ow_log w')"
proof (induction rule: oauth_step.induct)
  case (st_redeem i w code date)
  have auth: "Authorized c \<in> set (map (\<lambda>c. Redeemed (co_code c) i) cs @ ow_log w) \<longleftrightarrow> Authorized c \<in> set (ow_log w)" for c cs
    by auto
  show ?case
    using st_redeem(4) hits_unredeemed[OF st_redeem(2), of code date]
    unfolding log_inv_def by (simp only: oauth_world.simps log_map_redeemed auth set_append) auto
next
  case (st_issue i c w t)
  then have "co_code c \<in> set (redeemed (ow_log w))" using log_members(2) by blast
  with st_issue show ?case by (auto simp: log_inv_def)
next
  case (st_revoke i w)
  then have "i \<in> fst ` set (issued (ow_log w))" using log_members(3) by (force simp: tokens_inv_def)
  with st_revoke show ?case by (auto simp: log_inv_def)
qed (auto simp: log_inv_def)

lemma step_codes: "oauth_step pf S w w' \<Longrightarrow> log_inv pf (ow_log w) \<Longrightarrow> codes_inv w \<Longrightarrow> codes_inv w'"
proof (induction rule: oauth_step.induct)
  case (st_authorize c w)
  have "co_code c \<notin> set (map co_code (ow_codes w))"
  proof
    assume "co_code c \<in> set (map co_code (ow_codes w))"
    then obtain d where "d \<in> set (ow_codes w)" "co_code c = co_code d" by auto
    then have "co_code c \<in> set (authorized (ow_log w))"
      using st_authorize(4) log_members(1) by (fastforce simp: codes_inv_def)
    with st_authorize(2) show False by simp
  qed
  moreover have "co_code c \<notin> set (redeemed (ow_log w))" using st_authorize(2,3) by (auto simp: log_inv_def)
  moreover have "c\<lparr>co_used := False\<rparr> = c" "\<not> co_used c" using st_authorize(1) by (simp_all add: code_ok_def)
  ultimately show ?case using st_authorize(4) by (auto simp: codes_inv_def)
next
  case (st_redeem i w code date)
  let ?P = "code_hit code date"
  have same: "map co_code (sql_update ?P (\<lambda>c. c\<lparr>co_used := True\<rparr>) (ow_codes w)) = map co_code (ow_codes w)"
    by (simp add: map_sql_update)
  have hit: "co_code c \<in> co_code ` set (filter ?P (ow_codes w)) \<longleftrightarrow> ?P c" if "c \<in> set (ow_codes w)" for c
    using st_redeem(3) that by (auto simp: codes_inv_def distinct_map dest: inj_onD)
  have "Authorized (d\<lparr>co_used := False\<rparr>) \<in> set (ow_log w) \<and>
      (co_used d \<longleftrightarrow> co_code d \<in> co_code ` set (filter ?P (ow_codes w)) \<or> co_code d \<in> set (redeemed (ow_log w)))"
    if d: "d \<in> set (sql_update ?P (\<lambda>c. c\<lparr>co_used := True\<rparr>) (ow_codes w))" for d
  proof -
    from d obtain c where c: "c \<in> set (ow_codes w)" "d = (if ?P c then c\<lparr>co_used := True\<rparr> else c)"
      by (auto simp: set_sql_update)
    have "d\<lparr>co_used := False\<rparr> = c\<lparr>co_used := False\<rparr>" "co_code d = co_code c" using c(2) by auto
    with c hit[OF c(1)] st_redeem(3) show ?thesis by (auto simp: codes_inv_def)
  qed
  then show ?case using st_redeem(3) same unfolding codes_inv_def by (simp add: image_Un)
next
  case (st_unregister w i)
  then show ?case by (auto simp: codes_inv_def distinct_map_filter_subset)
qed (auto simp: codes_inv_def)

lemma step_tokens: "oauth_step pf S w w' \<Longrightarrow> log_inv pf (ow_log w) \<Longrightarrow> tokens_inv pf w \<Longrightarrow> tokens_inv pf w'"
proof (induction rule: oauth_step.induct)
  case (st_issue i c w t)
  have "ot_tokenId t \<notin> set (map ot_tokenId (ow_tokens w))"
    using st_issue(7,10) log_members(3) by (force simp: tokens_inv_def)
  moreover have "Revoked (ot_tokenId t) \<notin> set (ow_log w)" using st_issue(7,9) by (auto simp: log_inv_def)
  ultimately show ?case using st_issue by (auto simp: tokens_inv_def)
next
  case (st_renew w i a d ss)
  have ids: "ot_tokenId (renewed a d ss t) = ot_tokenId t" "ot_revoked (renewed a d ss t) = ot_revoked t"
    "ot_accessToken (renewed a d ss t) = a" for t
    by (simp_all add: renewed_def)
  have "distinct (map ot_accessToken (sql_update (\<lambda>t. ot_tokenId t = i) (renewed a d ss) (ow_tokens w)))"
    using st_renew(2,4) by (auto simp: tokens_inv_def sql_update_def distinct_map inj_on_def ids)
  with st_renew(1,4) show ?case
    by (fastforce simp: tokens_inv_def set_sql_update map_sql_update ids)
next
  case (st_unregister w i)
  then show ?case by (auto simp: tokens_inv_def distinct_map_filter_subset)
next
  case (st_revoke i w)
  then show ?case by (fastforce simp: tokens_inv_def set_sql_update map_sql_update)
qed (auto simp: tokens_inv_def)

text \<open>The log only grows.\<close>

lemma step_log_grows: "oauth_step pf S w w' \<Longrightarrow> \<exists>es. ow_log w' = es @ ow_log w"
  by (induction rule: oauth_step.induct) auto

lemma source_mono: "set (ow_log w) \<subseteq> set (ow_log w') \<Longrightarrow> token_source pf w t \<Longrightarrow> token_source pf w' t"
  unfolding token_source_def by blast

lemma session_mono: "set (ow_log w) \<subseteq> set (ow_log w') \<Longrightarrow> session_ok pf w s \<Longrightarrow> session_ok pf w' s"
  unfolding session_ok_def using source_mono[of w w' pf] by (auto split: if_splits)

lemma step_sessions: "oauth_step pf S w w' \<Longrightarrow> sessions_inv pf w \<Longrightarrow> sessions_inv pf w'"
proof -
  assume step: "oauth_step pf S w w'" and inv: "sessions_inv pf w"
  have log: "set (ow_log w) \<subseteq> set (ow_log w')" using step_log_grows[OF step] by auto
  have "session_ok pf w s" if "s \<in> set (ss_heap (ow_store w'))" for s
    using step that inv by (cases rule: oauth_step.cases) (auto simp: sessions_inv_def)
  moreover have "store_refs (ow_store w')"
    using step inv by (cases rule: oauth_step.cases) (auto simp: sessions_inv_def)
  ultimately show "sessions_inv pf w'" unfolding sessions_inv_def using log session_mono by blast
qed

lemma step_inv: "oauth_step pf S w w' \<Longrightarrow> oauth_inv pf w \<Longrightarrow> oauth_inv pf w'"
  unfolding oauth_inv_def using step_clients step_log step_codes step_tokens step_sessions by blast

lemma reach_inv: "oauth_reach pf w \<Longrightarrow> oauth_inv pf w"
proof -
  have start: "oauth_inv pf \<lparr>ow_users = us, ow_clients = [], ow_codes = [], ow_tokens = [], ow_flows = fs, ow_store = empty_store, ow_log = []\<rparr>" for us fs
    by (simp add: oauth_inv_def clients_inv_def log_inv_def codes_inv_def tokens_inv_def sessions_inv_def empty_store_def store_refs_def)
  have "(oauth_step pf UNIV)\<^sup>*\<^sup>* w0 w \<Longrightarrow> oauth_inv pf w0 \<Longrightarrow> oauth_inv pf w" for w0
    by (induction rule: rtranclp_induct) (auto intro: step_inv)
  then show "oauth_reach pf w \<Longrightarrow> oauth_inv pf w" unfolding oauth_reach_def using start by blast
qed

lemma steps_log_grows: "(oauth_step pf S)\<^sup>*\<^sup>* w w' \<Longrightarrow> \<exists>es. ow_log w' = es @ ow_log w"
proof (induction rule: rtranclp_induct)
  case (step w1 w2)
  then show ?case using step_log_grows[OF step(2)] by (metis append_assoc)
qed simp

lemma steps_log_subset: "(oauth_step pf S)\<^sup>*\<^sup>* w w' \<Longrightarrow> set (ow_log w) \<subseteq> set (ow_log w')"
  using steps_log_grows by fastforce

end
