(* ===== verification/OAuth_Handlers.thy ===== *)
theory OAuth_Handlers
  imports OAuth_Steps
begin

text \<open>
  The handlers of the endpoints make only the steps of \<^const>\<open>oauth_step\<close>, whatever the handlers of
  other requests do in between. The rules for \<open>keeps\<close> carry the handlers that redeem no code; the
  exchange of a code is followed with the triples.
\<close>

section \<open>What the handlers do\<close>

text \<open>
  What is assumed of the environment of a handler: the others make steps and redeem codes under other
  names, and random codes and record identifiers were not used before.
\<close>

definition oauth_fair :: "oauth_env \<Rightarrow> bool" where
  "oauth_fair e \<longleftrightarrow>
     (\<forall>k w. (oauth_step (oe_platform e) (- {oe_self e}))\<^sup>*\<^sup>* w (oe_others e k w)) \<and>
     (\<forall>k w. oe_random e k ''code'' w \<notin> set (authorized (ow_log (oe_others e k w)))) \<and>
     (\<forall>k w. oe_random e k ''token_id'' w \<notin> fst ` set (issued (ow_log w)))"

definition others_steps :: "oauth_env \<Rightarrow> oauth_world \<Rightarrow> oauth_world \<Rightarrow> bool" where
  "others_steps e w w' \<longleftrightarrow> (oauth_fair e \<longrightarrow> (oauth_step (oe_platform e) (- {oe_self e}))\<^sup>*\<^sup>* w w')"

definition all_steps :: "oauth_env \<Rightarrow> oauth_world \<Rightarrow> oauth_world \<Rightarrow> bool" where
  "all_steps e w w' \<longleftrightarrow> (oauth_fair e \<longrightarrow> (oauth_step (oe_platform e) UNIV)\<^sup>*\<^sup>* w w')"

interpretation oq: oauth_quiet e "others_steps e" for e
  by unfold_locales (auto simp: others_steps_def oauth_fair_def intro: rtranclp_trans)

interpretation oall: oauth_triples e "others_steps e" "all_steps e" for e
  by unfold_locales
    (auto simp: others_steps_def all_steps_def oauth_fair_def intro: rtranclp_trans steps_mono[of _ UNIV])

lemma quiet_all: "oq.ensures e P m Q \<Longrightarrow> oall.ensures e P m Q"
  unfolding oq.ensures_def oall.ensures_def oq.later_def oall.later_def using oall.others_keep by blast

lemma others_stepI: "oauth_step (oe_platform e) (- {oe_self e}) w w' \<Longrightarrow> others_steps e w w'"
  by (simp add: others_steps_def r_into_rtranclp)

text \<open>A condition on the world lasts if steps of others keep it, where the invariant holds.\<close>

definition world_inv :: "oauth_env \<Rightarrow> oauth_state \<Rightarrow> bool" where
  "world_inv e st \<longleftrightarrow> oauth_inv (oe_platform e) (os_world st)"

lemma lasting_steps:
  assumes "oauth_fair e"
    and "\<And>w w'. oauth_step (oe_platform e) (- {oe_self e}) w w' \<Longrightarrow> oauth_inv (oe_platform e) w \<Longrightarrow> P w \<Longrightarrow> P w'"
  shows "oq.lasting e (\<lambda>st. world_inv e st \<and> P (os_world st))"
  unfolding oq.lasting_def
proof (intro allI impI)
  fix st st' :: oauth_state
  assume start: "world_inv e st \<and> P (os_world st)" and steps: "others_steps e (os_world st) (os_world st')"
  from steps have "(oauth_step (oe_platform e) (- {oe_self e}))\<^sup>*\<^sup>* (os_world st) (os_world st')"
    using assms(1) by (simp add: others_steps_def)
  then show "world_inv e st' \<and> P (os_world st')"
    unfolding world_inv_def
    by (induction rule: rtranclp_induct) (use start assms(2) step_inv in \<open>auto simp: world_inv_def\<close>)
qed

lemma lasting_inv: "oauth_fair e \<Longrightarrow> oq.lasting e (world_inv e)"
  using lasting_steps[of e "\<lambda>_. True"] by simp

lemma lasting_log:
  assumes "oauth_fair e"
  shows "oq.lasting e (\<lambda>st. world_inv e st \<and> A \<subseteq> set (ow_log (os_world st)))"
proof (rule lasting_steps[OF assms])
  fix w w'
  assume "oauth_step (oe_platform e) (- {oe_self e}) w w'" "A \<subseteq> set (ow_log w)"
  then show "A \<subseteq> set (ow_log w')" using step_log_grows by fastforce
qed

subsection \<open>Composition\<close>

text \<open>
  A computation that keeps the invariant, does no more than others may do, and returns only values with
  \<open>B\<close>.
\<close>

definition keeps :: "oauth_env \<Rightarrow> 'a oa \<Rightarrow> ('a \<Rightarrow> bool) \<Rightarrow> bool" where
  "keeps e m B \<longleftrightarrow> (oauth_fair e \<longrightarrow> oq.ensures e (world_inv e) m (\<lambda>x st. world_inv e st \<and> B x))"

lemma lasting_inv_pure: "oauth_fair e \<Longrightarrow> oq.lasting e (\<lambda>st. world_inv e st \<and> b)"
  using lasting_steps[of e "\<lambda>_. b"] by simp

lemma keeps_return: "B x \<Longrightarrow> keeps e (oa_return x) B"
  by (simp add: keeps_def oq.ensures_return)

lemma keeps_throw: "keeps e (oa_throw err) B"
  by (simp add: keeps_def oq.ensures_throw)

lemma keeps_bind: "keeps e m A \<Longrightarrow> (\<And>x. A x \<Longrightarrow> keeps e (f x) B) \<Longrightarrow> keeps e (oa_bind m f) B"
  unfolding keeps_def
proof
  assume given: "oauth_fair e \<longrightarrow> oq.ensures e (world_inv e) m (\<lambda>x st. world_inv e st \<and> A x)"
    "\<And>x. A x \<Longrightarrow> oauth_fair e \<longrightarrow> oq.ensures e (world_inv e) (f x) (\<lambda>x st. world_inv e st \<and> B x)" "oauth_fair e"
  show "oq.ensures e (world_inv e) (oa_bind m f) (\<lambda>x st. world_inv e st \<and> B x)"
  proof (rule oq.ensures_bind)
    show "oq.ensures e (world_inv e) m (\<lambda>x st. world_inv e st \<and> A x)" using given by blast
    show "oq.ensures e (\<lambda>st. world_inv e st \<and> A x) (f x) (\<lambda>x st. world_inv e st \<and> B x)" for x
      using given(2)[of x] given(3) unfolding oq.ensures_def by blast
  qed
qed

lemma keeps_catch:
  assumes "keeps e m B" "\<And>err. keeps e (h err) B"
  shows "keeps e (oa_catch m h) B"
  unfolding keeps_def oq.ensures_def
proof (intro allI impI)
  fix st x st'
  assume fair: "oauth_fair e" and inv: "world_inv e st" and run: "oa_catch m h st = (x, st')"
  obtain r st1 where m: "m st = (r, st1)" by fastforce
  note first = assms(1)[unfolded keeps_def oq.ensures_def, rule_format, OF fair inv m]
  show "oq.later e st st' \<and> (\<forall>y. x = Inr y \<longrightarrow> world_inv e st' \<and> B y)"
  proof (cases r)
    case (Inl err)
    then have h: "h err st1 = (x, st')" using run m by (simp add: oa_catch_def)
    have "world_inv e st1" using lasting_inv[OF fair] inv first unfolding oq.lasting_def oq.later_def by blast
    from assms(2)[unfolded keeps_def oq.ensures_def, rule_format, OF fair this h]
    show ?thesis using first oq.later_trans by blast
  next
    case (Inr y)
    with run m first show ?thesis by (auto simp: oa_catch_def)
  qed
qed

lemma keeps_lift: "(\<And>x. r = Inr x \<Longrightarrow> B x) \<Longrightarrow> keeps e (oa_lift r) B"
  by (simp add: keeps_def oq.ensures_lift)

lemma keeps_some: "(\<And>x. v = Some x \<Longrightarrow> B x) \<Longrightarrow> keeps e (oa_some err v) B"
  by (simp add: keeps_def oq.ensures_some)

lemma keeps_query:
  assumes "\<And>k now w r w'. oauth_inv (oe_platform e) w \<Longrightarrow> operation k now w = (r, w') \<Longrightarrow>
    others_steps e w w' \<and> (\<forall>x. r = Inr x \<longrightarrow> B x)"
  shows "keeps e (oa_query e operation) B"
  unfolding keeps_def
proof
  assume fair: "oauth_fair e"
  show "oq.ensures e (world_inv e) (oa_query e operation) (\<lambda>x st. world_inv e st \<and> B x)"
  proof (rule oq.ensures_query[OF lasting_inv[OF fair] lasting_inv_pure[OF fair]])
    fix st r w
    assume inv: "world_inv e st" and run: "operation (os_tick st) (os_now st) (os_world st) = (r, w)"
    from assms[OF inv[unfolded world_inv_def] run]
    have "others_steps e (os_world st) w" "\<forall>x. r = Inr x \<longrightarrow> B x" by auto
    moreover from this(1) have "world_inv e (st\<lparr>os_world := w\<rparr>)"
      using lasting_inv[OF fair] inv unfolding oq.lasting_def by (metis oauth_state.select_convs(1,3) oauth_state.surjective oauth_state.update_convs(1) order_refl)
    ultimately show "others_steps e (os_world st) w \<and> (\<forall>y. r = Inr y \<longrightarrow> world_inv e (st\<lparr>os_world := w\<rparr>) \<and> B y)" by blast
  qed
qed

lemma keeps_read: "(\<And>w. oauth_inv (oe_platform e) w \<Longrightarrow> B (f w)) \<Longrightarrow> keeps e (oa_read e f) B"
  unfolding oa_read_def by (rule keeps_query) (auto simp: oq.keep_refl)

lemma keeps_ask: "(\<And>k. B (f k)) \<Longrightarrow> keeps e (oa_ask e f) B"
  by (simp add: keeps_def oq.ensures_ask lasting_inv_pure)

lemma keeps_time: "keeps e oa_time (\<lambda>_. True)"
  by (simp add: keeps_def oq.ensures_time)

lemma keeps_random: "keeps e (oa_random e p) (\<lambda>_. True)"
  by (simp add: keeps_def oq.ensures_random)

lemma keeps_flows:
  assumes "\<And>now w. \<exists>fs. snd (f now w) = w\<lparr>ow_flows := fs\<rparr>"
  shows "keeps e (oa_act f) (\<lambda>_. True)"
  unfolding keeps_def
proof
  assume fair: "oauth_fair e"
  show "oq.ensures e (world_inv e) (oa_act f) (\<lambda>x st. world_inv e st \<and> True)"
  proof (rule oq.ensures_act)
    fix st x w
    assume inv: "world_inv e st" and run: "f (os_now st) (os_world st) = (x, w)"
    obtain fs where "w = (os_world st)\<lparr>ow_flows := fs\<rparr>" using assms[of "os_now st" "os_world st"] run by auto
    then have "oauth_step (oe_platform e) (- {oe_self e}) (os_world st) w" using st_flows by simp
    with inv show "others_steps e (os_world st) w \<and> world_inv e (st\<lparr>os_world := w\<rparr>) \<and> True"
      using others_stepI step_inv[of "oe_platform e" "- {oe_self e}"] by (auto simp: world_inv_def)
  qed
qed

lemma keeps_weaken: "keeps e m A \<Longrightarrow> (\<And>x. A x \<Longrightarrow> B x) \<Longrightarrow> keeps e m B"
  unfolding keeps_def oq.ensures_def by blast

lemma keeps_any: "keeps e m A \<Longrightarrow> keeps e m (\<lambda>_. True)"
  by (erule keeps_weaken) simp

lemma keeps_then: "keeps e m (\<lambda>_. True) \<Longrightarrow> (\<And>x. keeps e (f x) B) \<Longrightarrow> keeps e (oa_bind m f) B"
  by (rule keeps_bind)

lemma keeps_if: "(b \<Longrightarrow> keeps e m B) \<Longrightarrow> (\<not> b \<Longrightarrow> keeps e n B) \<Longrightarrow> keeps e (if b then m else n) B"
  by simp

lemma keeps_option:
  "(v = None \<Longrightarrow> keeps e m B) \<Longrightarrow> (\<And>x. v = Some x \<Longrightarrow> keeps e (f x) B) \<Longrightarrow>
   keeps e (case v of None \<Rightarrow> m | Some x \<Rightarrow> f x) B"
  by (cases v) auto

lemma keeps_sum:
  "(\<And>x. v = Inl x \<Longrightarrow> keeps e (f x) B) \<Longrightarrow> (\<And>x. v = Inr x \<Longrightarrow> keeps e (g x) B) \<Longrightarrow>
   keeps e (case v of Inl x \<Rightarrow> f x | Inr x \<Rightarrow> g x) B"
  by (cases v) auto

lemma keeps_prod: "(\<And>x y. v = (x, y) \<Longrightarrow> keeps e (f x y) B) \<Longrightarrow> keeps e (case v of (x, y) \<Rightarrow> f x y) B"
  by (cases v) auto

lemma keeps_let: "keeps e (f v) B \<Longrightarrow> keeps e (let x = v in f x) B"
  by simp

lemma keeps_pure:
  "keeps e (oa_return x) (\<lambda>_. True)" "keeps e (oa_lift r) (\<lambda>_. True)" "keeps e (oa_some err v) (\<lambda>_. True)"
  "keeps e (oa_read e f) (\<lambda>_. True)" "keeps e (oa_ask e g) (\<lambda>_. True)"
  by (simp_all add: keeps_return keeps_lift keeps_some keeps_read keeps_ask)

lemmas keeps_rules = keeps_pure keeps_throw keeps_time keeps_random keeps_then keeps_catch keeps_if keeps_option
  keeps_sum keeps_prod keeps_let

lemma keeps_errors:
  "keeps e (oa_error s err d) (\<lambda>_. True)" "keeps e server_error (\<lambda>_. True)" "keeps e (metadata_failure err) (\<lambda>_. True)"
  "keeps e (endpoint_failure err) (\<lambda>_. True)" "keeps e (issuer_of e req) (\<lambda>_. True)"
  "keeps e (error_redirect e r a d st) (\<lambda>_. True)"
  unfolding oa_error_def server_error_def metadata_failure_def endpoint_failure_def issuer_of_def error_redirect_def
  by (intro keeps_rules)+

section \<open>Clients\<close>

text \<open>What validation accepts makes rows that are well-formed.\<close>

lemma loopback_lower:
  "js_toLowerCase ''localhost'' = ''localhost''" "js_toLowerCase ''127.0.0.1'' = ''127.0.0.1''"
  "js_toLowerCase ''[::1]'' = ''[::1]''"
  by (simp_all add: js_toLowerCase_def js_lower_char_def)

lemma redirect_safeI:
  "registered_redirect_ok pf uri \<Longrightarrow> redirect_safe pf uri"
  "fetched_redirect_ok pf uri \<Longrightarrow> redirect_safe pf uri"
  by (cases "op_url pf uri"; auto simp: registered_redirect_ok_def fetched_redirect_ok_def isLoopbackHttpRedirect_def
      redirect_safe_def loopback_lower)+

lemma redirect_allowed:
  assumes "validateRedirectUri pf uri allowed" "list_all (redirect_safe pf) allowed"
  shows "redirect_safe pf uri"
  using assms
  by (auto simp: validateRedirectUri_def list_all_iff redirect_safe_def loopbackRedirectPortAgnosticKey_def
      loopbackRedirectPortAgnosticKeyFromUrl_def isLoopbackRedirectHost_def split: option.splits if_splits)

lemma checked_redirects:
  "check_redirects pf vs = None \<Longrightarrow>
   \<exists>ss. json_strings vs = Some ss \<and> length ss = length vs \<and> list_all (redirect_safe pf) ss"
  by (induction pf vs rule: check_redirects.induct) (auto split: if_splits intro: redirect_safeI)

lemma validated_redirects:
  "validate_redirects pf v = None \<Longrightarrow> list_or d v \<noteq> [] \<and> list_all (redirect_safe pf) (list_or d v)"
  unfolding validate_redirects_def list_or_def
  by (auto split: jsval.splits list.splits dest!: checked_redirects)

lemma validated_list: "string_array v = Inr ss \<Longrightarrow> set (list_or d v) \<subseteq> set d \<union> set ss"
  by (auto simp: string_array_def list_or_def split: jsval.splits option.splits)

lemma list_or_undef [simp]: "list_or d JUndef = d"
  by (simp add: list_or_def)

definition client_data_ok :: "oauth_platform \<Rightarrow> client_metadata \<Rightarrow> bool" where
  "client_data_ok pf md \<longleftrightarrow>
     (md_redirect_uris md = JUndef \<or>
       (\<forall>d. list_or d (md_redirect_uris md) \<noteq> [] \<and> list_all (redirect_safe pf) (list_or d (md_redirect_uris md)))) \<and>
     (\<forall>d. set (list_or d (md_grant_types md)) \<subseteq> set d \<union> set SUPPORTED_GRANTS) \<and>
     (\<forall>d. set (list_or d (md_response_types md)) \<subseteq> set d \<union> {''code''}) \<and>
     (\<forall>d. text_or d (md_token_endpoint_auth_method md) \<in> {d, ''none'', ''client_secret_basic'', ''client_secret_post''})"

lemma validated_data:
  assumes "validateClientMetadata pf md partial = None"
  shows "client_data_ok pf md" "\<not> partial \<Longrightarrow> md_redirect_uris md \<noteq> JUndef"
proof -
  from assms obtain grants responses where
    uris: "\<not> partial \<or> md_redirect_uris md \<noteq> JUndef \<Longrightarrow> validate_redirects pf (md_redirect_uris md) = None"
    and grants: "string_array (md_grant_types md) = Inr grants" "set grants \<subseteq> set SUPPORTED_GRANTS"
    and responses: "string_array (md_response_types md) = Inr responses" "set responses \<subseteq> {''code''}"
    and auth: "md_token_endpoint_auth_method md \<in>
      {JUndef, JStr ''client_secret_basic'', JStr ''client_secret_post'', JStr ''none''}"
    by (auto simp: validateClientMetadata_def list_all_iff subset_iff split: if_splits option.splits sum.splits)
  show "client_data_ok pf md"
    unfolding client_data_ok_def
    using uris validated_redirects[of pf "md_redirect_uris md"] validated_list[OF grants(1)] grants(2)
      validated_list[OF responses(1)] responses(2) auth
    by (intro conjI allI) (blast, blast, blast, auto simp: text_or_def)
  show "\<not> partial \<Longrightarrow> md_redirect_uris md \<noteq> JUndef" using uris by (auto simp: validate_redirects_def)
qed

lemma fetched_uris:
  "string_array v = Inr ss \<Longrightarrow> ss \<noteq> [] \<Longrightarrow> list_all (fetched_redirect_ok pf) ss \<Longrightarrow>
   v \<noteq> JUndef \<and> list_or d v \<noteq> [] \<and> list_all (redirect_safe pf) (list_or d v)"
  by (auto simp: string_array_def list_or_def list_all_iff intro: redirect_safeI split: jsval.splits option.splits)

lemma kept_list_or: "string_array v = Inr ss \<Longrightarrow> set (list_or d (kept_list v ss)) \<subseteq> set d \<union> set ss"
  using validated_list by (simp add: kept_list_def)

lemma fetched_data:
  assumes "validateMetadata pf v = Inr md"
  shows "client_data_ok pf md" "md_redirect_uris md \<noteq> JUndef" "text_or ''none'' (md_token_endpoint_auth_method md) = ''none''"
proof -
  from assms obtain uris grants responses where
    uris: "string_array (md_redirect_uris md) = Inr uris" "uris \<noteq> []" "list_all (fetched_redirect_ok pf) uris"
    and grants: "string_array (md_grant_types (metadata_of v)) = Inr grants" "set grants \<subseteq> set SUPPORTED_GRANTS"
      "md_grant_types md = kept_list (md_grant_types (metadata_of v)) grants"
    and responses: "string_array (md_response_types (metadata_of v)) = Inr responses" "set responses \<subseteq> {''code''}"
      "md_response_types md = kept_list (md_response_types (metadata_of v)) responses"
    and auth: "md_token_endpoint_auth_method md \<in> {JUndef, JStr ''none''}"
    by (auto simp: validateMetadata_def Let_def list_all_iff subset_iff split: jsval.splits if_splits sum.splits)
  show "client_data_ok pf md"
    unfolding client_data_ok_def
    using fetched_uris[OF uris] kept_list_or[OF grants(1)] grants(2,3) kept_list_or[OF responses(1)] responses(2,3) auth
    by (intro conjI allI) (blast, simp, blast, simp, blast, auto simp: text_or_def)
  show "md_redirect_uris md \<noteq> JUndef" using fetched_uris[OF uris] by blast
  show "text_or ''none'' (md_token_endpoint_auth_method md) = ''none''" using auth by (auto simp: text_or_def)
qed

subsection \<open>Rows\<close>

definition safe_client :: "oauth_env \<Rightarrow> oauth_client \<Rightarrow> bool" where
  "safe_client e c \<longleftrightarrow> list_all (redirect_safe (oe_platform e)) (oc_redirectUris c)"

lemma row_ok:
  assumes "client_data_ok pf md" "md_redirect_uris md \<noteq> JUndef" "auth \<in> {''none'', ''client_secret_basic'', ''client_secret_post''}"
    "auth = ''none'' \<longleftrightarrow> secret = None"
  shows "client_ok pf (client_row i issuer secret auth name scopes userId md now)"
proof -
  have "set (list_or SUPPORTED_GRANTS (md_grant_types md)) \<subseteq> set SUPPORTED_GRANTS"
    "set (list_or [''code''] (md_response_types md)) \<subseteq> {''code''}"
    using assms(1) unfolding client_data_ok_def by (metis Un_absorb, metis Un_absorb empty_set list.simps(15))
  then show ?thesis using assms by (auto simp: client_ok_def client_row_def client_data_ok_def)
qed

lemma changes_ok:
  assumes "client_data_ok pf md" "client_ok pf c"
  shows "client_ok pf ((client_changes md scopes c)\<lparr>oc_updatedAt := now\<rparr>)"
proof -
  have "set (list_or (oc_grantTypes c) (md_grant_types md)) \<subseteq> set SUPPORTED_GRANTS"
    "set (list_or (oc_responseTypes c) (md_response_types md)) \<subseteq> {''code''}"
    using assms unfolding client_data_ok_def client_ok_def by (meson Un_least subset_refl subset_trans)+
  then show ?thesis using assms by (auto simp: client_ok_def client_changes_def client_data_ok_def)
qed

lemma safe_clientI: "client_ok (oe_platform e) c \<Longrightarrow> safe_client e c"
  by (simp add: client_ok_def safe_client_def)

lemma safe_information [simp]: "safe_client e (toClientInformation b c) = safe_client e c"
  by (simp add: safe_client_def toClientInformation_def)

lemma found_ok:
  "oauth_inv pf w \<Longrightarrow> client_findFirst i issuer w = Some c \<Longrightarrow> client_ok pf c"
  "oauth_inv pf w \<Longrightarrow> client_findUnique i w = Some c \<Longrightarrow> client_ok pf c"
  by (auto simp: oauth_inv_def clients_inv_def client_findFirst_def client_findUnique_def find_Some_iff)

lemma found_safe:
  "oauth_inv (oe_platform e) w \<Longrightarrow> client_findFirst i issuer w = Some c \<Longrightarrow> safe_client e c"
  "oauth_inv (oe_platform e) w \<Longrightarrow> client_findUnique i w = Some c \<Longrightarrow> safe_client e c"
  using found_ok safe_clientI by blast+

lemma keeps_create:
  assumes "\<And>now. client_ok (oe_platform e) (row now)"
  shows "keeps e (client_create e row) (safe_client e)"
  unfolding client_create_def
proof (rule keeps_query)
  fix k now w r w'
  assume run: "(if client_findUnique (oc_clientId (row now)) w \<noteq> None then (Inl ''Unique constraint failed'', w)
    else (Inr (row now), w\<lparr>ow_clients := ow_clients w @ [row now]\<rparr>)) = (r, w')"
  have "oc_clientId (row now) \<notin> set (map oc_clientId (ow_clients w))" if "client_findUnique (oc_clientId (row now)) w = None"
    using that by (auto simp: client_findUnique_def find_None_iff)
  then show "others_steps e w w' \<and> (\<forall>x. r = Inr x \<longrightarrow> safe_client e x)"
    using run st_register[OF assms] safe_clientI[OF assms] by (auto simp: oq.keep_refl intro!: others_stepI split: if_splits)
qed

lemma keeps_update:
  assumes "\<And>now c. client_ok (oe_platform e) c \<Longrightarrow> client_ok (oe_platform e) ((f c)\<lparr>oc_updatedAt := now\<rparr>)"
    "\<And>c. oc_clientId (f c) = oc_clientId c"
  shows "keeps e (client_update e i f) (safe_client e)"
  unfolding client_update_def
proof (rule keeps_query)
  fix k now w r w'
  assume inv: "oauth_inv (oe_platform e) w" and run: "(case client_findUnique i w of None \<Rightarrow> (Inl ''Record to update not found'', w)
    | Some c \<Rightarrow> (Inr ((f c)\<lparr>oc_updatedAt := now\<rparr>),
        w\<lparr>ow_clients := sql_update (\<lambda>c. oc_clientId c = i) (\<lambda>c. (f c)\<lparr>oc_updatedAt := now\<rparr>) (ow_clients w)\<rparr>)) = (r, w')"
  have "others_steps e w (w\<lparr>ow_clients := sql_update (\<lambda>c. oc_clientId c = i) (\<lambda>c. (f c)\<lparr>oc_updatedAt := now\<rparr>) (ow_clients w)\<rparr>)"
    by (rule others_stepI, rule st_change) (use assms in simp_all)
  then show "others_steps e w w' \<and> (\<forall>x. r = Inr x \<longrightarrow> safe_client e x)"
    using run assms(1) found_ok(2)[OF inv] by (auto simp: oq.keep_refl intro: safe_clientI split: option.splits)
qed

subsection \<open>Registration\<close>

lemma keeps_pinned: "keeps e (fetchPinnedMetadataDocument e url as) (\<lambda>_. True)"
  by (induction as) (auto intro!: keeps_rules)

lemma keeps_target: "keeps e (validatePublicNetworkTarget e u) (\<lambda>_. True)"
  unfolding validatePublicNetworkTarget_def by (intro keeps_rules)

lemma keeps_fetch:
  "keeps e (fetchAndValidateClientMetadata e url) (\<lambda>r. \<forall>md. r = Inr md \<longrightarrow> (\<exists>v. validateMetadata (oe_platform e) v = Inr md))"
proof -
  have answer: "\<exists>v. validateMetadata pf v = Inr md" if "answer_metadata pf url a = Inr md" for pf a md
    using that by (auto simp: answer_metadata_def Let_def split: if_splits option.splits sum.splits)
  show ?thesis
    unfolding fetchAndValidateClientMetadata_def
    by (intro keeps_sum keeps_catch keeps_then[OF keeps_target] keeps_then[OF keeps_pinned] keeps_return)
      (use answer in auto)
qed

lemma keeps_reconcile: "safe_client e c \<Longrightarrow> keeps e (reconcileUrlBasedClientScopes e c md) (safe_client e)"
  unfolding reconcileUrlBasedClientScopes_def
  by (auto simp: client_ok_def intro!: keeps_return keeps_if keeps_update split: jsval.splits)

lemma keeps_registerUrl: "keeps e (registerUrlClient e i userId issuer) (safe_client e)"
proof -
  have new: "keeps e (client_create e (client_row i issuer None (text_or ''none'' (md_token_endpoint_auth_method md))
      name scopes userId md)) (safe_client e)" if "validateMetadata (oe_platform e) v = Inr md" for md name scopes v
    by (rule keeps_create, rule row_ok) (use fetched_data[OF that] in simp_all)
  have old: "keeps e (oa_bind (reconcileUrlBasedClientScopes e c md) (\<lambda>r. oa_return (toClientInformation False r))) (safe_client e)"
    if "safe_client e c" for c md
    by (rule keeps_bind[OF keeps_reconcile[OF that]]) (simp add: keeps_return)
  show ?thesis
    unfolding registerUrlClient_def
  proof (rule keeps_bind[OF keeps_fetch], rule keeps_sum)
    fix r md
    assume "\<forall>md. r = Inr md \<longrightarrow> (\<exists>v. validateMetadata (oe_platform e) v = Inr md)" "r = Inr md"
    then obtain v where v: "validateMetadata (oe_platform e) v = Inr md" by blast
    have read: "keeps e (oa_read e (client_findFirst i issuer)) (\<lambda>x. \<forall>c. x = Some c \<longrightarrow> safe_client e c)"
      by (rule keeps_read) (use found_safe(1) in blast)
    show "keeps e (oa_bind (oa_read e (client_findFirst i issuer)) (\<lambda>existing. case existing of
        Some c \<Rightarrow> oa_bind (reconcileUrlBasedClientScopes e c md) (\<lambda>r. oa_return (toClientInformation False r))
      | None \<Rightarrow> oa_bind (oa_read e (client_findUnique i)) (\<lambda>other.
          if other \<noteq> None then oa_throw ''invalid_client_metadata: client_id is already registered for a different issuer''
          else client_create e (client_row i issuer None (text_or ''none'' (md_token_endpoint_auth_method md))
            (text_or (''URL Client '' @ i) (md_client_name md)) (scopesForUrlBasedClient md) userId md)))) (safe_client e)"
      by (rule keeps_bind[OF read], rule keeps_option)
        (intro keeps_then keeps_pure keeps_if keeps_throw new[OF v], use old in blast)
  qed (rule keeps_throw)
qed

lemma keeps_register: "keeps e (registerClient e md userId issuer) (safe_client e)"
proof -
  let ?auth = "text_or ''client_secret_post'' (md_token_endpoint_auth_method md)"
  have new: "keeps e (client_create e (client_row i issuer (if ?auth = ''none'' then None else Some secret) ?auth name scopes
      userId md)) (safe_client e)" if "validateClientMetadata (oe_platform e) md False = None" for i secret name scopes
    using validated_data[OF that] by (intro keeps_create row_ok) (auto simp: client_data_ok_def)
  show ?thesis
    unfolding registerClient_def Let_def
    by (rule keeps_option)
      (rule keeps_option, intro keeps_then keeps_pure keeps_random keeps_if keeps_throw new, assumption,
        rule keeps_throw, rule keeps_registerUrl)
qed

lemma keeps_getClientForIssuer: "keeps e (getClientForIssuer e i issuer) (\<lambda>found. \<forall>c. found = Some c \<longrightarrow> safe_client e c)"
proof -
  have read: "keeps e (oa_read e (client_findFirst i issuer)) (\<lambda>found. \<forall>c. found = Some c \<longrightarrow> safe_client e c)" for issuer
    by (rule keeps_read) (use found_safe(1) in blast)
  show ?thesis
    unfolding getClientForIssuer_def
    by (rule keeps_bind[OF read], rule keeps_if) (auto intro!: keeps_return keeps_read dest: found_safe(1))
qed

lemma keeps_getAuthorizationClient:
  "keeps e (getAuthorizationClient e i issuer) (\<lambda>found. \<forall>c. found = Some c \<longrightarrow> safe_client e c)"
  unfolding getAuthorizationClient_def
  by (rule keeps_if) (auto intro: keeps_bind[OF keeps_register] keeps_return keeps_getClientForIssuer)

lemma keeps_updateClient: "keeps e (updateClient e i md) (\<lambda>_. True)"
proof (cases "validateClientMetadata (oe_platform e) md True")
  case None
  have "keeps e (client_update e i (client_changes md scopes)) (\<lambda>_. True)" for scopes
    by (rule keeps_any[OF keeps_update]) (use changes_ok[OF validated_data(1)[OF None]] in \<open>auto simp: client_changes_def\<close>)
  then show ?thesis unfolding updateClient_def None by (auto intro!: keeps_rules)
qed (simp add: updateClient_def keeps_throw)

lemma keeps_deleteClient: "keeps e (deleteClient e i) (\<lambda>_. True)"
proof -
  have "keeps e (oa_query e (\<lambda>k now w.
          if client_findUnique i w = None then (Inl ''Record to delete does not exist'', w)
          else (Inr True, w\<lparr>ow_codes := filter (\<lambda>c. co_clientId c \<noteq> i) (ow_codes w),
             ow_tokens := filter (\<lambda>t. ot_clientId t \<noteq> i) (ow_tokens w),
             ow_clients := filter (\<lambda>c. oc_clientId c \<noteq> i) (ow_clients w)\<rparr>))) (\<lambda>_. True)"
    by (rule keeps_query) (use oq.keep_refl others_stepI[OF st_unregister] in \<open>auto split: if_splits\<close>)
  then show ?thesis unfolding deleteClient_def by (intro keeps_catch keeps_pure)
qed

section \<open>Tokens and flows\<close>

lemma keeps_credentials: "keeps e (verifyClientCredentials e i secret issuer) (\<lambda>_. True)"
  unfolding verifyClientCredentials_def getClient_def
  by (intro keeps_rules keeps_any[OF keeps_getClientForIssuer])

text \<open>A refusal is an error.\<close>

definition refusal :: "oauth_reply \<Rightarrow> bool" where
  "refusal r \<longleftrightarrow> (\<exists>s err d. r = OaError s err d)"

lemma keeps_check_secret: "keeps e (check_secret e c i secret issuer) (\<lambda>r. \<forall>x. r = Some x \<longrightarrow> refusal x)"
  unfolding check_secret_def
  by (intro keeps_if keeps_return keeps_then[OF keeps_credentials]) (auto simp: refusal_def split: if_splits)

lemma keeps_refusal: "keeps e (authenticate_client e req i secret grant) (\<lambda>r. \<forall>x. r = Inl x \<longrightarrow> refusal x)"
  unfolding authenticate_client_def
  by (intro keeps_then[OF keeps_errors(5)] keeps_then[OF keeps_any[OF keeps_getClientForIssuer]] keeps_option keeps_if keeps_return
      keeps_bind[OF keeps_check_secret]) (auto simp: refusal_def split: option.splits)

lemmas keeps_authenticate = keeps_any[OF keeps_refusal]

lemma keeps_optional: "keeps e (optional_client e req i secret) (\<lambda>_. True)"
  unfolding optional_client_def by (intro keeps_rules keeps_authenticate)

lemma keeps_validateToken: "keeps e (validateToken e token) (\<lambda>_. True)"
  unfolding validateToken_def by (intro keeps_rules)

lemma keeps_oauth_validateToken: "keeps e (oauth_validateToken e token aud) (\<lambda>_. True)"
  unfolding oauth_validateToken_def validate_stored_def Let_def by (intro keeps_rules)

lemma flows_same: "\<exists>fs. w = w\<lparr>ow_flows := fs\<rparr>"
  by (rule exI[of _ "ow_flows w"]) simp

lemma keeps_getFlow: "keeps e (getFlow i) (\<lambda>_. True)"
  unfolding getFlow_def by (rule keeps_flows) (auto split: option.splits intro: flows_same)

lemma keeps_createFlow: "keeps e (createFlow e p issuer) (\<lambda>_. True)"
  unfolding createFlow_def by (intro keeps_then keeps_random keeps_flows) auto

lemma keeps_change_pending: "keeps e (change_pending i f) (\<lambda>_. True)"
  unfolding change_pending_def
  by (intro keeps_then keeps_getFlow keeps_flows) (auto split: option.splits intro: flows_same)

lemmas keeps_flow_rules = keeps_getFlow keeps_createFlow keeps_change_pending

section \<open>Codes\<close>

lemma quiet_if: "(b \<Longrightarrow> oq.ensures e P m Q) \<Longrightarrow> (\<not> b \<Longrightarrow> oq.ensures e P n Q) \<Longrightarrow> oq.ensures e P (if b then m else n) Q"
  by simp

lemma create_code:
  assumes fair: "oauth_fair e" and ok: "code_ok (oe_platform e) c"
  shows "oq.ensures e (\<lambda>st. world_inv e st \<and> co_code c = oe_random e (os_tick st) ''code'' (os_world st))
    (code_create e c) (\<lambda>_. world_inv e)"
  unfolding code_create_def
proof (rule oq.ensures_query_pass[OF lasting_inv[OF fair]])
  fix st r w
  let ?s = "oa_pass e st"
  assume pre: "world_inv e st \<and> co_code c = oe_random e (os_tick st) ''code'' (os_world st)"
    and run: "(if co_code c \<in> set (map co_code (ow_codes (os_world ?s))) then (Inl ''Unique constraint failed'', os_world ?s)
       else if client_findUnique (co_clientId c) (os_world ?s) = None then (Inl ''Foreign key constraint failed'', os_world ?s)
       else (Inr (), (os_world ?s)\<lparr>ow_codes := ow_codes (os_world ?s) @ [c], ow_log := Authorized c # ow_log (os_world ?s)\<rparr>)) = (r, w)"
  have fresh: "co_code c \<notin> set (authorized (ow_log (os_world ?s)))"
    using fair pre by (simp add: oauth_fair_def oa_pass_def)
  have inv: "oauth_inv (oe_platform e) (os_world ?s)"
    using oq.lasting_pass[OF lasting_inv[OF fair]] pre by (simp add: world_inv_def)
  have "w = os_world ?s \<or> oauth_step (oe_platform e) (- {oe_self e}) (os_world ?s) w"
    using run st_authorize[OF ok fresh] by (auto split: if_splits)
  then show "others_steps e (os_world ?s) w \<and> (\<forall>y. r = Inr y \<longrightarrow> world_inv e (?s\<lparr>os_world := w\<rparr>))"
    using inv step_inv by (auto simp: world_inv_def oq.keep_refl intro: others_stepI)
qed

lemma keeps_issue_code:
  assumes "redirect_safe (oe_platform e) (dp_redirect_uri p)" "hasS256PKCE (dp_code_challenge p) (dp_code_challenge_method p)"
  shows "keeps e (issue_code e req p issuer c userId) (\<lambda>_. True)"
proof -
  have "oq.ensures e (world_inv e) (issue_code e req p issuer c userId) (\<lambda>_ st. world_inv e st \<and> True)"
    if fair: "oauth_fair e"
  proof -
    let ?F = "\<lambda>code st. world_inv e st \<and> code = oe_random e (os_tick st) ''code'' (os_world st)"
    let ?T = "\<lambda>(x::string) st. world_inv e st \<and> True"
    have error: "oq.ensures e (?F code) (error_redirect e r a d s) ?T" for code r a d s
      using keeps_errors(6)[of e r a d s] fair unfolding keeps_def oq.ensures_def by blast
    have finish: "oq.ensures e (\<lambda>st. ?F code st \<and> now = os_now st) (oa_bind (code_create e row) (\<lambda>_. oa_some err v)) ?T"
      if "code_ok (oe_platform e) row" "co_code row = code" for row now err v code
      by (rule oq.ensures_strengthen[OF oq.ensures_bind[OF create_code[OF fair that(1)]]]) (auto intro!: oq.ensures_some simp: that(2))
    have random: "oq.ensures e (world_inv e) (oa_random e ''code'') ?F" by (rule oq.ensures_random) simp
    show ?thesis
      unfolding issue_code_def Let_def
      by (rule oq.ensures_bind[OF random])
        (intro quiet_if error oq.ensures_some_then oq.ensures_time_then finish,
          use assms in \<open>simp_all add: code_ok_def hasS256PKCE_def\<close>)
  qed
  then show ?thesis by (simp add: keeps_def)
qed

lemma keeps_complete: "keeps e (completeAuthorizationGrant e req p token user) (\<lambda>_. True)"
proof -
  have code: "keeps e (issue_code e req p issuer c userId) (\<lambda>_. True)"
    if "safe_client e c" "validateRedirectUri (oe_platform e) (dp_redirect_uri p) (oc_redirectUris c)"
      "hasS256PKCE (dp_code_challenge p) (dp_code_challenge_method p)" for issuer c userId
    using keeps_issue_code redirect_allowed that unfolding safe_client_def by blast
  show ?thesis
    unfolding completeAuthorizationGrant_def
    by (rule keeps_then[OF keeps_errors(5)], rule keeps_bind[OF keeps_getAuthorizationClient])
      (intro keeps_option keeps_if keeps_throw keeps_then keeps_catch keeps_pure keeps_validateToken keeps_errors code, auto)
qed

section \<open>Endpoints that redeem no code\<close>

lemma keeps_registration:
  "keeps e (oauth_register e req body) (\<lambda>_. True)" "keeps e (getClientInfo e req i) (\<lambda>_. True)"
  "keeps e (admin_listClients e) (\<lambda>_. True)" "keeps e (admin_getClient e i) (\<lambda>_. True)"
  "keeps e (admin_updateClient e i body) (\<lambda>_. True)" "keeps e (admin_deleteClient e i) (\<lambda>_. True)"
  unfolding oauth_register_def getClientInfo_def admin_listClients_def listClients_def admin_getClient_def getClient_def
    admin_updateClient_def admin_deleteClient_def Let_def
  by (intro keeps_rules keeps_errors keeps_any[OF keeps_register] keeps_any[OF keeps_getClientForIssuer]
      keeps_updateClient keeps_deleteClient)+

lemma keeps_authorize: "keeps e (authorize e req p approved token) (\<lambda>_. True)"
  unfolding authorize_def by (intro keeps_rules keeps_errors keeps_complete)

lemma keeps_page: "keeps e (showAuthorizePage e req p response_type i) (\<lambda>_. True)"
  unfolding showAuthorizePage_def getReusableFlow_def Let_def
  by (intro keeps_rules keeps_errors keeps_flow_rules keeps_any[OF keeps_getAuthorizationClient])

lemma keeps_desk:
  "keeps e (deskAuthorizationCallback e req i token) (\<lambda>_. True)" "keeps e (deskAuthorizationStatus i) (\<lambda>_. True)"
  unfolding deskAuthorizationCallback_def deskAuthorizationStatus_def failFlow_def completeFlow_def Let_def
  by (intro keeps_rules keeps_errors keeps_flow_rules keeps_complete keeps_validateToken)+

lemma keeps_introspect: "keeps e (introspect e req body) (\<lambda>_. True)"
  unfolding introspect_def
  by (intro keeps_rules keeps_errors keeps_optional keeps_oauth_validateToken)

lemma keeps_revoke: "keeps e (revoke e req body) (\<lambda>_. True)"
proof -
  have "keeps e (token_revoke e i) (\<lambda>_. True)" for i
    unfolding token_revoke_def
    by (rule keeps_query) (use oq.keep_refl others_stepI[OF st_revoke] in \<open>auto split: if_splits\<close>)
  then show ?thesis unfolding revoke_def Let_def by (intro keeps_rules keeps_errors keeps_optional)
qed

text \<open>Renewal: the record found gives no more than its code, and so does the renewed one.\<close>

lemma renewed_for:
  assumes "token_for pf c t" "set ss \<subseteq> set (ot_scopes t)"
    "a = op_sign pf (op_jwtSecret pf) (access_payload (ot_clientId t) (ot_userId t) ss (ot_resource t) now)"
  shows "token_for pf c (renewed a (now + ACCESS_TOKEN_LIFETIME * 1000) ss t)"
  using assms by (auto simp: token_for_def renewed_def)

lemma found_source:
  assumes "oauth_inv pf w" "t \<in> set (ow_tokens w)"
  shows "token_source pf w t"
  using assms unfolding oauth_inv_def tokens_inv_def token_source_def by blast

lemma source_unique:
  assumes "log_inv pf es" "Authorized c \<in> set es" "Authorized d \<in> set es" "Issued i (co_code c) \<in> set es" "Issued i (co_code d) \<in> set es"
  shows "c = d"
proof -
  have code: "co_code c = co_code d"
    using assms(1,4,5) unfolding log_inv_def log_members(3)[symmetric] by (metis eq_key_imp_eq_value)
  have "distinct (authorized es) \<Longrightarrow> Authorized c \<in> set es \<Longrightarrow> Authorized d \<in> set es \<Longrightarrow> co_code c = co_code d \<Longrightarrow> c = d"
    by (induction es rule: authorized.induct) (auto simp: log_members)
  then show ?thesis using assms(1-3) code by (simp add: log_inv_def)
qed

lemma lasting_source:
  assumes "oauth_fair e"
  shows "oq.lasting e (\<lambda>st. world_inv e st \<and> token_source (oe_platform e) (os_world st) t)"
  using assms
proof (rule lasting_steps)
  fix w w'
  assume "oauth_step (oe_platform e) (- {oe_self e}) w w'" "token_source (oe_platform e) w t"
  then show "token_source (oe_platform e) w' t" unfolding token_source_def using step_log_grows by fastforce
qed

lemma refresh_step:
  assumes "oauth_inv pf w" "token_source pf w t" "set ss \<subseteq> set (ot_scopes t)"
    "a = op_sign pf (op_jwtSecret pf) (access_payload (ot_clientId t) (ot_userId t) ss (ot_resource t) now)"
    "\<not> list_ex (\<lambda>u. ot_accessToken u = a \<and> ot_tokenId u \<noteq> ot_tokenId t) (ow_tokens w)"
  shows "oauth_step pf S w (w\<lparr>ow_tokens := sql_update (\<lambda>u. ot_tokenId u = ot_tokenId t)
    (renewed a (now + ACCESS_TOKEN_LIFETIME * 1000) ss) (ow_tokens w)\<rparr>)"
proof (rule st_renew)
  fix u
  assume u: "u \<in> set (ow_tokens w)" "ot_tokenId u = ot_tokenId t"
  obtain c d where c: "Authorized c \<in> set (ow_log w)" "Issued (ot_tokenId t) (co_code c) \<in> set (ow_log w)" "token_for pf c t"
    and d: "Authorized d \<in> set (ow_log w)" "Issued (ot_tokenId t) (co_code d) \<in> set (ow_log w)" "token_for pf d u"
    using assms(2) found_source[OF assms(1) u(1)] u(2) unfolding token_source_def by metis
  have "c = d" using source_unique[of pf] assms(1) c d unfolding oauth_inv_def by blast
  then have "token_for pf c (renewed a (now + ACCESS_TOKEN_LIFETIME * 1000) ss u)"
    using c(3) d(3) assms(3,4) by (auto simp: token_for_def renewed_def)
  with c show "\<exists>c. Authorized c \<in> set (ow_log w) \<and> Issued (ot_tokenId t) (co_code c) \<in> set (ow_log w) \<and>
    token_for pf c (renewed a (now + ACCESS_TOKEN_LIFETIME * 1000) ss u)" by blast
next
  fix u
  assume "u \<in> set (ow_tokens w)" "ot_tokenId u \<noteq> ot_tokenId t"
  with assms(5) show "ot_accessToken u \<noteq> a" by (auto simp: list_ex_iff)
qed

lemma refresh_token_record:
  assumes fair: "oauth_fair e" and scopes: "set ss \<subseteq> set (ot_scopes t)"
    and a: "a = op_sign (oe_platform e) (op_jwtSecret (oe_platform e))
      (access_payload (ot_clientId t) (ot_userId t) ss (ot_resource t) now)"
  shows "oq.ensures e (\<lambda>st. world_inv e st \<and> token_source (oe_platform e) (os_world st) t)
    (token_refresh e (ot_tokenId t) a (now + ACCESS_TOKEN_LIFETIME * 1000) ss) (\<lambda>_. world_inv e)"
  unfolding token_refresh_def
proof (rule oq.ensures_query[OF lasting_source[OF fair] lasting_inv[OF fair]])
  fix st :: oauth_state and r w
  let ?w = "os_world st"
  assume pre: "world_inv e st \<and> token_source (oe_platform e) ?w t"
    and run: "(if ot_tokenId t \<notin> set (map ot_tokenId (ow_tokens ?w)) then (Inl ''Record to update not found'', ?w)
       else if list_ex (\<lambda>u. ot_accessToken u = a \<and> ot_tokenId u \<noteq> ot_tokenId t) (ow_tokens ?w)
       then (Inl ''Unique constraint failed'', ?w)
       else (Inr (), ?w\<lparr>ow_tokens := sql_update (\<lambda>u. ot_tokenId u = ot_tokenId t)
          (\<lambda>t. t\<lparr>ot_accessToken := a, ot_accessTokenExpiresAt := now + ACCESS_TOKEN_LIFETIME * 1000, ot_scopes := ss\<rparr>) (ow_tokens ?w)\<rparr>)) = (r, w)"
  have inv: "oauth_inv (oe_platform e) ?w" using pre by (simp add: world_inv_def)
  have change: "(\<lambda>t. t\<lparr>ot_accessToken := a, ot_accessTokenExpiresAt := d, ot_scopes := ss\<rparr>) = renewed a d ss" for d
    by (simp add: renewed_def fun_eq_iff)
  have "w = ?w \<or> oauth_step (oe_platform e) (- {oe_self e}) ?w w"
    using run refresh_step[OF inv _ scopes a] pre unfolding change by (auto split: if_splits)
  then show "others_steps e ?w w \<and> (\<forall>y. r = Inr y \<longrightarrow> world_inv e (st\<lparr>os_world := w\<rparr>))"
    using inv step_inv by (auto simp: world_inv_def oq.keep_refl intro: others_stepI)
qed

lemma renew_ensures:
  assumes fair: "oauth_fair e"
  shows "oq.ensures e (\<lambda>st. world_inv e st \<and> token_source (oe_platform e) (os_world st) t)
    (renew_token e body t) (\<lambda>_ st. world_inv e st \<and> True)"
proof -
  let ?ss = "if is_given (tb_scope body) then parseScope (tb_scope body) else ot_scopes t"
  have finish: "oq.ensures e (\<lambda>st. (world_inv e st \<and> token_source (oe_platform e) (os_world st) t) \<and> now = os_now st)
      (oa_bind (token_refresh e (ot_tokenId t) a (now + ACCESS_TOKEN_LIFETIME * 1000) ?ss) (\<lambda>_. oa_return r))
      (\<lambda>_ st. world_inv e st \<and> True)"
    if "generateAccessToken (oe_platform e) (ot_clientId t) (ot_userId t) ?ss (ot_resource t) now = Inr a"
      "\<not> (is_given (tb_scope body) \<and> \<not> isScopeSubset ?ss (ot_scopes t))" for a now r
  proof (rule oq.ensures_bind[of e _ _ "\<lambda>_. world_inv e"])
    have "a = op_sign (oe_platform e) (op_jwtSecret (oe_platform e))
        (access_payload (ot_clientId t) (ot_userId t) ?ss (ot_resource t) now)" "set ?ss \<subseteq> set (ot_scopes t)"
      using that by (auto simp: generateAccessToken_def isScopeSubset_def list_all_iff split: if_splits)
    from refresh_token_record[OF fair this(2,1)]
    show "oq.ensures e (\<lambda>st. (world_inv e st \<and> token_source (oe_platform e) (os_world st) t) \<and> now = os_now st)
      (token_refresh e (ot_tokenId t) a (now + ACCESS_TOKEN_LIFETIME * 1000) ?ss) (\<lambda>_. world_inv e)"
      by (rule oq.ensures_strengthen) simp
  qed (simp add: oq.ensures_return)
  show ?thesis
    unfolding renew_token_def Let_def oa_error_def
    by (intro quiet_if oq.ensures_return oq.ensures_time_then oq.ensures_lift_then finish) simp_all
qed

lemma keeps_refresh: "keeps e (handleRefreshTokenGrant e req body) (\<lambda>_. True)"
proof -
  let ?after = "\<lambda>clientId found. oa_bind oa_time (\<lambda>now.
     case (refresh_refusal (text_of clientId) now found, found) of
       (Some d, _) \<Rightarrow> oa_error 400 ''invalid_grant'' d
     | (None, None) \<Rightarrow> oa_error 400 ''invalid_grant'' ''Invalid refresh token''
     | (None, Some t) \<Rightarrow> renew_token e body t)"
  let ?F = "\<lambda>found st. world_inv e st \<and> (\<forall>t. found = Some t \<longrightarrow> token_source (oe_platform e) (os_world st) t)"
  have lasting: "oq.lasting e (?F found)" if "oauth_fair e" for found
    using lasting_inv[OF that] lasting_source[OF that] by (cases found) simp_all
  have after: "oq.ensures e (?F found) (?after clientId found) (\<lambda>_ st. world_inv e st \<and> True)" if "oauth_fair e" for clientId found
  proof (rule oq.ensures_time_then, rule oq.ensures_strengthen[of e "?F found"])
    show "oq.ensures e (?F found) (case (refresh_refusal (text_of clientId) now found, found) of
       (Some d, _) \<Rightarrow> oa_error 400 ''invalid_grant'' d
     | (None, None) \<Rightarrow> oa_error 400 ''invalid_grant'' ''Invalid refresh token''
     | (None, Some t) \<Rightarrow> renew_token e body t) (\<lambda>_ st. world_inv e st \<and> True)" for now
      using renew_ensures[OF that]
      by (cases found) (auto simp: oa_error_def intro!: oq.ensures_return split: option.splits)
  qed simp
  have "keeps e (oa_bind (oa_read e (token_by_refresh token)) (?after clientId)) (\<lambda>_. True)" for token clientId
    unfolding keeps_def
  proof
    assume fair: "oauth_fair e"
    have read: "oq.ensures e (world_inv e) (oa_read e (token_by_refresh token)) ?F"
      by (rule oq.ensures_read[OF lasting_inv[OF fair] lasting[OF fair]])
        (auto simp: token_by_refresh_def find_Some_iff world_inv_def intro!: found_source)
    show "oq.ensures e (world_inv e) (oa_bind (oa_read e (token_by_refresh token)) (?after clientId)) (\<lambda>_ st. world_inv e st \<and> True)"
      by (rule oq.ensures_bind[OF read]) (rule after[OF fair])
  qed
  then show ?thesis
    unfolding handleRefreshTokenGrant_def
    by (intro keeps_prod keeps_if keeps_errors keeps_then[OF keeps_authenticate] keeps_sum keeps_pure)
qed

section \<open>Redeeming codes\<close>

text \<open>A handler holds a code that it has redeemed and for which no record was made.\<close>

definition code_held :: "nat \<Rightarrow> auth_code \<Rightarrow> oauth_world \<Rightarrow> bool" where
  "code_held i c w \<longleftrightarrow> Authorized c \<in> set (ow_log w) \<and> Redeemed (co_code c) i \<in> set (ow_log w) \<and>
     co_code c \<notin> snd ` set (issued (ow_log w))"

lemma redeemed_by_one:
  "distinct (redeemed es) \<Longrightarrow> Redeemed code i \<in> set es \<Longrightarrow> Redeemed code j \<in> set es \<Longrightarrow> i = j"
  by (induction es rule: redeemed.induct) (auto simp: log_members)

lemma step_held:
  assumes "oauth_step pf S w w'" "oauth_inv pf w" "i \<notin> S" "code_held i c w"
  shows "code_held i c w'"
  using assms
proof (induction rule: oauth_step.induct)
  case (st_issue j d w t)
  have "distinct (redeemed (ow_log w))" using st_issue(9) by (simp add: oauth_inv_def log_inv_def)
  then have "co_code d \<noteq> co_code c" using redeemed_by_one st_issue(1,2,10,11) unfolding code_held_def by metis
  with st_issue(11) show ?case by (auto simp: code_held_def)
qed (auto simp: code_held_def)

lemma lasting_held:
  "oauth_fair e \<Longrightarrow> oq.lasting e (\<lambda>st. world_inv e st \<and> code_held (oe_self e) c (os_world st))"
  by (rule lasting_steps) (auto intro: step_held)

lemma all_stepI: "oauth_step (oe_platform e) UNIV w w' \<Longrightarrow> all_steps e w w'"
  by (simp add: all_steps_def r_into_rtranclp)

lemma length_one: "length xs = 1 \<Longrightarrow> \<exists>x. xs = [x]"
  by (cases xs) auto

lemma hits_one:
  assumes "filter (code_hit code date) cs = [d]"
  shows "d \<in> set cs" "co_code d = code" "\<not> co_used d"
  using assms by (auto simp: filter_eq_Cons_iff code_hit_def)

lemma claim_ensures:
  assumes fair: "oauth_fair e" and unused: "\<not> co_used c"
  shows "oall.ensures e (\<lambda>st. world_inv e st \<and> {Authorized c} \<subseteq> set (ow_log (os_world st))) (claim_code e (co_code c) date)
    (\<lambda>count st. world_inv e st \<and> (count = 1 \<longrightarrow> code_held (oe_self e) c (os_world st)))"
  unfolding claim_code_def
proof (rule oall.ensures_query[OF lasting_log[OF fair]])
  show "oq.lasting e (\<lambda>st. world_inv e st \<and> (count = 1 \<longrightarrow> code_held (oe_self e) c (os_world st)))" for count :: nat
    using lasting_inv[OF fair] lasting_held[OF fair] by (cases "count = 1") simp_all
  fix st :: oauth_state and r w
  let ?w = "os_world st" and ?P = "code_hit (co_code c) date"
  assume pre: "world_inv e st \<and> {Authorized c} \<subseteq> set (ow_log ?w)"
    and run: "(let P = (\<lambda>d. co_code d = co_code c \<and> \<not> co_used d \<and> date \<le> co_expiresAt d); hits = filter P (ow_codes ?w)
        in (Inr (length hits), ?w\<lparr>ow_codes := sql_update P (\<lambda>c. c\<lparr>co_used := True\<rparr>) (ow_codes ?w),
              ow_log := map (\<lambda>c. Redeemed (co_code c) (oe_self e)) hits @ ow_log ?w\<rparr>)) = (r, w)"
  have P: "(\<lambda>d. co_code d = co_code c \<and> \<not> co_used d \<and> date \<le> co_expiresAt d) = ?P" by (simp add: code_hit_def fun_eq_iff)
  have w: "r = Inr (length (filter ?P (ow_codes ?w)))"
    "w = ?w\<lparr>ow_codes := sql_update ?P (\<lambda>c. c\<lparr>co_used := True\<rparr>) (ow_codes ?w),
      ow_log := map (\<lambda>c. Redeemed (co_code c) (oe_self e)) (filter ?P (ow_codes ?w)) @ ow_log ?w\<rparr>"
    using run unfolding P Let_def by simp_all
  then have step: "oauth_step (oe_platform e) UNIV ?w w" using st_redeem by simp
  have inv: "oauth_inv (oe_platform e) ?w" using pre by (simp add: world_inv_def)
  have "code_held (oe_self e) c w" if one: "length (filter ?P (ow_codes ?w)) = 1"
  proof -
    obtain d where hits: "filter ?P (ow_codes ?w) = [d]" using length_one[OF one] by blast
    note d = hits_one[OF hits]
    have "co_code c \<notin> set (redeemed (ow_log ?w))" using inv d by (auto simp: oauth_inv_def codes_inv_def)
    then have "co_code c \<notin> snd ` set (issued (ow_log ?w))" using inv by (auto simp: oauth_inv_def log_inv_def)
    then show ?thesis using pre w(2) hits d(2) by (simp add: code_held_def)
  qed
  with w(1) step inv step_inv[OF step] show "all_steps e ?w w \<and>
      (\<forall>y. r = Inr y \<longrightarrow> world_inv e (st\<lparr>os_world := w\<rparr>) \<and> (y = 1 \<longrightarrow> code_held (oe_self e) c (os_world (st\<lparr>os_world := w\<rparr>))))"
    by (simp add: all_stepI world_inv_def)
qed

lemma create_token:
  assumes fair: "oauth_fair e"
    and row: "\<And>i. token_for (oe_platform e) c (row i) \<and> ot_tokenId (row i) = i \<and> \<not> ot_revoked (row i)"
  shows "oall.ensures e (\<lambda>st. world_inv e st \<and> code_held (oe_self e) c (os_world st)) (token_create e (co_code c) row)
    (\<lambda>_ st. world_inv e st \<and> (\<exists>i. {Authorized c, Redeemed (co_code c) (oe_self e), Issued i (co_code c)} \<subseteq> set (ow_log (os_world st))))"
  unfolding token_create_def
proof (rule oall.ensures_query[OF lasting_held[OF fair]])
  show "oq.lasting e (\<lambda>st. world_inv e st \<and> (\<exists>i. {Authorized c, Redeemed (co_code c) (oe_self e), Issued i (co_code c)} \<subseteq>
      set (ow_log (os_world st))))"
    using lasting_log[OF fair] unfolding oq.lasting_def by blast
  fix st :: oauth_state and r w
  let ?w = "os_world st" let ?t = "row (oe_random e (os_tick st) ''token_id'' ?w)"
  assume pre: "world_inv e st \<and> code_held (oe_self e) c ?w"
    and run: "(let t = ?t in
        if ot_tokenId t \<in> set (map ot_tokenId (ow_tokens ?w)) \<or> ot_accessToken t \<in> set (map ot_accessToken (ow_tokens ?w)) \<or>
          (ot_refreshToken t \<noteq> None \<and> ot_refreshToken t \<in> set (map ot_refreshToken (ow_tokens ?w)))
        then (Inl ''Unique constraint failed'', ?w)
        else if client_findUnique (ot_clientId t) ?w = None then (Inl ''Foreign key constraint failed'', ?w)
        else (Inr (), ?w\<lparr>ow_tokens := ow_tokens ?w @ [t], ow_log := Issued (ot_tokenId t) (co_code c) # ow_log ?w\<rparr>)) = (r, w)"
  have "ot_tokenId ?t \<notin> fst ` set (issued (ow_log ?w))" using fair row by (simp add: oauth_fair_def)
  then have step: "oauth_step (oe_platform e) UNIV ?w (?w\<lparr>ow_tokens := ow_tokens ?w @ [?t], ow_log := Issued (ot_tokenId ?t) (co_code c) # ow_log ?w\<rparr>)"
    if "ot_accessToken ?t \<notin> set (map ot_accessToken (ow_tokens ?w))"
    using st_issue[of "oe_self e" UNIV c ?w "oe_platform e" ?t] pre row that by (auto simp: code_held_def)
  show "all_steps e ?w w \<and> (\<forall>y. r = Inr y \<longrightarrow> world_inv e (st\<lparr>os_world := w\<rparr>) \<and>
      (\<exists>i. {Authorized c, Redeemed (co_code c) (oe_self e), Issued i (co_code c)} \<subseteq> set (ow_log (os_world (st\<lparr>os_world := w\<rparr>)))))"
  proof (cases r)
    case (Inl err)
    then have "w = ?w" using run by (auto simp: Let_def split: if_splits)
    with Inl oall.keep_refl show ?thesis by simp
  next
    case (Inr u)
    then have w: "w = ?w\<lparr>ow_tokens := ow_tokens ?w @ [?t], ow_log := Issued (ot_tokenId ?t) (co_code c) # ow_log ?w\<rparr>"
      and "ot_accessToken ?t \<notin> set (map ot_accessToken (ow_tokens ?w))"
      using run by (auto simp: Let_def split: if_splits)
    with step have "oauth_step (oe_platform e) UNIV ?w w" by simp
    with Inr pre w step_inv show ?thesis by (auto simp: all_stepI world_inv_def code_held_def)
  qed
qed

text \<open>What a reply with tokens says.\<close>

definition code_done :: "oauth_env \<Rightarrow> token_body \<Rightarrow> string \<Rightarrow> int \<Rightarrow> token_reply \<Rightarrow> oauth_state \<Rightarrow> bool" where
  "code_done e body clientId start t st \<longleftrightarrow>
     (\<exists>c i date now. {Authorized c, Redeemed (co_code c) (oe_self e), Issued i (co_code c)} \<subseteq> set (ow_log (os_world st)) \<and>
        co_code c = text_of (tb_code body) \<and> code_refusal (oe_platform e) body clientId date (Some c) = None \<and>
        start \<le> date \<and> tk_scope t = js_join '' '' (co_scopes c) \<and>
        tk_access_token t = op_sign (oe_platform e) (op_jwtSecret (oe_platform e))
          (access_payload (co_clientId c) (co_userId c) (co_scopes c) (co_resource c) now))"

lemma issue_ensures:
  assumes fair: "oauth_fair e" and code: "co_code c = text_of (tb_code body)"
    "code_refusal (oe_platform e) body clientId date (Some c) = None" "start \<le> date"
  shows "oall.ensures e (\<lambda>st. world_inv e st \<and> code_held (oe_self e) c (os_world st)) (issue_tokens e k c)
    (\<lambda>r st. \<forall>t. r = TokenReply t \<longrightarrow> code_done e body clientId start t st)"
proof -
  let ?H = "\<lambda>st. world_inv e st \<and> code_held (oe_self e) c (os_world st)"
  let ?D = "\<lambda>st. world_inv e st \<and> (\<exists>i. {Authorized c, Redeemed (co_code c) (oe_self e), Issued i (co_code c)} \<subseteq> set (ow_log (os_world st)))"
  have reply: "\<forall>t. TokenReply \<lparr>tk_access_token = a, tk_expires_in = x, tk_refresh_token = y,
        tk_scope = js_join '' '' (co_scopes c), tk_resource = z\<rparr> = TokenReply t \<longrightarrow> code_done e body clientId start t st"
    if "?D st" "generateAccessToken (oe_platform e) (co_clientId c) (co_userId c) (co_scopes c) (co_resource c) now = Inr a"
    for st a x y z now
  proof (intro allI impI)
    fix t assume t: "TokenReply \<lparr>tk_access_token = a, tk_expires_in = x, tk_refresh_token = y,
        tk_scope = js_join '' '' (co_scopes c), tk_resource = z\<rparr> = TokenReply t"
    from that(1) obtain i where "{Authorized c, Redeemed (co_code c) (oe_self e), Issued i (co_code c)} \<subseteq> set (ow_log (os_world st))"
      by blast
    then show "code_done e body clientId start t st"
      unfolding code_done_def using t code that(2)
      by (intro exI[of _ c] exI[of _ i] exI[of _ date] exI[of _ now]) (auto simp: generateAccessToken_def split: if_splits)
  qed
  have create: "oall.ensures e ?H (token_create e (co_code c) (\<lambda>i.
             \<lparr>ot_tokenId = i, ot_accessToken = a, ot_refreshToken = f,
              ot_clientId = co_clientId c, ot_userId = co_userId c, ot_scopes = co_scopes c,
              ot_resource = co_resource c, ot_accessTokenExpiresAt = now + ACCESS_TOKEN_LIFETIME * 1000,
              ot_refreshTokenExpiresAt = x, ot_revoked = False\<rparr>)) (\<lambda>_. ?D)"
    if "generateAccessToken (oe_platform e) (co_clientId c) (co_userId c) (co_scopes c) (co_resource c) now = Inr a" for a f x now
    by (rule create_token[OF fair]) (use that in \<open>auto simp: token_for_def generateAccessToken_def split: if_splits\<close>)
  have random: "oall.ensures e ?H (oa_random e p) (\<lambda>_. ?H)" for p by (rule oall.ensures_random) simp
  have time: "oall.ensures e ?H oa_time (\<lambda>_. ?H)" by (rule oall.ensures_time) simp
  show ?thesis
    unfolding issue_tokens_def Let_def
    by (rule oall.ensures_bind[OF time], rule oall.ensures_lift_then, rule oall.ensures_bind[OF random],
        rule oall.ensures_bind[OF create], assumption, rule oall.ensures_return, rule reply)
qed

lemma redeem_ensures:
  assumes fair: "oauth_fair e"
  shows "oall.ensures e (\<lambda>st. world_inv e st \<and> start \<le> os_now st) (redeem_code e body clientId k)
    (\<lambda>r st. \<forall>t. r = TokenReply t \<longrightarrow> code_done e body clientId start t st)" (is "oall.ensures e ?P _ ?Q")
proof -
  let ?F = "\<lambda>found st. (world_inv e st \<and> (\<forall>c. found = Some c \<longrightarrow> {Authorized (c\<lparr>co_used := False\<rparr>)} \<subseteq> set (ow_log (os_world st)))) \<and>
    (start \<le> os_now st \<and> (\<forall>c. found = Some c \<longrightarrow> co_code c = text_of (tb_code body)))"
  have time: "oq.lasting e (\<lambda>st. start \<le> os_now st \<and> b)" for b unfolding oq.lasting_def by auto
  have lastF: "oq.lasting e (?F found)" for found
    by (rule oq.lasting_conj[OF _ time])
      (cases found; use lasting_inv[OF fair] lasting_log[OF fair, of "{Authorized ((the found)\<lparr>co_used := False\<rparr>)}"] in simp)
  have lastP: "oq.lasting e ?P" using oq.lasting_conj[OF lasting_inv[OF fair] time[of True]] by simp
  have read: "oall.ensures e ?P (oa_read e (find_code (text_of (tb_code body)))) ?F"
    by (rule oall.ensures_read[OF lastP lastF])
      (auto simp: find_code_def find_Some_iff world_inv_def oauth_inv_def codes_inv_def)
  have claim: "oall.ensures e (\<lambda>st. ?F (Some c) st \<and> date = os_now st) (oa_bind (claim_code e (co_code c) date) (\<lambda>count.
      if count \<noteq> 1 then oa_error 400 ''invalid_grant'' ''Authorization code has already been used or expired''
      else issue_tokens e k c)) ?Q"
    if ok: "code_refusal (oe_platform e) body clientId date (Some c) = None" for c date
  proof (cases "co_code c = text_of (tb_code body) \<and> start \<le> date")
    case True
    have unused: "\<not> co_used c" using ok by (auto simp: code_refusal_def)
    then have same: "c\<lparr>co_used := False\<rparr> = c" by simp
    have "oall.ensures e (\<lambda>st. world_inv e st \<and> (count = 1 \<longrightarrow> code_held (oe_self e) c (os_world st)))
        (if count \<noteq> 1 then oa_error 400 ''invalid_grant'' ''Authorization code has already been used or expired''
         else issue_tokens e k c) ?Q" for count :: nat
      using issue_ensures[OF fair _ ok, of start k] True by (simp add: oa_error_def oall.ensures_return)
    from oall.ensures_bind[OF claim_ensures[OF fair unused] this]
    show ?thesis by (rule oall.ensures_strengthen) (simp add: same)
  next
    case False
    then show ?thesis unfolding oall.ensures_def by auto
  qed
  have error: "oall.ensures e P (oa_error s err d) ?Q" for P s err d
    unfolding oa_error_def by (rule oall.ensures_return) simp
  show ?thesis
    unfolding redeem_code_def
    by (rule oall.ensures_bind[OF read], rule oall.ensures_time_then)
      (use claim error in \<open>auto split: option.splits\<close>)
qed

end
