(* ===== verification/OAuth_Safety.thy ===== *)
theory OAuth_Safety
  imports OAuth_Handlers
begin

text \<open>
  What the authorization server guarantees: every request leaves a reachable state, a code gives
  tokens once and to the client it was issued to, and an accepted access token rests on the
  authorization of its user.
\<close>

section \<open>The server\<close>

definition code_reply :: "oauth_env \<Rightarrow> oauth_request \<Rightarrow> token_body \<Rightarrow> int \<Rightarrow> oauth_reply \<Rightarrow> oauth_state \<Rightarrow> bool" where
  "code_reply e req body start r st \<longleftrightarrow> (\<forall>t. r = TokenReply t \<longrightarrow>
     code_done e body (text_of (fst (credentials (oe_platform e) req body))) start t st)"

lemma all_if: "(b \<Longrightarrow> oall.ensures e P m Q) \<Longrightarrow> (\<not> b \<Longrightarrow> oall.ensures e P n Q) \<Longrightarrow> oall.ensures e P (if b then m else n) Q"
  by simp

lemma code_reply_error: "refusal r \<Longrightarrow> code_reply e req body start r st"
  by (auto simp: refusal_def code_reply_def)

lemma grant_ensures:
  assumes fair: "oauth_fair e"
  shows "oall.ensures e (\<lambda>st. world_inv e st \<and> start \<le> os_now st) (handleAuthorizationCodeGrant e req body)
    (code_reply e req body start)"
proof -
  obtain clientId secret where cred: "credentials (oe_platform e) req body = (clientId, secret)" by fastforce
  let ?P = "\<lambda>st. world_inv e st \<and> start \<le> os_now st"
  let ?A = "\<lambda>r st. (world_inv e st \<and> (\<forall>x. r = Inl x \<longrightarrow> refusal x)) \<and> start \<le> os_now st"
  have "oq.lasting e (\<lambda>st. start \<le> os_now st)" by (auto simp: oq.lasting_def)
  with keeps_refusal[of e req "text_of clientId" secret "Some ''authorization_code''"] fair
  have auth: "oall.ensures e ?P (authenticate_client e req (text_of clientId) secret (Some ''authorization_code'')) ?A"
    by (intro quiet_all oq.ensures_frame) (simp_all add: keeps_def)
  have redeem: "oall.ensures e (?A r) (case r of Inl x \<Rightarrow> oa_return x | Inr k \<Rightarrow> redeem_code e body (text_of clientId) k)
      (code_reply e req body start)" for r
  proof (cases r)
    case (Inl x)
    then show ?thesis by (auto intro: oall.ensures_return code_reply_error)
  next
    case (Inr k)
    have "(\<lambda>r st. \<forall>t. r = TokenReply t \<longrightarrow> code_done e body (text_of clientId) start t st) = code_reply e req body start"
      by (simp add: code_reply_def cred fun_eq_iff)
    with redeem_ensures[OF fair, of start body "text_of clientId" k] Inr show ?thesis by simp
  qed
  show ?thesis
    unfolding handleAuthorizationCodeGrant_def cred oa_error_def prod.case
    by (intro all_if oall.ensures_return code_reply_error oall.ensures_bind[OF auth redeem]) (auto simp: refusal_def)
qed

lemma token_ensures:
  assumes "oauth_fair e" "tb_grant_type body = Some ''authorization_code''"
  shows "oall.ensures e (\<lambda>st. world_inv e st \<and> start \<le> os_now st) (token_endpoint e req body) (code_reply e req body start)"
proof -
  have "oall.ensures e (\<lambda>_. True) server_error (code_reply e req body start)"
    unfolding server_error_def oa_error_def by (rule oall.ensures_return, rule code_reply_error) (simp add: refusal_def)
  then show ?thesis
    unfolding token_endpoint_def
    by (intro oall.ensures_catch) (use assms grant_ensures in \<open>simp_all add: is_given_def\<close>)
qed

lemma serve_steps:
  assumes "oauth_fair e" "world_inv e st" "oauth_serve e req call st = (r, st')"
  shows "all_steps e (os_world st) (os_world st')"
proof -
  have quiet: "oall.ensures e (world_inv e) m (\<lambda>_ _. True)" if "keeps e m (\<lambda>_. True)" for m :: "oauth_reply oa"
    using quiet_all[of e "world_inv e" m "\<lambda>_ st. world_inv e st \<and> True"] that assms(1)
    by (auto simp: keeps_def intro: oall.ensures_true)
  have token: "oall.ensures e (world_inv e) (token_endpoint e req body) (\<lambda>_ _. True)" for body
  proof (cases "tb_grant_type body = Some ''authorization_code''")
    case True
    with token_ensures[OF assms(1)] show ?thesis unfolding oall.ensures_def by blast
  next
    case False
    then have "keeps e (token_endpoint e req body) (\<lambda>_. True)"
      unfolding token_endpoint_def
      by (intro keeps_catch keeps_if keeps_errors keeps_refresh) simp_all
    then show ?thesis by (rule quiet)
  qed
  have "oall.ensures e (world_inv e) (oauth_serve e req call) (\<lambda>_ _. True)"
    by (cases call) (simp_all add: token quiet keeps_registration keeps_authorize keeps_page keeps_desk keeps_introspect keeps_revoke)
  from oall.ensuresD(1)[OF this assms(2,3)] show ?thesis .
qed

section \<open>Accepted tokens\<close>

definition token_backed :: "oauth_env \<Rightarrow> oauth_event set \<Rightarrow> string \<Rightarrow> string option \<Rightarrow> oauth_state \<Rightarrow> bool" where
  "token_backed e past token aud st \<longleftrightarrow> (\<exists>t. (world_inv e st \<and> token_source (oe_platform e) (os_world st) t) \<and>
     ot_accessToken t = token \<and> Revoked (ot_tokenId t) \<notin> past \<and> (is_given aud \<longrightarrow> ot_resource t = aud))"

lemma lasting_backed: "oauth_fair e \<Longrightarrow> oq.lasting e (token_backed e past token aud)"
  using lasting_source unfolding oq.lasting_def token_backed_def by blast

lemma stored_ensures:
  assumes fair: "oauth_fair e"
  shows "oq.ensures e (\<lambda>st. world_inv e st \<and> past \<subseteq> set (ow_log (os_world st))) (validate_stored e token aud)
    (\<lambda>stored st. stored \<longrightarrow> token_backed e past token aud st)"
proof -
  let ?F = "\<lambda>found st. \<forall>t. found = Some t \<longrightarrow> \<not> ot_revoked t \<longrightarrow> (is_given aud \<longrightarrow> ot_resource t = aud) \<longrightarrow> token_backed e past token aud st"
  have found: "?F (token_by_access token (os_world st)) st" if "world_inv e st \<and> past \<subseteq> set (ow_log (os_world st))" for st
  proof (intro allI impI)
    fix t assume t: "token_by_access token (os_world st) = Some t" "\<not> ot_revoked t" "is_given aud \<longrightarrow> ot_resource t = aud"
    have mem: "t \<in> set (ow_tokens (os_world st))" "ot_accessToken t = token"
      using t(1) by (auto simp: token_by_access_def find_Some_iff)
    with t(2) that have "Revoked (ot_tokenId t) \<notin> past"
      by (auto simp: world_inv_def oauth_inv_def tokens_inv_def)
    with mem t(3) that found_source show "token_backed e past token aud st" unfolding token_backed_def world_inv_def by blast
  qed
  have last: "oq.lasting e (?F found)" for found
    using lasting_backed[OF fair] unfolding oq.lasting_def by blast
  have read: "oq.ensures e (\<lambda>st. world_inv e st \<and> past \<subseteq> set (ow_log (os_world st))) (oa_read e (token_by_access token)) ?F"
    by (rule oq.ensures_read[OF lasting_log[OF fair] last]) (rule found)
  show ?thesis
    unfolding validate_stored_def
    by (rule oq.ensures_catch, rule oq.ensures_bind[OF read], rule oq.ensures_time_then)
      (auto intro!: oq.ensures_return simp: token_live_def split: option.splits)
qed

definition token_accepted :: "oauth_env \<Rightarrow> oauth_event set \<Rightarrow> string \<Rightarrow> string option \<Rightarrow> auth_info \<Rightarrow> oauth_state \<Rightarrow> bool" where
  "token_accepted e past token aud a st \<longleftrightarrow> token_backed e past token aud st \<and> \<not> au_anonymous a \<and>
     (\<exists>now p. op_verify (oe_platform e) (op_jwtSecret (oe_platform e)) now token = Some p \<and> au_userId a = tp_user_id p \<and>
        au_oauthClientId a = Some (tp_client_id p) \<and> au_oauthScopes a = Some (tp_scopes p))"

lemma quiet_option:
  "(v = None \<Longrightarrow> oq.ensures e P m Q) \<Longrightarrow> (\<And>x. v = Some x \<Longrightarrow> oq.ensures e P (f x) Q) \<Longrightarrow>
   oq.ensures e P (case v of None \<Rightarrow> m | Some x \<Rightarrow> f x) Q"
  by (cases v) auto

lemma accepted_ensures:
  assumes fair: "oauth_fair e"
  shows "oq.ensures e (\<lambda>st. world_inv e st \<and> past \<subseteq> set (ow_log (os_world st))) (oauth_validateToken e token aud)
    (\<lambda>r st. \<forall>a. r = Inr a \<longrightarrow> token_accepted e past token aud a st)" (is "oq.ensures e ?P _ ?Q")
proof -
  have invalid: "oq.ensures e P (oa_return (Inl err)) ?Q" for P and err :: string by (rule oq.ensures_return) simp
  have user: "oq.ensures e (token_backed e past token aud) (oa_read e (find_user i))
      (\<lambda>found st. token_backed e past token aud st \<and> (\<forall>u. found = Some u \<longrightarrow> us_userId u = i))" for i
    by (rule oq.ensures_read[OF lasting_backed[OF fair] oq.lasting_conj[OF lasting_backed[OF fair] oq.lasting_const]])
      (auto simp: find_user_def find_Some_iff)
  have rest: "oq.ensures e (\<lambda>st. stored \<longrightarrow> token_backed e past token aud st)
      (if \<not> stored then oa_return (Inl ''Token has been revoked'')
       else oa_bind (oa_read e (find_user (tp_user_id p))) (\<lambda>found.
         oa_bind oa_time (\<lambda>now1.
           case found of
             None \<Rightarrow> oa_return (Inl ''User not found'')
           | Some u \<Rightarrow>
               if us_status u \<noteq> UserEnabled then oa_return (Inl ''User is not active'')
               else if user_expired u now1 then oa_return (Inl ''User has expired'')
               else oa_bind (oa_some ''SyntaxError'' (us_permissions u)) (\<lambda>permissions.
                 oa_bind (oa_some ''SyntaxError'' (us_userPreferences u)) (\<lambda>prefs.
                   oa_return (Inr (auth_context_of u token permissions prefs
                     (Some (tp_client_id p, tp_scopes p, tp_exp p))))))))) ?Q"
    if p: "op_verify (oe_platform e) (op_jwtSecret (oe_platform e)) now token = Some p" for stored p now
    by (rule quiet_if, rule invalid, rule oq.ensures_strengthen[of e "token_backed e past token aud"],
        rule oq.ensures_bind[OF user], rule oq.ensures_time_then)
      (intro quiet_option quiet_if invalid oq.ensures_some_then oq.ensures_return,
        use p in \<open>auto simp: token_accepted_def auth_context_of_def\<close>)
  show ?thesis
    unfolding oauth_validateToken_def Let_def
    by (intro quiet_if invalid oq.ensures_catch oq.ensures_time_then quiet_option)
      (rule oq.ensures_strengthen[OF oq.ensures_bind[OF stored_ensures[OF fair] rest]], assumption, simp)
qed

section \<open>Properties\<close>

text \<open>
  C9: the authorization server refines the transition system \<^const>\<open>oauth_step\<close>. Whatever request is served, from a
  reachable state, with the handlers of other requests running at every \<open>await\<close>, the state reached
  is again reachable by steps of the system, so its invariant holds: clients are well-formed and
  unique, codes are redeemed once, at most one token record is made from a code, and records grant no more than
  the code they came from.
\<close>

theorem oauth_refines:
  assumes "oauth_fair e" "oauth_reach (oe_platform e) (os_world st)" "oauth_serve e req call st = (r, st')"
  shows "(oauth_step (oe_platform e) UNIV)\<^sup>*\<^sup>* (os_world st) (os_world st') \<and> oauth_inv (oe_platform e) (os_world st')"
proof -
  have "world_inv e st" using reach_inv[OF assms(2)] by (simp add: world_inv_def)
  from serve_steps[OF assms(1) this assms(3)] assms(1)
  have "(oauth_step (oe_platform e) UNIV)\<^sup>*\<^sup>* (os_world st) (os_world st')" by (simp add: all_steps_def)
  with reach_steps[OF assms(2)] reach_inv show ?thesis by blast
qed

text \<open>
  C2: an authorization code gives tokens once, and only to whom it was issued. A successful exchange means that
  the code was issued to the client of the request for the given redirection, that the
  verifier hashes to its challenge, that it had not expired when the request came, that no request redeemed it
  before and none but this one ever did, and that the access token is signed for the user and the scopes of the
  authorization.
\<close>

theorem oauth_code_once:
  assumes "oauth_fair e" "oauth_reach (oe_platform e) (os_world st)"
    and new: "\<And>code. Redeemed code (oe_self e) \<notin> set (ow_log (os_world st))"
    and run: "token_endpoint e req body st = (Inr (TokenReply t), st')" "tb_grant_type body = Some ''authorization_code''"
  shows "\<exists>c i now. Authorized c \<in> set (ow_log (os_world st')) \<and> co_code c = text_of (tb_code body) \<and>
    co_clientId c = text_of (fst (credentials (oe_platform e) req body)) \<and> Some (co_redirectUri c) = tb_redirect_uri body \<and>
    co_codeChallenge c = Some (op_sha256 (oe_platform e) (text_of (tb_code_verifier body))) \<and>
    os_now st \<le> co_expiresAt c \<and> co_code c \<notin> set (redeemed (ow_log (os_world st))) \<and>
    (\<forall>j. Redeemed (co_code c) j \<in> set (ow_log (os_world st')) \<longleftrightarrow> j = oe_self e) \<and>
    Issued i (co_code c) \<in> set (ow_log (os_world st')) \<and>
    tk_access_token t = op_sign (oe_platform e) (op_jwtSecret (oe_platform e))
      (access_payload (co_clientId c) (co_userId c) (co_scopes c) (co_resource c) now)"
proof -
  have inv: "world_inv e st" using reach_inv[OF assms(2)] by (simp add: world_inv_def)
  note run' = oall.ensuresD[OF token_ensures[OF assms(1) run(2), of "os_now st" req] _ run(1)]
  have steps: "(oauth_step (oe_platform e) UNIV)\<^sup>*\<^sup>* (os_world st) (os_world st')"
    using run'(1) inv assms(1) by (simp add: all_steps_def)
  then have final: "oauth_inv (oe_platform e) (os_world st')" using reach_steps[OF assms(2)] reach_inv by blast
  have past: "set (ow_log (os_world st)) \<subseteq> set (ow_log (os_world st'))" by (rule steps_log_subset[OF steps])
  have "code_done e body (text_of (fst (credentials (oe_platform e) req body))) (os_now st) t st'"
    using run'(3) inv by (simp add: code_reply_def)
  then obtain c i date now where
    log: "Authorized c \<in> set (ow_log (os_world st'))" "Redeemed (co_code c) (oe_self e) \<in> set (ow_log (os_world st'))"
      "Issued i (co_code c) \<in> set (ow_log (os_world st'))"
    and c: "co_code c = text_of (tb_code body)"
      "code_refusal (oe_platform e) body (text_of (fst (credentials (oe_platform e) req body))) date (Some c) = None" "os_now st \<le> date"
    and sign: "tk_access_token t = op_sign (oe_platform e) (op_jwtSecret (oe_platform e))
      (access_payload (co_clientId c) (co_userId c) (co_scopes c) (co_resource c) now)"
    unfolding code_done_def by auto
  have only: "Redeemed (co_code c) j \<in> set (ow_log (os_world st')) \<longleftrightarrow> j = oe_self e" for j
    using redeemed_by_one log(2) final unfolding oauth_inv_def log_inv_def by metis
  have before: "co_code c \<notin> set (redeemed (ow_log (os_world st)))"
  proof
    assume "co_code c \<in> set (redeemed (ow_log (os_world st)))"
    then obtain j where j: "Redeemed (co_code c) j \<in> set (ow_log (os_world st))" by (auto simp: log_members)
    with past have "j = oe_self e" using only by blast
    with j new show False by simp
  qed
  have "co_clientId c = text_of (fst (credentials (oe_platform e) req body))" "Some (co_redirectUri c) = tb_redirect_uri body"
    "co_codeChallenge c = Some (op_sha256 (oe_platform e) (text_of (tb_code_verifier body)))" "os_now st \<le> co_expiresAt c"
    using c(2,3) by (auto simp: code_refusal_def verifyPKCEChallenge_def is_given_def text_of_def split: if_splits option.splits)
  with log(1,3) c(1) only before sign show ?thesis by (intro exI[of _ c] exI[of _ i] exI[of _ now]) auto
qed

text \<open>
  C3: an accepted access token rests on an authorization. Where signing is what the library documents, a
  token that the validator accepts descends from a code that was issued to its client on behalf of its user,
  carries no scope beyond those of the code, was not revoked before the validation began, and, when an
  audience is expected, was issued for that audience.
\<close>

theorem oauth_token_sound:
  assumes "oauth_fair e" "oauth_reach (oe_platform e) (os_world st)"
    and jwt: "\<And>now p. op_verify (oe_platform e) (op_jwtSecret (oe_platform e)) now
      (op_sign (oe_platform e) (op_jwtSecret (oe_platform e)) p) = (if now < tp_exp p then Some p else None)"
    and run: "oauth_validateToken e token aud st = (Inr (Inr a), st')"
  shows "\<exists>c i. Authorized c \<in> set (ow_log (os_world st')) \<and> Issued i (co_code c) \<in> set (ow_log (os_world st')) \<and>
    Revoked i \<notin> set (ow_log (os_world st)) \<and> au_userId a = co_userId c \<and> au_oauthClientId a = Some (co_clientId c) \<and>
    (\<exists>ss. au_oauthScopes a = Some ss \<and> set ss \<subseteq> set (co_scopes c)) \<and> (is_given aud \<longrightarrow> co_resource c = aud)"
proof -
  have "world_inv e st" using reach_inv[OF assms(2)] by (simp add: world_inv_def)
  then have "token_accepted e (set (ow_log (os_world st))) token aud a st'"
    using oq.ensuresD(3)[OF accepted_ensures[OF assms(1)] _ run] by simp
  then obtain t now p where t: "token_source (oe_platform e) (os_world st') t" "ot_accessToken t = token"
      "Revoked (ot_tokenId t) \<notin> set (ow_log (os_world st))" "is_given aud \<longrightarrow> ot_resource t = aud"
    and p: "op_verify (oe_platform e) (op_jwtSecret (oe_platform e)) now token = Some p" "au_userId a = tp_user_id p"
      "au_oauthClientId a = Some (tp_client_id p)" "au_oauthScopes a = Some (tp_scopes p)"
    unfolding token_accepted_def token_backed_def by blast
  from t(1) obtain c where c: "Authorized c \<in> set (ow_log (os_world st'))" "Issued (ot_tokenId t) (co_code c) \<in> set (ow_log (os_world st'))"
    "token_for (oe_platform e) c t" unfolding token_source_def by blast
  then obtain made where "ot_accessToken t = op_sign (oe_platform e) (op_jwtSecret (oe_platform e))
      (access_payload (ot_clientId t) (ot_userId t) (ot_scopes t) (ot_resource t) made)"
    unfolding token_for_def by blast
  with p(1) t(2) jwt have "p = access_payload (ot_clientId t) (ot_userId t) (ot_scopes t) (ot_resource t) made"
    by (auto split: if_splits)
  with c t(3,4) p show ?thesis
    by (intro exI[of _ c] exI[of _ "ot_tokenId t"]) (auto simp: token_for_def access_payload_def)
qed

text \<open>
  C19: the rows of the authorization server are well-formed. After any request, from a reachable state, every client
  has redirections, all of them to TLS or to the machine of the user, asks only for supported grants
  and responses, and has a secret exactly if it is confidential; no two clients share a name; and every code
  is bound to such a redirection and to an S256 challenge.
\<close>

theorem oauth_rows_typed:
  assumes "oauth_fair e" "oauth_reach (oe_platform e) (os_world st)" "oauth_serve e req call st = (r, st')"
  shows "distinct (map oc_clientId (ow_clients (os_world st'))) \<and>
    (\<forall>c\<in>set (ow_clients (os_world st')). oc_redirectUris c \<noteq> [] \<and> list_all (redirect_safe (oe_platform e)) (oc_redirectUris c) \<and>
       set (oc_grantTypes c) \<subseteq> {''authorization_code'', ''refresh_token''} \<and> set (oc_responseTypes c) \<subseteq> {''code''} \<and>
       (oc_clientSecret c = None \<longleftrightarrow> oc_tokenEndpointAuthMethod c = ''none'')) \<and>
    (\<forall>c\<in>set (ow_codes (os_world st')). redirect_safe (oe_platform e) (co_redirectUri c) \<and> is_given (co_codeChallenge c) \<and>
       co_challengeMethod c = Some ''S256'')"
proof -
  have "world_inv e st" using reach_inv[OF assms(2)] by (simp add: world_inv_def)
  from serve_steps[OF assms(1) this assms(3)] assms(1)
  have "(oauth_step (oe_platform e) UNIV)\<^sup>*\<^sup>* (os_world st) (os_world st')" by (simp add: all_steps_def)
  with reach_steps[OF assms(2)] reach_inv have inv: "oauth_inv (oe_platform e) (os_world st')" by blast
  have codes: "code_ok (oe_platform e) (c\<lparr>co_used := False\<rparr>)" if "c \<in> set (ow_codes (os_world st'))" for c
    using inv that unfolding oauth_inv_def codes_inv_def log_inv_def by blast
  have "redirect_safe (oe_platform e) (co_redirectUri c) \<and> is_given (co_codeChallenge c) \<and> co_challengeMethod c = Some ''S256''"
    if "c \<in> set (ow_codes (os_world st'))" for c
    using codes[OF that] by (simp add: code_ok_def)
  with inv show ?thesis by (auto simp: oauth_inv_def clients_inv_def client_ok_def SUPPORTED_GRANTS_def)
qed

section \<open>Where metadata is fetched\<close>

text \<open>The addresses a fetch may go to: public ones, and fake ones of a local proxy where they are allowed.\<close>

definition fetchable :: "oauth_platform \<Rightarrow> string \<Rightarrow> bool" where
  "fetchable pf a \<longleftrightarrow> isPublicIpAddress pf a \<or> isFakeIpAddress pf a \<and> allowFakeIpClientMetadata pf"

lemma checked_fetchable: "check_addresses pf direct as = None \<Longrightarrow> \<forall>a\<in>set as. fetchable pf a"
  by (induction pf direct as rule: check_addresses.induct) (auto simp: fetchable_def split: if_splits)

lemma bind_cong: "(\<And>x st1. m st = (Inr x, st1) \<Longrightarrow> f x st1 = g x st1) \<Longrightarrow> oa_bind m f st = oa_bind m g st"
  by (auto simp: oa_bind_def split: prod.splits sum.splits)

lemma pass_fetch: "oa_pass (e\<lparr>oe_fetch := f\<rparr>) = oa_pass e"
  by (simp add: oa_pass_def fun_eq_iff)

lemma platform_fetch: "oe_platform (e\<lparr>oe_fetch := f\<rparr>) = oe_platform e"
  by simp

lemma pinned_same:
  assumes "\<forall>a\<in>set as. \<forall>k u. f k u a = oe_fetch e k u a"
  shows "fetchPinnedMetadataDocument (e\<lparr>oe_fetch := f\<rparr>) url as = fetchPinnedMetadataDocument e url as"
  using assms by (induction as) (auto simp: fun_eq_iff oa_bind_def oa_ask_def pass_fetch split: option.splits)

lemma target_same: "validatePublicNetworkTarget (e\<lparr>oe_fetch := f\<rparr>) u = validatePublicNetworkTarget e u"
  by (simp add: validatePublicNetworkTarget_def oa_ask_def pass_fetch Let_def fun_eq_iff oa_bind_def)

lemma target_addresses:
  assumes "validatePublicNetworkTarget e u st = (Inr (Inr addresses), st')"
  shows "\<forall>a\<in>set addresses. fetchable (oe_platform e) a"
  using assms
  by (auto simp: validatePublicNetworkTarget_def oa_bind_def oa_ask_def oa_return_def oa_throw_def Let_def
      split: if_splits option.splits dest!: checked_fetchable) (simp add: fetchable_def)


end
