(* ===== verification/Gate_Safety.thy ===== *)
theory Gate_Safety
  imports Gatekeeper OAuth_Safety
begin

text \<open>
  What the gate guarantees. The operations on sessions make only steps of \<^const>\<open>oauth_step\<close>, so the
  invariant of the sessions holds whatever other requests do; from it, and from the
  validation of tokens, follows on whose behalf a request that passes can act.
\<close>

section \<open>Operations on the store are steps\<close>

definition store_ok :: "oauth_platform \<Rightarrow> oauth_world \<Rightarrow> session_store \<Rightarrow> bool" where
  "store_ok pf w ss \<longleftrightarrow> store_extends (ow_store w) ss \<and> store_refs ss \<and> (\<forall>s\<in>set (ss_heap ss). session_ok pf w s)"

lemma store_step: "store_ok pf w ss \<Longrightarrow> oauth_step pf S w (w\<lparr>ow_store := ss\<rparr>)"
  by (auto simp: store_ok_def intro: st_store)

lemma store_same: "oauth_inv pf w \<Longrightarrow> store_ok pf w (ow_store w)"
  by (simp add: store_ok_def oauth_inv_def sessions_inv_def)

lemma store_do:
  assumes fair: "oauth_fair e"
    and "\<And>st x ss. world_inv e st \<Longrightarrow> P st \<Longrightarrow> f (os_now st) (ow_store (os_world st)) = (x, ss) \<Longrightarrow>
      store_ok (oe_platform e) (os_world st) ss \<and> Q x (st\<lparr>os_world := (os_world st)\<lparr>ow_store := ss\<rparr>\<rparr>)"
  shows "oq.ensures e (\<lambda>st. world_inv e st \<and> P st) (ss_do f) (\<lambda>x st. world_inv e st \<and> Q x st)"
  unfolding ss_do_def
proof (rule oq.ensures_act)
  fix st x w
  assume pre: "world_inv e st \<and> P st"
    and run: "(case f (os_now st) (ow_store (os_world st)) of (x, ss) \<Rightarrow> (x, (os_world st)\<lparr>ow_store := ss\<rparr>)) = (x, w)"
  obtain ss where w: "f (os_now st) (ow_store (os_world st)) = (x, ss)" "w = (os_world st)\<lparr>ow_store := ss\<rparr>"
    using run by (auto split: prod.splits)
  note res = assms(2)[OF _ _ w(1)]
  then have step: "oauth_step (oe_platform e) (- {oe_self e}) (os_world st) w" using pre w(2) store_step by blast
  with pre res w(2) show "others_steps e (os_world st) w \<and> world_inv e (st\<lparr>os_world := w\<rparr>) \<and> Q x (st\<lparr>os_world := w\<rparr>)"
    using step_inv[OF step] by (auto simp: others_stepI world_inv_def)
qed

lemma keeps_store:
  assumes "\<And>now w x ss. oauth_inv (oe_platform e) w \<Longrightarrow> f now (ow_store w) = (x, ss) \<Longrightarrow> store_ok (oe_platform e) w ss"
  shows "keeps e (ss_do f) (\<lambda>_. True)"
  unfolding keeps_def
proof
  assume "oauth_fair e"
  from store_do[OF this, where P = "\<lambda>_. True" and Q = "\<lambda>_ _. True" and f = f] assms
  show "oq.ensures e (world_inv e) (ss_do f) (\<lambda>x st. world_inv e st \<and> True)" unfolding world_inv_def by simp
qed

text \<open>Changes that leave the sessions themselves alone.\<close>

definition shrinks :: "session_store \<Rightarrow> session_store \<Rightarrow> bool" where
  "shrinks ss ss' \<longleftrightarrow> ss_heap ss' = ss_heap ss \<and> set (ss_sessions ss') \<subseteq> set (ss_sessions ss)"

lemma shrinks_ok: "oauth_inv pf w \<Longrightarrow> shrinks (ow_store w) ss \<Longrightarrow> store_ok pf w ss"
  by (auto simp: shrinks_def store_ok_def oauth_inv_def sessions_inv_def store_refs_def store_extends_def)

lemma keeps_shrinks: "(\<And>now ss. shrinks ss (snd (f now ss))) \<Longrightarrow> keeps e (ss_do f) (\<lambda>_. True)"
  by (rule keeps_store) (metis shrinks_ok snd_conv)

lemma keeps_get: "keeps e (ss_get f) (\<lambda>_. True)"
  unfolding ss_get_def by (rule keeps_shrinks) (simp add: shrinks_def)

lemma keeps_set: "(\<And>now ss. shrinks ss (f now ss)) \<Longrightarrow> keeps e (ss_set f) (\<lambda>_. True)"
  unfolding ss_set_def by (rule keeps_shrinks) simp

text \<open>Changes of one session that keep its key and its meaning.\<close>

definition mild :: "(client_session \<Rightarrow> client_session) \<Rightarrow> bool" where
  "mild f \<longleftrightarrow> (\<forall>s. session_key (f s) = session_key s \<and> au_userId (cs_auth (f s)) = au_userId (cs_auth s) \<and>
     au_role (cs_auth (f s)) = au_role (cs_auth s))"

lemma session_ok_same:
  assumes "session_key s' = session_key s" "au_userId (cs_auth s') = cs_userId s" "au_anonymous (cs_auth s) \<longrightarrow> au_role (cs_auth s') = 4"
    "session_ok pf w s"
  shows "session_ok pf w s'"
  using assms by (auto simp: session_ok_def session_key_def split: if_splits)

lemma change_heap:
  "ss_heap (change_session r f ss) = (if r < length (ss_heap ss) then (ss_heap ss)[r := f (ss_heap ss ! r)] else ss_heap ss)"
  by (simp add: change_session_def session_at_def list_update_beyond)

lemma change_same [simp]:
  "ss_sessions (change_session r f ss) = ss_sessions ss" "ss_userSessions (change_session r f ss) = ss_userSessions ss"
  "length (ss_heap (change_session r f ss)) = length (ss_heap ss)"
  by (simp_all add: change_session_def)

lemma change_ok:
  assumes "store_ok pf w ss" "r < length (ss_heap ss) \<Longrightarrow> session_key (f (ss_heap ss ! r)) = session_key (ss_heap ss ! r) \<and> session_ok pf w (f (ss_heap ss ! r))"
  shows "store_ok pf w (change_session r f ss)"
proof -
  have keys: "session_key (ss_heap (change_session r f ss) ! i) = session_key (ss_heap ss ! i)" if "i < length (ss_heap ss)" for i
    using assms(2) that by (auto simp: change_heap nth_list_update)
  then have names: "cs_sessionId (ss_heap (change_session r f ss) ! i) = cs_sessionId (ss_heap ss ! i)" if "i < length (ss_heap ss)" for i
    using that by (simp add: session_key_def)
  have "session_ok pf w s" if "s \<in> set (ss_heap (change_session r f ss))" for s
    using that assms by (auto simp: store_ok_def change_heap split: if_splits dest!: subsetD[OF set_update_subset_insert])
  moreover have "store_extends (ow_store w) (change_session r f ss)"
    using assms(1) keys by (auto simp: store_ok_def store_extends_def)
  moreover have "store_refs (change_session r f ss)"
    using assms(1) names by (auto simp: store_ok_def store_refs_def)
  ultimately show ?thesis by (simp add: store_ok_def)
qed

lemma mild_session:
  assumes "mild f" "session_ok pf w s"
  shows "session_key (f s) = session_key s \<and> session_ok pf w (f s)"
proof -
  have "session_key (f s) = session_key s" "au_userId (cs_auth (f s)) = cs_userId s" "au_role (cs_auth (f s)) = au_role (cs_auth s)"
    using assms by (auto simp: mild_def session_ok_def)
  moreover have "au_anonymous (cs_auth s) \<longrightarrow> au_role (cs_auth s) = 4" using assms(2) by (auto simp: session_ok_def)
  ultimately show ?thesis using session_ok_same[OF _ _ _ assms(2)] by simp
qed

lemma mild_ok: "mild f \<Longrightarrow> store_ok pf w ss \<Longrightarrow> store_ok pf w (change_session r f ss)"
  by (rule change_ok) (auto intro!: mild_session simp: store_ok_def)

lemma keeps_mild: "(\<And>now. mild (f now)) \<Longrightarrow> keeps e (ss_do (\<lambda>now ss. (g now ss, change_session r (f now) ss))) (\<lambda>_. True)"
  by (rule keeps_store) (auto intro: mild_ok store_same)

lemma keeps_mild_set: "(\<And>now. mild (f now)) \<Longrightarrow> keeps e (ss_set (\<lambda>now. change_session r (f now))) (\<lambda>_. True)"
  unfolding ss_set_def by (rule keeps_mild)

section \<open>The methods of the store\<close>

lemma keeps_wait: "keeps e (oa_wait e) (\<lambda>_. True)"
  unfolding oa_wait_def by (rule keeps_pure)

lemma keeps_each: "(\<And>x. keeps e (f x) (\<lambda>_. True)) \<Longrightarrow> keeps e (oa_each f xs) (\<lambda>_. True)"
  by (induction xs) (simp_all add: keeps_rules)

lemma delete_subset: "set (AList.delete k xs) \<subseteq> set xs"
  by (auto simp: AList.delete_eq)

lemma dropped:
  "shrinks ss (drop_session i ss)" "shrinks ss (drop_records i ss)"
  "shrinks ss (snd (unlist_session i u (drop_records i (drop_session i ss))))"
  "shrinks ss (pruneTerminatedSessions now ss)" "shrinks ss (recordTerminatedSession pf now s ss)"
  "shrinks ss (snd (consumeTerminatedSession pf v a token now ss))"
  by (auto simp: shrinks_def drop_session_def drop_records_def unlist_session_def recordTerminatedSession_def
      pruneTerminatedSessions_def consumeTerminatedSession_def Let_def split: option.splits dest: subsetD[OF delete_subset])

lemma shrinks_refl: "shrinks ss ss"
  by (simp add: shrinks_def)

lemma keeps_close: "keeps e (close_session e r) (\<lambda>_. True)"
  unfolding close_session_def
  by (intro keeps_then keeps_if keeps_pure keeps_wait keeps_mild) (simp add: mild_def session_key_def)

lemma keeps_removal:
  "keeps e (removeSingleSession e i reason preserve) (\<lambda>_. True)" "keeps e (end_session e task) (\<lambda>_. True)"
  "keeps e (shut_session e task') (\<lambda>_. True)"
  unfolding removeSingleSession_def end_session_def shut_session_def
  by (intro keeps_then keeps_option keeps_prod keeps_if keeps_pure keeps_wait keeps_close keeps_set keeps_shrinks;
      simp add: dropped shrinks_refl split: option.splits)+

lemma keeps_removeAll: "keeps e (removeAllUserSessions e userId reason) (\<lambda>_. True)"
  unfolding removeAllUserSessions_def
  by (intro keeps_then keeps_get keeps_prod keeps_if keeps_pure keeps_each keeps_removal keeps_wait keeps_set)
    (simp add: shrinks_def)

lemma keeps_removeSession: "keeps e (removeSession e i reason b) (\<lambda>_. True)"
  unfolding removeSession_def by (intro keeps_then keeps_get keeps_option keeps_if keeps_pure keeps_removeAll keeps_removal)

lemma keeps_store_ends:
  "keeps e (terminateSession e i reason) (\<lambda>_. True)" "keeps e (removeAllSessions e) (\<lambda>_. True)"
  "keeps e (cleanupExpiredSessions e) (\<lambda>_. True)"
  unfolding terminateSession_def removeAllSessions_def cleanupExpiredSessions_def
  by (intro keeps_then keeps_get keeps_option keeps_prod keeps_catch keeps_pure keeps_throw keeps_each keeps_removal
      keeps_removeSession keeps_set; simp add: shrinks_def)+

lemma fold_mild: "mild f \<Longrightarrow> store_ok pf w ss \<Longrightarrow> store_ok pf w (fold (\<lambda>r. change_session r f) refs ss)"
  by (induction refs arbitrary: ss) (auto intro: mild_ok)

lemma keeps_preferences: "keeps e (updateUserPreferences e userId) (\<lambda>_. True)"
  unfolding updateUserPreferences_def ss_set_def
  by (intro keeps_then keeps_get keeps_option keeps_if keeps_pure keeps_throw keeps_store)
    (auto simp: mild_def session_key_def intro!: fold_mild store_same)

section \<open>Requests of a session\<close>

text \<open>What is known of a session for as long as the gateway runs.\<close>

definition has_key :: "nat \<Rightarrow> string \<times> string \<times> string \<times> bool \<Rightarrow> oauth_world \<Rightarrow> bool" where
  "has_key r key w \<longleftrightarrow> r < length (ss_heap (ow_store w)) \<and> session_key (ss_heap (ow_store w) ! r) = key"

lemma step_key: "oauth_step pf S w w' \<Longrightarrow> has_key r key w \<Longrightarrow> has_key r key w'"
  by (induction rule: oauth_step.induct) (auto simp: has_key_def store_extends_def)

lemma lasting_key: "oauth_fair e \<Longrightarrow> oq.lasting e (\<lambda>st. world_inv e st \<and> has_key r key (os_world st))"
  by (rule lasting_steps) (auto intro: step_key)

lemma quiet_catch:
  assumes "oq.ensures e P m Q" "oq.lasting e F" "\<And>st. P st \<Longrightarrow> F st" "\<And>err. oq.ensures e F (h err) Q"
  shows "oq.ensures e P (oa_catch m h) Q"
  unfolding oq.ensures_def
proof (intro allI impI)
  fix st x st'
  assume P: "P st" and run: "oa_catch m h st = (x, st')"
  obtain v st1 where m: "m st = (v, st1)" by fastforce
  then have later: "oq.later e st st1" "\<And>y. v = Inr y \<Longrightarrow> Q y st1" using assms(1) P unfolding oq.ensures_def by blast+
  then have F: "F st1" using assms(2,3) P unfolding oq.lasting_def oq.later_def by blast
  show "oq.later e st st' \<and> (\<forall>y. x = Inr y \<longrightarrow> Q y st')"
  proof (cases v)
    case (Inl err)
    then have "h err st1 = (x, st')" using run m by (simp add: oa_catch_def)
    with assms(4) F have "oq.later e st1 st'" "\<forall>y. x = Inr y \<longrightarrow> Q y st'" unfolding oq.ensures_def by blast+
    with later(1) oq.later_trans show ?thesis by blast
  next
    case (Inr y)
    with run m later show ?thesis by (auto simp: oa_catch_def)
  qed
qed

text \<open>A computation of which only matters that it keeps the invariant keeps every lasting condition.\<close>

lemma quiet_lasting:
  assumes "oq.ensures e P m Q" "oq.lasting e F" "\<And>st. P' st \<Longrightarrow> P st \<and> F st"
  shows "oq.ensures e P' m (\<lambda>_. F)"
  using oq.ensures_strengthen[OF oq.ensures_frame[OF assms(1,2)] assms(3)] oq.ensures_weaken by fastforce

lemma quiet_keeps:
  assumes "oauth_fair e" "keeps e m B" "oq.lasting e F" "\<And>st. P st \<Longrightarrow> world_inv e st \<and> F st"
  shows "oq.ensures e P m (\<lambda>_. F)"
  using assms(1,2) quiet_lasting[OF _ assms(3,4)] by (auto simp: keeps_def)

lemma key_session:
  assumes "oauth_inv pf w" "has_key r (i, u, t, b) w"
  shows "r < length (ss_heap (ow_store w))" "session_ok pf w (ss_heap (ow_store w) ! r)"
    "cs_sessionId (ss_heap (ow_store w) ! r) = i" "cs_userId (ss_heap (ow_store w) ! r) = u" "cs_token (ss_heap (ow_store w) ! r) = t"
    "au_anonymous (cs_auth (ss_heap (ow_store w) ! r)) = b" "au_userId (cs_auth (ss_heap (ow_store w) ! r)) = u"
  using assms by (auto simp: has_key_def session_key_def oauth_inv_def sessions_inv_def session_ok_def)

lemma found_key:
  assumes "oauth_inv pf w" "getSession i (ow_store w) = Some r"
  shows "\<exists>key. has_key r key w"
proof -
  have "(i, r) \<in> set (ss_sessions (ow_store w))" using assms(2) map_of_SomeD by (fastforce simp: getSession_def)
  then have "has_key r (session_key (ss_heap (ow_store w) ! r)) w"
    using assms(1) by (auto simp: has_key_def oauth_inv_def sessions_inv_def store_refs_def)
  then show ?thesis ..
qed

lemma get_run: "ss_get f st = (Inr (f (os_now st) (ow_store (os_world st))), st)"
  by (simp add: ss_get_def ss_do_def oa_act_def)

lemma get_ensures: "(\<And>st. P st \<Longrightarrow> Q (f (os_now st) (ow_store (os_world st))) st) \<Longrightarrow> oq.ensures e P (ss_get f) Q"
  by (auto simp: oq.ensures_def get_run oq.later_refl)

lemma quiet_never: "oq.ensures e (\<lambda>st. P st \<and> False) m Q" "oq.ensures e (\<lambda>st. False) m Q"
  by (simp_all add: oq.ensures_def)

lemma refresh_ensures:
  assumes fair: "oauth_fair e"
  shows "oq.ensures e (\<lambda>st. world_inv e st \<and> has_key r (i, u, t, False) (os_world st)) (refreshUserInfo e r) (\<lambda>_ _. True)"
proof -
  let ?K = "\<lambda>st. has_key r (i, u, t, False) (os_world st)"
  let ?F = "\<lambda>found st. (world_inv e st \<and> ?K st) \<and> (\<forall>x. found = Some x \<longrightarrow> us_userId x = u)"
  have user: "oq.ensures e (\<lambda>st. world_inv e st \<and> ?K st) (ss_get (\<lambda>now ss. cs_userId (session_at ss r)))
      (\<lambda>x st. world_inv e st \<and> ?K st \<and> x = u)"
    by (rule get_ensures) (auto simp: session_at_def has_key_def session_key_def)
  have "oq.ensures e (\<lambda>st. world_inv e st \<and> ?K st) (oa_read e (find_user u)) ?F"
    by (rule oq.ensures_read[OF lasting_key[OF fair] oq.lasting_conj[OF lasting_key[OF fair] oq.lasting_const]])
      (auto simp: find_user_def find_Some_iff)
  then have read: "oq.ensures e (\<lambda>st. world_inv e st \<and> ?K st \<and> x = u) (oa_read e (find_user x)) ?F" for x
    by (cases "x = u") (simp_all add: quiet_never)
  have set: "oq.ensures e (\<lambda>st. world_inv e st \<and> ?K st)
      (ss_set (\<lambda>now. change_session r (\<lambda>s. s\<lparr>cs_auth := refreshed_context x s p q\<rparr>))) (\<lambda>_ st. world_inv e st \<and> True)"
    if "us_userId x = u" for x p q
    unfolding ss_set_def
  proof (rule store_do[OF fair])
    fix st :: oauth_state and y ss
    let ?s = "ss_heap (ow_store (os_world st)) ! r"
    assume inv: "world_inv e st" and key: "?K st"
      and run: "((), change_session r (\<lambda>s. s\<lparr>cs_auth := refreshed_context x s p q\<rparr>) (ow_store (os_world st))) = (y, ss)"
    note k = key_session[OF inv[unfolded world_inv_def] key]
    have "session_ok (oe_platform e) (os_world st) (?s\<lparr>cs_auth := refreshed_context x ?s p q\<rparr>)"
      using k that by (intro session_ok_same[OF _ _ _ k(2)]) (auto simp: session_key_def refreshed_context_def auth_context_of_def)
    moreover have "session_key (?s\<lparr>cs_auth := refreshed_context x ?s p q\<rparr>) = session_key ?s"
      by (simp add: session_key_def refreshed_context_def)
    ultimately show "store_ok (oe_platform e) (os_world st) ss \<and> True"
      using run change_ok[OF store_same[OF inv[unfolded world_inv_def]], of r "\<lambda>s. s\<lparr>cs_auth := refreshed_context x s p q\<rparr>"] by simp
  qed
  have rest: "oq.ensures e (?F found) (case found of
         None \<Rightarrow> oa_throw ''User not found''
       | Some u \<Rightarrow>
           oa_bind (oa_some ''SyntaxError'' (us_permissions u)) (\<lambda>permissions.
           oa_bind (oa_some ''SyntaxError'' (us_userPreferences u)) (\<lambda>preferences.
           ss_set (\<lambda>now. change_session r (\<lambda>s. s\<lparr>cs_auth := refreshed_context u s permissions preferences\<rparr>))))) (\<lambda>_ _. True)" for found
  proof (cases found)
    case (Some x)
    show ?thesis
    proof (cases "us_userId x = u")
      case True
      have "oq.ensures e (\<lambda>st. world_inv e st \<and> ?K st) (oa_bind (oa_some ''SyntaxError'' (us_permissions x)) (\<lambda>permissions.
           oa_bind (oa_some ''SyntaxError'' (us_userPreferences x)) (\<lambda>preferences.
           ss_set (\<lambda>now. change_session r (\<lambda>s. s\<lparr>cs_auth := refreshed_context x s permissions preferences\<rparr>))))) (\<lambda>_ _. True)"
        by (intro oq.ensures_some_then) (rule oq.ensures_true[OF set[OF True]])
      then show ?thesis using Some by (simp add: True)
    qed (simp add: Some quiet_never)
  qed (simp add: oq.ensures_throw)
  show ?thesis unfolding refreshUserInfo_def by (rule oq.ensures_bind[OF user], rule oq.ensures_bind[OF read], rule rest)
qed

text \<open>Where signing is what the library documents: a signed payload is what verification returns until it expires.\<close>

definition jwt_law :: "oauth_platform \<Rightarrow> bool" where
  "jwt_law pf \<longleftrightarrow> (\<forall>now p. op_verify pf (op_jwtSecret pf) now (op_sign pf (op_jwtSecret pf) p) = (if now < tp_exp p then Some p else None))"

lemma signed_payload:
  assumes "jwt_law pf" "token_source pf w t" "op_verify pf (op_jwtSecret pf) now (ot_accessToken t) = Some p"
  shows "tp_user_id p = ot_userId t"
proof -
  from assms(2) obtain made where "ot_accessToken t = op_sign pf (op_jwtSecret pf)
      (access_payload (ot_clientId t) (ot_userId t) (ot_scopes t) (ot_resource t) made)"
    unfolding token_source_def token_for_def by blast
  with assms(1,3) have "p = access_payload (ot_clientId t) (ot_userId t) (ot_scopes t) (ot_resource t) made"
    unfolding jwt_law_def by (metis option.inject option.distinct(1))
  then show ?thesis by (simp add: access_payload_def)
qed

lemma signed_user:
  assumes "jwt_law pf" "token_source pf w t" "token_source pf w' t'" "ot_accessToken t = ot_accessToken t'"
  shows "ot_userId t = ot_userId t'"
proof -
  from assms(2) obtain now where sign: "ot_accessToken t = op_sign pf (op_jwtSecret pf)
      (access_payload (ot_clientId t) (ot_userId t) (ot_scopes t) (ot_resource t) now)"
    unfolding token_source_def token_for_def by blast
  let ?p = "access_payload (ot_clientId t) (ot_userId t) (ot_scopes t) (ot_resource t) now"
  have "op_verify pf (op_jwtSecret pf) (tp_exp ?p - 1) (ot_accessToken t) = Some ?p"
    using assms(1) sign by (simp add: jwt_law_def)
  from signed_payload[OF assms(1,2) this] signed_payload[OF assms(1,3), of _ ?p] this assms(4) show ?thesis by simp
qed

text \<open>
  On whose behalf a request passes: the user of its session. A guest has the role of one, and a session with an
  access token rests on a record of its user that was not revoked in the past.
\<close>

definition rightful :: "oauth_env \<Rightarrow> oauth_event set \<Rightarrow> auth_info \<Rightarrow> nat \<Rightarrow> oauth_state \<Rightarrow> bool" where
  "rightful e past a r st \<longleftrightarrow> (\<exists>i t. has_key r (i, au_userId a, t, au_anonymous a) (os_world st) \<and>
     (if au_anonymous a then au_role a = 4
      else isJwtFormat t \<longrightarrow> (\<exists>k. token_source (oe_platform e) (os_world st) k \<and> ot_accessToken k = t \<and>
        ot_userId k = au_userId a \<and> Revoked (ot_tokenId k) \<notin> past)))"

definition gate_ok :: "oauth_env \<Rightarrow> oauth_event set \<Rightarrow> gate_result \<Rightarrow> oauth_state \<Rightarrow> bool" where
  "gate_ok e past g st \<longleftrightarrow> (\<forall>a r. g = GatePass (Some (a, Some r)) \<longrightarrow> rightful e past a r st)"

text \<open>A session that the gate knows and whose access token, if it has one, was validated.\<close>

definition checked :: "oauth_env \<Rightarrow> oauth_event set \<Rightarrow> nat \<Rightarrow> string \<times> string \<times> string \<times> bool \<Rightarrow> oauth_state \<Rightarrow> bool" where
  "checked e past r key st \<longleftrightarrow> (world_inv e st \<and> has_key r key (os_world st)) \<and>
     (isJwtFormat (fst (snd (snd key))) \<longrightarrow> token_backed e past (fst (snd (snd key))) None st)"

lemma lasting_checked: "oauth_fair e \<Longrightarrow> oq.lasting e (checked e past r key)"
  using lasting_key[of e r key] lasting_backed[of e past "fst (snd (snd key))" None]
  unfolding checked_def oq.lasting_def by blast

lemma checked_rightful:
  assumes "jwt_law (oe_platform e)" "checked e past r (i, u, t, b) st" "session_ok (oe_platform e) (os_world st) s"
    "session_key s = (i, u, t, b)"
  shows "rightful e past (cs_auth s) r st"
proof -
  have s: "cs_userId s = u" "cs_token s = t" "au_anonymous (cs_auth s) = b" "au_userId (cs_auth s) = u"
    using assms(3,4) by (auto simp: session_key_def session_ok_def)
  have "\<exists>k. token_source (oe_platform e) (os_world st) k \<and> ot_accessToken k = t \<and> ot_userId k = u \<and> Revoked (ot_tokenId k) \<notin> past"
    if jwt: "\<not> b" "isJwtFormat t"
  proof -
    obtain k where k: "token_source (oe_platform e) (os_world st) k" "ot_accessToken k = t" "Revoked (ot_tokenId k) \<notin> past"
      using assms(2) jwt unfolding checked_def token_backed_def by auto
    obtain k' where "token_source (oe_platform e) (os_world st) k'" "ot_accessToken k' = t" "ot_userId k' = u"
      using assms(3) s jwt by (auto simp: session_ok_def)
    with k signed_user[OF assms(1) k(1), of "os_world st" k'] show ?thesis by auto
  qed
  moreover have "b \<longrightarrow> au_role (cs_auth s) = 4" using assms(3) s by (auto simp: session_ok_def)
  ultimately show ?thesis using assms(2) s unfolding rightful_def checked_def by (intro exI[of _ i] exI[of _ t]) auto
qed

lemma refresh_keeps:
  assumes fair: "oauth_fair e"
  shows "oq.ensures e (checked e past r (i, u, t, b)) (refreshUserInfoIfNeeded e r) (\<lambda>_. checked e past r (i, u, t, b))"
    (is "oq.ensures e ?C _ _")
proof -
  let ?K = "\<lambda>st. world_inv e st \<and> has_key r (i, u, t, b) (os_world st)"
  have get: "oq.ensures e ?C (ss_get (\<lambda>now ss. (now, au_anonymous (cs_auth (session_at ss r)), cs_lastUserInfoRefresh (session_at ss r))))
      (\<lambda>x st. ?C st \<and> fst (snd x) = b)"
    by (rule get_ensures) (auto simp: checked_def has_key_def session_key_def session_at_def)
  have mark: "keeps e (ss_set (\<lambda>_. change_session r (\<lambda>s. s\<lparr>cs_lastUserInfoRefresh := v\<rparr>))) (\<lambda>_. True)" for v
    by (rule keeps_mild_set) (simp add: mild_def session_key_def)
  have refresh: "oq.ensures e ?C (oa_bind (refreshUserInfo e r) (\<lambda>_. ss_set (\<lambda>_. change_session r (\<lambda>s. s\<lparr>cs_lastUserInfoRefresh := v\<rparr>)))) (\<lambda>_. ?C)"
    if "\<not> b" for v
  proof (rule oq.ensures_bind)
    show "oq.ensures e ?C (refreshUserInfo e r) (\<lambda>_. ?C)"
      by (rule quiet_lasting[OF refresh_ensures[OF fair, of r i u t] lasting_checked[OF fair]])
        (use that in \<open>simp add: checked_def\<close>)
    show "oq.ensures e ?C (ss_set (\<lambda>_. change_session r (\<lambda>s. s\<lparr>cs_lastUserInfoRefresh := v\<rparr>))) (\<lambda>_. ?C)"
      by (rule quiet_keeps[OF fair mark lasting_checked[OF fair]]) (simp add: checked_def)
  qed
  show ?thesis
    unfolding refreshUserInfoIfNeeded_def
  proof (rule oq.ensures_bind[OF get])
    fix x :: "int \<times> bool \<times> int option"
    obtain now an last where x: "x = (now, an, last)" by (cases x)
    have "oq.ensures e ?C (oa_catch (oa_bind (refreshUserInfo e r) (\<lambda>_. ss_set (\<lambda>_. change_session r (\<lambda>s. s\<lparr>cs_lastUserInfoRefresh := Some now\<rparr>))))
        (\<lambda>err. oa_return ())) (\<lambda>_. ?C)" if "\<not> b"
      by (rule quiet_catch[OF refresh[OF that] lasting_checked[OF fair]]) (auto intro: oq.ensures_return)
    then have "oq.ensures e ?C (case x of (now, anonymous, last) \<Rightarrow>
        if anonymous then oa_return ()
        else if (case last of None \<Rightarrow> True | Some t \<Rightarrow> t = 0 \<or> USER_INFO_REFRESH_INTERVAL \<le> now - t)
        then oa_catch
          (oa_bind (refreshUserInfo e r) (\<lambda>_.
           ss_set (\<lambda>_. change_session r (\<lambda>s. s\<lparr>cs_lastUserInfoRefresh := Some now\<rparr>))))
          (\<lambda>err. oa_return ())
        else oa_return ()) (\<lambda>_. ?C)" if "an = b"
      using that oq.ensures_return[of ?C "\<lambda>_. ?C"] unfolding x by auto
    then show "oq.ensures e (\<lambda>st. ?C st \<and> fst (snd x) = b) (case x of (now, anonymous, last) \<Rightarrow>
        if anonymous then oa_return ()
        else if (case last of None \<Rightarrow> True | Some t \<Rightarrow> t = 0 \<or> USER_INFO_REFRESH_INTERVAL \<le> now - t)
        then oa_catch
          (oa_bind (refreshUserInfo e r) (\<lambda>_.
           ss_set (\<lambda>_. change_session r (\<lambda>s. s\<lparr>cs_lastUserInfoRefresh := Some now\<rparr>))))
          (\<lambda>err. oa_return ())
        else oa_return ()) (\<lambda>_. ?C)"
      by (cases "an = b") (simp_all add: x quiet_never)
  qed
qed

lemma gate_refused: "gate_ok e past (GateRefused c m) st" "gate_ok e past (GatePass None) st" "gate_ok e past (GatePass (Some (a, None))) st"
  by (simp_all add: gate_ok_def)

lemma error_ensures: "oq.ensures e P (sendAuthError err) (gate_ok e past)"
  unfolding sendAuthError_def by (rule oq.ensures_return) (rule gate_refused)

lemma pass_ensures:
  assumes fair: "oauth_fair e" and law: "jwt_law (oe_platform e)"
  shows "oq.ensures e (checked e past r key) (pass_session r) (gate_ok e past)"
proof -
  obtain i u t b where key: "key = (i, u, t, b)" by (metis surj_pair)
  have "oq.ensures e (\<lambda>st. world_inv e st \<and> checked e past r key st) (pass_session r) (\<lambda>x st. world_inv e st \<and> gate_ok e past x st)"
    unfolding pass_session_def
  proof (rule store_do[OF fair])
    fix st :: oauth_state and x ss
    assume inv: "world_inv e st" and c: "checked e past r key st"
      and run: "(GatePass (Some (cs_auth (session_at (ow_store (os_world st)) r), Some r)),
        change_session r (cs_touch (os_now st)) (ow_store (os_world st))) = (x, ss)"
    let ?st = "st\<lparr>os_world := (os_world st)\<lparr>ow_store := ss\<rparr>\<rparr>"
    have ok: "store_ok (oe_platform e) (os_world st) ss"
      using run mild_ok[OF _ store_same, of "cs_touch (os_now st)" "oe_platform e" "os_world st" r] inv
      by (auto simp: world_inv_def mild_def cs_touch_def session_key_def)
    have later: "others_steps e (os_world st) (os_world ?st)" by (simp add: others_stepI store_step[OF ok])
    have c': "checked e past r (i, u, t, b) ?st"
      using lasting_checked[OF fair, of past r key] c later key unfolding oq.lasting_def by simp
    have "session_ok (oe_platform e) (os_world st) (session_at (ow_store (os_world st)) r)"
      and s: "session_key (session_at (ow_store (os_world st)) r) = (i, u, t, b)"
      using c inv key by (auto simp: checked_def has_key_def session_at_def world_inv_def oauth_inv_def sessions_inv_def)
    then have ok': "session_ok (oe_platform e) (os_world ?st) (session_at (ow_store (os_world st)) r)"
      using session_mono[of "os_world st" "os_world ?st"] by simp
    from checked_rightful[OF law c' ok' s] run ok show "store_ok (oe_platform e) (os_world st) ss \<and> gate_ok e past x ?st"
      by (auto simp: gate_ok_def)
  qed
  then show ?thesis by (rule oq.ensures_weaken[OF oq.ensures_strengthen]) (auto simp: checked_def)
qed

lemma refuse_ensures: "oauth_fair e \<Longrightarrow> oq.ensures e (world_inv e) (refuse_user e userId reason err) (gate_ok e past)"
  unfolding refuse_user_def
  by (rule oq.ensures_bind[OF quiet_keeps[OF _ keeps_removeAll lasting_inv]]) (auto intro: error_ensures)

lemma expiry_ensures:
  assumes fair: "oauth_fair e" and law: "jwt_law (oe_platform e)"
  shows "oq.ensures e (checked e past r key) (check_expiry e r userId) (gate_ok e past)"
proof -
  note last = lasting_checked[OF fair, of past r key]
  have get: "oq.ensures e (checked e past r key) (ss_get f) (\<lambda>_. checked e past r key)" for f :: "int \<Rightarrow> session_store \<Rightarrow> bool"
    by (rule get_ensures)
  have read: "oq.ensures e (checked e past r key) (oa_read e (find_user userId)) (\<lambda>_. checked e past r key)"
    by (rule quiet_keeps[OF fair keeps_pure(4) last]) (simp add: checked_def)
  have set: "oq.ensures e (checked e past r key) (ss_set (\<lambda>_. change_session r (\<lambda>s. s\<lparr>cs_auth := (cs_auth s)\<lparr>au_expiresAt := v\<rparr>\<rparr>))) (\<lambda>_. checked e past r key)" for v
    by (rule quiet_keeps[OF fair keeps_mild_set last]) (simp_all add: checked_def mild_def session_key_def)
  have refuse: "oq.ensures e (\<lambda>st. checked e past r key st \<and> now = os_now st) (refuse_user e userId USER_EXPIRED err) (gate_ok e past)" for now err
    by (rule oq.ensures_strengthen[OF refuse_ensures[OF fair]]) (simp add: checked_def)
  have pass: "oq.ensures e (\<lambda>st. checked e past r key st \<and> now = os_now st)
      (oa_bind (ss_set (\<lambda>_. change_session r (\<lambda>s. s\<lparr>cs_auth := (cs_auth s)\<lparr>au_expiresAt := v\<rparr>\<rparr>))) (\<lambda>_. pass_session r)) (gate_ok e past)" for now v
    by (rule oq.ensures_strengthen[OF oq.ensures_bind[OF set pass_ensures[OF assms]]]) simp
  show ?thesis
    unfolding check_expiry_def
    by (rule oq.ensures_bind[OF get], intro quiet_if, rule pass_ensures[OF assms], rule oq.ensures_bind[OF read],
        rule oq.ensures_time_then, intro quiet_if refuse pass)
qed

lemma existing_ensures:
  assumes fair: "oauth_fair e" and law: "jwt_law (oe_platform e)"
  shows "oq.ensures e (\<lambda>st. world_inv e st \<and> has_key r key (os_world st) \<and> past \<subseteq> set (ow_log (os_world st))) (existing_session e r) (gate_ok e past)"
proof -
  obtain i u t b where key: "key = (i, u, t, b)" by (metis surj_pair)
  let ?P = "\<lambda>st. world_inv e st \<and> has_key r key (os_world st) \<and> past \<subseteq> set (ow_log (os_world st))"
  let ?K = "\<lambda>st. world_inv e st \<and> has_key r key (os_world st)"
  have get: "oq.ensures e ?P (ss_get (\<lambda>now ss. (cs_token (session_at ss r), cs_userId (session_at ss r)))) (\<lambda>x st. ?P st \<and> x = (t, u))"
    by (rule get_ensures) (auto simp: has_key_def session_key_def session_at_def key)
  have valid: "oq.ensures e ?P (if isJwtFormat t
        then oa_bind (oauth_validateToken e t None) (\<lambda>v. oa_return (case v of Inl err \<Rightarrow> False | Inr a \<Rightarrow> True))
        else oa_return True) (\<lambda>valid st. ?K st \<and> (valid \<longrightarrow> checked e past r key st))"
  proof (intro quiet_if)
    have "oq.ensures e ?P (oauth_validateToken e t None) (\<lambda>v st. (\<forall>a. v = Inr a \<longrightarrow> token_accepted e past t None a st) \<and> ?K st)"
      by (rule oq.ensures_strengthen[OF oq.ensures_frame[OF accepted_ensures[OF fair] lasting_key[OF fair]]]) simp
    then show "oq.ensures e ?P (oa_bind (oauth_validateToken e t None) (\<lambda>v. oa_return (case v of Inl err \<Rightarrow> False | Inr a \<Rightarrow> True)))
        (\<lambda>valid st. ?K st \<and> (valid \<longrightarrow> checked e past r key st))"
      by (rule oq.ensures_bind) (rule oq.ensures_return, auto simp: checked_def token_accepted_def key split: sum.splits)
    show "oq.ensures e ?P (oa_return True) (\<lambda>valid st. ?K st \<and> (valid \<longrightarrow> checked e past r key st))" if "\<not> isJwtFormat t"
      by (rule oq.ensures_return) (use that in \<open>auto simp: checked_def key\<close>)
  qed
  have refuse: "oq.ensures e (\<lambda>st. ?K st \<and> (False \<longrightarrow> checked e past r key st)) (refuse_user e u SESSION_REMOVED err) (gate_ok e past)" for err
    by (rule oq.ensures_strengthen[OF refuse_ensures[OF fair]]) simp
  have go: "oq.ensures e (\<lambda>st. ?K st \<and> (True \<longrightarrow> checked e past r key st)) (oa_bind (refreshUserInfoIfNeeded e r) (\<lambda>_. check_expiry e r u)) (gate_ok e past)"
    unfolding key by (rule oq.ensures_strengthen[OF oq.ensures_bind[OF refresh_keeps[OF fair, of past r i u t b] expiry_ensures[OF assms]]]) simp
  have rest: "oq.ensures e (\<lambda>st. ?K st \<and> (valid \<longrightarrow> checked e past r key st))
      (if \<not> valid then refuse_user e u SESSION_REMOVED ''INVALID_TOKEN''
       else oa_bind (refreshUserInfoIfNeeded e r) (\<lambda>_. check_expiry e r u)) (gate_ok e past)" for valid
    using refuse go by (cases valid) simp_all
  have all: "oq.ensures e (\<lambda>st. ?P st \<and> x = (t, u)) (case x of (token, userId) \<Rightarrow>
     oa_bind (if isJwtFormat token
        then oa_bind (oauth_validateToken e token None) (\<lambda>v. oa_return (case v of Inl err \<Rightarrow> False | Inr a \<Rightarrow> True))
        else oa_return True) (\<lambda>valid.
       if \<not> valid then refuse_user e userId SESSION_REMOVED ''INVALID_TOKEN''
       else oa_bind (refreshUserInfoIfNeeded e r) (\<lambda>_. check_expiry e r userId))) (gate_ok e past)" for x
    using oq.ensures_bind[OF valid rest] by (cases "x = (t, u)") (simp_all add: quiet_never)
  show ?thesis unfolding existing_session_def by (rule oq.ensures_bind[OF get all])
qed

section \<open>New sessions\<close>

text \<open>A context that a new session for a token may have.\<close>

definition entitled :: "oauth_env \<Rightarrow> oauth_event set \<Rightarrow> string \<Rightarrow> auth_info \<Rightarrow> oauth_state \<Rightarrow> bool" where
  "entitled e past t a st \<longleftrightarrow> world_inv e st \<and>
     (if au_anonymous a then au_role a = 4
      else isJwtFormat t \<longrightarrow> (\<exists>k. (world_inv e st \<and> token_source (oe_platform e) (os_world st) k) \<and> ot_accessToken k = t \<and>
        ot_userId k = au_userId a \<and> Revoked (ot_tokenId k) \<notin> past))"

lemma lasting_entitled: "oauth_fair e \<Longrightarrow> oq.lasting e (entitled e past t a)"
  using lasting_inv[of e] lasting_source[of e] unfolding oq.lasting_def entitled_def by metis

lemma entitled_session:
  "entitled e past t a st \<Longrightarrow> session_ok (oe_platform e) (os_world st) (new_session i (au_userId a) t a now)"
  by (auto simp: entitled_def session_ok_def new_session_def split: if_splits)

lemma begin_ensures:
  assumes fair: "oauth_fair e"
  shows "oq.ensures e (entitled e past t a) (ss_do (\<lambda>now ss. begin_session i (new_session i (au_userId a) t a now) ss))
    (\<lambda>made st. \<forall>r. made = Some r \<longrightarrow> (world_inv e st \<and> has_key r (i, au_userId a, t, au_anonymous a) (os_world st)))"
proof -
  have "oq.ensures e (\<lambda>st. world_inv e st \<and> entitled e past t a st) (ss_do (\<lambda>now ss. begin_session i (new_session i (au_userId a) t a now) ss))
    (\<lambda>made st. world_inv e st \<and> (\<forall>r. made = Some r \<longrightarrow> has_key r (i, au_userId a, t, au_anonymous a) (os_world st)))"
  proof (rule store_do[OF fair])
    fix st :: oauth_state and made ss
    let ?s = "new_session i (au_userId a) t a (os_now st)"
    assume inv: "world_inv e st" and ent: "entitled e past t a st" and run: "begin_session i ?s (ow_store (os_world st)) = (made, ss)"
    note ok = store_same[OF inv[unfolded world_inv_def]] entitled_session[OF ent, of i "os_now st"]
    show "store_ok (oe_platform e) (os_world st) ss \<and>
        (\<forall>r. made = Some r \<longrightarrow> has_key r (i, au_userId a, t, au_anonymous a) (os_world (st\<lparr>os_world := (os_world st)\<lparr>ow_store := ss\<rparr>\<rparr>)))"
    proof (cases "getSession i (ow_store (os_world st)) = None")
      case True
      then have "made = Some (length (ss_heap (ow_store (os_world st))))" "ss_heap ss = ss_heap (ow_store (os_world st)) @ [?s]"
        "ss_sessions ss = ss_sessions (ow_store (os_world st))" using run by (auto simp: begin_session_def)
      with ok show ?thesis
        by (auto simp: store_ok_def store_extends_def store_refs_def has_key_def session_key_def new_session_def nth_append)
    qed (use run ok in \<open>auto simp: begin_session_def\<close>)
  qed
  then show ?thesis by (rule oq.ensures_weaken[OF oq.ensures_strengthen]) (auto simp: entitled_def)
qed

lemma enter_ensures:
  assumes fair: "oauth_fair e"
  shows "oq.ensures e (\<lambda>st. world_inv e st \<and> has_key r (i, u, t, b) (os_world st)) (ss_set (\<lambda>now. enter_session i v r)) (\<lambda>_ st. world_inv e st \<and> True)"
  unfolding ss_set_def
proof (rule store_do[OF fair])
  fix st :: oauth_state and x ss
  assume inv: "world_inv e st" and key: "has_key r (i, u, t, b) (os_world st)" and run: "((), enter_session i v r (ow_store (os_world st))) = (x, ss)"
  have "ss_heap ss = ss_heap (ow_store (os_world st))" "ss_sessions ss = AList.update i r (ss_sessions (ow_store (os_world st)))"
    using run by (auto simp: enter_session_def)
  with store_same[OF inv[unfolded world_inv_def]] key show "store_ok (oe_platform e) (os_world st) ss \<and> True"
    by (auto simp: store_ok_def store_extends_def store_refs_def has_key_def session_key_def dest!: set_update_subset)
qed

lemma create_session_ensures:
  assumes fair: "oauth_fair e"
  shows "oq.ensures e (entitled e past t a) (createSession e i (au_userId a) t a) (\<lambda>r st. world_inv e st \<and> rightful e past a r st)"
proof -
  let ?C = "\<lambda>r st. (world_inv e st \<and> has_key r (i, au_userId a, t, au_anonymous a) (os_world st)) \<and> entitled e past t a st"
  have last: "oq.lasting e (?C r)" for r by (rule oq.lasting_conj[OF lasting_key[OF fair] lasting_entitled[OF fair]])
  have made: "oq.ensures e (entitled e past t a) (ss_do (\<lambda>now ss. begin_session i (new_session i (au_userId a) t a now) ss))
      (\<lambda>made st. \<forall>r. made = Some r \<longrightarrow> ?C r st)"
    by (rule oq.ensures_weaken[OF oq.ensures_strengthen[OF oq.ensures_frame[OF begin_ensures[OF fair] lasting_entitled[OF fair]]]]) auto
  have quiet: "oq.ensures e (?C r) m (\<lambda>_. ?C r)" if "keeps e m (\<lambda>_. True)" for r and m :: "unit oa"
    by (rule quiet_keeps[OF fair that last]) simp
  have enter: "oq.ensures e (?C r) (ss_set (\<lambda>now. enter_session i v r)) (\<lambda>_. ?C r)" for r v
    by (rule quiet_lasting[OF enter_ensures[OF fair, of r i "au_userId a" t "au_anonymous a"] last]) simp
  have right: "world_inv e st \<and> rightful e past a r st" if "?C r st" for r st
    using that unfolding rightful_def entitled_def by (intro conjI exI[of _ i] exI[of _ t]) auto
  have go: "oq.ensures e (?C r) (oa_bind (oa_wait e) (\<lambda>_. oa_bind (oa_read e (\<lambda>w. ())) (\<lambda>_.
      oa_bind (ss_set (\<lambda>now. enter_session i (au_userId a) r)) (\<lambda>_. oa_return r)))) (\<lambda>r st. world_inv e st \<and> rightful e past a r st)" for r
    by (rule oq.ensures_bind[OF quiet[OF keeps_wait]], rule oq.ensures_bind[OF quiet[OF keeps_pure(4)]], rule oq.ensures_bind[OF enter],
        rule oq.ensures_return, rule right)
  have rest: "oq.ensures e (\<lambda>st. \<forall>r. made = Some r \<longrightarrow> ?C r st) (case made of
         None \<Rightarrow> oa_throw ''Session already exists''
       | Some r \<Rightarrow>
           oa_bind (oa_wait e) (\<lambda>_.
           oa_bind (oa_read e (\<lambda>w. ())) (\<lambda>_.
           oa_bind (ss_set (\<lambda>now. enter_session i (au_userId a) r)) (\<lambda>_. oa_return r)))) (\<lambda>r st. world_inv e st \<and> rightful e past a r st)" for made
    using go by (cases made) (simp_all add: oq.ensures_throw)
  show ?thesis unfolding createSession_def by (rule oq.ensures_bind[OF made rest])
qed

lemma lasting_rightful: "oauth_fair e \<Longrightarrow> oq.lasting e (\<lambda>st. world_inv e st \<and> rightful e past a r st)"
  unfolding rightful_def
proof (rule lasting_steps)
  fix w w'
  assume step: "oauth_step (oe_platform e) (- {oe_self e}) w w'"
  have log: "set (ow_log w) \<subseteq> set (ow_log w')" using step_log_grows[OF step] by auto
  show "\<exists>i t. has_key r (i, au_userId a, t, au_anonymous a) w \<and> (if au_anonymous a then au_role a = 4
      else isJwtFormat t \<longrightarrow> (\<exists>k. token_source (oe_platform e) w k \<and> ot_accessToken k = t \<and> ot_userId k = au_userId a \<and> Revoked (ot_tokenId k) \<notin> past)) \<Longrightarrow>
    \<exists>i t. has_key r (i, au_userId a, t, au_anonymous a) w' \<and> (if au_anonymous a then au_role a = 4
      else isJwtFormat t \<longrightarrow> (\<exists>k. token_source (oe_platform e) w' k \<and> ot_accessToken k = t \<and> ot_userId k = au_userId a \<and> Revoked (ot_tokenId k) \<notin> past))"
    using step_key[OF step] source_mono[OF log] by metis
qed

lemma open_ensures:
  assumes fair: "oauth_fair e"
  shows "oq.ensures e (entitled e past t a) (open_session e req a t) (\<lambda>r st. world_inv e st \<and> rightful e past a r st)"
proof -
  have consume: "oq.ensures e (entitled e past t a) (ss_do (consumeTerminatedSession (oe_platform e) (gq_sessionId req) a t)) (\<lambda>_. entitled e past t a)"
    by (rule quiet_keeps[OF fair keeps_shrinks lasting_entitled[OF fair]]) (simp add: dropped, auto simp: entitled_def)
  have random: "oq.ensures e (entitled e past t a) (oa_random e p) (\<lambda>_. entitled e past t a)" for p
    by (rule oq.ensures_random)
  show ?thesis
    unfolding open_session_def
    by (rule oq.ensures_bind[OF consume], rule oq.ensures_bind[OF random], rule create_session_ensures[OF fair])
qed

lemma keeps_user_token: "keeps e (validateToken e t) (\<lambda>a. \<not> au_anonymous a)"
  unfolding validateToken_def
  by (intro keeps_if keeps_throw keeps_then keeps_pure keeps_time keeps_option keeps_prod keeps_return)
    (simp add: auth_context_of_def)

lemma user_token_ensures:
  assumes fair: "oauth_fair e" and form: "\<not> isJwtFormat t"
  shows "oq.ensures e (world_inv e) (validateToken e t) (\<lambda>a. entitled e past t a)"
  using keeps_user_token[of e t] fair form by (auto simp: keeps_def entitled_def elim!: oq.ensures_weaken)

lemma access_token_ensures:
  assumes fair: "oauth_fair e" and law: "jwt_law (oe_platform e)"
  shows "oq.ensures e (\<lambda>st. world_inv e st \<and> past \<subseteq> set (ow_log (os_world st))) (oauth_validateToken e t aud)
    (\<lambda>v st. world_inv e st \<and> (\<forall>a. v = Inr a \<longrightarrow> entitled e past t a st))"
proof -
  have accepted: "entitled e past t a st" if acc: "token_accepted e past t aud a st" for a st
  proof -
    from acc obtain k now p where k: "world_inv e st" "token_source (oe_platform e) (os_world st) k" "ot_accessToken k = t"
        "Revoked (ot_tokenId k) \<notin> past"
      and p: "op_verify (oe_platform e) (op_jwtSecret (oe_platform e)) now t = Some p" "au_userId a = tp_user_id p" "\<not> au_anonymous a"
      unfolding token_accepted_def token_backed_def by blast
    with signed_payload[OF law k(2), of now p] show ?thesis by (auto simp: entitled_def)
  qed
  have "oq.ensures e (\<lambda>st. world_inv e st \<and> past \<subseteq> set (ow_log (os_world st))) (oauth_validateToken e t aud)
      (\<lambda>v st. (\<forall>a. v = Inr a \<longrightarrow> token_accepted e past t aud a st) \<and> world_inv e st)"
    by (rule oq.ensures_strengthen[OF oq.ensures_frame[OF accepted_ensures[OF fair] lasting_inv[OF fair]]]) simp
  then show ?thesis by (rule oq.ensures_weaken) (use accepted in blast)
qed

lemma validate_any_ensures:
  assumes fair: "oauth_fair e" and law: "jwt_law (oe_platform e)"
  shows "oq.ensures e (\<lambda>st. world_inv e st \<and> past \<subseteq> set (ow_log (os_world st))) (validate_any e t) (\<lambda>a. entitled e past t a)"
proof -
  let ?P = "\<lambda>st. world_inv e st \<and> past \<subseteq> set (ow_log (os_world st))"
  note user = user_token_ensures[OF fair, of t past]
  have hex: "oq.ensures e ?P (validateToken e t) (\<lambda>a. entitled e past t a)" if "\<not> isJwtFormat t"
    by (rule oq.ensures_strengthen[OF user[OF that]]) simp
  have first: "oq.ensures e (\<lambda>st. world_inv e st \<and> (\<forall>a. v = Inr a \<longrightarrow> entitled e past t a st))
      (case v of Inl err \<Rightarrow> oa_throw ''INVALID_TOKEN'' | Inr a \<Rightarrow> oa_return a) (\<lambda>a. entitled e past t a)" for v :: "string + auth_info"
    by (cases v) (auto intro: oq.ensures_throw oq.ensures_return)
  have second: "oq.ensures e (\<lambda>st. world_inv e st \<and> (\<forall>a. v = Inr a \<longrightarrow> entitled e past t a st))
      (case v of Inl err \<Rightarrow> validateToken e t | Inr a \<Rightarrow> oa_return a) (\<lambda>a. entitled e past t a)"
    if "\<not> isJwtFormat t" for v :: "string + auth_info"
    using oq.ensures_strengthen[OF user[OF that], of "\<lambda>st. world_inv e st \<and> (\<forall>a. v = Inr a \<longrightarrow> entitled e past t a st)"]
    by (cases v) (auto intro: oq.ensures_return)
  show ?thesis
    unfolding validate_any_def
    by (intro quiet_if oq.ensures_bind[OF access_token_ensures[OF assms] first] hex
        quiet_catch[OF oq.ensures_bind[OF access_token_ensures[OF assms] second] lasting_inv[OF fair] _ user])
      simp_all
qed

lemma anonymous_ensures:
  assumes fair: "oauth_fair e"
  shows "oq.ensures e (world_inv e) (handleAnonymousAccess e servers req) (gate_ok e past)"
proof -
  have query: "oq.ensures e (world_inv e) (oa_query e (\<lambda>k now w. (Inr (servers k), w))) (\<lambda>_. world_inv e)"
    by (rule quiet_keeps[OF fair keeps_query[of e _ "\<lambda>_. True"] lasting_inv[OF fair]]) (auto simp: oq.keep_refl)
  have opened: "oq.ensures e (world_inv e) (open_session e req (anon_context pf ip found) t)
      (\<lambda>r st. world_inv e st \<and> rightful e past (anon_context pf ip found) r st)" for pf ip found t
    by (rule oq.ensures_strengthen[OF open_ensures[OF fair]]) (simp add: entitled_def anon_context_def Let_def)
  have "oq.ensures e (world_inv e) (oa_bind (open_session e req (anon_context pf ip found) t)
      (\<lambda>r. oa_return (GatePass (Some (anon_context pf ip found, Some r))))) (gate_ok e past)" for pf ip found t
    by (rule oq.ensures_bind[OF opened], rule oq.ensures_return) (simp add: gate_ok_def)
  then show ?thesis
    unfolding handleAnonymousAccess_def Let_def
    by (intro quiet_if error_ensures oq.ensures_bind[OF query])
qed

lemma new_ensures:
  assumes fair: "oauth_fair e" and law: "jwt_law (oe_platform e)"
  shows "oq.ensures e (\<lambda>st. world_inv e st \<and> past \<subseteq> set (ow_log (os_world st))) (authenticate_new e servers req) (gate_ok e past)"
proof -
  let ?P = "\<lambda>st. world_inv e st \<and> past \<subseteq> set (ow_log (os_world st))"
  have anon: "oq.ensures e ?P (handleAnonymousAccess e servers req) (gate_ok e past)"
    by (rule oq.ensures_strengthen[OF anonymous_ensures[OF fair]]) simp
  have wait: "oq.ensures e (\<lambda>st. world_inv e st \<and> rightful e past a r st) (oa_wait e) (\<lambda>_ st. world_inv e st \<and> rightful e past a r st)" for a r
    by (rule quiet_keeps[OF fair keeps_wait lasting_rightful[OF fair]]) simp
  have "oq.ensures e ?P (oa_bind (validate_any e t) (\<lambda>a. oa_bind (open_session e req a t) (\<lambda>r.
      oa_bind (oa_wait e) (\<lambda>_. oa_return (GatePass (Some (a, Some r))))))) (gate_ok e past)" for t
    by (rule oq.ensures_bind[OF validate_any_ensures[OF assms]], rule oq.ensures_bind[OF open_ensures[OF fair]],
        rule oq.ensures_bind[OF wait], rule oq.ensures_return) (simp add: gate_ok_def)
  then show ?thesis
    unfolding authenticate_new_def Let_def
    by (intro quiet_if error_ensures anon oq.ensures_return gate_refused)
qed

lemma authenticate_ensures:
  assumes fair: "oauth_fair e" and law: "jwt_law (oe_platform e)"
  shows "oq.ensures e (\<lambda>st. world_inv e st \<and> past \<subseteq> set (ow_log (os_world st))) (authenticate e servers req) (gate_ok e past)"
proof -
  let ?P = "\<lambda>st. world_inv e st \<and> past \<subseteq> set (ow_log (os_world st))"
  have get: "oq.ensures e ?P (ss_get (\<lambda>now ss. getSession i ss))
      (\<lambda>found st. ?P st \<and> (\<forall>r. found = Some r \<longrightarrow> (\<exists>key. has_key r key (os_world st))))" for i
    by (rule get_ensures) (simp only: world_inv_def, use found_key in blast)
  have some: "oq.ensures e (\<lambda>st. ?P st \<and> (\<exists>key. has_key r key (os_world st))) (existing_session e r) (gate_ok e past)" for r
    using existing_ensures[OF assms, of r _ past] unfolding oq.ensures_def by blast
  have found: "oq.ensures e (\<lambda>st. ?P st \<and> (\<forall>r. found = Some r \<longrightarrow> (\<exists>key. has_key r key (os_world st))))
      (case found of
        Some r \<Rightarrow> existing_session e r
      | None \<Rightarrow> if gq_method req = ''DELETE'' then oa_return (GatePass None) else authenticate_new e servers req) (gate_ok e past)" for found
    using some new_ensures[OF assms] by (cases found) (auto intro!: oq.ensures_return gate_refused)
  show ?thesis
    unfolding authenticate_def
    by (rule oq.ensures_catch, intro quiet_if oq.ensures_bind[OF get found] new_ensures[OF assms], rule error_ensures)
qed

section \<open>The stateless protocol version\<close>

definition modern_ok :: "oauth_env \<Rightarrow> oauth_event set \<Rightarrow> modern_config \<Rightarrow> gate_request \<Rightarrow> gate_result \<Rightarrow> oauth_state \<Rightarrow> bool" where
  "modern_ok e past cfg req g st \<longleftrightarrow> (\<forall>v. g = GatePass v \<longrightarrow> (\<exists>a resource. v = Some (a, None) \<and> rollout_allows cfg a \<and>
     getCanonicalMcpResource (oe_platform e) (gq_http req) = Some resource \<and>
     token_accepted e past (text_of (bearer (gq_authorization req))) (Some resource) a st))"

lemma lasting_accepted: "oauth_fair e \<Longrightarrow> oq.lasting e (token_accepted e past t aud a)"
  using lasting_backed unfolding token_accepted_def oq.lasting_def by blast

lemma modern_ensures:
  assumes fair: "oauth_fair e"
  shows "oq.ensures e (\<lambda>st. world_inv e st \<and> past \<subseteq> set (ow_log (os_world st))) (modern_authenticate e cfg req) (modern_ok e past cfg req)"
proof -
  let ?P = "\<lambda>st. world_inv e st \<and> past \<subseteq> set (ow_log (os_world st))" and ?t = "text_of (bearer (gq_authorization req))"
  have refused: "oq.ensures e P (oa_return (GateRefused c m)) (modern_ok e past cfg req)" for P c m
    by (rule oq.ensures_return) (simp add: modern_ok_def)
  have wait: "oq.ensures e (token_accepted e past ?t aud a) (oa_wait e) (\<lambda>_. token_accepted e past ?t aud a)" for aud a
    by (rule quiet_keeps[OF fair keeps_wait lasting_accepted[OF fair]]) (auto simp: token_accepted_def token_backed_def)
  have pass: "oq.ensures e (\<lambda>st. \<forall>a. v = Inr a \<longrightarrow> token_accepted e past ?t (Some resource) a st) (case v of
             Inl err \<Rightarrow> oa_throw ''INVALID_TOKEN''
           | Inr a \<Rightarrow>
               if \<not> rollout_allows cfg a then oa_throw ''PERMISSION_DENIED''
               else oa_bind (oa_wait e) (\<lambda>_. oa_return (GatePass (Some (a, None))))) (modern_ok e past cfg req)"
    if "getCanonicalMcpResource (oe_platform e) (gq_http req) = Some resource" for v :: "string + auth_info" and resource
  proof (cases v)
    case (Inr a)
    have "oq.ensures e (token_accepted e past ?t (Some resource) a) (oa_bind (oa_wait e) (\<lambda>_. oa_return (GatePass (Some (a, None)))))
        (modern_ok e past cfg req)" if "rollout_allows cfg a"
      by (rule oq.ensures_bind[OF wait], rule oq.ensures_return)
        (use that \<open>getCanonicalMcpResource (oe_platform e) (gq_http req) = Some resource\<close> in \<open>simp add: modern_ok_def\<close>)
    with Inr show ?thesis by (simp add: oq.ensures_throw)
  qed (simp add: oq.ensures_throw)
  show ?thesis
  proof (cases "getCanonicalMcpResource (oe_platform e) (gq_http req)")
    case None
    then show ?thesis
      unfolding modern_authenticate_def Let_def None oa_some_def
      by (intro quiet_if refused oq.ensures_catch) (simp add: oq.ensures_def oa_bind_def oa_throw_def oq.later_refl)
  next
    case (Some resource)
    have some: "oa_bind (oa_some err (Some resource)) f = f resource" for err and f :: "string \<Rightarrow> gate_result oa"
      by (simp add: oa_bind_def oa_some_def oa_return_def fun_eq_iff)
    show ?thesis
      unfolding modern_authenticate_def Let_def Some some
      by (intro quiet_if refused oq.ensures_catch oq.ensures_bind[OF accepted_ensures[OF fair] pass[OF Some]])
  qed
qed

section \<open>Properties of the gate\<close>

text \<open>
  C4: A request acts for nobody but the user of its session. Whatever other requests do meanwhile, a request that passes is
  bound to a session of the user it acts for; a guest has no other role than that of a guest; and where the session was opened
  with an access token, the token descends from a code authorized by that user and was not revoked when the request came.
\<close>

theorem gate_sound:
  assumes "oauth_fair e" "oauth_reach (oe_platform e) (os_world st)" "jwt_law (oe_platform e)"
    and run: "authenticate e servers req st = (Inr (GatePass (Some (a, Some r))), st')"
  shows "\<exists>s. ss_heap (ow_store (os_world st')) ! r = s \<and> r < length (ss_heap (ow_store (os_world st'))) \<and>
    cs_userId s = au_userId a \<and> (au_anonymous a \<longrightarrow> au_role a = 4) \<and>
    (\<not> au_anonymous a \<and> isJwtFormat (cs_token s) \<longrightarrow> (\<exists>c i. Authorized c \<in> set (ow_log (os_world st')) \<and>
       Issued i (co_code c) \<in> set (ow_log (os_world st')) \<and> Revoked i \<notin> set (ow_log (os_world st)) \<and> co_userId c = au_userId a))"
proof -
  have "world_inv e st" using reach_inv[OF assms(2)] by (simp add: world_inv_def)
  then have "rightful e (set (ow_log (os_world st))) a r st'"
    using oq.ensuresD(3)[OF authenticate_ensures[OF assms(1,3)] _ run] by (simp add: gate_ok_def)
  then show ?thesis
    by (auto simp: rightful_def has_key_def session_key_def token_source_def token_for_def split: if_splits) metis
qed

text \<open>
  C13: The stateless protocol version takes only tokens that were issued for this gateway. A request that passes carries an access token
  whose code was authorized by the user it acts for, for the resource of this gateway, that was not revoked when the request came, and
  whose client and tenant take part in the rollout.
\<close>

theorem modern_gate_sound:
  assumes "oauth_fair e" "oauth_reach (oe_platform e) (os_world st)" "jwt_law (oe_platform e)"
    and run: "modern_authenticate e cfg req st = (Inr (GatePass v), st')"
  shows "\<exists>a c i resource. v = Some (a, None) \<and> getCanonicalMcpResource (oe_platform e) (gq_http req) = Some resource \<and>
    Authorized c \<in> set (ow_log (os_world st')) \<and> Issued i (co_code c) \<in> set (ow_log (os_world st')) \<and>
    Revoked i \<notin> set (ow_log (os_world st)) \<and> co_userId c = au_userId a \<and> co_resource c = Some resource \<and>
    (mc_allowedClientIds cfg \<noteq> [] \<longrightarrow> text_of (au_oauthClientId a) \<in> set (mc_allowedClientIds cfg))"
proof -
  have "world_inv e st" using reach_inv[OF assms(2)] by (simp add: world_inv_def)
  then have "modern_ok e (set (ow_log (os_world st))) cfg req (GatePass v) st'"
    using oq.ensuresD(3)[OF modern_ensures[OF assms(1)] _ run] by simp
  then obtain a resource k now p where v: "v = Some (a, None)" "rollout_allows cfg a"
      "getCanonicalMcpResource (oe_platform e) (gq_http req) = Some resource"
    and k: "token_source (oe_platform e) (os_world st') k" "ot_accessToken k = text_of (bearer (gq_authorization req))"
      "Revoked (ot_tokenId k) \<notin> set (ow_log (os_world st))" "is_given (Some resource) \<longrightarrow> ot_resource k = Some resource"
    and p: "op_verify (oe_platform e) (op_jwtSecret (oe_platform e)) now (text_of (bearer (gq_authorization req))) = Some p"
      "au_userId a = tp_user_id p"
    unfolding modern_ok_def token_accepted_def token_backed_def by blast
  have "js_endsWith resource ''/mcp''"
    using v(3) by (auto simp: getCanonicalMcpResource_def js_endsWith_def suffix_def)
  then have "is_given (Some resource)" by (auto simp: is_given_def js_endsWith_def suffix_def)
  moreover have "tp_user_id p = ot_userId k" using signed_payload[OF assms(3) k(1)] p(1) k(2) by simp
  moreover obtain c where "Authorized c \<in> set (ow_log (os_world st'))" "Issued (ot_tokenId k) (co_code c) \<in> set (ow_log (os_world st'))"
    "token_for (oe_platform e) c k" using k(1) unfolding token_source_def by blast
  ultimately show ?thesis
    using v k(3,4) p(2)
    by (intro exI[of _ a] exI[of _ c] exI[of _ "ot_tokenId k"] exI[of _ resource]) (auto simp: token_for_def rollout_allows_def)
qed

text \<open>
  C24: A session can be taken up again by whom it belonged to, once and only for thirty seconds. After a client closed its stream at a time,
  a request in the name of the session gets it back exactly if it comes within that time, from the same user, of the same kind and with a token of the
  same fingerprint; and then nobody else does.
\<close>

theorem reconnect_exact:
  assumes "cs_sessionId s \<noteq> []" "jsmap_ok (ss_terminatedSessions ss)"
  shows "(fst (consumeTerminatedSession pf (Some (cs_sessionId s)) a token now (recordTerminatedSession pf ended s ss)) \<longleftrightarrow>
      now < ended + 30000 \<and> au_userId a = cs_userId s \<and> au_anonymous a = au_anonymous (cs_auth s) \<and>
      fingerprintToken pf token = fingerprintToken pf (cs_token s)) \<and>
    (\<forall>a' token' now' ss'. consumeTerminatedSession pf (Some (cs_sessionId s)) a token now ss = (True, ss') \<longrightarrow>
      \<not> fst (consumeTerminatedSession pf (Some (cs_sessionId s)) a' token' now' ss'))"
proof (intro conjI allI impI)
  have pruned: "jsmap_ok (ss_terminatedSessions (pruneTerminatedSessions n ss))" for n
    using assms(2) by (simp add: pruneTerminatedSessions_def)
  have given: "is_given (Some (cs_sessionId s))" "text_of (Some (cs_sessionId s)) = cs_sessionId s"
    using assms(1) by (simp_all add: is_given_def text_of_def)
  show "fst (consumeTerminatedSession pf (Some (cs_sessionId s)) a token now (recordTerminatedSession pf ended s ss)) \<longleftrightarrow>
      now < ended + 30000 \<and> au_userId a = cs_userId s \<and> au_anonymous a = au_anonymous (cs_auth s) \<and>
      fingerprintToken pf token = fingerprintToken pf (cs_token s)"
    using given pruned[of ended]
    by (auto simp: consumeTerminatedSession_def recordTerminatedSession_def pruneTerminatedSessions_def Let_def map_of_keep
        jsmap.ok_put jsmap.get_put tombstone_matches_def SESSION_RECONNECT_GRACE_MS_def split: option.splits)
  fix a' token' now' ss'
  assume "consumeTerminatedSession pf (Some (cs_sessionId s)) a token now ss = (True, ss')"
  then have "ss_terminatedSessions ss' = AList.delete (cs_sessionId s) (ss_terminatedSessions (pruneTerminatedSessions now ss))"
    by (auto simp: consumeTerminatedSession_def given Let_def split: option.splits if_splits)
  then show "\<not> fst (consumeTerminatedSession pf (Some (cs_sessionId s)) a' token' now' ss')"
    using pruned[of now]
    by (simp add: consumeTerminatedSession_def given Let_def pruneTerminatedSessions_def map_of_keep jsmap.ok_del jsmap.get_del)
qed

section \<open>Ending the sessions of a user\<close>

text \<open>
  From one world to another, no session of the user has come in, and no session was opened again.
\<close>

definition stay_closed :: "session_store \<Rightarrow> session_store \<Rightarrow> bool" where
  "stay_closed ss ss' \<longleftrightarrow> (\<forall>r<length (ss_heap ss). r < length (ss_heap ss') \<and>
     (cs_closeTriggered (ss_heap ss ! r) \<longrightarrow> cs_closeTriggered (ss_heap ss' ! r)))"

definition of_user :: "string \<Rightarrow> session_store \<Rightarrow> (string \<times> nat) set" where
  "of_user u ss = {(i, r) \<in> set (ss_sessions ss). cs_userId (ss_heap ss ! r) = u}"

lemma of_user_users [simp]: "of_user u (ss\<lparr>ss_userSessions := us\<rparr>) = of_user u ss"
  by (simp add: of_user_def)

definition none_new :: "string \<Rightarrow> oauth_world \<Rightarrow> oauth_world \<Rightarrow> bool" where
  "none_new u w w' \<longleftrightarrow> stay_closed (ow_store w) (ow_store w') \<and> of_user u (ow_store w') \<subseteq> of_user u (ow_store w)"

definition calm :: "oauth_env \<Rightarrow> string \<Rightarrow> bool" where
  "calm e u \<longleftrightarrow> (\<forall>k w. none_new u w (oe_others e k w))"

lemma stay_closed_trans: "stay_closed a b \<Longrightarrow> stay_closed b c \<Longrightarrow> stay_closed a c"
  by (simp add: stay_closed_def)

lemma none_new_refl: "none_new u w w"
  by (simp add: none_new_def stay_closed_def)

lemma none_new_trans: "none_new u w w1 \<Longrightarrow> none_new u w1 w2 \<Longrightarrow> none_new u w w2"
  unfolding none_new_def using stay_closed_trans by blast

definition calm_steps :: "oauth_env \<Rightarrow> string \<Rightarrow> oauth_world \<Rightarrow> oauth_world \<Rightarrow> bool" where
  "calm_steps e u w w' \<longleftrightarrow> (calm e u \<longrightarrow> none_new u w w')"

interpretation un: oauth_quiet e "calm_steps e u" for e u
  by unfold_locales (auto simp: calm_steps_def calm_def intro: none_new_refl none_new_trans)

text \<open>A session of the user that is gone, and one that is closed, stay so.\<close>

definition gone :: "oauth_env \<Rightarrow> string \<Rightarrow> string \<Rightarrow> oauth_state \<Rightarrow> bool" where
  "gone e u i st \<longleftrightarrow> calm e u \<and> (\<forall>r. (i, r) \<notin> of_user u (ow_store (os_world st)))"

definition shut :: "oauth_env \<Rightarrow> string \<Rightarrow> nat \<Rightarrow> oauth_state \<Rightarrow> bool" where
  "shut e u r st \<longleftrightarrow> calm e u \<and> r < length (ss_heap (ow_store (os_world st))) \<and> cs_closeTriggered (ss_heap (ow_store (os_world st)) ! r)"

definition inside :: "oauth_env \<Rightarrow> string \<Rightarrow> (string \<times> nat) set \<Rightarrow> nat \<Rightarrow> oauth_state \<Rightarrow> bool" where
  "inside e u A n st \<longleftrightarrow> calm e u \<and> of_user u (ow_store (os_world st)) \<subseteq> A \<and> n \<le> length (ss_heap (ow_store (os_world st)))"

lemma lasting_gone: "un.lasting e u (gone e u i)"
  unfolding un.lasting_def gone_def calm_steps_def none_new_def by blast

lemma lasting_shut: "un.lasting e u (shut e u r)"
  unfolding un.lasting_def shut_def calm_steps_def none_new_def stay_closed_def by blast

lemma stay_closed_length: "stay_closed ss ss' \<Longrightarrow> n \<le> length (ss_heap ss) \<Longrightarrow> n \<le> length (ss_heap ss')"
  unfolding stay_closed_def by (cases n) (auto simp: Suc_le_eq)

lemma lasting_inside: "un.lasting e u (inside e u A n)"
  unfolding un.lasting_def inside_def calm_steps_def none_new_def using stay_closed_length by blast

lemma lasting_ball: "(\<And>x. x \<in> A \<Longrightarrow> un.lasting e u (P x)) \<Longrightarrow> un.lasting e u (\<lambda>st. \<forall>x\<in>A. P x st)"
  unfolding un.lasting_def by blast

text \<open>What the pieces of the code do to the sessions of the user.\<close>

definition ends :: "string \<Rightarrow> session_store \<Rightarrow> session_store \<Rightarrow> bool" where
  "ends u ss ss' \<longleftrightarrow> stay_closed ss ss' \<and> of_user u ss' \<subseteq> of_user u ss"

lemma shrinks_ends: "shrinks ss ss' \<Longrightarrow> ends u ss ss'"
  by (auto simp: shrinks_def ends_def stay_closed_def of_user_def)

lemma close_ends: "ends u ss (change_session r (\<lambda>s. s\<lparr>cs_closeTriggered := True\<rparr>) ss)"
proof -
  have "cs_userId (ss_heap (change_session r (\<lambda>s. s\<lparr>cs_closeTriggered := True\<rparr>) ss) ! q) = cs_userId (ss_heap ss ! q)" for q
    by (cases "q < length (ss_heap ss)") (auto simp: change_heap nth_list_update)
  then show ?thesis by (auto simp: ends_def stay_closed_def of_user_def change_heap nth_list_update)
qed

lemma un_do:
  assumes "\<And>now ss x ss'. f now ss = (x, ss') \<Longrightarrow> ends u ss ss'"
    and "\<And>st x ss'. P st \<Longrightarrow> f (os_now st) (ow_store (os_world st)) = (x, ss') \<Longrightarrow> Q x (st\<lparr>os_world := (os_world st)\<lparr>ow_store := ss'\<rparr>\<rparr>)"
  shows "un.ensures e u P (ss_do f) Q"
  unfolding ss_do_def
proof (rule un.ensures_act)
  fix st x w
  assume P: "P st" and run: "(case f (os_now st) (ow_store (os_world st)) of (x, ss) \<Rightarrow> (x, (os_world st)\<lparr>ow_store := ss\<rparr>)) = (x, w)"
  then obtain ss where "f (os_now st) (ow_store (os_world st)) = (x, ss)" "w = (os_world st)\<lparr>ow_store := ss\<rparr>" by (auto split: prod.splits)
  with assms P show "calm_steps e u (os_world st) w \<and> Q x (st\<lparr>os_world := w\<rparr>)"
    by (auto simp: calm_steps_def none_new_def ends_def)
qed

lemma un_wait: "un.lasting e u F \<Longrightarrow> un.ensures e u F (oa_wait e) (\<lambda>_. F)"
  unfolding oa_wait_def by (rule un.ensures_ask)

lemma un_maybe: "un.lasting e u F \<Longrightarrow> un.ensures e u F (if b then oa_wait e else oa_return ()) (\<lambda>_. F)"
  using un_wait by (auto intro: un.ensures_return)

lemma un_close:
  "un.ensures e u (\<lambda>st. calm e u \<and> r < length (ss_heap (ow_store (os_world st)))) (close_session e r) (\<lambda>_. shut e u r)"
proof -
  have mark: "un.ensures e u (\<lambda>st. calm e u \<and> r < length (ss_heap (ow_store (os_world st))))
      (ss_do (\<lambda>now ss. (cs_closeTriggered (session_at ss r), change_session r (\<lambda>s. s\<lparr>cs_closeTriggered := True\<rparr>) ss))) (\<lambda>_. shut e u r)"
    by (rule un_do) (auto simp: close_ends shut_def change_heap)
  show ?thesis
    unfolding close_session_def
    by (rule un.ensures_bind[OF mark]) (auto intro: un.ensures_return un_wait lasting_shut)
qed

text \<open>Whatever stood, stands after a session was ended, and the session is gone and closed.\<close>

lemma un_end:
  assumes F: "un.lasting e u F"
  shows "un.ensures e u (\<lambda>st. F st \<and> inside e u A (Suc r) st) (end_session e (i, r, b)) (\<lambda>_ st. F st \<and> gone e u i st \<and> shut e u r st)"
proof -
  let ?I = "\<lambda>st. F st \<and> inside e u A (Suc r) st" and ?G = "\<lambda>st. F st \<and> inside e u A (Suc r) st \<and> gone e u i st"
  let ?S = "\<lambda>st. (F st \<and> gone e u i st) \<and> shut e u r st"
  have I: "un.lasting e u ?I" and G: "un.lasting e u (\<lambda>st. F st \<and> gone e u i st)" and S: "un.lasting e u ?S"
    by (intro un.lasting_conj F lasting_inside lasting_gone lasting_shut)+
  have dropped_gone: "(i, q) \<notin> of_user u (drop_session i ss)" for q ss
    by (auto simp: of_user_def drop_session_def AList.delete_eq)
  have later: "un.lasting e u P \<Longrightarrow> calm e u \<Longrightarrow> P st \<Longrightarrow> ends u (ow_store (os_world st)) ss \<Longrightarrow> P (st\<lparr>os_world := (os_world st)\<lparr>ow_store := ss\<rparr>\<rparr>)" for P st ss
    unfolding un.lasting_def calm_steps_def none_new_def ends_def by simp
  have drop: "un.ensures e u ?I (ss_set (\<lambda>now. drop_session i)) (\<lambda>_. ?G)"
    unfolding ss_set_def
  proof (rule un_do)
    show "((), drop_session i ss) = (x, ss') \<Longrightarrow> ends u ss ss'" for ss ss' and x :: unit using dropped(1) shrinks_ends by auto
    show "?G (st\<lparr>os_world := (os_world st)\<lparr>ow_store := ss'\<rparr>\<rparr>)"
      if "?I st" "((), drop_session i (ow_store (os_world st))) = (x, ss')" for st x ss'
      using that later[OF I, of st ss'] dropped_gone shrinks_ends[OF dropped(1)] by (auto simp: inside_def gone_def)
  qed
  have close: "un.ensures e u ?G (close_session e r) (\<lambda>_. ?S)"
    by (rule un.ensures_weaken[OF un.ensures_strengthen[OF un.ensures_frame[OF un_close G]]]) (auto simp: inside_def)
  have records: "un.ensures e u ?S (ss_set (\<lambda>now. drop_records i)) (\<lambda>_. ?S)"
    unfolding ss_set_def
  proof (rule un_do)
    show "((), drop_records i ss) = (x, ss') \<Longrightarrow> ends u ss ss'" for ss ss' and x :: unit using dropped(2) shrinks_ends by auto
    show "?S (st\<lparr>os_world := (os_world st)\<lparr>ow_store := ss'\<rparr>\<rparr>)"
      if "?S st" "((), drop_records i (ow_store (os_world st))) = (x, ss')" for st x ss'
      using that later[OF S, of st ss'] shrinks_ends[OF dropped(2)] by (auto simp: gone_def)
  qed
  show ?thesis
    unfolding end_session_def prod.case
    by (rule un.ensures_bind[OF un_maybe[OF I]], rule un.ensures_bind[OF drop], rule un.ensures_bind[OF close],
        rule un.ensures_weaken[OF records]) simp
qed

lemma un_each:
  assumes "\<And>i r b. (i, r, b) \<in> set tasks \<Longrightarrow> Suc r \<le> n" "un.lasting e u F"
  shows "un.ensures e u (\<lambda>st. F st \<and> inside e u A n st) (oa_each (end_session e) tasks)
    (\<lambda>_ st. F st \<and> (\<forall>(i, r, b)\<in>set tasks. gone e u i st \<and> shut e u r st))"
  using assms
proof (induction tasks arbitrary: F)
  case Nil
  then show ?case by (auto intro: un.ensures_return)
next
  case (Cons task tasks)
  obtain i r b where task: "task = (i, r, b)" by (cases task)
  have n: "Suc r \<le> n" using Cons.prems(1) task by auto
  let ?F = "\<lambda>st. (F st \<and> inside e u A n st) \<and> gone e u i st \<and> shut e u r st"
  have last: "un.lasting e u (\<lambda>st. F st \<and> inside e u A n st)" by (intro un.lasting_conj Cons.prems(2) lasting_inside)
  have first: "un.ensures e u (\<lambda>st. F st \<and> inside e u A n st) (end_session e task) (\<lambda>_ st. (F st \<and> gone e u i st \<and> shut e u r st) \<and> inside e u A n st)"
    unfolding task
    by (rule un.ensures_weaken[OF un.ensures_strengthen[OF un_end[OF last, of A r i b]]]) (use n in \<open>auto simp: inside_def\<close>)
  have "un.ensures e u (\<lambda>st. (F st \<and> gone e u i st \<and> shut e u r st) \<and> inside e u A n st) (oa_each (end_session e) tasks)
      (\<lambda>_ st. (F st \<and> gone e u i st \<and> shut e u r st) \<and> (\<forall>(i, r, b)\<in>set tasks. gone e u i st \<and> shut e u r st))"
    by (rule Cons.IH) (use Cons.prems(1) in force, intro un.lasting_conj Cons.prems(2) lasting_gone lasting_shut)
  from un.ensures_bind[OF first this] show ?case
    by simp (erule un.ensures_weaken, auto simp: task)
qed

text \<open>Computations that cannot fail.\<close>

definition total :: "'a oa \<Rightarrow> bool" where
  "total m \<longleftrightarrow> (\<forall>st. \<exists>x st'. m st = (Inr x, st'))"

lemma total_rules:
  "total (oa_return x)" "total (ss_do f)" "total (ss_get g)" "total (ss_set h)" "total (oa_wait e)"
  "total m \<Longrightarrow> (\<And>x. total (k x)) \<Longrightarrow> total (oa_bind m k)"
  by (auto simp: total_def oa_return_def ss_do_def ss_get_def ss_set_def oa_act_def oa_wait_def oa_ask_def split: prod.splits)
    (auto simp: oa_bind_def split: prod.splits sum.splits, metis Pair_inject sum.distinct(1))

lemma total_each: "(\<And>x. total (f x)) \<Longrightarrow> total (oa_each f xs)"
  by (induction xs) (auto intro: total_rules)

lemma total_removal: "total (removeAllUserSessions e u reason)"
proof -
  have "total (end_session e task)" for task
    by (cases task) (auto simp: end_session_def close_session_def intro!: total_rules)
  then have "total (oa_each (end_session e) tasks)" for tasks by (rule total_each)
  then show ?thesis unfolding removeAllUserSessions_def by (auto intro!: total_rules)
qed

lemma removal_done:
  assumes "calm e u" "store_refs (ow_store (os_world st))" "jsmap_ok (ss_sessions (ow_store (os_world st)))"
    and listed: "\<And>i r. (i, r) \<in> of_user u (ow_store (os_world st)) \<Longrightarrow> i \<in> set (user_ids u (ow_store (os_world st)))"
  shows "\<exists>st'. removeAllUserSessions e u reason st = (Inr (), st') \<and> of_user u (ow_store (os_world st')) = {} \<and>
    (\<forall>(i, r)\<in>of_user u (ow_store (os_world st)). cs_closeTriggered (ss_heap (ow_store (os_world st')) ! r))"
proof -
  let ?ss = "ow_store (os_world st)" let ?A = "of_user u ?ss" and ?n = "length (ss_heap ?ss)"
  let ?ids = "user_ids u ?ss" let ?tasks = "end_tasks ?ids ?ss"
  let ?Q = "\<lambda>_ st. inside e u ?A ?n st \<and> (\<forall>(i, r, b)\<in>set ?tasks. gone e u i st \<and> shut e u r st)"
  have start: "inside e u ?A ?n st" using assms(1) by (simp add: inside_def)
  have bounds: "Suc r \<le> ?n" if "(i, r, b) \<in> set ?tasks" for i r b
    using that assms(2) map_of_SomeD by (fastforce simp: end_tasks_def List.map_filter_def getSession_def store_refs_def)
  have tasks: "\<exists>b. (i, r, b) \<in> set ?tasks" if "(i, r) \<in> ?A" for i r
  proof -
    have "getSession i ?ss = Some r" using that assms(3) by (auto simp: of_user_def getSession_def jsmap_ok_def)
    with listed[OF that] show ?thesis by (force simp: end_tasks_def List.map_filter_def)
  qed
  have last: "un.lasting e u (?Q ())"
    by (intro un.lasting_conj lasting_inside lasting_ball) (auto intro!: un.lasting_conj lasting_gone lasting_shut)
  have each: "un.ensures e u (inside e u ?A ?n) (oa_each (end_session e) ?tasks) ?Q"
    using un_each[of ?tasks ?n e u "inside e u ?A ?n" ?A] bounds lasting_inside by auto
  have unlist: "un.ensures e u (?Q ()) (ss_set (\<lambda>now ss. ss\<lparr>ss_userSessions := AList.delete u (ss_userSessions ss)\<rparr>)) ?Q"
    unfolding ss_set_def
    by (rule un_do) (auto simp: ends_def stay_closed_def inside_def gone_def shut_def)
  have rest: "un.ensures e u (inside e u ?A ?n) (oa_bind (oa_each (end_session e) ?tasks) (\<lambda>_.
      oa_bind (ss_set (\<lambda>now ss. ss\<lparr>ss_userSessions := AList.delete u (ss_userSessions ss)\<rparr>)) (\<lambda>_. oa_wait e))) ?Q"
    by (rule un.ensures_bind[OF each], rule un.ensures_bind[OF unlist], rule un_wait[OF last])
  obtain x st' where run: "removeAllUserSessions e u reason st = (Inr x, st')" using total_removal unfolding total_def by metis
  have Q: "?Q () st'"
  proof (cases "?ids = []")
    case True
    then have "st' = st" using run by (simp add: removeAllUserSessions_def oa_bind_def get_run oa_return_def)
    with True start show ?thesis by (simp add: end_tasks_def List.map_filter_def)
  next
    case False
    then have "oa_bind (oa_each (end_session e) ?tasks) (\<lambda>_.
        oa_bind (ss_set (\<lambda>now ss. ss\<lparr>ss_userSessions := AList.delete u (ss_userSessions ss)\<rparr>)) (\<lambda>_. oa_wait e)) st = (Inr x, st')"
      using run by (simp add: removeAllUserSessions_def oa_bind_def[of "ss_get _"] get_run)
    from un.ensuresD(3)[OF rest start this] show ?thesis by simp
  qed
  have "of_user u (ow_store (os_world st')) = {}"
  proof (rule ccontr)
    assume "of_user u (ow_store (os_world st')) \<noteq> {}"
    then obtain i r where m: "(i, r) \<in> of_user u (ow_store (os_world st'))" by auto
    with Q have "(i, r) \<in> ?A" by (auto simp: inside_def)
    then obtain b where "(i, r, b) \<in> set ?tasks" using tasks by blast
    with Q m show False by (auto simp: gone_def)
  qed
  moreover have "cs_closeTriggered (ss_heap (ow_store (os_world st')) ! r)" if "(i, r) \<in> ?A" for i r
    using tasks[OF that] Q by (auto simp: shut_def)
  ultimately show ?thesis using run by auto
qed

text \<open>
  C12: Ending the sessions of a user leaves none. Where every session of the user is listed under the user and no
  other request opens one for the user meanwhile, then, whatever else other requests do, the call returns, no session of the user is
  in the store, and every one that was is closed.
\<close>

theorem removal_complete:
  assumes "calm e u" "store_refs (ow_store (os_world st))" "jsmap_ok (ss_sessions (ow_store (os_world st)))"
    and listed: "\<And>i r. (i, r) \<in> of_user u (ow_store (os_world st)) \<Longrightarrow> i \<in> set (user_ids u (ow_store (os_world st)))"
  shows "\<exists>st'. removeAllUserSessions e u reason st = (Inr (), st') \<and> of_user u (ow_store (os_world st')) = {} \<and>
    (\<forall>(i, r)\<in>of_user u (ow_store (os_world st)). cs_closeTriggered (ss_heap (ow_store (os_world st')) ! r))"
  by (rule removal_done[OF assms(1-3) listed])

end
