(* ===== verification/Admin_Safety.thy ===== *)
theory Admin_Safety
  imports User_Admin Gate_Safety
begin

text \<open>
  What the administration of users guarantees: who gets through to a handler, that there is one owner and
  that no request takes the owner away, and that a user who is disabled is locked out.
\<close>

section \<open>Computations that leave the table of users alone\<close>

text \<open>Where changes of the session store do not matter, the methods of the store obey.\<close>

locale oauth_blind = oauth_quiet e S for e S +
  assumes blind: "S w (w\<lparr>ow_store := ss\<rparr>)"
begin

lemma obeys_do: "obeys (ss_do f)"
  unfolding ss_do_def by (rule obeys_act) (simp add: blind split: prod.splits)

lemma obeys_store: "obeys (ss_get g)" "obeys (ss_set h)" "obeys (oa_wait e)"
  unfolding ss_get_def ss_set_def oa_wait_def by (simp_all add: obeys_do obeys_pure)

lemma obeys_each: "(\<And>x. obeys (f x)) \<Longrightarrow> obeys (oa_each f xs)"
  by (induction xs) (auto intro: obeys_pure obeys_bind)

lemma obeys_close: "obeys (close_session e r)"
  unfolding close_session_def by (auto intro!: obeys_bind obeys_do obeys_store obeys_pure)

lemma obeys_ending: "obeys (end_session e task)"
  unfolding end_session_def by (auto intro!: obeys_bind obeys_do obeys_store obeys_close obeys_pure split: prod.splits)

lemma obeys_removal: "obeys (removeAllUserSessions e u reason)"
  unfolding removeAllUserSessions_def by (auto intro!: obeys_bind obeys_do obeys_store obeys_each obeys_ending obeys_pure)

lemma ensures_const: "(c \<Longrightarrow> ensures P m Q) \<Longrightarrow> ensures (\<lambda>st. P st \<and> c) m Q"
  by (cases c) (auto simp: ensures_def)

end

text \<open>\<open>I\<close> is a condition on the table of users that others keep.\<close>

definition keepers :: "oauth_env \<Rightarrow> (user_row list \<Rightarrow> bool) \<Rightarrow> bool" where
  "keepers e I \<longleftrightarrow> (\<forall>k w. I (ow_users w) \<longrightarrow> I (ow_users (oe_others e k w)))"

definition table_kept :: "oauth_env \<Rightarrow> (user_row list \<Rightarrow> bool) \<Rightarrow> oauth_world \<Rightarrow> oauth_world \<Rightarrow> bool" where
  "table_kept e I w w' \<longleftrightarrow> (keepers e I \<longrightarrow> I (ow_users w) \<longrightarrow> I (ow_users w'))"

interpretation iu: oauth_blind e "table_kept e I" for e I
  by unfold_locales (auto simp: table_kept_def keepers_def)

definition holds :: "oauth_env \<Rightarrow> (user_row list \<Rightarrow> bool) \<Rightarrow> oauth_state \<Rightarrow> bool" where
  "holds e I st \<longleftrightarrow> keepers e I \<and> I (ow_users (os_world st))"

lemma lasting_holds: "iu.lasting e I (holds e I)"
  by (auto simp: iu.lasting_def holds_def table_kept_def)

lemma holds_obeys: "iu.obeys e I m \<Longrightarrow> iu.ensures e I (holds e I) m (\<lambda>_. holds e I)"
  using iu.ensures_lasting lasting_holds by blast

lemma holds_query:
  assumes "\<And>k now w. I (ow_users w) \<Longrightarrow> I (ow_users (snd (operation k now w)))"
  shows "iu.ensures e I (holds e I) (oa_query e operation) (\<lambda>_. holds e I)"
proof (rule iu.ensures_query[OF lasting_holds lasting_holds])
  fix st r w
  assume st: "holds e I st" and run: "operation (os_tick st) (os_now st) (os_world st) = (r, w)"
  have "I (ow_users w)" using assms[of "os_world st" "os_tick st" "os_now st"] st run by (simp add: holds_def)
  with st show "table_kept e I (os_world st) w \<and> (\<forall>y. r = Inr y \<longrightarrow> holds e I (st\<lparr>os_world := w\<rparr>))"
    by (simp add: holds_def table_kept_def)
qed

section \<open>One owner\<close>

definition users_ok :: "user_row list \<Rightarrow> bool" where
  "users_ok us \<longleftrightarrow> distinct (map us_userId us) \<and> length (filter (\<lambda>u. us_role u = OwnerRole) us) \<le> 1"

text \<open>The rows are in order and, if one is named, the owner of that name (and proxy) is there and enabled.\<close>

definition owner_row :: "string \<Rightarrow> int \<Rightarrow> user_row \<Rightarrow> bool" where
  "owner_row i px u \<longleftrightarrow> us_userId u = i \<and> us_role u = OwnerRole \<and> us_status u = UserEnabled \<and> us_proxyId u = px"

definition owner_safe :: "(string \<times> int) option \<Rightarrow> user_row list \<Rightarrow> bool" where
  "owner_safe q us \<longleftrightarrow> users_ok us \<and> (\<forall>i px. q = Some (i, px) \<longrightarrow> (\<exists>u\<in>set us. owner_row i px u))"

definition spares :: "(string \<times> int) option \<Rightarrow> string \<Rightarrow> bool" where
  "spares q i \<longleftrightarrow> (\<forall>px. q \<noteq> Some (i, px))"

lemma filter_sql_update_same: "(\<And>r. P (f r) = P r) \<Longrightarrow> map h (filter P (sql_update Q f us)) = map (\<lambda>r. h (if Q r then f r else r)) (filter P us)"
  by (induction us) (auto simp: sql_update_def)

lemma users_ok_update:
  assumes "\<And>r. us_userId (f r) = us_userId r" "\<And>r. us_role (f r) = us_role r" "users_ok us"
  shows "users_ok (sql_update Q f us)"
proof -
  have "length (filter (\<lambda>u. us_role u = OwnerRole) (sql_update Q f us)) = length (filter (\<lambda>u. us_role u = OwnerRole) us)"
    using filter_sql_update_same[of "\<lambda>u. us_role u = OwnerRole" f id Q us] assms(2) by (metis (no_types, lifting) length_map)
  moreover have "map us_userId (sql_update Q f us) = map us_userId us" using assms(1) by (simp add: sql_update_def)
  ultimately show ?thesis using assms(3) unfolding users_ok_def by metis
qed

lemma users_ok_filter: "users_ok us \<Longrightarrow> users_ok (filter Q us)"
  unfolding users_ok_def
  by (auto simp: distinct_map_filter_subset) (metis (no_types, lifting) filter_filter length_filter_le filter_cong order_trans)

lemma safe_update:
  assumes "\<And>r. us_userId (f r) = us_userId r" "\<And>r. us_role (f r) = us_role r" "\<And>r. us_proxyId (f r) = us_proxyId r"
    and "spares q i \<or> (\<forall>r. us_status r = UserEnabled \<longrightarrow> us_status (f r) = UserEnabled)" "owner_safe q us"
  shows "owner_safe q (sql_update (\<lambda>r. us_userId r = i) f us)"
  unfolding owner_safe_def
proof (intro conjI allI impI)
  show "users_ok (sql_update (\<lambda>r. us_userId r = i) f us)" using assms(5) users_ok_update[OF assms(1,2)] by (simp add: owner_safe_def)
  fix j px assume q: "q = Some (j, px)"
  then obtain u where u: "u \<in> set us" "owner_row j px u" using assms(5) by (auto simp: owner_safe_def)
  then have "owner_row j px (if us_userId u = i then f u else u)"
    using assms(1-4) q by (auto simp: owner_row_def spares_def)
  with u(1) show "\<exists>u\<in>set (sql_update (\<lambda>r. us_userId r = i) f us). owner_row j px u" unfolding set_sql_update by blast
qed

lemma safe_filter: "(\<And>i px u. q = Some (i, px) \<Longrightarrow> owner_row i px u \<Longrightarrow> Q u) \<Longrightarrow> owner_safe q us \<Longrightarrow> owner_safe q (filter Q us)"
  by (fastforce simp: owner_safe_def users_ok_filter)

lemma safe_insert:
  assumes "us_userId u \<notin> us_userId ` set us" "us_role u = OwnerRole \<Longrightarrow> us = []" "owner_safe q us"
  shows "owner_safe q (us @ [u])"
  using assms by (auto simp: owner_safe_def users_ok_def)

lemma user_change_safe:
  assumes "\<And>r. us_userId (f r) = us_userId r" "\<And>r. us_role (f r) = us_role r" "\<And>r. us_proxyId (f r) = us_proxyId r"
    and "spares q i \<or> (\<forall>r. us_status r = UserEnabled \<longrightarrow> us_status (f r) = UserEnabled)"
  shows "iu.ensures e (owner_safe q) (holds e (owner_safe q)) (user_update e i f) (\<lambda>_. holds e (owner_safe q))"
  unfolding user_update_def
  by (rule holds_query) (use safe_update[OF assms] in \<open>auto simp: user_change_def split: option.splits\<close>)

lemma user_delete_safe:
  assumes "spares q i"
  shows "iu.ensures e (owner_safe q) (holds e (owner_safe q)) (user_delete e i) (\<lambda>_. holds e (owner_safe q))"
  unfolding user_delete_def
  by (rule holds_query)
    (use assms in \<open>auto simp: user_remove_def spares_def owner_row_def intro!: safe_filter split: option.splits\<close>)

lemma user_create_safe:
  assumes "us_role u \<noteq> OwnerRole"
  shows "iu.ensures e (owner_safe q) (holds e (owner_safe q)) (user_create e u) (\<lambda>_. holds e (owner_safe q))"
  unfolding user_create_def
  by (rule holds_query) (use assms in \<open>auto simp: user_insert_def intro!: safe_insert\<close>)

lemma create_owner_safe: "iu.ensures e (owner_safe q) (holds e (owner_safe q)) (create_owner e new) (\<lambda>_. holds e (owner_safe q))"
  unfolding create_owner_def
  by (rule holds_query) (auto simp: user_insert_def owner_safe_def users_ok_def split: option.splits)

lemma delete_proxy_safe:
  assumes "\<And>i px. q = Some (i, px) \<Longrightarrow> \<not> P px"
  shows "iu.ensures e (owner_safe q) (holds e (owner_safe q)) (deleteByProxyId e P) (\<lambda>_. holds e (owner_safe q))"
  unfolding deleteByProxyId_def
  by (rule holds_query) (use assms in \<open>auto simp: owner_row_def intro!: safe_filter\<close>)

text \<open>A row that is read and is not the owner's is not the row to be kept.\<close>

lemma read_spares:
  "iu.ensures e (owner_safe q) (holds e (owner_safe q)) (oa_read e (find_user i))
     (\<lambda>found st. holds e (owner_safe q) st \<and> (\<forall>u. found = Some u \<longrightarrow> us_role u \<noteq> OwnerRole \<longrightarrow> spares q i))"
proof (rule iu.ensures_read[OF lasting_holds iu.lasting_conj[OF lasting_holds iu.lasting_const]])
  fix st assume st: "holds e (owner_safe q) st"
  let ?us = "ow_users (os_world st)"
  have "spares q i" if u: "find_user i (os_world st) = Some u" "us_role u \<noteq> OwnerRole" for u
  proof -
    have "u \<in> set ?us" "us_userId u = i" using u(1) by (auto simp: find_user_def find_Some_iff)
    with st u(2) show ?thesis
      by (auto simp: holds_def owner_safe_def users_ok_def spares_def owner_row_def distinct_map dest: inj_onD)
  qed
  with st show "holds e (owner_safe q) st \<and> (\<forall>u. find_user i (os_world st) = Some u \<longrightarrow> us_role u \<noteq> OwnerRole \<longrightarrow> spares q i)"
    by blast
qed

section \<open>The handlers keep the owner\<close>

definition safe :: "oauth_env \<Rightarrow> (string \<times> int) option \<Rightarrow> 'a oa \<Rightarrow> bool" where
  "safe e q m \<longleftrightarrow> iu.ensures e (owner_safe q) (holds e (owner_safe q)) m (\<lambda>_. holds e (owner_safe q))"

lemma safe_obeys: "(\<And>I. iu.obeys e I m) \<Longrightarrow> safe e q m"
  unfolding safe_def using holds_obeys by blast

lemma safe_pure:
  "safe e q (oa_return x)" "safe e q (oa_throw err)" "safe e q (oa_lift r)" "safe e q (oa_some err v)" "safe e q oa_time"
  "safe e q (oa_read e f)" "safe e q (oa_ask e g)" "safe e q (ss_do h)" "safe e q (removeAllUserSessions e u reason)"
  by (rule safe_obeys, rule iu.obeys_pure iu.obeys_do iu.obeys_removal)+

lemma safe_bind: "safe e q m \<Longrightarrow> (\<And>x. safe e q (f x)) \<Longrightarrow> safe e q (oa_bind m f)"
  unfolding safe_def by (rule iu.ensures_bind)

lemma safe_branch:
  "safe e q m \<Longrightarrow> safe e q n \<Longrightarrow> safe e q (if b then m else n)"
  "safe e q n \<Longrightarrow> (\<And>x. safe e q (f x)) \<Longrightarrow> safe e q (case v of None \<Rightarrow> n | Some x \<Rightarrow> f x)"
  "(\<And>x y. safe e q (k x y)) \<Longrightarrow> safe e q (case p of (x, y) \<Rightarrow> k x y)"
  "safe e q n \<Longrightarrow> (\<And>x xs. safe e q (c x xs)) \<Longrightarrow> safe e q (case l of [] \<Rightarrow> n | x # xs \<Rightarrow> c x xs)"
  by (auto split: option.splits prod.splits list.splits)

lemma safe_some: "(\<And>x. v = Some x \<Longrightarrow> safe e q (f x)) \<Longrightarrow> safe e q (oa_bind (oa_some err v) f)"
  by (cases v) (auto simp: safe_def oa_some_def oa_return_def oa_throw_def oa_bind_def iu.ensures_def iu.later_refl)

lemmas safe_rules = safe_pure safe_bind safe_branch

lemma safe_const: "(c \<Longrightarrow> safe e q m) \<Longrightarrow>
    iu.ensures e (owner_safe q) (\<lambda>st. holds e (owner_safe q) st \<and> c) m (\<lambda>_. holds e (owner_safe q))"
  unfolding safe_def by (rule iu.ensures_const)

text \<open>What is disabled is not the owner.\<close>

lemma disableUser_spares:
  "iu.ensures e (owner_safe q) (holds e (owner_safe q)) (disableUser e i) (\<lambda>_ st. holds e (owner_safe q) st \<and> spares q i)"
proof -
  let ?m = "oa_bind (user_update e i (\<lambda>r. r\<lparr>us_status := UserDisabledStatus\<rparr>)) (\<lambda>_. removeAllUserSessions e i USER_DISABLED)"
  have "safe e q ?m" if "spares q i"
    by (intro safe_rules) (unfold safe_def, rule user_change_safe, use that in auto)
  then have rest: "iu.ensures e (owner_safe q) (\<lambda>st. holds e (owner_safe q) st \<and> spares q i) ?m (\<lambda>_ st. holds e (owner_safe q) st \<and> spares q i)"
    by (intro iu.ensures_const) (simp add: safe_def)
  show ?thesis
    unfolding disableUser_def
    by (rule iu.ensures_bind[OF read_spares]) (auto simp: iu.ensures_throw intro: rest split: option.splits)
qed

lemma disableUser_safe: "safe e q (disableUser e i)"
  unfolding safe_def by (rule iu.ensures_weaken[OF disableUser_spares]) simp

lemma disable_then: "(spares q i \<Longrightarrow> safe e q m) \<Longrightarrow> safe e q (oa_bind (disableUser e i) (\<lambda>_. m))"
  unfolding safe_def by (rule iu.ensures_bind[OF disableUser_spares]) (rule iu.ensures_const)

lemma permissions_safe:
  assumes "\<And>f. changes = Some f \<Longrightarrow> (\<forall>r. us_userId (f r) = us_userId r \<and> us_role (f r) = us_role r \<and> us_proxyId (f r) = us_proxyId r) \<and>
      (spares q i \<or> (\<forall>r. us_status r = UserEnabled \<longrightarrow> us_status (f r) = UserEnabled))"
  shows "safe e q (updateUserPermissions e ap i text given changes existing)"
proof -
  have "safe e q (user_update e i f)" "safe e q (user_update e i (\<lambda>r. set_permissions ap t (f r)))" if "changes = Some f" for f t
    unfolding safe_def using assms[OF that] by (intro user_change_safe; simp add: set_permissions_def)+
  then show ?thesis
    unfolding updateUserPermissions_def by (intro safe_rules safe_some; simp)
qed

lemma update_permissions_safe: "safe e q (handleUpdateUserPermissions e ap data)"
  unfolding handleUpdateUserPermissions_def column_text_def by (intro safe_rules permissions_safe) simp

lemma new_user_role:
  assumes "new_user ap data i x = Some u" "\<not> claims_owner data"
  shows "us_role u \<noteq> OwnerRole"
proof -
  have "int_column (nullish_else (parsed_member data ''role'') (JNum (Fin 3))) = Some (us_role u)"
    using assms(1) by (auto simp: new_user_def Let_def split: option.splits if_splits)
  moreover have "int_column v = Some 1 \<Longrightarrow> v = JNum (Fin 1)" for v
    by (auto simp: int_column_def split: jsval.splits jsnum.splits if_splits)
  moreover have "int_column (JNum (Fin 3)) = Some 3" by (simp add: int_column_def)
  ultimately show ?thesis
    using assms(2) by (auto simp: claims_owner_def OwnerRole_def nullish_else_def split: if_splits)
qed

lemma create_safe: "safe e q (handleCreateUser e ap data token)"
proof -
  have "safe e q (create_owner e new)" for new unfolding safe_def by (rule create_owner_safe)
  moreover have "safe e q (oa_bind (oa_some db_refusal (new_user ap data i x)) (user_create e))" if "\<not> claims_owner data" for i x
  proof (rule safe_some)
    fix u assume u: "new_user ap data i x = Some u"
    then have "us_role u \<noteq> OwnerRole" using that by (rule new_user_role)
    then show "safe e q (user_create e u)" unfolding safe_def by (rule user_create_safe)
  qed
  ultimately have made: "safe e q (if claims_owner data then create_owner e (new_user ap data i x)
      else oa_bind (oa_some db_refusal (new_user ap data i x)) (user_create e))" for i x
    by simp
  show ?thesis
    unfolding handleCreateUser_def with_data_def column_text_def Let_def by (rule made safe_rules)+
qed

lemma queries_safe:
  "safe e q (handleGetUsers e ap data)" "safe e q (handleCountUsers e ap data)" "safe e q (handleGetOwner e)"
  unfolding handleGetUsers_def handleCountUsers_def handleGetOwner_def column_text_def Let_def by (intro safe_rules; simp)+

lemma delete_safe: "safe e q (handleDeleteUser e data)" "safe e q (handleDisableUser e data)"
proof -
  have "safe e q (user_delete e i)" if "spares q i" for i unfolding safe_def using that by (rule user_delete_safe)
  then show "safe e q (handleDeleteUser e data)" "safe e q (handleDisableUser e data)"
    unfolding handleDeleteUser_def handleDisableUser_def with_data_def column_text_def
    by (intro safe_rules disable_then; simp)+
qed

lemma changes_kept:
  assumes "user_changes data = Some f"
  shows "us_userId (f r) = us_userId r" "us_role (f r) = us_role r" "us_proxyId (f r) = us_proxyId r"
    and "parsed_member data ''status'' = JUndef \<or> parsed_member data ''status'' = JNum (Fin 1) \<Longrightarrow>
      us_status r = UserEnabled \<Longrightarrow> us_status (f r) = UserEnabled"
  using assms by (auto simp: user_changes_def Let_def int_column_def UserEnabled_def split: if_splits option.splits)

lemma update_safe: "safe e q (handleUpdateUser e ap data :: 'x admin_data oa)"
proof -
  let ?status = "parsed_member data ''status''" and ?permissions = "parsed_member data ''permissions''"
  define rows :: "string \<Rightarrow> user_row \<Rightarrow> 'x admin_data oa" where "rows = (\<lambda>i existing. oa_bind (if ?status = JNum (Fin 0) \<and> us_status existing \<noteq> 0 then disableUser e i else oa_return ()) (\<lambda>_.
    oa_bind (if ?permissions = JUndef
      then oa_bind (oa_some db_refusal (user_changes data)) (\<lambda>f. oa_bind (user_update e i f) (\<lambda>u. oa_return (u, [])))
      else updateUserPermissions e ap i (permissions_text ap ?permissions) (user_changes_given data) (user_changes data) (Some existing))
      (\<lambda>(u, news). oa_return (OneUser u news))))"
  have writes: "safe e q (rows i existing)" if ok: "spares q i \<or> ?status = JUndef \<or> ?status = JNum (Fin 1)" for i existing
  proof -
    have "safe e q (user_update e i f)" if "user_changes data = Some f" for f
      unfolding safe_def using ok changes_kept[OF that] by (intro user_change_safe) auto
    moreover have "safe e q (updateUserPermissions e ap i t g (user_changes data) v)" for t g v
      using ok changes_kept by (intro permissions_safe) blast
    ultimately show ?thesis unfolding rows_def by (intro safe_rules safe_some disableUser_safe; simp)
  qed
  have "iu.ensures e (owner_safe q) (\<lambda>st. holds e (owner_safe q) st \<and> (\<forall>u. found = Some u \<longrightarrow> us_role u \<noteq> OwnerRole \<longrightarrow> spares q i))
      (case found of
         None \<Rightarrow> oa_throw ''USER_NOT_FOUND''
       | Some existing \<Rightarrow>
           if us_role existing = OwnerRole \<and> ?status \<noteq> JUndef \<and> ?status \<noteq> JNum (Fin 1) then oa_throw ''FORBIDDEN''
           else rows i existing) (\<lambda>_. holds e (owner_safe q))" for found i
    by (rule safe_const, cases found) (auto simp: safe_pure intro!: safe_branch(1) writes)
  then have read: "safe e q (oa_bind (oa_read e (find_user i)) (\<lambda>found. case found of
         None \<Rightarrow> oa_throw ''USER_NOT_FOUND''
       | Some existing \<Rightarrow>
           if us_role existing = OwnerRole \<and> ?status \<noteq> JUndef \<and> ?status \<noteq> JNum (Fin 1) then oa_throw ''FORBIDDEN''
           else rows i existing))" for i
    unfolding safe_def by (rule iu.ensures_bind[OF read_spares])
  show ?thesis
    unfolding handleUpdateUser_def with_data_def column_text_def Let_def by (rule read[unfolded rows_def] safe_rules)+
qed

lemma each_safe: "(\<And>x. safe e q (f x)) \<Longrightarrow> safe e q (oa_each f xs)"
  by (induction xs) (auto intro: safe_rules)

lemma delete_by_proxy_safe: "safe e q (handleDeleteUsersByProxy e ap data)"
proof -
  let ?rest = "\<lambda>P users. if list_ex (\<lambda>u. us_role u = OwnerRole) users then oa_throw ''FORBIDDEN''
    else oa_bind (oa_each (\<lambda>u. disableUser e (us_userId u)) users) (\<lambda>_. oa_bind (deleteByProxyId e P) (\<lambda>n. oa_return (DeletedCount n)))"
  let ?c = "\<lambda>P users. (\<forall>i px. q = Some (i, px) \<longrightarrow> P px \<longrightarrow> list_ex (\<lambda>u. us_role u = OwnerRole) users)"
  have read: "iu.ensures e (owner_safe q) (holds e (owner_safe q)) (oa_read e (\<lambda>w. filter (\<lambda>u. P (us_proxyId u)) (ow_users w)))
      (\<lambda>users st. holds e (owner_safe q) st \<and> ?c P users)" for P
    by (rule iu.ensures_read[OF lasting_holds iu.lasting_conj[OF lasting_holds iu.lasting_const]])
      (auto simp: holds_def owner_safe_def owner_row_def list_ex_iff)
  have rest: "iu.ensures e (owner_safe q) (\<lambda>st. holds e (owner_safe q) st \<and> ?c P users) (?rest P users) (\<lambda>_. holds e (owner_safe q))" for P users
  proof (rule safe_const)
    assume c: "?c P users"
    show "safe e q (?rest P users)"
    proof (cases "list_ex (\<lambda>u. us_role u = OwnerRole) users")
      case False
      with c have "safe e q (deleteByProxyId e P)" unfolding safe_def by (intro delete_proxy_safe) blast
      with False show ?thesis by (auto intro!: safe_rules each_safe disableUser_safe)
    qed (simp add: safe_pure)
  qed
  have all: "safe e q (oa_bind (oa_read e (\<lambda>w. filter (\<lambda>u. P (us_proxyId u)) (ow_users w))) (?rest P))" for P
    unfolding safe_def by (rule iu.ensures_bind[OF read rest])
  show ?thesis
    unfolding handleDeleteUsersByProxy_def with_data_def by (rule all safe_rules)+
qed

text \<open>What is asked of the handlers of other components: they keep the condition, and time does not run backwards.\<close>

definition table_safe :: "(user_row list \<Rightarrow> bool) \<Rightarrow> 'a oa \<Rightarrow> bool" where
  "table_safe I m \<longleftrightarrow> (\<forall>st y st'. m st = (y, st') \<longrightarrow>
     os_now st \<le> os_now st' \<and> (I (ow_users (os_world st)) \<longrightarrow> I (ow_users (os_world st'))))"

lemma table_safe_obeys: "table_safe I m \<Longrightarrow> iu.obeys e I m"
  by (auto simp: table_safe_def iu.ensures_def iu.later_def table_kept_def)

lemma table_safe_safe: "table_safe (owner_safe q) m \<Longrightarrow> safe e q m"
  unfolding safe_def using holds_obeys table_safe_obeys by blast

lemma handler_safe:
  assumes "\<And>c d t x. table_safe (owner_safe q) (routed c d t x)"
  shows "safe e q (admin_handler e ap routed c data token ctx)"
  unfolding admin_handler_def
  by (rule safe_rules delete_safe update_permissions_safe create_safe queries_safe update_safe delete_by_proxy_safe
      table_safe_safe[OF assms])+

lemma authenticate_obeys: "iu.obeys e I (admin_authenticate e req)"
  unfolding admin_authenticate_def validateToken_def
  by (auto intro!: iu.obeys_bind iu.obeys_catch iu.obeys_pure split: option.splits)

lemma serve_safe:
  assumes "\<And>c d t x. table_safe (owner_safe q) (routed c d t x)"
  shows "iu.ensures e (owner_safe q) (holds e (owner_safe q)) (admin_serve e ap routed req) (\<lambda>_ _. True)"
proof -
  let ?reply = "\<lambda>c ctx. oa_bind (admin_handler e ap routed c (request_data (aq_body req)) (bearer (aq_authorization req)) ctx) (\<lambda>d.
    oa_return (AdminDone c d, owner_token req ctx))"
  have "iu.ensures e (owner_safe q) (holds e (owner_safe q)) (?reply c ctx) (\<lambda>_ _. True)" for c ctx
  proof -
    have "safe e q (?reply c ctx)" by (intro safe_bind handler_safe assms safe_pure)
    then show ?thesis unfolding safe_def by (rule iu.ensures_true)
  qed
  then have "iu.ensures e (owner_safe q) (holds e (owner_safe q)) (handleAdminRequest e ap routed req ctx) (\<lambda>_ _. True)" for ctx
    unfolding handleAdminRequest_def
    by (auto intro!: iu.ensures_catch iu.ensures_throw iu.ensures_return split: sum.splits)
  then show ?thesis
    unfolding admin_serve_def
    by (intro iu.ensures_bind[OF holds_obeys[OF authenticate_obeys]]) (auto intro!: iu.ensures_return split: sum.splits)
qed

lemma serve_keeps:
  assumes "keepers e (owner_safe q)" "\<And>c d t x. table_safe (owner_safe q) (routed c d t x)"
    and "owner_safe q (ow_users (os_world st))" "admin_serve e ap routed req st = (r, st')"
  shows "owner_safe q (ow_users (os_world st'))"
  using iu.ensuresD(1)[OF serve_safe[OF assms(2)] _ assms(4)] assms(1,3) by (simp add: holds_def table_kept_def)


text \<open>The owner of an installation, with its proxy, is there and enabled, and is the only one.\<close>

definition owner_there :: "string \<Rightarrow> int \<Rightarrow> user_row list \<Rightarrow> bool" where
  "owner_there owner proxy us \<longleftrightarrow> users_ok us \<and> (\<exists>u\<in>set us. owner_row owner proxy u)"


section \<open>Who administers\<close>

text \<open>What others can make of a world.\<close>

definition others_run :: "oauth_env \<Rightarrow> oauth_world \<Rightarrow> oauth_world \<Rightarrow> bool" where
  "others_run e = (\<lambda>w w'. \<exists>k. w' = oe_others e k w)\<^sup>*\<^sup>*"

interpretation an: oauth_quiet e "others_run e" for e
  by unfold_locales (auto simp: others_run_def)

text \<open>The token belongs to a user who was enabled and not expired at some time since.\<close>

definition vouched :: "oauth_env \<Rightarrow> oauth_world \<Rightarrow> int \<Rightarrow> string \<Rightarrow> user_row \<Rightarrow> bool" where
  "vouched e w start token u \<longleftrightarrow> (\<exists>w' now. others_run e w w' \<and> u \<in> set (ow_users w') \<and> us_userId u = calculateUserId (oe_platform e) token \<and>
     us_status u = UserEnabled \<and> start \<le> now \<and> \<not> user_expired u now)"

lemma validate_vouched:
  assumes "validateToken e token st = (Inr a, st')"
  shows "\<exists>u. vouched e (os_world st) (os_now st) token u \<and> au_role a = us_role u \<and> au_userId a = us_userId u"
proof -
  let ?w = "os_world st" and ?t = "os_now st" and ?i = "calculateUserId (oe_platform e) token"
  let ?P = "\<lambda>st. others_run e ?w (os_world st) \<and> ?t \<le> os_now st"
  let ?F = "\<lambda>found st. ?P st \<and> (\<forall>u. found = Some u \<longrightarrow> (\<exists>w'. others_run e ?w w' \<and> u \<in> set (ow_users w') \<and> us_userId u = ?i))"
  let ?Q = "\<lambda>a st. \<exists>u. vouched e ?w ?t token u \<and> au_role a = us_role u \<and> au_userId a = us_userId u"
  have last: "an.lasting e ?P" unfolding an.lasting_def by (blast intro: an.keep_trans order_trans)
  have read: "an.ensures e ?P (oa_read e (find_user ?i)) ?F"
    by (rule an.ensures_read[OF last an.lasting_conj[OF last an.lasting_const]]) (auto simp: find_user_def find_Some_iff)
  have ask: "an.ensures e ?P (oa_ask e (\<lambda>k. ?i)) (\<lambda>x st. ?P st \<and> x = ?i)"
    by (rule an.ensures_ask[OF an.lasting_conj[OF last an.lasting_const]]) auto
  have read': "an.ensures e (\<lambda>st. ?P st \<and> x = ?i) (oa_read e (find_user x)) ?F" for x
  proof (cases "x = ?i")
    case True
    from read show ?thesis by (simp only: True simp_thms)
  next
    case False
    then show ?thesis unfolding an.ensures_def by simp
  qed
  have rest: "an.ensures e (\<lambda>st. ?F found st \<and> now = os_now st)
      (case found of
         None \<Rightarrow> oa_throw ''USER_NOT_FOUND''
       | Some u \<Rightarrow>
           if us_status u \<noteq> UserEnabled then oa_throw ''USER_DISABLED''
           else if user_expired u now then oa_throw ''USER_EXPIRED''
           else (case (us_permissions u, us_userPreferences u) of
               (None, _) \<Rightarrow> oa_throw ''SyntaxError''
             | (Some permissions, preferences) \<Rightarrow>
                 if \<not> isValidPermissions permissions then oa_throw ''INVALID_PERMISSIONS''
                 else oa_bind (oa_some ''SyntaxError'' preferences) (\<lambda>prefs.
                   oa_return (auth_context_of u token permissions prefs None)))) ?Q" for found now
    by (auto simp: an.ensures_throw vouched_def auth_context_of_def intro!: an.ensures_some_then an.ensures_return split: option.splits)
      metis
  have "an.ensures e ?P (validateToken e token) ?Q"
    unfolding validateToken_def
    by (cases "token = []")
      (simp add: an.ensures_throw, simp only: if_False,
       rule an.ensures_bind[OF ask], rule an.ensures_bind[OF read'], rule an.ensures_time_then, rule rest)
  from an.ensuresD(3)[OF this _ assms] show ?thesis by (simp add: others_run_def)
qed

lemma authenticated:
  assumes "admin_authenticate e req st = (Inr (Inr ctx), st')"
  shows "(ctx = None \<and> aq_authorization req = None) \<or>
    (\<exists>a token u. ctx = Some a \<and> bearer (aq_authorization req) = Some token \<and> vouched e (os_world st) (os_now st) token u \<and>
       au_role a = us_role u \<and> (us_role u = OwnerRole \<or> us_role u = AdminRole))"
proof (cases "aq_authorization req = None \<and> allowsUnauthenticatedAdminAction req")
  case True
  with assms show ?thesis by (simp add: admin_authenticate_def oa_return_def)
next
  case False
  with assms obtain token a where token: "bearer (aq_authorization req) = Some token"
    and run: "validateToken e token st = (Inr a, st')" and a: "ctx = Some a" "au_role a = OwnerRole \<or> au_role a = AdminRole"
    by (auto simp: admin_authenticate_def oa_defs split: option.splits if_splits prod.splits sum.splits)
  with validate_vouched[OF run] show ?thesis by metis
qed

lemma decided:
  assumes "admin_decide req ctx = Inr c"
  shows "c \<in> OWNER_ONLY \<Longrightarrow> has_role ctx OwnerRole"
    and "ctx = None \<Longrightarrow> c \<in> {1016, 5001, 5002, 6002} \<or> c = 1010 \<and> claims_owner (request_data (aq_body req))"
  using assms
  by (auto simp: admin_decide_def Let_def isUnauthenticatedBootstrapAction_def bootstrap_action_def has_role_def
      split: if_splits option.splits)


section \<open>Disabled users\<close>

definition disabled_in :: "string \<Rightarrow> user_row list \<Rightarrow> bool" where
  "disabled_in i us \<longleftrightarrow> (\<forall>u\<in>set us. us_userId u = i \<longrightarrow> us_status u = UserDisabledStatus)"

text \<open>Every session of the user is listed under the user.\<close>

definition tidy :: "string \<Rightarrow> session_store \<Rightarrow> bool" where
  "tidy i ss \<longleftrightarrow> store_refs ss \<and> jsmap_ok (ss_sessions ss) \<and> (\<forall>j r. (j, r) \<in> of_user i ss \<longrightarrow> j \<in> set (user_ids i ss))"

lemma query_kept:
  assumes "oa_query e operation st = (Inr x, st')" "\<And>k w. J w \<Longrightarrow> J (oe_others e k w)"
    and "\<And>k now w y w'. (J w0 \<Longrightarrow> J w) \<Longrightarrow> operation k now w = (Inr y, w') \<Longrightarrow> J w'" "w0 = os_world st"
  shows "J (os_world st')"
proof -
  let ?s = "oa_pass e st"
  obtain w where w: "operation (os_tick ?s) (os_now ?s) (os_world ?s) = (Inr x, w)" "st' = oa_pass e (?s\<lparr>os_world := w\<rparr>)"
    using assms(1) by (auto simp: oa_query_def Let_def split: if_splits prod.splits)
  have "J w" using assms(3)[OF _ w(1)] assms(2,4) by (simp add: oa_pass_def)
  with assms(2) w(2) show ?thesis by (simp add: oa_pass_def)
qed

lemma change_disables: "user_change i (\<lambda>r. r\<lparr>us_status := UserDisabledStatus\<rparr>) w = (Inr u, w') \<Longrightarrow> disabled_in i (ow_users w')"
proof -
  assume "user_change i (\<lambda>r. r\<lparr>us_status := UserDisabledStatus\<rparr>) w = (Inr u, w')"
  then have "ow_users w' = sql_update (\<lambda>r. us_userId r = i) (\<lambda>r. r\<lparr>us_status := UserDisabledStatus\<rparr>) (ow_users w)"
    unfolding user_change_def by (cases "find_user i w") auto
  then show ?thesis unfolding disabled_in_def sql_update_def by (simp only: set_map ball_simps(9)) simp
qed

lemma change_store: "user_change i f w = (Inr u, w') \<Longrightarrow> ow_store w' = ow_store w"
  by (auto simp: user_change_def split: option.splits)

text \<open>What \<open>disableUser\<close> did when it returned.\<close>

lemma disable_run:
  assumes "disableUser e i st = (Inr (), st')"
  obtains u st1 v st2 where "oa_read e (find_user i) st = (Inr (Some u), st1)" "us_role u \<noteq> OwnerRole"
    "user_update e i (\<lambda>r. r\<lparr>us_status := UserDisabledStatus\<rparr>) st1 = (Inr v, st2)" "removeAllUserSessions e i USER_DISABLED st2 = (Inr (), st')"
  using assms unfolding disableUser_def
  by (auto simp: oa_bind_def oa_throw_def split: prod.splits sum.splits option.splits if_splits)

lemma disabled_refused:
  assumes "keepers e (disabled_in i)" "disabled_in i (ow_users (os_world st))" "calculateUserId (oe_platform e) token = i"
  shows "validateToken e token st \<noteq> (Inr a, st')"
proof
  assume "validateToken e token st = (Inr a, st')"
  from validate_vouched[OF this] obtain u w where run: "others_run e (os_world st) w"
    and u: "u \<in> set (ow_users w)" "us_userId u = i" "us_status u = UserEnabled"
    using assms(3) by (auto simp: vouched_def)
  have "disabled_in i (ow_users w)"
    using run assms(1,2) unfolding others_run_def by (induction rule: rtranclp_induct) (auto simp: keepers_def)
  with u show False by (auto simp: disabled_in_def UserDisabledStatus_def UserEnabled_def)
qed


end
