(* ===== verification/OAuth_Use.thy ===== *)
theory OAuth_Use
  imports OAuth_Safety "HOL-Library.Countable"
begin

text \<open>
  The authorization server in use: an exchange that nothing disturbs succeeds and gives a token the
  validator accepts, what happens to two exchanges within one second, and sample runs on which the
  properties of \<open>OAuth_Safety\<close> are instantiated.
\<close>

section \<open>Undisturbed requests\<close>

text \<open>No other request runs, the database answers, and the clock stands.\<close>

definition oauth_idle :: "oauth_env \<Rightarrow> bool" where
  "oauth_idle e \<longleftrightarrow> (\<forall>k w. oe_others e k w = w) \<and> (\<forall>k. \<not> oe_down e k) \<and> (\<forall>k. oe_elapsed e k = 0)"

lemma query_idle:
  "oauth_idle e \<Longrightarrow> oa_query e operation st =
   (case operation (Suc (os_tick st)) (os_now st) (os_world st) of
      (r, w) \<Rightarrow> (r, st\<lparr>os_world := w, os_tick := Suc (Suc (os_tick st))\<rparr>))"
  by (simp add: oauth_idle_def oa_query_def oa_pass_def Let_def split: prod.splits)

lemma read_idle: "oauth_idle e \<Longrightarrow> oa_read e f st = (Inr (f (os_world st)), st\<lparr>os_tick := Suc (Suc (os_tick st))\<rparr>)"
  by (simp add: oa_read_def query_idle)

lemma bind_run: "m st = (Inr x, st1) \<Longrightarrow> oa_bind m f st = f x st1"
  by (simp add: oa_bind_def)

lemma bind_stop: "m st = (Inl err, st1) \<Longrightarrow> oa_bind m f st = (Inl err, st1)"
  by (simp add: oa_bind_def)

lemmas run_simps = read_idle query_idle bind_run bind_stop oa_return_def oa_throw_def oa_catch_def oa_lift_def oa_some_def oa_time_def oa_random_def

text \<open>A public client is accepted by its name.\<close>

lemma authenticate_public:
  assumes "oauth_idle e" "getAuthorizationServerUrl (oe_platform e) req = Some issuer"
    "client_findFirst i issuer (os_world st) = Some c" "oc_tokenEndpointAuthMethod c = ''none''" "g \<in> set (oc_grantTypes c)"
  shows "authenticate_client e req i secret (Some g) st =
    (Inr (Inr (toClientInformation True c)), st\<lparr>os_tick := Suc (Suc (os_tick st))\<rparr>)"
  using assms
  by (simp add: authenticate_client_def issuer_of_def getClientForIssuer_def check_secret_def run_simps toClientInformation_def)

text \<open>The world after an exchange.\<close>

definition exchanged :: "oauth_env \<Rightarrow> auth_code \<Rightarrow> int \<Rightarrow> oauth_token \<Rightarrow> oauth_world \<Rightarrow> oauth_world" where
  "exchanged e c now t w =
     w\<lparr>ow_codes := sql_update (code_hit (co_code c) now) (\<lambda>c. c\<lparr>co_used := True\<rparr>) (ow_codes w),
       ow_tokens := ow_tokens w @ [t],
       ow_log := Issued (ot_tokenId t) (co_code c) # Redeemed (co_code c) (oe_self e) # ow_log w\<rparr>"

lemma hits_found:
  assumes "distinct (map co_code cs)" "c \<in> set cs" "code_hit (co_code c) now c"
  shows "filter (code_hit (co_code c) now) cs = [c]"
  using assms by (induction cs) (auto simp: code_hit_def filter_empty_conv image_iff intro!: filter_False)

lemma claim_idle:
  assumes "oauth_idle e" "distinct (map co_code (ow_codes (os_world st)))" "c \<in> set (ow_codes (os_world st))"
    "code_hit (co_code c) now c"
  shows "claim_code e (co_code c) now st = (Inr 1, st\<lparr>os_world := (os_world st)\<lparr>
      ow_codes := sql_update (code_hit (co_code c) now) (\<lambda>c. c\<lparr>co_used := True\<rparr>) (ow_codes (os_world st)),
      ow_log := Redeemed (co_code c) (oe_self e) # ow_log (os_world st)\<rparr>, os_tick := Suc (Suc (os_tick st))\<rparr>)"
proof -
  have P: "(\<lambda>d. co_code d = co_code c \<and> \<not> co_used d \<and> now \<le> co_expiresAt d) = code_hit (co_code c) now"
    by (simp add: code_hit_def fun_eq_iff)
  show ?thesis unfolding claim_code_def P Let_def using assms(1) hits_found[OF assms(2-4)] by (simp add: query_idle)
qed

definition new_token :: "oauth_env \<Rightarrow> oauth_client \<Rightarrow> auth_code \<Rightarrow> int \<Rightarrow> string \<Rightarrow> string \<Rightarrow> oauth_token" where
  "new_token e k c now refresh i =
     \<lparr>ot_tokenId = i,
      ot_accessToken = op_sign (oe_platform e) (op_jwtSecret (oe_platform e))
        (access_payload (co_clientId c) (co_userId c) (co_scopes c) (co_resource c) now),
      ot_refreshToken = (if ''refresh_token'' \<in> set (oc_grantTypes k) then Some refresh else None),
      ot_clientId = co_clientId c, ot_userId = co_userId c, ot_scopes = co_scopes c, ot_resource = co_resource c,
      ot_accessTokenExpiresAt = now + ACCESS_TOKEN_LIFETIME * 1000,
      ot_refreshTokenExpiresAt = (if ''refresh_token'' \<in> set (oc_grantTypes k) then Some (now + REFRESH_TOKEN_LIFETIME * 1000) else None),
      ot_revoked = False\<rparr>"

lemma issue_idle:
  assumes "oauth_idle e" "op_jwtSecret (oe_platform e) \<noteq> []" "client_findUnique (co_clientId c) (os_world st) \<noteq> None"
    and fresh: "i \<notin> set (map ot_tokenId (ow_tokens (os_world st)))"
      "\<And>k w. Some (oe_random e k ''refresh'' w) \<notin> set (map ot_refreshToken (ow_tokens w))"
      "op_sign (oe_platform e) (op_jwtSecret (oe_platform e))
        (access_payload (co_clientId c) (co_userId c) (co_scopes c) (co_resource c) (os_now st)) \<notin> set (map ot_accessToken (ow_tokens (os_world st)))"
    and names: "r = oe_random e (os_tick st) ''refresh'' (os_world st)" "i = oe_random e (Suc (os_tick st)) ''token_id'' (os_world st)"
  shows "\<exists>t. issue_tokens e k c st = (Inr (TokenReply t), st\<lparr>os_world := (os_world st)\<lparr>
      ow_tokens := ow_tokens (os_world st) @ [new_token e k c (os_now st) r i], ow_log := Issued i (co_code c) # ow_log (os_world st)\<rparr>,
      os_tick := Suc (Suc (os_tick st))\<rparr>) \<and> tk_access_token t = ot_accessToken (new_token e k c (os_now st) r i)"
  using assms(1-3) fresh(1) fresh(2)[of _ "os_world st"] fresh(3) names
  by (simp add: issue_tokens_def token_create_def generateAccessToken_def new_token_def run_simps Let_def)

lemma find_distinct: "distinct (map f xs) \<Longrightarrow> x \<in> set xs \<Longrightarrow> find (\<lambda>y. f y = f x) xs = Some x"
  by (induction xs) auto

lemma found_appended: "(\<forall>x\<in>set xs. \<not> P x) \<Longrightarrow> P y \<Longrightarrow> find P (xs @ [y]) = Some y"
  by (induction xs) auto

lemma validate_idle:
  assumes "oauth_idle e" "op_jwtSecret (oe_platform e) \<noteq> []"
    and jwt: "\<And>now p. op_verify (oe_platform e) (op_jwtSecret (oe_platform e)) now
      (op_sign (oe_platform e) (op_jwtSecret (oe_platform e)) p) = (if now < tp_exp p then Some p else None)"
    and token: "token_by_access (ot_accessToken t) (os_world st) = Some t" "t = new_token e k c (os_now st) r i"
    and user: "find_user (co_userId c) (os_world st) = Some u" "us_status u = UserEnabled" "\<not> user_expired u (os_now st)"
      "us_permissions u = Some permissions" "us_userPreferences u = Some preferences"
    and aud: "is_given aud \<Longrightarrow> aud = co_resource c"
  shows "\<exists>st'. oauth_validateToken e (ot_accessToken t) aud st =
    (Inr (Inr (auth_context_of u (ot_accessToken t) permissions preferences
      (Some (co_clientId c, co_scopes c, os_now st div 1000 + ACCESS_TOKEN_LIFETIME)))), st')"
proof -
  let ?p = "access_payload (co_clientId c) (co_userId c) (co_scopes c) (co_resource c) (os_now st)"
  have verify: "op_verify (oe_platform e) (op_jwtSecret (oe_platform e)) (os_now st div 1000) (ot_accessToken t) = Some ?p"
    using jwt token(2) by (simp add: new_token_def access_payload_def ACCESS_TOKEN_LIFETIME_def)
  have audience: "is_given aud \<Longrightarrow> tp_aud ?p = aud" and exp: "\<not> os_now st > tp_exp ?p * 1000"
    and names: "tp_type ?p = ''access_token''" "tp_user_id ?p = co_userId c" "tp_client_id ?p = co_clientId c"
      "tp_scopes ?p = co_scopes c" "tp_exp ?p = os_now st div 1000 + ACCESS_TOKEN_LIFETIME"
    using aud by (simp_all add: access_payload_def ACCESS_TOKEN_LIFETIME_def)
  have live: "token_live aud (os_now st) (Some t)"
    using token(2) aud by (simp add: token_live_def new_token_def ACCESS_TOKEN_LIFETIME_def)
  have stored: "validate_stored e (ot_accessToken t) aud st = (Inr True, st\<lparr>os_tick := Suc (Suc (os_tick st))\<rparr>)"
    unfolding validate_stored_def using assms(1) token(1) live by (simp add: run_simps)
  show ?thesis
    unfolding oauth_validateToken_def Let_def
    using assms(1,2) verify audience exp stored user by (auto simp: run_simps names)
qed


lemma exchange_run:
  assumes idle: "oauth_idle e" and fair: "oauth_fair e" and reach: "oauth_reach (oe_platform e) (os_world st)"
    and secret: "op_jwtSecret (oe_platform e) \<noteq> []"
    and refresh: "\<And>k w. Some (oe_random e k ''refresh'' w) \<notin> set (map ot_refreshToken (ow_tokens w))"
    and once: "op_sign (oe_platform e) (op_jwtSecret (oe_platform e))
      (access_payload (co_clientId c) (co_userId c) (co_scopes c) (co_resource c) (os_now st))
      \<notin> set (map ot_accessToken (ow_tokens (os_world st)))"
    and body: "tb_grant_type body = Some ''authorization_code''" "tb_code body = Some (co_code c)" "co_code c \<noteq> []"
      "is_given (tb_redirect_uri body)" "credentials (oe_platform e) req body = (Some (co_clientId c), s)" "co_clientId c \<noteq> []"
    and client: "getAuthorizationServerUrl (oe_platform e) req = Some issuer"
      "client_findFirst (co_clientId c) issuer (os_world st) = Some k" "oc_tokenEndpointAuthMethod k = ''none''"
      "''authorization_code'' \<in> set (oc_grantTypes k)"
    and code: "c \<in> set (ow_codes (os_world st))" "code_refusal (oe_platform e) body (co_clientId c) (os_now st) (Some c) = None"
  shows "\<exists>t r i. token_endpoint e req body st = (Inr (TokenReply t), st\<lparr>
      os_world := exchanged e c (os_now st) (new_token e (toClientInformation True k) c (os_now st) r i) (os_world st),
      os_tick := os_tick st + 8\<rparr>) \<and>
    tk_access_token t = ot_accessToken (new_token e (toClientInformation True k) c (os_now st) r i)"
proof -
  have inv: "codes_inv (os_world st)" "tokens_inv (oe_platform e) (os_world st)" "clients_inv (oe_platform e) (os_world st)"
    using reach_inv[OF reach] by (simp_all add: oauth_inv_def)
  let ?w = "(os_world st)\<lparr>ow_codes := sql_update (code_hit (co_code c) (os_now st)) (\<lambda>c. c\<lparr>co_used := True\<rparr>) (ow_codes (os_world st)),
      ow_log := Redeemed (co_code c) (oe_self e) # ow_log (os_world st)\<rparr>"
  let ?s = "st\<lparr>os_world := ?w, os_tick := Suc (Suc (Suc (Suc (Suc (Suc (os_tick st))))))\<rparr>"
  let ?r = "oe_random e (os_tick ?s) ''refresh'' (os_world ?s)" and ?i = "oe_random e (Suc (os_tick ?s)) ''token_id'' (os_world ?s)"
  let ?k = "toClientInformation True k" let ?t = "new_token e ?k c (os_now st) ?r ?i"
  have found: "find_code (co_code c) (os_world st) = Some c"
    using find_distinct[OF _ code(1), of co_code] inv(1) by (simp add: find_code_def codes_inv_def)
  have hit: "code_hit (co_code c) (os_now st) c"
    using code(2) by (auto simp: code_refusal_def code_hit_def split: if_splits)
  have claim: "claim_code e (co_code c) (os_now st) (st\<lparr>os_tick := Suc (Suc (Suc (Suc (os_tick st))))\<rparr>) = (Inr 1, ?s)"
    using claim_idle[OF idle _ _ hit, of "st\<lparr>os_tick := Suc (Suc (Suc (Suc (os_tick st))))\<rparr>"] inv(1) code(1)
    by (simp add: codes_inv_def)
  have "?i \<notin> fst ` set (issued (ow_log (os_world ?s)))" using fair unfolding oauth_fair_def by blast
  then have id: "?i \<notin> set (map ot_tokenId (ow_tokens (os_world ?s)))"
    using inv(2) log_members(3) by (force simp: tokens_inv_def)
  have registered: "client_findUnique (co_clientId c) (os_world ?s) \<noteq> None"
    using client(2) by (auto simp: client_findUnique_def client_findFirst_def find_None_iff find_Some_iff intro: nth_mem)
  obtain t where issue: "issue_tokens e ?k c ?s = (Inr (TokenReply t), ?s\<lparr>os_world := (os_world ?s)\<lparr>
      ow_tokens := ow_tokens (os_world ?s) @ [new_token e ?k c (os_now ?s) ?r ?i], ow_log := Issued ?i (co_code c) # ow_log (os_world ?s)\<rparr>,
      os_tick := Suc (Suc (os_tick ?s))\<rparr>)" "tk_access_token t = ot_accessToken (new_token e ?k c (os_now ?s) ?r ?i)"
    using issue_idle[where k = ?k, OF idle secret registered id refresh _ refl refl] once by auto
  let ?s1 = "?s\<lparr>os_world := (os_world ?s)\<lparr>ow_tokens := ow_tokens (os_world ?s) @ [?t],
      ow_log := Issued ?i (co_code c) # ow_log (os_world ?s)\<rparr>, os_tick := Suc (Suc (os_tick ?s))\<rparr>"
  have run: "token_endpoint e req body st = (Inr (TokenReply t), ?s1)"
    using authenticate_public[OF idle client] claim issue(1) body code(2) found idle
    by (simp add: token_endpoint_def handleAuthorizationCodeGrant_def redeem_code_def run_simps is_given_def text_of_def)
  have "?s1 = st\<lparr>os_world := exchanged e c (os_now st) ?t (os_world st), os_tick := os_tick st + 8\<rparr>"
    by (simp add: exchanged_def new_token_def eval_nat_numeral)
  with run issue(2) show ?thesis by auto
qed

lemma validated_exchange:
  assumes "oauth_idle e" "op_jwtSecret (oe_platform e) \<noteq> []"
    and jwt: "\<And>now p. op_verify (oe_platform e) (op_jwtSecret (oe_platform e)) now
      (op_sign (oe_platform e) (op_jwtSecret (oe_platform e)) p) = (if now < tp_exp p then Some p else None)"
    and once: "op_sign (oe_platform e) (op_jwtSecret (oe_platform e))
      (access_payload (co_clientId c) (co_userId c) (co_scopes c) (co_resource c) (os_now st))
      \<notin> set (map ot_accessToken (ow_tokens (os_world st)))"
    and user: "find_user (co_userId c) (os_world st) = Some u" "us_status u = UserEnabled" "\<not> user_expired u (os_now st)"
      "us_permissions u = Some permissions" "us_userPreferences u = Some preferences"
    and aud: "is_given aud \<Longrightarrow> aud = co_resource c"
  shows "\<exists>st2. oauth_validateToken e (ot_accessToken (new_token e k c (os_now st) r i)) aud (st\<lparr>
      os_world := exchanged e c (os_now st) (new_token e k c (os_now st) r i) (os_world st), os_tick := n\<rparr>) =
    (Inr (Inr (auth_context_of u (ot_accessToken (new_token e k c (os_now st) r i)) permissions preferences
      (Some (co_clientId c, co_scopes c, os_now st div 1000 + ACCESS_TOKEN_LIFETIME)))), st2)"
proof -
  let ?t = "new_token e k c (os_now st) r i"
  let ?s = "st\<lparr>os_world := exchanged e c (os_now st) ?t (os_world st), os_tick := n\<rparr>"
  have access: "ot_accessToken ?t = op_sign (oe_platform e) (op_jwtSecret (oe_platform e))
      (access_payload (co_clientId c) (co_userId c) (co_scopes c) (co_resource c) (os_now st))" by (simp add: new_token_def)
  have other: "\<forall>x\<in>set (ow_tokens (os_world st)). ot_accessToken x \<noteq> ot_accessToken ?t"
    using once unfolding access by force
  have stored: "token_by_access (ot_accessToken ?t) (os_world ?s) = Some ?t"
    using found_appended[of "ow_tokens (os_world st)" "\<lambda>x. ot_accessToken x = ot_accessToken ?t" ?t] other
    by (simp add: token_by_access_def exchanged_def)
  have "find_user (co_userId c) (os_world ?s) = Some u" using user(1) by (simp add: find_user_def exchanged_def)
  from validate_idle[OF assms(1,2) jwt stored _ this user(2) _ user(4,5) aud] user(3) show ?thesis by simp
qed


section \<open>Exchanges within one second\<close>

text \<open>
  Access tokens carry no nonce and their times are in seconds, so two exchanges of one client for one user, with
  the same scopes and resource, that fall into one second sign the same text. The second finds the
  column of access tokens, which is unique, occupied: the statement throws, after the code was redeemed.
\<close>

theorem same_second_exchange:
  assumes "oauth_idle e" "op_jwtSecret (oe_platform e) \<noteq> []"
    and "t \<in> set (ow_tokens (os_world st))"
      "ot_accessToken t = op_sign (oe_platform e) (op_jwtSecret (oe_platform e))
        (access_payload (co_clientId c) (co_userId c) (co_scopes c) (co_resource c) before)"
      "before div 1000 = os_now st div 1000"
  shows "\<exists>st'. issue_tokens e k c st = (Inl ''Unique constraint failed'', st') \<and> os_world st' = os_world st"
proof -
  have "op_sign (oe_platform e) (op_jwtSecret (oe_platform e))
      (access_payload (co_clientId c) (co_userId c) (co_scopes c) (co_resource c) (os_now st)) \<in> ot_accessToken ` set (ow_tokens (os_world st))"
    using assms(3-5) by (force simp: access_payload_def)
  with assms(1,2) show ?thesis
    by (simp add: issue_tokens_def token_create_def generateAccessToken_def run_simps Let_def)
qed

section \<open>Sample runs\<close>

text \<open>Signing as an encoding of the secret and the payload, which verification decodes.\<close>

definition text_code :: "string \<Rightarrow> nat" where
  "text_code s = list_encode (map of_char s)"

definition code_text :: "nat \<Rightarrow> string" where
  "code_text n = map char_of (list_decode n)"

definition payload_code :: "string \<Rightarrow> token_payload \<Rightarrow> nat" where
  "payload_code s p = list_encode [text_code s, text_code (tp_type p), text_code (tp_client_id p), text_code (tp_user_id p),
     list_encode (map text_code (tp_scopes p)), (case tp_aud p of None \<Rightarrow> 0 | Some a \<Rightarrow> Suc (text_code a)),
     int_encode (tp_iat p), int_encode (tp_exp p)]"

definition code_payload :: "string \<Rightarrow> nat \<Rightarrow> token_payload option" where
  "code_payload s n =
     (case list_decode n of
        [k, ty, c, u, ss, a, iat, expiry] \<Rightarrow>
          if code_text k = s
          then Some \<lparr>tp_type = code_text ty, tp_client_id = code_text c, tp_user_id = code_text u,
            tp_scopes = map code_text (list_decode ss),
            tp_aud = (if a = 0 then None else Some (code_text (a - 1))), tp_iat = int_decode iat, tp_exp = int_decode expiry\<rparr>
          else None
      | _ \<Rightarrow> None)"

lemma code_text_inverse [simp]: "code_text (text_code s) = s"
  by (simp add: code_text_def text_code_def comp_def)

lemma code_payload_inverse [simp]: "code_payload s (payload_code s p) = Some p"
  by (cases p) (simp add: code_payload_def payload_code_def comp_def split: option.splits)

definition sample_sign :: "string \<Rightarrow> token_payload \<Rightarrow> string" where
  "sample_sign s p = ''..'' @ replicate (payload_code s p) CHR ''x''"

definition sample_verify :: "string \<Rightarrow> int \<Rightarrow> string \<Rightarrow> token_payload option" where
  "sample_verify s now token =
     (case code_payload s (length token - 2) of None \<Rightarrow> None | Some p \<Rightarrow> if now < tp_exp p then Some p else None)"

lemma sample_jwt [simp]: "sample_verify s now (sample_sign s p) = (if now < tp_exp p then Some p else None)"
  by (simp add: sample_verify_def sample_sign_def)

text \<open>A platform on which every text is a URL of a machine's own web server.\<close>

definition sample_url :: "string \<Rightarrow> url" where
  "sample_url s = \<lparr>u_protocol = ''http:'', u_hostname = ''localhost'', u_port = [], u_pathname = ''/mcp'', u_search = [],
     u_hash = [], u_username = [], u_password = [], u_href = s, u_portless = s, u_pathless = s\<rparr>"

definition sample_platform :: oauth_platform where
  "sample_platform = \<lparr>op_url = (\<lambda>s. Some (sample_url s)), op_withParams = (\<lambda>s ps. Some s), op_sha256 = id, op_hash = id,
     op_base64 = id, op_isIP = (\<lambda>s. 0), op_ip_number = (\<lambda>s. 0), op_sign = sample_sign, op_verify = sample_verify,
     op_jwtSecret = ''k'', op_publicUrl = Some ''http://localhost'', op_enableHttps = False, op_allowFakeIp = None\<rparr>"

text \<open>A name that is longer than all used ones together.\<close>

definition fresh_name :: "string list \<Rightarrow> string" where
  "fresh_name used = replicate (Suc (sum_list (map length used))) CHR ''n''"

lemma fresh_name: "s @ fresh_name used \<notin> set used"
proof
  assume "s @ fresh_name used \<in> set used"
  then have "length (s @ fresh_name used) \<in> set (map length used)" by (metis image_eqI set_map)
  from member_le_sum_list[OF this] show False by (simp add: fresh_name_def)
qed

definition used_names :: "oauth_world \<Rightarrow> string list" where
  "used_names w = authorized (ow_log w) @ map fst (issued (ow_log w)) @ map (text_of \<circ> ot_refreshToken) (ow_tokens w) @
     map fst (ss_sessions (ow_store w))"

definition sample_env :: oauth_env where
  "sample_env = \<lparr>oe_platform = sample_platform, oe_self = 0, oe_others = (\<lambda>k w. w), oe_elapsed = (\<lambda>k. 0),
     oe_random = (\<lambda>k purpose w. fresh_name (used_names w)),
     oe_down = (\<lambda>k. False), oe_lookup = (\<lambda>k h. None), oe_fetch = (\<lambda>k u a. None)\<rparr>"

lemma sample_random:
  "oe_random sample_env k p w \<notin> set (authorized (ow_log w))" "oe_random sample_env k p w \<notin> fst ` set (issued (ow_log w))"
  "oe_random sample_env k p w \<notin> (text_of \<circ> ot_refreshToken) ` set (ow_tokens w)"
  using fresh_name[of "[]" "used_names w"] by (simp_all add: sample_env_def used_names_def)

lemma sample_fair: "oauth_fair sample_env"
proof -
  have "oe_others sample_env = (\<lambda>k w. w)" by (simp add: sample_env_def)
  then show ?thesis using sample_random by (simp add: oauth_fair_def)
qed

lemma sample_idle: "oauth_idle sample_env"
  by (simp add: oauth_idle_def sample_env_def)

lemma sample_refresh: "Some (oe_random sample_env k p w) \<notin> set (map ot_refreshToken (ow_tokens w))"
proof
  assume "Some (oe_random sample_env k p w) \<in> set (map ot_refreshToken (ow_tokens w))"
  then obtain t where "t \<in> set (ow_tokens w)" "Some (oe_random sample_env k p w) = ot_refreshToken t" by auto
  then have "oe_random sample_env k p w \<in> (text_of \<circ> ot_refreshToken) ` set (ow_tokens w)"
    by (metis comp_apply image_eqI option.simps(5) text_of_def)
  with sample_random(3) show False by blast
qed


text \<open>A user, a public client of the user and a code for it.\<close>

definition sample_user :: user_row where
  "sample_user = \<lparr>us_userId = ''u'', us_role = 1, us_status = 1, us_permissionsText = ''{}'', us_permissions = Some (JObj () []),
     us_userPreferences = Some (JObj () []), us_launchConfigs = [], us_expiresAt = None, us_ratelimit = 10, us_proxyId = 0\<rparr>"

definition sample_client :: oauth_client where
  "sample_client = \<lparr>oc_clientId = ''c'', oc_issuer = ''http://localhost/mcp'', oc_clientSecret = None, oc_applicationType = ''native'',
     oc_tokenEndpointAuthMethod = ''none'', oc_name = ''client'', oc_redirectUris = [''http://localhost/cb''],
     oc_scopes = [''mcp:tools''], oc_grantTypes = [''authorization_code''], oc_responseTypes = [''code''], oc_userId = None,
     oc_trusted = False, oc_createdAt = 0, oc_updatedAt = 0\<rparr>"

definition sample_code :: auth_code where
  "sample_code = \<lparr>co_code = ''a'', co_clientId = ''c'', co_userId = ''u'', co_redirectUri = ''http://localhost/cb'',
     co_scopes = [''mcp:tools''], co_codeChallenge = Some ''v'', co_challengeMethod = Some ''S256'',
     co_resource = Some ''http://localhost/mcp'', co_expiresAt = 600000, co_used = False\<rparr>"

definition sample_state :: oauth_state where
  "sample_state = \<lparr>os_world = \<lparr>ow_users = [sample_user], ow_clients = [sample_client], ow_codes = [sample_code], ow_tokens = [],
     ow_flows = [], ow_store = empty_store, ow_log = [Authorized sample_code]\<rparr>, os_tick = 0, os_now = 0\<rparr>"

definition sample_request :: oauth_request where
  "sample_request = \<lparr>hr_host = None, hr_forwardedProto = None, hr_forwardedHost = None, hr_trusted = False, hr_protocol = [],
     hr_authorization = None\<rparr>"

definition sample_body :: token_body where
  "sample_body = \<lparr>tb_grant_type = Some ''authorization_code'', tb_code = Some ''a'', tb_redirect_uri = Some ''http://localhost/cb'',
     tb_client_id = Some ''c'', tb_client_secret = None, tb_code_verifier = Some ''v'', tb_refresh_token = None, tb_scope = None,
     tb_token = None, tb_token_type_hint = None\<rparr>"

lemmas sample_defs = sample_user_def sample_client_def sample_code_def sample_state_def sample_request_def sample_body_def

lemma sample_safe [simp]: "redirect_safe sample_platform s"
  by (simp add: redirect_safe_def sample_platform_def sample_url_def loopback_lower)

lemma sample_env_platform [simp]: "oe_platform sample_env = sample_platform"
  by (simp add: sample_env_def)

lemma sample_reach: "oauth_reach sample_platform (os_world sample_state)"
proof -
  let ?w = "\<lparr>ow_users = [sample_user], ow_clients = [], ow_codes = [], ow_tokens = [], ow_flows = [], ow_store = empty_store, ow_log = []\<rparr>"
  have one: "oauth_step sample_platform UNIV ?w (?w\<lparr>ow_clients := ow_clients ?w @ [sample_client]\<rparr>)"
    by (rule st_register) (simp_all add: client_ok_def sample_client_def SUPPORTED_GRANTS_def)
  let ?w1 = "?w\<lparr>ow_clients := ow_clients ?w @ [sample_client]\<rparr>"
  have "oauth_step sample_platform UNIV ?w1 (?w1\<lparr>ow_codes := ow_codes ?w1 @ [sample_code], ow_log := Authorized sample_code # ow_log ?w1\<rparr>)"
    by (rule st_authorize) (simp_all add: code_ok_def sample_code_def is_given_def)
  with one show ?thesis unfolding oauth_reach_def
    by (intro exI[of _ "[sample_user]"] exI[of _ "[]"]) (simp add: sample_state_def)
qed

lemma sample_issuer: "getAuthorizationServerUrl sample_platform sample_request = Some ''http://localhost/mcp''"
  by (simp add: getAuthorizationServerUrl_def getPublicUrl_def getConfiguredPublicUrl_def sample_platform_def sample_url_def
      js_trim_def js_space_def strip_slashes_def)


lemma sample_ready:
  "op_jwtSecret sample_platform \<noteq> []" "ow_tokens (os_world sample_state) = []" "os_now sample_state = 0"
  "tb_grant_type sample_body = Some ''authorization_code''" "tb_code sample_body = Some (co_code sample_code)" "co_code sample_code \<noteq> []"
  "is_given (tb_redirect_uri sample_body)" "credentials sample_platform sample_request sample_body = (Some (co_clientId sample_code), None)"
  "co_clientId sample_code \<noteq> []"
  "client_findFirst (co_clientId sample_code) ''http://localhost/mcp'' (os_world sample_state) = Some sample_client"
  "oc_tokenEndpointAuthMethod sample_client = ''none''" "''authorization_code'' \<in> set (oc_grantTypes sample_client)"
  "sample_code \<in> set (ow_codes (os_world sample_state))"
  "code_refusal sample_platform sample_body (co_clientId sample_code) 0 (Some sample_code) = None"
  "find_user (co_userId sample_code) (os_world sample_state) = Some sample_user" "us_status sample_user = UserEnabled"
  "\<not> user_expired sample_user 0" "us_permissions sample_user = Some (JObj () [])" "us_userPreferences sample_user = Some (JObj () [])"
  by (simp_all add: sample_defs sample_platform_def is_given_def credentials_def client_findFirst_def code_refusal_def
      verifyPKCEChallenge_def text_of_def find_user_def UserEnabled_def user_expired_def user_expiry_def)

lemma sample_law: "op_verify sample_platform (op_jwtSecret sample_platform) now (op_sign sample_platform (op_jwtSecret sample_platform) p) =
    (if now < tp_exp p then Some p else None)"
  by (simp add: sample_platform_def)

lemma sample_run:
  "\<exists>t r i. token_endpoint sample_env sample_request sample_body sample_state = (Inr (TokenReply t), sample_state\<lparr>
      os_world := exchanged sample_env sample_code 0 (new_token sample_env (toClientInformation True sample_client) sample_code 0 r i)
        (os_world sample_state), os_tick := os_tick sample_state + 8\<rparr>)"
  using exchange_run[OF sample_idle sample_fair, unfolded sample_env_platform, OF sample_reach sample_ready(1) sample_refresh _
    sample_ready(4-9) sample_issuer sample_ready(10-13), unfolded sample_ready(2,3), OF _ sample_ready(14)] by auto


theorem oauth_refines_witness:
  "\<exists>r st'. oauth_serve sample_env sample_request (PostToken sample_body) sample_state = (r, st') \<and> oauth_inv sample_platform (os_world st')"
proof -
  obtain r st' where run: "oauth_serve sample_env sample_request (PostToken sample_body) sample_state = (r, st')" by fastforce
  from oauth_refines[OF sample_fair, unfolded sample_env_platform, OF sample_reach run] run show ?thesis by blast
qed

theorem oauth_code_once_witness:
  "\<exists>t st'. token_endpoint sample_env sample_request sample_body sample_state = (Inr (TokenReply t), st') \<and>
    (\<exists>c. Authorized c \<in> set (ow_log (os_world st')) \<and> co_code c = ''a'' \<and> co_codeChallenge c = Some ''v'' \<and>
      Redeemed ''a'' 0 \<in> set (ow_log (os_world st')) \<and> ''a'' \<notin> set (redeemed (ow_log (os_world sample_state))))"
proof -
  obtain t st' where run: "token_endpoint sample_env sample_request sample_body sample_state = (Inr (TokenReply t), st')"
    using sample_run by blast
  have new: "Redeemed code (oe_self sample_env) \<notin> set (ow_log (os_world sample_state))" for code
    by (simp add: sample_state_def)
  have simple: "text_of (tb_code sample_body) = ''a''" "op_sha256 sample_platform (text_of (tb_code_verifier sample_body)) = ''v''"
    "oe_self sample_env = 0"
    by (simp_all add: sample_body_def text_of_def sample_platform_def sample_env_def)
  from oauth_code_once[OF sample_fair _ new run sample_ready(4), unfolded sample_env_platform, OF sample_reach]
  show ?thesis using run unfolding simple by metis
qed

text \<open>A state after an exchange, and the token that was given out.\<close>

definition sample_token :: "string \<Rightarrow> string \<Rightarrow> oauth_token" where
  "sample_token r i = new_token sample_env (toClientInformation True sample_client) sample_code 0 r i"

definition sample_after :: "string \<Rightarrow> string \<Rightarrow> oauth_state" where
  "sample_after r i = sample_state\<lparr>os_world := exchanged sample_env sample_code 0 (sample_token r i) (os_world sample_state),
     os_tick := os_tick sample_state + 8\<rparr>"

lemma sample_exchanged: "\<exists>r i. oauth_reach sample_platform (os_world (sample_after r i))"
proof -
  obtain t r i where run: "token_endpoint sample_env sample_request sample_body sample_state = (Inr (TokenReply t), sample_after r i)"
    using sample_run unfolding sample_after_def sample_token_def by blast
  have "all_steps sample_env (os_world sample_state) (os_world (sample_after r i))"
    by (rule serve_steps[OF sample_fair, of _ _ "PostToken sample_body"])
      (use run reach_inv[OF sample_reach] in \<open>simp_all add: world_inv_def\<close>)
  then have "oauth_reach sample_platform (os_world (sample_after r i))"
    using reach_steps[OF sample_reach] sample_fair by (simp add: all_steps_def)
  then show ?thesis by blast
qed

lemma sample_validated:
  assumes "is_given aud \<Longrightarrow> aud = Some ''http://localhost/mcp''"
  shows "\<exists>a st'. oauth_validateToken sample_env (ot_accessToken (sample_token r i)) aud (sample_after r i) = (Inr (Inr a), st') \<and> au_userId a = ''u'' \<and> \<not> au_anonymous a \<and>
    au_oauthClientId a = Some ''c''"
proof -
  have aud: "is_given aud \<Longrightarrow> aud = co_resource sample_code" using assms by (simp add: sample_code_def)
  have "us_userId sample_user = ''u''" "co_clientId sample_code = ''c''" by (simp_all add: sample_user_def sample_code_def)
  with validated_exchange[OF sample_idle, unfolded sample_env_platform, OF sample_ready(1) sample_law _ sample_ready(15,16) _ sample_ready(18,19) aud,
      unfolded sample_ready(2,3), OF _ sample_ready(17), of "toClientInformation True sample_client" r i "os_tick sample_state + 8"]
  show ?thesis unfolding sample_after_def sample_token_def by (auto simp: auth_context_of_def)
qed

theorem oauth_token_sound_witness:
  "\<exists>token a st st'. oauth_validateToken sample_env token (Some ''http://localhost/mcp'') st = (Inr (Inr a), st') \<and>
    (\<exists>c i. Authorized c \<in> set (ow_log (os_world st')) \<and> Revoked i \<notin> set (ow_log (os_world st)) \<and> au_userId a = co_userId c)"
proof -
  obtain r i where reach: "oauth_reach sample_platform (os_world (sample_after r i))" using sample_exchanged by blast
  obtain a st' where valid: "oauth_validateToken sample_env (ot_accessToken (sample_token r i)) (Some ''http://localhost/mcp'') (sample_after r i) =
      (Inr (Inr a), st')" using sample_validated by blast
  from oauth_token_sound[OF sample_fair _ _ valid, unfolded sample_env_platform, OF reach sample_law] valid
  show ?thesis by metis
qed

text \<open>A gateway without a configured address.\<close>

definition bare_platform :: oauth_platform where
  "bare_platform = sample_platform\<lparr>op_publicUrl := None, op_url := (\<lambda>s. Some ((sample_url s)\<lparr>u_pathname := ''/''\<rparr>))\<rparr>"

theorem public_url_local_witness:
  "getPublicUrl bare_platform (sample_request\<lparr>hr_host := Some ''localhost''\<rparr>) = Some ''http://localhost/mcp'' \<and>
    (\<exists>u. op_url bare_platform ''http://localhost'' = Some u \<and> local_hostname bare_platform (unbracket (u_hostname u)))"
proof -
  let ?req = "sample_request\<lparr>hr_host := Some ''localhost''\<rparr>"
  have run: "getPublicUrl bare_platform ?req = Some ''http://localhost/mcp''"
    by (simp add: getPublicUrl_def getConfiguredPublicUrl_def getForwardedHeader_def getLocalRawHost_def bare_platform_def sample_platform_def
        sample_url_def sample_request_def is_given_def text_of_def js_trim_def js_space_def js_endsWith_def suffix_def unbracket_def
        local_hostname_def)
  have none: "getConfiguredPublicUrl bare_platform = None" "\<not> hr_trusted ?req" "hr_host ?req = Some ''localhost''"
    by (simp_all add: getConfiguredPublicUrl_def bare_platform_def sample_request_def)
  from public_url_local[OF none(1,2) run] none(3) run show ?thesis by auto
qed


theorem oauth_rows_typed_witness:
  "\<exists>r st'. oauth_serve sample_env sample_request AdminList sample_state = (r, st') \<and>
    (\<forall>c\<in>set (ow_codes (os_world st')). redirect_safe sample_platform (co_redirectUri c))"
proof -
  obtain r st' where run: "oauth_serve sample_env sample_request AdminList sample_state = (r, st')" by fastforce
  from oauth_rows_typed[OF sample_fair, unfolded sample_env_platform, OF sample_reach run] run show ?thesis by blast
qed

text \<open>A name that resolves to a private address, where something answers.\<close>

definition inner_env :: oauth_env where
  "inner_env = sample_env\<lparr>oe_platform := sample_platform\<lparr>op_isIP := (\<lambda>s. if s = ''10.0.0.1'' then 4 else 0),
     op_ip_number := (\<lambda>s. 167772161), op_url := (\<lambda>s. Some ((sample_url s)\<lparr>u_protocol := ''https:'', u_hostname := ''inner''\<rparr>))\<rparr>,
     oe_lookup := (\<lambda>k h. Some [''10.0.0.1''])\<rparr>"

definition inner_fetch :: "nat \<Rightarrow> string \<Rightarrow> string \<Rightarrow> http_answer option" where
  "inner_fetch k u a = (if a = ''10.0.0.1'' then
     Some \<lparr>ha_status = 200, ha_contentType = Some ''application/json'', ha_contentLength = None, ha_body = Some (JObj () [])\<rparr> else None)"

lemma inner_unfetchable: "\<not> fetchable (oe_platform inner_env) ''10.0.0.1''"
  by (simp add: fetchable_def inner_env_def isPublicIpAddress_def isFakeIpAddress_def unbracketIpv6Hostname_def js_toLowerCase_def
      js_lower_char_def js_startsWith_def js_endsWith_def in_range_def FAKE_IP_RANGES_def BLOCKED_IPV4_RANGES_def ip4_def number_of_def)


end
