(* ===== verification/Gate_Use.thy ===== *)
theory Gate_Use
  imports Gate_Safety OAuth_Use
begin

text \<open>
  The gate in use: whoever presents a valid token gets a session and can use it, a session that is
  entered while those of its user are ended escapes later removals, and sample runs.
\<close>

section \<open>Undisturbed requests\<close>

text \<open>Computations that only look.\<close>

definition still :: "'a oa \<Rightarrow> bool" where
  "still m \<longleftrightarrow> (\<forall>st. os_world (snd (m st)) = os_world st \<and> os_now (snd (m st)) = os_now st)"

lemma still_rules:
  "still (oa_return x)" "still (oa_throw err)" "still (oa_some err v)" "still oa_time" "still (ss_get g)"
  "still m \<Longrightarrow> (\<And>x. still (f x)) \<Longrightarrow> still (oa_bind m f)"
  "still m \<Longrightarrow> (\<And>err. still (h err)) \<Longrightarrow> still (oa_catch m h)"
  by (auto simp: still_def oa_return_def oa_throw_def oa_some_def oa_time_def get_run split: option.splits)
    (auto simp: oa_bind_def oa_catch_def split: prod.splits sum.splits, (metis snd_conv)+)

lemma still_branch:
  "still m \<Longrightarrow> still n \<Longrightarrow> still (if b then m else n)"
  "still n \<Longrightarrow> (\<And>x. still (f x)) \<Longrightarrow> still (case v of None \<Rightarrow> n | Some x \<Rightarrow> f x)"
  "(\<And>x. still (g x)) \<Longrightarrow> (\<And>x. still (h x)) \<Longrightarrow> still (case s of Inl x \<Rightarrow> g x | Inr x \<Rightarrow> h x)"
  "(\<And>x y. still (k x y)) \<Longrightarrow> still (case p of (x, y) \<Rightarrow> k x y)"
  by (auto split: option.splits sum.splits prod.splits)

lemma still_idle: "oauth_idle e \<Longrightarrow> still (oa_read e f)" "oauth_idle e \<Longrightarrow> still (oa_ask e g)" "oauth_idle e \<Longrightarrow> still (oa_wait e)"
  by (simp_all add: still_def read_idle oa_ask_def oa_wait_def oa_pass_def oauth_idle_def)

lemma still_validate: "oauth_idle e \<Longrightarrow> still (oauth_validateToken e token aud)" "oauth_idle e \<Longrightarrow> still (validateToken e token)"
  unfolding oauth_validateToken_def validate_stored_def validateToken_def Let_def
  by (intro still_rules still_branch still_idle; assumption)+

lemma still_any: "oauth_idle e \<Longrightarrow> still (validate_any e token)"
  unfolding validate_any_def by (intro still_rules still_branch still_validate)

lemma still_run: "still m \<Longrightarrow> m st = (x, st') \<Longrightarrow> os_world st' = os_world st \<and> os_now st' = os_now st"
  unfolding still_def by (metis snd_conv)

lemma wait_idle: "oauth_idle e \<Longrightarrow> oa_wait e st = (Inr (), st\<lparr>os_tick := Suc (os_tick st)\<rparr>)"
  by (simp add: oa_wait_def oa_ask_def oa_pass_def oauth_idle_def)

lemma do_run: "ss_do f st = (case f (os_now st) (ow_store (os_world st)) of (x, ss) \<Rightarrow> (Inr x, st\<lparr>os_world := (os_world st)\<lparr>ow_store := ss\<rparr>\<rparr>))"
  by (simp add: ss_do_def oa_act_def split: prod.splits)

lemma set_run: "ss_set f st = (Inr (), st\<lparr>os_world := (os_world st)\<lparr>ow_store := f (os_now st) (ow_store (os_world st))\<rparr>\<rparr>)"
  by (simp add: ss_set_def do_run)

lemma random_run: "oa_random e p st = (Inr (oe_random e (os_tick st) p (os_world st)), st)"
  by (simp add: oa_random_def)

lemmas gate_simps = run_simps wait_idle do_run set_run get_run

text \<open>The store after a session was made.\<close>

definition opened :: "string \<Rightarrow> string \<Rightarrow> auth_info \<Rightarrow> int \<Rightarrow> session_store \<Rightarrow> session_store" where
  "opened i token a now ss =
     enter_session i (au_userId a) (length (ss_heap ss)) (snd (begin_session i (new_session i (au_userId a) token a now) ss))"

lemma create_idle:
  assumes "oauth_idle e" "getSession i (ow_store (os_world st)) = None"
  shows "createSession e i (au_userId a) token a st = (Inr (length (ss_heap (ow_store (os_world st)))),
    st\<lparr>os_world := (os_world st)\<lparr>ow_store := opened i token a (os_now st) (ow_store (os_world st))\<rparr>, os_tick := os_tick st + 3\<rparr>)"
  using assms by (simp add: createSession_def begin_session_def opened_def gate_simps eval_nat_numeral)

lemma opened_session:
  assumes "getSession i ss = None"
  shows "getSession i (opened i token a now ss) = Some (length (ss_heap ss))"
    "ss_heap (opened i token a now ss) = ss_heap ss @ [new_session i (au_userId a) token a now]"
    "i \<in> set (user_ids (au_userId a) (opened i token a now ss))"
  using assms by (auto simp: opened_def enter_session_def begin_session_def getSession_def user_ids_def update_conv' Let_def)

text \<open>A session in which nothing is due passes.\<close>

lemma existing_idle:
  assumes "oauth_idle e" "ss_heap (ow_store (os_world st)) ! r = s" "\<not> isJwtFormat (cs_token s)" "cs_lastUserInfoRefresh s = Some (os_now st)" "0 < os_now st"
    "\<not> cs_isExpired (os_now st) s"
  shows "\<exists>st'. existing_session e r st = (Inr (GatePass (Some (cs_auth s, Some r))), st')"
  using assms
  by (simp add: existing_session_def gate_simps session_at_def refreshUserInfoIfNeeded_def USER_INFO_REFRESH_INTERVAL_def
      check_expiry_def pass_session_def)

lemma new_idle:
  assumes "oauth_idle e" "gq_sessionId req = None" "gq_method req = ''POST''" "gq_initialize req"
    and token: "request_token req = Some token" "token \<noteq> []" "validate_any e token st = (Inr a, st0)"
    and new: "\<And>k w. getSession (''session-'' @ oe_random e k ''session'' w) (ow_store w) = None"
  shows "\<exists>i. i \<noteq> [] \<and> getSession i (ow_store (os_world st)) = None \<and>
    authenticate e servers req st = (Inr (GatePass (Some (a, Some (length (ss_heap (ow_store (os_world st))))))),
      st0\<lparr>os_world := (os_world st)\<lparr>ow_store := opened i token a (os_now st) (ow_store (os_world st))\<rparr>, os_tick := os_tick st0 + 4\<rparr>)"
proof -
  let ?ss = "ow_store (os_world st)"
  have same: "os_world st0 = os_world st" "os_now st0 = os_now st" using still_run[OF still_any[OF assms(1)] token(3)] by auto
  let ?i = "''session-'' @ oe_random e (os_tick st0) ''session'' (os_world st0)"
  have fresh: "getSession ?i ?ss = None" using new same(1) by metis
  have kept: "ss_do (consumeTerminatedSession (oe_platform e) None a token) st0 = (Inr False, st0)"
    by (simp add: do_run consumeTerminatedSession_def is_given_def)
  have "open_session e req a token st0 = (Inr (length (ss_heap ?ss)),
      st0\<lparr>os_world := (os_world st)\<lparr>ow_store := opened ?i token a (os_now st) ?ss\<rparr>, os_tick := os_tick st0 + 3\<rparr>)"
    using create_idle[OF assms(1), of ?i st0 a token] fresh same assms(2) by (simp add: open_session_def oa_bind_def kept random_run)
  with assms(1-4) token fresh show ?thesis
    by (intro exI[of _ ?i]) (simp add: authenticate_def authenticate_new_def is_given_def text_of_def gate_simps eval_nat_numeral)
qed


section \<open>A session that escapes\<close>

text \<open>
  The listing of a user is dropped as a whole when the sessions that were in it have been ended. A session of the user that another
  request enters in between is in the store and unlisted: it passes the gate, and no later call ends it.
\<close>

definition race_session :: "string \<Rightarrow> client_session" where
  "race_session i = new_session i ''u'' ''t'' (anon_context sample_platform ''0'' []) 0"

definition race_store :: session_store where
  "race_store = empty_store\<lparr>ss_heap := [race_session ''a'', race_session ''b''], ss_sessions := [(''a'', 0)], ss_proxySessions := [''a''],
     ss_userSessions := [(''u'', [''a''])]\<rparr>"

definition race_env :: oauth_env where
  "race_env = sample_env\<lparr>oe_others := (\<lambda>k w. if k = 0 then w\<lparr>ow_store := enter_session ''b'' ''u'' 1 (ow_store w)\<rparr> else w)\<rparr>"

theorem removal_race:
  "\<exists>st'. removeAllUserSessions race_env ''u'' USER_DISABLED (sample_state\<lparr>os_world := (os_world sample_state)\<lparr>ow_store := race_store\<rparr>\<rparr>) = (Inr (), st') \<and>
    (''b'', 1) \<in> of_user ''u'' (ow_store (os_world st')) \<and> user_ids ''u'' (ow_store (os_world st')) = [] \<and>
    (\<forall>e reason. removeAllUserSessions e ''u'' reason st' = (Inr (), st'))"
proof -
  have other: "oe_others race_env = (\<lambda>k w. if k = 0 then w\<lparr>ow_store := enter_session ''b'' ''u'' 1 (ow_store w)\<rparr> else w)"
    by (simp add: race_env_def)
  have none: "removeAllUserSessions e ''u'' reason st = (Inr (), st)" if "user_ids ''u'' (ow_store (os_world st)) = []" for e reason st
    using that by (simp add: removeAllUserSessions_def oa_bind_def get_run oa_return_def)
  show ?thesis
    by (simp add: removeAllUserSessions_def[of race_env] oa_bind_def get_run set_run do_run oa_return_def end_tasks_def List.map_filter_def user_ids_def
        getSession_def race_store_def empty_store_def end_session_def oa_wait_def oa_ask_def oa_pass_def other enter_session_def drop_session_def
        drop_records_def close_session_def change_session_def session_at_def race_session_def new_session_def of_user_def Let_def
        sample_state_def none)
qed

section \<open>Sample runs\<close>

lemma sample_session: "getSession (''session-'' @ oe_random sample_env k p w) (ow_store w) = None"
  using fresh_name[of "''session-''" "used_names w"]
  by (auto simp: getSession_def map_of_eq_None_iff sample_env_def used_names_def)

lemma sample_law_holds: "jwt_law sample_platform"
  by (simp add: jwt_law_def sample_law)

lemma sample_access: "\<exists>n. ot_accessToken (sample_token r i) = ''..'' @ replicate n CHR ''x''"
  by (auto simp: sample_token_def new_token_def sample_platform_def sample_sign_def)

lemma sample_jwt_format: "isJwtFormat (ot_accessToken (sample_token r i))"
proof -
  obtain n where n: "ot_accessToken (sample_token r i) = ''..'' @ replicate n CHR ''x''" using sample_access by blast
  have "js_split CHR ''.'' (replicate n CHR ''x'') = [replicate n CHR ''x'']" by (rule js_split_no_sep) simp
  then show ?thesis by (simp add: isJwtFormat_def n)
qed

lemma sample_bearer: "bearer (Some (''Bearer '' @ ot_accessToken (sample_token r i))) = Some (ot_accessToken (sample_token r i))"
proof -
  obtain n where n: "ot_accessToken (sample_token r i) = ''..'' @ replicate n CHR ''x''" using sample_access by blast
  have drop_x: "dropWhile js_space (replicate k CHR ''x'' @ ''x..'') = replicate k CHR ''x'' @ ''x..''" for k
    by (cases k) (simp_all add: js_space_def)
  have "js_trim ('' ..'' @ replicate n CHR ''x'') = ''..'' @ replicate n CHR ''x''"
    by (cases n) (simp_all add: js_trim_def js_space_def replicate_append_same[symmetric] drop_x)
  moreover have "js_toLowerCase ''Bearer'' = ''bearer''" by code_simp
  ultimately show ?thesis by (simp add: bearer_def n js_space_def)
qed

definition sample_gate :: "string \<Rightarrow> gate_request" where
  "sample_gate token = \<lparr>gq_sessionId = None, gq_method = ''POST'', gq_initialize = True, gq_authorization = Some (''Bearer '' @ token),
     gq_token = QAbsent, gq_apiKey = QAbsent, gq_path = ''/mcp'', gq_origin = None, gq_clientIp = None, gq_http = sample_request\<rparr>"

lemma sample_request_token: "request_token (sample_gate (ot_accessToken (sample_token r i))) = Some (ot_accessToken (sample_token r i))"
  using sample_bearer by (simp add: request_token_def sample_gate_def)

lemma sample_given: "ot_accessToken (sample_token r i) \<noteq> []"
  using sample_access[of r i] by auto

lemma sample_any:
  "\<exists>a st0. validate_any sample_env (ot_accessToken (sample_token r i)) (sample_after r i) = (Inr a, st0) \<and> au_userId a = ''u'' \<and> \<not> au_anonymous a"
  using sample_validated[of None r i] sample_jwt_format[of r i]
  by (auto simp: validate_any_def is_given_def oa_bind_def oa_return_def)

lemma sample_gate_form:
  "gq_sessionId (sample_gate t) = None" "gq_method (sample_gate t) = ''POST''" "gq_initialize (sample_gate t)"
  by (simp_all add: sample_gate_def)


text \<open>An access token lets its user in, on account of the code the user authorized.\<close>

theorem gate_sound_witness:
  "\<exists>token a st r st1. authenticate sample_env (\<lambda>k. []) (sample_gate token) st = (Inr (GatePass (Some (a, Some r))), st1) \<and>
    isJwtFormat (cs_token (ss_heap (ow_store (os_world st1)) ! r)) \<and>
    (\<exists>c i. Authorized c \<in> set (ow_log (os_world st1)) \<and> Revoked i \<notin> set (ow_log (os_world st)) \<and> co_userId c = au_userId a)"
proof -
  obtain r i where reach: "oauth_reach sample_platform (os_world (sample_after r i))" using sample_exchanged by blast
  let ?t = "ot_accessToken (sample_token r i)" and ?n = "length (ss_heap (ow_store (os_world (sample_after r i))))"
  obtain a st0 where a: "validate_any sample_env ?t (sample_after r i) = (Inr a, st0)" "\<not> au_anonymous a"
    using sample_any by blast
  let ?after = "\<lambda>j. st0\<lparr>os_world := (os_world (sample_after r i))\<lparr>ow_store := opened j ?t a (os_now (sample_after r i))
      (ow_store (os_world (sample_after r i)))\<rparr>, os_tick := os_tick st0 + 4\<rparr>"
  obtain j where j: "getSession j (ow_store (os_world (sample_after r i))) = None"
    and run0: "authenticate sample_env (\<lambda>k. []) (sample_gate ?t) (sample_after r i) = (Inr (GatePass (Some (a, Some ?n))), ?after j)"
    using new_idle[OF sample_idle sample_gate_form sample_request_token sample_given a(1) sample_session] by blast
  obtain st1 where run: "authenticate sample_env (\<lambda>k. []) (sample_gate ?t) (sample_after r i) = (Inr (GatePass (Some (a, Some ?n))), st1)"
      "ow_store (os_world st1) = opened j ?t a (os_now (sample_after r i)) (ow_store (os_world (sample_after r i)))"
    using run0 by simp
  have "cs_token (ss_heap (ow_store (os_world st1)) ! ?n) = ?t"
    unfolding run(2) opened_session(2)[OF j] by (simp add: new_session_def)
  with gate_sound[OF sample_fair, unfolded sample_env_platform, OF reach sample_law_holds run(1)] run(1) a(2) sample_jwt_format[of r i]
  show ?thesis by metis
qed

lemma sample_resource: "getCanonicalMcpResource sample_platform sample_request = Some ''http://localhost/mcp''"
  by (simp add: getCanonicalMcpResource_def getPublicUrl_def getConfiguredPublicUrl_def sample_platform_def sample_url_def
      js_trim_def js_space_def strip_slashes_def js_endsWith_def suffix_def)

lemma sample_modern:
  "\<exists>a st1. modern_authenticate sample_env \<lparr>mc_allowedClientIds = [''c''], mc_allowedTenantIds = []\<rparr> (sample_gate (ot_accessToken (sample_token r i)))
     (sample_after r i) = (Inr (GatePass (Some (a, None))), st1)"
proof -
  let ?t = "ot_accessToken (sample_token r i)"
  obtain a st0 where a: "oauth_validateToken sample_env ?t (Some ''http://localhost/mcp'') (sample_after r i) = (Inr (Inr a), st0)"
    "au_oauthClientId a = Some ''c''" using sample_validated by blast
  have form: "text_of (bearer (gq_authorization (sample_gate ?t))) = ?t" "gq_token (sample_gate ?t) = QAbsent" "gq_apiKey (sample_gate ?t) = QAbsent"
    "gq_http (sample_gate ?t) = sample_request"
    using sample_bearer by (simp_all add: sample_gate_def text_of_def)
  have "rollout_allows \<lparr>mc_allowedClientIds = [''c''], mc_allowedTenantIds = []\<rparr> a"
    using a(2) by (simp add: rollout_allows_def is_given_def text_of_def)
  then show ?thesis
    using a(1) sample_given[of r i] wait_idle[OF sample_idle, of st0]
    by (simp add: modern_authenticate_def form sample_resource Let_def oa_catch_def oa_bind_def oa_some_def oa_return_def)
qed

theorem modern_gate_sound_witness:
  "\<exists>token st v st1. modern_authenticate sample_env \<lparr>mc_allowedClientIds = [''c''], mc_allowedTenantIds = []\<rparr> (sample_gate token) st = (Inr (GatePass v), st1) \<and>
    (\<exists>a c. v = Some (a, None) \<and> Authorized c \<in> set (ow_log (os_world st1)) \<and> co_userId c = au_userId a \<and> text_of (au_oauthClientId a) = ''c'')"
proof -
  let ?cfg = "\<lparr>mc_allowedClientIds = [''c''], mc_allowedTenantIds = []\<rparr>"
  obtain r i where reach: "oauth_reach sample_platform (os_world (sample_after r i))" using sample_exchanged by blast
  obtain a st1 where run: "modern_authenticate sample_env ?cfg (sample_gate (ot_accessToken (sample_token r i))) (sample_after r i) =
      (Inr (GatePass (Some (a, None))), st1)" using sample_modern by blast
  obtain a' c where "Some (a, None) = Some (a', None :: nat option)" "Authorized c \<in> set (ow_log (os_world st1))" "co_userId c = au_userId a'"
    "text_of (au_oauthClientId a') \<in> set (mc_allowedClientIds ?cfg)"
    using modern_gate_sound[OF sample_fair, unfolded sample_env_platform, OF reach sample_law_holds run] by force
  then have "a = a'" "text_of (au_oauthClientId a') = ''c''" by simp_all
  with run \<open>Authorized c \<in> set (ow_log (os_world st1))\<close> \<open>co_userId c = au_userId a'\<close> show ?thesis by blast
qed

text \<open>A session that was closed at time 0, taken up a second later and not again.\<close>

definition sample_session_of_user :: client_session where
  "sample_session_of_user = new_session ''a'' ''u'' ''t'' (anon_context sample_platform ''0'' []) 0"

theorem reconnect_exact_witness:
  "fst (consumeTerminatedSession sample_platform (Some ''a'') ((anon_context sample_platform ''0'' [])\<lparr>au_userId := ''u''\<rparr>) ''t'' 1000
      (recordTerminatedSession sample_platform 0 sample_session_of_user empty_store)) \<and>
   \<not> fst (consumeTerminatedSession sample_platform (Some ''a'') ((anon_context sample_platform ''0'' [])\<lparr>au_userId := ''u''\<rparr>) ''t'' 30000
      (recordTerminatedSession sample_platform 0 sample_session_of_user empty_store))"
proof -
  have s: "cs_sessionId sample_session_of_user = ''a''" "cs_userId sample_session_of_user = ''u''" "cs_token sample_session_of_user = ''t''"
    "cs_auth sample_session_of_user = anon_context sample_platform ''0'' []"
    by (simp_all add: sample_session_of_user_def new_session_def)
  show ?thesis
    using reconnect_exact[of sample_session_of_user empty_store sample_platform "(anon_context sample_platform ''0'' [])\<lparr>au_userId := ''u''\<rparr>" "''t''"]
    unfolding s by (simp add: empty_store_def)
qed

text \<open>The sessions of a user are ended when nothing interferes.\<close>

theorem removal_complete_witness:
  "\<exists>st'. removeAllUserSessions sample_env ''u'' USER_DISABLED (sample_state\<lparr>os_world := (os_world sample_state)\<lparr>ow_store := race_store\<rparr>\<rparr>) = (Inr (), st') \<and>
    of_user ''u'' (ow_store (os_world st')) = {} \<and> cs_closeTriggered (ss_heap (ow_store (os_world st')) ! 0)"
proof -
  let ?st = "sample_state\<lparr>os_world := (os_world sample_state)\<lparr>ow_store := race_store\<rparr>\<rparr>"
  have calm: "calm sample_env ''u''" by (simp add: calm_def sample_env_def none_new_refl)
  have store: "of_user ''u'' race_store = {(''a'', 0)}" "store_refs race_store" "jsmap_ok (ss_sessions race_store)" "user_ids ''u'' race_store = [''a'']"
    by (auto simp: of_user_def store_refs_def race_store_def empty_store_def race_session_def new_session_def jsmap_ok_def user_ids_def)
  from removal_complete[OF calm, of ?st USER_DISABLED] show ?thesis using store by auto
qed

end
