(* ===== verification/Admin_Use.thy ===== *)
theory Admin_Use
  imports Admin_Safety Gate_Use
begin

text \<open>
  The administration of users in use: an installation with its owner and one user, whom the owner disables.
\<close>

definition sample_admin :: admin_platform where
  "sample_admin = \<lparr>ap_parse = (\<lambda>s. if s = ''{}'' then Some (JObj () []) else None), ap_numeral = (\<lambda>q. []), ap_String = (\<lambda>v. []),
     ap_decrypt = (\<lambda>t k. None), ap_matches = (\<lambda>v. case v of JNum (Fin q) \<Rightarrow> Some (\<lambda>i. of_int i = q) | _ \<Rightarrow> None)\<rparr>"

definition sample_guest :: user_row where
  "sample_guest = sample_user\<lparr>us_userId := ''g'', us_role := 3\<rparr>"

definition sample_install :: oauth_state where
  "sample_install = sample_state\<lparr>os_world := (os_world sample_state)\<lparr>ow_users := [sample_user, sample_guest]\<rparr>\<rparr>"

definition disable_request :: "string \<Rightarrow> admin_request" where
  "disable_request i = \<lparr>aq_baseUrl = ''/admin'', aq_method = ''POST'', aq_authorization = Some ''Bearer u'',
     aq_body = JObj () [(''action'', JNum (Fin 1001)), (''data'', JObj () [(''targetId'', JStr i)])]\<rparr>"

definition no_routes :: "nat \<Rightarrow> json \<Rightarrow> string option \<Rightarrow> auth_info option \<Rightarrow> unit oa" where
  "no_routes c d t x = oa_throw ''not modelled''"

section \<open>The owner disables a user\<close>

lemma sample_owner_bearer: "bearer (Some ''Bearer u'') = Some ''u''"
  by code_simp

lemma disable_code: "action_code (JNum (Fin 1001)) = Some 1001"
  by (simp add: action_code_def ADMIN_ACTIONS_def)

lemma disable_members:
  "parsed_member (aq_body (disable_request i)) ''action'' = JNum (Fin 1001)"
  "request_data (aq_body (disable_request i)) = JObj () [(''targetId'', JStr i)]"
  "parsed_member (JObj () [(''targetId'', JStr i)]) ''targetId'' = JStr i"
  "aq_authorization (disable_request i) = Some ''Bearer u''" "aq_method (disable_request i) = ''POST''"
  "\<not> is_nullish (aq_body (disable_request i))"
  by (simp_all add: disable_request_def parsed_member_def own_members_def request_data_def is_nullish_def)

lemma disable_decided: "au_role a = OwnerRole \<Longrightarrow> admin_decide (disable_request i) (Some a) = Inr 1001"
  by (simp add: admin_decide_def Let_def validateAdminRequest_def disable_members disable_code isUnauthenticatedBootstrapAction_def
      has_role_def OWNER_ONLY_def TARGETED_def validateTargetIdentifier_def is_given_def sample_owner_bearer)

text \<open>Whatever the table of users is, others do nothing.\<close>

lemma sample_others: "oe_others sample_env k w = w"
  by (simp add: sample_env_def)

lemma sample_keepers: "keepers sample_env I"
  by (simp add: keepers_def sample_others)

lemma no_routes_safe: "table_safe I (no_routes c d t x)"
  by (simp add: table_safe_def no_routes_def oa_throw_def)

lemma sample_users: "ow_users (os_world sample_install) = [sample_user, sample_guest]"
  by (simp add: sample_install_def)

lemma sample_ask: "oa_ask sample_env f st = (Inr (f (os_tick st)), st\<lparr>os_tick := Suc (os_tick st)\<rparr>)"
  by (simp add: oa_ask_def oa_pass_def sample_env_def)

lemma sample_id: "calculateUserId sample_platform i = take 32 i"
  by (simp add: calculateUserId_def sample_platform_def)

lemma sample_validate:
  "\<exists>a k. validateToken sample_env ''u'' sample_install = (Inr a, sample_install\<lparr>os_tick := k\<rparr>) \<and> au_role a = OwnerRole"
proof -
  have found: "find_user ''u'' (os_world st) = Some sample_user" if "os_world st = os_world sample_install" for st
    using that by (simp add: find_user_def sample_users sample_user_def)
  show ?thesis
    by (simp add: validateToken_def run_simps sample_idle sample_ask sample_env_platform sample_id found)
      (simp add: sample_user_def UserEnabled_def user_expired_def user_expiry_def isValidPermissions_def obj_entries_def
        auth_context_of_def OwnerRole_def run_simps, rule exI, rule refl)
qed

definition after_disable :: "oauth_world" where
  "after_disable = (os_world sample_install)\<lparr>ow_users := [sample_user, sample_guest\<lparr>us_status := 0\<rparr>]\<rparr>"

lemma sample_sessions: "user_ids i (ow_store (os_world sample_install)) = []"
  by (simp add: sample_install_def sample_state_def user_ids_def empty_store_def)

lemma sample_disable_run:
  assumes "os_world st = os_world sample_install"
  shows "\<exists>k. disableUser sample_env ''g'' st = (Inr (), st\<lparr>os_world := after_disable, os_tick := k\<rparr>)"
proof -
  have found: "find_user ''g'' (os_world sample_install) = Some sample_guest"
    by (simp add: find_user_def sample_users sample_user_def sample_guest_def)
  show ?thesis
    using assms sample_sessions
    by (simp add: disableUser_def run_simps sample_idle found user_update_def user_change_def removeAllUserSessions_def gate_simps)
      (simp add: sample_guest_def sample_user_def OwnerRole_def after_disable_def sample_users sql_update_def UserDisabledStatus_def, rule exI, rule refl)
qed

lemma sample_disable:
  "\<exists>k. admin_serve sample_env sample_admin no_routes (disable_request ''g'') sample_install =
    (Inr (AdminDone 1001 (NoData []), Some ''u''), sample_install\<lparr>os_world := after_disable, os_tick := k\<rparr>)"
proof -
  obtain a k where auth: "validateToken sample_env ''u'' sample_install = (Inr a, sample_install\<lparr>os_tick := k\<rparr>)" "au_role a = OwnerRole"
    using sample_validate by blast
  obtain n where run: "disableUser sample_env ''g'' (sample_install\<lparr>os_tick := k\<rparr>) =
      (Inr (), sample_install\<lparr>os_world := after_disable, os_tick := n\<rparr>)"
    using sample_disable_run[of "sample_install\<lparr>os_tick := k\<rparr>"] by auto
  have "owner_token (disable_request ''g'') (Some a) = Some ''u''"
    using auth(2) by (simp add: owner_token_def has_role_def validateAdminRequest_def Let_def disable_members disable_code
        sample_owner_bearer is_given_def)
  then show ?thesis
    using auth run disable_decided[OF auth(2)]
    by (simp add: admin_serve_def admin_authenticate_def disable_members sample_owner_bearer handleAdminRequest_def admin_handler_def
        handleDisableUser_def column_text_def text_column_def run_simps) (rule exI, rule refl)
qed

section \<open>Witnesses\<close>

lemma sample_users_ok: "users_ok (ow_users (os_world sample_install))" "owner_there ''u'' 0 (ow_users (os_world sample_install))"
  by (simp_all add: sample_users users_ok_def owner_there_def owner_row_def sample_user_def sample_guest_def OwnerRole_def UserEnabled_def)



lemma kept_owner:
  assumes "(A \<and> kept = None \<and> B) \<or>
      (\<exists>token u w now. T token \<and> R w \<and> M u w \<and> I u token \<and> E u \<and> L now \<and> X u now \<and> U u \<and> C u \<and> (kept \<noteq> None \<longrightarrow> W u \<and> kept = Some token))"
    and "kept = Some t"
  shows "\<exists>u. T t \<and> I u t \<and> W u"
  using assms by auto



end
