(* ===== verification/Resource_Updates.thy ===== *)
theory Resource_Updates
  imports Access_Control
begin

text \<open>
  Notifications of downstream servers: the subscriptions of sessions to resources, shared by counting
  (\<open>subscribeResource\<close> and its companions of \<open>mcp/core/ServerManager.ts\<close>), and the distribution of notifications to the
  sessions that may see them (\<open>mcp/core/GlobalRequestRouter.ts\<close>). The copies for the streams of the stateless protocol version and for
  sockets are left out.

  A call is cut at its \<open>await\<close>s: what it does before the first one, and what it does when the awaited promise
  settles. The step relation has one step per piece, so its runs cover every interleaving of calls.
\<close>

section \<open>Subscriptions\<close>

text \<open>
  A state is an object that running calls refer to after it has left the map, so states live on a heap. Promises are
  numbers; \<open>sb_pending\<close> is the request to the server that is under way.
\<close>

record sub_state =
  sb_serverId :: string
  sb_userId :: "string option"
  sb_resourceUri :: string
  sb_scopeId :: string
  sb_sessions :: "string list"
  sb_downstream :: bool
  sb_pending :: "nat option"

record sub_book =
  bk_heap :: "sub_state list"
  bk_map :: "(string, nat) jsmap"
  bk_promises :: nat

definition buildResourceSubscriptionKey :: "string \<Rightarrow> string \<Rightarrow> string" where
  "buildResourceSubscriptionKey scopeId resourceUri = scopeId @ ''::'' @ resourceUri"

definition findServerContextByScopeId :: "string \<Rightarrow> server_registry \<Rightarrow> server_context option" where
  "findServerContextByScopeId scopeId sm =
     find (\<lambda>c. sx_id c = scopeId) (map snd (serverContexts sm) @ map snd (temporaryServers sm))"

definition change_state :: "nat \<Rightarrow> (sub_state \<Rightarrow> sub_state) \<Rightarrow> sub_book \<Rightarrow> sub_book" where
  "change_state r f bk = bk\<lparr>bk_heap := (bk_heap bk)[r := f (bk_heap bk ! r)]\<rparr>"

definition add_session :: "string \<Rightarrow> sub_state \<Rightarrow> sub_state" where
  "add_session i s = s\<lparr>sb_sessions := List.insert i (sb_sessions s)\<rparr>"

definition drop_session_of :: "string \<Rightarrow> sub_state \<Rightarrow> sub_state" where
  "drop_session_of i s = s\<lparr>sb_sessions := removeAll i (sb_sessions s)\<rparr>"

definition forget_key :: "string \<Rightarrow> sub_book \<Rightarrow> sub_book" where
  "forget_key key bk = bk\<lparr>bk_map := AList.delete key (bk_map bk)\<rparr>"

text \<open>The state of a key, made if there is none.\<close>

definition state_for :: "string \<Rightarrow> string \<Rightarrow> server_context \<Rightarrow> sub_book \<Rightarrow> nat \<times> sub_book" where
  "state_for serverId resourceUri c bk =
     (let key = buildResourceSubscriptionKey (sx_id c) resourceUri in
      case map_of (bk_map bk) key of
        Some r \<Rightarrow> (r, bk)
      | None \<Rightarrow> (length (bk_heap bk), bk\<lparr>bk_heap := bk_heap bk @ [\<lparr>sb_serverId = serverId, sb_userId = sx_userId c,
          sb_resourceUri = resourceUri, sb_scopeId = sx_id c, sb_sessions = [], sb_downstream = False, sb_pending = None\<rparr>],
          bk_map := AList.update key (length (bk_heap bk)) (bk_map bk)\<rparr>))"

text \<open>How far a call has come: it has returned or thrown, or waits for a promise.\<close>

datatype sub_outcome =
    SubReturned
  | SubThrown
  | SubWaits nat nat bool

text \<open>A request to the server for a state that has none under way.\<close>

definition request_state :: "nat \<Rightarrow> sub_book \<Rightarrow> nat \<times> sub_book" where
  "request_state r bk =
     (let p = bk_promises bk in (p, (change_state r (\<lambda>s. s\<lparr>sb_pending := Some p\<rparr>) bk)\<lparr>bk_promises := Suc p\<rparr>))"

text \<open>
  \<open>subscribeResource\<close> up to its \<open>await\<close>; \<open>supports\<close> says that the server can be subscribed to. The outcome names
  the state, the promise, and whether the session was subscribed before. The error for a server without a connection is thrown outside the
  \<open>try\<close>, so the session stays among the subscribers.
\<close>

definition subscribe_begin ::
    "(server_context \<Rightarrow> bool) \<Rightarrow> server_registry \<Rightarrow> string \<Rightarrow> string \<Rightarrow> string \<Rightarrow> string \<Rightarrow> sub_book \<Rightarrow> sub_outcome \<times> sub_book" where
  "subscribe_begin supports sm serverId resourceUri sessionId userId bk =
     (case getServerContext serverId (Some userId) sm of
        None \<Rightarrow> (SubReturned, bk)
      | Some c \<Rightarrow>
          if \<not> supports c then (SubReturned, bk)
          else (case state_for serverId resourceUri c bk of (r, bk1) \<Rightarrow>
            (let already = (sessionId \<in> set (sb_sessions (bk_heap bk1 ! r)));
                 bk2 = change_state r (add_session sessionId) bk1
             in if sb_downstream (bk_heap bk1 ! r) then (SubReturned, bk2)
                else if sx_connection c = None then (SubThrown, bk2)
                else (case sb_pending (bk_heap bk1 ! r) of
                    Some p \<Rightarrow> (SubWaits r p already, bk2)
                  | None \<Rightarrow> (case request_state r bk2 of (p, bk3) \<Rightarrow> (SubWaits r p already, bk3))))))"

text \<open>The callbacks of a request: \<open>then\<close> when it succeeded, and \<open>finally\<close>.\<close>

definition request_then :: "nat \<Rightarrow> nat \<Rightarrow> sub_book \<Rightarrow> sub_book" where
  "request_then r p bk = change_state r (\<lambda>s. if sb_pending s = Some p then s\<lparr>sb_downstream := True\<rparr> else s) bk"

definition request_finally :: "nat \<Rightarrow> nat \<Rightarrow> sub_book \<Rightarrow> sub_book" where
  "request_finally r p bk = change_state r (\<lambda>s. if sb_pending s = Some p then s\<lparr>sb_pending := None\<rparr> else s) bk"

text \<open>\<open>subscribeResource\<close> after the promise was rejected: the session and, when it was the last one, the key are dropped.\<close>

definition subscribe_failed :: "string \<Rightarrow> nat \<Rightarrow> string \<Rightarrow> bool \<Rightarrow> sub_book \<Rightarrow> sub_book" where
  "subscribe_failed key r sessionId already bk =
     (let bk1 = (if already then bk else change_state r (drop_session_of sessionId) bk)
      in if sb_sessions (bk_heap bk1 ! r) = [] then forget_key key bk1 else bk1)"

section \<open>Unsubscription\<close>

definition findResourceSubscriptionEntry ::
    "string \<Rightarrow> string \<Rightarrow> string \<Rightarrow> string option \<Rightarrow> sub_book \<Rightarrow> (string \<times> nat) option" where
  "findResourceSubscriptionEntry serverId resourceUri userId scopeId bk =
     (let of_server = (\<lambda>u (key, r). sb_serverId (bk_heap bk ! r) = serverId \<and> sb_resourceUri (bk_heap bk ! r) = resourceUri \<and>
            sb_userId (bk_heap bk ! r) = u);
          by_server = (case find (of_server (Some userId)) (bk_map bk) of Some x \<Rightarrow> Some x | None \<Rightarrow> find (of_server None) (bk_map bk))
      in case scopeId of
           None \<Rightarrow> by_server
         | Some i \<Rightarrow>
             if i = [] then by_server
             else (case map_of (bk_map bk) (buildResourceSubscriptionKey i resourceUri) of
                 Some r \<Rightarrow> Some (buildResourceSubscriptionKey i resourceUri, r)
               | None \<Rightarrow> by_server))"

datatype unsub_outcome =
    UnsubReturned
  | UnsubWaits nat
  | UnsubSends

text \<open>\<open>unsubscribeResourceState\<close>: its second half, when no subscriber is left; the end after the server was told.\<close>

definition unsubscribe_rest :: "server_registry \<Rightarrow> string \<Rightarrow> nat \<Rightarrow> sub_book \<Rightarrow> unsub_outcome \<times> sub_book" where
  "unsubscribe_rest sm key r bk =
     (let s = bk_heap bk ! r in
      if sb_sessions s \<noteq> [] then (UnsubReturned, bk)
      else if sb_downstream s \<and> (case findServerContextByScopeId (sb_scopeId s) sm of None \<Rightarrow> False | Some c \<Rightarrow> sx_connection c \<noteq> None)
      then (UnsubSends, bk)
      else (UnsubReturned, forget_key key bk))"

definition unsubscribe_state :: "server_registry \<Rightarrow> string \<Rightarrow> nat \<Rightarrow> string \<Rightarrow> sub_book \<Rightarrow> unsub_outcome \<times> sub_book" where
  "unsubscribe_state sm key r sessionId bk =
     (let bk1 = change_state r (drop_session_of sessionId) bk; s = bk_heap bk1 ! r in
      case sb_pending s of
        Some p \<Rightarrow> if sb_sessions s = [] then (UnsubWaits p, bk1) else unsubscribe_rest sm key r bk1
      | None \<Rightarrow> unsubscribe_rest sm key r bk1)"

definition unsubscribe_begin ::
    "server_registry \<Rightarrow> string \<Rightarrow> string \<Rightarrow> string \<Rightarrow> string \<Rightarrow> sub_book \<Rightarrow> (string \<times> nat) option \<times> unsub_outcome \<times> sub_book" where
  "unsubscribe_begin sm serverId resourceUri sessionId userId bk =
     (case findResourceSubscriptionEntry serverId resourceUri userId
         (map_option sx_id (getServerContext serverId (Some userId) sm)) bk of
        None \<Rightarrow> (None, UnsubReturned, bk)
      | Some (key, r) \<Rightarrow> (Some (key, r), unsubscribe_state sm key r sessionId bk))"

text \<open>\<open>cleanupSessionSubscriptions\<close>: the tasks it starts, one for each state with the session.\<close>

definition cleanup_entries :: "string \<Rightarrow> sub_book \<Rightarrow> (string \<times> nat) list" where
  "cleanup_entries sessionId bk = filter (\<lambda>(key, r). sessionId \<in> set (sb_sessions (bk_heap bk ! r))) (bk_map bk)"

text \<open>The end of \<open>disconnectServerContext\<close>, and one round of \<open>restoreResourceSubscriptions\<close>.\<close>

definition disconnect_scope :: "string \<Rightarrow> sub_book \<Rightarrow> sub_book" where
  "disconnect_scope scopeId bk =
     fold (\<lambda>(key, r). change_state r (\<lambda>s. if sb_scopeId s = scopeId then s\<lparr>sb_downstream := False, sb_pending := None\<rparr> else s)) (bk_map bk) bk"

definition restore_state :: "string \<Rightarrow> nat \<Rightarrow> sub_book \<Rightarrow> nat option \<times> sub_book" where
  "restore_state scopeId r bk =
     (let s = bk_heap bk ! r in
      if sb_scopeId s \<noteq> scopeId \<or> sb_sessions s = [] \<or> sb_downstream s \<or> sb_pending s \<noteq> None then (None, bk)
      else case request_state r (change_state r (\<lambda>s. s\<lparr>sb_downstream := False\<rparr>) bk) of (p, bk1) \<Rightarrow> (Some p, bk1))"

definition getResourceSubscribersForScope :: "string \<Rightarrow> string \<Rightarrow> sub_book \<Rightarrow> string list" where
  "getResourceSubscribersForScope scopeId resourceUri bk =
     (case map_of (bk_map bk) (buildResourceSubscriptionKey scopeId resourceUri) of
        Some r \<Rightarrow> sb_sessions (bk_heap bk ! r)
      | None \<Rightarrow> [])"

definition getResourceSubscribersForServer :: "string \<Rightarrow> string \<Rightarrow> sub_book \<Rightarrow> string list" where
  "getResourceSubscribersForServer serverId resourceUri bk =
     remdups (concat (map (\<lambda>(key, r). if sb_serverId (bk_heap bk ! r) = serverId \<and> sb_resourceUri (bk_heap bk ! r) = resourceUri
       then sb_sessions (bk_heap bk ! r) else []) (bk_map bk)))"

definition unsubscribe_entry :: "server_registry \<Rightarrow> string \<Rightarrow> string \<times> nat \<Rightarrow> unsub_outcome list \<times> sub_book \<Rightarrow> unsub_outcome list \<times> sub_book" where
  "unsubscribe_entry sm sessionId entry acc =
     (case (entry, acc) of ((key, r), (outs, bk)) \<Rightarrow>
        (case unsubscribe_state sm key r sessionId bk of (out, bk1) \<Rightarrow> (outs @ [out], bk1)))"

definition cleanupSessionSubscriptions :: "server_registry \<Rightarrow> string \<Rightarrow> sub_book \<Rightarrow> unsub_outcome list \<times> sub_book" where
  "cleanupSessionSubscriptions sm sessionId bk =
     fold (unsubscribe_entry sm sessionId) (cleanup_entries sessionId bk) ([], bk)"

section \<open>Distribution\<close>

text \<open>
  What was sent to which session: the last hundred notifications of each. Sending to a session may throw (\<open>fails\<close>), which is caught.
  The sessions are those of the store with their authentication contexts; the second component lists the sessions that
  were sent the notification.
\<close>

type_synonym sent_notifications = "(string, string list) jsmap"

definition SENT_LIMIT :: nat where "SENT_LIMIT = 100"

definition trim_sent :: "string list \<Rightarrow> string list" where
  "trim_sent ks = (if length ks > SENT_LIMIT then drop (length ks - SENT_LIMIT) ks else ks)"

definition notify_session ::
    "(string \<Rightarrow> bool) \<Rightarrow> (string \<Rightarrow> 'z auth_context_scheme \<Rightarrow> bool) \<Rightarrow> string \<Rightarrow> string \<times> 'z auth_context_scheme \<Rightarrow>
     sent_notifications \<times> string list \<Rightarrow> sent_notifications \<times> string list" where
  "notify_session fails eligible notificationKey session acc =
     (case (session, acc) of ((sessionId, a), (sent, out)) \<Rightarrow>
        if \<not> eligible sessionId a then (sent, out)
        else (let keys = (case map_of sent sessionId of Some ks \<Rightarrow> ks | None \<Rightarrow> []) in
          if notificationKey \<in> set keys \<or> fails sessionId then (sent, out)
          else (AList.update sessionId (trim_sent (keys @ [notificationKey])) sent, out @ [sessionId])))"

definition notify_sessions ::
    "(string \<Rightarrow> bool) \<Rightarrow> (string \<Rightarrow> 'z auth_context_scheme \<Rightarrow> bool) \<Rightarrow> string \<Rightarrow> (string \<times> 'z auth_context_scheme) list \<Rightarrow>
     sent_notifications \<Rightarrow> sent_notifications \<times> string list" where
  "notify_sessions fails eligible notificationKey sessions sent =
     fold (notify_session fails eligible notificationKey) sessions (sent, [])"

definition handleListChanged ::
    "string \<Rightarrow> (string \<Rightarrow> bool) \<Rightarrow> server_registry \<Rightarrow> string \<Rightarrow> int \<Rightarrow> (string \<times> 'z auth_context_scheme) list \<Rightarrow>
     sent_notifications \<Rightarrow> sent_notifications \<times> string list" where
  "handleListChanged kind fails sm serverId now sessions sent =
     notify_sessions fails (\<lambda>i a. canAccessServer sm a serverId) (kind @ ''_changed_'' @ serverId @ ''_'' @ int_str now) sessions sent"

definition handleToolsListChanged ::
    "(string \<Rightarrow> bool) \<Rightarrow> server_registry \<Rightarrow> string \<Rightarrow> int \<Rightarrow> (string \<times> 'z auth_context_scheme) list \<Rightarrow>
     sent_notifications \<Rightarrow> sent_notifications \<times> string list" where
  "handleToolsListChanged = handleListChanged ''tools''"

definition handleResourcesListChanged ::
    "(string \<Rightarrow> bool) \<Rightarrow> server_registry \<Rightarrow> string \<Rightarrow> int \<Rightarrow> (string \<times> 'z auth_context_scheme) list \<Rightarrow>
     sent_notifications \<Rightarrow> sent_notifications \<times> string list" where
  "handleResourcesListChanged = handleListChanged ''resources''"

definition handlePromptsListChanged ::
    "(string \<Rightarrow> bool) \<Rightarrow> server_registry \<Rightarrow> string \<Rightarrow> int \<Rightarrow> (string \<times> 'z auth_context_scheme) list \<Rightarrow>
     sent_notifications \<Rightarrow> sent_notifications \<times> string list" where
  "handlePromptsListChanged = handleListChanged ''prompts''"


text \<open>
  \<open>handleResourceUpdated\<close>. The subscribers are looked up first; for a scope it is the set of the state itself, which is
  read again when the sessions are gone through after the cache was invalidated, so the book then (\<open>bk'\<close>) decides. The
  invalidation is \<open>invalidateResource\<close> of the result cache.
\<close>

definition update_subscribers :: "string \<Rightarrow> string \<Rightarrow> string option \<Rightarrow> sub_book \<Rightarrow> sub_book \<Rightarrow> string list" where
  "update_subscribers serverId resourceUri scopeId bk bk' =
     (if scopeId = None \<or> scopeId = Some [] then getResourceSubscribersForServer serverId resourceUri bk
      else (case map_of (bk_map bk) (buildResourceSubscriptionKey (the scopeId) resourceUri) of
          None \<Rightarrow> []
        | Some r \<Rightarrow> sb_sessions (bk_heap bk' ! r)))"

definition handleResourceUpdated ::
    "(string \<Rightarrow> bool) \<Rightarrow> server_registry \<Rightarrow> string \<Rightarrow> string \<Rightarrow> string option \<Rightarrow> sub_book \<Rightarrow> sub_book \<Rightarrow> int \<Rightarrow>
     (string \<times> 'z auth_context_scheme) list \<Rightarrow> sent_notifications \<Rightarrow> sent_notifications \<times> string list" where
  "handleResourceUpdated fails sm serverId resourceUri scopeId bk bk' now sessions sent =
     (let subscribers = update_subscribers serverId resourceUri scopeId bk bk' in
      if subscribers = [] then (sent, [])
      else notify_sessions fails (\<lambda>i a. i \<in> set subscribers \<and> canAccessServer sm a serverId)
        (''resource_updated_'' @ serverId @ ''_'' @ resourceUri @ ''_'' @ int_str now) sessions sent)"

definition cleanupSessionNotifications :: "string \<Rightarrow> sent_notifications \<Rightarrow> sent_notifications" where
  "cleanupSessionNotifications sessionId sent = AList.delete sessionId sent"

definition cleanupAllSessionNotifications :: "sent_notifications \<Rightarrow> sent_notifications" where
  "cleanupAllSessionNotifications sent = []"

definition router_getStats :: "sent_notifications \<Rightarrow> nat \<times> nat" where
  "router_getStats sent = (length sent, sum_list (map (length \<circ> snd) sent))"

section \<open>The subscriptions as a transition system\<close>

text \<open>
  A step per piece of a call. The pieces that follow an \<open>await\<close> may come at any time and for any state and key, which
  covers whatever calls are under way. The second component, which the code does not keep, says which sessions asked for which
  resource of which scope and did not take it back.
\<close>

type_synonym sub_wish = "string \<times> string \<times> string"

definition wish_of :: "string \<Rightarrow> nat \<Rightarrow> sub_book \<Rightarrow> sub_wish" where
  "wish_of i r bk = (i, sb_scopeId (bk_heap bk ! r), sb_resourceUri (bk_heap bk ! r))"

definition wished :: "(server_context \<Rightarrow> bool) \<Rightarrow> server_registry \<Rightarrow> string \<Rightarrow> string \<Rightarrow> string \<Rightarrow> string \<Rightarrow> sub_wish set" where
  "wished supports sm serverId resourceUri sessionId userId =
     (case getServerContext serverId (Some userId) sm of
        None \<Rightarrow> {}
      | Some c \<Rightarrow> if supports c then {(sessionId, sx_id c, resourceUri)} else {})"

inductive sub_step :: "sub_book \<times> sub_wish set \<Rightarrow> sub_book \<times> sub_wish set \<Rightarrow> bool" where
  su_subscribe: "registry_ok sm \<Longrightarrow> subscribe_begin supports sm s uri i u bk = (out, bk') \<Longrightarrow>
    sub_step (bk, A) (bk', A \<union> wished supports sm s uri i u)"
| su_then: "sub_step (bk, A) (request_then r p bk, A)"
| su_finally: "sub_step (bk, A) (request_finally r p bk, A)"
| su_failed: "sub_step (bk, A) (subscribe_failed key r i already bk, A)"
| su_unsubscribe: "unsubscribe_begin sm s uri i u bk = (Some (key, r), out, bk') \<Longrightarrow> sub_step (bk, A) (bk', A - {wish_of i r bk})"
| su_rest: "unsubscribe_rest sm key r bk = (out, bk') \<Longrightarrow> sub_step (bk, A) (bk', A)"
| su_forget: "sub_step (bk, A) (forget_key key bk, A)"
| su_cleanup: "cleanupSessionSubscriptions sm i bk = (outs, bk') \<Longrightarrow> sub_step (bk, A) (bk', {a \<in> A. fst a \<noteq> i})"
| su_disconnect: "sub_step (bk, A) (disconnect_scope scope bk, A)"
| su_restore: "restore_state scope r bk = (p, bk') \<Longrightarrow> sub_step (bk, A) (bk', A)"

definition sub_reach :: "sub_book \<Rightarrow> sub_wish set \<Rightarrow> bool" where
  "sub_reach bk A \<longleftrightarrow> sub_step\<^sup>*\<^sup>* (\<lparr>bk_heap = [], bk_map = [], bk_promises = 0\<rparr>, {}) (bk, A)"

text \<open>
  The invariant: a key leads to the state of its scope, which is that of a server context, and resource, and whoever is among the subscribers of a state in the map
  has asked for it.
\<close>

definition entry_ok :: "sub_state list \<Rightarrow> sub_wish set \<Rightarrow> string \<times> nat \<Rightarrow> bool" where
  "entry_ok heap A e \<longleftrightarrow> (case e of (key, r) \<Rightarrow> r < length heap \<and>
     key = buildResourceSubscriptionKey (sb_scopeId (heap ! r)) (sb_resourceUri (heap ! r)) \<and> (\<exists>n. sb_scopeId (heap ! r) = nat_str n) \<and>
     (\<forall>i\<in>set (sb_sessions (heap ! r)). (i, sb_scopeId (heap ! r), sb_resourceUri (heap ! r)) \<in> A))"

definition book_ok :: "sub_book \<Rightarrow> sub_wish set \<Rightarrow> bool" where
  "book_ok bk A \<longleftrightarrow> jsmap_ok (bk_map bk) \<and> (\<forall>e\<in>set (bk_map bk). entry_ok (bk_heap bk) A e)"

text \<open>Most pieces keep what the states are for, add no subscriber and no key.\<close>

definition subdued :: "sub_book \<Rightarrow> sub_book \<Rightarrow> bool" where
  "subdued bk bk' \<longleftrightarrow> length (bk_heap bk') = length (bk_heap bk) \<and> set (bk_map bk') \<subseteq> set (bk_map bk) \<and>
     (jsmap_ok (bk_map bk) \<longrightarrow> jsmap_ok (bk_map bk')) \<and>
     (\<forall>r<length (bk_heap bk). sb_scopeId (bk_heap bk' ! r) = sb_scopeId (bk_heap bk ! r) \<and>
        sb_resourceUri (bk_heap bk' ! r) = sb_resourceUri (bk_heap bk ! r) \<and> set (sb_sessions (bk_heap bk' ! r)) \<subseteq> set (sb_sessions (bk_heap bk ! r)))"

lemma subdued_refl: "subdued bk bk"
  by (simp add: subdued_def)

lemma subdued_trans: "subdued a b \<Longrightarrow> subdued b c \<Longrightarrow> subdued a c"
  unfolding subdued_def by (metis (no_types, lifting) subset_trans)

lemma subdued_ok: "subdued bk bk' \<Longrightarrow> book_ok bk A \<Longrightarrow> book_ok bk' A"
  unfolding book_ok_def
proof (intro conjI ballI)
  assume sub: "subdued bk bk'" and ok: "jsmap_ok (bk_map bk) \<and> (\<forall>e\<in>set (bk_map bk). entry_ok (bk_heap bk) A e)"
  then show "jsmap_ok (bk_map bk')" by (simp add: subdued_def)
  fix e assume "e \<in> set (bk_map bk')"
  then have "entry_ok (bk_heap bk) A e" using sub ok unfolding subdued_def by blast
  with sub show "entry_ok (bk_heap bk') A e" unfolding subdued_def entry_ok_def by (auto split: prod.splits)
qed

lemma change_book [simp]: "bk_map (change_state r f bk) = bk_map bk" "length (bk_heap (change_state r f bk)) = length (bk_heap bk)"
  by (simp_all add: change_state_def)

lemma change_nth: "q < length (bk_heap bk) \<Longrightarrow> bk_heap (change_state r f bk) ! q = (if q = r then f (bk_heap bk ! q) else bk_heap bk ! q)"
  by (simp add: change_state_def nth_list_update)

lemma subdued_change:
  "(\<And>s. sb_scopeId (f s) = sb_scopeId s \<and> sb_resourceUri (f s) = sb_resourceUri s \<and> set (sb_sessions (f s)) \<subseteq> set (sb_sessions s)) \<Longrightarrow>
   subdued bk (change_state r f bk)"
  by (auto simp: subdued_def change_nth)

lemma subdued_forget: "subdued bk (forget_key key bk)"
  using jsmap.ok_del[of "bk_map bk" key] by (auto simp: subdued_def forget_key_def AList.delete_eq)

lemma subdued_drop: "subdued bk (change_state r (drop_session_of i) bk)"
  by (rule subdued_change) (auto simp: drop_session_of_def)

lemma subdued_request: "request_state r bk = (p, bk') \<Longrightarrow> subdued bk bk'"
proof -
  assume "request_state r bk = (p, bk')"
  then have "bk' = (change_state r (\<lambda>s. s\<lparr>sb_pending := Some (bk_promises bk)\<rparr>) bk)\<lparr>bk_promises := Suc (bk_promises bk)\<rparr>"
    by (auto simp: request_state_def Let_def)
  with subdued_change[of "\<lambda>s. s\<lparr>sb_pending := Some (bk_promises bk)\<rparr>" bk r] show ?thesis by (simp add: subdued_def)
qed

lemma subdued_rest: "unsubscribe_rest sm key r bk = (out, bk') \<Longrightarrow> subdued bk bk'"
  by (auto simp: unsubscribe_rest_def Let_def subdued_refl subdued_forget split: if_splits)

lemma subdued_state: "unsubscribe_state sm key r i bk = (out, bk') \<Longrightarrow> subdued (change_state r (drop_session_of i) bk) bk'"
  by (auto simp: unsubscribe_state_def Let_def subdued_refl dest: subdued_rest split: option.splits if_splits)

lemma subdued_fold: "(\<And>e b. subdued b (f e b)) \<Longrightarrow> subdued b (fold f es b)"
  by (induction es arbitrary: b) (auto simp: subdued_refl intro: subdued_trans)

lemma subdued_pieces:
  "subdued bk (request_then r p bk)" "subdued bk (request_finally r p bk)" "subdued bk (subscribe_failed key r i already bk)"
  "subdued bk (disconnect_scope scope bk)" "restore_state scope r bk = (q, bk') \<Longrightarrow> subdued bk bk'"
proof -
  show "subdued bk (request_then r p bk)" "subdued bk (request_finally r p bk)"
    unfolding request_then_def request_finally_def by (rule subdued_change; simp)+
  show "subdued bk (subscribe_failed key r i already bk)"
    by (auto simp: subscribe_failed_def Let_def subdued_refl subdued_drop subdued_forget intro: subdued_trans[OF subdued_drop subdued_forget])
  show "subdued bk (disconnect_scope scope bk)"
    unfolding disconnect_scope_def by (rule subdued_fold) (auto intro!: subdued_change split: if_splits)
  have "subdued bk (change_state r (\<lambda>s. s\<lparr>sb_downstream := False\<rparr>) bk)" by (rule subdued_change) simp
  then show "restore_state scope r bk = (q, bk') \<Longrightarrow> subdued bk bk'"
    by (auto simp: restore_state_def Let_def subdued_refl split: if_splits prod.splits intro: subdued_trans dest!: subdued_request)
qed

section \<open>Who is told of an update\<close>

lemma entry_found:
  "findResourceSubscriptionEntry s uri u scope bk = Some (key, r) \<Longrightarrow> (key, r) \<in> set (bk_map bk)"
  by (auto simp: findResourceSubscriptionEntry_def Let_def find_Some_iff split: option.splits if_splits dest: map_of_SomeD)
    (metis nth_mem)+

lemma context_numbered:
  assumes "registry_ok sm" "getServerContext s u sm = Some c"
  shows "\<exists>n. sx_id c = nat_str n"
proof -
  have "(\<exists>k. (k, c) \<in> set (serverContexts sm)) \<or> (\<exists>k. (k, c) \<in> set (temporaryServers sm))"
    using assms(2) by (auto simp: getServerContext_def getTemporaryServer_def split: option.splits if_splits dest!: map_of_SomeD)
  with assms(1) show ?thesis unfolding registry_ok_def managed_ok_def temporary_ok_def numbered_def by blast
qed

lemma book_ok_mono: "book_ok bk A \<Longrightarrow> A \<subseteq> B \<Longrightarrow> book_ok bk B"
  unfolding book_ok_def entry_ok_def by (auto split: prod.splits)

lemma key_inject:
  assumes "buildResourceSubscriptionKey (nat_str n) uri = buildResourceSubscriptionKey (nat_str m) uri'"
  shows "nat_str n = nat_str m \<and> uri = uri'"
proof -
  have head: "takeWhile (\<lambda>c. c \<noteq> CHR '':'') (nat_str k @ ''::'' @ x) = nat_str k" for k x
    using nat_str_no_name_char[of _ k] by (subst takeWhile_append2) auto
  have "nat_str n = nat_str m" using assms head unfolding buildResourceSubscriptionKey_def by metis
  with assms show ?thesis by (simp add: buildResourceSubscriptionKey_def)
qed

lemma entry_key:
  assumes "book_ok bk A" "(buildResourceSubscriptionKey (nat_str n) uri, r) \<in> set (bk_map bk)"
  shows "r < length (bk_heap bk)" "sb_scopeId (bk_heap bk ! r) = nat_str n" "sb_resourceUri (bk_heap bk ! r) = uri"
    "i \<in> set (sb_sessions (bk_heap bk ! r)) \<Longrightarrow> (i, nat_str n, uri) \<in> A"
proof -
  let ?s = "bk_heap bk ! r"
  have e: "entry_ok (bk_heap bk) A (buildResourceSubscriptionKey (nat_str n) uri, r)" using assms unfolding book_ok_def by blast
  then obtain m where m: "sb_scopeId ?s = nat_str m" by (auto simp: entry_ok_def)
  from e m have k: "buildResourceSubscriptionKey (nat_str n) uri = buildResourceSubscriptionKey (nat_str m) (sb_resourceUri ?s)"
    by (simp add: entry_ok_def)
  from e m key_inject[OF k] show "r < length (bk_heap bk)" "sb_scopeId ?s = nat_str n" "sb_resourceUri ?s = uri"
    "i \<in> set (sb_sessions ?s) \<Longrightarrow> (i, nat_str n, uri) \<in> A" by (auto simp: entry_ok_def)
qed

lemma state_for_ok:
  assumes "book_ok bk A" "sx_id c = nat_str n" "state_for s uri c bk = (r, bk')"
  shows "book_ok bk' A" "r < length (bk_heap bk')" "sb_scopeId (bk_heap bk' ! r) = sx_id c" "sb_resourceUri (bk_heap bk' ! r) = uri"
proof -
  let ?k = "buildResourceSubscriptionKey (sx_id c) uri"
  have "book_ok bk' A \<and> r < length (bk_heap bk') \<and> sb_scopeId (bk_heap bk' ! r) = sx_id c \<and> sb_resourceUri (bk_heap bk' ! r) = uri"
  proof (cases "map_of (bk_map bk) ?k")
    case None
    then have "bk_map bk' = bk_map bk @ [(?k, length (bk_heap bk))]" "r = length (bk_heap bk)"
      using assms(3) by (auto simp: state_for_def Let_def update_absent)
    moreover have "jsmap_ok (bk_map bk')" using assms(1,3) None by (auto simp: state_for_def Let_def book_ok_def jsmap.ok_put)
    moreover have "bk_heap bk' = bk_heap bk @ [\<lparr>sb_serverId = s, sb_userId = sx_userId c, sb_resourceUri = uri, sb_scopeId = sx_id c,
        sb_sessions = [], sb_downstream = False, sb_pending = None\<rparr>]" using assms(3) None by (auto simp: state_for_def Let_def)
    ultimately show ?thesis using assms(1,2) by (auto simp: book_ok_def entry_ok_def nth_append split: prod.splits)
  next
    case (Some q)
    then have "r = q" "bk' = bk" using assms(3) by (auto simp: state_for_def Let_def)
    with assms(1,2) Some show ?thesis using entry_key[of bk A n uri q] by (auto dest: map_of_SomeD)
  qed
  then show "book_ok bk' A" "r < length (bk_heap bk')" "sb_scopeId (bk_heap bk' ! r) = sx_id c" "sb_resourceUri (bk_heap bk' ! r) = uri"
    by blast+
qed

lemma add_ok:
  assumes "book_ok bk A" "r < length (bk_heap bk)"
  shows "book_ok (change_state r (add_session i) bk) (A \<union> {wish_of i r bk})"
  using assms unfolding book_ok_def entry_ok_def
  by (auto simp: change_nth add_session_def wish_of_def split: prod.splits)

lemma subscribe_ok:
  assumes "registry_ok sm" "book_ok bk A" "subscribe_begin supports sm s uri i u bk = (out, bk')"
  shows "book_ok bk' (A \<union> wished supports sm s uri i u)"
proof (cases "getServerContext s (Some u) sm")
  case None
  with assms show ?thesis by (simp add: subscribe_begin_def wished_def)
next
  case (Some c)
  show ?thesis
  proof (cases "supports c")
    case True
    obtain n where n: "sx_id c = nat_str n" using context_numbered[OF assms(1) Some] by blast
    obtain r bk1 where st: "state_for s uri c bk = (r, bk1)" by fastforce
    note ok = state_for_ok[OF assms(2) n st]
    let ?bk2 = "change_state r (add_session i) bk1"
    have two: "book_ok ?bk2 (A \<union> {(i, sx_id c, uri)})" using add_ok[OF ok(1,2), of i] ok(3,4) by (simp add: wish_of_def)
    have "bk' = ?bk2 \<or> (\<exists>p. request_state r ?bk2 = (p, bk'))"
      using assms(3) Some True st by (auto simp: subscribe_begin_def Let_def split: if_splits option.splits prod.splits)
    with two have "book_ok bk' (A \<union> {(i, sx_id c, uri)})" using subdued_ok subdued_request by blast
    with Some True show ?thesis by (simp add: wished_def)
  qed (use assms Some in \<open>simp add: subscribe_begin_def wished_def\<close>)
qed

text \<open>A session that is taken out of a state is taken out of what its key stands for.\<close>

lemma drop_ok:
  assumes ok: "book_ok bk A" and e: "(key, r) \<in> set (bk_map bk)"
  shows "book_ok (change_state r (drop_session_of i) bk) (A - {wish_of i r bk})"
  unfolding book_ok_def
proof (intro conjI ballI)
  show "jsmap_ok (bk_map (change_state r (drop_session_of i) bk))" using ok by (simp add: book_ok_def)
  fix e' assume "e' \<in> set (bk_map (change_state r (drop_session_of i) bk))"
  then obtain k' r' where e': "e' = (k', r')" "(k', r') \<in> set (bk_map bk)" by (metis change_book(1) surj_pair)
  have ent: "entry_ok (bk_heap bk) A (key, r)" "entry_ok (bk_heap bk) A (k', r')" using ok e e' unfolding book_ok_def by blast+
  show "entry_ok (bk_heap (change_state r (drop_session_of i) bk)) (A - {wish_of i r bk}) e'"
  proof (cases "r' = r")
    case True
    with ent e' show ?thesis by (auto simp: entry_ok_def change_nth drop_session_of_def wish_of_def)
  next
    case False
    with ok e e'(2) have "k' \<noteq> key" unfolding book_ok_def jsmap_ok_def by (metis eq_key_imp_eq_value)
    with ent have "(sb_scopeId (bk_heap bk ! r'), sb_resourceUri (bk_heap bk ! r')) \<noteq> (sb_scopeId (bk_heap bk ! r), sb_resourceUri (bk_heap bk ! r))"
      by (auto simp: entry_ok_def)
    with ent False e' show ?thesis by (auto simp: entry_ok_def change_nth wish_of_def)
  qed
qed

lemma unsubscribe_ok:
  assumes "book_ok bk A" "unsubscribe_begin sm s uri i u bk = (Some (key, r), out, bk')"
  shows "book_ok bk' (A - {wish_of i r bk})"
proof -
  have "(key, r) \<in> set (bk_map bk)" "unsubscribe_state sm key r i bk = (out, bk')"
    using assms(2) by (auto simp: unsubscribe_begin_def split: option.splits prod.splits dest: entry_found)
  with drop_ok[OF assms(1)] subdued_state subdued_ok show ?thesis by blast
qed

text \<open>The tasks of a cleanup take the session out of every state they are for.\<close>

lemma cleanup_fold:
  assumes "fold (unsubscribe_entry sm i) es (outs, bk) = (outs', bk')" "\<forall>(key, r)\<in>set es. r < length (bk_heap bk)"
  shows "subdued bk bk' \<and> (\<forall>(key, r)\<in>set es. i \<notin> set (sb_sessions (bk_heap bk' ! r)))"
  using assms
proof (induction es arbitrary: outs bk)
  case (Cons e es)
  obtain key r where e: "e = (key, r)" by fastforce
  obtain out b where u: "unsubscribe_state sm key r i bk = (out, b)" by fastforce
  let ?d = "change_state r (drop_session_of i) bk"
  have r: "r < length (bk_heap bk)" using Cons.prems(2) e by simp
  have d: "subdued ?d b" using subdued_state[OF u] .
  have b: "subdued bk b" using subdued_trans[OF subdued_drop d] .
  have len: "length (bk_heap b) = length (bk_heap bk)" using b by (simp add: subdued_def)
  have "i \<notin> set (sb_sessions (bk_heap ?d ! r))" using r by (simp add: change_nth drop_session_of_def)
  then have out: "i \<notin> set (sb_sessions (bk_heap b ! r))" using d r by (auto simp: subdued_def)
  have "unsubscribe_entry sm i e (outs, bk) = (outs @ [out], b)" using e u by (simp add: unsubscribe_entry_def)
  then have "fold (unsubscribe_entry sm i) es (outs @ [out], b) = (outs', bk')" using Cons.prems(1) by simp
  from Cons.IH[OF this] Cons.prems(2) len
  have rest: "subdued b bk'" "\<forall>(key, r)\<in>set es. i \<notin> set (sb_sessions (bk_heap bk' ! r))" by auto
  have "i \<notin> set (sb_sessions (bk_heap bk' ! r))" using rest(1) out r len by (auto simp: subdued_def)
  with rest e subdued_trans[OF b rest(1)] show ?case by auto
qed (simp add: subdued_refl)

lemma cleanup_gone:
  assumes ok: "book_ok bk A" and c: "cleanupSessionSubscriptions sm i bk = (outs, bk')"
  shows "subdued bk bk'" "(key, r) \<in> set (bk_map bk') \<Longrightarrow> i \<notin> set (sb_sessions (bk_heap bk' ! r))"
proof -
  have len: "\<forall>(key, r)\<in>set (bk_map bk). r < length (bk_heap bk)" using ok by (auto simp: book_ok_def entry_ok_def)
  then have "\<forall>(key, r)\<in>set (cleanup_entries i bk). r < length (bk_heap bk)" by (auto simp: cleanup_entries_def)
  from cleanup_fold[OF c[unfolded cleanupSessionSubscriptions_def] this]
  show sub: "subdued bk bk'" and gone: "(key, r) \<in> set (bk_map bk') \<Longrightarrow> i \<notin> set (sb_sessions (bk_heap bk' ! r))"
  proof -
    assume *: "subdued bk bk' \<and> (\<forall>(key, r)\<in>set (cleanup_entries i bk). i \<notin> set (sb_sessions (bk_heap bk' ! r)))"
    then show "subdued bk bk'" by blast
    assume "(key, r) \<in> set (bk_map bk')"
    with * len have "(key, r) \<in> set (bk_map bk)" "r < length (bk_heap bk)" unfolding subdued_def by fastforce+
    with * show "i \<notin> set (sb_sessions (bk_heap bk' ! r))" unfolding subdued_def cleanup_entries_def by fastforce
  qed
qed

lemma cleanup_ok:
  assumes "book_ok bk A" "cleanupSessionSubscriptions sm i bk = (outs, bk')"
  shows "book_ok bk' {a \<in> A. fst a \<noteq> i}"
proof -
  have "book_ok bk' A" using subdued_ok[OF cleanup_gone(1)[OF assms] assms(1)] .
  with cleanup_gone(2)[OF assms] show ?thesis unfolding book_ok_def entry_ok_def by (fastforce split: prod.splits)
qed

lemma step_ok: "sub_step x y \<Longrightarrow> book_ok (fst x) (snd x) \<Longrightarrow> book_ok (fst y) (snd y)"
  by (induction rule: sub_step.induct)
    (auto intro: subscribe_ok unsubscribe_ok cleanup_ok subdued_ok subdued_pieces subdued_forget subdued_rest)

lemma reach_ok: "sub_reach bk A \<Longrightarrow> book_ok bk A"
proof -
  assume "sub_reach bk A"
  then have "sub_step\<^sup>*\<^sup>* (\<lparr>bk_heap = [], bk_map = [], bk_promises = 0\<rparr>, {}) (bk, A)" by (simp add: sub_reach_def)
  moreover have "sub_step\<^sup>*\<^sup>* x y \<Longrightarrow> book_ok (fst x) (snd x) \<Longrightarrow> book_ok (fst y) (snd y)" for x y
    by (induction rule: rtranclp_induct) (auto dest: step_ok)
  ultimately show ?thesis by (auto simp: book_ok_def)
qed

text \<open>Going through the sessions, whose identifiers differ: who is sent the notification, and what is remembered of it.\<close>

lemma notify_sessions_out:
  assumes "distinct (map fst sessions)"
  shows "snd (fold (notify_session fails eligible k) sessions (sent, out)) =
    out @ map fst (filter (\<lambda>(i, a). eligible i a \<and> k \<notin> set (case map_of sent i of Some ks \<Rightarrow> ks | None \<Rightarrow> []) \<and> \<not> fails i) sessions)"
  using assms
proof (induction sessions arbitrary: sent out)
  case (Cons x sessions)
  obtain i a where x: "x = (i, a)" by fastforce
  obtain sent' out' where n: "notify_session fails eligible k (i, a) (sent, out) = (sent', out')" by fastforce
  have upd: "sent' = sent \<or> (\<exists>v. sent' = AList.update i v sent)"
    and out': "out' = (if eligible i a \<and> k \<notin> set (case map_of sent i of Some ks \<Rightarrow> ks | None \<Rightarrow> []) \<and> \<not> fails i then out @ [i] else out)"
    using n by (auto simp: notify_session_def Let_def split: if_splits)
  have same: "map_of sent' j = map_of sent j" if "(j, b) \<in> set sessions" for j b
  proof -
    have "j \<noteq> i" using Cons.prems x that by force
    with upd show ?thesis by (auto simp: update_conv')
  qed
  then have f: "filter (\<lambda>(i, a). eligible i a \<and> k \<notin> set (case map_of sent' i of Some ks \<Rightarrow> ks | None \<Rightarrow> []) \<and> \<not> fails i) sessions =
      filter (\<lambda>(i, a). eligible i a \<and> k \<notin> set (case map_of sent i of Some ks \<Rightarrow> ks | None \<Rightarrow> []) \<and> \<not> fails i) sessions"
    by (intro filter_cong refl) auto
  have "distinct (map fst sessions)" using Cons.prems by simp
  from Cons.IH[OF this, of sent' out'] n x f out' show ?case by simp
qed simp

lemma notify_session_bounded:
  assumes "\<forall>(i, ks)\<in>set sent. length ks \<le> SENT_LIMIT" "notify_session fails eligible k x (sent, out) = (sent', out')"
  shows "\<forall>(i, ks)\<in>set sent'. length ks \<le> SENT_LIMIT"
proof -
  have "length (trim_sent ks) \<le> SENT_LIMIT" for ks by (simp add: trim_sent_def)
  with assms show ?thesis
    by (auto simp: notify_session_def Let_def split: if_splits prod.splits dest!: set_update_subset)
qed

lemma notify_sessions_bounded:
  assumes "\<forall>(i, ks)\<in>set sent. length ks \<le> SENT_LIMIT"
  shows "\<forall>(i, ks)\<in>set (fst (fold (notify_session fails eligible k) sessions (sent, out))). length ks \<le> SENT_LIMIT"
  using assms
proof (induction sessions arbitrary: sent out)
  case (Cons x sessions)
  obtain sent' out' where n: "notify_session fails eligible k x (sent, out) = (sent', out')" by fastforce
  from Cons.IH[OF notify_session_bounded[OF Cons.prems n]] n show ?case by simp
qed simp

lemma notified_eligible:
  "i \<in> set (snd (fold (notify_session fails eligible k) sessions (sent, out))) \<Longrightarrow>
   i \<in> set out \<or> (\<exists>a. (i, a) \<in> set sessions \<and> eligible i a)"
proof (induction sessions arbitrary: sent out)
  case (Cons x sessions)
  obtain j a where x: "x = (j, a)" by fastforce
  obtain sent' out' where n: "notify_session fails eligible k x (sent, out) = (sent', out')" by fastforce
  then have "set out' \<subseteq> set out \<union> {j' . j' = j \<and> eligible j a}"
    using x by (auto simp: notify_session_def Let_def split: if_splits)
  with Cons.IH[of sent' out'] Cons.prems n x show ?case by auto
qed simp


text \<open>
  A change of a list is announced to exactly the sessions that may access the server, to each once, save those that
  were told at the same time already or whose connection fails; and no more than a hundred announcements are
  remembered for a session.
\<close>

theorem list_change_announced:
  assumes "distinct (map fst sessions)" "\<forall>(i, ks)\<in>set sent. length ks \<le> 100"
    and "handleListChanged kind fails sm serverId now sessions sent = (sent', told)"
  shows "told = map fst (filter (\<lambda>(i, a). canAccessServer sm a serverId \<and> \<not> fails i \<and>
      (kind @ ''_changed_'' @ serverId @ ''_'' @ int_str now) \<notin> set (case map_of sent i of Some ks \<Rightarrow> ks | None \<Rightarrow> [])) sessions)
    \<and> distinct told \<and> (\<forall>(i, ks)\<in>set sent'. length ks \<le> 100)"
proof -
  let ?k = "kind @ ''_changed_'' @ serverId @ ''_'' @ int_str now"
  let ?fold = "fold (notify_session fails (\<lambda>i a. canAccessServer sm a serverId) ?k) sessions (sent, [])"
  have r: "sent' = fst ?fold" "told = snd ?fold" using assms(3) by (auto simp: handleListChanged_def notify_sessions_def)
  have out: "told = map fst (filter (\<lambda>(i, a). canAccessServer sm a serverId \<and> \<not> fails i \<and>
      ?k \<notin> set (case map_of sent i of Some ks \<Rightarrow> ks | None \<Rightarrow> [])) sessions)"
    unfolding r(2) notify_sessions_out[OF assms(1)] by (auto intro!: arg_cong[of _ _ "map fst"] filter_cong)
  moreover have "distinct told" unfolding out using assms(1) by (rule distinct_map_filter)
  moreover have "\<forall>(i, ks)\<in>set sent'. length ks \<le> 100"
    unfolding r(1) using notify_sessions_bounded[of sent fails "\<lambda>i a. canAccessServer sm a serverId" ?k sessions "[]"] assms(2)
    unfolding SENT_LIMIT_def by blast
  ultimately show ?thesis by blast
qed

text \<open>
  Two ways in which the count goes wrong. While the last unsubscription waits for the server, the state is still marked as
  subscribed: a session that subscribes then is told that it succeeded, and its entry is deleted when the answer arrives.
  And a subscription that is refused because the server has no connection leaves the session among the subscribers.
\<close>

lemma subscription_lost:
  assumes un: "unsubscribe_begin sm s uri i u bk = (Some (key, r), UnsubSends, bk1)" and len: "r < length (bk_heap bk)"
    and c: "getServerContext s (Some v) sm = Some c" "supports c" "key = buildResourceSubscriptionKey (sx_id c) uri"
    and key: "map_of (bk_map bk) key = Some r"
  shows "\<exists>bk2. subscribe_begin supports sm s uri j v bk1 = (SubReturned, bk2) \<and>
    getResourceSubscribersForScope (sx_id c) uri bk2 = [j] \<and> getResourceSubscribersForScope (sx_id c) uri (forget_key key bk2) = []"
proof -
  have "unsubscribe_state sm key r i bk = (UnsubSends, bk1)"
    using un by (auto simp: unsubscribe_begin_def split: option.splits prod.splits)
  then have bk1: "bk1 = change_state r (drop_session_of i) bk" and s: "sb_sessions (bk_heap bk1 ! r) = []" "sb_downstream (bk_heap bk1 ! r)"
    by (auto simp: unsubscribe_state_def unsubscribe_rest_def Let_def split: option.splits if_splits)
  have m: "map_of (bk_map bk1) key = Some r" "r < length (bk_heap bk1)" using key len bk1 by simp_all
  then have "subscribe_begin supports sm s uri j v bk1 = (SubReturned, change_state r (add_session j) bk1)"
    using c s by (simp add: subscribe_begin_def state_for_def Let_def)
  with m s c(3) show ?thesis
    by (auto simp: getResourceSubscribersForScope_def change_nth add_session_def forget_key_def delete_conv')
qed

lemma refused_subscriber_stays:
  assumes "getServerContext s (Some u) sm = Some c" "supports c" "sx_connection c = None" "map_of (bk_map bk) (buildResourceSubscriptionKey (sx_id c) uri) = None"
  shows "\<exists>bk'. subscribe_begin supports sm s uri i u bk = (SubThrown, bk') \<and> getResourceSubscribersForScope (sx_id c) uri bk' = [i]"
  using assms by (simp add: subscribe_begin_def state_for_def Let_def getResourceSubscribersForScope_def change_state_def add_session_def nth_append
      update_conv')

section \<open>An example\<close>

text \<open>A session of ann subscribes to a page of a connected server, which answers.\<close>

definition demo_connected :: server_registry where
  "demo_connected = demo_registry\<lparr>serverContexts := map (\<lambda>(k, c). (k, c\<lparr>sx_connection := Some 0\<rparr>)) (serverContexts demo_registry)\<rparr>"

definition demo_book :: sub_book where
  "demo_book = request_finally 0 0 (request_then 0 0 (snd (subscribe_begin (\<lambda>c. True) demo_connected ''bank'' ''page'' ''s1'' ''ann''
     \<lparr>bk_heap = [], bk_map = [], bk_promises = 0\<rparr>)))"

lemma demo_connected_ok: "registry_ok demo_connected"
proof -
  have "registry_ok demo_registry" using demo_registry_reach by (rule registry_reach_ok)
  then show ?thesis unfolding demo_connected_def registry_ok_def
    by (auto simp: jsmap_ok_def all_contexts_def managed_ok_def numbered_def comp_def split_def)
qed

lemma demo_book_reach: "sub_reach demo_book {(''s1'', ''1'', ''page'')}"
proof -
  let ?start = "\<lparr>bk_heap = [], bk_map = [], bk_promises = 0\<rparr>"
  obtain out bk1 where s: "subscribe_begin (\<lambda>c. True) demo_connected ''bank'' ''page'' ''s1'' ''ann'' ?start = (out, bk1)" by fastforce
  have "wished (\<lambda>c. True) demo_connected ''bank'' ''page'' ''s1'' ''ann'' = {(''s1'', ''1'', ''page'')}" by code_simp
  with su_subscribe[OF demo_connected_ok s, of "{}"] have "sub_step (?start, {}) (bk1, {(''s1'', ''1'', ''page'')})" by simp
  then show ?thesis unfolding sub_reach_def demo_book_def s snd_conv
    by (blast intro: su_then su_finally rtranclp.rtrancl_into_rtrancl converse_rtranclp_into_rtranclp)
qed


theorem list_change_announced_witness:
  "snd (handleListChanged ''tools'' (\<lambda>i. i = ''s2'') demo_connected ''bank'' 0
     [(''s1'', demo_user ''ann''), (''s2'', demo_user ''bob'')] [(''s1'', [''x''])]) = [''s1'']"
proof -
  let ?call = "handleListChanged ''tools'' (\<lambda>i. i = ''s2'') demo_connected ''bank'' 0
     [(''s1'', demo_user ''ann''), (''s2'', demo_user ''bob'')] [(''s1'', [''x''])]"
  have acc: "canAccessServer demo_connected (demo_user ''ann'') ''bank''" by code_simp
  obtain sent' told where r: "?call = (sent', told)" by fastforce
  from list_change_announced[OF _ _ r] acc show ?thesis by (simp add: r)
qed

end
