(* ===== verification/Spec2Isabelle.thy ===== *)
theory Spec2Isabelle
  imports Approval_Limits Rate_Limit Ip_Whitelist Cache_Manager Singleflight Request_Ids Event_Store Tool_Call_Safety Admin_Use Resource_Updates
begin

text \<open>
  Verification of Peta Core, a gateway between MCP clients and MCP servers (the TypeScript program under
  \<open>src/src\<close>; file names below are relative to that directory).

  \<^bold>\<open>The program.\<close> Clients connect to the gateway with the token of a user or with an access token that
  the authorization server of the gateway issued. The gate (IP filter, authentication, rate limit)
  binds a request to a session of a user. Through the session a client lists and calls the tools, resources and prompts of
  all downstream servers its user has permissions for. A tool call runs through access control, the policy
  engine, the queue of approvals by administrators, the result cache, the start of the server, and the
  mapping of request identifiers, to the downstream server and back. Messages to clients are stored so that
  a broken stream can be resumed. Administrators change users, policies, approvals and the IP whitelist over one
  administrative endpoint.

  The gateway is one process. Between two \<open>await\<close>s a handler runs alone; at an \<open>await\<close> the handlers of other
  requests run. Where this matters the models make it explicit: tables are changed by one definition per statement, and
  either a step relation has one step per statement (approvals, authorization server), or a handler is
  a computation over the shared state with a parameter for what others do at each \<open>await\<close>.

  \<^bold>\<open>Ground.\<close>
  \<^item> \<open>Peta_Prelude\<close>: JavaScript values, strings and the insertion-ordered \<open>Map\<close> (the locale \<open>map_interface\<close>, interpreted on
    association lists), statements on tables, shared lemmas and rule collections.
  \<^item> \<open>Json_Text\<close>: \<open>JSON.stringify\<close>, the order of object members, unique decoding of quoted texts.

  \<^bold>\<open>Components.\<close>
  \<^item> \<open>Policy_Dsl\<close> (\<open>mcp/services/PolicyDslEvaluator.ts\<close>) and \<open>Policy_Engine\<close> (\<open>mcp/services/PolicyEngine.ts\<close>, \<open>repositories/PolicyRepository.ts\<close>,
    \<open>controllers/handlers/PolicyHandler.ts\<close>): the evaluator returns the first matching rule in stable priority
    order; globs agree with a direct definition of wildcards; the cache of policy sets is invisible in every reachable state (the
    locale \<open>policy_source\<close> says what the cache needs of the table).
  \<^item> \<open>Approval_Hash\<close> (\<open>mcp/services/ApprovalRequestHasher.ts\<close>), \<open>Approval_Queue\<close> (\<open>repositories/ApprovalRepository.ts\<close>, \<open>mcp/services/ApprovalService.ts\<close>,
    \<open>controllers/handlers/ApprovalHandler.ts\<close>), \<open>Approval_Limits\<close>: the hash is independent of the order of members and determines the request;
    requests move by conditional statements (locales \<open>approval_transition\<close> and its extensions, interpreted on each of them); one active request per hash, exclusive
    claims, every approved request runs at most once, creation ends, limits over every sliding minute.
  \<^item> \<open>Rate_Limit\<close> (\<open>security/RateLimitService.ts\<close>, \<open>middleware/RateLimitMiddleware.ts\<close>): the exact bound on admitted requests within any minute.
  \<^item> \<open>Ip_Whitelist\<close> (\<open>security/IpWhitelistService.ts\<close> and its table, middleware and handler): addresses as 32-bit words; CIDR
    matching is agreement of prefixes; after every operation the filter decides by the rows of the table.
  \<^item> \<open>Cache_Keys\<close>, \<open>Cache_Policy\<close>, \<open>Cache_Serializer\<close>, \<open>Cache_Store\<close>, \<open>Cache_Manager\<close>, \<open>Singleflight\<close> (\<open>mcp/core/cache\<close>): what may be cached, keys,
    bytes, the stores (the locales \<open>result_store\<close> and \<open>versioned_store\<close>, interpreted on the memory, database and empty stores), and the manager on any
    of them: a hit is a result of the same request for the same identity that saw every purge; a purge is effective; calls in flight are shared.
  \<^item> \<open>Request_Ids\<close> (\<open>mcp/core/RequestIdMapper.ts\<close>, progress and cancellation of \<open>mcp/core/ProxySession.ts\<close> and \<open>mcp/core/ServerManager.ts\<close>): the
    tables stay consistent; identifiers are restored; progress and cancellation reach the request they belong to.
  \<^item> \<open>Event_Store\<close> (\<open>mcp/core/PersistentEventStore.ts\<close>, \<open>repositories/EventRepository.ts\<close>, \<open>mcp/core/EventCleanupService.ts\<close>): a
    client that resumes gets exactly the later messages of its stream and none of another session (locale \<open>event_log\<close>).
  \<^item> \<open>Access_Control\<close> (\<open>mcp/core/ClientSession.ts\<close>, the registry of \<open>mcp/core/ServerManager.ts\<close>, \<open>mcp/core/ServerContext.ts\<close>): permissions, listings and
    names; what a user can use the administrator has granted; listed names resolve to what was listed.
  \<^item> \<open>Resource_Updates\<close> (\<open>mcp/core/GlobalRequestRouter.ts\<close>, the subscriptions of \<open>mcp/core/ServerManager.ts\<close>): subscriptions shared by counting, and the
    distribution of notifications; in every interleaving only sessions that asked for a resource and may access its server are told of its updates; two ways in which
    the count goes wrong.
  \<^item> \<open>Gateway_Run\<close>, \<open>Server_Start\<close>, \<open>Tool_Call\<close>, \<open>Tool_Call_Safety\<close> (\<open>handleToolCall\<close> of \<open>mcp/core/ProxySession.ts\<close> with what it calls):
    a whole tool call over the components above. A call reaches a server only if access, policy and, where asked for, an approval allow it;
    gated calls are never cached; a server gets a call at most three times; notices to administrators are truthful; waiting ends. The locale \<open>world_relation\<close> carries
    a relation between shared states through the parts of the handler.
  \<^item> \<open>OAuth_Base\<close>, \<open>OAuth_Clients\<close>, \<open>OAuth_Tokens\<close>, \<open>OAuth_Grants\<close>, \<open>OAuth_Steps\<close>, \<open>OAuth_Handlers\<close>, \<open>OAuth_Safety\<close>, \<open>OAuth_Use\<close> (\<open>oauth\<close>, \<open>security/TokenValidator.ts\<close>,
    \<open>security/OAuthTokenValidator.ts\<close>, \<open>utils/urlUtils.ts\<close>): the authorization server with its clients, flows and tokens. The handlers refine the transition system
    \<^const>\<open>oauth_step\<close>, whose invariant holds in every reachable state; a code gives tokens once and only to its client; an accepted token rests on an
    authorization of its user; client metadata is fetched from public addresses only; undisturbed, an exchange succeeds. The triples
    of the locales \<open>oauth_triples\<close> and \<open>oauth_quiet\<close> carry a relation between worlds through a handler.
  \<^item> \<open>Session_Data\<close>, \<open>Sessions\<close> (\<open>mcp/core/SessionStore.ts\<close>), \<open>Gatekeeper\<close> (\<open>middleware/AuthMiddleware.ts\<close>, \<open>mcp/modern/ModernMcpAuthMiddleware.ts\<close>), \<open>Gate_Safety\<close>, \<open>Gate_Use\<close>: sessions
    as objects on a heap, in the world of the authorization server. A request that passes acts for the user of its session, and a session of an access token rests on
    the authorization behind it; ending the sessions of a user is complete; reconnection is exact; a valid token opens a session that can be used.
  \<^item> \<open>Permission_Changes\<close> (\<open>comparePermissions\<close> of \<open>mcp/services/CapabilitiesService.ts\<close>), \<open>User_Admin\<close> (\<open>middleware/AdminAuthMiddleware.ts\<close>, \<open>controllers/ConfigController.ts\<close>,
    \<open>controllers/handlers/UserHandler.ts\<close>, \<open>repositories/UserRepository.ts\<close>), \<open>Admin_Safety\<close>, \<open>Admin_Use\<close>: only administrators administer, and the owner's actions are the owner's;
    there is one owner, who cannot be taken away; a disabled user is locked out of the gate above; changes of permissions that clients are not told
    about change nothing they see. The locale \<open>oauth_blind\<close> is for relations that do not look at sessions.

  \<^bold>\<open>Parameters.\<close> What is not code of the repository is an argument: hashing, signing and verifying, URL parsing, encryption, the printing of numbers, name
  resolution and fetching, the answers of downstream servers, failures of the database, random values, the clock, and what other requests do. Each property names what it assumes of
  them, and a witness shows an instance. \<open>JSON.parse\<close> is an argument where a text is read; columns that no modelled decision reads are left out,
  as the theories say.

  \<^bold>\<open>Bounds.\<close> No definition uses fuel. Loops that are not structural have a measure: attempts that remain when rows are created or updated in
  competition, milliseconds until the deadline when an approval or the start of a server is awaited, and the retries a call has left. Numbers are
  rational where JavaScript has doubles, and words where the code computes with bits; times are integers of milliseconds. Character codes above 255 are outside the model.

  \<^bold>\<open>Not modelled.\<close> The wiring in \<open>index.ts\<close> and the routers; the controller of the stateless protocol version (\<open>mcp/modern/ModernMcpController.ts\<close>), which
  repeats the mechanisms of a tool call over types of its own; resources and prompts in \<open>mcp/core/ProxySession.ts\<close> beyond their access checks;
  processes, containers and connections to servers; credentials for outside services (\<open>mcp/auth\<close>, \<open>mcp/oauth\<close>); administration of servers, proxies, backups,
  logs, tunnels and skills; progressive disclosure; sockets; log records; the Redis store of the cache. These are input and output, calls of libraries, or
  administration of records on which the decisions above do not depend. That the restore of a backup and the deletion of the proxy, which replace the table of users, do not run is
  an assumption of the properties of the owner.
\<close>

end
